(* ===== verification/HF_Prelude.thy ===== *)
theory HF_Prelude
  imports Main "HOL-Library.Word"
begin

unbundle bit_operations_syntax

text \<open>
  The shared layer of the development: names for the machine types of the C sources, the
  monad in which stateful and fallible C functions are written, a weakest-precondition
  calculus for it, byte buffers with explicit bounds, and arithmetic on \<open>size_t\<close> with
  the wrap-around written out.

  A C function that reads and changes a state \<open>'s\<close> is a function
  \<open>'s \<Rightarrow> fault + 'a \<times> 's\<close>: it either ends in a \<open>fault\<close> (the process is
  terminated by \<open>LOG_F\<close>/\<open>PLOG_F\<close>, or the C program has undefined behaviour there:
  an access outside an object, a null dereference, a division by zero) or returns a value
  and the new state. A theorem that a function never faults is therefore a statement about
  memory safety and about the absence of fatal exits.
\<close>

section \<open>Machine types\<close>

type_synonym byte = "8 word"
type_synonym u16 = "16 word"
type_synonym u32 = "32 word"
type_synonym u64 = "64 word"

section \<open>Collections of rules\<close>

named_theorems hf_wp \<open>rewrite rules of the weakest-precondition calculus\<close>
named_theorems hf_wlp \<open>rewrite rules of the calculus that allows fatal exits\<close>
named_theorems hf_sz \<open>arithmetic on size_t values that do not wrap\<close>
named_theorems hf_buf \<open>facts about bounded buffers\<close>

section \<open>The fault and state monad\<close>

datatype fault =
    LogFatal       \<comment> \<open>\<open>LOG_F\<close>, \<open>PLOG_F\<close>: the process exits\<close>
  | OutOfBounds    \<comment> \<open>access outside an object\<close>
  | NullDeref      \<comment> \<open>dereference of a null pointer\<close>
  | DivByZero      \<comment> \<open>integer division by zero\<close>
  | BadFree        \<comment> \<open>\<open>free\<close> of a pointer that is not from the heap\<close>

type_synonym ('s, 'a) hm = "'s \<Rightarrow> fault + ('a \<times> 's)"

definition ret :: "'a \<Rightarrow> ('s, 'a) hm" where
  "ret x = (\<lambda>s. Inr (x, s))"

definition bnd :: "('s, 'a) hm \<Rightarrow> ('a \<Rightarrow> ('s, 'b) hm) \<Rightarrow> ('s, 'b) hm" where
  "bnd m f = (\<lambda>s. case m s of Inl e \<Rightarrow> Inl e | Inr (x, s') \<Rightarrow> f x s')"

definition raise :: "fault \<Rightarrow> ('s, 'a) hm" where
  "raise e = (\<lambda>s. Inl e)"

definition gets :: "('s \<Rightarrow> 'a) \<Rightarrow> ('s, 'a) hm" where
  "gets f = (\<lambda>s. Inr (f s, s))"

definition modify :: "('s \<Rightarrow> 's) \<Rightarrow> ('s, unit) hm" where
  "modify f = (\<lambda>s. Inr ((), f s))"

text \<open>A check of the source whose failure ends the run with the given fault.\<close>

definition check :: "fault \<Rightarrow> bool \<Rightarrow> ('s, unit) hm" where
  "check e b = (if b then ret () else raise e)"

text \<open>A partial memory operation: \<open>None\<close> is the fault.\<close>

definition or_fault :: "fault \<Rightarrow> 'a option \<Rightarrow> ('s, 'a) hm" where
  "or_fault e x = (case x of None \<Rightarrow> raise e | Some y \<Rightarrow> ret y)"

text \<open>Run a computation on a component of the state (a nested struct).\<close>

definition zoom :: "('s \<Rightarrow> 't) \<Rightarrow> ('t \<Rightarrow> 's \<Rightarrow> 's) \<Rightarrow> ('t, 'a) hm \<Rightarrow> ('s, 'a) hm" where
  "zoom get put m = (\<lambda>s. case m (get s) of Inl e \<Rightarrow> Inl e | Inr (x, t) \<Rightarrow> Inr (x, put t s))"

text \<open>A counted loop whose body does not use the counter.\<close>

primrec repeatM :: "nat \<Rightarrow> ('s, unit) hm \<Rightarrow> ('s, unit) hm" where
  "repeatM 0 m = ret ()"
| "repeatM (Suc n) m = bnd m (\<lambda>_. repeatM n m)"

text \<open>A loop over the values of its counter.\<close>

primrec forM :: "'a list \<Rightarrow> ('a \<Rightarrow> ('s, unit) hm) \<Rightarrow> ('s, unit) hm" where
  "forM [] f = ret ()"
| "forM (x # xs) f = bnd (f x) (\<lambda>_. forM xs f)"

text \<open>A loop over values that carries an accumulator.\<close>

primrec foldM :: "('a \<Rightarrow> 'b \<Rightarrow> ('s, 'b) hm) \<Rightarrow> 'a list \<Rightarrow> 'b \<Rightarrow> ('s, 'b) hm" where
  "foldM f [] acc = ret acc"
| "foldM f (x # xs) acc = bnd (f x acc) (foldM f xs)"

section \<open>Weakest preconditions\<close>

text \<open>
  \<open>wp m Q s\<close>: started in \<open>s\<close>, \<open>m\<close> ends without a fault and its result and final
  state satisfy \<open>Q\<close> (total correctness: a fault makes it false).
\<close>

definition wp :: "('s, 'a) hm \<Rightarrow> ('a \<Rightarrow> 's \<Rightarrow> bool) \<Rightarrow> 's \<Rightarrow> bool" where
  "wp m Q s = (case m s of Inl e \<Rightarrow> False | Inr (x, s') \<Rightarrow> Q x s')"

lemma wp_ret [hf_wp]: "wp (ret x) Q = Q x"
  by (rule ext) (simp add: wp_def ret_def)

lemma wp_bnd [hf_wp]: "wp (bnd m f) Q = wp m (\<lambda>x. wp (f x) Q)"
  by (rule ext) (simp add: wp_def bnd_def split: sum.split prod.split)

lemma wp_raise [hf_wp]: "wp (raise e) Q = (\<lambda>s. False)"
  by (rule ext) (simp add: wp_def raise_def)

lemma wp_gets [hf_wp]: "wp (gets f) Q = (\<lambda>s. Q (f s) s)"
  by (rule ext) (simp add: wp_def gets_def)

lemma wp_modify [hf_wp]: "wp (modify f) Q = (\<lambda>s. Q () (f s))"
  by (rule ext) (simp add: wp_def modify_def)

lemma wp_check [hf_wp]: "wp (check e b) Q = (\<lambda>s. b \<and> Q () s)"
  by (simp add: check_def wp_ret wp_raise)

lemma wp_or_fault [hf_wp]: "wp (or_fault e x) Q = (\<lambda>s. \<exists>y. x = Some y \<and> Q y s)"
  by (cases x) (simp_all add: or_fault_def wp_ret wp_raise)

lemma wp_zoom [hf_wp]: "wp (zoom get put m) Q = (\<lambda>s. wp m (\<lambda>x t. Q x (put t s)) (get s))"
  by (rule ext) (simp add: wp_def zoom_def split: sum.split prod.split)

lemma wp_if [hf_wp]: "wp (if b then m else n) Q = (if b then wp m Q else wp n Q)"
  by simp

lemma wp_mono: "wp m Q s \<Longrightarrow> (\<And>x t. Q x t \<Longrightarrow> R x t) \<Longrightarrow> wp m R s"
  by (auto simp: wp_def split: sum.splits)

lemma wp_seq: "wp m R s \<Longrightarrow> (\<And>x t. R x t \<Longrightarrow> wp (f x) Q t) \<Longrightarrow> wp (bnd m f) Q s"
  by (auto simp: wp_bnd elim: wp_mono)

lemma wp_conj: "wp m Q s \<Longrightarrow> wp m R s \<Longrightarrow> wp m (\<lambda>x t. Q x t \<and> R x t) s"
  by (auto simp: wp_def split: sum.splits)

lemma wp_result: "wp m Q s \<Longrightarrow> \<exists>x t. m s = Inr (x, t) \<and> Q x t"
  by (auto simp: wp_def split: sum.splits)

lemma wp_repeatM:
  assumes "\<And>s. I s \<Longrightarrow> wp m (\<lambda>_. I) s" and "I s"
  shows "wp (repeatM n m) (\<lambda>_. I) s"
  using assms(2)
proof (induction n arbitrary: s)
  case 0
  then show ?case by (simp add: wp_ret)
next
  case (Suc n)
  from assms(1) [OF Suc.prems] show ?case
    by (auto simp: wp_bnd elim!: wp_mono intro: Suc.IH)
qed

lemma wp_forM:
  assumes "\<And>x s. x \<in> set xs \<Longrightarrow> I s \<Longrightarrow> wp (f x) (\<lambda>_. I) s" and "I s"
  shows "wp (forM xs f) (\<lambda>_. I) s"
  using assms
proof (induction xs arbitrary: s)
  case Nil
  then show ?case by (simp add: wp_ret)
next
  case (Cons x xs)
  have "wp (f x) (\<lambda>_. I) s" using Cons.prems by simp
  moreover have "wp (forM xs f) (\<lambda>_. I) t" if "I t" for t
    using Cons.prems(1) that by (intro Cons.IH) simp_all
  ultimately show ?case by (auto simp: wp_bnd elim: wp_mono)
qed

text \<open>
  \<open>wlp m Q s\<close>: the only fault of \<open>m\<close> is a fatal exit, and if it ends its result and final
  state satisfy \<open>Q\<close>.
\<close>

definition wlp :: "('s, 'a) hm \<Rightarrow> ('a \<Rightarrow> 's \<Rightarrow> bool) \<Rightarrow> 's \<Rightarrow> bool" where
  "wlp m Q s = (case m s of Inl e \<Rightarrow> e = LogFatal | Inr (x, s') \<Rightarrow> Q x s')"

lemma wlp_ret [hf_wlp]: "wlp (ret x) Q = Q x"
  by (rule ext) (simp add: wlp_def ret_def)

lemma wlp_bnd [hf_wlp]: "wlp (bnd m f) Q = wlp m (\<lambda>x. wlp (f x) Q)"
  by (rule ext) (simp add: wlp_def bnd_def split: sum.split prod.split)

lemma wlp_raise [hf_wlp]: "wlp (raise e) Q = (\<lambda>s. e = LogFatal)"
  by (rule ext) (simp add: wlp_def raise_def)

lemma wlp_gets [hf_wlp]: "wlp (gets f) Q = (\<lambda>s. Q (f s) s)"
  by (rule ext) (simp add: wlp_def gets_def)

lemma wlp_modify [hf_wlp]: "wlp (modify f) Q = (\<lambda>s. Q () (f s))"
  by (rule ext) (simp add: wlp_def modify_def)

lemma wlp_check [hf_wlp]: "wlp (check e b) Q = (\<lambda>s. if b then Q () s else e = LogFatal)"
  by (simp add: check_def wlp_ret wlp_raise)

lemma wlp_or_fault [hf_wlp]:
  "wlp (or_fault e x) Q = (\<lambda>s. case x of None \<Rightarrow> e = LogFatal | Some y \<Rightarrow> Q y s)"
  by (cases x) (simp_all add: or_fault_def wlp_ret wlp_raise)

lemma wlp_zoom [hf_wlp]: "wlp (zoom get put m) Q = (\<lambda>s. wlp m (\<lambda>x t. Q x (put t s)) (get s))"
  by (rule ext) (simp add: wlp_def zoom_def split: sum.split prod.split)

lemma wlp_if [hf_wlp]: "wlp (if b then m else n) Q = (if b then wlp m Q else wlp n Q)"
  by simp

lemma wlp_mono: "wlp m Q s \<Longrightarrow> (\<And>x t. Q x t \<Longrightarrow> R x t) \<Longrightarrow> wlp m R s"
  by (auto simp: wlp_def split: sum.splits)

lemma wp_wlp: "wp m Q s \<Longrightarrow> wlp m Q s"
  by (auto simp: wp_def wlp_def split: sum.splits)

lemma wlp_result: "wlp m Q s \<Longrightarrow> m s = Inl LogFatal \<or> (\<exists>x t. m s = Inr (x, t) \<and> Q x t)"
  by (auto simp: wlp_def split: sum.splits)

lemma wlp_foldM:
  assumes "\<And>x acc s. x \<in> set xs \<Longrightarrow> I s \<Longrightarrow> wlp (f x acc) (\<lambda>_. I) s" and "I s"
  shows "wlp (foldM f xs acc) (\<lambda>_. I) s"
  using assms
proof (induction xs arbitrary: acc s)
  case Nil
  then show ?case by (simp add: wlp_ret)
next
  case (Cons x xs)
  have "wlp (f x acc) (\<lambda>_. I) s" using Cons.prems by simp
  moreover have "wlp (foldM f xs a) (\<lambda>_. I) t" if "I t" for a t
    using Cons.prems(1) that by (intro Cons.IH) simp_all
  ultimately show ?case by (auto simp: wlp_bnd elim: wlp_mono)
qed

lemma forM_foldM: "forM xs f = foldM (\<lambda>x _. f x) xs ()"
proof (induction xs)
  case (Cons x xs)
  have "foldM (\<lambda>x _. f x) xs = (\<lambda>_. foldM (\<lambda>x _. f x) xs ())" by (rule ext) simp
  then show ?case using Cons by simp
qed simp

lemma wlp_forM:
  assumes "\<And>x s. x \<in> set xs \<Longrightarrow> I s \<Longrightarrow> wlp (f x) (\<lambda>_. I) s" and "I s"
  shows "wlp (forM xs f) (\<lambda>_. I) s"
  unfolding forM_foldM by (rule wlp_foldM) (use assms in auto)

section \<open>Arithmetic on size_t\<close>

text \<open>
  A \<open>size_t\<close> is a natural number below \<open>2 ^ 64\<close>; C's unsigned subtraction and
  addition wrap.
\<close>

definition sz_sub :: "nat \<Rightarrow> nat \<Rightarrow> nat" where
  "sz_sub a b = (if b \<le> a then a - b else a + 2 ^ 64 - b)"

definition sz_add :: "nat \<Rightarrow> nat \<Rightarrow> nat" where
  "sz_add a b = (a + b) mod 2 ^ 64"

definition sz_mul :: "nat \<Rightarrow> nat \<Rightarrow> nat" where
  "sz_mul a b = (a * b) mod 2 ^ 64"

lemma sz_sub_le [hf_sz]: "b \<le> a \<Longrightarrow> sz_sub a b = a - b"
  by (simp add: sz_sub_def)

lemma sz_add_less [hf_sz]: "a + b < 2 ^ 64 \<Longrightarrow> sz_add a b = a + b"
  by (simp add: sz_add_def)

lemma sz_mul_less [hf_sz]: "a * b < 2 ^ 64 \<Longrightarrow> sz_mul a b = a * b"
  by (simp add: sz_mul_def)

section \<open>Bounded buffers\<close>

text \<open>
  A mapped buffer is a list whose length is the number of mapped elements. Every access
  of a range outside of it is \<open>None\<close>.
\<close>

definition buf_read :: "'a list \<Rightarrow> nat \<Rightarrow> nat \<Rightarrow> 'a list option" where
  "buf_read b off len = (if off + len \<le> length b then Some (take len (drop off b)) else None)"

definition buf_write :: "'a list \<Rightarrow> nat \<Rightarrow> 'a list \<Rightarrow> 'a list option" where
  "buf_write b off xs =
     (if off + length xs \<le> length b
      then Some (take off b @ xs @ drop (off + length xs) b) else None)"

definition buf_get :: "'a list \<Rightarrow> nat \<Rightarrow> 'a option" where
  "buf_get b i = (if i < length b then Some (b ! i) else None)"

definition buf_set :: "'a list \<Rightarrow> nat \<Rightarrow> 'a \<Rightarrow> 'a list option" where
  "buf_set b i x = (if i < length b then Some (b[i := x]) else None)"

lemma buf_read_Some [hf_buf]:
  "buf_read b off len = Some xs \<longleftrightarrow> off + len \<le> length b \<and> xs = take len (drop off b)"
  by (auto simp: buf_read_def)

lemma buf_write_Some [hf_buf]:
  "buf_write b off xs = Some c \<longleftrightarrow>
     off + length xs \<le> length b \<and> c = take off b @ xs @ drop (off + length xs) b"
  by (auto simp: buf_write_def)

lemma buf_get_Some [hf_buf]: "buf_get b i = Some x \<longleftrightarrow> i < length b \<and> x = b ! i"
  by (auto simp: buf_get_def)

lemma buf_set_Some [hf_buf]: "buf_set b i x = Some c \<longleftrightarrow> i < length b \<and> c = b[i := x]"
  by (auto simp: buf_set_def)

lemma length_buf_splice: "off + length xs \<le> length b \<Longrightarrow>
    length (take off b @ xs @ drop (off + length xs) b) = length b"
  by simp

lemma nth_buf_splice:
  assumes "off + length xs \<le> length b" and "i < length b"
  shows "(take off b @ xs @ drop (off + length xs) b) ! i =
    (if off \<le> i \<and> i < off + length xs then xs ! (i - off) else b ! i)"
  using assms by (auto simp: nth_append min_def)

section \<open>Words\<close>

lemma unat_lt_64: "unat (x :: u64) < 2 ^ 64"
  using unsigned_less [of x] by simp

lemma unat_lt_32: "unat (x :: u32) < 2 ^ 32"
  using unsigned_less [of x] by simp

lemma unat_lt_8: "unat (x :: byte) < 256"
  using unsigned_less [of x] by simp

lemma word_xor_eq_0: "(a :: 'a::len word) XOR b = 0 \<longleftrightarrow> a = b"
proof
  assume "a XOR b = 0"
  then have "(a XOR b) XOR b = 0 XOR b" by simp
  then show "a = b" by (simp add: xor.assoc)
qed simp

lemma word_xor_cancel: "(r :: 'a::len word) XOR a = r XOR b \<longleftrightarrow> a = b"
proof
  assume "r XOR a = r XOR b"
  then have "r XOR (r XOR a) = r XOR (r XOR b)" by simp
  then show "a = b" by (simp flip: xor.assoc)
qed simp

lemma unat_ucast_byte: "unat (ucast (x :: 'a::len word) :: byte) = unat x mod 256"
  by (simp add: unsigned_ucast_eq take_bit_eq_mod)

lemma unat_ucast_32_64: "unat (ucast (x :: u32) :: u64) = unat x"
  using unsigned_less [of x, where ?'a = nat] by (simp add: unsigned_ucast_eq take_bit_nat_eq_self)

lemma unat_ucast_8_32: "unat (ucast (x :: byte) :: u32) = unat x"
  using unsigned_less [of x, where ?'a = nat] by (simp add: unsigned_ucast_eq take_bit_nat_eq_self)

lemma unat_ucast_8_64: "unat (ucast (x :: byte) :: u64) = unat x"
  using unsigned_less [of x, where ?'a = nat] by (simp add: unsigned_ucast_eq take_bit_nat_eq_self)

lemma minus_one_64: "(- 1 :: u64) = 18446744073709551615"
  by simp

lemma minus_one_32: "(- 1 :: u32) = 4294967295"
  by simp

lemma unat_of_nat_64: "n < 2 ^ 64 \<Longrightarrow> unat (of_nat n :: u64) = n"
  by (simp add: unat_of_nat)

section \<open>Searching lists\<close>

lemma find_append:
  "find P (xs @ ys) = (case find P xs of None \<Rightarrow> find P ys | Some x \<Rightarrow> Some x)"
  by (induction xs) auto

lemma find_upt_skip:
  assumes "\<And>i. k \<le> i \<Longrightarrow> i < m \<Longrightarrow> \<not> P i" and "k \<le> m" and "m \<le> n"
  shows "find P [k..<n] = find P [m..<n]"
proof -
  have "find P [k..<m] = None" using assms(1) by (auto simp: find_None_iff)
  moreover have "[k..<n] = [k..<m] @ [m..<n]" using assms(2,3) upt_add_eq_append [of k m "n - m"] by simp
  ultimately show ?thesis by (simp add: find_append)
qed

end
