(* ===== verification/HF_Libc.thy ===== *)
theory HF_Libc
  imports HF_Prelude
begin

text \<open>
  The parts of the C standard library the sources use, on byte strings. A C string is the
  list of its bytes without the terminating NUL; a \<open>char\<close> array is a list that holds
  the NUL too.
\<close>

section \<open>Characters and strings\<close>

definition str :: "string \<Rightarrow> byte list" where
  "str s = map of_char s"

definition isdigit :: "byte \<Rightarrow> bool" where
  "isdigit c \<longleftrightarrow> 48 \<le> c \<and> c \<le> 57"

definition isspace :: "byte \<Rightarrow> bool" where
  "isspace c \<longleftrightarrow> c = 32 \<or> (9 \<le> c \<and> c \<le> 13)"

text \<open>The value of a digit in base 16.\<close>

definition xdigit :: "byte \<Rightarrow> nat option" where
  "xdigit c =
     (if 48 \<le> c \<and> c \<le> 57 then Some (unat c - 48)
      else if 65 \<le> c \<and> c \<le> 70 then Some (unat c - 55)
      else if 97 \<le> c \<and> c \<le> 102 then Some (unat c - 87)
      else None)"

text \<open>The bytes of a \<open>char\<close> array up to its first NUL.\<close>

definition cstr :: "byte list \<Rightarrow> byte list" where
  "cstr b = takeWhile (\<lambda>c. c \<noteq> 0) b"

text \<open>\<open>strncmp (a, b, n) == 0\<close>.\<close>

definition strncmp_eq :: "byte list \<Rightarrow> byte list \<Rightarrow> nat \<Rightarrow> bool" where
  "strncmp_eq a b n \<longleftrightarrow> take n a = take n b"

text \<open>
  \<open>strtoull (s, NULL, 16)\<close>: blanks, a sign, an optional \<open>0x\<close> before a digit, then
  the longest run of digits; \<open>ULLONG_MAX\<close> when the value does not fit.
\<close>

definition strip_sign :: "byte list \<Rightarrow> bool \<times> byte list" where
  "strip_sign s = (case s of c # r \<Rightarrow> if c = 45 then (True, r) else if c = 43 then (False, r)
     else (False, s) | [] \<Rightarrow> (False, s))"

definition strip_0x :: "byte list \<Rightarrow> byte list" where
  "strip_0x s = (case s of a # b # c # r \<Rightarrow>
       if a = 48 \<and> (b = 120 \<or> b = 88) \<and> xdigit c \<noteq> None then c # r else s
     | _ \<Rightarrow> s)"

definition hex_value :: "byte list \<Rightarrow> nat" where
  "hex_value s = foldl (\<lambda>v c. 16 * v + the (xdigit c)) 0 (takeWhile (\<lambda>c. xdigit c \<noteq> None) s)"

definition strtoull16 :: "byte list \<Rightarrow> u64" where
  "strtoull16 s =
     (case strip_sign (dropWhile isspace s) of (neg, r) \<Rightarrow>
        (let v = hex_value (strip_0x r)
         in if 2 ^ 64 \<le> v then - 1 else if neg then - of_nat v else of_nat v))"

text \<open>
  What repeated calls of \<open>getline\<close> return for a file: the lines with their newline.
\<close>

fun getlines_acc :: "byte list \<Rightarrow> byte list \<Rightarrow> byte list list" where
  "getlines_acc acc [] = (if acc = [] then [] else [rev acc])"
| "getlines_acc acc (c # r) =
     (if c = 10 then rev (c # acc) # getlines_acc [] r else getlines_acc (c # acc) r)"

definition getlines :: "byte list \<Rightarrow> byte list list" where
  "getlines s = getlines_acc [] s"

text \<open>\<open>strchr\<close> and \<open>strrchr\<close> as indices.\<close>

definition strchr :: "byte list \<Rightarrow> byte \<Rightarrow> nat option" where
  "strchr s c = (let n = length (takeWhile (\<lambda>x. x \<noteq> c) s) in if n < length s then Some n else None)"

definition strrchr :: "byte list \<Rightarrow> byte \<Rightarrow> nat option" where
  "strrchr s c = map_option (\<lambda>n. length s - 1 - n) (strchr (rev s) c)"

section \<open>Printing numbers\<close>

fun dec_nat :: "nat \<Rightarrow> byte list" where
  "dec_nat n =
     (if n < 10 then [of_nat (48 + n)] else dec_nat (n div 10) @ [of_nat (48 + n mod 10)])"

declare dec_nat.simps [simp del]

definition dec_int :: "int \<Rightarrow> byte list" where
  "dec_int i = (if i < 0 then 45 # dec_nat (nat (- i)) else dec_nat (nat i))"

definition hex_digit :: "nat \<Rightarrow> byte" where
  "hex_digit d = (if d < 10 then of_nat (48 + d) else of_nat (87 + d))"

text \<open>\<open>%0<w>x\<close> for a value that has at most \<open>w\<close> digits: exactly \<open>w\<close> digits.\<close>

primrec hex_fixed :: "nat \<Rightarrow> nat \<Rightarrow> byte list" where
  "hex_fixed 0 n = []"
| "hex_fixed (Suc w) n = hex_fixed w (n div 16) @ [hex_digit (n mod 16)]"

text \<open>\<open>%-<w>s\<close>: padding with blanks on the right.\<close>

definition pad_right :: "nat \<Rightarrow> byte list \<Rightarrow> byte list" where
  "pad_right w s = s @ replicate (w - length s) 32"

text \<open>What \<open>snprintf\<close> leaves in a buffer of \<open>sz\<close> bytes: the text cut to
  \<open>sz - 1\<close> bytes. The \<open>char\<close> array is this text and a NUL.\<close>

definition snprintf_cut :: "nat \<Rightarrow> byte list \<Rightarrow> byte list" where
  "snprintf_cut sz txt = take (sz - 1) txt"

section \<open>Facts\<close>

lemma length_dec_nat_bound: "n < 10 ^ k \<Longrightarrow> 0 < k \<Longrightarrow> length (dec_nat n) \<le> k"
proof (induction k arbitrary: n)
  case 0
  then show ?case by simp
next
  case (Suc k)
  show ?case
  proof (cases "n < 10")
    case True
    then show ?thesis by (subst dec_nat.simps) simp
  next
    case False
    then have "n div 10 < 10 ^ k" and "0 < k"
      using Suc.prems by (auto simp: less_mult_imp_div_less mult.commute intro: ccontr)
    with Suc.IH have "length (dec_nat (n div 10)) \<le> k" by blast
    with False show ?thesis by (subst dec_nat.simps) simp
  qed
qed

lemma dec_nat_nonempty: "dec_nat n \<noteq> []"
  by (subst dec_nat.simps) simp

lemma isdigit_of_nat: "d < 10 \<Longrightarrow> isdigit (of_nat (48 + d))"
proof -
  assume "d < 10"
  then have "d = 0 \<or> d = 1 \<or> d = 2 \<or> d = 3 \<or> d = 4 \<or> d = 5 \<or> d = 6 \<or> d = 7 \<or> d = 8 \<or> d = 9"
    by arith
  then show ?thesis by (auto simp: isdigit_def)
qed

lemma dec_nat_digits: "c \<in> set (dec_nat n) \<Longrightarrow> isdigit c"
proof (induction n rule: dec_nat.induct)
  case (1 n)
  show ?case
  proof (cases "n < 10")
    case True
    with "1.prems" have "c = of_nat (48 + n)" by (simp add: dec_nat.simps [of n])
    with True show ?thesis by (simp only: isdigit_of_nat)
  next
    case False
    with "1.prems" have "c \<in> set (dec_nat (n div 10)) \<or> c = of_nat (48 + n mod 10)"
      by (auto simp: dec_nat.simps [of n])
    moreover have "isdigit (of_nat (48 + n mod 10))" by (rule isdigit_of_nat) simp
    ultimately show ?thesis using "1.IH" [OF False] by blast
  qed
qed

lemma length_hex_fixed [simp]: "length (hex_fixed w n) = w"
  by (induction w arbitrary: n) simp_all

lemma length_pad_right [simp]: "length (pad_right w s) = max w (length s)"
  by (simp add: pad_right_def max_def)

lemma length_snprintf_cut [simp]: "length (snprintf_cut n t) = min (n - 1) (length t)"
  by (simp add: snprintf_cut_def)

lemma hex_digit_inj: "hex_digit a = hex_digit b \<Longrightarrow> a < 16 \<Longrightarrow> b < 16 \<Longrightarrow> a = b"
proof -
  have num: "a = 0 \<or> a = 1 \<or> a = 2 \<or> a = 3 \<or> a = 4 \<or> a = 5 \<or> a = 6 \<or> a = 7 \<or>
      a = 8 \<or> a = 9 \<or> a = 10 \<or> a = 11 \<or> a = 12 \<or> a = 13 \<or> a = 14 \<or> a = 15"
    if "a < 16" for a :: nat using that by arith
  assume eq: "hex_digit a = hex_digit b" and ab: "a < 16" "b < 16"
  have val: "unat (hex_digit a) = (if a < 10 then 48 + a else 87 + a)" if "a < 16" for a
    using num [OF that] by (auto simp: hex_digit_def)
  from eq have "unat (hex_digit a) = unat (hex_digit b)" by simp
  with ab show ?thesis by (simp add: val split: if_splits)
qed

lemma hex_fixed_inj:
  "hex_fixed w m = hex_fixed w n \<Longrightarrow> m < 16 ^ w \<Longrightarrow> n < 16 ^ w \<Longrightarrow> m = n"
proof (induction w arbitrary: m n)
  case 0
  then show ?case by simp
next
  case (Suc w)
  from Suc.prems have "hex_fixed w (m div 16) = hex_fixed w (n div 16)"
    and d: "hex_digit (m mod 16) = hex_digit (n mod 16)" by simp_all
  moreover have "m div 16 < 16 ^ w" and "n div 16 < 16 ^ w"
    using Suc.prems by (simp_all add: less_mult_imp_div_less mult.commute)
  ultimately have "m div 16 = n div 16" using Suc.IH by blast
  moreover have "m mod 16 = n mod 16" using hex_digit_inj [OF d] by simp
  ultimately show ?case by (metis div_mult_mod_eq)
qed

end
