(* ===== verification/HF_Util.thy ===== *)
theory HF_Util
  imports HF_Libc
begin

text \<open>
  \<open>honggfuzz/libhfcommon/util.c\<close>, first part: the random number generator, the
  conversion of buffers to printable text, string helpers, the interpolation search, the
  decoder of C escapes, CPU pinning and signal names.
\<close>

section \<open>Random numbers\<close>

text \<open>
  The thread-local generator: whether it was seeded, its four words, and the bytes that
  \<open>arc4random_buf\<close> (or \<open>/dev/urandom\<close>) will deliver when it is first used.
\<close>

record rng =
  rndThreadOnce :: bool
  rndState :: "u64 \<times> u64 \<times> u64 \<times> u64"
  entropy :: "u64 \<times> u64 \<times> u64 \<times> u64"

definition util_rndInitThread :: "rng \<Rightarrow> rng" where
  "util_rndInitThread g = g\<lparr>rndState := entropy g\<rparr>"

definition util_RotL :: "u64 \<Rightarrow> nat \<Rightarrow> u64" where
  "util_RotL x k = (push_bit k x) OR (drop_bit (64 - k) x)"

definition xoshiro_next :: "u64 \<times> u64 \<times> u64 \<times> u64 \<Rightarrow> u64 \<times> (u64 \<times> u64 \<times> u64 \<times> u64)" where
  "xoshiro_next st = (case st of (s0, s1, s2, s3) \<Rightarrow>
     (let result = util_RotL (s0 + s3) 23 + s0;
          t = push_bit 17 s1;
          s2 = s2 XOR s0;
          s3 = s3 XOR s1;
          s1 = s1 XOR s2;
          s0 = s0 XOR s3;
          s2 = s2 XOR t;
          s3 = util_RotL s3 45
      in (result, (s0, s1, s2, s3))))"

definition util_InternalRnd64 :: "(rng, u64) hm" where
  "util_InternalRnd64 = (\<lambda>g.
     let g = (if \<not> rndThreadOnce g then util_rndInitThread (g\<lparr>rndThreadOnce := True\<rparr>) else g);
         (result, st) = xoshiro_next (rndState g)
     in Inr (result, g\<lparr>rndState := st\<rparr>))"

definition util_rnd64 :: "(rng, u64) hm" where
  "util_rnd64 = util_InternalRnd64"

definition util_rndGet :: "u64 \<Rightarrow> u64 \<Rightarrow> (rng, u64) hm" where
  "util_rndGet mn mx =
     (if mn > mx then raise LogFatal
      else if mx = - 1 then util_rnd64
      else bnd util_rnd64 (\<lambda>v. ret (v mod (mx - mn + 1) + mn)))"

definition util_rndPrintable :: "(rng, byte) hm" where
  "util_rndPrintable = bnd (util_rndGet 32 126) (\<lambda>v. ret (ucast v))"

definition util_turnToPrintable :: "byte list \<Rightarrow> byte list" where
  "util_turnToPrintable buf = map (\<lambda>b. b mod 95 + 32) buf"

primrec util_rndBufPrintable :: "nat \<Rightarrow> (rng, byte list) hm" where
  "util_rndBufPrintable 0 = ret []"
| "util_rndBufPrintable (Suc n) =
     bnd util_rndPrintable (\<lambda>b. bnd (util_rndBufPrintable n) (\<lambda>bs. ret (b # bs)))"

primrec util_rndBuf :: "nat \<Rightarrow> (rng, byte list) hm" where
  "util_rndBuf 0 = ret []"
| "util_rndBuf (Suc n) =
     bnd util_InternalRnd64 (\<lambda>v. bnd (util_rndBuf n) (\<lambda>bs. ret (ucast (drop_bit 40 v) # bs)))"

definition printable :: "byte \<Rightarrow> bool" where
  "printable b \<longleftrightarrow> 32 \<le> b \<and> b \<le> 126"

section \<open>Strings, hashing, time\<close>

text \<open>The text the format expands to is \<open>txt\<close>; the result is the return value and the string.\<close>

definition util_vssnprintf :: "byte list \<Rightarrow> nat \<Rightarrow> byte list \<Rightarrow> int \<times> byte list" where
  "util_vssnprintf s sz txt =
     (let len = length s
      in if len \<ge> sz then (int len, s)
         else (let left = sz - len in (int (length txt), s @ snprintf_cut left txt)))"

definition util_ssnprintf :: "byte list \<Rightarrow> nat \<Rightarrow> byte list \<Rightarrow> int \<times> byte list" where
  "util_ssnprintf s sz txt = util_vssnprintf s sz txt"

definition util_strStartsWith :: "byte list \<Rightarrow> byte list \<Rightarrow> bool" where
  "util_strStartsWith s tofind = (if strncmp_eq s tofind (length tofind) then True else False)"

text \<open>\<open>char\<close> is signed: each byte is sign-extended before it is added.\<close>

definition util_hash :: "byte list \<Rightarrow> u64" where
  "util_hash buf = foldl (\<lambda>ret b.
     let ret = ret + scast b;
         ret = ret + push_bit 10 ret
     in ret XOR drop_bit 6 ret) 0 buf"

definition util_timeNowUSecs :: "int \<Rightarrow> int \<Rightarrow> int" where
  "util_timeNowUSecs tv_sec tv_usec = tv_sec * 1000000 + tv_usec"

text \<open>The \<open>timespec\<close> passed to \<open>nanosleep\<close>, when it is called at all.\<close>

definition util_sleepForMSec :: "u64 \<Rightarrow> (u64 \<times> u64) option" where
  "util_sleepForMSec msec =
     (if msec = 0 then None else Some (msec div 1000, (msec mod 1000) * 1000000))"

definition util_getUINT32 :: "byte list \<Rightarrow> fault + u64" where
  "util_getUINT32 buf = (case buf_read buf 0 4 of
     Some bs \<Rightarrow> Inr (horner_sum ucast 256 bs) | None \<Rightarrow> Inl OutOfBounds)"

definition util_getUINT64 :: "byte list \<Rightarrow> fault + u64" where
  "util_getUINT64 buf = (case buf_read buf 0 8 of
     Some bs \<Rightarrow> Inr (horner_sum ucast 256 bs) | None \<Rightarrow> Inl OutOfBounds)"

fun isANumber_loop :: "byte list \<Rightarrow> bool" where
  "isANumber_loop [] = True"
| "isANumber_loop (c # s) = (if \<not> isdigit c \<and> c \<noteq> 120 then False else isANumber_loop s)"

definition util_isANumber :: "byte list \<Rightarrow> bool" where
  "util_isANumber s =
     (case s of [] \<Rightarrow> False | c # _ \<Rightarrow> if \<not> isdigit c then False else isANumber_loop s)"

section \<open>CPU pinning\<close>

definition pin_set :: "u32 \<Rightarrow> u32 \<Rightarrow> u32 \<Rightarrow> u32 list" where
  "pin_set threadno cpucnt num_cpus =
     (let start_cpu = (threadno * cpucnt) mod num_cpus
      in map (\<lambda>i. (start_cpu + of_nat i) mod num_cpus) [0 ..< unat cpucnt])"

text \<open>
  The Linux branch. \<open>r\<close> is what \<open>sysconf (_SC_NPROCESSORS_ONLN)\<close> returns,
  \<open>setaffinity\<close> whether the kernel accepts a CPU set. The second component is the set
  that was requested, if any.
\<close>

definition util_PinThreadToCPUs ::
  "u32 \<Rightarrow> u32 \<Rightarrow> int \<Rightarrow> (u32 set \<Rightarrow> bool) \<Rightarrow> bool \<times> u32 set option" where
  "util_PinThreadToCPUs threadno cpucnt r setaffinity =
     (if cpucnt = 0 then (True, None)
      else if r = - 1 then (False, None)
      else let num_cpus = of_int r
           in if cpucnt > num_cpus then (False, None)
              else let S = set (pin_set threadno cpucnt num_cpus)
                   in if \<not> setaffinity S then (False, Some S) else (True, Some S))"

section \<open>Interpolation search\<close>

partial_function (option) fas_loop :: "u64 list \<Rightarrow> u64 \<Rightarrow> nat \<Rightarrow> nat \<Rightarrow> (fault + int) option" where
  "fas_loop array key low high =
     (if low < length array \<and> high < length array then
        (if array ! high \<noteq> array ! low \<and> key \<ge> array ! low \<and> key \<le> array ! high then
           (let mid = sz_add low (sz_mul (unat (key - array ! low))
                        (sz_sub high low div unat (array ! high - array ! low)))
            in if mid < length array then
                 (if array ! mid < key then fas_loop array key (sz_add mid 1) high
                  else if key < array ! mid then fas_loop array key low (sz_sub mid 1)
                  else Some (Inr (int mid)))
               else Some (Inl OutOfBounds))
         else if key = array ! low then Some (Inr (int low))
         else Some (Inr (- 1)))
      else Some (Inl OutOfBounds))"

definition fastArray64Search :: "u64 list \<Rightarrow> nat \<Rightarrow> u64 \<Rightarrow> (fault + int) option" where
  "fastArray64Search array arraySz key = fas_loop array key 0 (sz_sub arraySz 1)"

section \<open>C escapes\<close>

definition esc_byte :: "byte \<Rightarrow> byte" where
  "esc_byte c = (if c = 97 then 7 else if c = 114 then 13 else if c = 110 then 10
     else if c = 116 then 9 else if c = 48 then 0 else c)"

text \<open>
  The array \<open>s\<close> with the read index \<open>i\<close> and the write index \<open>out\<close> (never ahead of
  \<open>i\<close>), decoded in place.
\<close>

function decode_loop :: "byte list \<Rightarrow> nat \<Rightarrow> nat \<Rightarrow> fault + (byte list \<times> nat)" where
  "decode_loop s i out =
     (if i \<ge> length s \<or> out \<ge> length s then Inl OutOfBounds
      else if s ! i = 0 \<or> s ! i = 34 then Inr (s[out := 0], out)
      else if s ! i = 92 then
        (if i + 1 \<ge> length s then Inl OutOfBounds
         else if s ! (i + 1) = 0 then decode_loop s (i + 2) (out + 1)
         else if s ! (i + 1) = 120 then
           (if i + 2 \<ge> length s then Inl OutOfBounds
            else if s ! (i + 2) = 0 then decode_loop (s[out := s ! (i + 1)]) (i + 2) (out + 1)
            else if i + 3 \<ge> length s then Inl OutOfBounds
            else if s ! (i + 3) = 0 then decode_loop (s[out := s ! (i + 1)]) (i + 2) (out + 1)
            else decode_loop (s[out := ucast (strtoull16 [s ! (i + 2), s ! (i + 3)])])
                   (i + 4) (out + 1))
         else decode_loop (s[out := esc_byte (s ! (i + 1))]) (i + 2) (out + 1))
      else decode_loop (s[out := s ! i]) (i + 1) (out + 1))"
  by pat_completeness auto
termination
  by (relation "measure (\<lambda>(s, i, out). length s - i)") auto

declare decode_loop.simps [simp del]

text \<open>The array after decoding in place and the length that is returned.\<close>

definition util_decodeCString :: "byte list \<Rightarrow> fault + (byte list \<times> nat)" where
  "util_decodeCString s = decode_loop s 0 0"

section \<open>Signal names\<close>

text \<open>The table for Linux: the entries whose \<open>#if defined\<close> holds there, in order.\<close>

definition sigNames :: "(int \<times> byte list) list" where
  "sigNames = map (\<lambda>(n, s). (n, str s))
    [(1, ''SIGHUP''), (2, ''SIGINT''), (3, ''SIGQUIT''), (4, ''SIGILL''), (5, ''SIGTRAP''),
     (6, ''SIGABRT''), (6, ''SIGIOT''), (7, ''SIGBUS''), (8, ''SIGFPE''), (9, ''SIGKILL''),
     (10, ''SIGUSR1''), (11, ''SIGSEGV''), (12, ''SIGUSR2''), (13, ''SIGPIPE''),
     (14, ''SIGALRM''), (15, ''SIGTERM''), (16, ''SIGSTKFLT''), (17, ''SIGCHLD''),
     (18, ''SIGCONT''), (19, ''SIGSTOP''), (20, ''SIGTSTP''), (21, ''SIGTTIN''),
     (22, ''SIGTTOU''), (23, ''SIGURG''), (24, ''SIGXCPU''), (25, ''SIGXFSZ''),
     (26, ''SIGVTALRM''), (27, ''SIGPROF''), (28, ''SIGWINCH''), (29, ''SIGIO''),
     (29, ''SIGPOLL''), (30, ''SIGPWR''), (31, ''SIGSYS'')]"

fun sig_lookup :: "(int \<times> byte list) list \<Rightarrow> int \<Rightarrow> byte list option" where
  "sig_lookup [] signo = None"
| "sig_lookup ((n, s) # r) signo = (if signo = n then Some s else sig_lookup r signo)"

definition util_sigName :: "int \<Rightarrow> byte list" where
  "util_sigName signo =
     (case sig_lookup sigNames signo of
        Some s \<Rightarrow> s
      | None \<Rightarrow>
          if signo \<ge> 34 \<and> signo \<le> 64
          then snprintf_cut 32 (str ''SIG'' @ dec_int signo @ str ''-RTMIN+'' @ dec_int (signo - 34))
          else snprintf_cut 32 (str ''UNKNOWN-'' @ dec_int signo))"

section \<open>Facts about the generator\<close>

lemma word_rndGet_range:
  fixes v mn mx :: u64
  assumes "mn \<le> mx" and "mx \<noteq> - 1"
  shows "mn \<le> v mod (mx - mn + 1) + mn \<and> v mod (mx - mn + 1) + mn \<le> mx"
proof -
  have mx: "unat mx < 2 ^ 64 - 1"
  proof (rule ccontr)
    assume "\<not> ?thesis"
    moreover have "unat mx < 2 ^ 64" by (rule unat_lt_64)
    ultimately have "unat mx = unat (- 1 :: u64)" by (simp add: unsigned_minus_1_eq_mask mask_eq_exp_minus_1)
    with assms(2) show False by (metis unsigned_word_eqI)
  qed
  have le: "unat mn \<le> unat mx" using assms(1) by (simp add: word_le_nat_alt)
  have d: "unat (mx - mn + 1) = unat mx - unat mn + 1"
  proof -
    have "unat (mx - mn) = unat mx - unat mn" using assms(1) by (simp add: unat_sub)
    moreover have "unat (mx - mn) + 1 < 2 ^ 64" using mx calculation by linarith
    ultimately show ?thesis by (simp add: unat_word_ariths)
  qed
  have r: "unat (v mod (mx - mn + 1)) < unat mx - unat mn + 1"
    by (simp add: unat_mod d)
  have s: "unat (v mod (mx - mn + 1) + mn) = unat (v mod (mx - mn + 1)) + unat mn"
  proof -
    have "unat (v mod (mx - mn + 1)) + unat mn < 2 ^ 64" using r mx le by linarith
    then show ?thesis by (simp add: unat_word_ariths)
  qed
  show ?thesis using r s le by (simp add: word_le_nat_alt)
qed

lemma wp_rnd64I: "(\<And>v h. Q v h) \<Longrightarrow> wp util_rnd64 Q g"
  by (simp add: wp_def util_rnd64_def util_InternalRnd64_def Let_def split: prod.split)

lemma wp_InternalRnd64I: "(\<And>v h. Q v h) \<Longrightarrow> wp util_InternalRnd64 Q g"
  using wp_rnd64I by (simp add: util_rnd64_def)

lemma wp_rndGetI:
  assumes "mn \<le> mx" and "mx \<noteq> - 1" and "\<And>v h. mn \<le> v \<Longrightarrow> v \<le> mx \<Longrightarrow> Q v h"
  shows "wp (util_rndGet mn mx) Q g"
proof -
  have "\<not> mx < mn" using assms(1) by simp
  then show ?thesis
    using assms(2,3) word_rndGet_range [OF assms(1,2)]
    by (auto simp: util_rndGet_def hf_wp intro!: wp_rnd64I)
qed

lemma printable_turn: "printable (b mod 95 + 32)"
proof -
  have r: "unat (b mod 95) < 95" by (simp add: unat_mod)
  then have "unat (b mod 95 + 32) = unat (b mod 95) + 32"
    by (simp add: unat_word_ariths)
  with r show ?thesis by (simp add: printable_def word_le_nat_alt)
qed

lemma util_turnToPrintable_printable: "b \<in> set (util_turnToPrintable xs) \<Longrightarrow> printable b"
  by (auto simp: util_turnToPrintable_def printable_turn)

lemma length_turnToPrintable [simp]: "length (util_turnToPrintable xs) = length xs"
  by (simp add: util_turnToPrintable_def)

lemma printable_ucast: "32 \<le> v \<Longrightarrow> v \<le> (126 :: u64) \<Longrightarrow> printable (ucast v)"
proof -
  assume v: "32 \<le> v" "v \<le> (126 :: u64)"
  have "unat (ucast v :: byte) = unat v mod 256" by (rule unat_ucast_byte)
  with v show ?thesis by (simp add: printable_def word_le_nat_alt)
qed

lemma wp_rndPrintableI: "(\<And>b h. printable b \<Longrightarrow> Q b h) \<Longrightarrow> wp util_rndPrintable Q g"
  unfolding util_rndPrintable_def
  by (simp add: hf_wp) (rule wp_rndGetI, auto simp: hf_wp intro: printable_ucast)

lemma wp_rndBufPrintableI:
  "(\<And>bs h. length bs = n \<Longrightarrow> \<forall>b\<in>set bs. printable b \<Longrightarrow> Q bs h) \<Longrightarrow>
   wp (util_rndBufPrintable n) Q g"
proof (induction n arbitrary: Q g)
  case 0
  then show ?case by (simp add: hf_wp)
next
  case (Suc n)
  then show ?case by (auto simp: hf_wp intro!: wp_rndPrintableI)
qed

lemma wp_rndBufI:
  "(\<And>bs h. length bs = n \<Longrightarrow> Q bs h) \<Longrightarrow> wp (util_rndBuf n) Q g"
proof (induction n arbitrary: Q g)
  case 0
  then show ?case by (simp add: hf_wp)
next
  case (Suc n)
  then show ?case by (auto simp: hf_wp intro!: wp_InternalRnd64I)
qed

lemma push_bit_fixpoint: "x = push_bit 17 (x :: u64) \<Longrightarrow> x = 0"
proof (rule bit_word_eqI)
  fix n
  assume x: "x = push_bit 17 x" and "n < LENGTH(64)"
  have "\<not> bit x n" for n
  proof (induction n rule: less_induct)
    case (less n)
    have "bit x n \<longleftrightarrow> n < 64 \<and> 17 \<le> n \<and> bit x (n - 17)"
      by (subst x) (auto simp: bit_simps)
    with less.IH [of "n - 17"] show ?case by auto
  qed
  then show "bit x n = bit 0 n" by simp
qed

lemma util_RotL_zero: "util_RotL x 45 = 0 \<Longrightarrow> x = 0"
proof (rule bit_word_eqI)
  fix n
  assume z: "util_RotL x 45 = 0" and n: "n < LENGTH(64)"
  have z': "\<not> bit (util_RotL x 45) m" for m using z by simp
  show "bit x n = bit 0 n"
  proof (cases "n < 19")
    case True
    then show ?thesis using z' [of "n + 45"] by (simp add: util_RotL_def bit_simps)
  next
    case False
    then show ?thesis using z' [of "n - 19"] n by (simp add: util_RotL_def bit_simps)
  qed
qed

lemma xoshiro_next_nonzero:
  assumes "st \<noteq> (0, 0, 0, 0)"
  shows "snd (xoshiro_next st) \<noteq> (0, 0, 0, 0)"
proof
  obtain s0 s1 s2 s3 where st: "st = (s0, s1, s2, s3)" by (cases st)
  assume z: "snd (xoshiro_next st) = (0, 0, 0, 0)"
  have e: "s3 XOR s1 = 0" "s0 XOR (s3 XOR s1) = 0" "s1 XOR (s2 XOR s0) = 0"
      "(s2 XOR s0) XOR push_bit 17 s1 = 0"
    using z by (auto simp: st xoshiro_next_def Let_def dest!: util_RotL_zero)
  have s0: "s0 = 0" using e(1,2) by simp
  have s2: "s2 = s1" using e(3) s0 by (simp add: word_xor_eq_0)
  have "s1 = 0" using e(4) s0 s2 by (intro push_bit_fixpoint) (simp add: word_xor_eq_0)
  with e(1) s0 s2 assms st show False by simp
qed

section \<open>Facts about the interpolation search\<close>

text \<open>The probe stays between the two bounds, and no multiplication wraps.\<close>

lemma probe_bounds:
  fixes al ah key :: u64
  assumes "low \<le> high" and "high < 2 ^ 64" and "al \<le> key" and "key \<le> ah" and "ah \<noteq> al"
  defines "mid \<equiv> sz_add low (sz_mul (unat (key - al)) (sz_sub high low div unat (ah - al)))"
  shows "low \<le> mid \<and> mid \<le> high"
proof -
  let ?d = "unat ah - unat al" and ?k = "unat key - unat al" and ?w = "high - low"
  have k: "unat (key - al) = ?k" using assms(3) by (simp add: unat_sub)
  have d: "unat (ah - al) = ?d" using assms(3,4) by (simp add: unat_sub order_trans)
  have kd: "?k \<le> ?d" using assms(3,4) by (simp add: word_le_nat_alt)
  have "?k * (?w div ?d) \<le> ?d * (?w div ?d)" using kd by (rule mult_le_mono1)
  also have "\<dots> \<le> ?w" by (metis div_mult_mod_eq le_add1 mult.commute)
  finally have le: "?k * (?w div ?d) \<le> ?w" .
  have "mid = low + ?k * (?w div ?d)"
    unfolding mid_def k d using le assms(1,2) by (simp add: hf_sz)
  with le assms(1) show ?thesis by linarith
qed

text \<open>What is searched for lies between the bounds, if it is there at all.\<close>

definition fas_within :: "u64 list \<Rightarrow> u64 \<Rightarrow> nat \<Rightarrow> nat \<Rightarrow> bool" where
  "fas_within a key low high \<longleftrightarrow>
     low \<le> high \<and> high < length a \<and>
     (key \<in> set a \<longrightarrow> (\<exists>i. low \<le> i \<and> i \<le> high \<and> a ! i = key))"

definition fas_answer :: "u64 list \<Rightarrow> u64 \<Rightarrow> int \<Rightarrow> bool" where
  "fas_answer a key r \<longleftrightarrow>
     (if key \<in> set a then \<exists>i < length a. r = int i \<and> a ! i = key else r = - 1)"

lemma fas_narrow_up:
  assumes "sorted a" and "fas_within a key low high" and "mid < high" and "a ! mid < key"
  shows "fas_within a key (mid + 1) high"
proof -
  have "\<exists>i. mid + 1 \<le> i \<and> i \<le> high \<and> a ! i = key" if mem: "key \<in> set a"
  proof -
    obtain i where i: "low \<le> i" "i \<le> high" "a ! i = key"
      using assms(2) mem by (auto simp: fas_within_def)
    have "mid < i"
      using i assms sorted_nth_mono [OF assms(1), of i mid] by (force simp: fas_within_def not_less)
    with i show ?thesis by (intro exI [of _ i]) simp
  qed
  then show ?thesis using assms by (simp add: fas_within_def)
qed

lemma fas_narrow_down:
  assumes "sorted a" and "fas_within a key low high" and "low < mid" and "mid \<le> high"
    and "key < a ! mid"
  shows "fas_within a key low (mid - 1)"
proof -
  have "\<exists>i. low \<le> i \<and> i \<le> mid - 1 \<and> a ! i = key" if mem: "key \<in> set a"
  proof -
    obtain i where i: "low \<le> i" "i \<le> high" "a ! i = key"
      using assms(2) mem by (auto simp: fas_within_def)
    have "i < mid"
      using i assms sorted_nth_mono [OF assms(1), of mid i] by (force simp: fas_within_def not_less)
    with i show ?thesis by (intro exI [of _ i]) auto
  qed
  then show ?thesis using assms by (auto simp: fas_within_def)
qed

lemma fas_loop_exit:
  assumes "sorted a" and w: "fas_within a key low high"
    and ex: "\<not> (a ! high \<noteq> a ! low \<and> key \<ge> a ! low \<and> key \<le> a ! high)"
  shows "\<exists>r. fas_loop a key low high = Some (Inr r) \<and> fas_answer a key r"
proof -
  have lens: "low < length a" "high < length a" using w by (auto simp: fas_within_def)
  have val: "fas_loop a key low high = Some (Inr (if key = a ! low then int low else - 1))"
    by (subst fas_loop.simps) (simp only: ex lens if_False if_True simp_thms, simp)
  have "key = a ! low" if mem: "key \<in> set a"
  proof -
    obtain i where i: "low \<le> i" "i \<le> high" "a ! i = key"
      using w mem by (auto simp: fas_within_def)
    then have "a ! low \<le> key" "key \<le> a ! high"
      using sorted_nth_mono [OF assms(1)] lens by force+
    with ex show ?thesis by force
  qed
  moreover have "a ! low \<in> set a" using lens by simp
  ultimately have "fas_answer a key (if key = a ! low then int low else - 1)"
    unfolding fas_answer_def using lens(1) by (metis (full_types))
  with val show ?thesis by blast
qed

lemma fas_loop_correct:
  assumes "sorted a" and "length a \<le> 2 ^ 63" and "fas_within a key low high"
  shows "\<exists>r. fas_loop a key low high = Some (Inr r) \<and> fas_answer a key r"
  using assms(3)
proof (induction "high - low" arbitrary: low high rule: less_induct)
  case less
  show ?case
  proof (cases "a ! high \<noteq> a ! low \<and> key \<ge> a ! low \<and> key \<le> a ! high")
    case False
    with assms(1) less.prems show ?thesis by (rule fas_loop_exit)
  next
    case True
    have lens: "low \<le> high" "low < length a" "high < length a"
      using less.prems by (auto simp: fas_within_def)
    define mid where "mid = sz_add low (sz_mul (unat (key - a ! low))
        (sz_sub high low div unat (a ! high - a ! low)))"
    have mid: "low \<le> mid" "mid \<le> high"
      unfolding mid_def using probe_bounds [of low high "a ! low" key "a ! high"] True lens
        assms(2) by auto
    have unf: "fas_loop a key low high =
        (if a ! mid < key then fas_loop a key (sz_add mid 1) high
         else if key < a ! mid then fas_loop a key low (sz_sub mid 1) else Some (Inr (int mid)))"
      using True lens mid by (simp add: fas_loop.simps [of a key low high] mid_def [symmetric] Let_def)
    consider "a ! mid < key" | "key < a ! mid" | "a ! mid = key" by force
    then show ?thesis
    proof cases
      case 1
      then have "mid < high" using True mid by (cases "mid = high") auto
      moreover from this have "sz_add mid 1 = mid + 1"
        using lens assms(2) by (intro sz_add_less) simp
      ultimately show ?thesis
        using less.hyps [OF _ fas_narrow_up [OF assms(1) less.prems, of mid]] 1 mid by (simp add: unf)
    next
      case 2
      then have "low < mid" and "\<not> a ! mid < key" using True mid by (cases "mid = low", auto)
      moreover from this have "sz_sub mid 1 = mid - 1" by (intro sz_sub_le) simp
      ultimately show ?thesis
        using less.hyps [OF _ fas_narrow_down [OF assms(1) less.prems, of mid]] 2 mid by (simp add: unf)
    next
      case 3
      then show ?thesis using mid lens nth_mem [of mid a] by (auto simp: unf fas_answer_def)
    qed
  qed
qed

lemma fastArray64Search_finds:
  assumes "sorted a" and "a \<noteq> []" and "length a \<le> 2 ^ 63"
  shows "\<exists>r. fastArray64Search a (length a) key = Some (Inr r) \<and>
    (if key \<in> set a then \<exists>i < length a. r = int i \<and> a ! i = key else r = - 1)"
proof -
  have "sz_sub (length a) 1 = length a - 1" using assms(2) by (intro sz_sub_le) (cases a, auto)
  moreover have "\<exists>i. i \<le> length a - 1 \<and> a ! i = key" if mem: "key \<in> set a"
  proof -
    obtain i where "i < length a" "a ! i = key" using mem by (auto simp: in_set_conv_nth)
    then show ?thesis by (intro exI [of _ i]) simp
  qed
  then have "fas_within a key 0 (length a - 1)" using assms(2) by (simp add: fas_within_def)
  from fas_loop_correct [OF assms(1,3) this]
  have "\<exists>r. fas_loop a key 0 (length a - 1) = Some (Inr r) \<and> fas_answer a key r" .
  ultimately show ?thesis by (simp add: fastArray64Search_def fas_answer_def)
qed

section \<open>Facts about the decoder of C escapes\<close>

text \<open>The decoding as a function on strings, without the array that is shared.\<close>

fun decode_spec :: "byte list \<Rightarrow> byte list" where
  "decode_spec [] = []"
| "decode_spec [c] = (if c = 34 then [] else [c])"
| "decode_spec (c # d # r) =
     (if c = 34 then []
      else if c = 92 then
        (if d = 120 then
           (case r of a # b # r' \<Rightarrow> ucast (strtoull16 [a, b]) # decode_spec r'
            | _ \<Rightarrow> d # decode_spec r)
         else esc_byte d # decode_spec r)
      else c # decode_spec (d # r))"

text \<open>No escape is cut off by the end of the string.\<close>

fun escapes_closed :: "byte list \<Rightarrow> bool" where
  "escapes_closed [] = True"
| "escapes_closed [c] = (c \<noteq> 92)"
| "escapes_closed (c # d # r) =
     (if c = 34 then True
      else if c = 92 then
        (if d = 120 then
           (case r of a # b # r' \<Rightarrow> escapes_closed r' | _ \<Rightarrow> escapes_closed r)
         else escapes_closed r)
      else escapes_closed (d # r))"

text \<open>
  The array during decoding: what was written, stale bytes, and what is still to be read.
  Writing one byte moves it from the consumed window \<open>w\<close> to the output.
\<close>

lemma upd_window: "w \<noteq> [] \<Longrightarrow>
    (done @ m @ w @ t)[length done := v] = (done @ [v]) @ tl (m @ w) @ t"
  by (cases "m @ w") (auto simp: list_update_append simp flip: append_assoc)

definition decode_ok :: "byte list \<Rightarrow> nat \<Rightarrow> nat \<Rightarrow> byte list \<Rightarrow> bool" where
  "decode_ok s i out res \<longleftrightarrow>
     (\<exists>b. decode_loop s i out = Inr (b, length res) \<and> take (length res) b = res \<and>
          length b = length s)"

lemma decode_ok_step:
  assumes "w \<noteq> []"
    and eq: "decode_loop (done @ m @ w @ t) (length done + length m) (length done) =
         decode_loop ((done @ m @ w @ t)[length done := v])
           (length done + length m + length w) (length done + 1)"
    and IH: "\<And>done m. decode_ok (done @ m @ t) (length done + length m) (length done) (done @ res)"
  shows "decode_ok (done @ m @ w @ t) (length done + length m) (length done) (done @ v # res)"
proof -
  have len: "length (tl (m @ w)) + 1 = length m + length w"
    using assms(1) by (cases m; cases w) auto
  have idx: "length (done @ [v]) + length (tl (m @ w)) = length done + length m + length w"
    using len by simp
  have "decode_ok ((done @ [v]) @ tl (m @ w) @ t) (length done + length m + length w)
      (length done + 1) (done @ v # res)"
    using IH [of "done @ [v]" "tl (m @ w)"] unfolding idx by simp
  then show ?thesis
    unfolding decode_ok_def eq upd_window [OF assms(1)] using len by auto
qed

lemma decode_loop_end:
  assumes "c = 0 \<or> c = 34"
  shows "decode_ok (done @ m @ c # rest) (length done + length m) (length done) (done @ [])"
proof -
  let ?s = "done @ m @ c # rest"
  have "decode_loop ?s (length done + length m) (length done) =
      Inr (?s[length done := 0], length done)"
    using assms by (subst decode_loop.simps) (simp add: nth_append)
  then show ?thesis by (simp add: decode_ok_def)
qed

text \<open>One iteration for each kind of input.\<close>

lemma decode_loop_plain:
  assumes "c \<noteq> 0" "c \<noteq> 34" "c \<noteq> 92"
  shows "decode_loop (done @ m @ [c] @ t) (length done + length m) (length done) =
    decode_loop ((done @ m @ [c] @ t)[length done := c])
      (length done + length m + length [c]) (length done + 1)"
  using assms by (subst decode_loop.simps) (simp add: nth_append)

lemma decode_loop_esc:
  assumes "d \<noteq> 0" "d \<noteq> 120"
  shows "decode_loop (done @ m @ [92, d] @ t) (length done + length m) (length done) =
    decode_loop ((done @ m @ [92, d] @ t)[length done := esc_byte d])
      (length done + length m + length [92, d]) (length done + 1)"
  using assms by (subst decode_loop.simps) (simp add: nth_append)

lemma decode_loop_hex:
  assumes "a \<noteq> 0" "b \<noteq> 0"
  shows "decode_loop (done @ m @ [92, 120, a, b] @ t) (length done + length m) (length done) =
    decode_loop ((done @ m @ [92, 120, a, b] @ t)[length done := ucast (strtoull16 [a, b])])
      (length done + length m + length [92, 120, a, b]) (length done + 1)"
  using assms by (subst decode_loop.simps) (simp add: nth_append, simp add: eval_nat_numeral)

lemma decode_loop_hex_cut:
  assumes "t \<noteq> [] \<and> (hd t = 0 \<or> (tl t \<noteq> [] \<and> hd (tl t) = 0))"
  shows "decode_loop (done @ m @ [92, 120] @ t) (length done + length m) (length done) =
    decode_loop ((done @ m @ [92, 120] @ t)[length done := 120])
      (length done + length m + length [92, 120]) (length done + 1)"
proof -
  from assms obtain u where "t = 0 # u \<or> (\<exists>a. t = a # 0 # u)"
    by (cases t; cases "tl t") auto
  then show ?thesis by (subst decode_loop.simps) (auto simp: nth_append)
qed

lemma decode_loop_correct:
  "0 \<notin> set t \<Longrightarrow> escapes_closed t \<Longrightarrow>
   decode_ok (done @ m @ t @ 0 # rest) (length done + length m) (length done)
     (done @ decode_spec t)"
proof (induction t arbitrary: "done" m rule: decode_spec.induct)
  case 1
  then show ?case using decode_loop_end [of 0] by simp
next
  case (2 c)
  show ?case
  proof (cases "c = 34")
    case True
    then show ?thesis using decode_loop_end [of c "done" m "0 # rest"] by simp
  next
    case False
    with 2 have "c \<noteq> 0" "c \<noteq> 34" "c \<noteq> 92" by auto
    from decode_ok_step [OF _ decode_loop_plain [OF this] decode_loop_end [of 0]] False
    show ?thesis by simp
  qed
next
  case (3 c d r)
  have nz: "c \<noteq> 0" "d \<noteq> 0" "0 \<notin> set r" using "3.prems" by auto
  consider "c = 34" | "c \<noteq> 34" "c \<noteq> 92" | "c = 92" "d \<noteq> 120"
    | a b r' where "c = 92" "d = 120" "r = a # b # r'"
    | "c = 92" "d = 120" "r = [] \<or> (\<exists>a. r = [a])"
    by (cases r rule: decode_spec.cases) auto
  then show ?case
  proof cases
    case 1
    then show ?thesis using decode_loop_end [of c "done" m "d # r @ 0 # rest"] by simp
  next
    case 2
    from decode_ok_step [OF _ decode_loop_plain [OF nz(1) 2] "3.IH"(5) [OF 2]] "3.prems" 2
    show ?thesis by simp
  next
    case 3
    from decode_ok_step [OF _ decode_loop_esc [OF nz(2) 3(2)] "3.IH"(4)] "3.prems" 3 nz
    show ?thesis by simp
  next
    case 4
    from decode_ok_step [OF _ decode_loop_hex [of a b] "3.IH"(3)] "3.prems" 4 nz
    show ?thesis by simp
  next
    case 5
    then show ?thesis
      using decode_ok_step [OF _ decode_loop_hex_cut "3.IH"(1)]
        decode_ok_step [OF _ decode_loop_hex_cut "3.IH"(2)] "3.prems" nz
      by auto
  qed
qed

lemma decode_loop_plain_run:
  assumes "\<forall>c\<in>set t. c \<noteq> 0 \<and> c \<noteq> 34 \<and> c \<noteq> 92"
  shows "decode_loop (pre @ t @ u) (length pre) (length pre) =
    decode_loop (pre @ t @ u) (length pre + length t) (length pre + length t)"
  using assms
proof (induction t arbitrary: pre)
  case Nil
  then show ?case by simp
next
  case (Cons c t)
  have "decode_loop (pre @ [] @ [c] @ t @ u) (length pre) (length pre) =
      decode_loop ((pre @ [c]) @ t @ u) (length (pre @ [c])) (length (pre @ [c]))"
    using decode_loop_plain [of c pre "[]" "t @ u"] Cons.prems by simp
  also have "\<dots> = decode_loop ((pre @ [c]) @ t @ u) (length (pre @ [c]) + length t)
      (length (pre @ [c]) + length t)"
    using Cons.prems by (intro Cons.IH) simp
  finally show ?case by simp
qed

lemma decodeCString_open_escape:
  assumes "\<forall>c\<in>set t. c \<noteq> 0 \<and> c \<noteq> 34 \<and> c \<noteq> 92"
  shows "util_decodeCString (t @ [92, 0]) = Inl OutOfBounds"
proof -
  have "util_decodeCString (t @ [92, 0]) = decode_loop (t @ [92, 0]) (length t) (length t)"
    using decode_loop_plain_run [OF assms, of "[]" "[92, 0]"] by (simp add: util_decodeCString_def)
  also have "\<dots> = decode_loop (t @ [92, 0]) (length t + 2) (length t + 1)"
    by (subst decode_loop.simps) (simp add: nth_append)
  also have "\<dots> = Inl OutOfBounds" by (subst decode_loop.simps) simp
  finally show ?thesis .
qed

section \<open>Properties\<close>

text \<open>For a non-empty range whose upper end is not the largest 64-bit value,
  \<open>util_rndGet\<close> returns without a fault, and its result lies in the range, for every
  state of the generator.\<close>

theorem util_rndGet_in_range:
  assumes "mn \<le> mx" and "mx \<noteq> - 1"
  shows "\<exists>v h. util_rndGet mn mx g = Inr (v, h) \<and> mn \<le> v \<and> v \<le> mx"
proof -
  have "wp (util_rndGet mn mx) (\<lambda>v h. mn \<le> v \<and> v \<le> mx) g"
    by (rule wp_rndGetI [OF assms]) simp
  then show ?thesis by (rule wp_result)
qed

theorem util_rndGet_in_range_witness:
  "\<exists>v h. util_rndGet 1 8 \<lparr>rndThreadOnce = False, rndState = (0, 0, 0, 0), entropy = (1, 2, 3, 4)\<rparr>
     = Inr (v, h) \<and> 1 \<le> v \<and> v \<le> 8"
  by (rule util_rndGet_in_range) simp_all

text \<open>With the largest 64-bit value as upper end, \<open>util_rndGet\<close> ignores the lower
  end: there is a state of the generator in which \<open>util_rndGet (5, UINT64_MAX)\<close> returns
  a value below 5.\<close>

theorem util_rndGet_full_range_ignores_min:
  "\<exists>g v h. rndState g \<noteq> (0, 0, 0, 0) \<and> util_rndGet 5 (- 1) g = Inr (v, h) \<and> v < 5"
proof -
  let ?g = "\<lparr>rndThreadOnce = True, rndState = (0, 1, 0, 0), entropy = (0, 0, 0, 0)\<rparr>"
  have "\<exists>h. util_rndGet 5 (- 1) ?g = Inr (0, h)"
    by (simp add: util_rndGet_def util_rnd64_def util_InternalRnd64_def xoshiro_next_def
        util_RotL_def Let_def)
  then show ?thesis by (intro exI [of _ ?g]) auto
qed

text \<open>A seeded generator whose state is not all zero never reaches the all-zero
  state, in which it would return 0 for ever.\<close>

theorem util_rnd64_keeps_nonzero:
  assumes "rndThreadOnce g" and "rndState g \<noteq> (0, 0, 0, 0)"
  shows "\<exists>v h. util_rnd64 g = Inr (v, h) \<and> rndThreadOnce h \<and> rndState h \<noteq> (0, 0, 0, 0)"
  using xoshiro_next_nonzero [OF assms(2)] assms(1)
  by (auto simp: util_rnd64_def util_InternalRnd64_def Let_def split: prod.split)

theorem util_rnd64_keeps_nonzero_witness:
  "\<exists>v h. util_rnd64 \<lparr>rndThreadOnce = True, rndState = (1, 2, 3, 4), entropy = (0, 0, 0, 0)\<rparr>
     = Inr (v, h) \<and> rndThreadOnce h \<and> rndState h \<noteq> (0, 0, 0, 0)"
  by (rule util_rnd64_keeps_nonzero) simp_all

text \<open>C9: on a sorted array the interpolation search of the stack-hash blocklist stops,
  reads only inside the array, and returns the index of the key if the key is there and
  -1 if it is not.\<close>

theorem fastArray64Search_correct:
  assumes "sorted a" and "a \<noteq> []" and "length a \<le> 2 ^ 63"
  shows "\<exists>r. fastArray64Search a (length a) key = Some (Inr r) \<and>
    (if key \<in> set a then \<exists>i < length a. r = int i \<and> a ! i = key else r = - 1)"
  by (rule fastArray64Search_finds [OF assms])

theorem fastArray64Search_correct_witness:
  "\<exists>r. fastArray64Search [3, 7, 7, 200] (length [3 :: u64, 7, 7, 200]) 7 = Some (Inr r) \<and>
    (if (7 :: u64) \<in> set [3, 7, 7, 200]
     then \<exists>i < length [3 :: u64, 7, 7, 200]. r = int i \<and> [3, 7, 7, 200] ! i = (7 :: u64)
     else r = - 1)"
  by (rule fastArray64Search_correct) simp_all

text \<open>Decoding a C string in place gives what decoding it into a fresh string gives:
  if the array holds a text without NUL bytes and without an escape that is cut off by its
  end, followed by a NUL, then \<open>util_decodeCString\<close> stays inside the array, returns the
  length of the decoded text and leaves the decoded text at the start of the array.\<close>

theorem util_decodeCString_correct:
  assumes "0 \<notin> set t" and "escapes_closed t"
  shows "\<exists>b. util_decodeCString (t @ 0 # rest) = Inr (b, length (decode_spec t)) \<and>
    take (length (decode_spec t)) b = decode_spec t \<and> length b = length (t @ 0 # rest)"
  using decode_loop_correct [OF assms, of "[]" "[]" rest]
  by (simp add: util_decodeCString_def decode_ok_def)

theorem util_decodeCString_correct_witness:
  "\<exists>b. util_decodeCString (str [CHR ''a'', CHR 0x5C, CHR ''x'', CHR ''4'', CHR ''1''] @ 0 # [0]) =
     Inr (b, length (decode_spec (str [CHR ''a'', CHR 0x5C, CHR ''x'', CHR ''4'', CHR ''1'']))) \<and>
    take (length (decode_spec (str [CHR ''a'', CHR 0x5C, CHR ''x'', CHR ''4'', CHR ''1'']))) b =
      decode_spec (str [CHR ''a'', CHR 0x5C, CHR ''x'', CHR ''4'', CHR ''1'']) \<and>
    length b = length (str [CHR ''a'', CHR 0x5C, CHR ''x'', CHR ''4'', CHR ''1''] @ 0 # [0])"
  by (rule util_decodeCString_correct) (simp_all add: str_def)

text \<open>An escape that is cut off by the end of the text makes the decoder step over the
  terminating NUL: when the NUL is the last byte of the array, it reads outside the array.\<close>

theorem util_decodeCString_overread:
  assumes "\<forall>c\<in>set t. c \<noteq> 0 \<and> c \<noteq> 34 \<and> c \<noteq> 92"
  shows "util_decodeCString (t @ [92, 0]) = Inl OutOfBounds"
  by (rule decodeCString_open_escape [OF assms])

theorem util_decodeCString_overread_witness:
  "util_decodeCString (replicate 3 65 @ [92, 0]) = Inl OutOfBounds"
  by (rule util_decodeCString_overread) simp

end
