(* ===== verification/HF_CRC_Props.thy ===== *)
theory HF_CRC_Props
  imports HF_CRC
begin

text \<open>
  The table-driven loop of \<open>util_CRC64\<close> is the bit-serial division by the polynomial,
  which makes it linear and lets it detect every change of one byte.
\<close>

section \<open>The bit-serial reference\<close>

definition crc_bit :: "u64 \<Rightarrow> u64" where
  "crc_bit x = drop_bit 1 x XOR (if bit x 0 then 0xD800000000000000 else 0)"

definition crc_byte :: "u64 \<Rightarrow> u64" where
  "crc_byte x = crc_bit (crc_bit (crc_bit (crc_bit (crc_bit (crc_bit (crc_bit (crc_bit x)))))))"

definition crc_serial :: "byte list \<Rightarrow> u64" where
  "crc_serial buf = foldl (\<lambda>r b. crc_byte (r XOR ucast b)) 0 buf"

lemma crc_bit_xor: "crc_bit (a XOR b) = crc_bit a XOR crc_bit b"
  by (auto simp: crc_bit_def drop_bit_xor bit_xor_iff xor.assoc xor.left_commute xor.commute)

lemma crc_byte_xor: "crc_byte (a XOR b) = crc_byte a XOR crc_byte b"
  by (simp add: crc_byte_def crc_bit_xor)

lemma util_CRC64ISOPoly_lo_table:
  "util_CRC64ISOPoly_lo = map (\<lambda>i. crc_byte (of_nat i)) [0 ..< 128]"
proof -
  have "[0 ..< 128] = 0 # [Suc 0 ..< 128]" by (rule upt_conv_Cons) simp
  moreover have "[Suc 0 ..< 128] = Suc 0 # [Suc (Suc 0) ..< 128]" by (rule upt_conv_Cons) simp
  ultimately have "[0 ..< 128] = 0 # 1 # [2 ..< 128]" by (simp only: numeral_2_eq_2 One_nat_def)
  then show ?thesis
    by (simp add: util_CRC64ISOPoly_lo_def, simp add: crc_byte_def crc_bit_def)
qed

lemma util_CRC64ISOPoly_hi_table:
  "util_CRC64ISOPoly_hi = map (\<lambda>i. crc_byte (of_nat i)) [128 ..< 256]"
  by (simp add: util_CRC64ISOPoly_hi_def, simp add: crc_byte_def crc_bit_def)

lemma util_CRC64ISOPoly_nth:
  "util_CRC64ISOPoly ! unat (b :: byte) = crc_byte (ucast b)"
proof -
  have "util_CRC64ISOPoly = map (\<lambda>i. crc_byte (of_nat i)) ([0 ..< 128] @ [128 ..< 256])"
    unfolding util_CRC64ISOPoly_def util_CRC64ISOPoly_lo_table util_CRC64ISOPoly_hi_table by simp
  also have "[0 ..< 128] @ [128 ..< 256] = [0 ..< 256]"
    using upt_add_eq_append [of 0 128 128] by simp
  finally have T: "util_CRC64ISOPoly = map (\<lambda>i. crc_byte (of_nat i)) [0 ..< 256]" .
  have "util_CRC64ISOPoly ! unat b = crc_byte (of_nat (0 + unat b))"
    unfolding T by (rule nth_map_upt) (simp add: unat_lt_8)
  moreover have "(of_nat (unat b) :: u64) = ucast b" by (simp add: word_eq_iff_unsigned unsigned_of_nat unsigned_ucast_eq)
  ultimately show ?thesis by simp
qed

text \<open>A value whose low bits are zero is only shifted.\<close>

lemma crc_bit_even: "\<not> bit x 0 \<Longrightarrow> crc_bit x = drop_bit 1 x"
  by (simp add: crc_bit_def)

lemma crc_byte_high: "(\<forall>i<8. \<not> bit x i) \<Longrightarrow> crc_byte x = drop_bit 8 x"
  by (simp add: crc_byte_def crc_bit_even bit_drop_bit_eq numeral_eq_Suc)

lemma crc_byte_split: "crc_byte x = crc_byte (ucast (ucast x :: byte)) XOR drop_bit 8 x"
proof -
  have "x = ucast (ucast x :: byte) XOR push_bit 8 (drop_bit 8 x)"
    by (rule bit_word_eqI) (auto simp: bit_simps)
  then have "crc_byte x = crc_byte (ucast (ucast x :: byte)) XOR crc_byte (push_bit 8 (drop_bit 8 x))"
    by (metis crc_byte_xor)
  also have "crc_byte (push_bit 8 (drop_bit 8 x)) = drop_bit 8 (push_bit 8 (drop_bit 8 x))"
    by (rule crc_byte_high) (simp add: bit_simps)
  also have "\<dots> = drop_bit 8 x"
    by (rule bit_word_eqI) (auto simp: bit_simps dest: bit_imp_le_length)
  finally show ?thesis .
qed

lemma crc_step_serial: "crc_step res b = crc_byte (res XOR ucast b)"
proof -
  have "ucast (res XOR ucast b) = (ucast res XOR b :: byte)"
    by (rule bit_word_eqI) (auto simp: bit_simps)
  moreover have "drop_bit 8 (res XOR ucast b) = drop_bit 8 res"
    by (rule bit_word_eqI) (auto simp: bit_simps dest: bit_imp_le_length)
  ultimately show ?thesis
    using crc_byte_split [of "res XOR ucast b"] by (simp add: crc_step_def util_CRC64ISOPoly_nth)
qed


section \<open>Injectivity of the division step\<close>

lemma crc_bit_inj: "crc_bit x = 0 \<Longrightarrow> x = 0"
proof (rule ccontr)
  assume z: "crc_bit x = 0" and nz: "x \<noteq> 0"
  show False
  proof (cases "bit x 0")
    case True
    have "bit (crc_bit x) 63 = (bit (drop_bit 1 x) 63 \<noteq> bit (0xD800000000000000 :: u64) 63)"
      using True by (simp add: crc_bit_def bit_xor_iff)
    then have "bit (crc_bit x) 63" using bit_imp_le_length [of x 64] by (auto simp: bit_simps)
    with z show False by simp
  next
    case False
    with z have d: "drop_bit 1 x = 0" by (simp add: crc_bit_def)
    have "\<not> bit x n" for n
    proof (cases n)
      case 0
      with False show ?thesis by simp
    next
      case (Suc m)
      have "\<not> bit (drop_bit 1 x) m" using d by simp
      with Suc show ?thesis by (simp add: bit_drop_bit_eq)
    qed
    then have "x = 0" by (intro bit_word_eqI) simp
    with nz show False by simp
  qed
qed

lemma crc_byte_inj: "crc_byte a = crc_byte b \<Longrightarrow> a = b"
proof -
  assume "crc_byte a = crc_byte b"
  then have "crc_byte (a XOR b) = 0" by (simp add: crc_byte_xor)
  then have "a XOR b = 0" unfolding crc_byte_def by (blast dest: crc_bit_inj)
  then show "a = b" by (simp add: word_xor_eq_0)
qed

lemma crc_step_inj: "crc_step r b = crc_step s b \<Longrightarrow> r = s"
  by (auto simp: crc_step_serial xor.commute [of _ "ucast b"] word_xor_cancel dest: crc_byte_inj)

lemma crc_step_inj_byte: "crc_step r a = crc_step r b \<Longrightarrow> a = b"
proof -
  assume "crc_step r a = crc_step r b"
  then have u: "(ucast a :: u64) = ucast b"
    by (auto simp: crc_step_serial word_xor_cancel dest: crc_byte_inj)
  have "ucast (ucast a :: u64) = a" "ucast (ucast b :: u64) = b"
    by (rule bit_word_eqI; auto simp: bit_simps dest: bit_imp_le_length)+
  with u show "a = b" by metis
qed

lemma crc_fold_inj: "foldl crc_step r xs = foldl crc_step s xs \<Longrightarrow> r = s"
  by (induction xs arbitrary: r s) (auto dest: crc_step_inj)

section \<open>Properties\<close>

text \<open>C10: the table-driven checksum \<open>util_CRC64\<close> is the bit-serial CRC-64 with the ISO
  3309 polynomial, and the checksum \<open>util_CRC64Rev\<close> is the same checksum of the bytes
  in reverse order, for every buffer.\<close>

theorem util_CRC64_is_serial_crc:
  "util_CRC64 buf = crc_serial buf \<and> util_CRC64Rev buf = crc_serial (rev buf)"
proof -
  have "crc_step = (\<lambda>r b. crc_byte (r XOR ucast b))"
    by (intro ext) (rule crc_step_serial)
  then show ?thesis
    by (simp add: util_CRC64_def util_CRC64Rev_def crc_serial_def foldr_conv_foldl)
qed

text \<open>Two buffers of the same length that differ in exactly one byte have different
  checksums, so that a corpus file and a one-byte variation of it never get the same name.\<close>

theorem util_CRC64_detects_byte_change:
  assumes "a \<noteq> b"
  shows "util_CRC64 (xs @ a # ys) \<noteq> util_CRC64 (xs @ b # ys)"
  using assms by (auto simp: util_CRC64_def dest!: crc_fold_inj crc_step_inj_byte)

theorem util_CRC64_detects_byte_change_witness:
  "util_CRC64 ([1, 2] @ 3 # [4]) \<noteq> util_CRC64 ([1, 2] @ 7 # [4])"
  by (rule util_CRC64_detects_byte_change) simp

end
