(* ===== verification/HF_Run.thy ===== *)
theory HF_Run
  imports HF_Util
begin

text \<open>
  The state of \<open>honggfuzz/honggfuzz.h\<close> that the modelled code uses: \<open>dynfile_t\<close>, the
  global \<open>honggfuzz_t\<close> (its nested structs are flattened, with the struct's name as a
  prefix), and \<open>run_t\<close>, which holds the global state, the input of the thread and its
  random number generator.

  Input files of the dynamic queue are shared through pointers (\<open>src\<close>,
  \<open>dynfileqCurrent\<close>, \<open>dynfileq2Current\<close>, \<open>run->current\<close>), so they live in an
  explicit store from addresses to \<open>dynfile_t\<close>; the tail queue itself is the list of
  the addresses in it, and \<open>io_stale_next\<close> keeps the next pointer of an element that was
  taken out (\<open>TAILQ_REMOVE\<close> leaves it in the element). The bytes of an input are mapped
  from a shared file that is truncated to the input's size, so exactly \<open>size\<close> bytes are
  accessible, and growing the file appends zero bytes.
\<close>

section \<open>Constants and enumerations\<close>

definition HF_INPUT_MAX_SIZE :: nat where
  "HF_INPUT_MAX_SIZE = 1024 * 1024 * 10"

definition HF_INPUT_DEFAULT_SIZE :: nat where
  "HF_INPUT_DEFAULT_SIZE = 1024 * 8"

datatype fuzzState_t =
  STATE_UNSET | STATE_STATIC | STATE_DYNAMIC_DRY_RUN | STATE_DYNAMIC_MAIN | STATE_DYNAMIC_MINIMIZE

text \<open>\<open>dynFileMethod_t\<close> is a set of flags; only the empty one is compared by name.\<close>

type_synonym dynFileMethod_t = u32

definition DYNFILE_NONE :: dynFileMethod_t where
  "DYNFILE_NONE = 0x0"

definition DYNFILE_SOFT :: dynFileMethod_t where
  "DYNFILE_SOFT = 0x40"

section \<open>Files and directories\<close>

text \<open>
  What the process sees of the file system. A directory stream yields entries, may be
  interrupted (\<open>EINTR\<close>) or fail, and ends. \<open>fs_files\<close> has the regular files by their
  path, \<open>fs_special\<close> what \<open>stat\<close> finds but is not a regular file, \<open>fs_denied\<close> the
  paths that cannot be opened.
\<close>

definition PATH_MAX :: nat where
  "PATH_MAX = 4096"

type_synonym path = "byte list"

datatype dir_ev = DEntry path | DIntr | DError

record fs_t =
  fs_files :: "path \<rightharpoonup> byte list"
  fs_special :: "path \<Rightarrow> bool"
  fs_denied :: "path \<Rightarrow> bool"
  fs_inputDir :: "dir_ev list"       \<comment> \<open>what a stream over the input directory yields\<close>
  fs_inputPos :: "dir_ev list"       \<comment> \<open>what is left of the stream \<open>inputDirPtr\<close>\<close>
  fs_dynamicDir :: "dir_ev list option"   \<comment> \<open>a stream over \<open>dynamicInputDir\<close>\<close>

text \<open>\<open>snprintf (path, PATH_MAX, "%s/%s", dir, name)\<close>.\<close>

definition join_path :: "path \<Rightarrow> path \<Rightarrow> path" where
  "join_path dir name = snprintf_cut PATH_MAX (dir @ [47] @ name)"

section \<open>Structures\<close>

type_synonym addr = nat

record dynfile_t =
  d_size :: nat
  d_cov :: "u64 list"
  d_idx :: nat
  d_driver_id :: u32
  d_timeExecUSecs :: u64
  d_path :: "byte list"
  d_src :: "addr option"
  d_refs :: u32
  d_phase :: fuzzState_t
  d_timedout :: bool
  d_data :: "byte list"
  d_imported :: bool

text \<open>One entry of \<open>cmpfeedback_t.valArr\<close>: 32 bytes and the number of them in use.\<close>

record cmpval_t =
  cv_val :: "byte list"
  cv_len :: u32

record cmpfeedback_t =
  cmpf_cnt :: u32
  cmpf_valArr :: "cmpval_t list"

record hfuzz_t =
  io_fileCnt :: nat
  io_testedFileCnt :: nat
  io_maxFileSz :: nat
  io_newUnitsAdded :: nat
  io_inputDir :: "byte list option"
  io_outputDir :: "byte list option"
  io_covDirNew :: "byte list option"
  io_dynfileqMaxSz :: nat
  io_dynfileqCnt :: nat
  io_dynfileqCurrent :: "addr option"
  io_dynfileq2Current :: "addr option"
  io_dynfileq :: "addr list"
  io_stale_next :: "addr \<Rightarrow> addr option"
  io_store :: "addr \<rightharpoonup> dynfile_t"
  io_brk :: addr                  \<comment> \<open>the next address \<open>calloc\<close> returns\<close>
  io_fs :: fs_t
  io_dynamicInputDir :: path
  threads_threadsMax :: nat
  timing_timeStart :: int
  timing_lastCovUpdate :: int
  mutate_dictionary :: "byte list list"
  mutate_dictionaryCnt :: nat
  mutate_dictionaryFile :: path
  mutate_mutationsPerRun :: u32
  mutate_maxInputSz :: nat
  cfg_only_printable :: bool
  cfg_minimize :: bool
  feedback_state :: fuzzState_t
  feedback_cmpFeedback :: bool
  feedback_cmpFeedbackMap :: cmpfeedback_t
  feedback_maxCov :: "u64 list"
  feedback_dynFileMethod :: dynFileMethod_t
  feedback_blocklistFile :: path
  feedback_blocklist :: "u64 list"
  cnts_mutationsCnt :: nat
  socketFuzzer_enabled :: bool
  drv_independentQueue :: bool
  drv_active_driver_id :: "u32 option"

record run_t =
  global :: hfuzz_t
  dynfile :: dynfile_t
  rnd_gen :: rng
  now :: int                      \<comment> \<open>what \<open>time (NULL)\<close> returns while the function runs\<close>
  nowUSecs :: int                 \<comment> \<open>what \<open>util_timeNowUSecs\<close> returns meanwhile\<close>
  timeStartedUSecs :: int
  run_mutationsPerRun :: u32
  staticFileTryMore :: bool
  tmOutSignaled :: bool
  triesLeft :: nat
  run_current :: "addr option"

section \<open>Access to the input of a run\<close>

definition rnd :: "(rng, 'a) hm \<Rightarrow> (run_t, 'a) hm" where
  "rnd m = zoom rnd_gen (\<lambda>g r. r\<lparr>rnd_gen := g\<rparr>) m"

definition rndGetN :: "nat \<Rightarrow> nat \<Rightarrow> (run_t, nat) hm" where
  "rndGetN lo hi = bnd (rnd (util_rndGet (of_nat lo) (of_nat hi))) (\<lambda>v. ret (unat v))"

text \<open>\<open>util_rnd64 () & 1\<close>.\<close>

definition coin :: "(run_t, bool) hm" where
  "coin = bnd (rnd util_rnd64) (\<lambda>v. ret (v AND 1 \<noteq> 0))"

definition inSize :: "run_t \<Rightarrow> nat" where
  "inSize r = d_size (dynfile r)"

definition inData :: "run_t \<Rightarrow> byte list" where
  "inData r = d_data (dynfile r)"

definition maxInputSz :: "run_t \<Rightarrow> nat" where
  "maxInputSz r = mutate_maxInputSz (global r)"

definition setData :: "byte list \<Rightarrow> run_t \<Rightarrow> run_t" where
  "setData d r = r\<lparr>dynfile := (dynfile r)\<lparr>d_data := d\<rparr>\<rparr>"

definition readIn :: "nat \<Rightarrow> nat \<Rightarrow> (run_t, byte list) hm" where
  "readIn off len = bnd (gets inData) (\<lambda>d. or_fault OutOfBounds (buf_read d off len))"

definition writeIn :: "nat \<Rightarrow> byte list \<Rightarrow> (run_t, unit) hm" where
  "writeIn off bs =
     bnd (gets inData) (\<lambda>d. bnd (or_fault OutOfBounds (buf_write d off bs)) (\<lambda>d. modify (setData d)))"

definition readIn8 :: "nat \<Rightarrow> (run_t, byte) hm" where
  "readIn8 off = bnd (gets inData) (\<lambda>d. or_fault OutOfBounds (buf_get d off))"

definition writeIn8 :: "nat \<Rightarrow> byte \<Rightarrow> (run_t, unit) hm" where
  "writeIn8 off b =
     bnd (gets inData) (\<lambda>d. bnd (or_fault OutOfBounds (buf_set d off b)) (\<lambda>d. modify (setData d)))"

text \<open>
  \<open>input_setSize\<close> of \<open>honggfuzz/input.c\<close>, with \<open>ftruncate\<close> on the shared file: the
  file is cut or extended with zero bytes.
\<close>

definition resize :: "nat \<Rightarrow> byte list \<Rightarrow> byte list" where
  "resize n d = take n d @ replicate (n - length d) 0"

definition input_setSize :: "nat \<Rightarrow> (run_t, unit) hm" where
  "input_setSize sz =
     bnd (gets inSize) (\<lambda>cur.
     if cur = sz then ret ()
     else bnd (gets maxInputSz) (\<lambda>mx.
       if sz > mx then raise LogFatal
       else modify (\<lambda>r. r\<lparr>dynfile := (dynfile r)\<lparr>d_size := sz,
              d_data := resize sz (d_data (dynfile r))\<rparr>\<rparr>)))"

section \<open>The tail queue of inputs\<close>

definition tailq_first :: "hfuzz_t \<Rightarrow> addr option" where
  "tailq_first h = (case io_dynfileq h of [] \<Rightarrow> None | a # _ \<Rightarrow> Some a)"

fun list_next :: "addr list \<Rightarrow> addr \<Rightarrow> addr option" where
  "list_next [] a = None"
| "list_next [x] a = None"
| "list_next (x # y # q) a = (if x = a then Some y else list_next (y # q) a)"

definition tailq_next :: "hfuzz_t \<Rightarrow> addr \<Rightarrow> addr option" where
  "tailq_next h a =
     (if a \<in> set (io_dynfileq h) then list_next (io_dynfileq h) a else io_stale_next h a)"

text \<open>Dereferencing a pointer to an input file.\<close>

definition deref :: "addr \<Rightarrow> (run_t, dynfile_t) hm" where
  "deref a = bnd (gets (\<lambda>r. io_store (global r) a)) (or_fault NullDeref)"

text \<open>
  \<open>input_getRandomInputAsBuf\<close> of \<open>honggfuzz/input.c\<close>: the bytes of the next input of
  the second cursor over the queue, or no buffer.
\<close>

definition input_getRandomInputAsBuf :: "(run_t, byte list option) hm" where
  "input_getRandomInputAsBuf =
     bnd (gets global) (\<lambda>h.
     if feedback_dynFileMethod h = DYNFILE_NONE then ret None
     else if io_dynfileqCnt h = 0 then ret None
     else
       let h = (if io_dynfileq2Current h = None
                then h\<lparr>io_dynfileq2Current := tailq_first h\<rparr> else h)
       in case io_dynfileq2Current h of
            None \<Rightarrow> raise NullDeref
          | Some current \<Rightarrow>
              bnd (modify (\<lambda>r. r\<lparr>global := h\<lparr>io_dynfileq2Current := tailq_next h current\<rparr>\<rparr>))
              (\<lambda>_. bnd (deref current) (\<lambda>df.
              bnd (or_fault OutOfBounds (buf_read (d_data df) 0 (d_size df)))
              (\<lambda>bs. ret (Some bs)))))"

section \<open>Well-formed states\<close>

text \<open>
  What the rest of the program keeps true of the queue: every file in the store holds
  exactly its size, which is bounded; the queue, both cursors and the stale pointers refer
  to files in the store, each at most once.
\<close>

definition file_ok :: "dynfile_t \<Rightarrow> bool" where
  "file_ok df \<longleftrightarrow> length (d_data df) = d_size df \<and> d_size df \<le> HF_INPUT_MAX_SIZE \<and>
     length (d_cov df) = 4"

definition store_ok :: "hfuzz_t \<Rightarrow> bool" where
  "store_ok h \<longleftrightarrow>
     (\<forall>a df. io_store h a = Some df \<longrightarrow> file_ok df) \<and>
     (\<forall>a\<in>dom (io_store h). a < io_brk h) \<and>
     distinct (io_dynfileq h) \<and> set (io_dynfileq h) \<subseteq> dom (io_store h) \<and>
     (\<forall>a. io_dynfileqCurrent h = Some a \<longrightarrow> a \<in> dom (io_store h)) \<and>
     (\<forall>a. io_dynfileq2Current h = Some a \<longrightarrow> a \<in> dom (io_store h)) \<and>
     (\<forall>a b. io_stale_next h a = Some b \<longrightarrow> b \<in> dom (io_store h))"

text \<open>The comparison operands written by the fuzzed process.\<close>

definition cmpf_ok :: "cmpfeedback_t \<Rightarrow> bool" where
  "cmpf_ok m \<longleftrightarrow> cmpf_valArr m \<noteq> [] \<and> length (cmpf_valArr m) \<le> 1024 * 16 \<and>
     (\<forall>e\<in>set (cmpf_valArr m). unat (cv_len e) \<le> length (cv_val e))"

definition env_ok :: "hfuzz_t \<Rightarrow> bool" where
  "env_ok h \<longleftrightarrow>
     store_ok h \<and>
     (io_dynfileqCnt h \<noteq> 0 \<longrightarrow> io_dynfileq h \<noteq> []) \<and>
     1 \<le> mutate_maxInputSz h \<and> mutate_maxInputSz h \<le> HF_INPUT_MAX_SIZE \<and>
     mutate_dictionaryCnt h = length (mutate_dictionary h) \<and>
     length (mutate_dictionary h) \<le> 8192 \<and>
     (feedback_cmpFeedback h \<longrightarrow> cmpf_ok (feedback_cmpFeedbackMap h))"

definition wf_run :: "run_t \<Rightarrow> bool" where
  "wf_run r \<longleftrightarrow> env_ok (global r) \<and> length (inData r) = inSize r \<and> inSize r \<le> maxInputSz r"

text \<open>
  The part of a run that no mutation changes: all but the bytes of the input, the generator
  and the second cursor over the queue.
\<close>

definition frame_proj :: "run_t \<Rightarrow> run_t" where
  "frame_proj r =
     r\<lparr>global := (global r)\<lparr>io_dynfileq2Current := None\<rparr>,
       dynfile := (dynfile r)\<lparr>d_size := 0, d_data := []\<rparr>,
       rnd_gen := \<lparr>rndThreadOnce = False, rndState = (0, 0, 0, 0), entropy = (0, 0, 0, 0)\<rparr>\<rparr>"

lemma list_next_in: "list_next q a = Some b \<Longrightarrow> b \<in> set q"
  by (induction q a rule: list_next.induct) (auto split: if_splits)

lemma tailq_next_in_store: "store_ok h \<Longrightarrow> tailq_next h a = Some b \<Longrightarrow> b \<in> dom (io_store h)"
  unfolding store_ok_def tailq_next_def by (auto split: if_splits dest!: list_next_in)

lemma tailq_first_in: "tailq_first h = Some a \<Longrightarrow> a \<in> set (io_dynfileq h)"
  by (auto simp: tailq_first_def split: list.splits)

lemma tailq_first_in_store: "store_ok h \<Longrightarrow> tailq_first h = Some a \<Longrightarrow> a \<in> dom (io_store h)"
  by (auto simp: store_ok_def dest!: tailq_first_in)

lemma tailq_first_None: "tailq_first h = None \<longleftrightarrow> io_dynfileq h = []"
  by (simp add: tailq_first_def split: list.split)

lemma store_ok_cursor2:
  "store_ok h \<Longrightarrow> (\<And>a. c = Some a \<Longrightarrow> a \<in> dom (io_store h)) \<Longrightarrow>
   store_ok (h\<lparr>io_dynfileq2Current := c\<rparr>)"
  by (simp add: store_ok_def)

lemma tailq_next_cursor2 [simp]: "tailq_next (h\<lparr>io_dynfileq2Current := c\<rparr>) = tailq_next h"
  by (simp add: tailq_next_def fun_eq_iff)

lemma tailq_first_cursor2 [simp]: "tailq_first (h\<lparr>io_dynfileq2Current := c\<rparr>) = tailq_first h"
  by (simp add: tailq_first_def)

lemma env_ok_cursor2:
  "env_ok h \<Longrightarrow> (\<And>a. c = Some a \<Longrightarrow> a \<in> dom (io_store h)) \<Longrightarrow>
   env_ok (h\<lparr>io_dynfileq2Current := c\<rparr>)"
  by (simp add: env_ok_def store_ok_cursor2)

section \<open>A small concrete run\<close>

text \<open>A run with an empty queue and no dictionaries, on which the theorems are instantiated.\<close>

definition demo_file :: "byte list \<Rightarrow> dynfile_t" where
  "demo_file bs = \<lparr>d_size = length bs, d_cov = [0, 0, 0, 0], d_idx = 0, d_driver_id = 0,
     d_timeExecUSecs = 0, d_path = [], d_src = None, d_refs = 0, d_phase = STATE_DYNAMIC_MAIN,
     d_timedout = False, d_data = bs, d_imported = False\<rparr>"

definition demo_fs :: fs_t where
  "demo_fs = \<lparr>fs_files = (\<lambda>_. None), fs_special = (\<lambda>_. False), fs_denied = (\<lambda>_. False),
     fs_inputDir = [], fs_inputPos = [], fs_dynamicDir = None\<rparr>"

definition demo_global :: hfuzz_t where
  "demo_global = \<lparr>io_fileCnt = 0, io_testedFileCnt = 0, io_maxFileSz = 0, io_newUnitsAdded = 0,
     io_inputDir = None, io_outputDir = None, io_covDirNew = None, io_dynfileqMaxSz = 0,
     io_dynfileqCnt = 0, io_dynfileqCurrent = None, io_dynfileq2Current = None, io_dynfileq = [],
     io_stale_next = (\<lambda>_. None), io_store = (\<lambda>_. None), io_brk = 1, io_fs = demo_fs,
     io_dynamicInputDir = [], threads_threadsMax = 1,
     timing_timeStart = 0, timing_lastCovUpdate = 0, mutate_dictionary = [],
     mutate_dictionaryCnt = 0, mutate_dictionaryFile = [], mutate_mutationsPerRun = 6, mutate_maxInputSz = 64,
     cfg_only_printable = True, cfg_minimize = False, feedback_state = STATE_DYNAMIC_MAIN,
     feedback_cmpFeedback = False, feedback_cmpFeedbackMap = \<lparr>cmpf_cnt = 0, cmpf_valArr = []\<rparr>,
     feedback_maxCov = [0, 0, 0, 0], feedback_dynFileMethod = DYNFILE_SOFT,
     feedback_blocklistFile = [], feedback_blocklist = [], cnts_mutationsCnt = 0, socketFuzzer_enabled = False,
     drv_independentQueue = False, drv_active_driver_id = None\<rparr>"

definition demo_run :: "byte list \<Rightarrow> run_t" where
  "demo_run bs = \<lparr>global = demo_global, dynfile = demo_file bs,
     rnd_gen = \<lparr>rndThreadOnce = True, rndState = (0, 0, 0, 0), entropy = (0, 0, 0, 0)\<rparr>,
     now = 0, nowUSecs = 0, timeStartedUSecs = 0, run_mutationsPerRun = 6,
     staticFileTryMore = False, tmOutSignaled = False, triesLeft = 0, run_current = None\<rparr>"

lemma wf_demo_run: "length bs \<le> 64 \<Longrightarrow> wf_run (demo_run bs)"
  by (simp add: wf_run_def env_ok_def store_ok_def demo_run_def demo_global_def demo_file_def
      inData_def inSize_def maxInputSz_def HF_INPUT_MAX_SIZE_def)

lemma demo_run_simps [simp]:
  "global (demo_run bs) = demo_global" "inData (demo_run bs) = bs" "inSize (demo_run bs) = length bs"
  "maxInputSz (demo_run bs) = 64" "run_mutationsPerRun (demo_run bs) = 6"
  "demo_run bs = demo_run cs \<longleftrightarrow> bs = cs"
  by (auto simp: demo_run_def demo_global_def demo_file_def inData_def inSize_def maxInputSz_def)

end
