(* ===== verification/HF_Mangle.thy ===== *)
theory HF_Mangle
  imports HF_Run
begin

text \<open>
  \<open>honggfuzz/mangle.c\<close>: the mutations of an input. Every C function is one definition;
  \<open>size_t\<close> differences and sums are \<open>sz_sub\<close> and \<open>sz_add\<close>, which wrap, and every
  access to the input faults outside of its current size.
\<close>

section \<open>Lengths and offsets\<close>

definition mangle_LenLeft :: "nat \<Rightarrow> (run_t, nat) hm" where
  "mangle_LenLeft off =
     bnd (gets inSize) (\<lambda>sz.
     if off \<ge> sz then raise LogFatal else ret (sz_sub (sz_sub sz off) 1))"

definition mangle_getLen :: "nat \<Rightarrow> (run_t, nat) hm" where
  "mangle_getLen mx =
     (if mx > HF_INPUT_MAX_SIZE then raise LogFatal
      else if mx = 0 then raise LogFatal
      else if mx = 1 then ret 1
      else bnd coin (\<lambda>c.
        if c then rndGetN 1 mx
        else bnd (rndGetN 1 mx) (\<lambda>k. rndGetN 1 k)))"

definition mangle_getOffSet :: "(run_t, nat) hm" where
  "mangle_getOffSet =
     bnd (gets inSize) (\<lambda>sz. bnd (mangle_getLen sz) (\<lambda>l. ret (sz_sub l 1)))"

definition mangle_getOffSetPlus1 :: "(run_t, nat) hm" where
  "mangle_getOffSetPlus1 =
     bnd (gets inSize) (\<lambda>sz.
     let reqlen = min (sz_add sz 1) HF_INPUT_MAX_SIZE
     in bnd (mangle_getLen reqlen) (\<lambda>l. ret (sz_sub l 1)))"

section \<open>Moving, overwriting and inserting bytes\<close>

definition mangle_Move :: "nat \<Rightarrow> nat \<Rightarrow> nat \<Rightarrow> (run_t, unit) hm" where
  "mangle_Move off_from off_to len =
     bnd (gets inSize) (\<lambda>sz.
     if off_from \<ge> sz then ret ()
     else if off_to \<ge> sz then ret ()
     else if off_from = off_to then ret ()
     else
       let len_from = sz_sub sz off_from;
           len = min len len_from;
           len_to = sz_sub sz off_to;
           len = min len len_to
       in bnd (readIn off_from len) (\<lambda>bs. writeIn off_to bs))"

text \<open>\<open>util_turnToPrintable (&data[off], len)\<close>.\<close>

definition printableIn :: "nat \<Rightarrow> nat \<Rightarrow> (run_t, unit) hm" where
  "printableIn off len = bnd (readIn off len) (\<lambda>bs. writeIn off (util_turnToPrintable bs))"

text \<open>\<open>memset (&data[off], val, len)\<close>.\<close>

definition memsetIn :: "nat \<Rightarrow> byte \<Rightarrow> nat \<Rightarrow> (run_t, unit) hm" where
  "memsetIn off val len = writeIn off (replicate len val)"

definition mangle_Overwrite :: "nat \<Rightarrow> byte list \<Rightarrow> nat \<Rightarrow> bool \<Rightarrow> (run_t, unit) hm" where
  "mangle_Overwrite off src len pr =
     (if len = 0 then ret ()
      else bnd (gets inSize) (\<lambda>sz.
        let maxToCopy = sz_sub sz off;
            len = (if len > maxToCopy then maxToCopy else len)
        in bnd (or_fault OutOfBounds (buf_read src 0 len)) (\<lambda>bs.
           bnd (writeIn off bs) (\<lambda>_.
           if pr then printableIn off len else ret ()))))"

definition mangle_Inflate :: "nat \<Rightarrow> nat \<Rightarrow> bool \<Rightarrow> (run_t, nat) hm" where
  "mangle_Inflate off len pr =
     bnd (gets inSize) (\<lambda>sz. bnd (gets maxInputSz) (\<lambda>mx.
     if sz \<ge> mx then ret 0
     else
       let len = (if len > sz_sub mx sz then sz_sub mx sz else len)
       in bnd (input_setSize (sz_add sz len)) (\<lambda>_.
          bnd (gets inSize) (\<lambda>sz'.
          bnd (mangle_Move off (sz_add off len) sz') (\<lambda>_.
          bnd (if pr then memsetIn off 32 len else ret ()) (\<lambda>_.
          ret len))))))"

definition mangle_Insert :: "nat \<Rightarrow> byte list \<Rightarrow> nat \<Rightarrow> bool \<Rightarrow> (run_t, unit) hm" where
  "mangle_Insert off val len pr =
     bnd (mangle_Inflate off len pr) (\<lambda>len. mangle_Overwrite off val len pr)"

definition mangle_UseValue :: "byte list \<Rightarrow> nat \<Rightarrow> bool \<Rightarrow> (run_t, unit) hm" where
  "mangle_UseValue val len pr =
     bnd coin (\<lambda>c.
     if c then bnd mangle_getOffSet (\<lambda>off. mangle_Overwrite off val len pr)
     else bnd mangle_getOffSetPlus1 (\<lambda>off. mangle_Insert off val len pr))"

definition mangle_UseValueAt :: "nat \<Rightarrow> byte list \<Rightarrow> nat \<Rightarrow> bool \<Rightarrow> (run_t, unit) hm" where
  "mangle_UseValueAt off val len pr =
     bnd coin (\<lambda>c.
     if c then mangle_Overwrite off val len pr else mangle_Insert off val len pr)"

section \<open>The mutations\<close>

definition swap_step :: "nat \<Rightarrow> nat \<Rightarrow> (run_t, unit) hm" where
  "swap_step p q =
     bnd (readIn8 q) (\<lambda>tmp. bnd (readIn8 p) (\<lambda>b.
     bnd (writeIn8 q b) (\<lambda>_. writeIn8 p tmp)))"

definition mangle_MemSwap :: "bool \<Rightarrow> (run_t, unit) hm" where
  "mangle_MemSwap pr =
     bnd mangle_getOffSet (\<lambda>off1. bnd (gets inSize) (\<lambda>sz.
     let maxlen1 = sz_sub sz off1 in
     bnd mangle_getOffSet (\<lambda>off2. bnd (gets inSize) (\<lambda>sz.
     let maxlen2 = sz_sub sz off2 in
     bnd (mangle_getLen (min maxlen1 maxlen2)) (\<lambda>len.
     if off1 = off2 then ret ()
     else forM [0 ..< len div 2] (\<lambda>i.
       bnd (swap_step (off1 + i) (off2 + i)) (\<lambda>_.
       swap_step (off1 + (len - 1) - i) (off2 + (len - 1) - i))))))))"

definition mangle_MemCopy :: "bool \<Rightarrow> (run_t, unit) hm" where
  "mangle_MemCopy pr =
     bnd mangle_getOffSet (\<lambda>off. bnd (gets inSize) (\<lambda>sz.
     bnd (mangle_getLen (sz_sub sz off)) (\<lambda>len.
     bnd (readIn off len) (\<lambda>tmpbuf.
     mangle_UseValue tmpbuf len pr))))"

text \<open>The two bytes of a \<open>uint16_t\<close> in memory order (little endian).\<close>

definition mangle_Bytes :: "bool \<Rightarrow> (run_t, unit) hm" where
  "mangle_Bytes pr =
     bnd (if pr then rnd (util_rndBufPrintable 2)
          else bnd (rnd util_rnd64) (\<lambda>v. ret [ucast v, ucast (drop_bit 8 v)])) (\<lambda>buf.
     bnd (rndGetN 1 2) (\<lambda>toCopy.
     mangle_UseValue buf toCopy pr))"

definition mangle_ByteRepeat :: "bool \<Rightarrow> (run_t, unit) hm" where
  "mangle_ByteRepeat pr =
     bnd mangle_getOffSet (\<lambda>off. bnd (gets inSize) (\<lambda>sz.
     let destOff = sz_add off 1;
         maxSz = sz_sub sz destOff
     in if maxSz = 0 then mangle_Bytes pr
        else bnd (mangle_getLen maxSz) (\<lambda>len.
          bnd coin (\<lambda>c.
          bnd (if c then mangle_Inflate destOff len pr else ret len) (\<lambda>len.
          bnd (readIn8 off) (\<lambda>b.
          memsetIn destOff b len))))))"

definition mangle_Bit :: "bool \<Rightarrow> (run_t, unit) hm" where
  "mangle_Bit pr =
     bnd mangle_getOffSet (\<lambda>off.
     bnd (rndGetN 0 7) (\<lambda>k.
     bnd (readIn8 off) (\<lambda>b.
     bnd (writeIn8 off (b XOR push_bit k 1)) (\<lambda>_.
     if pr then printableIn off 1 else ret ()))))"

definition mangleMagicVals_1_2 :: "(byte list \<times> nat) list" where
  "mangleMagicVals_1_2 = [
     ([0, 0, 0, 0, 0, 0, 0, 0], 1), ([1, 0, 0, 0, 0, 0, 0, 0], 1),
     ([2, 0, 0, 0, 0, 0, 0, 0], 1), ([3, 0, 0, 0, 0, 0, 0, 0], 1),
     ([4, 0, 0, 0, 0, 0, 0, 0], 1), ([5, 0, 0, 0, 0, 0, 0, 0], 1),
     ([6, 0, 0, 0, 0, 0, 0, 0], 1), ([7, 0, 0, 0, 0, 0, 0, 0], 1),
     ([8, 0, 0, 0, 0, 0, 0, 0], 1), ([9, 0, 0, 0, 0, 0, 0, 0], 1),
     ([0x0A, 0, 0, 0, 0, 0, 0, 0], 1), ([0x0B, 0, 0, 0, 0, 0, 0, 0], 1),
     ([0x0C, 0, 0, 0, 0, 0, 0, 0], 1), ([0x0D, 0, 0, 0, 0, 0, 0, 0], 1),
     ([0x0E, 0, 0, 0, 0, 0, 0, 0], 1), ([0x0F, 0, 0, 0, 0, 0, 0, 0], 1),
     ([0x10, 0, 0, 0, 0, 0, 0, 0], 1), ([0x20, 0, 0, 0, 0, 0, 0, 0], 1),
     ([0x40, 0, 0, 0, 0, 0, 0, 0], 1), ([0x7E, 0, 0, 0, 0, 0, 0, 0], 1),
     ([0x7F, 0, 0, 0, 0, 0, 0, 0], 1), ([0x80, 0, 0, 0, 0, 0, 0, 0], 1),
     ([0x81, 0, 0, 0, 0, 0, 0, 0], 1), ([0xC0, 0, 0, 0, 0, 0, 0, 0], 1),
     ([0xFE, 0, 0, 0, 0, 0, 0, 0], 1), ([0xFF, 0, 0, 0, 0, 0, 0, 0], 1),
     ([0, 0, 0, 0, 0, 0, 0, 0], 2), ([1, 1, 0, 0, 0, 0, 0, 0], 2),
     ([0x80, 0x80, 0, 0, 0, 0, 0, 0], 2), ([0xFF, 0xFF, 0, 0, 0, 0, 0, 0], 2),
     ([0, 1, 0, 0, 0, 0, 0, 0], 2), ([0, 2, 0, 0, 0, 0, 0, 0], 2),
     ([0, 3, 0, 0, 0, 0, 0, 0], 2), ([0, 4, 0, 0, 0, 0, 0, 0], 2),
     ([0, 5, 0, 0, 0, 0, 0, 0], 2), ([0, 6, 0, 0, 0, 0, 0, 0], 2),
     ([0, 7, 0, 0, 0, 0, 0, 0], 2), ([0, 8, 0, 0, 0, 0, 0, 0], 2),
     ([0, 9, 0, 0, 0, 0, 0, 0], 2), ([0, 0x0A, 0, 0, 0, 0, 0, 0], 2),
     ([0, 0x0B, 0, 0, 0, 0, 0, 0], 2), ([0, 0x0C, 0, 0, 0, 0, 0, 0], 2),
     ([0, 0x0D, 0, 0, 0, 0, 0, 0], 2), ([0, 0x0E, 0, 0, 0, 0, 0, 0], 2),
     ([0, 0x0F, 0, 0, 0, 0, 0, 0], 2), ([0, 0x10, 0, 0, 0, 0, 0, 0], 2),
     ([0, 0x20, 0, 0, 0, 0, 0, 0], 2), ([0, 0x40, 0, 0, 0, 0, 0, 0], 2),
     ([0, 0x7E, 0, 0, 0, 0, 0, 0], 2), ([0, 0x7F, 0, 0, 0, 0, 0, 0], 2),
     ([0, 0x80, 0, 0, 0, 0, 0, 0], 2), ([0, 0x81, 0, 0, 0, 0, 0, 0], 2),
     ([0, 0xC0, 0, 0, 0, 0, 0, 0], 2), ([0, 0xFE, 0, 0, 0, 0, 0, 0], 2),
     ([0, 0xFF, 0, 0, 0, 0, 0, 0], 2), ([0x7E, 0xFF, 0, 0, 0, 0, 0, 0], 2),
     ([0x7F, 0xFF, 0, 0, 0, 0, 0, 0], 2), ([0x80, 0, 0, 0, 0, 0, 0, 0], 2),
     ([0x80, 1, 0, 0, 0, 0, 0, 0], 2), ([0xFF, 0xFE, 0, 0, 0, 0, 0, 0], 2),
     ([0, 0, 0, 0, 0, 0, 0, 0], 2), ([1, 0, 0, 0, 0, 0, 0, 0], 2),
     ([2, 0, 0, 0, 0, 0, 0, 0], 2), ([3, 0, 0, 0, 0, 0, 0, 0], 2),
     ([4, 0, 0, 0, 0, 0, 0, 0], 2), ([5, 0, 0, 0, 0, 0, 0, 0], 2),
     ([6, 0, 0, 0, 0, 0, 0, 0], 2), ([7, 0, 0, 0, 0, 0, 0, 0], 2),
     ([8, 0, 0, 0, 0, 0, 0, 0], 2), ([9, 0, 0, 0, 0, 0, 0, 0], 2),
     ([0x0A, 0, 0, 0, 0, 0, 0, 0], 2), ([0x0B, 0, 0, 0, 0, 0, 0, 0], 2),
     ([0x0C, 0, 0, 0, 0, 0, 0, 0], 2), ([0x0D, 0, 0, 0, 0, 0, 0, 0], 2),
     ([0x0E, 0, 0, 0, 0, 0, 0, 0], 2), ([0x0F, 0, 0, 0, 0, 0, 0, 0], 2),
     ([0x10, 0, 0, 0, 0, 0, 0, 0], 2), ([0x20, 0, 0, 0, 0, 0, 0, 0], 2),
     ([0x40, 0, 0, 0, 0, 0, 0, 0], 2), ([0x7E, 0, 0, 0, 0, 0, 0, 0], 2),
     ([0x7F, 0, 0, 0, 0, 0, 0, 0], 2), ([0x80, 0, 0, 0, 0, 0, 0, 0], 2),
     ([0x81, 0, 0, 0, 0, 0, 0, 0], 2), ([0xC0, 0, 0, 0, 0, 0, 0, 0], 2),
     ([0xFE, 0, 0, 0, 0, 0, 0, 0], 2), ([0xFF, 0, 0, 0, 0, 0, 0, 0], 2),
     ([0xFF, 0x7E, 0, 0, 0, 0, 0, 0], 2), ([0xFF, 0x7F, 0, 0, 0, 0, 0, 0], 2),
     ([0, 0x80, 0, 0, 0, 0, 0, 0], 2), ([1, 0x80, 0, 0, 0, 0, 0, 0], 2),
     ([0xFE, 0xFF, 0, 0, 0, 0, 0, 0], 2)]"

definition mangleMagicVals_4 :: "(byte list \<times> nat) list" where
  "mangleMagicVals_4 = [
     ([0, 0, 0, 0, 0, 0, 0, 0], 4), ([1, 1, 1, 1, 0, 0, 0, 0], 4),
     ([0x80, 0x80, 0x80, 0x80, 0, 0, 0, 0], 4), ([0xFF, 0xFF, 0xFF, 0xFF, 0, 0, 0, 0], 4),
     ([0, 0, 0, 1, 0, 0, 0, 0], 4), ([0, 0, 0, 2, 0, 0, 0, 0], 4),
     ([0, 0, 0, 3, 0, 0, 0, 0], 4), ([0, 0, 0, 4, 0, 0, 0, 0], 4),
     ([0, 0, 0, 5, 0, 0, 0, 0], 4), ([0, 0, 0, 6, 0, 0, 0, 0], 4),
     ([0, 0, 0, 7, 0, 0, 0, 0], 4), ([0, 0, 0, 8, 0, 0, 0, 0], 4),
     ([0, 0, 0, 9, 0, 0, 0, 0], 4), ([0, 0, 0, 0x0A, 0, 0, 0, 0], 4),
     ([0, 0, 0, 0x0B, 0, 0, 0, 0], 4), ([0, 0, 0, 0x0C, 0, 0, 0, 0], 4),
     ([0, 0, 0, 0x0D, 0, 0, 0, 0], 4), ([0, 0, 0, 0x0E, 0, 0, 0, 0], 4),
     ([0, 0, 0, 0x0F, 0, 0, 0, 0], 4), ([0, 0, 0, 0x10, 0, 0, 0, 0], 4),
     ([0, 0, 0, 0x20, 0, 0, 0, 0], 4), ([0, 0, 0, 0x40, 0, 0, 0, 0], 4),
     ([0, 0, 0, 0x7E, 0, 0, 0, 0], 4), ([0, 0, 0, 0x7F, 0, 0, 0, 0], 4),
     ([0, 0, 0, 0x80, 0, 0, 0, 0], 4), ([0, 0, 0, 0x81, 0, 0, 0, 0], 4),
     ([0, 0, 0, 0xC0, 0, 0, 0, 0], 4), ([0, 0, 0, 0xFE, 0, 0, 0, 0], 4),
     ([0, 0, 0, 0xFF, 0, 0, 0, 0], 4), ([0x7E, 0xFF, 0xFF, 0xFF, 0, 0, 0, 0], 4),
     ([0x7F, 0xFF, 0xFF, 0xFF, 0, 0, 0, 0], 4), ([0x80, 0, 0, 0, 0, 0, 0, 0], 4),
     ([0x80, 0, 0, 1, 0, 0, 0, 0], 4), ([0xFF, 0xFF, 0xFF, 0xFE, 0, 0, 0, 0], 4),
     ([0, 0, 0, 0, 0, 0, 0, 0], 4), ([1, 0, 0, 0, 0, 0, 0, 0], 4),
     ([2, 0, 0, 0, 0, 0, 0, 0], 4), ([3, 0, 0, 0, 0, 0, 0, 0], 4),
     ([4, 0, 0, 0, 0, 0, 0, 0], 4), ([5, 0, 0, 0, 0, 0, 0, 0], 4),
     ([6, 0, 0, 0, 0, 0, 0, 0], 4), ([7, 0, 0, 0, 0, 0, 0, 0], 4),
     ([8, 0, 0, 0, 0, 0, 0, 0], 4), ([9, 0, 0, 0, 0, 0, 0, 0], 4),
     ([0x0A, 0, 0, 0, 0, 0, 0, 0], 4), ([0x0B, 0, 0, 0, 0, 0, 0, 0], 4),
     ([0x0C, 0, 0, 0, 0, 0, 0, 0], 4), ([0x0D, 0, 0, 0, 0, 0, 0, 0], 4),
     ([0x0E, 0, 0, 0, 0, 0, 0, 0], 4), ([0x0F, 0, 0, 0, 0, 0, 0, 0], 4),
     ([0x10, 0, 0, 0, 0, 0, 0, 0], 4), ([0x20, 0, 0, 0, 0, 0, 0, 0], 4),
     ([0x40, 0, 0, 0, 0, 0, 0, 0], 4), ([0x7E, 0, 0, 0, 0, 0, 0, 0], 4),
     ([0x7F, 0, 0, 0, 0, 0, 0, 0], 4), ([0x80, 0, 0, 0, 0, 0, 0, 0], 4),
     ([0x81, 0, 0, 0, 0, 0, 0, 0], 4), ([0xC0, 0, 0, 0, 0, 0, 0, 0], 4),
     ([0xFE, 0, 0, 0, 0, 0, 0, 0], 4), ([0xFF, 0, 0, 0, 0, 0, 0, 0], 4),
     ([0xFF, 0xFF, 0xFF, 0x7E, 0, 0, 0, 0], 4), ([0xFF, 0xFF, 0xFF, 0x7F, 0, 0, 0, 0], 4),
     ([0, 0, 0, 0x80, 0, 0, 0, 0], 4), ([1, 0, 0, 0x80, 0, 0, 0, 0], 4),
     ([0xFE, 0xFF, 0xFF, 0xFF, 0, 0, 0, 0], 4)]"

definition mangleMagicVals_8 :: "(byte list \<times> nat) list" where
  "mangleMagicVals_8 = [
     ([0, 0, 0, 0, 0, 0, 0, 0], 8), ([1, 1, 1, 1, 1, 1, 1, 1], 8),
     ([0x80, 0x80, 0x80, 0x80, 0x80, 0x80, 0x80, 0x80], 8), ([0xFF, 0xFF, 0xFF, 0xFF, 0xFF, 0xFF, 0xFF, 0xFF], 8),
     ([0, 0, 0, 0, 0, 0, 0, 1], 8), ([0, 0, 0, 0, 0, 0, 0, 2], 8),
     ([0, 0, 0, 0, 0, 0, 0, 3], 8), ([0, 0, 0, 0, 0, 0, 0, 4], 8),
     ([0, 0, 0, 0, 0, 0, 0, 5], 8), ([0, 0, 0, 0, 0, 0, 0, 6], 8),
     ([0, 0, 0, 0, 0, 0, 0, 7], 8), ([0, 0, 0, 0, 0, 0, 0, 8], 8),
     ([0, 0, 0, 0, 0, 0, 0, 9], 8), ([0, 0, 0, 0, 0, 0, 0, 0x0A], 8),
     ([0, 0, 0, 0, 0, 0, 0, 0x0B], 8), ([0, 0, 0, 0, 0, 0, 0, 0x0C], 8),
     ([0, 0, 0, 0, 0, 0, 0, 0x0D], 8), ([0, 0, 0, 0, 0, 0, 0, 0x0E], 8),
     ([0, 0, 0, 0, 0, 0, 0, 0x0F], 8), ([0, 0, 0, 0, 0, 0, 0, 0x10], 8),
     ([0, 0, 0, 0, 0, 0, 0, 0x20], 8), ([0, 0, 0, 0, 0, 0, 0, 0x40], 8),
     ([0, 0, 0, 0, 0, 0, 0, 0x7E], 8), ([0, 0, 0, 0, 0, 0, 0, 0x7F], 8),
     ([0, 0, 0, 0, 0, 0, 0, 0x80], 8), ([0, 0, 0, 0, 0, 0, 0, 0x81], 8),
     ([0, 0, 0, 0, 0, 0, 0, 0xC0], 8), ([0, 0, 0, 0, 0, 0, 0, 0xFE], 8),
     ([0, 0, 0, 0, 0, 0, 0, 0xFF], 8), ([0x7E, 0xFF, 0xFF, 0xFF, 0xFF, 0xFF, 0xFF, 0xFF], 8),
     ([0x7F, 0xFF, 0xFF, 0xFF, 0xFF, 0xFF, 0xFF, 0xFF], 8), ([0x80, 0, 0, 0, 0, 0, 0, 0], 8),
     ([0x80, 0, 0, 0, 0, 0, 0, 1], 8), ([0xFF, 0xFF, 0xFF, 0xFF, 0xFF, 0xFF, 0xFF, 0xFE], 8),
     ([0, 0, 0, 0, 0, 0, 0, 0], 8), ([1, 0, 0, 0, 0, 0, 0, 0], 8),
     ([2, 0, 0, 0, 0, 0, 0, 0], 8), ([3, 0, 0, 0, 0, 0, 0, 0], 8),
     ([4, 0, 0, 0, 0, 0, 0, 0], 8), ([5, 0, 0, 0, 0, 0, 0, 0], 8),
     ([6, 0, 0, 0, 0, 0, 0, 0], 8), ([7, 0, 0, 0, 0, 0, 0, 0], 8),
     ([8, 0, 0, 0, 0, 0, 0, 0], 8), ([9, 0, 0, 0, 0, 0, 0, 0], 8),
     ([0x0A, 0, 0, 0, 0, 0, 0, 0], 8), ([0x0B, 0, 0, 0, 0, 0, 0, 0], 8),
     ([0x0C, 0, 0, 0, 0, 0, 0, 0], 8), ([0x0D, 0, 0, 0, 0, 0, 0, 0], 8),
     ([0x0E, 0, 0, 0, 0, 0, 0, 0], 8), ([0x0F, 0, 0, 0, 0, 0, 0, 0], 8),
     ([0x10, 0, 0, 0, 0, 0, 0, 0], 8), ([0x20, 0, 0, 0, 0, 0, 0, 0], 8),
     ([0x40, 0, 0, 0, 0, 0, 0, 0], 8), ([0x7E, 0, 0, 0, 0, 0, 0, 0], 8),
     ([0x7F, 0, 0, 0, 0, 0, 0, 0], 8), ([0x80, 0, 0, 0, 0, 0, 0, 0], 8),
     ([0x81, 0, 0, 0, 0, 0, 0, 0], 8), ([0xC0, 0, 0, 0, 0, 0, 0, 0], 8),
     ([0xFE, 0, 0, 0, 0, 0, 0, 0], 8), ([0xFF, 0, 0, 0, 0, 0, 0, 0], 8),
     ([0xFF, 0xFF, 0xFF, 0xFF, 0xFF, 0xFF, 0xFF, 0x7E], 8), ([0xFF, 0xFF, 0xFF, 0xFF, 0xFF, 0xFF, 0xFF, 0x7F], 8),
     ([0, 0, 0, 0, 0, 0, 0, 0x80], 8), ([1, 0, 0, 0, 0, 0, 0, 0x80], 8),
     ([0xFE, 0xFF, 0xFF, 0xFF, 0xFF, 0xFF, 0xFF, 0xFF], 8)]"

definition mangleMagicVals :: "(byte list \<times> nat) list" where
  "mangleMagicVals = mangleMagicVals_1_2 @ mangleMagicVals_4 @ mangleMagicVals_8"

definition mangle_Magic :: "bool \<Rightarrow> (run_t, unit) hm" where
  "mangle_Magic pr =
     bnd (rndGetN 0 (length mangleMagicVals - 1)) (\<lambda>choice.
     bnd (or_fault OutOfBounds (buf_get mangleMagicVals choice)) (\<lambda>(val, sz).
     mangle_UseValue val sz pr))"

definition mangle_StaticDict :: "bool \<Rightarrow> (run_t, unit) hm" where
  "mangle_StaticDict pr =
     bnd (gets global) (\<lambda>h.
     if mutate_dictionaryCnt h = 0 then mangle_Bytes pr
     else bnd (rndGetN 0 (sz_sub (mutate_dictionaryCnt h) 1)) (\<lambda>choice.
          bnd (or_fault OutOfBounds (buf_get (mutate_dictionary h) choice)) (\<lambda>val.
          mangle_UseValue val (length val) pr)))"

text \<open>The chosen comparison operand and its length, or \<open>NULL\<close>.\<close>

definition mangle_FeedbackDict :: "(run_t, (byte list \<times> nat) option) hm" where
  "mangle_FeedbackDict =
     bnd (gets global) (\<lambda>h.
     if \<not> feedback_cmpFeedback h then ret None
     else
       let cmpf = feedback_cmpFeedbackMap h;
           cnt = cmpf_cnt cmpf
       in if cnt = 0 then ret None
          else
            let cnt = (if unat cnt > length (cmpf_valArr cmpf)
                       then length (cmpf_valArr cmpf) else unat cnt)
            in bnd (rndGetN 0 (sz_sub cnt 1)) (\<lambda>choice.
               bnd (or_fault OutOfBounds (buf_get (cmpf_valArr cmpf) choice)) (\<lambda>e.
               let len = unat (cv_len e)
               in if len = 0 then ret None else ret (Some (cv_val e, len)))))"

definition mangle_ConstFeedbackDict :: "bool \<Rightarrow> (run_t, unit) hm" where
  "mangle_ConstFeedbackDict pr =
     bnd mangle_FeedbackDict (\<lambda>v.
     case v of None \<Rightarrow> mangle_Bytes pr
     | Some (val, len) \<Rightarrow> mangle_UseValue val len pr)"

definition mangle_MemSet :: "bool \<Rightarrow> (run_t, unit) hm" where
  "mangle_MemSet pr =
     bnd mangle_getOffSet (\<lambda>off. bnd (gets inSize) (\<lambda>sz.
     bnd (mangle_getLen (sz_sub sz off)) (\<lambda>len.
     bnd (if pr then rnd util_rndPrintable
          else bnd (rndGetN 0 255) (\<lambda>v. ret (of_nat v))) (\<lambda>val.
     bnd coin (\<lambda>c.
     bnd (if c then mangle_Inflate off len pr else ret len) (\<lambda>len.
     memsetIn off val len))))))"

definition mangle_MemClr :: "bool \<Rightarrow> (run_t, unit) hm" where
  "mangle_MemClr pr =
     bnd mangle_getOffSet (\<lambda>off. bnd (gets inSize) (\<lambda>sz.
     bnd (mangle_getLen (sz_sub sz off)) (\<lambda>len.
     let val = (if pr then 32 else 0) in
     bnd coin (\<lambda>c.
     bnd (if c then mangle_Inflate off len pr else ret len) (\<lambda>len.
     memsetIn off val len)))))"

definition mangle_RandomBuf :: "bool \<Rightarrow> (run_t, unit) hm" where
  "mangle_RandomBuf pr =
     bnd mangle_getOffSet (\<lambda>off. bnd (gets inSize) (\<lambda>sz.
     bnd (mangle_getLen (sz_sub sz off)) (\<lambda>len.
     bnd coin (\<lambda>c.
     bnd (if c then mangle_Inflate off len pr else ret len) (\<lambda>len.
     bnd (rnd (if pr then util_rndBufPrintable len else util_rndBuf len)) (\<lambda>bs.
     writeIn off bs))))))"

text \<open>
  The value of \<open>varLen\<close> bytes in little-endian order, changed by \<open>delta\<close> either in
  this or in the opposite byte order; the sum is reduced to the width of the variable.
\<close>

definition le_value :: "byte list \<Rightarrow> u64" where
  "le_value bs = horner_sum ucast 256 bs"

definition le_bytes :: "nat \<Rightarrow> u64 \<Rightarrow> byte list" where
  "le_bytes n v = map (\<lambda>i. ucast (drop_bit (8 * i) v)) [0 ..< n]"

definition add_var :: "byte list \<Rightarrow> u64 \<Rightarrow> byte list" where
  "add_var bs delta = le_bytes (length bs) (le_value bs + delta)"

definition addsub_var :: "nat \<Rightarrow> nat \<Rightarrow> u64 \<Rightarrow> bool \<Rightarrow> (run_t, unit) hm" where
  "addsub_var off varLen delta pr =
     bnd (readIn off varLen) (\<lambda>val.
     bnd coin (\<lambda>c.
     let val = (if c then add_var val delta else rev (add_var (rev val) delta))
     in mangle_Overwrite off val varLen pr))"

definition mangle_AddSubWithRange :: "nat \<Rightarrow> nat \<Rightarrow> nat \<Rightarrow> bool \<Rightarrow> (run_t, unit) hm" where
  "mangle_AddSubWithRange off varLen rge pr =
     bnd (rndGetN 0 (rge * 2)) (\<lambda>v.
     let delta = of_nat v - of_nat rge
     in if varLen = 1 then
          bnd (readIn8 off) (\<lambda>b. writeIn8 off (b + ucast delta))
        else if varLen = 2 then addsub_var off 2 delta pr
        else if varLen = 4 then addsub_var off 4 delta pr
        else if varLen = 8 then addsub_var off 8 delta pr
        else raise LogFatal)"

definition mangle_AddSub :: "bool \<Rightarrow> (run_t, unit) hm" where
  "mangle_AddSub pr =
     bnd mangle_getOffSet (\<lambda>off.
     bnd (rndGetN 0 3) (\<lambda>k. bnd (gets inSize) (\<lambda>sz.
     let varLen = 2 ^ k;
         varLen = (if sz_sub sz off < varLen then 1 else varLen)
     in if varLen = 1 then mangle_AddSubWithRange off varLen 16 pr
        else if varLen = 2 then mangle_AddSubWithRange off varLen 4096 pr
        else if varLen = 4 then mangle_AddSubWithRange off varLen 1048576 pr
        else if varLen = 8 then mangle_AddSubWithRange off varLen 268435456 pr
        else raise LogFatal)))"

text \<open>\<open>(b - 32 + k) % 95 + 32\<close> in \<open>int\<close> arithmetic (\<open>%\<close> truncates), stored in a byte.\<close>

definition rot_printable :: "int \<Rightarrow> byte \<Rightarrow> byte" where
  "rot_printable k b =
     (let x = int (unat b) - 32 + k
      in of_int ((if x < 0 then - ((- x) mod 95) else x mod 95) + 32))"

definition mangle_IncByte :: "bool \<Rightarrow> (run_t, unit) hm" where
  "mangle_IncByte pr =
     bnd mangle_getOffSet (\<lambda>off. bnd (readIn8 off) (\<lambda>b.
     writeIn8 off (if pr then rot_printable 1 b else b + 1)))"

definition mangle_DecByte :: "bool \<Rightarrow> (run_t, unit) hm" where
  "mangle_DecByte pr =
     bnd mangle_getOffSet (\<lambda>off. bnd (readIn8 off) (\<lambda>b.
     writeIn8 off (if pr then rot_printable 94 b else b - 1)))"

definition mangle_NegByte :: "bool \<Rightarrow> (run_t, unit) hm" where
  "mangle_NegByte pr =
     bnd mangle_getOffSet (\<lambda>off. bnd (readIn8 off) (\<lambda>b.
     writeIn8 off (if pr then of_int (94 - (int (unat b) - 32) + 32) else NOT b)))"

definition mangle_Expand :: "bool \<Rightarrow> (run_t, unit) hm" where
  "mangle_Expand pr =
     bnd mangle_getOffSet (\<lambda>off.
     bnd (rnd util_rnd64) (\<lambda>v. bnd (gets maxInputSz) (\<lambda>mx.
     bnd (if v mod 16 \<noteq> 0 then mangle_getLen (min 16 (sz_sub mx off))
          else mangle_getLen (sz_sub mx off)) (\<lambda>len.
     bnd (mangle_Inflate off len pr) (\<lambda>_. ret ())))))"

definition mangle_Shrink :: "bool \<Rightarrow> (run_t, unit) hm" where
  "mangle_Shrink pr =
     bnd (gets inSize) (\<lambda>sz.
     if sz \<le> 2 then ret ()
     else bnd mangle_getOffSet (\<lambda>off_start.
       bnd (mangle_LenLeft off_start) (\<lambda>len.
       if len = 0 then ret ()
       else bnd (rnd util_rnd64) (\<lambda>v.
         bnd (if v mod 16 \<noteq> 0 then mangle_getLen (min 16 len) else mangle_getLen len) (\<lambda>len.
         bnd (gets inSize) (\<lambda>sz.
         let off_end = sz_add off_start len;
             len_to_move = sz_sub sz off_end
         in bnd (mangle_Move off_end off_start len_to_move) (\<lambda>_.
            input_setSize (sz_sub sz len))))))))"

text \<open>The 20-byte array after \<open>snprintf (buf, 20, "%-19" PRI?64, v)\<close>.\<close>

definition num_buf :: "byte list \<Rightarrow> byte list" where
  "num_buf digits = snprintf_cut 20 (pad_right 19 digits) @ [0]"

definition mangle_ASCIINum :: "bool \<Rightarrow> (run_t, unit) hm" where
  "mangle_ASCIINum pr =
     bnd (rndGetN 2 8) (\<lambda>len.
     bnd (rnd util_rnd64) (\<lambda>v.
     mangle_UseValue (num_buf (dec_int (sint v))) len pr))"

text \<open>The search for a digit, with \<open>n\<close> bytes left from \<open>off\<close> on.\<close>

primrec find_digit :: "nat \<Rightarrow> nat \<Rightarrow> (run_t, nat) hm" where
  "find_digit 0 off = ret off"
| "find_digit (Suc n) off =
     bnd (readIn8 off) (\<lambda>c. if isdigit c then ret off else find_digit n (off + 1))"

text \<open>The number that starts at \<open>off\<close>, with at most \<open>n\<close> more digits.\<close>

primrec parse_digits :: "nat \<Rightarrow> nat \<Rightarrow> nat \<Rightarrow> u64 \<Rightarrow> (run_t, nat \<times> u64) hm" where
  "parse_digits 0 off len val = ret (len, val)"
| "parse_digits (Suc n) off len val =
     bnd (readIn8 (off + len)) (\<lambda>c.
     if \<not> isdigit c then ret (len, val)
     else parse_digits n off (len + 1) (val * 10 + (ucast c - 48)))"

definition change_number :: "nat \<Rightarrow> u64 \<Rightarrow> (run_t, u64) hm" where
  "change_number choice val =
     (if choice = 0 then ret (val + 1)
      else if choice = 1 then ret (val - 1)
      else if choice = 2 then ret (val * 2)
      else if choice = 3 then ret (val div 2)
      else if choice = 4 then rnd util_rnd64
      else if choice = 5 then bnd (rnd (util_rndGet 1 256)) (\<lambda>v. ret (val + v))
      else if choice = 6 then bnd (rnd (util_rndGet 1 256)) (\<lambda>v. ret (val - v))
      else if choice = 7 then ret (NOT val)
      else raise LogFatal)"

definition mangle_ASCIINumChange :: "bool \<Rightarrow> (run_t, unit) hm" where
  "mangle_ASCIINumChange pr =
     bnd mangle_getOffSet (\<lambda>off. bnd (gets inSize) (\<lambda>sz.
     bnd (find_digit (sz - off) off) (\<lambda>off.
     let left = sz_sub sz off
     in if left = 0 then ret ()
        else bnd (parse_digits (min 20 left) off 0 0) (\<lambda>(len, val).
          bnd (rndGetN 0 7) (\<lambda>choice.
          bnd (change_number choice val) (\<lambda>val.
          mangle_UseValueAt off (num_buf (dec_nat (unat val))) len pr))))))"

definition mangle_Splice :: "bool \<Rightarrow> (run_t, unit) hm" where
  "mangle_Splice pr =
     bnd (gets global) (\<lambda>h.
     if feedback_dynFileMethod h = DYNFILE_NONE then mangle_Bytes pr
     else bnd input_getRandomInputAsBuf (\<lambda>b.
       case b of
         None \<Rightarrow> mangle_Bytes pr
       | Some buf \<Rightarrow>
           let sz = length buf
           in if sz = 0 then mangle_Bytes pr
              else bnd (mangle_getLen sz) (\<lambda>l.
                let remoteOff = sz_sub l 1
                in bnd (mangle_getLen (sz_sub sz remoteOff)) (\<lambda>len.
                   mangle_UseValue (drop remoteOff buf) len pr))))"

text \<open>\<open>ssize_t\<close> arithmetic: the sizes are small, so \<open>int\<close> is exact.\<close>

definition mangle_Resize :: "bool \<Rightarrow> (run_t, unit) hm" where
  "mangle_Resize pr =
     bnd (gets inSize) (\<lambda>sz. bnd (gets maxInputSz) (\<lambda>mx.
     let oldsz = int sz in
     bnd (rndGetN 0 32) (\<lambda>choice.
     bnd (if choice = 0 then bnd (rndGetN 1 mx) (\<lambda>v. ret (int v))
          else if 1 \<le> choice \<and> choice \<le> 4 then bnd (rndGetN 0 8) (\<lambda>v. ret (oldsz + int v))
          else if choice = 5 then bnd (rndGetN 9 128) (\<lambda>v. ret (oldsz + int v))
          else if 6 \<le> choice \<and> choice \<le> 9 then bnd (rndGetN 0 8) (\<lambda>v. ret (oldsz - int v))
          else if choice = 10 then bnd (rndGetN 9 128) (\<lambda>v. ret (oldsz - int v))
          else if 11 \<le> choice \<and> choice \<le> 32 then ret oldsz
          else raise LogFatal) (\<lambda>newsz.
     let newsz = (if newsz < 1 then 1 else newsz);
         newsz = (if newsz > int mx then int mx else newsz)
     in bnd (input_setSize (nat newsz)) (\<lambda>_.
        if newsz > oldsz
        then (if pr then memsetIn (nat oldsz) 32 (nat (newsz - oldsz)) else ret ())
        else ret ())))))"

definition mangleFuncs :: "(bool \<Rightarrow> (run_t, unit) hm) list" where
  "mangleFuncs =
     [mangle_Shrink, mangle_Expand, mangle_Bit, mangle_IncByte, mangle_DecByte, mangle_NegByte,
      mangle_AddSub, mangle_MemSet, mangle_MemClr, mangle_MemSwap, mangle_MemCopy, mangle_Bytes,
      mangle_ASCIINum, mangle_ASCIINumChange, mangle_ByteRepeat, mangle_Magic,
      mangle_StaticDict, mangle_ConstFeedbackDict, mangle_RandomBuf, mangle_Splice]"

definition mangle_one :: "bool \<Rightarrow> (run_t, unit) hm" where
  "mangle_one pr =
     bnd (gets (\<lambda>r. feedback_cmpFeedback (global r))) (\<lambda>cmp.
     bnd (if cmp then coin else ret False) (\<lambda>c.
     if c then mangle_ConstFeedbackDict pr
     else bnd (rndGetN 0 (length mangleFuncs - 1)) (\<lambda>choice.
          bnd (or_fault OutOfBounds (buf_get mangleFuncs choice)) (\<lambda>f. f pr))))"

definition mangle_mangleContent :: "(run_t, unit) hm" where
  "mangle_mangleContent =
     bnd (gets run_mutationsPerRun) (\<lambda>mpr.
     if mpr = 0 then ret ()
     else bnd (gets (\<lambda>r. cfg_only_printable (global r))) (\<lambda>pr.
       bnd (gets inSize) (\<lambda>sz.
       bnd (if sz = 0 then mangle_Resize pr else ret ()) (\<lambda>_.
       bnd (bnd (gets (\<lambda>r. mutate_mutationsPerRun (global r))) (\<lambda>m. rndGetN 1 (unat m)))
         (\<lambda>changesCnt.
       bnd (gets (\<lambda>r. now r - timing_lastCovUpdate (global r) > 5)) (\<lambda>stale.
       bnd (if stale then bnd coin (\<lambda>c. if c then mangle_Splice pr else ret ()) else ret ())
         (\<lambda>_.
       repeatM changesCnt (mangle_one pr))))))))"

end
