(* ===== verification/HF_Mangle_Safe.thy ===== *)
theory HF_Mangle_Safe
  imports HF_Mangle "HOL-Library.Multiset"
begin

text \<open>
  Safety of the mutations: started in a well-formed run with a non-empty input, every
  mutation ends without a fault, leaves a non-empty input that is not larger than the
  maximal size, and changes nothing but the input, the generator and the splicing cursor.
  In the mode for printable input, every mutation but \<open>mangle_AddSub\<close> keeps a printable
  input printable.
\<close>

section \<open>The invariant\<close>

definition Iv :: "bool \<Rightarrow> run_t \<Rightarrow> run_t \<Rightarrow> bool" where
  "Iv p E r \<longleftrightarrow>
     wf_run r \<and> 1 \<le> inSize r \<and> (p \<longrightarrow> (\<forall>b\<in>set (inData r). printable b)) \<and> frame_proj r = E"

text \<open>The same input, up to the state of the generator.\<close>

definition same_in :: "run_t \<Rightarrow> run_t \<Rightarrow> bool" where
  "same_in r r' \<longleftrightarrow> inSize r' = inSize r \<and> inData r' = inData r \<and> global r' = global r"

lemma same_in_refl [simp]: "same_in r r"
  by (simp add: same_in_def)

lemma same_in_trans: "same_in r s \<Longrightarrow> same_in s t \<Longrightarrow> same_in r t"
  by (simp add: same_in_def)

lemma Iv_global: "Iv p E r \<Longrightarrow> global E = (global r)\<lparr>io_dynfileq2Current := None\<rparr>"
  by (auto simp: Iv_def frame_proj_def)

lemma Iv_bounds:
  assumes "Iv p E r"
  shows "1 \<le> inSize r" "inSize r \<le> maxInputSz r" "length (inData r) = inSize r"
    "maxInputSz r \<le> HF_INPUT_MAX_SIZE" "1 \<le> maxInputSz r"
  using assms by (auto simp: Iv_def wf_run_def env_ok_def maxInputSz_def)

lemma max_size_small: "n \<le> HF_INPUT_MAX_SIZE \<Longrightarrow> n < 2 ^ 24"
  by (simp add: HF_INPUT_MAX_SIZE_def)

lemma Iv_env: "Iv p E r \<Longrightarrow> env_ok (global r)"
  by (simp add: Iv_def wf_run_def)

lemma Iv_maxInputSz: "Iv p E r \<Longrightarrow> maxInputSz r = mutate_maxInputSz (global E)"
  by (simp add: Iv_global maxInputSz_def)

lemma Iv_rnd: "Iv p E r \<Longrightarrow> Iv p E (r\<lparr>rnd_gen := g\<rparr>)"
  by (simp add: Iv_def wf_run_def frame_proj_def inSize_def inData_def maxInputSz_def)

lemma same_in_rnd: "same_in r (r\<lparr>rnd_gen := g\<rparr>)"
  by (simp add: same_in_def inSize_def inData_def)

lemma inSize_setData [simp]: "inSize (setData d r) = inSize r"
  by (simp add: inSize_def setData_def)

lemma inData_setData [simp]: "inData (setData d r) = d"
  by (simp add: inData_def setData_def)

lemma maxInputSz_setData [simp]: "maxInputSz (setData d r) = maxInputSz r"
  by (simp add: maxInputSz_def setData_def)

lemma global_setData [simp]: "global (setData d r) = global r"
  by (simp add: setData_def)

lemma setData_setData [simp]: "setData d (setData e r) = setData d r"
  by (simp add: setData_def)

lemma Iv_setData:
  "Iv p E r \<Longrightarrow> length d = inSize r \<Longrightarrow> (p \<Longrightarrow> \<forall>b\<in>set d. printable b) \<Longrightarrow> Iv p E (setData d r)"
  by (auto simp: Iv_def wf_run_def frame_proj_def setData_def inSize_def inData_def maxInputSz_def)

lemma Iv_printable: "Iv p E r \<Longrightarrow> p \<Longrightarrow> b \<in> set (inData r) \<Longrightarrow> printable b"
  by (simp add: Iv_def)

lemma Iv_nth: "Iv p E r \<Longrightarrow> p \<Longrightarrow> i < inSize r \<Longrightarrow> printable (inData r ! i)"
  by (auto simp: Iv_def wf_run_def)

section \<open>Random choices\<close>

lemma wp_rnd64_run:
  assumes "Iv p E r" and "\<And>v s. Iv p E s \<Longrightarrow> same_in r s \<Longrightarrow> Q v s"
  shows "wp (rnd util_rnd64) Q r"
  using assms by (auto simp: rnd_def hf_wp intro!: wp_rnd64I Iv_rnd same_in_rnd)

lemma wp_coin:
  assumes "Iv p E r" and "\<And>c s. Iv p E s \<Longrightarrow> same_in r s \<Longrightarrow> Q c s"
  shows "wp coin Q r"
  unfolding coin_def hf_wp by (rule wp_rnd64_run [OF assms(1)]) (auto intro: assms(2))

lemma wp_rndGet_run:
  assumes "Iv p E r" and "mn \<le> mx" and "mx \<noteq> - 1"
    and "\<And>v s. Iv p E s \<Longrightarrow> same_in r s \<Longrightarrow> mn \<le> v \<Longrightarrow> v \<le> mx \<Longrightarrow> Q v s"
  shows "wp (rnd (util_rndGet mn mx)) Q r"
  unfolding rnd_def hf_wp
  by (rule wp_rndGetI [OF assms(2,3)]) (auto intro!: assms(4) Iv_rnd assms(1) same_in_rnd)

lemma wp_rndGetN_gen:
  assumes "lo \<le> hi" and "hi < 2 ^ 64 - 1"
    and Q: "\<And>k g. lo \<le> k \<Longrightarrow> k \<le> hi \<Longrightarrow> Q k (r\<lparr>rnd_gen := g\<rparr>)"
  shows "wp (rndGetN lo hi) Q r"
proof -
  have u: "unat (of_nat lo :: u64) = lo" "unat (of_nat hi :: u64) = hi"
    using assms(1,2) by (simp_all add: unat_of_nat_64)
  have "(of_nat hi :: u64) \<noteq> - 1"
  proof
    assume "(of_nat hi :: u64) = - 1"
    then have "unat (of_nat hi :: u64) = unat (- 1 :: u64)" by simp
    then show False using assms(2) u by (simp add: unsigned_minus_1_eq_mask mask_eq_exp_minus_1)
  qed
  moreover have "(of_nat lo :: u64) \<le> of_nat hi" using assms(1) u by (simp add: word_le_nat_alt)
  ultimately show ?thesis
    unfolding rndGetN_def rnd_def hf_wp
    by (intro wp_rndGetI) (auto simp: u word_le_nat_alt intro!: Q)
qed

lemma wp_rndGetN:
  assumes "Iv p E r" and "lo \<le> hi" and "hi < 2 ^ 64 - 1"
    and "\<And>k s. Iv p E s \<Longrightarrow> same_in r s \<Longrightarrow> lo \<le> k \<Longrightarrow> k \<le> hi \<Longrightarrow> Q k s"
  shows "wp (rndGetN lo hi) Q r"
  using assms(1) by (intro wp_rndGetN_gen assms(2-4) Iv_rnd same_in_rnd)

lemma wp_rndPrintable_run:
  assumes "Iv p E r" and "\<And>b s. Iv p E s \<Longrightarrow> same_in r s \<Longrightarrow> printable b \<Longrightarrow> Q b s"
  shows "wp (rnd util_rndPrintable) Q r"
  unfolding rnd_def hf_wp
  by (rule wp_rndPrintableI) (auto intro!: assms(2) Iv_rnd assms(1) same_in_rnd)

lemma wp_rndBufPrintable_run:
  assumes "Iv p E r"
    and "\<And>bs s. Iv p E s \<Longrightarrow> same_in r s \<Longrightarrow> length bs = n \<Longrightarrow> \<forall>b\<in>set bs. printable b \<Longrightarrow> Q bs s"
  shows "wp (rnd (util_rndBufPrintable n)) Q r"
  unfolding rnd_def hf_wp
  by (rule wp_rndBufPrintableI) (auto intro!: assms(2) Iv_rnd assms(1) same_in_rnd)

lemma wp_rndBuf_run:
  assumes "Iv p E r" and "\<And>bs s. Iv p E s \<Longrightarrow> same_in r s \<Longrightarrow> length bs = n \<Longrightarrow> Q bs s"
  shows "wp (rnd (util_rndBuf n)) Q r"
  unfolding rnd_def hf_wp
  by (rule wp_rndBufI) (auto intro!: assms(2) Iv_rnd assms(1) same_in_rnd)

section \<open>Lengths and offsets\<close>

lemma wp_getLen:
  assumes I: "Iv p E r" and "1 \<le> mx" and "mx \<le> HF_INPUT_MAX_SIZE"
    and Q: "\<And>l s. Iv p E s \<Longrightarrow> same_in r s \<Longrightarrow> 1 \<le> l \<Longrightarrow> l \<le> mx \<Longrightarrow> Q l s"
  shows "wp (mangle_getLen mx) Q r"
proof -
  have small: "k < 2 ^ 64 - 1" if "k \<le> mx" for k
    using max_size_small [OF assms(3)] that by simp
  have two: "wp (bnd (rndGetN 1 mx) (\<lambda>k. rndGetN 1 k)) Q s" if "Iv p E s" "same_in r s" for s
    unfolding hf_wp using that assms(2) small
    by (intro wp_rndGetN [OF that(1)]; (intro wp_rndGetN)?)
       (auto intro!: Q intro: same_in_trans order_trans)
  have one: "wp (rndGetN 1 mx) Q s" if "Iv p E s" "same_in r s" for s
    using that assms(2) small by (intro wp_rndGetN [OF that(1)]) (auto intro!: Q intro: same_in_trans)
  have "wp (bnd coin (\<lambda>c. if c then rndGetN 1 mx else bnd (rndGetN 1 mx) (\<lambda>k. rndGetN 1 k))) Q r"
    unfolding wp_bnd [of coin] by (rule wp_coin [OF I]) (auto simp del: One_nat_def intro!: one two)
  then show ?thesis
    using assms(2,3) Q [OF I same_in_refl] by (auto simp: mangle_getLen_def hf_wp)
qed

lemma wp_getOffSet:
  assumes "Iv p E r" and "\<And>off s. Iv p E s \<Longrightarrow> same_in r s \<Longrightarrow> off < inSize s \<Longrightarrow> Q off s"
  shows "wp mangle_getOffSet Q r"
  unfolding mangle_getOffSet_def hf_wp
  using Iv_bounds [OF assms(1)]
  by (intro wp_getLen [OF assms(1)]) (auto simp: hf_sz same_in_def intro!: assms(2))

lemma wp_getOffSetPlus1:
  assumes "Iv p E r" and "\<And>off s. Iv p E s \<Longrightarrow> same_in r s \<Longrightarrow> off \<le> inSize s \<Longrightarrow> Q off s"
  shows "wp mangle_getOffSetPlus1 Q r"
proof -
  have sz: "sz_add (inSize r) 1 = inSize r + 1"
    using Iv_bounds [OF assms(1)] max_size_small [of "inSize r"] by (intro sz_add_less) simp
  show ?thesis
    unfolding mangle_getOffSetPlus1_def hf_wp Let_def sz
    using Iv_bounds [OF assms(1)]
    by (intro wp_getLen [OF assms(1)])
       (auto simp: hf_sz same_in_def HF_INPUT_MAX_SIZE_def intro!: assms(2))
qed

section \<open>Reading, writing and resizing the input\<close>

lemma wp_readIn [hf_wp]: "wp (readIn off len) Q =
    (\<lambda>r. off + len \<le> length (inData r) \<and> Q (take len (drop off (inData r))) r)"
  by (rule ext) (auto simp: readIn_def hf_wp hf_buf)

lemma wp_readIn8 [hf_wp]:
  "wp (readIn8 off) Q = (\<lambda>r. off < length (inData r) \<and> Q (inData r ! off) r)"
  by (rule ext) (auto simp: readIn8_def hf_wp hf_buf)

lemma wp_writeIn8 [hf_wp]:
  "wp (writeIn8 off b) Q = (\<lambda>r. off < length (inData r) \<and> Q () (setData ((inData r)[off := b]) r))"
  by (rule ext) (auto simp: writeIn8_def hf_wp hf_buf)

text \<open>The array with the bytes \<open>bs\<close> written at \<open>off\<close>.\<close>

definition patch :: "nat \<Rightarrow> byte list \<Rightarrow> byte list \<Rightarrow> byte list" where
  "patch off bs d = take off d @ bs @ drop (off + length bs) d"

lemma wp_writeIn [hf_wp]: "wp (writeIn off bs) Q =
    (\<lambda>r. off + length bs \<le> length (inData r) \<and> Q () (setData (patch off bs (inData r)) r))"
  by (rule ext) (auto simp: writeIn_def hf_wp hf_buf patch_def)

lemma length_patch [simp]: "off + length bs \<le> length d \<Longrightarrow> length (patch off bs d) = length d"
  by (simp add: patch_def)

lemma patch_read [simp]:
  "off \<le> length d \<Longrightarrow> n = length bs \<Longrightarrow> take n (drop off (patch off bs d)) = bs"
  by (simp add: patch_def min_absorb2)

lemma patch_patch: "length bs = length cs \<Longrightarrow> off + length bs \<le> length d \<Longrightarrow>
    patch off cs (patch off bs d) = patch off cs d"
  by (simp add: patch_def min_absorb2)

lemma set_patch: "b \<in> set (patch off bs d) \<Longrightarrow> b \<in> set bs \<or> b \<in> set d"
  by (auto simp: patch_def dest: in_set_takeD in_set_dropD)

lemma Iv_patch:
  assumes "Iv p E r" and "off + length bs \<le> inSize r" and "p \<Longrightarrow> \<forall>b\<in>set bs. printable b"
  shows "Iv p E (setData (patch off bs (inData r)) r)"
  using assms Iv_bounds(3) [OF assms(1)]
  by (intro Iv_setData [OF assms(1)]) (auto dest!: set_patch dest: Iv_printable)

lemma Iv_update:
  assumes "Iv p E r" and "p \<Longrightarrow> printable b"
  shows "Iv p E (setData ((inData r)[off := b]) r)"
  using assms Iv_bounds(3) [OF assms(1)]
  by (intro Iv_setData [OF assms(1)]) (auto dest!: set_update_subset_insert [THEN subsetD] dest: Iv_printable)

lemma wp_memsetIn:
  assumes "Iv p E r" and "off + len \<le> inSize r" and "p \<Longrightarrow> printable b"
    and "\<And>s. Iv p E s \<Longrightarrow> Q () s"
  shows "wp (memsetIn off b len) Q r"
  using assms(1-3) Iv_bounds(3) [OF assms(1)]
  by (auto simp: memsetIn_def hf_wp intro!: assms(4) Iv_patch)

lemma patch_Nil [simp]: "patch off [] d = d"
  by (simp add: patch_def)

lemma setData_inData [simp]: "setData (inData r) r = r"
  by (simp add: setData_def inData_def)

lemma if_gt_min: "(if len > m then m else len) = min len (m :: nat)"
  by simp

lemma Overwrite_effect:
  assumes b: "length (inData r) = inSize r" and off: "off \<le> inSize r" and "len \<le> length src"
    and bs: "bs = take (min len (inSize r - off)) src"
    and Q: "Q () (setData (patch off (if pr then util_turnToPrintable bs else bs) (inData r)) r)"
  shows "wp (mangle_Overwrite off src len pr) Q r"
proof (cases "len = 0")
  case True
  then show ?thesis
    using Q bs by (simp add: mangle_Overwrite_def hf_wp util_turnToPrintable_def split: if_splits)
next
  case False
  have n: "length bs = min len (inSize r - off)" using bs assms(3) by simp
  then have "off + length bs \<le> length (inData r)" using off b by simp
  moreover have "min len (inSize r - off) \<le> length src" using assms(3) by simp
  ultimately show ?thesis
    using False b off Q n
    by (cases pr) (simp_all add: mangle_Overwrite_def hf_wp hf_sz hf_buf Let_def if_gt_min patch_patch
        printableIn_def flip: bs)
qed

lemma wp_Overwrite:
  assumes I: "Iv p E r" and off: "off \<le> inSize r" and len: "len \<le> length src" and "p \<Longrightarrow> pr"
    and Q: "\<And>s. Iv p E s \<Longrightarrow> Q () s"
  shows "wp (mangle_Overwrite off src len pr) Q r"
  using off len assms(4) Iv_bounds(3) [OF I]
  by (intro Overwrite_effect [OF Iv_bounds(3) [OF I] off len refl] Q Iv_patch [OF I])
     (auto dest: util_turnToPrintable_printable)

text \<open>The run whose input has the bytes \<open>gap\<close> inserted at \<open>off\<close>.\<close>

definition insertIn :: "nat \<Rightarrow> byte list \<Rightarrow> run_t \<Rightarrow> run_t" where
  "insertIn off gap r = r\<lparr>dynfile := (dynfile r)\<lparr>d_size := inSize r + length gap,
     d_data := take off (inData r) @ gap @ drop off (inData r)\<rparr>\<rparr>"

lemma inSize_insertIn [simp]: "inSize (insertIn off gap r) = inSize r + length gap"
  by (simp add: insertIn_def inSize_def)

lemma inData_insertIn [simp]:
  "inData (insertIn off gap r) = take off (inData r) @ gap @ drop off (inData r)"
  by (simp add: insertIn_def inData_def)

lemma global_insertIn [simp]: "global (insertIn off gap r) = global r"
  by (simp add: insertIn_def)

lemma Iv_insertIn:
  assumes "Iv p E r" and "off \<le> inSize r" and "inSize r + length gap \<le> maxInputSz r"
    and "p \<Longrightarrow> \<forall>b\<in>set gap. printable b"
  shows "Iv p E (insertIn off gap r)"
  using assms
  by (auto simp: Iv_def wf_run_def frame_proj_def insertIn_def inSize_def inData_def maxInputSz_def
      dest: in_set_takeD in_set_dropD)

lemma wp_setSize:
  assumes "length (inData r) = inSize r" and "n \<le> maxInputSz r"
    and "Q () (r\<lparr>dynfile := (dynfile r)\<lparr>d_size := n, d_data := resize n (inData r)\<rparr>\<rparr>)"
  shows "wp (input_setSize n) Q r"
proof -
  have "r\<lparr>dynfile := (dynfile r)\<lparr>d_size := n, d_data := resize n (inData r)\<rparr>\<rparr> = r" if "n = inSize r"
    using assms(1) that by (simp add: resize_def inSize_def inData_def)
  with assms show ?thesis
    by (auto simp: input_setSize_def hf_wp inData_def)
qed

text \<open>Moving the tail of a grown input opens a gap at \<open>off\<close>.\<close>

lemma inflate_bytes:
  assumes "off < length d" and "0 < n"
  shows "patch (off + n) (take (length d - off) (drop off (d @ replicate n 0))) (d @ replicate n 0) =
    take off d @ take n (drop off (d @ replicate n 0)) @ drop off d"
proof -
  have "take (off + n) (d @ replicate n 0) = take off d @ take n (drop off (d @ replicate n 0))"
    using assms(1) by (simp add: take_add)
  then show ?thesis using assms by (simp add: patch_def)
qed

text \<open>The run whose input was grown by \<open>n\<close> zero bytes.\<close>

definition growIn :: "nat \<Rightarrow> run_t \<Rightarrow> run_t" where
  "growIn n r = r\<lparr>dynfile := (dynfile r)\<lparr>d_size := inSize r + n,
     d_data := inData r @ replicate n 0\<rparr>\<rparr>"

lemma inSize_growIn [simp]: "inSize (growIn n r) = inSize r + n"
  by (simp add: growIn_def inSize_def)

lemma inData_growIn [simp]: "inData (growIn n r) = inData r @ replicate n 0"
  by (simp add: growIn_def inData_def)

lemma setData_growIn:
  "length gap = n \<Longrightarrow> setData (take off (inData r) @ gap @ drop off (inData r)) (growIn n r) =
     insertIn off gap r"
  by (simp add: insertIn_def growIn_def setData_def)

lemma setData_insertIn:
  "length gap = length gap' \<Longrightarrow>
   setData (take off (inData r) @ gap @ drop off (inData r)) (insertIn off gap' r) = insertIn off gap r"
  by (simp add: insertIn_def setData_def)

lemma wp_setSize_grow:
  assumes "length (inData r) = inSize r" and "inSize r + n \<le> maxInputSz r" and "Q () (growIn n r)"
  shows "wp (input_setSize (inSize r + n)) Q r"
  using assms by (intro wp_setSize) (simp_all add: growIn_def resize_def)

lemma Move_opens_gap:
  assumes b: "length (inData r) = inSize r" and off: "off \<le> inSize r"
    and R: "\<And>gap. length gap = n \<Longrightarrow> R () (insertIn off gap r)"
  shows "wp (mangle_Move off (off + n) (inSize r + n)) R (growIn n r)"
proof (cases "off < inSize r \<and> 0 < n")
  case False
  then consider "n = 0" | "off = inSize r" "0 < n" using off by linarith
  then have "growIn n r = insertIn off (replicate n 0) r"
    by cases (use off b in \<open>auto simp: growIn_def insertIn_def inSize_def inData_def\<close>)
  then show ?thesis
    using R [of "replicate n 0"] False off by (auto simp: mangle_Move_def hf_wp)
next
  case True
  let ?d = "inData r @ replicate n 0"
  define gap where "gap = take n (drop off ?d)"
  have gap: "length gap = n" using off b by (simp add: gap_def)
  have m: "min (min (inSize r + n) (inSize r + n - off)) (inSize r - off) = inSize r - off"
    by simp
  have "patch (off + n) (take (inSize r - off) (drop off ?d)) ?d =
      take off (inData r) @ gap @ drop off (inData r)"
    using inflate_bytes [of off "inData r" n] True b by (simp add: gap_def)
  then show ?thesis
    using R [OF gap] True b off
    by (simp add: mangle_Move_def hf_wp hf_sz Let_def m setData_growIn [OF gap])
qed

lemma blank_gap:
  assumes b: "length (inData r) = inSize r" and off: "off \<le> inSize r" and gap: "length gap = n"
    and Q: "pr \<Longrightarrow> Q () (insertIn off (replicate n 32) r)" "\<not> pr \<Longrightarrow> Q () (insertIn off gap r)"
  shows "wp (if pr then memsetIn off 32 n else ret ()) Q (insertIn off gap r)"
proof -
  have "patch off (replicate n 32) (take off (inData r) @ gap @ drop off (inData r)) =
      take off (inData r) @ replicate n 32 @ drop off (inData r)"
    using gap off b by (simp add: patch_def)
  then show ?thesis
    using Q gap off b by (auto simp: memsetIn_def hf_wp setData_insertIn)
qed

lemma Inflate_effect:
  assumes b: "length (inData r) = inSize r" "inSize r \<le> maxInputSz r" "maxInputSz r \<le> HF_INPUT_MAX_SIZE"
    and off: "off \<le> inSize r"
    and n: "n = min len (maxInputSz r - inSize r)"
    and Q: "\<And>gap. length gap = n \<Longrightarrow> (pr \<Longrightarrow> gap = replicate n 32) \<Longrightarrow> Q n (insertIn off gap r)"
  shows "wp (mangle_Inflate off len pr) Q r"
proof (cases "inSize r < maxInputSz r")
  case False
  then have "insertIn off [] r = r"
    using off b(1) by (simp add: insertIn_def inSize_def inData_def)
  then show ?thesis
    using False n Q [of "[]"] by (simp add: mangle_Inflate_def hf_wp)
next
  case True
  have lim: "inSize r + n \<le> maxInputSz r" using n True by simp
  have szs: "sz_sub (maxInputSz r) (inSize r) = maxInputSz r - inSize r"
      "sz_add (inSize r) n = inSize r + n" "sz_add off n = off + n"
    using lim b off max_size_small [OF b(3)] True by (auto simp: hf_sz)
  have "wp (input_setSize (inSize r + n)) (\<lambda>_. wp (bnd (gets inSize) (\<lambda>sz'.
      bnd (mangle_Move off (off + n) sz') (\<lambda>_.
      bnd (if pr then memsetIn off 32 n else ret ()) (\<lambda>_. ret n)))) Q) r"
    by (rule wp_setSize_grow [OF b(1) lim], simp only: wp_bnd wp_gets wp_ret inSize_growIn,
        rule Move_opens_gap [OF b(1) off], rule blank_gap [OF b(1) off]) (assumption | rule Q | simp)+
  moreover have "(if len > sz_sub (maxInputSz r) (inSize r) then sz_sub (maxInputSz r) (inSize r)
      else len) = n" using szs(1) n by (simp add: if_gt_min)
  ultimately show ?thesis
    using True by (simp add: mangle_Inflate_def hf_wp szs(2,3) Let_def split del: if_split)
qed

lemma wp_Inflate:
  assumes I: "Iv p E r" and off: "off \<le> inSize r" and "p \<Longrightarrow> pr"
    and Q: "\<And>n s. Iv p E s \<Longrightarrow> n \<le> len \<Longrightarrow> inSize s = inSize r + n \<Longrightarrow> global s = global r \<Longrightarrow> Q n s"
  shows "wp (mangle_Inflate off len pr) Q r"
  using assms(3) Iv_bounds [OF I] off
  by (intro Inflate_effect [OF _ _ _ off refl] Q Iv_insertIn [OF I])
     (auto simp: printable_def)

lemma wp_Insert:
  assumes I: "Iv p E r" and off: "off \<le> inSize r" and len: "len \<le> length val" and "p \<Longrightarrow> pr"
    and Q: "\<And>s. Iv p E s \<Longrightarrow> Q () s"
  shows "wp (mangle_Insert off val len pr) Q r"
  unfolding mangle_Insert_def hf_wp
  by (rule wp_Inflate [OF I off assms(4)], assumption, rule wp_Overwrite [where p = p and E = E])
     (use len off assms(4) in \<open>auto intro: Q\<close>)

section \<open>Every mutation\<close>

text \<open>
  \<open>keeps p m\<close>: from the invariant, \<open>m\<close> ends without a fault in the invariant.
\<close>

definition keeps :: "bool \<Rightarrow> (run_t, unit) hm \<Rightarrow> bool" where
  "keeps p m \<longleftrightarrow> (\<forall>E r. Iv p E r \<longrightarrow> wp m (\<lambda>_. Iv p E) r)"

lemma keepsI: "(\<And>E r. Iv p E r \<Longrightarrow> wp m (\<lambda>_. Iv p E) r) \<Longrightarrow> keeps p m"
  by (simp add: keeps_def)

lemma keepsD: "keeps p m \<Longrightarrow> Iv p E r \<Longrightarrow> wp m (\<lambda>_. Iv p E) r"
  by (simp add: keeps_def)

lemma keeps_UseValue:
  assumes "len \<le> length val" and "p \<Longrightarrow> pr"
  shows "keeps p (mangle_UseValue val len pr)"
proof (rule keepsI)
  fix E r assume "Iv p E r"
  then show "wp (mangle_UseValue val len pr) (\<lambda>_. Iv p E) r"
    unfolding mangle_UseValue_def wp_bnd
  proof (rule wp_coin)
    fix c s assume I: "Iv p E s"
    show "wp (if c then bnd mangle_getOffSet (\<lambda>off. mangle_Overwrite off val len pr)
        else bnd mangle_getOffSetPlus1 (\<lambda>off. mangle_Insert off val len pr)) (\<lambda>_. Iv p E) s"
      using assms
      by (auto simp: wp_bnd intro!: wp_getOffSet [OF I] wp_getOffSetPlus1 [OF I]
          wp_Overwrite wp_Insert)
  qed
qed

lemma wp_UseValue:
  "Iv p E r \<Longrightarrow> len \<le> length val \<Longrightarrow> (p \<Longrightarrow> pr) \<Longrightarrow> wp (mangle_UseValue val len pr) (\<lambda>_. Iv p E) r"
  by (intro keepsD keeps_UseValue)

lemma wp_UseValueAt:
  assumes "Iv p E r" and "off \<le> inSize r" and "len \<le> length val" and "p \<Longrightarrow> pr"
  shows "wp (mangle_UseValueAt off val len pr) (\<lambda>_. Iv p E) r"
  unfolding mangle_UseValueAt_def wp_bnd
  by (rule wp_coin [OF assms(1)])
     (use assms in \<open>auto simp: same_in_def intro!: wp_Overwrite wp_Insert\<close>)

lemma keeps_Bytes: "(p \<Longrightarrow> pr) \<Longrightarrow> keeps p (mangle_Bytes pr)"
  unfolding mangle_Bytes_def
  by (rule keepsI)
     (auto simp: hf_wp intro!: wp_rndBufPrintable_run wp_rnd64_run wp_rndGetN wp_UseValue)

lemma wp_Bytes: "Iv p E r \<Longrightarrow> (p \<Longrightarrow> pr) \<Longrightarrow> wp (mangle_Bytes pr) (\<lambda>_. Iv p E) r"
  by (intro keepsD keeps_Bytes)

lemma wp_set_printable:
  assumes I: "Iv p E s" and off: "off < inSize s" and "p \<Longrightarrow> pr"
  shows "wp (writeIn8 off b) (\<lambda>_. wp (if pr then printableIn off 1 else ret ()) (\<lambda>_. Iv p E)) s"
proof -
  have len: "off < length (inData s)" using off Iv_bounds(3) [OF I] by simp
  have "take 1 (drop off ((inData s)[off := b])) = [b]"
      "patch off [c] ((inData s)[off := b]) = patch off [c] (inData s)" for c
    using len by (simp_all add: patch_def upd_conv_take_nth_drop)
  moreover have "Iv p E (setData (patch off [b mod 95 + 32] (inData s)) s)"
    using off by (intro Iv_patch [OF I]) (auto simp: printable_turn)
  moreover have "\<not> pr \<Longrightarrow> Iv p E (setData ((inData s)[off := b]) s)"
    using assms(3) by (intro Iv_update [OF I]) auto
  ultimately show ?thesis
    using len by (auto simp: hf_wp printableIn_def util_turnToPrintable_def)
qed

lemma keeps_Bit:
  assumes "p \<Longrightarrow> pr" shows "keeps p (mangle_Bit pr)"
proof (rule keepsI)
  fix E r assume I: "Iv p E r"
  show "wp (mangle_Bit pr) (\<lambda>_. Iv p E) r"
    unfolding mangle_Bit_def wp_bnd wp_readIn8
  proof (rule wp_getOffSet [OF I])
    fix off s assume s: "Iv p E s" "off < inSize s"
    show "wp (rndGetN 0 7) (\<lambda>k r. off < length (inData r) \<and>
        wp (writeIn8 off (inData r ! off XOR push_bit k 1))
          (\<lambda>_. wp (if pr then printableIn off 1 else ret ()) (\<lambda>_. Iv p E)) r) s"
      using s(2) assms Iv_bounds(3) [OF s(1)]
      by (intro wp_rndGetN [OF s(1)] conjI wp_set_printable) (auto simp: same_in_def)
  qed
qed

lemma keeps_update8:
  assumes "\<And>b. p \<Longrightarrow> printable b \<Longrightarrow> printable (f b)"
  shows "keeps p (bnd mangle_getOffSet (\<lambda>off. bnd (readIn8 off) (\<lambda>b. writeIn8 off (f b))))"
  by (rule keepsI, unfold hf_wp, rule wp_getOffSet)
     (auto simp: Iv_bounds(3) intro!: Iv_update assms intro: Iv_nth)

lemma printable_iff: "printable b \<longleftrightarrow> 32 \<le> uint b \<and> uint b \<le> 126"
  by (simp add: printable_def word_le_def)

lemma printable_of_int: "32 \<le> i \<Longrightarrow> i \<le> 126 \<Longrightarrow> printable (of_int i)"
proof -
  assume i: "32 \<le> i" "i \<le> 126"
  then obtain n where n: "i = int n" by (metis nonneg_int_cases order_trans zero_le_numeral)
  then have "uint (of_int i :: byte) = i" using i by (simp add: unsigned_of_nat take_bit_eq_mod)
  with i show ?thesis by (simp add: printable_iff)
qed

lemma rot_printable: "0 \<le> k \<Longrightarrow> printable b \<Longrightarrow> printable (rot_printable k b)"
proof -
  assume k: "0 \<le> k" and b: "printable b"
  then have x: "\<not> int (unat b) - 32 + k < 0" by (simp add: printable_iff)
  have "0 \<le> (int (unat b) - 32 + k) mod 95" "(int (unat b) - 32 + k) mod 95 \<le> 94"
    using pos_mod_sign [of 95] pos_mod_bound [of 95 "int (unat b) - 32 + k"] by auto
  then show ?thesis
    unfolding rot_printable_def Let_def using x by (simp only: if_False) (rule printable_of_int, simp_all)
qed

lemma neg_printable: "printable b \<Longrightarrow> printable (of_int (94 - (int (unat b) - 32) + 32))"
  by (rule printable_of_int) (simp_all add: printable_iff)

lemma keeps_IncByte: "(p \<Longrightarrow> pr) \<Longrightarrow> keeps p (mangle_IncByte pr)"
  unfolding mangle_IncByte_def by (rule keeps_update8) (auto intro: rot_printable)

lemma keeps_DecByte: "(p \<Longrightarrow> pr) \<Longrightarrow> keeps p (mangle_DecByte pr)"
  unfolding mangle_DecByte_def by (rule keeps_update8) (auto intro: rot_printable)

lemma keeps_NegByte: "(p \<Longrightarrow> pr) \<Longrightarrow> keeps p (mangle_NegByte pr)"
  unfolding mangle_NegByte_def
  by (rule keeps_update8) (simp only: if_True neg_printable)

lemma keeps_Magic: "(p \<Longrightarrow> pr) \<Longrightarrow> keeps p (mangle_Magic pr)"
proof (rule keepsI)
  fix E r assume "p \<Longrightarrow> pr" and I: "Iv p E r"
  have all: "list_all (\<lambda>(v, n). n \<le> length v) mangleMagicVals"
    by (simp add: mangleMagicVals_def mangleMagicVals_1_2_def mangleMagicVals_4_def
        mangleMagicVals_8_def)
  have len: "length mangleMagicVals = 221"
    by (simp add: mangleMagicVals_def mangleMagicVals_1_2_def mangleMagicVals_4_def
        mangleMagicVals_8_def)
  have el: "snd (mangleMagicVals ! k) \<le> length (fst (mangleMagicVals ! k))" if "k \<le> 220" for k
    using all that len by (auto simp: list_all_length case_prod_beta)
  show "wp (mangle_Magic pr) (\<lambda>_. Iv p E) r"
    unfolding mangle_Magic_def len
    using el \<open>p \<Longrightarrow> pr\<close>
    by (auto simp: hf_wp hf_buf len case_prod_beta intro!: wp_rndGetN [OF I] wp_UseValue)
qed

lemma keeps_StaticDict: "(p \<Longrightarrow> pr) \<Longrightarrow> keeps p (mangle_StaticDict pr)"
proof (rule keepsI)
  fix E r assume pr: "p \<Longrightarrow> pr" and I: "Iv p E r"
  have d: "mutate_dictionaryCnt (global r) = length (mutate_dictionary (global r))"
      "length (mutate_dictionary (global r)) \<le> 8192"
    using Iv_env [OF I] by (auto simp: env_ok_def)
  show "wp (mangle_StaticDict pr) (\<lambda>_. Iv p E) r"
  proof (cases "mutate_dictionaryCnt (global r) = 0")
    case True
    then show ?thesis using wp_Bytes [OF I pr] by (simp add: mangle_StaticDict_def hf_wp)
  next
    case False
    then have "0 < length (mutate_dictionary (global r))" using d by simp
    moreover from this have "sz_sub (length (mutate_dictionary (global r))) (Suc 0) =
        length (mutate_dictionary (global r)) - Suc 0" by (intro sz_sub_le) (simp add: Suc_le_eq)
    moreover have "k < length (mutate_dictionary (global r))"
      if "k \<le> length (mutate_dictionary (global r)) - Suc 0" for k
      using that calculation(1) by linarith
    ultimately show ?thesis
      unfolding mangle_StaticDict_def using False d pr
      by (auto simp: hf_wp hf_buf intro!: wp_rndGetN [OF I] wp_UseValue)
  qed
qed

lemma keeps_ConstFeedbackDict: "(p \<Longrightarrow> pr) \<Longrightarrow> keeps p (mangle_ConstFeedbackDict pr)"
proof (rule keepsI)
  fix E r assume pr: "p \<Longrightarrow> pr" and I: "Iv p E r"
  let ?h = "global r" and ?m = "feedback_cmpFeedbackMap (global r)"
  define n where "n = min (unat (cmpf_cnt ?m)) (length (cmpf_valArr ?m))"
  show "wp (mangle_ConstFeedbackDict pr) (\<lambda>_. Iv p E) r"
  proof (cases "feedback_cmpFeedback ?h \<and> cmpf_cnt ?m \<noteq> 0")
    case False
    then show ?thesis
      using wp_Bytes [OF I pr]
      by (auto simp: mangle_ConstFeedbackDict_def mangle_FeedbackDict_def hf_wp Let_def)
  next
    case True
    then have ok: "cmpf_ok ?m" using Iv_env [OF I] by (simp add: env_ok_def)
    have n: "0 < n" "n \<le> length (cmpf_valArr ?m)" "n \<le> 1024 * 16"
      using ok True by (auto simp: n_def cmpf_ok_def unat_gt_0)
    have el: "unat (cv_len (cmpf_valArr ?m ! k)) \<le> length (cv_val (cmpf_valArr ?m ! k))"
      if "k \<le> n - 1" for k using ok n that by (auto simp: cmpf_ok_def)
    have "wp (bnd (bnd (rndGetN 0 (n - 1)) (\<lambda>choice.
        bnd (or_fault OutOfBounds (buf_get (cmpf_valArr ?m) choice)) (\<lambda>e.
        let len = unat (cv_len e) in if len = 0 then ret None else ret (Some (cv_val e, len)))))
        (\<lambda>v. case v of None \<Rightarrow> mangle_Bytes pr | Some (val, len) \<Rightarrow> mangle_UseValue val len pr))
        (\<lambda>_. Iv p E) r"
      using n el pr
      by (auto simp: hf_wp hf_buf Let_def intro!: wp_rndGetN [OF I] wp_UseValue wp_Bytes)
    then show ?thesis
      using True n
      by (simp add: mangle_ConstFeedbackDict_def mangle_FeedbackDict_def wp_bnd wp_gets Let_def
          if_gt_min hf_sz flip: n_def)
  qed
qed

text \<open>Choosing a window of the input and optionally inflating it there.\<close>

lemma wp_window:
  assumes I: "Iv p E r"
    and Q: "\<And>off len s. Iv p E s \<Longrightarrow> global s = global r \<Longrightarrow> off < inSize s \<Longrightarrow> 1 \<le> len \<Longrightarrow>
      off + len \<le> inSize s \<Longrightarrow> wp (f off len) R s"
  shows "wp mangle_getOffSet (\<lambda>off. wp (bnd (gets inSize) (\<lambda>sz.
     bnd (mangle_getLen (sz_sub sz off)) (f off))) R) r"
proof (rule wp_getOffSet [OF I])
  fix off s assume s: "Iv p E s" "same_in r s" "off < inSize s"
  then show "wp (bnd (gets inSize) (\<lambda>sz. bnd (mangle_getLen (sz_sub sz off)) (f off))) R s"
    unfolding hf_wp using Iv_bounds [OF s(1)]
    by (intro wp_getLen [OF s(1)]) (auto simp: hf_sz same_in_def intro!: Q)
qed

lemma wp_maybe_inflate:
  assumes I: "Iv p E r" and "off + len \<le> inSize r" and "p \<Longrightarrow> pr"
    and Q: "\<And>n s. Iv p E s \<Longrightarrow> off + n \<le> inSize s \<Longrightarrow> inSize r \<le> inSize s \<Longrightarrow> Q n s"
  shows "wp coin (\<lambda>c. wp (if c then mangle_Inflate off len pr else ret len) Q) r"
proof (rule wp_coin [OF I])
  fix c s assume s: "Iv p E s" "same_in r s"
  show "wp (if c then mangle_Inflate off len pr else ret len) Q s"
    using assms(2,3) s
    by (auto simp: hf_wp same_in_def intro!: wp_Inflate [OF s(1)] Q)
qed

lemma keeps_MemSet: assumes "p \<Longrightarrow> pr" shows "keeps p (mangle_MemSet pr)"
proof (rule keepsI)
  fix E r assume I: "Iv p E r"
  show "wp (mangle_MemSet pr) (\<lambda>_. Iv p E) r"
    unfolding mangle_MemSet_def wp_bnd [of mangle_getOffSet]
  proof (rule wp_window [OF I])
    fix off len s assume s: "Iv p E s" "off + len \<le> inSize s"
    have "wp coin (\<lambda>c. wp (if c then mangle_Inflate off len pr else ret len)
        (\<lambda>len. wp (memsetIn off val len) (\<lambda>_. Iv p E))) t"
      if "Iv p E t" "same_in s t" "p \<Longrightarrow> printable val" for val t
      using that s(2) assms by (intro wp_maybe_inflate wp_memsetIn) (auto simp: same_in_def)
    then show "wp (bnd (if pr then rnd util_rndPrintable
          else bnd (rndGetN 0 255) (\<lambda>v. ret (of_nat v))) (\<lambda>val.
        bnd coin (\<lambda>c. bnd (if c then mangle_Inflate off len pr else ret len) (\<lambda>len.
        memsetIn off val len)))) (\<lambda>_. Iv p E) s"
      using assms
      by (auto simp: wp_bnd wp_ret intro!: wp_rndPrintable_run [OF s(1)] wp_rndGetN [OF s(1)])
  qed
qed

lemma keeps_MemClr: assumes "p \<Longrightarrow> pr" shows "keeps p (mangle_MemClr pr)"
proof (rule keepsI)
  fix E r assume I: "Iv p E r"
  show "wp (mangle_MemClr pr) (\<lambda>_. Iv p E) r"
    unfolding mangle_MemClr_def wp_bnd [of mangle_getOffSet] Let_def
    by (rule wp_window [OF I], unfold wp_bnd, rule wp_maybe_inflate [where p = p and E = E])
       (use assms in \<open>auto simp: printable_def intro!: wp_memsetIn\<close>)
qed

lemma keeps_RandomBuf: assumes "p \<Longrightarrow> pr" shows "keeps p (mangle_RandomBuf pr)"
proof (rule keepsI)
  fix E r assume I: "Iv p E r"
  show "wp (mangle_RandomBuf pr) (\<lambda>_. Iv p E) r"
    unfolding mangle_RandomBuf_def wp_bnd [of mangle_getOffSet]
    by (rule wp_window [OF I], unfold wp_bnd, rule wp_maybe_inflate [where p = p and E = E])
       (use assms in \<open>auto simp: hf_wp Iv_bounds(3) same_in_def intro!: wp_rndBufPrintable_run
          wp_rndBuf_run Iv_patch\<close>)
qed

lemma keeps_MemCopy: assumes "p \<Longrightarrow> pr" shows "keeps p (mangle_MemCopy pr)"
proof (rule keepsI)
  fix E r assume I: "Iv p E r"
  show "wp (mangle_MemCopy pr) (\<lambda>_. Iv p E) r"
    unfolding mangle_MemCopy_def wp_bnd [of mangle_getOffSet]
    by (rule wp_window [OF I])
       (use assms in \<open>auto simp: hf_wp Iv_bounds(3) intro!: wp_UseValue\<close>)
qed

lemma wp_swap_step:
  assumes I: "Iv p E r" and "i < inSize r" and "j < inSize r" 
  shows "wp (swap_step i j) (\<lambda>_ s. Iv p E s \<and> inSize s = inSize r \<and> mset (inData s) = mset (inData r)) r"
proof -
  have len: "length (inData r) = inSize r" by (rule Iv_bounds(3) [OF I])
  have "Iv p E (setData ((inData r)[j := inData r ! i, i := inData r ! j]) r)"
  proof (rule Iv_setData [OF I])
    assume p
    have "set ((inData r)[j := inData r ! i, i := inData r ! j]) = set (inData r)"
      using assms(2,3) len by simp
    then show "\<forall>b\<in>set ((inData r)[j := inData r ! i, i := inData r ! j]). printable b"
      using Iv_printable [OF I \<open>p\<close>] by simp
  qed (simp add: len)
  then show ?thesis
    using assms(2,3) len mset_swap [of i "inData r" j]
    by (auto simp: swap_step_def hf_wp list_update_swap)
qed

lemma wp_swap_loop:
  assumes s: "Iv p E s" and o: "off1 + len \<le> inSize s" "off2 + len \<le> inSize s"
  shows "wp (forM [0 ..< len div 2] (\<lambda>i. bnd (swap_step (off1 + i) (off2 + i))
      (\<lambda>_. swap_step (off1 + (len - 1) - i) (off2 + (len - 1) - i)))) 
    (\<lambda>_ t. Iv p E t \<and> mset (inData t) = mset (inData s)) s"
proof (rule wp_mono [where Q = "\<lambda>_ t. Iv p E t \<and> inSize t = inSize s \<and> mset (inData t) = mset (inData s)"])
  show "wp (forM [0 ..< len div 2] (\<lambda>i. bnd (swap_step (off1 + i) (off2 + i))
      (\<lambda>_. swap_step (off1 + (len - 1) - i) (off2 + (len - 1) - i))))
      (\<lambda>_ t. Iv p E t \<and> inSize t = inSize s \<and> mset (inData t) = mset (inData s)) s"
  proof (rule wp_forM)
    fix i t assume i: "i \<in> set [0 ..< len div 2]" and t: "Iv p E t \<and> inSize t = inSize s \<and> mset (inData t) = mset (inData s)"
    have "i < len" "off1 + (len - 1) - i < inSize s" "off2 + (len - 1) - i < inSize s"
      using i o by auto
    then show "wp (bnd (swap_step (off1 + i) (off2 + i))
        (\<lambda>_. swap_step (off1 + (len - 1) - i) (off2 + (len - 1) - i)))
        (\<lambda>_ t. Iv p E t \<and> inSize t = inSize s \<and> mset (inData t) = mset (inData s)) t"
      unfolding wp_bnd using o t by (intro wp_mono [OF wp_swap_step] wp_swap_step) auto
  qed (simp add: s)
qed simp

lemma wp_MemSwap:
  assumes I: "Iv p E r"
  shows "wp (mangle_MemSwap pr) (\<lambda>_ s. Iv p E s \<and> mset (inData s) = mset (inData r)) r"
proof -
  show ?thesis
    unfolding mangle_MemSwap_def Let_def wp_bnd [of mangle_getOffSet]
  proof (rule wp_getOffSet [OF I], unfold wp_bnd wp_gets, rule wp_getOffSet, assumption)
    fix off1 s off2 t
    assume s: "off1 < inSize s" "same_in r s" and t: "Iv p E t" "same_in s t" "off2 < inSize t"
    let ?m = "min (sz_sub (inSize s) off1) (sz_sub (inSize t) off2)"
    have sz: "inSize s = inSize t" using t(2) by (simp add: same_in_def)
    then have m: "?m = min (inSize t - off1) (inSize t - off2)" using s t(3) by (simp add: hf_sz)
    then have "1 \<le> ?m" "?m \<le> HF_INPUT_MAX_SIZE"
      using Iv_bounds [OF t(1)] s t(3) sz by auto
    then show "wp (mangle_getLen ?m) (\<lambda>len. wp (if off1 = off2 then ret () else
        forM [0 ..< len div 2] (\<lambda>i. bnd (swap_step (off1 + i) (off2 + i)) (\<lambda>_.
        swap_step (off1 + (len - 1) - i) (off2 + (len - 1) - i)))) (\<lambda>_ s. Iv p E s \<and> mset (inData s) = mset (inData r))) t"
    proof (rule wp_getLen [OF t(1)])
      fix len u assume u: "Iv p E u" "same_in t u" "len \<le> ?m"
      then have "off1 + len \<le> inSize u" "off2 + len \<le> inSize u"
        using m s t(3) sz by (auto simp: same_in_def)
      from wp_swap_loop [OF u(1) this] u s(2) t(2)
      show "wp (if off1 = off2 then ret () else
        forM [0 ..< len div 2] (\<lambda>i. bnd (swap_step (off1 + i) (off2 + i)) (\<lambda>_.
        swap_step (off1 + (len - 1) - i) (off2 + (len - 1) - i)))) (\<lambda>_ s. Iv p E s \<and> mset (inData s) = mset (inData r)) u"
        by (simp add: wp_ret same_in_def)
    qed
  qed
qed

lemma keeps_MemSwap: "keeps p (mangle_MemSwap pr)"
  by (rule keepsI) (auto intro: wp_mono [OF wp_MemSwap])

lemma keeps_ByteRepeat: assumes "p \<Longrightarrow> pr" shows "keeps p (mangle_ByteRepeat pr)"
proof (rule keepsI)
  fix E r assume I: "Iv p E r"
  show "wp (mangle_ByteRepeat pr) (\<lambda>_. Iv p E) r"
    unfolding mangle_ByteRepeat_def wp_bnd [of mangle_getOffSet]
  proof (rule wp_getOffSet [OF I])
    fix off s assume s: "Iv p E s" "off < inSize s"
    note b = Iv_bounds [OF s(1)]
    have sz: "sz_add off 1 = off + 1" "sz_sub (inSize s) (off + 1) = inSize s - (off + 1)"
      using s(2) b max_size_small [of "inSize s"] by (auto simp: hf_sz)
    have fill: "wp (bnd coin (\<lambda>c. bnd (if c then mangle_Inflate (off + 1) len pr else ret len)
        (\<lambda>len. bnd (readIn8 off) (\<lambda>b. memsetIn (off + 1) b len)))) (\<lambda>_. Iv p E) t"
      if t: "Iv p E t" "same_in s t" and len: "len \<le> inSize s - (off + 1)" for len t
      unfolding wp_bnd wp_readIn8
      by (rule wp_maybe_inflate [OF t(1) _ assms], use t s len in \<open>simp add: same_in_def\<close>, assumption)
         (use t s len in \<open>auto simp: same_in_def Iv_bounds(3) intro!: wp_memsetIn intro: Iv_nth\<close>)
    show "wp (bnd (gets inSize) (\<lambda>sz. let destOff = sz_add off 1; maxSz = sz_sub sz destOff
        in if maxSz = 0 then mangle_Bytes pr
           else bnd (mangle_getLen maxSz) (\<lambda>len. bnd coin (\<lambda>c.
             bnd (if c then mangle_Inflate destOff len pr else ret len) (\<lambda>len.
             bnd (readIn8 off) (\<lambda>b. memsetIn destOff b len)))))) (\<lambda>_. Iv p E) s"
      unfolding wp_bnd [of "gets inSize"] wp_gets Let_def sz wp_if wp_bnd [of "mangle_getLen _"]
      using b fill assms
      by (auto intro!: wp_Bytes [OF s(1)] wp_getLen [OF s(1)])
  qed
qed

lemma length_add_var [simp]: "length (add_var bs d) = length bs"
  by (simp add: add_var_def le_bytes_def)

lemma wp_addsub_var:
  assumes "Iv p E r" and "off + n \<le> inSize r" and "p \<Longrightarrow> pr"
  shows "wp (addsub_var off n delta pr) (\<lambda>_. Iv p E) r"
  using assms Iv_bounds(3) [OF assms(1)]
  by (auto simp: addsub_var_def hf_wp Let_def same_in_def intro!: wp_coin [OF assms(1)] wp_Overwrite)

text \<open>A one-byte variable is stored without being turned into a printable character.\<close>

lemma wp_AddSubWithRange:
  assumes I: "Iv p E r" and "off + n \<le> inSize r" and "n = 1 \<longrightarrow> \<not> p"
    and "n = 1 \<or> n = 2 \<or> n = 4 \<or> n = 8" and "rge \<le> 268435456" and "p \<Longrightarrow> pr"
  shows "wp (mangle_AddSubWithRange off n rge pr) (\<lambda>_. Iv p E) r"
  unfolding mangle_AddSubWithRange_def wp_bnd [of "rndGetN _ _"]
proof (rule wp_rndGetN [OF I])
  fix k s assume s: "Iv p E s" "same_in r s"
  then have b: "off + n \<le> inSize s" "length (inData s) = inSize s"
    using assms(2) Iv_bounds(3) [OF s(1)] by (auto simp: same_in_def)
  show "wp (let delta = of_nat k - of_nat rge
     in if n = 1 then bnd (readIn8 off) (\<lambda>b. writeIn8 off (b + ucast delta))
        else if n = 2 then addsub_var off 2 delta pr
        else if n = 4 then addsub_var off 4 delta pr
        else if n = 8 then addsub_var off 8 delta pr
        else raise LogFatal) (\<lambda>_. Iv p E) s"
    using assms(3,4,6) b s(1)
    by (auto simp: Let_def hf_wp simp del: One_nat_def intro!: wp_addsub_var s(1) Iv_update)
qed (use assms(5) in auto)

lemma keeps_AddSub: "keeps False (mangle_AddSub pr)"
proof (rule keepsI)
  fix E r assume I: "Iv False E r"
  show "wp (mangle_AddSub pr) (\<lambda>_. Iv False E) r"
    unfolding mangle_AddSub_def wp_bnd
  proof (rule wp_getOffSet [OF I], rule wp_rndGetN, assumption, simp, simp)
    fix off s and k :: nat and t
    assume s: "off < inSize s" and t: "Iv False E t" "same_in s t" "k \<le> 3"
    then have sz: "off < inSize t" "sz_sub (inSize t) off = inSize t - off"
      by (simp_all add: same_in_def hf_sz)
    have k: "k = 0 \<or> k = 1 \<or> k = 2 \<or> k = 3" using t(3) by linarith
    show "wp (gets inSize) (\<lambda>sz. wp (let varLen = 2 ^ k;
         varLen = (if sz_sub sz off < varLen then 1 else varLen)
       in if varLen = 1 then mangle_AddSubWithRange off varLen 16 pr
        else if varLen = 2 then mangle_AddSubWithRange off varLen 4096 pr
        else if varLen = 4 then mangle_AddSubWithRange off varLen 1048576 pr
        else if varLen = 8 then mangle_AddSubWithRange off varLen 268435456 pr
        else raise LogFatal) (\<lambda>_. Iv False E)) t"
      using k sz
      by (auto simp: wp_gets Let_def intro!: wp_AddSubWithRange [OF t(1)] simp del: One_nat_def)
  qed
qed

lemma keeps_AddSub_gen: "\<not> p \<Longrightarrow> keeps p (mangle_AddSub pr)"
  using keeps_AddSub by (cases p) simp_all

lemma keeps_Expand: assumes "p \<Longrightarrow> pr" shows "keeps p (mangle_Expand pr)"
proof (rule keepsI)
  fix E r assume I: "Iv p E r"
  show "wp (mangle_Expand pr) (\<lambda>_. Iv p E) r"
    unfolding mangle_Expand_def wp_bnd wp_gets wp_ret
  proof (rule wp_getOffSet [OF I], rule wp_rnd64_run, assumption)
    fix off s v t assume s: "off < inSize s" and t: "Iv p E t" "same_in s t"
    note b = Iv_bounds [OF t(1)]
    have off: "off < inSize t" "sz_sub (maxInputSz t) off = maxInputSz t - off"
      using s t b by (simp_all add: same_in_def hf_sz)
    have "wp (mangle_getLen n) (\<lambda>len. wp (mangle_Inflate off len pr) (\<lambda>_. Iv p E)) t"
      if "1 \<le> n" "n \<le> maxInputSz t - off" for n
      using that b off assms
      by (intro wp_getLen [OF t(1)] wp_Inflate) (auto simp: same_in_def)
    then show "wp (if v mod 16 \<noteq> 0 then mangle_getLen (min 16 (sz_sub (maxInputSz t) off))
        else mangle_getLen (sz_sub (maxInputSz t) off))
        (\<lambda>len. wp (mangle_Inflate off len pr) (\<lambda>_. Iv p E)) t"
      using off b by auto
  qed
qed

lemma keeps_ASCIINum: "(p \<Longrightarrow> pr) \<Longrightarrow> keeps p (mangle_ASCIINum pr)"
  unfolding mangle_ASCIINum_def
  by (rule keepsI)
     (auto simp: hf_wp num_buf_def snprintf_cut_def pad_right_def
       intro!: wp_rndGetN wp_rnd64_run wp_UseValue)

text \<open>Moving the tail down and cutting the input removes a window of it.\<close>

definition removeIn :: "nat \<Rightarrow> nat \<Rightarrow> run_t \<Rightarrow> run_t" where
  "removeIn off n r = r\<lparr>dynfile := (dynfile r)\<lparr>d_size := inSize r - n,
     d_data := take off (inData r) @ drop (off + n) (inData r)\<rparr>\<rparr>"

lemma Iv_removeIn:
  assumes "Iv p E r" and "off + n \<le> inSize r" and "n < inSize r"
  shows "Iv p E (removeIn off n r)"
  using assms
  by (auto simp: Iv_def wf_run_def frame_proj_def removeIn_def inSize_def inData_def maxInputSz_def
      dest: in_set_takeD in_set_dropD)

lemma setData_update [simp]:
  "(setData d r)\<lparr>dynfile := (dynfile (setData d r))\<lparr>d_size := n, d_data := e\<rparr>\<rparr> =
   r\<lparr>dynfile := (dynfile r)\<lparr>d_size := n, d_data := e\<rparr>\<rparr>"
  by (simp add: setData_def)

lemma shrink_bytes:
  assumes "off + n < length d"
  shows "take (length d - n) (patch off (drop (off + n) d) d) = take off d @ drop (off + n) d"
  using assms by (simp add: patch_def min_absorb2)

lemma Shrink_window:
  assumes I: "Iv p E r" and w: "off + n < inSize r" and "1 \<le> n" and Q: "Q () (removeIn off n r)"
  shows "wp (bnd (mangle_Move (off + n) off (inSize r - (off + n)))
      (\<lambda>_. input_setSize (inSize r - n))) Q r"
proof -
  let ?d = "patch off (drop (off + n) (inData r)) (inData r)"
  note b = Iv_bounds [OF I]
  have len: "length ?d = inSize r" using b(3) w by (subst length_patch) auto
  have "wp (input_setSize (inSize r - n)) Q (setData ?d r)"
  proof (rule wp_setSize)
    have "resize (inSize r - n) ?d = take off (inData r) @ drop (off + n) (inData r)"
      using shrink_bytes [of off n "inData r"] len w b(3) by (simp add: resize_def)
    then show "Q () ((setData ?d r)\<lparr>dynfile := (dynfile (setData ?d r))\<lparr>d_size := inSize r - n,
        d_data := resize (inSize r - n) (inData (setData ?d r))\<rparr>\<rparr>)"
      using Q by (simp add: removeIn_def)
  qed (use len b in simp_all)
  then show ?thesis
    using w b(3) assms(3)
    by (simp add: wp_bnd mangle_Move_def hf_wp hf_sz Let_def min_absorb2 min_absorb1)
qed

lemma wp_shrink_cut:
  assumes s: "Iv p E s" and m: "1 \<le> m" "off + m < inSize s"
  shows "wp (mangle_getLen m) (\<lambda>n. wp (bnd (gets inSize) (\<lambda>sz.
    let off_end = sz_add off n; len_to_move = sz_sub sz off_end
    in bnd (mangle_Move off_end off len_to_move) (\<lambda>_. input_setSize (sz_sub sz n))))
    (\<lambda>_. Iv p E)) s"
proof (rule wp_getLen [OF s m(1)])
  show "m \<le> HF_INPUT_MAX_SIZE" using m(2) Iv_bounds [OF s] by simp
next
  fix n t assume t: "Iv p E t" "same_in s t" and n: "1 \<le> n" "n \<le> m"
  then have w: "off + n < inSize t" using m(2) by (simp add: same_in_def)
  moreover have "sz_add off n = off + n"
    using w Iv_bounds [OF t(1)] max_size_small [of "inSize t"] by (intro sz_add_less) simp
  ultimately show "wp (bnd (gets inSize) (\<lambda>sz.
      let off_end = sz_add off n; len_to_move = sz_sub sz off_end
      in bnd (mangle_Move off_end off len_to_move) (\<lambda>_. input_setSize (sz_sub sz n))))
      (\<lambda>_. Iv p E) t"
    using Shrink_window [OF t(1) w n(1), where Q = "\<lambda>_. Iv p E"] Iv_removeIn [OF t(1), of off n]
    by (simp add: wp_bnd [of "gets inSize"] wp_gets Let_def hf_sz)
qed

lemma keeps_Shrink: "keeps p (mangle_Shrink pr)"
proof (rule keepsI)
  fix E r assume I: "Iv p E r"
  show "wp (mangle_Shrink pr) (\<lambda>_. Iv p E) r"
  proof (cases "inSize r \<le> 2")
    case True
    then show ?thesis using I by (simp add: mangle_Shrink_def hf_wp)
  next
    case False
    have "wp (bnd mangle_getOffSet (\<lambda>off. bnd (mangle_LenLeft off) (\<lambda>len.
       if len = 0 then ret () else bnd (rnd util_rnd64) (\<lambda>v.
         bnd (if v mod 16 \<noteq> 0 then mangle_getLen (min 16 len) else mangle_getLen len) (\<lambda>len.
         bnd (gets inSize) (\<lambda>sz. let off_end = sz_add off len; len_to_move = sz_sub sz off_end
         in bnd (mangle_Move off_end off len_to_move) (\<lambda>_.
            input_setSize (sz_sub sz len)))))))) (\<lambda>_. Iv p E) r"
      unfolding wp_bnd [of mangle_getOffSet] mangle_LenLeft_def
    proof (rule wp_getOffSet [OF I])
      fix off s assume s: "Iv p E s" "off < inSize s"
      have len: "sz_sub (sz_sub (inSize s) off) 1 = inSize s - (off + 1)"
        using s(2) by (simp add: hf_sz)
      have "wp (rnd util_rnd64) (\<lambda>v. wp (if v mod 16 \<noteq> 0 then mangle_getLen (min 16 (inSize s - (off + 1)))
          else mangle_getLen (inSize s - (off + 1))) (\<lambda>n. wp (bnd (gets inSize) (\<lambda>sz.
          let off_end = sz_add off n; len_to_move = sz_sub sz off_end
          in bnd (mangle_Move off_end off len_to_move) (\<lambda>_. input_setSize (sz_sub sz n))))
          (\<lambda>_. Iv p E))) s" if "inSize s - (off + 1) \<noteq> 0"
        using that
        by (intro wp_rnd64_run [OF s(1)])
           (auto simp: same_in_def Let_def intro!: wp_shrink_cut [unfolded Let_def] simp del: One_nat_def)
      then show "wp (bnd (bnd (gets inSize) (\<lambda>sz. if off \<ge> sz then raise LogFatal
          else ret (sz_sub (sz_sub sz off) 1))) (\<lambda>len. if len = 0 then ret ()
        else bnd (rnd util_rnd64) (\<lambda>v.
         bnd (if v mod 16 \<noteq> 0 then mangle_getLen (min 16 len) else mangle_getLen len) (\<lambda>len.
         bnd (gets inSize) (\<lambda>sz. let off_end = sz_add off len; len_to_move = sz_sub sz off_end
         in bnd (mangle_Move off_end off len_to_move) (\<lambda>_.
            input_setSize (sz_sub sz len))))))) (\<lambda>_. Iv p E) s"
        using s by (auto simp: wp_bnd wp_gets wp_ret len simp del: One_nat_def)
    qed
    with False show ?thesis by (simp add: mangle_Shrink_def wp_bnd [of "gets inSize"] wp_gets)
  qed
qed

lemma wp_find_digit:
  assumes I: "Iv p E r" and "off + n = inSize r"
    and Q: "\<And>i. off \<le> i \<Longrightarrow> i \<le> inSize r \<Longrightarrow> Q i r"
  shows "wp (find_digit n off) Q r"
  using assms(2) Q
proof (induction n arbitrary: off)
  case 0
  then show ?case by (simp add: wp_ret)
next
  case (Suc n)
  then show ?case using Iv_bounds(3) [OF I] by (auto simp: hf_wp)
qed

lemma wp_parse_digits:
  assumes I: "Iv p E r" and "off + len + n \<le> inSize r" and Q: "\<And>l v. len \<le> l \<Longrightarrow> l \<le> len + n \<Longrightarrow> Q (l, v) r"
  shows "wp (parse_digits n off len val) Q r"
  using assms(2) Q
proof (induction n arbitrary: len val)
  case 0
  then show ?case by (simp add: wp_ret)
next
  case (Suc n)
  then show ?case using Iv_bounds(3) [OF I] by (auto simp: hf_wp)
qed

lemma wp_change_number:
  assumes "Iv p E r" and "choice \<le> 7" and "\<And>v s. Iv p E s \<Longrightarrow> same_in r s \<Longrightarrow> Q v s"
  shows "wp (change_number choice val) Q r"
proof -
  have "choice = 0 \<or> choice = 1 \<or> choice = 2 \<or> choice = 3 \<or> choice = 4 \<or> choice = 5 \<or> choice = 6 \<or>
    choice = 7" using assms(2) by linarith
  then show ?thesis
    using assms(1)
    by (auto simp: change_number_def hf_wp simp del: One_nat_def
        intro!: assms(3) wp_rnd64_run [OF assms(1)] wp_rndGet_run [OF assms(1)])
qed

lemma length_num_buf: "20 \<le> length (num_buf s)"
  by (simp add: num_buf_def)

lemma keeps_ASCIINumChange: assumes "p \<Longrightarrow> pr" shows "keeps p (mangle_ASCIINumChange pr)"
proof (rule keepsI)
  fix E r assume I: "Iv p E r"
  have use_value: "wp (mangle_UseValueAt off (num_buf digits) len pr) (\<lambda>_. Iv p E) s"
    if "Iv p E s" "off \<le> inSize s" "len \<le> 20" for off digits len s
    using that length_num_buf [of digits] assms by (intro wp_UseValueAt) auto
  have change: "wp (bnd (parse_digits (min 20 (inSize s - off)) off 0 0) (\<lambda>(len, val).
      bnd (rndGetN 0 7) (\<lambda>choice. bnd (change_number choice val) (\<lambda>val.
      mangle_UseValueAt off (num_buf (dec_nat (unat val))) len pr)))) (\<lambda>_. Iv p E) s"
    if s: "Iv p E s" "off < inSize s" for off s
    unfolding wp_bnd [of "parse_digits _ _ _ _"]
    by (rule wp_parse_digits [OF s(1)], use s(2) in simp, unfold prod.case wp_bnd,
        rule wp_rndGetN [OF s(1)], simp, simp, rule wp_change_number, assumption, assumption,
        rule use_value) (use s(2) in \<open>auto simp: same_in_def\<close>)
  show "wp (mangle_ASCIINumChange pr) (\<lambda>_. Iv p E) r"
    unfolding mangle_ASCIINumChange_def wp_bnd [of mangle_getOffSet] wp_bnd [of "gets inSize"]
      wp_bnd [of "find_digit _ _"] wp_gets Let_def wp_if wp_ret
    by (rule wp_getOffSet [OF I], rule wp_find_digit, assumption, simp)
       (auto simp: hf_sz intro: change)
qed

text \<open>The queue of inputs is only read, and its second cursor moves on.\<close>

lemma Iv_cursor2:
  assumes "Iv p E r" and "\<And>a. c = Some a \<Longrightarrow> a \<in> dom (io_store (global r))"
  shows "Iv p E (r\<lparr>global := (global r)\<lparr>io_dynfileq2Current := c\<rparr>\<rparr>)"
  using assms env_ok_cursor2 [of "global r" c]
  by (auto simp: Iv_def wf_run_def frame_proj_def inSize_def inData_def maxInputSz_def)

lemma wp_getRandomInput:
  assumes I: "Iv p E r"
    and Q: "\<And>b s. Iv p E s \<Longrightarrow> (\<And>bs. b = Some bs \<Longrightarrow> length bs \<le> HF_INPUT_MAX_SIZE) \<Longrightarrow> Q b s"
  shows "wp input_getRandomInputAsBuf Q r"
proof -
  let ?h = "global r"
  have ok: "env_ok ?h" "store_ok ?h" using Iv_env [OF I] by (auto simp: env_ok_def)
  have take_next: "wp (bnd (modify (\<lambda>r. r\<lparr>global := ?h\<lparr>io_dynfileq2Current := tailq_next ?h a\<rparr>\<rparr>))
      (\<lambda>_. bnd (deref a) (\<lambda>df. bnd (or_fault OutOfBounds (buf_read (d_data df) 0 (d_size df)))
      (\<lambda>bs. ret (Some bs))))) Q r"
    if a: "a \<in> dom (io_store ?h)" for a
  proof -
    obtain df where df: "io_store ?h a = Some df" using a by blast
    then have "file_ok df" using ok(2) by (auto simp: store_ok_def)
    then show ?thesis
      using df ok(2)
      by (auto simp: hf_wp hf_buf deref_def file_ok_def
          intro!: Q Iv_cursor2 [OF I] dest: tailq_next_in_store)
  qed
  show ?thesis
  proof (cases "feedback_dynFileMethod ?h = DYNFILE_NONE \<or> io_dynfileqCnt ?h = 0")
    case True
    then show ?thesis using Q [OF I, of None] by (auto simp: input_getRandomInputAsBuf_def hf_wp)
  next
    case False
    show ?thesis
    proof (cases "io_dynfileq2Current ?h")
      case None
      from False ok(1) obtain a where a: "tailq_first ?h = Some a"
        by (cases "tailq_first ?h") (auto simp: env_ok_def tailq_first_None)
      with None False take_next [OF tailq_first_in_store [OF ok(2) a]] show ?thesis
        by (simp add: input_getRandomInputAsBuf_def wp_bnd [of "gets global"] wp_gets Let_def)
    next
      case (Some a)
      then have "a \<in> dom (io_store ?h)" using ok(2) by (simp add: store_ok_def)
      from take_next [OF this] Some False show ?thesis
        by (simp add: input_getRandomInputAsBuf_def wp_bnd [of "gets global"] wp_gets Let_def)
    qed
  qed
qed

lemma keeps_Splice: assumes "p \<Longrightarrow> pr" shows "keeps p (mangle_Splice pr)"
proof (rule keepsI)
  fix E r assume I: "Iv p E r"
  have splice: "wp (bnd (mangle_getLen (length buf)) (\<lambda>l. let remoteOff = sz_sub l 1
      in bnd (mangle_getLen (sz_sub (length buf) remoteOff)) (\<lambda>len.
         mangle_UseValue (drop remoteOff buf) len pr))) (\<lambda>_. Iv p E) s"
    if s: "Iv p E s" and buf: "length buf \<le> HF_INPUT_MAX_SIZE" "buf \<noteq> []" for buf s
    unfolding wp_bnd Let_def
  proof (rule wp_getLen [OF s _ buf(1)])
    fix l t assume t: "Iv p E t" and l: "1 \<le> l" "l \<le> length buf"
    then have "sz_sub (length buf) (sz_sub l 1) = length buf - (l - 1)" "sz_sub l 1 = l - 1"
      by (simp_all add: hf_sz)
    with l buf assms show "wp (mangle_getLen (sz_sub (length buf) (sz_sub l 1)))
        (\<lambda>len. wp (mangle_UseValue (drop (sz_sub l 1) buf) len pr) (\<lambda>_. Iv p E)) t"
      by (intro wp_getLen [OF t] wp_UseValue) auto
  qed (use buf(2) in \<open>simp add: Suc_le_eq\<close>)
  have "wp input_getRandomInputAsBuf (\<lambda>b. wp (case b of None \<Rightarrow> mangle_Bytes pr
      | Some buf \<Rightarrow> let sz = length buf in if sz = 0 then mangle_Bytes pr
          else bnd (mangle_getLen sz) (\<lambda>l. let remoteOff = sz_sub l 1
            in bnd (mangle_getLen (sz_sub sz remoteOff)) (\<lambda>len.
               mangle_UseValue (drop remoteOff buf) len pr))) (\<lambda>_. Iv p E)) r"
    by (rule wp_getRandomInput [OF I])
       (use assms in \<open>auto simp: Let_def split: option.split simp del: One_nat_def
          intro: splice [unfolded Let_def] wp_Bytes\<close>)
  then show "wp (mangle_Splice pr) (\<lambda>_. Iv p E) r"
    using wp_Bytes [OF I assms]
    unfolding mangle_Splice_def wp_bnd [of "gets global"] wp_gets wp_if
      wp_bnd [of input_getRandomInputAsBuf]
    by (simp only: split: if_split) blast
qed

text \<open>Resizing, also from the empty input.\<close>

lemma wp_resize_fill:
  assumes wf: "wf_run r" and fr: "frame_proj r = E" and "p \<Longrightarrow> \<forall>b\<in>set (inData r). printable b"
    and n: "1 \<le> n" "n \<le> maxInputSz r" and "p \<Longrightarrow> pr"
  shows "wp (bnd (input_setSize n) (\<lambda>_. if n > inSize r
      then (if pr then memsetIn (inSize r) 32 (n - inSize r) else ret ()) else ret ())) (\<lambda>_. Iv p E) r"
proof -
  let ?s = "\<lambda>d. r\<lparr>dynfile := (dynfile r)\<lparr>d_size := n, d_data := d\<rparr>\<rparr>"
  have b: "length (inData r) = inSize r" using wf by (simp add: wf_run_def)
  have Iv: "Iv p E (?s d)" if "length d = n" "p \<Longrightarrow> \<forall>b\<in>set d. printable b" for d
    using that wf fr n by (auto simp: Iv_def wf_run_def frame_proj_def inSize_def inData_def maxInputSz_def)
  have up: "setData d (?s e) = ?s d" for d e by (simp add: setData_def)
  have len: "length (resize n (inData r)) = n" by (simp add: resize_def)
  have data: "inData (?s (resize n (inData r))) = resize n (inData r)" by (simp add: inData_def)
  have short: "Iv p E (?s (resize n (inData r)))" if "\<not> (n > inSize r \<and> pr)"
    using that assms(3,6) b by (intro Iv) (auto simp: resize_def dest: in_set_takeD)
  have long: "Iv p E (?s (patch (inSize r) (replicate (n - inSize r) 32) (resize n (inData r))))"
    if "n > inSize r"
    using that assms(3) b by (intro Iv) (auto simp: resize_def patch_def printable_def)
  show ?thesis
    unfolding wp_bnd
    by (rule wp_setSize [OF b n(2)])
       (use b short long in \<open>auto simp: hf_wp memsetIn_def data len up\<close>)
qed

lemma wp_resize_choice:
  assumes "(choice :: nat) \<le> 32" and "1 \<le> mx" and "mx \<le> HF_INPUT_MAX_SIZE"
    and G: "\<And>x g. G x (r\<lparr>rnd_gen := g\<rparr>)"
  shows "wp (if choice = 0 then bnd (rndGetN 1 mx) (\<lambda>v. ret (int v))
          else if 1 \<le> choice \<and> choice \<le> 4 then bnd (rndGetN 0 8) (\<lambda>v. ret (oldsz + int v))
          else if choice = 5 then bnd (rndGetN 9 128) (\<lambda>v. ret (oldsz + int v))
          else if 6 \<le> choice \<and> choice \<le> 9 then bnd (rndGetN 0 8) (\<lambda>v. ret (oldsz - int v))
          else if choice = 10 then bnd (rndGetN 9 128) (\<lambda>v. ret (oldsz - int v))
          else if 11 \<le> choice \<and> choice \<le> 32 then ret oldsz
          else raise LogFatal) G (r\<lparr>rnd_gen := g\<rparr>)"
  using assms(1-3) by (auto simp: hf_wp HF_INPUT_MAX_SIZE_def intro!: wp_rndGetN_gen G)

lemma wp_Resize:
  assumes wf: "wf_run r" and fr: "frame_proj r = E" and pd: "p \<Longrightarrow> \<forall>b\<in>set (inData r). printable b"
    and "p \<Longrightarrow> pr"
  shows "wp (mangle_Resize pr) (\<lambda>_. Iv p E) r"
proof -
  define mx where "mx = maxInputSz r"
  define clamp where "clamp = (\<lambda>x::int. let x = (if x < 1 then 1 else x) in if x > int mx then int mx else x)"
  have mx: "1 \<le> mx" "mx \<le> HF_INPUT_MAX_SIZE" "inSize r \<le> mx"
    using wf by (auto simp: wf_run_def env_ok_def maxInputSz_def mx_def)
  have fill: "wp (bnd (input_setSize (nat (clamp x))) (\<lambda>_. if clamp x > int (inSize r)
      then (if pr then memsetIn (nat (int (inSize r))) 32 (nat (clamp x - int (inSize r))) else ret ())
      else ret ())) (\<lambda>_. Iv p E) (r\<lparr>rnd_gen := g\<rparr>)" for x g
  proof -
    obtain n where n: "clamp x = int n" "1 \<le> n" "n \<le> mx"
    proof
      show "clamp x = int (nat (clamp x))" "1 \<le> nat (clamp x)" "nat (clamp x) \<le> mx"
        using mx(1) by (auto simp: clamp_def Let_def)
    qed
    have "wf_run (r\<lparr>rnd_gen := g\<rparr>)" "frame_proj (r\<lparr>rnd_gen := g\<rparr>) = E"
        "inData (r\<lparr>rnd_gen := g\<rparr>) = inData r" "inSize (r\<lparr>rnd_gen := g\<rparr>) = inSize r"
        "maxInputSz (r\<lparr>rnd_gen := g\<rparr>) = mx"
      using wf fr by (auto simp: wf_run_def frame_proj_def inSize_def inData_def maxInputSz_def mx_def)
    then show ?thesis
      using wp_resize_fill [of "r\<lparr>rnd_gen := g\<rparr>" E p n pr] pd assms(4) n
      by (simp add: nat_diff_distrib' cong: if_cong)
  qed
  have "wp (rndGetN 0 32) (\<lambda>choice. wp (if choice = 0 then bnd (rndGetN 1 mx) (\<lambda>v. ret (int v))
          else if 1 \<le> choice \<and> choice \<le> 4 then bnd (rndGetN 0 8) (\<lambda>v. ret (int (inSize r) + int v))
          else if choice = 5 then bnd (rndGetN 9 128) (\<lambda>v. ret (int (inSize r) + int v))
          else if 6 \<le> choice \<and> choice \<le> 9 then bnd (rndGetN 0 8) (\<lambda>v. ret (int (inSize r) - int v))
          else if choice = 10 then bnd (rndGetN 9 128) (\<lambda>v. ret (int (inSize r) - int v))
          else if 11 \<le> choice \<and> choice \<le> 32 then ret (int (inSize r))
          else raise LogFatal) (\<lambda>x. wp (bnd (input_setSize (nat (clamp x))) (\<lambda>_.
            if clamp x > int (inSize r)
            then (if pr then memsetIn (nat (int (inSize r))) 32 (nat (clamp x - int (inSize r))) else ret ())
            else ret ())) (\<lambda>_. Iv p E))) r"
    by (intro wp_rndGetN_gen wp_resize_choice [OF _ mx(1,2)] fill) simp_all
  then show ?thesis
    unfolding mangle_Resize_def wp_bnd [of "gets _"] wp_gets mx_def [symmetric]
    by (simp only: Let_def clamp_def wp_bnd [of "rndGetN 0 32"] wp_bnd [of "if _ then _ else _"])
qed

lemma Iv_mutations: "Iv p E r \<Longrightarrow> mutate_mutationsPerRun (global r) = mutate_mutationsPerRun (global E)"
  by (simp add: Iv_global)

text \<open>
  Every entry of the table of mutations; one of them, \<open>mangle_AddSub\<close>, only outside of
  the printable mode.
\<close>

lemma keeps_mangleFuncs:
  assumes "f \<in> set mangleFuncs" and "p \<Longrightarrow> pr" and "p \<Longrightarrow> f \<noteq> mangle_AddSub"
  shows "keeps p (f pr)"
  using assms
  by (auto simp: mangleFuncs_def
      intro: keeps_Shrink keeps_Expand keeps_Bit keeps_IncByte keeps_DecByte keeps_NegByte
        keeps_AddSub_gen keeps_MemSet keeps_MemClr keeps_MemSwap keeps_MemCopy keeps_Bytes keeps_ASCIINum
        keeps_ASCIINumChange keeps_ByteRepeat keeps_Magic keeps_StaticDict keeps_ConstFeedbackDict
        keeps_RandomBuf keeps_Splice)

lemma wp_mangle_one: "Iv False E r \<Longrightarrow> wp (mangle_one pr) (\<lambda>_. Iv False E) r"
proof -
  assume I: "Iv False E r"
  have len: "length mangleFuncs = 20" by (simp add: mangleFuncs_def)
  have pick: "wp (if c then mangle_ConstFeedbackDict pr
     else bnd (rndGetN 0 (length mangleFuncs - 1)) (\<lambda>choice.
          bnd (or_fault OutOfBounds (buf_get mangleFuncs choice)) (\<lambda>f. f pr))) (\<lambda>_. Iv False E) s"
    if s: "Iv False E s" for c s
    using s len
    by (auto simp: hf_wp hf_buf intro!: wp_rndGetN [OF s] keepsD [OF keeps_mangleFuncs]
        keepsD [OF keeps_ConstFeedbackDict])
  then show ?thesis
    using pick [OF I, of False]
    by (auto simp: mangle_one_def wp_bnd [of "gets _"] wp_gets wp_bnd [of coin] wp_bnd [of "ret _"]
        wp_bnd [of "if _ then _ else _"] wp_ret intro!: wp_coin [OF I] pick)
qed

lemma wp_mangleContent:
  assumes wf: "wf_run r" and "1 \<le> unat (mutate_mutationsPerRun (global r))"
    and "run_mutationsPerRun r \<noteq> 0"
  shows "wp mangle_mangleContent (\<lambda>_. Iv False (frame_proj r)) r"
proof -
  let ?E = "frame_proj r" and ?pr = "cfg_only_printable (global r)"
  let ?m = "unat (mutate_mutationsPerRun (global r))"
  have m: "?m < 2 ^ 64 - 1" using unat_lt_32 [of "mutate_mutationsPerRun (global r)"] by simp
  have loop: "wp (repeatM n (mangle_one ?pr)) (\<lambda>_. Iv False ?E) s" if "Iv False ?E s" for n s
    using that by (intro wp_repeatM wp_mangle_one)
  have splice: "wp (if stale then bnd coin (\<lambda>c. if c then mangle_Splice ?pr else ret ()) else ret ())
      (\<lambda>_. Iv False ?E) s" if s: "Iv False ?E s" for stale s
    using s by (auto simp: wp_bnd wp_ret intro!: wp_coin [OF s] keepsD [OF keeps_Splice])
  have rest: "wp (bnd (bnd (gets (\<lambda>r. mutate_mutationsPerRun (global r))) (\<lambda>m. rndGetN 1 (unat m)))
         (\<lambda>changesCnt.
       bnd (gets (\<lambda>r. now r - timing_lastCovUpdate (global r) > 5)) (\<lambda>stale.
       bnd (if stale then bnd coin (\<lambda>c. if c then mangle_Splice ?pr else ret ()) else ret ())
         (\<lambda>_. repeatM changesCnt (mangle_one ?pr))))) (\<lambda>_. Iv False ?E) s"
    if s: "Iv False ?E s" for s
  proof -
    have "unat (mutate_mutationsPerRun (global s)) = ?m"
      using Iv_mutations [OF s] by (simp add: frame_proj_def)
    then show ?thesis
      unfolding wp_bnd [of "bnd _ _"] wp_bnd [of "gets _"] wp_gets wp_bnd [of "If _ _ _"]
      using assms(2) m by (intro wp_rndGetN [OF s] wp_mono [OF splice] loop) simp_all
  qed
  have start: "wp (if inSize r = 0 then mangle_Resize ?pr else ret ()) (\<lambda>_. Iv False ?E) r"
    using wf by (auto simp: wp_ret Iv_def intro!: wp_Resize)
  show ?thesis
    unfolding mangle_mangleContent_def wp_bnd [of "gets run_mutationsPerRun"]
      wp_bnd [of "gets (\<lambda>r. cfg_only_printable (global r))"] wp_bnd [of "gets inSize"] wp_gets
      wp_bnd [of "If _ _ _"] wp_if [of _ "ret ()" "bnd _ _"] if_not_P [OF assms(3)]
    by (rule wp_mono [OF start], rule rest)
qed

lemma wp_mangleContent_all:
  assumes "wf_run r" and "1 \<le> unat (mutate_mutationsPerRun (global r))"
  shows "wp mangle_mangleContent (\<lambda>_ s. wf_run s \<and> frame_proj s = frame_proj r \<and>
    (if run_mutationsPerRun r = 0 then s = r else 1 \<le> inSize s)) r"
proof (cases "run_mutationsPerRun r = 0")
  case True
  then show ?thesis using assms(1) by (simp add: mangle_mangleContent_def hf_wp)
next
  case False
  then show ?thesis by (intro wp_mono [OF wp_mangleContent [OF assms False]]) (auto simp: Iv_def)
qed

section \<open>Properties\<close>

text \<open>C1: \<open>mangle_mangleContent\<close> is memory safe and keeps the run well-formed. From every
  well-formed run (the input's bytes are its size, the sizes are within the maximal input
  size, the queue's pointers refer to files, the dictionaries are consistent) whose
  configuration allows at least one mutation, it ends without any fault for every state of
  the random generator; the input it leaves is within the maximal size and, unless the run is
  a dry run, not empty; and everything but the input's bytes, the generator and the splicing
  cursor is unchanged.\<close>

theorem mangle_mangleContent_safe:
  assumes "wf_run r" and "1 \<le> unat (mutate_mutationsPerRun (global r))"
  shows "\<exists>s. mangle_mangleContent r = Inr ((), s) \<and> wf_run s \<and> frame_proj s = frame_proj r \<and>
    (if run_mutationsPerRun r = 0 then s = r else 1 \<le> inSize s)"
  using wp_result [OF wp_mangleContent_all [OF assms]] by auto

theorem mangle_mangleContent_safe_witness:
  "\<exists>s. mangle_mangleContent (demo_run [1, 2, 3]) = Inr ((), s) \<and> wf_run s \<and>
    frame_proj s = frame_proj (demo_run [1, 2, 3]) \<and>
    (if run_mutationsPerRun (demo_run [1, 2, 3]) = 0 then s = demo_run [1, 2, 3] else 1 \<le> inSize s)"
  by (rule mangle_mangleContent_safe) (simp_all add: wf_demo_run demo_global_def)

text \<open>In the mode for printable inputs, every mutation of the table but
  \<open>mangle_AddSub\<close> turns a printable input of a well-formed run into a printable input.\<close>

theorem mangleFuncs_keep_printable:
  assumes "f \<in> set mangleFuncs" and "f \<noteq> mangle_AddSub"
    and "wf_run r" and "1 \<le> inSize r" and "\<forall>b\<in>set (inData r). printable b"
  shows "\<exists>s. f True r = Inr ((), s) \<and> (\<forall>b\<in>set (inData s). printable b)"
proof -
  have "wp (f True) (\<lambda>_. Iv True (frame_proj r)) r"
    using assms by (intro keepsD [OF keeps_mangleFuncs]) (auto simp: Iv_def)
  from wp_result [OF this] show ?thesis by (auto simp: Iv_def)
qed

lemma AddSub_demo: "mangle_AddSub True (demo_run [32]) = Inr ((), demo_run [16])"
  by (simp add: mangle_AddSub_def mangle_getOffSet_def mangle_getLen_def mangle_AddSubWithRange_def
      rndGetN_def rnd_def util_rndGet_def util_rnd64_def util_InternalRnd64_def xoshiro_next_def
      demo_run_def demo_file_def inSize_def inData_def bnd_def gets_def ret_def zoom_def
      readIn8_def writeIn8_def buf_get_def buf_set_def or_fault_def modify_def setData_def
      sz_sub_def HF_INPUT_MAX_SIZE_def util_RotL_def Let_def)

lemma Shrink_not_AddSub: "mangle_Shrink \<noteq> mangle_AddSub"
proof
  assume eq: "mangle_Shrink = mangle_AddSub"
  have "mangle_Shrink True (demo_run [32]) = Inr ((), demo_run [32])"
    by (simp add: mangle_Shrink_def bnd_def gets_def ret_def)
  moreover have "mangle_AddSub True (demo_run [32]) \<noteq> Inr ((), demo_run [32])"
    by (simp add: AddSub_demo)
  ultimately show False using eq by simp
qed

theorem mangleFuncs_keep_printable_witness:
  "\<exists>s. mangle_Shrink True (demo_run [65, 66, 67]) = Inr ((), s) \<and> (\<forall>b\<in>set (inData s). printable b)"
  by (rule mangleFuncs_keep_printable)
     (simp_all add: mangleFuncs_def Shrink_not_AddSub wf_demo_run printable_def)

text \<open>\<open>mangle_AddSub\<close> is the exception: a one-byte variable is stored without being
  turned into a printable character, so there is a well-formed run in the printable mode, with
  a printable input, that it leaves with an unprintable byte.\<close>

theorem mangle_AddSub_breaks_printable:
  "\<exists>r s. wf_run r \<and> cfg_only_printable (global r) \<and> list_all printable (inData r) \<and>
    mangle_AddSub (cfg_only_printable (global r)) r = Inr ((), s) \<and>
    \<not> list_all printable (inData s)"
proof (intro exI conjI)
  show "wf_run (demo_run [32])" by (simp add: wf_demo_run)
  have pr: "cfg_only_printable (global (demo_run [32]))" by (simp add: demo_global_def)
  then show "cfg_only_printable (global (demo_run [32]))" .
  show "mangle_AddSub (cfg_only_printable (global (demo_run [32]))) (demo_run [32]) =
      Inr ((), demo_run [16])" using pr by (simp add: AddSub_demo)
qed (simp_all add: printable_def)

text \<open>C11: \<open>mangle_Insert\<close> inserts: as many of the bytes as still fit below the maximal input
  size are placed at the offset, and the bytes before and after it are kept. When inputs have to be printable
  (\<open>--only_printable\<close>), each inserted byte \<open>b\<close> is first turned into the printable \<open>b mod 95 + 32\<close>; otherwise the bytes are
  inserted as they are.\<close>

theorem mangle_Insert_effect:
  assumes "length (inData r) = inSize r" and "inSize r \<le> maxInputSz r"
    and "maxInputSz r \<le> HF_INPUT_MAX_SIZE" and "off \<le> inSize r" and "len \<le> length val"
  shows "\<exists>s. mangle_Insert off val len pr r = Inr ((), s) \<and>
    inData s = take off (inData r) @
      map (\<lambda>b. if pr then b mod 95 + 32 else b) (take (min len (maxInputSz r - inSize r)) val) @ drop off (inData r) \<and>
    inSize s = length (inData s) \<and> global s = global r"
proof -
  define n where "n = min len (maxInputSz r - inSize r)"
  define new where "new = map (\<lambda>b. if pr then b mod 95 + 32 else b) (take n val)"
  have n: "n \<le> length val" "length (take n val) = n" "length new = n" using assms(5) by (simp_all add: n_def new_def)
  have "wp (mangle_Insert off val len pr) (\<lambda>_ s. s = insertIn off new r) r"
    unfolding mangle_Insert_def wp_bnd
  proof (rule Inflate_effect [OF assms(1-4) n_def])
    fix gap :: "byte list" assume gap: "length gap = n"
    then have "take n val = take (min n (inSize (insertIn off gap r) - off)) val" using assms(4) by simp
    moreover have "(if pr then util_turnToPrintable (take n val) else take n val) = new"
      by (cases pr) (simp_all add: new_def util_turnToPrintable_def)
    ultimately show "wp (mangle_Overwrite off val n pr) (\<lambda>_ s. s = insertIn off new r) (insertIn off gap r)"
      using gap n assms(1,4)
      by (intro Overwrite_effect [where bs = "take n val"]) (simp_all add: patch_def setData_insertIn)
  qed
  from wp_result [OF this] show ?thesis using assms(1,4) by (simp add: n_def new_def)
qed

theorem mangle_Insert_effect_witness:
  "(\<exists>s. mangle_Insert 1 [7, 8, 9] 2 False (demo_run [1, 2, 3]) = Inr ((), s) \<and>
    inData s = [1, 7, 8, 2, 3] \<and> inSize s = length (inData s) \<and> global s = demo_global) \<and>
   (\<exists>s. mangle_Insert 1 [7, 8, 9] 2 True (demo_run [65, 66]) = Inr ((), s) \<and>
    inData s = [65, 39, 40, 66] \<and> inSize s = length (inData s) \<and> global s = demo_global)"
  using mangle_Insert_effect [of "demo_run [1, 2, 3]" 1 2 "[7, 8, 9]" False]
    mangle_Insert_effect [of "demo_run [65, 66]" 1 2 "[7, 8, 9]" True]
  by (simp add: HF_INPUT_MAX_SIZE_def)

text \<open>\<open>mangle_MemSwap\<close> never loses or duplicates a byte, also when the two windows
  overlap: the bytes after it are a permutation of the bytes before it.\<close>

theorem mangle_MemSwap_permutes:
  assumes "wf_run r" and "1 \<le> inSize r"
  shows "\<exists>s. mangle_MemSwap pr r = Inr ((), s) \<and> mset (inData s) = mset (inData r) \<and>
    frame_proj s = frame_proj r"
  using wp_result [OF wp_MemSwap [of False "frame_proj r" r pr]] assms by (auto simp: Iv_def)

theorem mangle_MemSwap_permutes_witness:
  "\<exists>s. mangle_MemSwap False (demo_run [1, 2, 3, 4]) = Inr ((), s) \<and>
    mset (inData s) = mset (inData (demo_run [1, 2, 3, 4])) \<and>
    frame_proj s = frame_proj (demo_run [1, 2, 3, 4])"
  by (rule mangle_MemSwap_permutes) (simp_all add: wf_demo_run)

end
