(* ===== verification/HF_Input.thy ===== *)
theory HF_Input
  imports HF_CRC HF_Mangle_Safe
begin

text \<open>
  \<open>honggfuzz/input.c\<close>: reading the corpus directory, the dictionary and the stack-hash
  blocklist, the queue of dynamic inputs ordered by coverage, the choice of the next input to
  mutate, and the preparation of static and external inputs.
\<close>

section \<open>The file system\<close>

definition fs_stat :: "fs_t \<Rightarrow> path \<Rightarrow> (bool \<times> nat) option" where
  "fs_stat fs p = (case fs_files fs p of Some bs \<Rightarrow> Some (True, length bs)
     | None \<Rightarrow> if fs_special fs p then Some (False, 0) else None)"

definition fs_open :: "fs_t \<Rightarrow> path \<Rightarrow> byte list option" where
  "fs_open fs p = (if fs_denied fs p then None else fs_files fs p)"

definition files_exists :: "fs_t \<Rightarrow> path \<Rightarrow> bool" where
  "files_exists fs p \<longleftrightarrow> fs_stat fs p \<noteq> None"

text \<open>The name of the input directory as \<open>%s\<close> prints it.\<close>

definition inputDir :: "hfuzz_t \<Rightarrow> path" where
  "inputDir h = (case io_inputDir h of None \<Rightarrow> str ''(null)'' | Some d \<Rightarrow> d)"

section \<open>The corpus directory\<close>

text \<open>
  The loop over the stream: whether no error occurred, the number of usable files, the
  maximal input size, and what is left of the stream.
\<close>

fun dirStats_loop :: "fs_t \<Rightarrow> path \<Rightarrow> dir_ev list \<Rightarrow> nat \<Rightarrow> nat \<Rightarrow> bool \<times> nat \<times> nat \<times> dir_ev list"
where
  "dirStats_loop fs dir [] fileCnt mx = (True, fileCnt, mx, [])"
| "dirStats_loop fs dir (DIntr # es) fileCnt mx = dirStats_loop fs dir es fileCnt mx"
| "dirStats_loop fs dir (DError # es) fileCnt mx = (False, fileCnt, mx, es)"
| "dirStats_loop fs dir (DEntry name # es) fileCnt mx =
     (case fs_stat fs (join_path dir name) of
        None \<Rightarrow> dirStats_loop fs dir es fileCnt mx
      | Some (isreg, st_size) \<Rightarrow>
          if \<not> isreg then dirStats_loop fs dir es fileCnt mx
          else dirStats_loop fs dir es (fileCnt + 1) (if st_size > mx then st_size else mx))"

definition setInputPos :: "dir_ev list \<Rightarrow> hfuzz_t \<Rightarrow> hfuzz_t" where
  "setInputPos es h = h\<lparr>io_fs := (io_fs h)\<lparr>fs_inputPos := es\<rparr>\<rparr>"

definition input_getDirStatsAndRewind :: "hfuzz_t \<Rightarrow> bool \<times> hfuzz_t" where
  "input_getDirStatsAndRewind h =
     (case dirStats_loop (io_fs h) (inputDir h) (fs_inputDir (io_fs h)) 0 (mutate_maxInputSz h) of
        (ok, fileCnt, mx, rest) \<Rightarrow>
          if \<not> ok then (False, setInputPos rest (h\<lparr>mutate_maxInputSz := mx\<rparr>))
          else
            let mx = (if io_maxFileSz h \<noteq> 0 then io_maxFileSz h
                      else if mx < HF_INPUT_DEFAULT_SIZE then HF_INPUT_DEFAULT_SIZE
                      else if mx > HF_INPUT_MAX_SIZE then HF_INPUT_MAX_SIZE
                      else mx)
            in (True, setInputPos (fs_inputDir (io_fs h))
                  (h\<lparr>io_fileCnt := fileCnt, mutate_maxInputSz := mx\<rparr>)))"

definition input_init :: "hfuzz_t \<Rightarrow> bool \<times> hfuzz_t" where
  "input_init h =
     (let h = h\<lparr>io_fileCnt := 0\<rparr>
      in case io_inputDir h of
           None \<Rightarrow> (False, h)
         | Some d \<Rightarrow>
             if fs_denied (io_fs h) d then (False, h)
             else (case input_getDirStatsAndRewind h of
                     (ok, h) \<Rightarrow> if ok then (True, h) else (False, h\<lparr>io_fileCnt := 0\<rparr>)))"

text \<open>
  \<open>input_getNext\<close> yields the name and the size of the next regular file; with
  \<open>rewind\<close> it starts over at the end, and does not return while there is none.
\<close>

partial_function (option) getNext_loop ::
  "bool \<Rightarrow> hfuzz_t \<Rightarrow> ((path \<times> nat) option \<times> hfuzz_t) option" where
  "getNext_loop rewind h =
     (case fs_inputPos (io_fs h) of
        [] \<Rightarrow> if \<not> rewind then Some (None, h)
              else getNext_loop rewind (setInputPos (fs_inputDir (io_fs h)) h)
      | ev # es \<Rightarrow>
          (case ev of
             DIntr \<Rightarrow> getNext_loop rewind (setInputPos es h)
           | DError \<Rightarrow> Some (None, setInputPos es h)
           | DEntry name \<Rightarrow>
               (case fs_stat (io_fs h) (join_path (inputDir h) name) of
                  None \<Rightarrow> getNext_loop rewind (setInputPos es h)
                | Some (isreg, st_size) \<Rightarrow>
                    if \<not> isreg then getNext_loop rewind (setInputPos es h)
                    else Some (Some (snprintf_cut PATH_MAX name, st_size), setInputPos es h))))"

definition input_getNext :: "bool \<Rightarrow> hfuzz_t \<Rightarrow> ((path \<times> nat) option \<times> hfuzz_t) option" where
  "input_getNext rewind h = (if io_fileCnt h = 0 then Some (None, h) else getNext_loop rewind h)"

section \<open>The dictionary\<close>

definition DICT_MAX :: nat where
  "DICT_MAX = 8192"

text \<open>
  The word of a line: the bytes between the first and the last quote, at most 1024 of them
  (\<open>%1024c\<close>), or nothing for a comment, an empty or a malformed line.
\<close>

definition dict_word :: "byte list \<Rightarrow> byte list option" where
  "dict_word lineptr =
     (let line = (if length lineptr > 1 \<and> last lineptr = 10 then butlast lineptr else lineptr);
          s = cstr line
      in if s = [] \<or> hd s = 35 \<or> hd s = 10 then None
         else case (strchr s 34, strrchr s 34) of
                (Some start, Some fin) \<Rightarrow>
                  if start = fin then None
                  else let w = take (fin - (start + 1)) (drop (start + 1) s)
                       in if w = [] then None else Some (take 1024 w)
              | _ \<Rightarrow> None)"

text \<open>The decoded entry: \<open>bufv\<close> has 1025 bytes, an entry at most 512.\<close>

definition dict_entry :: "byte list \<Rightarrow> fault + byte list" where
  "dict_entry w =
     (case util_decodeCString (w @ replicate (1025 - length w) 0) of
        Inl e \<Rightarrow> Inl e
      | Inr (bufv, len) \<Rightarrow> Inr (take (min len 512) bufv))"

fun dict_lines :: "byte list list \<Rightarrow> byte list list \<Rightarrow> fault + byte list list" where
  "dict_lines [] dict = Inr dict"
| "dict_lines (l # ls) dict =
     (if length dict = DICT_MAX then Inr dict
      else case dict_word l of
             None \<Rightarrow> dict_lines ls dict
           | Some w \<Rightarrow> (case dict_entry w of
                          Inl e \<Rightarrow> Inl e
                        | Inr entry \<Rightarrow> dict_lines ls (dict @ [entry])))"

definition input_parseDictionary :: "hfuzz_t \<Rightarrow> fault + (bool \<times> hfuzz_t)" where
  "input_parseDictionary h =
     (case fs_open (io_fs h) (mutate_dictionaryFile h) of
        None \<Rightarrow> Inr (False, h)
      | Some content \<Rightarrow>
          (case dict_lines (getlines content) (mutate_dictionary h) of
             Inl e \<Rightarrow> Inl e
           | Inr d \<Rightarrow> Inr (True, h\<lparr>mutate_dictionary := d, mutate_dictionaryCnt := length d\<rparr>)))"

section \<open>The blocklist of stack hashes\<close>

fun blacklist_lines :: "byte list list \<Rightarrow> u64 list \<Rightarrow> fault + u64 list" where
  "blacklist_lines [] bl = Inr bl"
| "blacklist_lines (l # ls) bl =
     (let v = strtoull16 (cstr l)
      in if bl \<noteq> [] \<and> last bl > v then Inl LogFatal
         else blacklist_lines ls (bl @ [v]))"

definition input_parseBlacklist :: "hfuzz_t \<Rightarrow> fault + (bool \<times> hfuzz_t)" where
  "input_parseBlacklist h =
     (case fs_open (io_fs h) (feedback_blocklistFile h) of
        None \<Rightarrow> Inr (False, h)
      | Some content \<Rightarrow>
          (case blacklist_lines (getlines content) (feedback_blocklist h) of
             Inl e \<Rightarrow> Inl e
           | Inr bl \<Rightarrow> if bl = [] then Inl LogFatal
                       else Inr (True, h\<lparr>feedback_blocklist := bl\<rparr>)))"

section \<open>Names and files of the corpus\<close>

definition cov_name :: "dynfile_t \<Rightarrow> path" where
  "cov_name df =
     hex_fixed 16 (unat (util_CRC64 (take (d_size df) (d_data df)))) @
     hex_fixed 16 (unat (util_CRC64Rev (take (d_size df) (d_data df)))) @
     [46] @ hex_fixed 8 (d_size df mod 2 ^ 32) @ str ''.honggfuzz.cov''"

definition input_generateFileName :: "dynfile_t \<Rightarrow> path option \<Rightarrow> path" where
  "input_generateFileName df dir =
     (case dir of
        Some d \<Rightarrow> snprintf_cut PATH_MAX (d @ [47] @ cov_name df)
      | None \<Rightarrow> snprintf_cut PATH_MAX (cov_name df))"

definition input_writeCovFile :: "path option \<Rightarrow> dynfile_t \<Rightarrow> fs_t \<Rightarrow> bool \<times> fs_t" where
  "input_writeCovFile dir df fs =
     (let fname = input_generateFileName df dir
      in if files_exists fs fname then (True, fs)
         else if fs_denied fs fname then (False, fs)
         else (True, fs\<lparr>fs_files := (fs_files fs)(fname \<mapsto> take (d_size df) (d_data df))\<rparr>))"

section \<open>The queue\<close>

text \<open>The comparison of two arrays of counters, from the first one on.\<close>

fun cov_gt :: "u64 list \<Rightarrow> u64 list \<Rightarrow> bool" where
  "cov_gt (a # as) (b # bs) = (if a > b then True else if a < b then False else cov_gt as bs)"
| "cov_gt _ _ = False"

definition input_cmpCov :: "dynfile_t \<Rightarrow> dynfile_t \<Rightarrow> bool" where
  "input_cmpCov item1 item2 = cov_gt (d_cov item1) (d_cov item2)"

text \<open>The walk over the queue that inserts before the first input with less coverage.\<close>

primrec insert_by_cov :: "(addr \<rightharpoonup> dynfile_t) \<Rightarrow> dynfile_t \<Rightarrow> addr \<Rightarrow> addr list \<Rightarrow> fault + addr list"
where
  "insert_by_cov st df a [] = Inr [a]"
| "insert_by_cov st df a (x # q) =
     (case st x of
        None \<Rightarrow> Inl NullDeref
      | Some it \<Rightarrow>
          if input_cmpCov df it then Inr (a # x # q)
          else case insert_by_cov st df a q of Inl e \<Rightarrow> Inl e | Inr q' \<Rightarrow> Inr (x # q'))"

definition fuzz_getState :: "hfuzz_t \<Rightarrow> fuzzState_t" where
  "fuzz_getState h = feedback_state h"

text \<open>The copy of the run's input that goes into the queue.\<close>

definition new_dynfile :: "run_t \<Rightarrow> dynfile_t" where
  "new_dynfile r =
     (let d = dynfile r;
          df = \<lparr>d_size = d_size d, d_cov = d_cov d, d_idx = 0, d_driver_id = d_driver_id d,
                d_timeExecUSecs = of_int (nowUSecs r - timeStartedUSecs r), d_path = [],
                d_src = d_src d, d_refs = 0, d_phase = fuzz_getState (global r),
                d_timedout = tmOutSignaled r, d_data = take (d_size d) (d_data d),
                d_imported = d_imported d\<rparr>
      in df\<lparr>d_path := input_generateFileName df None\<rparr>)"

text \<open>\<open>ATOMIC_POST_INC (run->dynfile->src->refs)\<close>.\<close>

definition bump_refs :: "addr option \<Rightarrow> hfuzz_t \<Rightarrow> fault + hfuzz_t" where
  "bump_refs src h =
     (case src of
        None \<Rightarrow> Inr h
      | Some a \<Rightarrow> (case io_store h a of
                     None \<Rightarrow> Inl NullDeref
                   | Some f \<Rightarrow> Inr (h\<lparr>io_store := (io_store h)(a \<mapsto> f\<lparr>d_refs := d_refs f + 1\<rparr>)\<rparr>)))"

text \<open>The part under the lock of the queue.\<close>

definition enqueue :: "dynfile_t \<Rightarrow> hfuzz_t \<Rightarrow> fault + (dynfile_t \<times> hfuzz_t)" where
  "enqueue df h =
     (let cnt = sz_add (io_dynfileqCnt h) 1;
          df = df\<lparr>d_idx := cnt\<rparr>;
          a = io_brk h
      in case insert_by_cov (io_store h) df a (io_dynfileq h) of
           Inl e \<Rightarrow> Inl e
         | Inr q \<Rightarrow> Inr (df, h\<lparr>io_dynfileqCnt := cnt,
               feedback_maxCov := map2 max (feedback_maxCov h) (d_cov df),
               io_dynfileqMaxSz := max (io_dynfileqMaxSz h) (d_size df),
               io_store := (io_store h)(a \<mapsto> df), io_brk := a + 1, io_dynfileq := q\<rparr>))"

definition save_cov_files :: "dynfile_t \<Rightarrow> hfuzz_t \<Rightarrow> hfuzz_t" where
  "save_cov_files df h =
     (if socketFuzzer_enabled h then h
      else
        let outDir = (if io_outputDir h \<noteq> None then io_outputDir h else io_inputDir h);
            h = h\<lparr>io_fs := snd (input_writeCovFile outDir df (io_fs h))\<rparr>
        in if fuzz_getState h \<noteq> STATE_DYNAMIC_MAIN then h
           else
             let h = h\<lparr>io_newUnitsAdded := sz_add (io_newUnitsAdded h) 1\<rparr>
             in if io_covDirNew h \<noteq> None
                then h\<lparr>io_fs := snd (input_writeCovFile (io_covDirNew h) df (io_fs h))\<rparr>
                else h)"

definition input_addDynamicInput :: "(run_t, unit) hm" where
  "input_addDynamicInput = (\<lambda>r.
     let h = (global r)\<lparr>timing_lastCovUpdate := now r\<rparr>;
         df = new_dynfile (r\<lparr>global := h\<rparr>)
     in case bump_refs (d_src (dynfile r)) h of
          Inl e \<Rightarrow> Inl e
        | Inr h \<Rightarrow> (case enqueue df h of
                      Inl e \<Rightarrow> Inl e
                    | Inr (df, h) \<Rightarrow> Inr ((), r\<lparr>global := save_cov_files df h\<rparr>)))"

primrec in_corpus :: "(addr \<rightharpoonup> dynfile_t) \<Rightarrow> path \<Rightarrow> nat \<Rightarrow> addr list \<Rightarrow> fault + bool" where
  "in_corpus st fname len [] = Inr False"
| "in_corpus st fname len (x # q) =
     (case st x of
        None \<Rightarrow> Inl NullDeref
      | Some it \<Rightarrow>
          if strncmp_eq (d_path it) fname PATH_MAX \<and> d_size it = len then Inr True
          else in_corpus st fname len q)"

definition input_inDynamicCorpus :: "path \<Rightarrow> nat \<Rightarrow> hfuzz_t \<Rightarrow> fault + bool" where
  "input_inDynamicCorpus fname len h = in_corpus (io_store h) fname len (io_dynfileq h)"

section \<open>The choice of the next input\<close>

definition HF_CAP :: "int \<Rightarrow> int \<Rightarrow> int \<Rightarrow> int" where
  "HF_CAP v x y = max x (min y v)"

text \<open>
  \<open>util_Log2\<close>: the index of the highest set bit of the value as an \<open>unsigned int\<close>
  (\<open>__builtin_clz\<close> is undefined for 0).
\<close>

fun floor_log2 :: "nat \<Rightarrow> nat" where
  "floor_log2 n = (if n < 2 then 0 else 1 + floor_log2 (n div 2))"

declare floor_log2.simps [simp del]

definition util_Log2 :: "nat \<Rightarrow> fault + nat" where
  "util_Log2 v = (let u = v mod 2 ^ 32 in if u = 0 then Inl OutOfBounds else Inr (floor_log2 u))"

text \<open>The average time of one execution, with the two divisions of the source.\<close>

definition input_speedFactor :: "dynfile_t \<Rightarrow> (run_t, int) hm" where
  "input_speedFactor df =
     bnd (gets (\<lambda>r. of_int (now r - timing_timeStart (global r)) * 1000000 :: u64)) (\<lambda>usecs.
     bnd (gets (\<lambda>r. cnts_mutationsCnt (global r))) (\<lambda>cnt.
     bnd (gets (\<lambda>r. threads_threadsMax (global r))) (\<lambda>thr.
     if cnt = 0 \<or> thr = 0 then raise DivByZero
     else
       let avg = HF_CAP (int (unat usecs div cnt div thr)) 1 1000000;
           sample = HF_CAP (int (unat (d_timeExecUSecs df))) 1 1000000
       in ret (if sample \<ge> avg then sample div avg else - (avg div sample)))))"

text \<open>The two tables of 200 entries, as designated initialisers of ranges.\<close>

definition covScaleMap :: "int list" where
  "covScaleMap = replicate 11 2 @ replicate 39 1 @ replicate 30 0 @ replicate 15 (- 2) @
     replicate 105 (- 10)"

definition ageScaleMap :: "int list" where
  "ageScaleMap = replicate 41 2 @ replicate 30 1 @ replicate 10 0 @ replicate 10 (- 1) @
     replicate 7 (- 2) @ replicate 102 (- 20)"

definition cov_penalty :: "dynfile_t \<Rightarrow> (run_t, int) hm" where
  "cov_penalty df =
     bnd (gets (\<lambda>r. feedback_maxCov (global r))) (\<lambda>maxCov.
     bnd (or_fault OutOfBounds (buf_get maxCov 0)) (\<lambda>maxCov0.
     bnd (or_fault OutOfBounds (buf_get (d_cov df) 0)) (\<lambda>cov0.
     if maxCov0 = 0 then ret 0
     else
       let percentile = unat (ucast (cov0 * 100 div maxCov0) :: u32)
       in or_fault OutOfBounds (buf_get covScaleMap percentile))))"

definition age_penalty :: "dynfile_t \<Rightarrow> (run_t, int) hm" where
  "age_penalty df =
     (if d_phase df \<noteq> STATE_DYNAMIC_MAIN then ret 0
      else bnd (gets (\<lambda>r. io_dynfileqCnt (global r))) (\<lambda>cnt.
        if cnt = 0 then raise DivByZero
        else
          let percentile = (sz_mul (d_idx df) 100 div cnt) mod 2 ^ 32
          in or_fault OutOfBounds (buf_get ageScaleMap percentile)))"

definition refs_penalty :: "dynfile_t \<Rightarrow> int" where
  "refs_penalty df = HF_CAP (2 - sint (d_refs df)) (- 10) 2"

definition size_penalty :: "dynfile_t \<Rightarrow> fault + int" where
  "size_penalty df =
     (if d_size df > 0
      then (case util_Log2 (d_size df) of
              Inl e \<Rightarrow> Inl e
            | Inr l \<Rightarrow> Inr (HF_CAP (int l - 10) (- 5) 5))
      else Inr 0)"

definition input_skipFactor :: "dynfile_t \<Rightarrow> (run_t, int) hm" where
  "input_skipFactor df =
     (let penalty = (if d_timedout df then 50 else 0)
      in bnd (input_speedFactor df) (\<lambda>sf.
         let penalty = penalty - HF_CAP sf (- 10) 10
         in bnd (cov_penalty df) (\<lambda>cp.
            bnd (age_penalty df) (\<lambda>ap.
            let penalty = penalty + cp + ap + refs_penalty df
            in case size_penalty df of
                 Inl e \<Rightarrow> raise e
               | Inr sp \<Rightarrow> ret (penalty + sp)))))"

text \<open>The input belongs to another driver than the active one.\<close>

definition foreign_input :: "hfuzz_t \<Rightarrow> dynfile_t \<Rightarrow> bool" where
  "foreign_input h df \<longleftrightarrow> drv_independentQueue h \<and>
     (case drv_active_driver_id h of None \<Rightarrow> False | Some i \<Rightarrow> d_driver_id df \<noteq> i)"

text \<open>
  The loop of \<open>input_prepareDynamicInput\<close>. It ends only when an input is taken, so it is
  a partial function: \<open>None\<close> is a loop that never takes one.
\<close>

partial_function (option) pick_loop :: "nat \<Rightarrow> run_t \<Rightarrow> (fault + run_t) option" where
  "pick_loop scans r0 =
     (let h = global r0;
          h = (if io_dynfileqCurrent h = None then h\<lparr>io_dynfileqCurrent := tailq_first h\<rparr> else h);
          r = r0\<lparr>global := h\<rparr>
      in if triesLeft r \<noteq> 0 then Some (Inr (r\<lparr>triesLeft := triesLeft r - 1\<rparr>))
         else case io_dynfileqCurrent h of
           None \<Rightarrow> Some (Inl NullDeref)
         | Some a \<Rightarrow>
             let r = r\<lparr>run_current := Some a,
                       global := h\<lparr>io_dynfileqCurrent := tailq_next h a\<rparr>\<rparr>
             in case io_store h a of
                  None \<Rightarrow> Some (Inl NullDeref)
                | Some df \<Rightarrow>
                    if foreign_input h df
                    then (if scans + 1 \<ge> io_dynfileqCnt h then Some (Inl LogFatal)
                          else pick_loop (scans + 1) r)
                    else if d_imported df then Some (Inr r)
                    else case input_skipFactor df r of
                           Inl e \<Rightarrow> Some (Inl e)
                         | Inr (skip_factor, r) \<Rightarrow>
                             if skip_factor \<le> 0
                             then Some (Inr (r\<lparr>triesLeft := nat (- skip_factor)\<rparr>))
                             else case rnd util_rnd64 r of
                                    Inl e \<Rightarrow> Some (Inl e)
                                  | Inr (v, r) \<Rightarrow>
                                      if v mod of_int skip_factor = 0 then Some (Inr r)
                                      else pick_loop scans r)"

text \<open>\<open>TAILQ_REMOVE\<close>: the element keeps its next pointer.\<close>

definition tailq_remove :: "addr \<Rightarrow> (run_t, unit) hm" where
  "tailq_remove a =
     bnd (gets global) (\<lambda>h.
     if a \<notin> set (io_dynfileq h) then raise NullDeref
     else modify (\<lambda>r. r\<lparr>global := h\<lparr>
            io_stale_next := (io_stale_next h)(a := list_next (io_dynfileq h) a),
            io_dynfileq := remove1 a (io_dynfileq h)\<rparr>\<rparr>))"

text \<open>What follows the loop: the input is copied into the run and mutated.\<close>

definition load_input :: "bool \<Rightarrow> (run_t, bool) hm" where
  "load_input needs_mangle =
     bnd (gets run_current) (\<lambda>cur.
     bnd (or_fault NullDeref cur) (\<lambda>a.
     bnd (deref a) (\<lambda>df.
     bnd (input_setSize (d_size df)) (\<lambda>_.
     bnd (modify (\<lambda>r. r\<lparr>dynfile := (dynfile r)\<lparr>d_idx := d_idx df,
            d_timeExecUSecs := d_timeExecUSecs df, d_src := Some a, d_refs := 0,
            d_phase := fuzz_getState (global r), d_timedout := d_timedout df,
            d_imported := d_imported df, d_driver_id := d_driver_id df, d_cov := d_cov df,
            d_path := snprintf_cut PATH_MAX (d_path df)\<rparr>\<rparr>)) (\<lambda>_.
     bnd (or_fault OutOfBounds (buf_read (d_data df) 0 (d_size df))) (\<lambda>bs.
     bnd (writeIn 0 bs) (\<lambda>_.
     if d_imported df then
       bnd (tailq_remove a) (\<lambda>_.
       bnd (modify (\<lambda>r. r\<lparr>global := (global r)\<lparr>io_newUnitsAdded :=
              sz_sub (io_newUnitsAdded (global r)) 1\<rparr>, triesLeft := 0\<rparr>)) (\<lambda>_.
       ret True))
     else bnd (if needs_mangle then mangle_mangleContent else ret ()) (\<lambda>_. ret True))))))))"

definition input_prepareDynamicInput :: "bool \<Rightarrow> run_t \<Rightarrow> (fault + bool \<times> run_t) option" where
  "input_prepareDynamicInput needs_mangle r =
     (if io_dynfileqCnt (global r) = 0 then Some (Inl LogFatal)
      else case pick_loop 0 r of
             None \<Rightarrow> None
           | Some (Inl e) \<Rightarrow> Some (Inl e)
           | Some (Inr r') \<Rightarrow> Some (load_input needs_mangle r'))"

section \<open>Inputs from another directory\<close>

text \<open>
  \<open>input_dynamicQueueGetNext\<close>: the path of the next regular file and what is left of
  the stream.
\<close>

fun input_dynamicQueueGetNext :: "fs_t \<Rightarrow> path \<Rightarrow> dir_ev list \<Rightarrow> (path \<times> dir_ev list) option"
where
  "input_dynamicQueueGetNext fs dir [] = None"
| "input_dynamicQueueGetNext fs dir (DIntr # es) = input_dynamicQueueGetNext fs dir es"
| "input_dynamicQueueGetNext fs dir (DError # es) = None"
| "input_dynamicQueueGetNext fs dir (DEntry name # es) =
     (case fs_stat fs (join_path dir name) of
        None \<Rightarrow> input_dynamicQueueGetNext fs dir es
      | Some (isreg, _) \<Rightarrow>
          if \<not> isreg then input_dynamicQueueGetNext fs dir es
          else Some (join_path dir name, es))"

lemma dynamicQueueGetNext_shorter:
  "input_dynamicQueueGetNext fs dir es = Some (p, es') \<Longrightarrow> length es' < length es"
proof (induction es)
  case (Cons ev es)
  then show ?case by (cases ev) (auto split: option.splits if_splits)
qed simp

text \<open>The temporary run of one file; \<open>r\<close> provides the clocks.\<close>

definition import_run :: "run_t \<Rightarrow> hfuzz_t \<Rightarrow> byte list \<Rightarrow> path \<Rightarrow> run_t" where
  "import_run r h bs fname = r\<lparr>global := h,
     dynfile := \<lparr>d_size = length bs, d_cov = [0xff, 0xff, 0xff, 0xff], d_idx = 0, d_driver_id = 0,
       d_timeExecUSecs = 1, d_path = fname, d_src = None, d_refs = 0, d_phase = STATE_UNSET,
       d_timedout = False, d_data = bs, d_imported = True\<rparr>,
     timeStartedUSecs := nowUSecs r - 1, tmOutSignaled := False\<rparr>"

definition unlink_file :: "path \<Rightarrow> hfuzz_t \<Rightarrow> hfuzz_t" where
  "unlink_file p h = h\<lparr>io_fs := (io_fs h)\<lparr>fs_files := (fs_files (io_fs h))(p := None)\<rparr>\<rparr>"

function import_loop :: "run_t \<Rightarrow> dir_ev list \<Rightarrow> hfuzz_t \<Rightarrow> fault + hfuzz_t" where
  "import_loop r es h =
     (case input_dynamicQueueGetNext (io_fs h) (snprintf_cut PATH_MAX (io_dynamicInputDir h)) es of
        None \<Rightarrow> Inr h
      | Some (fname, es') \<Rightarrow>
          (case fs_open (io_fs h) fname of
             None \<Rightarrow> import_loop r es' h
           | Some bs \<Rightarrow>
               if bs = [] then import_loop r es' h   \<comment> \<open>\<open>mmap\<close> of no bytes fails\<close>
               else case input_addDynamicInput (import_run r h bs fname) of
                      Inl e \<Rightarrow> Inl e
                    | Inr (_, r') \<Rightarrow> import_loop r es' (unlink_file fname (global r'))))"
  by pat_completeness auto
termination
  by (relation "measure (\<lambda>(r, es, h). length es)") (auto dest: dynamicQueueGetNext_shorter)

declare import_loop.simps [simp del]

definition input_enqueueDynamicInputs :: "run_t \<Rightarrow> hfuzz_t \<Rightarrow> fault + hfuzz_t" where
  "input_enqueueDynamicInputs r h =
     (case fs_dynamicDir (io_fs h) of
        None \<Rightarrow> Inr h
      | Some es \<Rightarrow> import_loop r es h)"

section \<open>Static and external inputs\<close>

definition input_shouldReadNewFile :: "(run_t, bool) hm" where
  "input_shouldReadNewFile =
     bnd (gets (\<lambda>r. fuzz_getState (global r))) (\<lambda>st. bnd (gets maxInputSz) (\<lambda>mx.
     if st \<noteq> STATE_DYNAMIC_DRY_RUN then bnd (input_setSize mx) (\<lambda>_. ret True)
     else bnd (gets staticFileTryMore) (\<lambda>more.
       if \<not> more then
         bnd (modify (\<lambda>r. r\<lparr>staticFileTryMore := True\<rparr>)) (\<lambda>_.
         bnd (input_setSize (min 4 mx)) (\<lambda>_. ret True))
       else bnd (gets inSize) (\<lambda>sz.
         let newsz = sz_mul sz 2
         in if newsz \<ge> mx then
              bnd (modify (\<lambda>r. r\<lparr>staticFileTryMore := False\<rparr>)) (\<lambda>_.
              bnd (input_setSize mx) (\<lambda>_. ret False))
            else bnd (input_setSize newsz) (\<lambda>_. ret False)))))"

definition setPath :: "path \<Rightarrow> run_t \<Rightarrow> run_t" where
  "setPath p r = r\<lparr>dynfile := (dynfile r)\<lparr>d_path := p\<rparr>\<rparr>"

text \<open>
  The loop that looks for a file that is not yet in the corpus; \<open>False\<close> when
  \<open>input_getNext\<close> has no file.
\<close>

partial_function (option) next_static_loop ::
  "bool \<Rightarrow> bool \<Rightarrow> run_t \<Rightarrow> (fault + bool \<times> run_t) option" where
  "next_static_loop rewind needs_mangle r =
     (case input_getNext rewind (global r) of
        None \<Rightarrow> None
      | Some (None, h) \<Rightarrow> Some (Inr (False, r\<lparr>global := h\<rparr>))
      | Some (Some (fname, flen), h) \<Rightarrow>
          let r = setPath fname (r\<lparr>global := h\<rparr>)
          in if needs_mangle then Some (Inr (True, r))
             else case input_inDynamicCorpus fname (min flen (inSize r)) h of
                    Inl e \<Rightarrow> Some (Inl e)
                  | Inr found \<Rightarrow>
                      if \<not> found then Some (Inr (True, r))
                      else next_static_loop rewind needs_mangle r)"

text \<open>\<open>files_readFileToBufMax\<close> of the named file into the input.\<close>

definition read_into_input :: "path \<Rightarrow> (run_t, nat option) hm" where
  "read_into_input p =
     bnd (gets (\<lambda>r. fs_open (io_fs (global r)) p)) (\<lambda>c.
     case c of
       None \<Rightarrow> ret None
     | Some bs \<Rightarrow> bnd (gets inSize) (\<lambda>sz.
         bnd (writeIn 0 (take sz bs)) (\<lambda>_. ret (Some (length (take sz bs))))))"

definition load_static :: "bool \<Rightarrow> (run_t, bool) hm" where
  "load_static needs_mangle =
     bnd (gets (\<lambda>r. join_path (inputDir (global r)) (d_path (dynfile r)))) (\<lambda>p.
     bnd (read_into_input p) (\<lambda>res.
     case res of
       None \<Rightarrow> ret False
     | Some fileSz \<Rightarrow>
         bnd (modify (\<lambda>r. if staticFileTryMore r \<and> fileSz < inSize r
                          then r\<lparr>staticFileTryMore := False\<rparr> else r)) (\<lambda>_.
         bnd (input_setSize fileSz) (\<lambda>_.
         bnd (modify (\<lambda>r. r\<lparr>dynfile := (dynfile r)\<lparr>d_cov := [0, 0, 0, 0], d_idx := 0,
                d_src := None, d_refs := 0, d_phase := fuzz_getState (global r),
                d_timedout := False\<rparr>\<rparr>)) (\<lambda>_.
         bnd (if needs_mangle then mangle_mangleContent else ret ()) (\<lambda>_. ret True))))))"

definition input_prepareStaticFile :: "bool \<Rightarrow> bool \<Rightarrow> run_t \<Rightarrow> (fault + bool \<times> run_t) option" where
  "input_prepareStaticFile rewind needs_mangle r =
     (case input_shouldReadNewFile r of
        Inl e \<Rightarrow> Some (Inl e)
      | Inr (fresh, r) \<Rightarrow>
          if \<not> fresh then Some (load_static needs_mangle r)
          else case next_static_loop rewind needs_mangle r of
                 None \<Rightarrow> None
               | Some (Inl e) \<Rightarrow> Some (Inl e)
               | Some (Inr (found, r)) \<Rightarrow>
                   if \<not> found then Some (Inr (False, r))
                   else Some (load_static needs_mangle
                     (r\<lparr>global := (global r)\<lparr>io_testedFileCnt :=
                         sz_add (io_testedFileCnt (global r)) 1\<rparr>\<rparr>)))"

definition input_removeStaticFile :: "path \<Rightarrow> path \<Rightarrow> hfuzz_t \<Rightarrow> bool \<times> hfuzz_t" where
  "input_removeStaticFile dir name h =
     (let p = join_path dir name
      in if fs_files (io_fs h) p = None then (False, h) else (True, unlink_file p h))"

text \<open>
  The external command is a parameter: it gets the bytes of the temporary file and leaves
  other bytes in it, or fails (\<open>None\<close>, also when the temporary file cannot be made).
\<close>

definition read_tmp_file :: "byte list option \<Rightarrow> (run_t, bool) hm" where
  "read_tmp_file res =
     (case res of
        None \<Rightarrow> ret False
      | Some bs \<Rightarrow>
          bnd (gets maxInputSz) (\<lambda>mx.
          bnd (input_setSize mx) (\<lambda>_.
          bnd (writeIn 0 (take mx bs)) (\<lambda>_.
          bnd (input_setSize (length (take mx bs))) (\<lambda>_. ret True)))))"

definition input_prepareExternalFile :: "(byte list \<Rightarrow> byte list option) \<Rightarrow> (run_t, bool) hm" where
  "input_prepareExternalFile cmd =
     bnd (modify (setPath (str ''[EXTERNAL]''))) (\<lambda>_. read_tmp_file (cmd []))"

definition input_postProcessFile :: "(byte list \<Rightarrow> byte list option) \<Rightarrow> (run_t, bool) hm" where
  "input_postProcessFile cmd =
     bnd (gets inSize) (\<lambda>sz. bnd (readIn 0 sz) (\<lambda>bs. read_tmp_file (cmd bs)))"

end
