(* ===== verification/HF_Queue.thy ===== *)
theory HF_Queue
  imports HF_Input
begin

text \<open>
  The dynamic queue of \<open>honggfuzz/input.c\<close> as an ordered queue. A locale states what an
  order on items must satisfy for the walk of \<open>input_addDynamicInput\<close> to keep a queue
  sorted; it is interpreted on the comparison of coverage, and the operation on the linked
  list of addresses is shown to refine the insertion into a list of coverages.
\<close>

section \<open>Insertion before the first worse item\<close>

primrec ins_before :: "('a \<Rightarrow> 'a \<Rightarrow> bool) \<Rightarrow> 'a \<Rightarrow> 'a list \<Rightarrow> 'a list" where
  "ins_before better x [] = [x]"
| "ins_before better x (y # ys) = (if better x y then x # y # ys else y # ins_before better x ys)"

lemma set_ins_before [simp]: "set (ins_before better x ys) = insert x (set ys)"
  by (induction ys) auto

lemma mset_ins_before: "mset (ins_before better x ys) = add_mset x (mset ys)"
  by (induction ys) auto

lemma length_ins_before [simp]: "length (ins_before better x ys) = Suc (length ys)"
  by (induction ys) auto

text \<open>
  A strict order on the items of a carrier in which \<open>not better\<close> is transitive: equally
  good items need not be equal.
\<close>

locale item_order =
  fixes item :: "'a \<Rightarrow> bool" and better :: "'a \<Rightarrow> 'a \<Rightarrow> bool"
  assumes better_asym: "item x \<Longrightarrow> item y \<Longrightarrow> better x y \<Longrightarrow> \<not> better y x"
    and not_better_trans:
      "item x \<Longrightarrow> item y \<Longrightarrow> item z \<Longrightarrow> \<not> better x y \<Longrightarrow> \<not> better y z \<Longrightarrow> \<not> better x z"
begin

lemma better_not_worse_trans:
  assumes "item x" "item y" "item z" and "better x y" and "\<not> better z y"
  shows "\<not> better z x"
  using assms better_asym not_better_trans by blast

lemma ins_before_sorted:
  assumes "item x" and "\<forall>y\<in>set ys. item y" and "sorted_wrt (\<lambda>a b. \<not> better b a) ys"
  shows "sorted_wrt (\<lambda>a b. \<not> better b a) (ins_before better x ys)"
  using assms(2,3)
proof (induction ys)
  case Nil
  then show ?case by simp
next
  case (Cons y ys)
  show ?case
  proof (cases "better x y")
    case True
    then have "\<not> better z x" if "z \<in> set (y # ys)" for z
      using that Cons.prems better_not_worse_trans [OF assms(1) _ _ True] better_asym [OF assms(1) _ True]
      by auto
    with True Cons.prems show ?thesis by simp
  next
    case False
    with Cons show ?thesis by simp
  qed
qed

lemma ins_before_position:
  assumes "item x" and "\<forall>y\<in>set ys. item y" and "sorted_wrt (\<lambda>a b. \<not> better b a) ys"
  shows "ins_before better x ys =
    filter (\<lambda>y. \<not> better x y) ys @ x # filter (\<lambda>y. better x y) ys"
  using assms(2,3)
proof (induction ys)
  case Nil
  then show ?case by simp
next
  case (Cons y ys)
  show ?case
  proof (cases "better x y")
    case True
    have "better x z" if "z \<in> set ys" for z
    proof (rule ccontr)
      assume "\<not> better x z"
      moreover have "\<not> better z y" using that Cons.prems by simp
      ultimately show False
        using not_better_trans [of x z y] True that Cons.prems assms(1) by simp
    qed
    then have "filter (\<lambda>z. \<not> better x z) ys = []" "filter (better x) ys = ys"
      by (auto simp: filter_empty_conv intro: filter_True)
    with True show ?thesis by simp
  next
    case False
    with Cons show ?thesis by simp
  qed
qed

end

section \<open>The order by coverage\<close>

lemma cov_gt_asym: "length a = length b \<Longrightarrow> cov_gt a b \<Longrightarrow> \<not> cov_gt b a"
  by (induction a b rule: cov_gt.induct) (auto split: if_splits)

lemma cov_gt_not_trans:
  "length a = length b \<Longrightarrow> length b = length c \<Longrightarrow> \<not> cov_gt a b \<Longrightarrow> \<not> cov_gt b c \<Longrightarrow> \<not> cov_gt a c"
proof (induction a b c rule: list_induct3)
  case (Cons x xs y ys z zs)
  then show ?case by (simp split: if_splits) (metis linorder_cases less_trans)+
qed simp

interpretation cov: item_order "\<lambda>c. length c = 4" cov_gt
proof unfold_locales
  fix x y z :: "u64 list"
  assume len: "length x = 4" "length y = 4"
  show "\<not> cov_gt y x" if "cov_gt x y" using that cov_gt_asym [of x y] len by simp
  show "\<not> cov_gt x z" if "length z = 4" "\<not> cov_gt x y" "\<not> cov_gt y z"
    using that cov_gt_not_trans [of x y z] len by simp
qed

section \<open>The queue and its invariant\<close>

definition covs :: "hfuzz_t \<Rightarrow> u64 list list" where
  "covs h = map (\<lambda>a. d_cov (the (io_store h a))) (io_dynfileq h)"

text \<open>
  Every file that was ever enqueued is within the recorded maxima (\<open>queue_wf\<close>), and the queue is
  sorted (\<open>by_cov\<close>). Selecting an input needs the first only.
\<close>

definition queue_wf :: "hfuzz_t \<Rightarrow> bool" where
  "queue_wf h \<longleftrightarrow>
     store_ok h \<and> length (feedback_maxCov h) = 4 \<and> length (io_dynfileq h) \<le> io_dynfileqCnt h \<and>
     (\<forall>a df. io_store h a = Some df \<longrightarrow>
        d_idx df \<le> io_dynfileqCnt h \<and> (\<forall>i<4. d_cov df ! i \<le> feedback_maxCov h ! i))"

definition by_cov :: "hfuzz_t \<Rightarrow> bool" where
  "by_cov h \<longleftrightarrow> sorted_wrt (\<lambda>c d. \<not> cov_gt d c) (covs h)"

definition queue_ok :: "hfuzz_t \<Rightarrow> bool" where
  "queue_ok h \<longleftrightarrow> queue_wf h \<and> by_cov h"

lemmas queue_ok_defs = queue_ok_def queue_wf_def by_cov_def

lemma insert_by_cov_refines:
  assumes "set q \<subseteq> dom st" and "a \<notin> set q"
  shows "\<exists>q'. insert_by_cov st df a q = Inr q' \<and> mset q' = add_mset a (mset q) \<and>
    map (\<lambda>x. d_cov (the ((st(a \<mapsto> df)) x))) q' =
      ins_before cov_gt (d_cov df) (map (\<lambda>x. d_cov (the (st x))) q)"
  using assms
proof (induction q)
  case Nil
  then show ?case by simp
next
  case (Cons x q)
  then obtain it where it: "st x = Some it" by auto
  from Cons obtain q' where q': "insert_by_cov st df a q = Inr q'" "mset q' = add_mset a (mset q)"
    "map (\<lambda>x. d_cov (the ((st(a \<mapsto> df)) x))) q' =
      ins_before cov_gt (d_cov df) (map (\<lambda>x. d_cov (the (st x))) q)" by auto
  have "map (\<lambda>x. d_cov (the ((st(a \<mapsto> df)) x))) q = map (\<lambda>x. d_cov (the (st x))) q"
    using Cons.prems by (intro map_cong) auto
  with it q' Cons.prems show ?case by (simp add: input_cmpCov_def)
qed

text \<open>Counting a reference changes neither the order nor the bounds.\<close>

lemma bump_refs_ok:
  assumes "queue_ok h" and "\<And>a. src = Some a \<Longrightarrow> a \<in> dom (io_store h)"
  shows "\<exists>st. bump_refs src h = Inr (h\<lparr>io_store := st\<rparr>) \<and> queue_ok (h\<lparr>io_store := st\<rparr>) \<and>
    covs (h\<lparr>io_store := st\<rparr>) = covs h \<and> dom st = dom (io_store h)"
proof (cases src)
  case None
  then show ?thesis using assms(1) by (intro exI [of _ "io_store h"]) (simp add: bump_refs_def)
next
  case (Some a)
  then obtain f where f: "io_store h a = Some f" using assms(2) by blast
  let ?st = "(io_store h)(a \<mapsto> f\<lparr>d_refs := d_refs f + 1\<rparr>)"
  have ok: "store_ok (h\<lparr>io_store := ?st\<rparr>)"
    using assms(1) f by (auto simp: queue_ok_defs store_ok_def file_ok_def)
  have cov: "covs (h\<lparr>io_store := ?st\<rparr>) = covs h"
    using f by (auto simp: covs_def)
  have "queue_ok (h\<lparr>io_store := ?st\<rparr>)"
    using assms(1) f ok cov by (auto simp: queue_ok_defs)
  with ok cov f Some show ?thesis by (intro exI [of _ ?st]) (auto simp: bump_refs_def)
qed

definition enqueued :: "dynfile_t \<Rightarrow> addr list \<Rightarrow> hfuzz_t \<Rightarrow> hfuzz_t" where
  "enqueued df q h = h\<lparr>io_dynfileqCnt := io_dynfileqCnt h + 1,
     feedback_maxCov := map2 max (feedback_maxCov h) (d_cov df),
     io_dynfileqMaxSz := max (io_dynfileqMaxSz h) (d_size df),
     io_store := (io_store h)(io_brk h \<mapsto> df), io_brk := io_brk h + 1, io_dynfileq := q\<rparr>"

lemma enqueued_store_ok:
  assumes "store_ok h" and "file_ok df" and "mset q = add_mset (io_brk h) (mset (io_dynfileq h))"
  shows "store_ok (enqueued df q h)"
proof -
  have q: "set q = insert (io_brk h) (set (io_dynfileq h))"
    using arg_cong [OF assms(3), of set_mset] by simp
  have fresh: "io_brk h \<notin> dom (io_store h)" using assms(1) by (auto simp: store_ok_def)
  then have "distinct q"
    using assms(1) mset_eq_imp_distinct_iff [of q "io_brk h # io_dynfileq h"] assms(3)
    by (auto simp: store_ok_def)
  moreover have "\<forall>a\<in>dom (io_store h). a < io_brk h + 1"
    using assms(1) by (auto simp: store_ok_def less_Suc_eq)
  ultimately show ?thesis
    using assms(1,2) q by (auto simp: store_ok_def enqueued_def)
qed

lemma enqueue_refines:
  assumes ok: "queue_ok h" and df: "file_ok df" and cnt: "io_dynfileqCnt h < 2 ^ 64 - 1"
  shows "\<exists>q. enqueue df h = Inr (df\<lparr>d_idx := io_dynfileqCnt h + 1\<rparr>,
        enqueued (df\<lparr>d_idx := io_dynfileqCnt h + 1\<rparr>) q h) \<and>
      queue_ok (enqueued (df\<lparr>d_idx := io_dynfileqCnt h + 1\<rparr>) q h) \<and>
      covs (enqueued (df\<lparr>d_idx := io_dynfileqCnt h + 1\<rparr>) q h) =
        ins_before cov_gt (d_cov df) (covs h)"
proof -
  let ?df = "df\<lparr>d_idx := io_dynfileqCnt h + 1\<rparr>"
  have st: "store_ok h" and q: "set (io_dynfileq h) \<subseteq> dom (io_store h)"
    using ok by (auto simp: queue_ok_defs store_ok_def)
  have fresh: "io_brk h \<notin> set (io_dynfileq h)" using st q by (auto simp: store_ok_def)
  have fdf: "file_ok ?df" using df by (simp add: file_ok_def)
  from insert_by_cov_refines [OF q fresh, of ?df] obtain q' where
    q': "insert_by_cov (io_store h) ?df (io_brk h) (io_dynfileq h) = Inr q'"
      "mset q' = add_mset (io_brk h) (mset (io_dynfileq h))" and
    cov: "covs (enqueued ?df q' h) = ins_before cov_gt (d_cov df) (covs h)"
    by (auto simp: covs_def enqueued_def)
  have len: "length (d_cov df) = 4" "length (feedback_maxCov h) = 4"
    using df ok by (auto simp: file_ok_def queue_ok_defs)
  have covlen: "\<forall>c\<in>set (covs h). length c = 4"
    using st q by (auto simp: covs_def store_ok_def file_ok_def)
  have sorted: "sorted_wrt (\<lambda>c d. \<not> cov_gt d c) (covs (enqueued ?df q' h))"
    unfolding cov using ok len covlen by (intro cov.ins_before_sorted) (auto simp: queue_ok_defs)
  have "queue_ok (enqueued ?df q' h)"
    unfolding queue_ok_defs
  proof (intro conjI allI impI)
    show "store_ok (enqueued ?df q' h)" by (rule enqueued_store_ok [OF st fdf q'(2)])
    show "length (io_dynfileq (enqueued ?df q' h)) \<le> io_dynfileqCnt (enqueued ?df q' h)"
      using ok arg_cong [OF q'(2), of size] by (simp add: enqueued_def queue_ok_defs)
  qed (use ok len sorted in \<open>auto simp: enqueued_def queue_ok_defs le_max_iff_disj intro: le_SucI
      split: if_splits\<close>)
  moreover have "enqueue df h = Inr (?df, enqueued ?df q' h)"
    using q'(1) cnt by (simp add: enqueue_def Let_def enqueued_def hf_sz)
  ultimately show ?thesis using cov by blast
qed

lemma queue_ok_save [simp]:
  "queue_ok (save_cov_files df h) \<longleftrightarrow> queue_ok h" "covs (save_cov_files df h) = covs h"
  by (auto simp: save_cov_files_def Let_def queue_ok_defs covs_def store_ok_def)

section \<open>Properties\<close>

text \<open>C5: \<open>input_addDynamicInput\<close> refines the insertion into a list that is sorted by
  coverage. From a queue that satisfies its invariant (sorted, pointers into the store, every
  input within the recorded maxima), it ends without a fault, the coverages in the queue are
  those before with the new one put behind all that are at least as good and before all that
  are worse, the invariant holds again, and the run's own input is unchanged.\<close>

theorem input_addDynamicInput_refines:
  assumes "queue_ok (global r)" and "file_ok (dynfile r)"
    and "\<forall>a. d_src (dynfile r) = Some a \<longrightarrow> a \<in> dom (io_store (global r))"
    and "io_dynfileqCnt (global r) < 2 ^ 64 - 1"
  shows "\<exists>s. input_addDynamicInput r = Inr ((), s) \<and> queue_ok (global s) \<and>
    dynfile s = dynfile r \<and>
    covs (global s) = filter (\<lambda>c. \<not> cov_gt (d_cov (dynfile r)) c) (covs (global r)) @
      d_cov (dynfile r) # filter (\<lambda>c. cov_gt (d_cov (dynfile r)) c) (covs (global r))"
proof -
  define h0 where "h0 = (global r)\<lparr>timing_lastCovUpdate := now r\<rparr>"
  define df where "df = new_dynfile (r\<lparr>global := h0\<rparr>)"
  have h0: "queue_ok h0" "covs h0 = covs (global r)" "io_store h0 = io_store (global r)"
      "io_dynfileqCnt h0 = io_dynfileqCnt (global r)"
    using assms(1) by (auto simp: h0_def queue_ok_defs covs_def store_ok_def)
  have df: "file_ok df" "d_cov df = d_cov (dynfile r)"
    using assms(2) by (auto simp: df_def new_dynfile_def file_ok_def Let_def)
  from bump_refs_ok [OF h0(1), of "d_src (dynfile r)"] assms(3) h0(3) obtain st where
    b: "bump_refs (d_src (dynfile r)) h0 = Inr (h0\<lparr>io_store := st\<rparr>)" "queue_ok (h0\<lparr>io_store := st\<rparr>)"
      "covs (h0\<lparr>io_store := st\<rparr>) = covs (global r)" using h0(2) by auto
  from enqueue_refines [OF b(2) df(1)] assms(4) h0(4) obtain df' h' where
    e: "enqueue df (h0\<lparr>io_store := st\<rparr>) = Inr (df', h')" "queue_ok h'"
      "covs h' = ins_before cov_gt (d_cov (dynfile r)) (covs (global r))"
    using b(3) df(2) by auto
  have "input_addDynamicInput r = Inr ((), r\<lparr>global := save_cov_files df' h'\<rparr>)"
    using b(1) e(1) by (simp add: input_addDynamicInput_def Let_def flip: h0_def df_def)
  moreover have "ins_before cov_gt (d_cov (dynfile r)) (covs (global r)) =
      filter (\<lambda>c. \<not> cov_gt (d_cov (dynfile r)) c) (covs (global r)) @
      d_cov (dynfile r) # filter (\<lambda>c. cov_gt (d_cov (dynfile r)) c) (covs (global r))"
    using assms(1,2)
    by (intro cov.ins_before_position)
       (auto simp: queue_ok_defs file_ok_def store_ok_def covs_def)
  ultimately show ?thesis using e by simp
qed

theorem input_addDynamicInput_refines_witness:
  "\<exists>s. input_addDynamicInput (demo_run [1, 2]) = Inr ((), s) \<and> queue_ok (global s) \<and>
    dynfile s = dynfile (demo_run [1, 2]) \<and> covs (global s) = [[0, 0, 0, 0]]"
  using input_addDynamicInput_refines [of "demo_run [1, 2]"]
  by (simp add: queue_ok_defs store_ok_def file_ok_def covs_def demo_run_def demo_global_def
      demo_file_def HF_INPUT_MAX_SIZE_def)

end
