(* ===== verification/HF_Select.thy ===== *)
theory HF_Select
  imports HF_Queue
begin

text \<open>
  The choice of the next input from the queue (\<open>input_skipFactor\<close> and
  \<open>input_prepareDynamicInput\<close> of \<open>honggfuzz/input.c\<close>): the indices into the two tables
  stay inside them, the penalty is bounded, the choice is safe, and how it depends on the speed
  of an input.
\<close>

section \<open>The penalties\<close>

lemma covScaleMap_entry: "i < 200 \<Longrightarrow> \<exists>v. buf_get covScaleMap i = Some v \<and> - 10 \<le> v \<and> v \<le> 2"
proof -
  assume i: "i < 200"
  have len: "length covScaleMap = 200" by (simp add: covScaleMap_def)
  have "\<forall>v\<in>set covScaleMap. - 10 \<le> v \<and> v \<le> 2" by (simp add: covScaleMap_def)
  then show ?thesis using i len nth_mem [of i covScaleMap] by (auto simp: hf_buf)
qed

lemma ageScaleMap_entry: "i < 200 \<Longrightarrow> \<exists>v. buf_get ageScaleMap i = Some v \<and> - 20 \<le> v \<and> v \<le> 2"
proof -
  assume i: "i < 200"
  have len: "length ageScaleMap = 200" by (simp add: ageScaleMap_def)
  have "\<forall>v\<in>set ageScaleMap. - 20 \<le> v \<and> v \<le> 2" by (simp add: ageScaleMap_def)
  then show ?thesis using i len nth_mem [of i ageScaleMap] by (auto simp: hf_buf)
qed

lemma percent_le: "(c :: nat) \<le> m \<Longrightarrow> (c * 100) mod k div m \<le> 100"
proof -
  assume "c \<le> m"
  have "(c * 100) mod k div m \<le> (c * 100) div m" by (intro div_le_mono mod_less_eq_dividend)
  also have "\<dots> \<le> (m * 100) div m" using \<open>c \<le> m\<close> by (intro div_le_mono) simp
  also have "\<dots> \<le> 100" by (cases "m = 0") simp_all
  finally show ?thesis .
qed

lemma HF_CAP_range: "x \<le> y \<Longrightarrow> x \<le> HF_CAP v x y \<and> HF_CAP v x y \<le> y"
  by (simp add: HF_CAP_def)

lemma cov_percentile:
  assumes "cov0 \<le> maxCov0"
  shows "unat (ucast (cov0 * 100 div maxCov0 :: u64) :: u32) < 200"
proof -
  have "unat (cov0 * 100 div maxCov0) = (unat cov0 * 100) mod 2 ^ 64 div unat maxCov0"
    by (simp add: unat_div unat_word_ariths)
  also have "\<dots> \<le> 100" using assms by (intro percent_le) (simp add: word_le_nat_alt)
  finally have "unat (cov0 * 100 div maxCov0) \<le> 100" .
  then show ?thesis by (simp add: unsigned_ucast_eq take_bit_eq_mod)
qed

lemma cov_penalty_ok:
  assumes "d_cov df \<noteq> []" and "feedback_maxCov (global r) \<noteq> []"
    and "d_cov df ! 0 \<le> feedback_maxCov (global r) ! 0"
  shows "\<exists>v. cov_penalty df r = Inr (v, r) \<and> - 10 \<le> v \<and> v \<le> 2"
proof -
  have "buf_get (feedback_maxCov (global r)) 0 = Some (feedback_maxCov (global r) ! 0)"
      "buf_get (d_cov df) 0 = Some (d_cov df ! 0)" using assms(1,2) by (simp_all add: hf_buf)
  with covScaleMap_entry [OF cov_percentile [OF assms(3)]] show ?thesis
    by (auto simp: cov_penalty_def bnd_def gets_def or_fault_def ret_def Let_def)
qed

lemma age_penalty_ok:
  assumes "d_idx df \<le> io_dynfileqCnt (global r)" and "io_dynfileqCnt (global r) \<noteq> 0"
  shows "\<exists>v. age_penalty df r = Inr (v, r) \<and> - 20 \<le> v \<and> v \<le> 2"
proof -
  let ?p = "sz_mul (d_idx df) 100 div io_dynfileqCnt (global r) mod 2 ^ 32"
  have "sz_mul (d_idx df) 100 div io_dynfileqCnt (global r) \<le> 100"
    unfolding sz_mul_def by (rule percent_le [OF assms(1)])
  then have "?p < 200" by simp
  with ageScaleMap_entry [of ?p] assms(2) show ?thesis
    by (auto simp: age_penalty_def bnd_def gets_def or_fault_def ret_def Let_def)
qed

lemma size_penalty_ok:
  assumes "d_size df < 2 ^ 32"
  shows "\<exists>v. size_penalty df = Inr v \<and> - 5 \<le> v \<and> v \<le> 5"
  using assms HF_CAP_range [of "- 5" 5] by (auto simp: size_penalty_def util_Log2_def Let_def)

lemma speedFactor_ok:
  assumes "cnts_mutationsCnt (global r) \<noteq> 0" and "threads_threadsMax (global r) \<noteq> 0"
  shows "\<exists>v. input_speedFactor df r = Inr (v, r)"
  using assms by (simp add: input_speedFactor_def bnd_def gets_def ret_def Let_def)

text \<open>What the penalties rely on, for an input of the store.\<close>

definition counters_ok :: "hfuzz_t \<Rightarrow> bool" where
  "counters_ok h \<longleftrightarrow> cnts_mutationsCnt h \<noteq> 0 \<and> threads_threadsMax h \<noteq> 0 \<and> io_dynfileqCnt h \<noteq> 0"

lemma skipFactor_ok:
  assumes q: "queue_wf (global r)" and c: "counters_ok (global r)" and df: "io_store (global r) a = Some df"
  shows "\<exists>k. input_skipFactor df r = Inr (k, r) \<and> - 55 \<le> k \<and> k \<le> 71"
proof -
  have f: "file_ok df" using q df by (auto simp: queue_wf_def store_ok_def)
  then have "d_size df < 2 ^ 32" by (simp add: file_ok_def HF_INPUT_MAX_SIZE_def)
  then obtain sp where sp: "size_penalty df = Inr sp" "- 5 \<le> sp" "sp \<le> 5"
    using size_penalty_ok by blast
  obtain sf where sf: "input_speedFactor df r = Inr (sf, r)"
    using speedFactor_ok c by (auto simp: counters_ok_def)
  have "\<exists>v. cov_penalty df r = Inr (v, r) \<and> - 10 \<le> v \<and> v \<le> 2"
    using q df f by (intro cov_penalty_ok) (auto simp: queue_wf_def file_ok_def)
  then obtain cp where cp: "cov_penalty df r = Inr (cp, r)" "- 10 \<le> cp" "cp \<le> 2" by blast
  obtain ap where ap: "age_penalty df r = Inr (ap, r)" "- 20 \<le> ap" "ap \<le> 2"
    using age_penalty_ok [of df r] q c df by (auto simp: queue_wf_def counters_ok_def)
  show ?thesis
    using sp sf cp ap HF_CAP_range [of "- 10" 10 sf] HF_CAP_range [of "- 10" 2 "2 - sint (d_refs df)"]
    by (auto simp: input_skipFactor_def bnd_def ret_def Let_def refs_penalty_def)
qed

text \<open>The factor for the speed grows with the time of the input.\<close>

lemma speed_mono:
  fixes avg s s' :: int
  assumes "1 \<le> avg" and "1 \<le> s" and "s \<le> s'"
  shows "(if s \<ge> avg then s div avg else - (avg div s)) \<le> (if s' \<ge> avg then s' div avg else - (avg div s'))"
proof -
  have "s div avg \<le> s' div avg" using assms by (intro zdiv_mono1) auto
  moreover have "avg div s' \<le> avg div s" using assms by (intro zdiv_mono2) auto
  moreover have "0 \<le> s' div avg" "0 \<le> avg div s" using assms by (auto intro: pos_imp_zdiv_nonneg_iff [THEN iffD2])
  ultimately show ?thesis using assms(3) by auto
qed

lemma HF_CAP_mono: "v \<le> w \<Longrightarrow> HF_CAP v x y \<le> HF_CAP w x y"
  by (auto simp: HF_CAP_def)

lemma speedFactor_mono:
  assumes "unat (d_timeExecUSecs df) \<le> unat (d_timeExecUSecs df')"
    and "input_speedFactor df r = Inr (v, s)" and "input_speedFactor df' r = Inr (v', s')"
  shows "v \<le> v'"
proof -
  define avg where "avg = HF_CAP (int (unat (of_int (now r - timing_timeStart (global r)) * 1000000 :: u64)
    div cnts_mutationsCnt (global r) div threads_threadsMax (global r))) 1 1000000"
  have "1 \<le> avg" using HF_CAP_range [of 1 1000000] by (simp add: avg_def)
  moreover have "1 \<le> HF_CAP (int (unat (d_timeExecUSecs df))) 1 1000000"
    using HF_CAP_range [of 1 1000000] by simp
  moreover have "HF_CAP (int (unat (d_timeExecUSecs df))) 1 1000000 \<le>
      HF_CAP (int (unat (d_timeExecUSecs df'))) 1 1000000"
    using assms(1) by (intro HF_CAP_mono of_nat_mono)
  ultimately have "(if HF_CAP (int (unat (d_timeExecUSecs df))) 1 1000000 \<ge> avg
       then HF_CAP (int (unat (d_timeExecUSecs df))) 1 1000000 div avg
       else - (avg div HF_CAP (int (unat (d_timeExecUSecs df))) 1 1000000)) \<le>
     (if HF_CAP (int (unat (d_timeExecUSecs df'))) 1 1000000 \<ge> avg
       then HF_CAP (int (unat (d_timeExecUSecs df'))) 1 1000000 div avg
       else - (avg div HF_CAP (int (unat (d_timeExecUSecs df'))) 1 1000000))"
    by (rule speed_mono)
  with assms(2,3) show ?thesis
    unfolding input_speedFactor_def bnd_def gets_def Let_def
    by (simp only: sum.case prod.case avg_def [symmetric] split: if_splits) (simp add: raise_def ret_def)+
qed

text \<open>The factor is only read off the state.\<close>

lemma speedFactor_pure: "input_speedFactor df r = Inr (v, s) \<Longrightarrow> s = r"
  by (simp add: input_speedFactor_def bnd_def gets_def ret_def raise_def Let_def split: if_splits)

lemma cov_penalty_pure: "cov_penalty df r = Inr (v, s) \<Longrightarrow> s = r"
  by (auto simp: cov_penalty_def bnd_def gets_def ret_def raise_def or_fault_def Let_def
      split: if_splits option.splits sum.splits)

lemma age_penalty_pure: "age_penalty df r = Inr (v, s) \<Longrightarrow> s = r"
  by (auto simp: age_penalty_def bnd_def gets_def ret_def raise_def or_fault_def Let_def
      split: if_splits option.splits)

lemma skipFactor_parts:
  assumes "input_skipFactor df r = Inr (k, s)"
  obtains sf cp ap sp where "input_speedFactor df r = Inr (sf, r)" "cov_penalty df r = Inr (cp, r)"
    "age_penalty df r = Inr (ap, r)" "size_penalty df = Inr sp" "s = r"
    "k = (if d_timedout df then 50 else 0) - HF_CAP sf (- 10) 10 + cp + ap + refs_penalty df + sp"
  using assms
  by (auto simp: input_skipFactor_def bnd_def ret_def raise_def Let_def split: sum.splits
      dest!: speedFactor_pure cov_penalty_pure age_penalty_pure)

lemma penalties_time [simp]:
  "cov_penalty (df\<lparr>d_timeExecUSecs := t\<rparr>) = cov_penalty df"
  "age_penalty (df\<lparr>d_timeExecUSecs := t\<rparr>) = age_penalty df"
  "size_penalty (df\<lparr>d_timeExecUSecs := t\<rparr>) = size_penalty df"
  by (simp_all add: cov_penalty_def age_penalty_def size_penalty_def cong: if_cong)

lemma skipFactor_antimono:
  assumes "unat (d_timeExecUSecs df) \<le> unat t"
    and "input_skipFactor df r = Inr (k, s)"
    and "input_skipFactor (df\<lparr>d_timeExecUSecs := t\<rparr>) r = Inr (k', s')"
  shows "k' \<le> k"
proof -
  from assms(2) obtain sf cp ap sp where f: "input_speedFactor df r = Inr (sf, r)"
      "cov_penalty df r = Inr (cp, r)" "age_penalty df r = Inr (ap, r)" "size_penalty df = Inr sp"
      "k = (if d_timedout df then 50 else 0) - HF_CAP sf (- 10) 10 + cp + ap + refs_penalty df + sp"
    by (rule skipFactor_parts)
  from assms(3) obtain sf' cp' ap' sp' where
    g: "input_speedFactor (df\<lparr>d_timeExecUSecs := t\<rparr>) r = Inr (sf', r)"
      "cov_penalty (df\<lparr>d_timeExecUSecs := t\<rparr>) r = Inr (cp', r)"
      "age_penalty (df\<lparr>d_timeExecUSecs := t\<rparr>) r = Inr (ap', r)"
      "size_penalty (df\<lparr>d_timeExecUSecs := t\<rparr>) = Inr sp'"
      "k' = (if d_timedout (df\<lparr>d_timeExecUSecs := t\<rparr>) then 50 else 0) - HF_CAP sf' (- 10) 10 + cp' +
        ap' + refs_penalty (df\<lparr>d_timeExecUSecs := t\<rparr>) + sp'"
    by (rule skipFactor_parts)
  have "sf \<le> sf'" using assms(1) by (intro speedFactor_mono [OF _ f(1) g(1)]) simp
  then have "HF_CAP sf (- 10) 10 \<le> HF_CAP sf' (- 10) 10" by (rule HF_CAP_mono)
  moreover have "cp' = cp" "ap' = ap" "sp' = sp" using f g by simp_all
  ultimately show ?thesis using f(5) g(5) by (simp add: refs_penalty_def)
qed

section \<open>The loop\<close>

text \<open>What the loop may change of a run.\<close>

definition picked :: "run_t \<Rightarrow> run_t \<Rightarrow> bool" where
  "picked r s \<longleftrightarrow> (\<exists>a df. run_current s = Some a \<and> io_store (global r) a = Some df \<and>
     (d_imported df \<longrightarrow> a \<in> set (io_dynfileq (global r)) \<and> io_dynfileqCurrent (global s) \<noteq> Some a)) \<and>
     (\<forall>c. io_dynfileqCurrent (global s) = Some c \<longrightarrow> c \<in> set (io_dynfileq (global r))) \<and>
     s = r\<lparr>global := (global r)\<lparr>io_dynfileqCurrent := io_dynfileqCurrent (global s)\<rparr>,
       rnd_gen := rnd_gen s, triesLeft := triesLeft s, run_current := run_current s\<rparr>"

text \<open>The invariant of the choice, for one thread.\<close>

definition select_inv :: "run_t \<Rightarrow> bool" where
  "select_inv r \<longleftrightarrow> queue_wf (global r) \<and> counters_ok (global r) \<and> io_dynfileq (global r) \<noteq> [] \<and>
     (\<forall>c. io_dynfileqCurrent (global r) = Some c \<longrightarrow> c \<in> set (io_dynfileq (global r))) \<and>
     (triesLeft r \<noteq> 0 \<longrightarrow> (\<exists>a df. run_current r = Some a \<and> io_store (global r) a = Some df \<and>
        \<not> d_imported df))"

lemma list_next_neq: "distinct q \<Longrightarrow> list_next q a = Some b \<Longrightarrow> b \<noteq> a"
  by (induction q a rule: list_next.induct) (auto split: if_splits dest: list_next_in)

lemma tailq_next_in_queue:
  "a \<in> set (io_dynfileq h) \<Longrightarrow> tailq_next h a = Some b \<Longrightarrow> b \<in> set (io_dynfileq h)"
  by (auto simp: tailq_next_def dest: list_next_in)

lemma queue_wf_cursor:
  "queue_wf h \<Longrightarrow> (\<And>a. c = Some a \<Longrightarrow> a \<in> dom (io_store h)) \<Longrightarrow>
   queue_wf (h\<lparr>io_dynfileqCurrent := c\<rparr>)"
  by (auto simp: queue_wf_def store_ok_def covs_def)

text \<open>One pass through the loop, up to the choice.\<close>

definition advance :: "run_t \<Rightarrow> addr \<Rightarrow> run_t" where
  "advance r a = r\<lparr>run_current := Some a,
     global := (global r)\<lparr>io_dynfileqCurrent := tailq_next (global r) a\<rparr>\<rparr>"

definition cursor :: "hfuzz_t \<Rightarrow> addr option" where
  "cursor h = (if io_dynfileqCurrent h = None then tailq_first h else io_dynfileqCurrent h)"

lemma tailq_next_cursor [simp]: "tailq_next (h\<lparr>io_dynfileqCurrent := c\<rparr>) = tailq_next h"
  by (simp add: tailq_next_def fun_eq_iff)

lemma advance_inv:
  assumes inv: "select_inv r" and c: "cursor (global r) = Some a" and "triesLeft r = 0"
  shows "select_inv (advance r a)" "a \<in> set (io_dynfileq (global r))"
    "io_dynfileqCurrent (global (advance r a)) \<noteq> Some a"
proof -
  have q: "queue_wf (global r)" "distinct (io_dynfileq (global r))"
      "set (io_dynfileq (global r)) \<subseteq> dom (io_store (global r))"
    using inv by (auto simp: select_inv_def queue_wf_def store_ok_def)
  show a: "a \<in> set (io_dynfileq (global r))"
    using c inv by (auto simp: cursor_def select_inv_def dest: tailq_first_in split: if_splits)
  then have n: "b \<in> set (io_dynfileq (global r))" "b \<noteq> a" if "tailq_next (global r) a = Some b" for b
    using that tailq_next_in_queue [OF a that] list_next_neq [OF q(2)] a
    by (auto simp: tailq_next_def)
  then show "select_inv (advance r a)"
    using inv assms(3) q
    by (auto simp: select_inv_def advance_def counters_ok_def intro!: queue_wf_cursor)
  show "io_dynfileqCurrent (global (advance r a)) \<noteq> Some a" using n(2) by (auto simp: advance_def)
qed

lemma select_inv_cursor:
  assumes "select_inv r"
  shows "\<exists>a df. cursor (global r) = Some a \<and> a \<in> set (io_dynfileq (global r)) \<and>
    io_store (global r) a = Some df"
proof -
  obtain a where a: "cursor (global r) = Some a"
    using assms
    by (cases "cursor (global r)") (auto simp: cursor_def select_inv_def tailq_first_None split: if_splits)
  then have "a \<in> set (io_dynfileq (global r))"
    using assms by (auto simp: cursor_def select_inv_def dest: tailq_first_in split: if_splits)
  with a show ?thesis using assms by (auto simp: select_inv_def queue_wf_def store_ok_def)
qed

lemma cursor_eq:
  "cursor h = Some a \<Longrightarrow>
   (if io_dynfileqCurrent h = None then h\<lparr>io_dynfileqCurrent := tailq_first h\<rparr> else h) =
     h\<lparr>io_dynfileqCurrent := Some a\<rparr>"
  by (cases h) (auto simp: cursor_def)

lemma advance_eq:
  "r\<lparr>global := h, run_current := Some a,
     global := (global r)\<lparr>io_dynfileqCurrent := tailq_next (global r) a\<rparr>\<rparr> = advance r a"
  by (simp add: advance_def)

lemma pick_loop_step:
  assumes inv: "select_inv r" and "\<not> drv_independentQueue (global r)"
  shows "pick_loop scans r =
    (if triesLeft r \<noteq> 0
     then Some (Inr (r\<lparr>global := (global r)\<lparr>io_dynfileqCurrent := cursor (global r)\<rparr>, triesLeft := triesLeft r - 1\<rparr>))
     else let a = the (cursor (global r)); df = the (io_store (global r) a); r = advance r a
       in if d_imported df then Some (Inr r)
          else case input_skipFactor df r of
             Inl e \<Rightarrow> Some (Inl e)
           | Inr (skip_factor, r) \<Rightarrow>
               if skip_factor \<le> 0 then Some (Inr (r\<lparr>triesLeft := nat (- skip_factor)\<rparr>))
               else case rnd util_rnd64 r of
                      Inl e \<Rightarrow> Some (Inl e)
                    | Inr (v, r) \<Rightarrow> if v mod of_int skip_factor = 0 then Some (Inr r) else pick_loop scans r)"
proof -
  obtain a df where a: "cursor (global r) = Some a" and df: "io_store (global r) a = Some df"
    using select_inv_cursor [OF inv] by blast
  show ?thesis
    unfolding a option.sel df
    by (subst pick_loop.simps, unfold Let_def cursor_eq [OF a])
       (simp add: df advance_def foreign_input_def assms(2) cong: if_cong)
qed

lemma rnd64_total: "\<exists>v g. rnd util_rnd64 r = Inr (v, r\<lparr>rnd_gen := g\<rparr>)"
proof -
  have "wp (rnd util_rnd64) (\<lambda>v s. \<exists>g. s = r\<lparr>rnd_gen := g\<rparr>) r"
    unfolding rnd_def hf_wp by (rule wp_rnd64I) blast
  from wp_result [OF this] show ?thesis by blast
qed

lemma select_inv_rnd [simp]: "select_inv (r\<lparr>rnd_gen := g\<rparr>) = select_inv r"
  by (simp add: select_inv_def)

lemma picked_advance:
  assumes "select_inv r" "cursor (global r) = Some a" "triesLeft r = 0"
  shows "picked r (advance r a)" "picked r ((advance r a)\<lparr>rnd_gen := g\<rparr>)"
    "picked r ((advance r a)\<lparr>triesLeft := t\<rparr>)"
proof -
  note inv = advance_inv [OF assms]
  obtain df where df: "io_store (global r) a = Some df"
    using inv(2) assms(1) by (auto simp: select_inv_def queue_wf_def store_ok_def)
  have c: "c \<in> set (io_dynfileq (global r))" if "tailq_next (global r) a = Some c" for c
    using that inv(2) tailq_next_in_queue by blast
  have upd: "advance r a = r\<lparr>global := (global r)\<lparr>io_dynfileqCurrent := tailq_next (global r) a\<rparr>,
      rnd_gen := rnd_gen r, triesLeft := triesLeft r, run_current := Some a\<rparr>"
    by (cases r) (simp add: advance_def)
  show "picked r (advance r a)" "picked r ((advance r a)\<lparr>rnd_gen := g\<rparr>)"
      "picked r ((advance r a)\<lparr>triesLeft := t\<rparr>)"
    unfolding picked_def upd using df c inv(2,3) by (auto simp: advance_def)
qed

lemma picked_tries:
  assumes "select_inv r" "cursor (global r) = Some a" "triesLeft r \<noteq> 0"
  shows "picked r (r\<lparr>global := (global r)\<lparr>io_dynfileqCurrent := Some a\<rparr>, triesLeft := t\<rparr>)"
  using assms select_inv_cursor [OF assms(1)]
  by (cases r) (auto simp: picked_def select_inv_def)

lemma picked_trans:
  assumes "select_inv r" "cursor (global r) = Some a" "triesLeft r = 0"
    and "picked ((advance r a)\<lparr>rnd_gen := g\<rparr>) s"
  shows "picked r s"
  using assms(4) by (cases r) (auto simp: picked_def advance_def)

lemma pick_loop_sound:
  assumes "pick_loop scans r = Some res" and "select_inv r" and "\<not> drv_independentQueue (global r)"
  shows "\<exists>s. res = Inr s \<and> picked r s"
  using assms(2,3)
proof (induction scans r res rule: pick_loop.raw_induct [case_names step run])
  case run
  show ?case by (rule assms(1))
next
  case (step f scans r res)
  note 1 = step.IH step.hyps step.prems
  obtain a df where a: "cursor (global r) = Some a" "io_store (global r) a = Some df"
    using select_inv_cursor [OF 1(3)] by blast
  show ?case
  proof (cases "triesLeft r = 0")
    case False
    then show ?thesis
      using 1(2,3) unfolding Let_def cursor_eq [OF a(1)]
      by (auto intro: picked_tries [OF 1(3) a(1)])
  next
    case True
    note inv = advance_inv [OF 1(3) a(1) True]
    note pk = picked_advance [OF 1(3) a(1) True]
    obtain k where k: "input_skipFactor df (advance r a) = Inr (k, advance r a)"
      using skipFactor_ok [of "advance r a" a df] inv(1) a(2)
      by (auto simp: select_inv_def advance_def)
    obtain v g where v: "rnd util_rnd64 (advance r a) = Inr (v, (advance r a)\<lparr>rnd_gen := g\<rparr>)"
      using rnd64_total by blast
    have "\<not> foreign_input ((global r)\<lparr>io_dynfileqCurrent := Some a\<rparr>) df"
      using 1(4) by (simp add: foreign_input_def)
    then have eq: "(if d_imported df then Some (Inr (advance r a))
       else if k \<le> 0 then Some (Inr ((advance r a)\<lparr>triesLeft := nat (- k)\<rparr>))
       else if v mod of_int k = 0 then Some (Inr ((advance r a)\<lparr>rnd_gen := g\<rparr>))
       else f scans ((advance r a)\<lparr>rnd_gen := g\<rparr>)) = Some res"
      using 1(2) True a k v unfolding Let_def cursor_eq [OF a(1)]
      by (simp add: advance_eq cong: if_cong)
    show ?thesis
    proof (cases "\<not> d_imported df \<and> \<not> k \<le> 0 \<and> v mod of_int k \<noteq> 0")
      case True
      then have "f scans ((advance r a)\<lparr>rnd_gen := g\<rparr>) = Some res" using eq by simp
      from 1(1) [OF this] inv(1) 1(4) obtain s where "res = Inr s" "picked ((advance r a)\<lparr>rnd_gen := g\<rparr>) s"
        by (auto simp: advance_def)
      with picked_trans [OF 1(3) a(1) \<open>triesLeft r = 0\<close>] show ?thesis by blast
    next
      case False
      then show ?thesis using eq pk by (auto split: if_splits)
    qed
  qed
qed

section \<open>Loading the chosen input\<close>

definition loaded :: "addr \<Rightarrow> dynfile_t \<Rightarrow> run_t \<Rightarrow> run_t" where
  "loaded a df r = r\<lparr>dynfile := (dynfile r)\<lparr>d_size := d_size df, d_idx := d_idx df,
     d_timeExecUSecs := d_timeExecUSecs df, d_src := Some a, d_refs := 0,
     d_phase := fuzz_getState (global r), d_timedout := d_timedout df,
     d_imported := d_imported df, d_driver_id := d_driver_id df, d_cov := d_cov df,
     d_path := snprintf_cut PATH_MAX (d_path df), d_data := d_data df\<rparr>\<rparr>"

definition dequeued :: "addr \<Rightarrow> run_t \<Rightarrow> run_t" where
  "dequeued a r = r\<lparr>global := (global r)\<lparr>
     io_stale_next := (io_stale_next (global r))(a := list_next (io_dynfileq (global r)) a),
     io_dynfileq := remove1 a (io_dynfileq (global r)),
     io_newUnitsAdded := sz_sub (io_newUnitsAdded (global r)) 1\<rparr>, triesLeft := 0\<rparr>"

lemma wp_load_input:
  assumes cur: "run_current r = Some a" and st: "io_store (global r) a = Some df" and f: "file_ok df"
    and b: "length (inData r) = inSize r" and lim: "d_size df \<le> maxInputSz r"
    and imp: "d_imported df \<Longrightarrow> a \<in> set (io_dynfileq (global r)) \<and> Q True (dequeued a (loaded a df r))"
    and reg: "\<not> d_imported df \<Longrightarrow>
      wp (if needs_mangle then mangle_mangleContent else ret ()) (\<lambda>_. Q True) (loaded a df r)"
  shows "wp (load_input needs_mangle) Q r"
proof -
  have len: "length (d_data df) = d_size df" using f by (simp add: file_ok_def)
  then have rd: "buf_read (d_data df) 0 (d_size df) = Some (d_data df)" by (simp add: hf_buf)
  have rs: "length (resize n d) = n" for n and d :: "byte list" by (simp add: resize_def)
  have full: "patch 0 bs d = bs" if "length bs = length d" for bs d using that by (simp add: patch_def)
  have finish: "wp (if d_imported df then bnd (tailq_remove a) (\<lambda>_.
       bnd (modify (\<lambda>r. r\<lparr>global := (global r)\<lparr>io_newUnitsAdded :=
              sz_sub (io_newUnitsAdded (global r)) 1\<rparr>, triesLeft := 0\<rparr>)) (\<lambda>_. ret True))
     else bnd (if needs_mangle then mangle_mangleContent else ret ()) (\<lambda>_. ret True)) Q (loaded a df r)"
  proof (cases "d_imported df")
    case True
    then show ?thesis
      using imp by (simp add: tailq_remove_def hf_wp dequeued_def loaded_def)
  next
    case False
    then show ?thesis using reg by (simp add: wp_bnd wp_ret)
  qed
  show ?thesis
    unfolding load_input_def wp_bnd wp_gets wp_or_fault deref_def
    by (simp only: cur st rd wp_modify option.inject simp_thms, rule wp_setSize [OF b lim],
        use finish len in \<open>simp add: wp_writeIn rs full inData_def loaded_def setData_def\<close>)
qed

text \<open>What the preparation of a dynamic input relies on.\<close>

definition prepare_inv :: "run_t \<Rightarrow> bool" where
  "prepare_inv r \<longleftrightarrow> select_inv r \<and> wf_run r \<and> 1 \<le> unat (mutate_mutationsPerRun (global r)) \<and>
     (\<forall>a df. io_store (global r) a = Some df \<longrightarrow> d_size df \<le> maxInputSz r)"

lemma env_ok_queue: "env_ok h \<Longrightarrow> queue_wf (h\<lparr>io_dynfileqCurrent := c\<rparr>) \<Longrightarrow> env_ok (h\<lparr>io_dynfileqCurrent := c\<rparr>)"
  by (simp add: env_ok_def queue_wf_def)

lemma picked_ok:
  assumes inv: "prepare_inv r" and p: "picked r s"
  obtains a df where "run_current s = Some a" "io_store (global s) a = Some df" "file_ok df"
    "d_size df \<le> maxInputSz s" "length (inData s) = inSize s" "queue_wf (global s)" "wf_run s"
    "d_imported df \<Longrightarrow> a \<in> set (io_dynfileq (global s))" "io_store (global s) = io_store (global r)"
    "io_dynfileq (global s) = io_dynfileq (global r)"
    "mutate_mutationsPerRun (global s) = mutate_mutationsPerRun (global r)"
proof -
  obtain a df c g t where a: "run_current s = Some a" "io_store (global r) a = Some df"
      "d_imported df \<longrightarrow> a \<in> set (io_dynfileq (global r))"
    and c: "\<And>x. c = Some x \<Longrightarrow> x \<in> set (io_dynfileq (global r))"
    and s: "s = r\<lparr>global := (global r)\<lparr>io_dynfileqCurrent := c\<rparr>, rnd_gen := g, triesLeft := t,
      run_current := Some a\<rparr>"
    using p by (auto simp: picked_def)
  have q: "queue_wf (global r)" "wf_run r" using inv by (auto simp: prepare_inv_def select_inv_def)
  have "x \<in> dom (io_store (global r))" if "c = Some x" for x
    using c [OF that] q(1) by (auto simp: queue_wf_def store_ok_def)
  then have qs: "queue_wf (global s)" using q(1) by (simp add: s queue_wf_cursor)
  then have "wf_run s"
    using q(2) env_ok_queue [of "global r" c]
    by (simp add: s wf_run_def inData_def inSize_def maxInputSz_def)
  moreover have "file_ok df" using q(1) a(2) by (auto simp: queue_wf_def store_ok_def)
  moreover have "d_size df \<le> maxInputSz s" using inv a(2) by (auto simp: prepare_inv_def s maxInputSz_def)
  ultimately show ?thesis
    using a qs by (intro that [of a df]) (auto simp: s wf_run_def)
qed

lemma dequeued_ok:
  assumes "queue_wf (global r)"
  shows "queue_wf (global (dequeued a r))"
proof -
  have st: "store_ok (global r)" and d: "distinct (io_dynfileq (global r))"
    using assms by (auto simp: queue_wf_def store_ok_def)
  have rm: "remove1 a (io_dynfileq (global r)) = filter (\<lambda>x. x \<noteq> a) (io_dynfileq (global r))"
    using d by (simp add: distinct_remove1_removeAll removeAll_filter_not_eq eq_commute)
  have "store_ok (global (dequeued a r))"
    using st by (auto simp: store_ok_def dequeued_def rm dest: list_next_in split: if_splits)
  moreover have "length (io_dynfileq (global (dequeued a r))) \<le> io_dynfileqCnt (global r)"
    using assms by (auto simp: dequeued_def rm queue_wf_def intro: order_trans [OF length_filter_le])
  ultimately show ?thesis using assms by (auto simp: queue_wf_def dequeued_def)
qed

lemma frame_fields:
  assumes "frame_proj s = frame_proj r"
  shows "io_store (global s) = io_store (global r)" "io_dynfileq (global s) = io_dynfileq (global r)"
    "io_dynfileqCnt (global s) = io_dynfileqCnt (global r)"
    "feedback_maxCov (global s) = feedback_maxCov (global r)" "d_src (dynfile s) = d_src (dynfile r)"
    "maxInputSz s = maxInputSz r"
  using arg_cong [OF assms, of "\<lambda>r. io_store (global r)"] arg_cong [OF assms, of "\<lambda>r. io_dynfileq (global r)"]
    arg_cong [OF assms, of "\<lambda>r. io_dynfileqCnt (global r)"]
    arg_cong [OF assms, of "\<lambda>r. feedback_maxCov (global r)"]
    arg_cong [OF assms, of "\<lambda>r. d_src (dynfile r)"] arg_cong [OF assms, of maxInputSz]
  by (simp_all add: frame_proj_def maxInputSz_def)

lemma queue_wf_frame:
  assumes "queue_wf (global r)" and "wf_run s" and f: "frame_proj s = frame_proj r"
  shows "queue_wf (global s)"
  using assms(1,2) by (simp add: queue_wf_def covs_def frame_fields [OF f] wf_run_def env_ok_def)

text \<open>Loading what the loop picked.\<close>

lemma load_picked:
  assumes inv: "prepare_inv r" and p: "picked r t"
  shows "\<exists>a df. io_store (global r) a = Some df \<and> wp (load_input needs_mangle) (\<lambda>b s. b \<and> d_src (dynfile s) = Some a \<and>
      length (inData s) = inSize s \<and> inSize s \<le> maxInputSz s \<and> queue_wf (global s) \<and>
      (d_imported df \<or> \<not> needs_mangle \<longrightarrow> inData s = d_data df) \<and>
      io_dynfileq (global s) =
        (if d_imported df then remove1 a (io_dynfileq (global r)) else io_dynfileq (global r))) t"
proof -
  from picked_ok [OF inv p] obtain a df where
    a: "run_current t = Some a" "io_store (global t) a = Some df" "file_ok df" "d_size df \<le> maxInputSz t"
      "length (inData t) = inSize t" "queue_wf (global t)" "wf_run t"
      "d_imported df \<Longrightarrow> a \<in> set (io_dynfileq (global t))" "io_store (global t) = io_store (global r)"
      "io_dynfileq (global t) = io_dynfileq (global r)"
      "mutate_mutationsPerRun (global t) = mutate_mutationsPerRun (global r)" by blast
  have l: "inData (loaded a df t) = d_data df" "inSize (loaded a df t) = d_size df"
      "maxInputSz (loaded a df t) = maxInputSz t" "global (loaded a df t) = global t"
      "d_src (dynfile (loaded a df t)) = Some a" "length (d_data df) = d_size df"
    using a(3) by (auto simp: loaded_def inData_def inSize_def maxInputSz_def file_ok_def)
  have dq: "inData (dequeued a u) = inData u" "inSize (dequeued a u) = inSize u"
      "maxInputSz (dequeued a u) = maxInputSz u" "dynfile (dequeued a u) = dynfile u"
      "io_dynfileq (global (dequeued a u)) = remove1 a (io_dynfileq (global u))" for u
    by (simp_all add: dequeued_def inData_def inSize_def maxInputSz_def)
  have wfl: "wf_run (loaded a df t)" using a(4,7) l by (simp add: wf_run_def)
  have "wp (load_input needs_mangle) (\<lambda>b s. b \<and> d_src (dynfile s) = Some a \<and>
      length (inData s) = inSize s \<and> inSize s \<le> maxInputSz s \<and> queue_wf (global s) \<and>
      (d_imported df \<or> \<not> needs_mangle \<longrightarrow> inData s = d_data df) \<and>
      io_dynfileq (global s) =
        (if d_imported df then remove1 a (io_dynfileq (global r)) else io_dynfileq (global r))) t"
    (is "wp _ ?Q t")
  proof (rule wp_load_input [OF a(1-3,5,4)])
    assume "d_imported df"
    then show "a \<in> set (io_dynfileq (global t)) \<and> ?Q True (dequeued a (loaded a df t))"
      using a(4,6,8,10) l dq dequeued_ok [of "loaded a df t" a] by simp
  next
    assume imp: "\<not> d_imported df"
    have mut: "1 \<le> unat (mutate_mutationsPerRun (global (loaded a df t)))"
      using a(11) l(4) assms(1) by (simp add: prepare_inv_def)
    have qm: "?Q True s" if s: "wf_run s" "frame_proj s = frame_proj (loaded a df t)" and needs_mangle for s
      using s that(3) imp frame_fields [OF s(2)] l a(6,10) queue_wf_frame [OF _ s]
      by (simp add: wf_run_def)
    have qn: "?Q True (loaded a df t)" if "\<not> needs_mangle"
      using that imp l a(4,6,10) by simp
    show "wp (if needs_mangle then mangle_mangleContent else ret ()) (\<lambda>_. ?Q True) (loaded a df t)"
    proof (cases needs_mangle)
      case True
      show ?thesis
        unfolding if_P [OF True, of mangle_mangleContent "ret ()"]
        by (rule wp_mono [OF wp_mangleContent_all [OF wfl mut]]) (use True qm in blast)
    next
      case False
      show ?thesis
        unfolding if_not_P [OF False, of mangle_mangleContent "ret ()"] wp_ret by (rule qn [OF False])
    qed
  qed
  then show ?thesis using a(2,9) by (intro exI [of _ a] exI [of _ df]) simp
qed

lemma foreign_cursor [simp]: "foreign_input (h\<lparr>io_dynfileqCurrent := c\<rparr>) = foreign_input h"
  by (simp add: foreign_input_def fun_eq_iff)

lemma pick_foreign:
  assumes "triesLeft r = 0" and a: "cursor (global r) = Some a" and "io_store (global r) a = Some df"
    and "foreign_input (global r) df"
  shows "pick_loop scans r = (if scans + 1 \<ge> io_dynfileqCnt (global r) then Some (Inl LogFatal)
    else pick_loop (scans + 1) (advance r a))"
  using assms
  by (subst pick_loop.simps, unfold Let_def cursor_eq [OF a]) (simp add: advance_def)

lemma pick_rejected:
  assumes "triesLeft r = 0" and a: "cursor (global r) = Some a" and "io_store (global r) a = Some df"
    and "\<not> foreign_input (global r) df" and "\<not> d_imported df"
    and "input_skipFactor df (advance r a) = Inr (k, advance r a)" and "0 < k"
    and "rnd util_rnd64 (advance r a) = Inr (v, s)" and "v mod of_int k \<noteq> 0"
  shows "pick_loop scans r = pick_loop scans s"
  using assms
  by (subst pick_loop.simps, unfold Let_def cursor_eq [OF a]) (simp add: advance_eq)

section \<open>Two concrete queues\<close>

text \<open>A queue with one input of one byte; and one whose second input belongs to driver 7.\<close>

definition demo_input :: "nat \<Rightarrow> u32 \<Rightarrow> bool \<Rightarrow> dynfile_t" where
  "demo_input idx driver tmout = (demo_file [65])\<lparr>d_idx := idx, d_driver_id := driver,
     d_timedout := tmout\<rparr>"

definition demo_queue :: "run_t" where
  "demo_queue = (demo_run [])\<lparr>global := demo_global\<lparr>io_dynfileqCnt := 1, io_dynfileq := [1],
     io_store := [1 \<mapsto> demo_input 1 0 False], io_brk := 2, cnts_mutationsCnt := 1\<rparr>,
     rnd_gen := \<lparr>rndThreadOnce = True, rndState = (1, 0, 0, 0), entropy = (0, 0, 0, 0)\<rparr>\<rparr>"

definition demo_drivers :: "run_t" where
  "demo_drivers = (demo_run [])\<lparr>global := demo_global\<lparr>io_dynfileqCnt := 2, io_dynfileq := [1, 2],
     io_store := [1 \<mapsto> demo_input 1 1 True, 2 \<mapsto> demo_input 2 7 True], io_brk := 3,
     cnts_mutationsCnt := 1, drv_independentQueue := True, drv_active_driver_id := Some 7\<rparr>,
     rnd_gen := \<lparr>rndThreadOnce = True, rndState = (1, 0, 0, 0), entropy = (0, 0, 0, 0)\<rparr>\<rparr>"

lemma demo_skip:
  assumes "cnts_mutationsCnt (global r) = 1" "threads_threadsMax (global r) = 1" "now r = 0"
    "timing_timeStart (global r) = 0" "feedback_maxCov (global r) = [0, 0, 0, 0]"
    "io_dynfileqCnt (global r) = i" "0 < i" "i < 1000"
  shows "input_skipFactor (demo_input i d t) r = Inr ((if t then 50 else 0) - 24, r)"
proof -
  have "ageScaleMap ! 100 = - 20" "length ageScaleMap = 200"
    by (simp_all add: ageScaleMap_def nth_append)
  then have "age_penalty (demo_input i d t) r = Inr (- 20, r)"
    using assms(6-8)
    by (simp add: age_penalty_def demo_input_def demo_file_def bnd_def gets_def ret_def or_fault_def
        buf_get_def Let_def sz_mul_def)
  moreover have "cov_penalty (demo_input i d t) r = Inr (0, r)"
    using assms(5) by (simp add: cov_penalty_def demo_input_def demo_file_def bnd_def gets_def ret_def
        or_fault_def buf_get_def)
  moreover have "input_speedFactor (demo_input i d t) r = Inr (1, r)"
    using assms(1-4) by (simp add: input_speedFactor_def demo_input_def demo_file_def bnd_def gets_def ret_def
        HF_CAP_def Let_def)
  moreover have "size_penalty (demo_input i d t) = Inr (- 5)" "refs_penalty (demo_input i d t) = 2"
    by (simp_all add: size_penalty_def refs_penalty_def util_Log2_def HF_CAP_def demo_input_def demo_file_def
        Let_def floor_log2.simps)
  ultimately show ?thesis
    by (simp add: input_skipFactor_def bnd_def ret_def Let_def HF_CAP_def demo_input_def)
qed

lemma demo_queue_ok: "prepare_inv demo_queue"
  by (simp add: prepare_inv_def select_inv_def queue_wf_def store_ok_def counters_ok_def wf_run_def
      env_ok_def file_ok_def covs_def demo_queue_def demo_input_def demo_file_def demo_run_def demo_global_def
      inData_def inSize_def maxInputSz_def HF_INPUT_MAX_SIZE_def)

lemma penalties_advance:
  "input_speedFactor df r = Inr (v, r) \<Longrightarrow> input_speedFactor df (advance r a) = Inr (v, advance r a)"
  "cov_penalty df r = Inr (v, r) \<Longrightarrow> cov_penalty df (advance r a) = Inr (v, advance r a)"
  "age_penalty df r = Inr (v, r) \<Longrightarrow> age_penalty df (advance r a) = Inr (v, advance r a)"
  by (auto simp: input_speedFactor_def cov_penalty_def age_penalty_def advance_def
      bnd_def gets_def ret_def raise_def or_fault_def Let_def split: sum.splits option.splits if_splits)

lemma skipFactor_advance:
  assumes "input_skipFactor df r = Inr (k, r)"
  shows "input_skipFactor df (advance r a) = Inr (k, advance r a)"
  using assms
  by (rule skipFactor_parts)
     (auto simp: input_skipFactor_def bnd_def ret_def Let_def dest!: penalties_advance [of df r _ a])

lemma demo_pick: "pick_loop 0 demo_queue = Some (Inr ((advance demo_queue 1)\<lparr>triesLeft := 24\<rparr>))"
proof -
  have c: "cursor (global demo_queue) = Some 1" "triesLeft demo_queue = 0"
      "io_store (global demo_queue) 1 = Some (demo_input 1 0 False)" "\<not> drv_independentQueue (global demo_queue)"
    by (simp_all add: demo_queue_def cursor_def demo_global_def tailq_first_def demo_run_def)
  have "input_skipFactor (demo_input 1 0 False) (advance demo_queue 1) = Inr (- 24, advance demo_queue 1)"
    by (subst demo_skip) (simp_all add: demo_queue_def advance_def demo_run_def demo_global_def)
  moreover have "\<not> d_imported (demo_input 1 0 False)" by (simp add: demo_input_def demo_file_def)
  ultimately show ?thesis
    using demo_queue_ok c
    by (subst pick_loop_step) (auto simp: prepare_inv_def Let_def)
qed

section \<open>Properties\<close>

text \<open>For every input of the store, \<open>input_skipFactor\<close> ends without a fault (both table
  indices are inside their tables, nothing is divided by zero) and its result is between
  -55 and 71, once an execution was counted and a thread runs.\<close>

theorem input_skipFactor_bounded:
  assumes "queue_wf (global r)" and "counters_ok (global r)" and "io_store (global r) a = Some df"
  shows "\<exists>k. input_skipFactor df r = Inr (k, r) \<and> - 55 \<le> k \<and> k \<le> 71"
  by (rule skipFactor_ok [OF assms])

text \<open>Of two inputs that differ only in their execution time, the slower one never has the
  larger skip factor: the time lowers the penalty.\<close>

theorem input_skipFactor_prefers_slow:
  assumes "queue_wf (global r)" and "counters_ok (global r)" and "io_store (global r) a = Some df"
    and "d_timeExecUSecs df \<le> t"
  shows "\<exists>k k'. input_skipFactor df r = Inr (k, r) \<and>
    input_skipFactor (df\<lparr>d_timeExecUSecs := t\<rparr>) r = Inr (k', r) \<and> k' \<le> k"
proof -
  obtain k where k: "input_skipFactor df r = Inr (k, r)" using skipFactor_ok [OF assms(1-3)] by blast
  from k obtain cp ap sp where "cov_penalty df r = Inr (cp, r)" "age_penalty df r = Inr (ap, r)"
      "size_penalty df = Inr sp" by (rule skipFactor_parts)
  moreover obtain sf where "input_speedFactor (df\<lparr>d_timeExecUSecs := t\<rparr>) r = Inr (sf, r)"
    using speedFactor_ok [of r] assms(2) by (auto simp: counters_ok_def)
  ultimately obtain k' where k': "input_skipFactor (df\<lparr>d_timeExecUSecs := t\<rparr>) r = Inr (k', r)"
    by (simp add: input_skipFactor_def bnd_def ret_def Let_def)
  with k skipFactor_antimono [OF _ k k'] assms(4) show ?thesis by (auto simp: word_le_nat_alt)
qed


theorem input_skipFactor_bounded_witness:
  "\<exists>k. input_skipFactor (demo_input 1 0 False) demo_queue = Inr (k, demo_queue) \<and> - 55 \<le> k \<and> k \<le> 71"
  by (rule input_skipFactor_bounded [of demo_queue 1])
     (use demo_queue_ok in \<open>simp_all add: prepare_inv_def select_inv_def demo_queue_def\<close>)

theorem input_skipFactor_prefers_slow_witness:
  "\<exists>k k'. input_skipFactor (demo_input 1 0 False) demo_queue = Inr (k, demo_queue) \<and>
    input_skipFactor ((demo_input 1 0 False)\<lparr>d_timeExecUSecs := 500\<rparr>) demo_queue = Inr (k', demo_queue) \<and>
    k' \<le> k"
  by (rule input_skipFactor_prefers_slow [of demo_queue 1])
     (use demo_queue_ok in \<open>simp_all add: prepare_inv_def select_inv_def demo_queue_def demo_input_def
       demo_file_def\<close>)




text \<open>With one queue per driver, the counter of skipped inputs is never reset, so the search
  can end the process although the queue holds an input of the active driver: there is such a
  well-formed queue on which \<open>input_prepareDynamicInput\<close> ends in \<open>LOG_F\<close>.\<close>

theorem input_prepareDynamicInput_spurious_fatal:
  "\<exists>r a df. queue_wf (global r) \<and> drv_independentQueue (global r) \<and> a \<in> set (io_dynfileq (global r)) \<and>
    io_store (global r) a = Some df \<and> drv_active_driver_id (global r) = Some (d_driver_id df) \<and>
    input_prepareDynamicInput needs_mangle r = Some (Inl LogFatal)"
proof (intro exI conjI)
  let ?r1 = "advance demo_drivers 1"
  let ?r2 = "(advance ?r1 2)\<lparr>rnd_gen := \<lparr>rndThreadOnce = True, rndState = (1, 1, 1, 0), entropy = (0, 0, 0, 0)\<rparr>\<rparr>"
  note defs = demo_drivers_def demo_run_def demo_global_def demo_input_def demo_file_def advance_def cursor_def
    tailq_first_def tailq_next_def foreign_input_def
  have "pick_loop 0 demo_drivers = pick_loop (0 + 1) ?r1"
    by (subst pick_foreign [where a = 1 and df = "demo_input 1 1 True"]) (simp_all add: defs)
  also have "\<dots> = pick_loop (0 + 1) ?r2"
  proof (rule pick_rejected)
    show "input_skipFactor (demo_input 2 7 True) (advance ?r1 2) = Inr ((if True then 50 else 0) - 24, advance ?r1 2)"
      by (rule demo_skip) (simp_all add: defs)
    show "rnd util_rnd64 (advance ?r1 2) = Inr (8388609, ?r2)"
      by (simp add: defs rnd_def zoom_def util_rnd64_def util_InternalRnd64_def xoshiro_next_def util_RotL_def Let_def)
  qed (simp_all add: defs)
  also have "\<dots> = Some (Inl LogFatal)"
    by (subst pick_foreign [where a = 1 and df = "demo_input 1 1 True"]) (simp_all add: defs)
  finally show "input_prepareDynamicInput needs_mangle demo_drivers = Some (Inl LogFatal)"
    by (simp add: input_prepareDynamicInput_def demo_drivers_def)
  show "io_store (global demo_drivers) 2 = Some (demo_input 2 7 True)" by (simp add: demo_drivers_def)
qed (simp_all add: queue_wf_def store_ok_def file_ok_def covs_def demo_drivers_def demo_input_def demo_file_def
    demo_run_def demo_global_def HF_INPUT_MAX_SIZE_def)

end
