(* ===== verification/HF_Corpus.thy ===== *)
theory HF_Corpus
  imports HF_Select
begin

text \<open>
  Properties of the functions of \<open>honggfuzz/input.c\<close> that read files: the limits set from the
  corpus directory, the enumeration of the corpus, the dictionary, the stack-hash blocklist and
  its search, and the names of corpus files.
\<close>

section \<open>The corpus directory\<close>

text \<open>The regular files that an enumeration of the directory can return.\<close>

definition usable :: "fs_t \<Rightarrow> path \<Rightarrow> dir_ev \<Rightarrow> bool" where
  "usable fs dir ev \<longleftrightarrow> (case ev of DEntry n \<Rightarrow>
     (case fs_stat fs (join_path dir n) of Some (isreg, _) \<Rightarrow> isreg | None \<Rightarrow> False)
   | _ \<Rightarrow> False)"

lemma dirStats_loop_ok:
  "DError \<notin> set es \<Longrightarrow> \<exists>mx'. dirStats_loop fs dir es cnt mx =
    (True, cnt + length (filter (usable fs dir) es), mx', []) \<and> mx \<le> mx'"
proof (induction es arbitrary: cnt mx)
  case (Cons ev es)
  show ?case
  proof (cases "usable fs dir ev")
    case True
    then obtain n sz where "ev = DEntry n" "fs_stat fs (join_path dir n) = Some (True, sz)"
      by (auto simp: usable_def split: dir_ev.splits option.splits)
    then show ?thesis
      using Cons.IH [of "Suc cnt" "if sz > mx then sz else mx"] Cons.prems True
      by (auto split: if_splits)
  next
    case False
    then have "dirStats_loop fs dir (ev # es) cnt mx = dirStats_loop fs dir es cnt mx"
      using Cons.prems by (auto simp: usable_def split: dir_ev.splits option.splits)
    then show ?thesis using Cons False by auto
  qed
qed simp

lemma inputDir_pos [simp]: "inputDir (setInputPos es h) = inputDir h"
  by (simp add: setInputPos_def inputDir_def)

lemma fs_pos [simp]:
  "fs_stat (io_fs (setInputPos es h)) = fs_stat (io_fs h)"
  "fs_inputPos (io_fs (setInputPos es h)) = es"
  "fs_inputDir (io_fs (setInputPos es h)) = fs_inputDir (io_fs h)"
  by (simp_all add: setInputPos_def fs_stat_def fun_eq_iff)

lemma setInputPos_twice [simp]: "setInputPos es (setInputPos fs h) = setInputPos es h"
  by (simp add: setInputPos_def)

lemma getNext_scan:
  assumes "DError \<notin> set es" and "\<exists>ev\<in>set es. usable (io_fs h) (inputDir h) ev"
  shows "\<exists>n sz es'. getNext_loop rewind (setInputPos es h) =
      Some (Some (snprintf_cut PATH_MAX n, sz), setInputPos es' h) \<and>
    DEntry n \<in> set es \<and> fs_stat (io_fs h) (join_path (inputDir h) n) = Some (True, sz)"
  using assms
proof (induction es)
  case Nil
  then show ?case by simp
next
  case (Cons ev es)
  show ?case
  proof (cases "usable (io_fs h) (inputDir h) ev")
    case True
    then obtain n sz where "ev = DEntry n" "fs_stat (io_fs h) (join_path (inputDir h) n) = Some (True, sz)"
      by (auto simp: usable_def split: dir_ev.splits option.splits)
    then show ?thesis
      by (intro exI [of _ n] exI [of _ sz] exI [of _ es]) (subst getNext_loop.simps, simp)
  next
    case False
    then have "getNext_loop rewind (setInputPos (ev # es) h) = getNext_loop rewind (setInputPos es h)"
      using Cons.prems(1)
      by (subst getNext_loop.simps) (auto simp: usable_def split: dir_ev.splits option.splits)
    then show ?thesis using Cons False by auto
  qed
qed

lemma getNext_skip:
  assumes "DError \<notin> set es" and "\<not> (\<exists>ev\<in>set es. usable (io_fs h) (inputDir h) ev)"
  shows "getNext_loop rewind (setInputPos es h) = getNext_loop rewind (setInputPos [] h)"
  using assms
proof (induction es)
  case (Cons ev es)
  then have "getNext_loop rewind (setInputPos (ev # es) h) = getNext_loop rewind (setInputPos es h)"
    by (subst getNext_loop.simps) (auto simp: usable_def split: dir_ev.splits option.splits)
  with Cons show ?case by simp
qed simp

section \<open>The blocklist\<close>

lemma blacklist_lines_sorted:
  "sorted bl \<Longrightarrow> blacklist_lines ls bl = Inr bl' \<Longrightarrow> sorted bl' \<and> length bl' = length bl + length ls"
proof (induction ls arbitrary: bl)
  case Nil
  then show ?case by simp
next
  case (Cons l ls)
  then have "sorted (bl @ [strtoull16 (cstr l)])"
    by (cases bl rule: rev_cases) (auto simp: Let_def sorted_append split: if_splits)
  with Cons show ?case by (auto simp: Let_def split: if_splits)
qed

section \<open>The dictionary\<close>

text \<open>
  Two NUL bytes in a row stop the decoder, whatever precedes them: an escape steps over one of
  them at most.
\<close>

lemma decode_two_nuls:
  assumes "out \<le> i" and "i \<le> n + 1" and "n + 1 < length s" and "s ! n = 0" and "s ! (n + 1) = 0"
  shows "\<exists>b l. decode_loop s i out = Inr (b, l) \<and> length b = length s"
  using assms
proof (induction s i out rule: decode_loop.induct)
  case (1 s i out)
  have keep: "s[out := v] ! n = 0 \<and> s[out := v] ! (n + 1) = 0" if "i < n" for v
    using that "1.prems" by (simp add: nth_list_update)
  show ?case
  proof (cases "s ! i = 0 \<or> s ! i = 34")
    case True
    then show ?thesis using "1.prems" by (subst decode_loop.simps) auto
  next
    case False
    then have i: "i < n" using "1.prems" by (cases "i = n + 1"; cases "i = n") auto
    then have bounds: "\<not> (i \<ge> length s \<or> out \<ge> length s)" "\<not> i + 1 \<ge> length s" using "1.prems" by auto
    consider "s ! i \<noteq> 92" | "s ! i = 92" "s ! (i + 1) = 0" | "s ! i = 92" "s ! (i + 1) \<noteq> 0" by blast
    then show ?thesis
    proof cases
      case 1
      then show ?thesis
        using False i keep [OF i] bounds "1.prems" "1.IH"(6) [OF bounds(1) False 1]
        by (subst decode_loop.simps) simp
    next
      case 2
      then show ?thesis
        using False i bounds "1.prems" "1.IH"(1) [OF bounds(1) False 2(1) bounds(2) 2(2)]
        by (subst decode_loop.simps) simp
    next
      case 3
      then have i1: "i + 1 < n" using i "1.prems"(4) by (cases "i + 1 = n") auto
      then have b2: "\<not> i + 2 \<ge> length s" using "1.prems" by simp
      consider "s ! (i + 1) \<noteq> 120" | "s ! (i + 1) = 120" "s ! (i + 2) = 0"
        | "s ! (i + 1) = 120" "s ! (i + 2) \<noteq> 0" by blast
      then show ?thesis
      proof cases
        case 1
        then show ?thesis
          using False 3 i keep [OF i] bounds "1.prems" "1.IH"(5) [OF bounds(1) False 3(1) bounds(2) 3(2) 1]
          by (subst decode_loop.simps) simp
      next
        case 2
        then show ?thesis
          using False 3 i keep [OF i] bounds b2 "1.prems"
            "1.IH"(2) [OF bounds(1) False 3(1) bounds(2) 3(2) 2(1) b2 2(2)]
          by (subst decode_loop.simps) simp
      next
        case hex: 3
        then have i2: "i + 2 < n" using i1 "1.prems"(4) by (cases "i + 2 = n") auto
        then have b3: "\<not> i + 3 \<ge> length s" using "1.prems" by simp
        have i3: "i + 4 \<le> n" if "s ! (i + 3) \<noteq> 0"
          using that i2 "1.prems"(4) by (cases "i + 3 = n") auto
        show ?thesis
          using False 3 hex i i2 i3 keep [OF i] bounds b2 b3 "1.prems"
            "1.IH"(3) [OF bounds(1) False 3(1) bounds(2) 3(2) hex(1) b2 hex(2) b3]
            "1.IH"(4) [OF bounds(1) False 3(1) bounds(2) 3(2) hex(1) b2 hex(2) b3]
          by (subst decode_loop.simps) (cases "s ! (i + 3) = 0"; simp)
      qed
    qed
  qed
qed

lemma dict_entry_ok: "length w \<le> 1023 \<Longrightarrow> \<exists>e. dict_entry w = Inr e \<and> length e \<le> 512"
proof -
  assume w: "length w \<le> 1023"
  let ?b = "w @ replicate (1025 - length w) 0"
  have "?b ! length w = 0" "?b ! (length w + 1) = 0" "length w + 1 < length ?b"
    using w by (auto simp: nth_append)
  with decode_two_nuls [of 0 0 "length w" ?b] obtain b l where "decode_loop ?b 0 0 = Inr (b, l)" by auto
  then show ?thesis by (simp add: dict_entry_def util_decodeCString_def)
qed

lemma dict_word_length: "dict_word l = Some w \<Longrightarrow> length w \<le> length l - 1"
proof -
  assume "dict_word l = Some w"
  moreover have "length (cstr x) \<le> length x" for x by (simp add: cstr_def length_takeWhile_le)
  from this [of l] this [of "butlast l"] have "length (cstr l) \<le> length l"
      "length (cstr (butlast l)) \<le> length l - 1" by simp_all
  ultimately show ?thesis
    by (auto simp: dict_word_def Let_def split: if_splits option.splits)
qed

lemma dict_lines_ok:
  assumes "\<forall>l\<in>set ls. length l \<le> 1024" and "length d \<le> DICT_MAX" and "\<forall>e\<in>set d. length e \<le> 512"
  shows "\<exists>d'. dict_lines ls d = Inr (d @ d') \<and> length (d @ d') \<le> DICT_MAX \<and>
    (\<forall>e\<in>set (d @ d'). length e \<le> 512)"
  using assms
proof (induction ls arbitrary: d)
  case (Cons l ls)
  show ?case
  proof (cases "length d = DICT_MAX \<or> dict_word l = None")
    case True
    then show ?thesis using Cons by (cases "length d = DICT_MAX") auto
  next
    case False
    then obtain w where w: "dict_word l = Some w" by auto
    with Cons.prems dict_word_length have "length w \<le> 1023" by fastforce
    then obtain e where e: "dict_entry w = Inr e" "length e \<le> 512" using dict_entry_ok by blast
    have "length (d @ [e]) \<le> DICT_MAX" using False Cons.prems by simp
    with Cons.IH [of "d @ [e]"] Cons.prems e False w show ?thesis by auto
  qed
qed auto

lemma getlines_acc_plain:
  "10 \<notin> set xs \<Longrightarrow> getlines_acc acc xs = (if acc = [] \<and> xs = [] then [] else [rev acc @ xs])"
  by (induction acc xs rule: getlines_acc.induct) auto

lemma dict_word_quoted:
  assumes "w \<noteq> []" and "length w \<le> 1024" and "34 \<notin> set w" and "0 \<notin> set w"
  shows "dict_word (34 # w @ [34]) = Some w"
proof -
  have c: "cstr (34 # w @ [34]) = 34 # w @ [34]" using assms(4) by (auto simp: cstr_def takeWhile_eq_all_conv)
  have "strchr (34 # w @ [34]) 34 = Some 0" by (simp add: strchr_def Let_def)
  moreover have "strrchr (34 # w @ [34]) 34 = Some (length w + 1)"
    by (simp add: strrchr_def strchr_def Let_def)
  ultimately show ?thesis using c assms by (simp add: dict_word_def Let_def)
qed

lemma append_same: "length a = length b \<Longrightarrow> a @ c = b @ d \<longleftrightarrow> a = b \<and> c = d"
  by simp

lemma cov_name_inj:
  assumes "cov_name df = cov_name df'"
  shows "util_CRC64 (take (d_size df) (d_data df)) = util_CRC64 (take (d_size df') (d_data df'))"
    "util_CRC64Rev (take (d_size df) (d_data df)) = util_CRC64Rev (take (d_size df') (d_data df'))"
    "d_size df mod 2 ^ 32 = d_size df' mod 2 ^ 32"
proof -
  have inj: "x = y" if "hex_fixed 16 (unat x) = hex_fixed 16 (unat y)" for x y :: u64
    using hex_fixed_inj [OF that] unat_lt_64 [of x] unat_lt_64 [of y]
    by (simp add: word_unat_eq_iff)
  have "hex_fixed 16 (unat (util_CRC64 (take (d_size df) (d_data df)))) =
      hex_fixed 16 (unat (util_CRC64 (take (d_size df') (d_data df')))) \<and>
    hex_fixed 16 (unat (util_CRC64Rev (take (d_size df) (d_data df)))) =
      hex_fixed 16 (unat (util_CRC64Rev (take (d_size df') (d_data df')))) \<and>
    hex_fixed 8 (d_size df mod 2 ^ 32) = hex_fixed 8 (d_size df' mod 2 ^ 32)"
    using assms unfolding cov_name_def by (simp add: append_same)
  with inj hex_fixed_inj [of 8 "d_size df mod 2 ^ 32" "d_size df' mod 2 ^ 32"]
  show "util_CRC64 (take (d_size df) (d_data df)) = util_CRC64 (take (d_size df') (d_data df'))"
    "util_CRC64Rev (take (d_size df) (d_data df)) = util_CRC64Rev (take (d_size df') (d_data df'))"
    "d_size df mod 2 ^ 32 = d_size df' mod 2 ^ 32" by (blast, blast, simp)
qed

section \<open>Properties\<close>

text \<open>\<open>input_init\<close> on a readable directory sets a maximal input size that is positive and not
  above the limit of 10 MB (when the size given by the user is not), counts exactly the
  regular files, and leaves the stream at its start.\<close>

theorem input_init_limits:
  assumes "io_inputDir h = Some d" and "\<not> fs_denied (io_fs h) d"
    and "DError \<notin> set (fs_inputDir (io_fs h))" and "io_maxFileSz h \<le> HF_INPUT_MAX_SIZE"
  shows "\<exists>h'. input_init h = (True, h') \<and> 1 \<le> mutate_maxInputSz h' \<and>
    mutate_maxInputSz h' \<le> HF_INPUT_MAX_SIZE \<and>
    io_fileCnt h' = length (filter (usable (io_fs h) d) (fs_inputDir (io_fs h))) \<and>
    fs_inputPos (io_fs h') = fs_inputDir (io_fs h')"
proof -
  obtain mx where mx: "dirStats_loop (io_fs h) d (fs_inputDir (io_fs h)) 0 (mutate_maxInputSz h) =
      (True, length (filter (usable (io_fs h) d) (fs_inputDir (io_fs h))), mx, [])"
    using dirStats_loop_ok [OF assms(3), of "io_fs h" d 0 "mutate_maxInputSz h"] by auto
  have dir: "inputDir (h\<lparr>io_fileCnt := 0\<rparr>) = d" using assms(1) by (simp add: inputDir_def)
  show ?thesis
    using mx assms(4)
    by (simp add: input_init_def Let_def assms(1,2) input_getDirStatsAndRewind_def dir)
       (auto simp: setInputPos_def HF_INPUT_DEFAULT_SIZE_def HF_INPUT_MAX_SIZE_def)
qed

definition demo_dir :: hfuzz_t where
  "demo_dir = demo_global\<lparr>io_inputDir := Some [100], io_fileCnt := 1,
     io_fs := demo_fs\<lparr>fs_inputDir := [DIntr, DEntry [97], DEntry [98]],
       fs_files := [[100, 47, 98] \<mapsto> [1, 2, 3]]\<rparr>\<rparr>"

theorem input_init_limits_witness:
  "\<exists>h'. input_init demo_dir = (True, h') \<and> 1 \<le> mutate_maxInputSz h' \<and>
    mutate_maxInputSz h' \<le> HF_INPUT_MAX_SIZE \<and>
    io_fileCnt h' = length (filter (usable (io_fs demo_dir) [100]) (fs_inputDir (io_fs demo_dir))) \<and>
    fs_inputPos (io_fs h') = fs_inputDir (io_fs h')"
  by (rule input_init_limits) (simp_all add: demo_dir_def demo_fs_def demo_global_def)

text \<open>C12: when the directory holds a regular file and reading it never fails, \<open>input_getNext\<close>
  with rewinding returns, and returns the name and the size of a regular file of the directory.\<close>

theorem input_getNext_returns:
  assumes "io_fileCnt h \<noteq> 0" and "DError \<notin> set (fs_inputPos (io_fs h)) \<union> set (fs_inputDir (io_fs h))"
    and "\<exists>ev\<in>set (fs_inputDir (io_fs h)). usable (io_fs h) (inputDir h) ev"
  shows "\<exists>n sz h'. input_getNext True h = Some (Some (snprintf_cut PATH_MAX n, sz), h') \<and>
    DEntry n \<in> set (fs_inputPos (io_fs h)) \<union> set (fs_inputDir (io_fs h)) \<and>
    fs_stat (io_fs h) (join_path (inputDir h) n) = Some (True, sz)"
proof -
  define es where "es = fs_inputPos (io_fs h)"
  have h: "setInputPos es h = h" by (simp add: setInputPos_def es_def)
  show ?thesis
  proof (cases "\<exists>ev\<in>set es. usable (io_fs h) (inputDir h) ev")
    case True
    with getNext_scan [of es h True] assms(1,2) h show ?thesis
      by (auto simp: input_getNext_def es_def)
  next
    case False
    then have "getNext_loop True h = getNext_loop True (setInputPos [] h)"
      using getNext_skip [of es h True] assms(2) h by (auto simp: es_def)
    also have "\<dots> = getNext_loop True (setInputPos (fs_inputDir (io_fs h)) h)"
      by (subst getNext_loop.simps) simp
    finally show ?thesis
      using getNext_scan [of "fs_inputDir (io_fs h)" h True] assms by (auto simp: input_getNext_def)
  qed
qed

theorem input_getNext_returns_witness:
  "\<exists>n sz h'. input_getNext True demo_dir = Some (Some (snprintf_cut PATH_MAX n, sz), h') \<and>
    DEntry n \<in> set (fs_inputPos (io_fs demo_dir)) \<union> set (fs_inputDir (io_fs demo_dir)) \<and>
    fs_stat (io_fs demo_dir) (join_path (inputDir demo_dir) n) = Some (True, sz)"
  by (rule input_getNext_returns)
     (simp_all add: demo_dir_def demo_fs_def demo_global_def usable_def fs_stat_def inputDir_def
       join_path_def snprintf_cut_def PATH_MAX_def)

text \<open>\<open>input_parseDictionary\<close> on a readable file whose lines have at most 1024 bytes ends
  without reading outside its buffer; the dictionary keeps the entries it had, has at most 8192
  of them with at most 512 bytes each, and the counter is their number.\<close>

theorem input_parseDictionary_bounds:
  assumes "fs_open (io_fs h) (mutate_dictionaryFile h) = Some content"
    and "\<forall>l\<in>set (getlines content). length l \<le> 1024"
    and "length (mutate_dictionary h) \<le> DICT_MAX" and "\<forall>e\<in>set (mutate_dictionary h). length e \<le> 512"
  shows "\<exists>h' d. input_parseDictionary h = Inr (True, h') \<and>
    mutate_dictionary h' = mutate_dictionary h @ d \<and>
    mutate_dictionaryCnt h' = length (mutate_dictionary h') \<and> mutate_dictionaryCnt h' \<le> DICT_MAX \<and>
    (\<forall>e\<in>set (mutate_dictionary h'). length e \<le> 512)"
  using dict_lines_ok [OF assms(2-4)] assms(1) by (auto simp: input_parseDictionary_def)

theorem input_parseDictionary_bounds_witness:
  "\<exists>h' d. input_parseDictionary (demo_global\<lparr>io_fs := demo_fs\<lparr>fs_files := [[] \<mapsto> [34, 65, 34, 10, 35, 10]]\<rparr>\<rparr>) =
      Inr (True, h') \<and> mutate_dictionary h' = [] @ d \<and>
    mutate_dictionaryCnt h' = length (mutate_dictionary h') \<and> mutate_dictionaryCnt h' \<le> DICT_MAX \<and>
    (\<forall>e\<in>set (mutate_dictionary h'). length e \<le> 512)"
  using input_parseDictionary_bounds [of "demo_global\<lparr>io_fs := demo_fs\<lparr>fs_files := [[] \<mapsto> [34, 65, 34, 10, 35, 10]]\<rparr>\<rparr>"
      "[34, 65, 34, 10, 35, 10]"]
  by (simp add: demo_global_def demo_fs_def fs_open_def getlines_def)

text \<open>A quoted word of 1024 bytes that ends in a backslash makes \<open>input_parseDictionary\<close> read
  outside of its buffer: such a dictionary file exists.\<close>

theorem input_parseDictionary_overread:
  "\<exists>h. fs_open (io_fs h) (mutate_dictionaryFile h) \<noteq> None \<and> input_parseDictionary h = Inl OutOfBounds"
proof -
  let ?line = "34 # replicate 1023 65 @ [92, 34]"
  let ?h = "demo_global\<lparr>io_fs := demo_fs\<lparr>fs_files := [[] \<mapsto> ?line]\<rparr>\<rparr>"
  have op: "fs_open (io_fs ?h) (mutate_dictionaryFile ?h) = Some ?line"
    by (simp add: demo_global_def demo_fs_def fs_open_def)
  have "getlines ?line = [?line]" by (simp add: getlines_def getlines_acc_plain)
  moreover have "dict_word ?line = Some (replicate 1023 65 @ [92])"
    using dict_word_quoted [of "replicate 1023 65 @ [92]"] by simp
  moreover have "dict_entry (replicate 1023 65 @ [92]) = Inl OutOfBounds"
    using decodeCString_open_escape [of "replicate 1023 65"] by (simp add: dict_entry_def)
  ultimately have "input_parseDictionary ?h = Inl OutOfBounds"
    by (simp only: input_parseDictionary_def op option.case)
       (simp add: demo_global_def DICT_MAX_def)
  with op show ?thesis by (intro exI [of _ ?h]) simp
qed

text \<open>C8: a blocklist that \<open>input_parseBlacklist\<close> accepts is not empty and sorted, so that the
  interpolation search in it is exact: it stops, stays inside the array, and finds a stack hash
  if and only if the file lists it.\<close>

theorem input_parseBlacklist_then_search:
  assumes "feedback_blocklist h = []" and "input_parseBlacklist h = Inr (True, h')"
    and "length (feedback_blocklist h') \<le> 2 ^ 63"
  shows "sorted (feedback_blocklist h') \<and> feedback_blocklist h' \<noteq> [] \<and>
    (\<exists>i. fastArray64Search (feedback_blocklist h') (length (feedback_blocklist h')) key = Some (Inr i) \<and>
      (i \<noteq> - 1 \<longleftrightarrow> key \<in> set (feedback_blocklist h')))"
proof -
  have s: "sorted (feedback_blocklist h')" "feedback_blocklist h' \<noteq> []"
    using assms(1,2) blacklist_lines_sorted [of "[]"]
    by (auto simp: input_parseBlacklist_def split: option.splits sum.splits if_splits)
  with fastArray64Search_finds [OF s assms(3), of key] show ?thesis by (auto split: if_splits)
qed

definition demo_blocklist :: hfuzz_t where
  "demo_blocklist = demo_global\<lparr>io_fs := demo_fs\<lparr>fs_files := [[] \<mapsto> [49, 10, 50, 48, 10]]\<rparr>\<rparr>"

lemma demo_blocklist_parsed:
  "input_parseBlacklist demo_blocklist = Inr (True, demo_blocklist\<lparr>feedback_blocklist := [1, 32]\<rparr>)"
  by (simp add: demo_blocklist_def demo_global_def demo_fs_def input_parseBlacklist_def fs_open_def getlines_def
      cstr_def strtoull16_def strip_sign_def strip_0x_def hex_value_def xdigit_def isspace_def Let_def)

theorem input_parseBlacklist_then_search_witness:
  "sorted (feedback_blocklist (demo_blocklist\<lparr>feedback_blocklist := [1, 32]\<rparr>)) \<and>
    feedback_blocklist (demo_blocklist\<lparr>feedback_blocklist := [1, 32]\<rparr>) \<noteq> [] \<and>
    (\<exists>i. fastArray64Search (feedback_blocklist (demo_blocklist\<lparr>feedback_blocklist := [1, 32]\<rparr>))
        (length (feedback_blocklist (demo_blocklist\<lparr>feedback_blocklist := [1, 32]\<rparr>))) 32 = Some (Inr i) \<and>
      (i \<noteq> - 1 \<longleftrightarrow> 32 \<in> set (feedback_blocklist (demo_blocklist\<lparr>feedback_blocklist := [1, 32]\<rparr>))))"
  by (rule input_parseBlacklist_then_search [OF _ demo_blocklist_parsed])
     (simp_all add: demo_blocklist_def demo_global_def)

text \<open>The name of a corpus file determines both checksums and the size of its contents: inputs
  that differ in one of them are stored under different names.\<close>

theorem input_generateFileName_inj:
  assumes "input_generateFileName df None = input_generateFileName df' None"
    and "file_ok df" and "file_ok df'"
  shows "util_CRC64 (d_data df) = util_CRC64 (d_data df') \<and>
    util_CRC64Rev (d_data df) = util_CRC64Rev (d_data df') \<and> d_size df = d_size df'"
proof -
  have "length (cov_name x) = 55" for x by (simp add: cov_name_def str_def)
  then have "snprintf_cut PATH_MAX (cov_name x) = cov_name x" for x
    by (simp add: snprintf_cut_def PATH_MAX_def)
  with assms(1) have "cov_name df = cov_name df'" by (simp add: input_generateFileName_def)
  from cov_name_inj [OF this] show ?thesis
    using assms(2,3) by (simp add: file_ok_def HF_INPUT_MAX_SIZE_def)
qed

theorem input_generateFileName_inj_witness:
  "util_CRC64 (d_data (demo_file [1])) = util_CRC64 (d_data ((demo_file [1])\<lparr>d_idx := 4\<rparr>)) \<and>
    util_CRC64Rev (d_data (demo_file [1])) = util_CRC64Rev (d_data ((demo_file [1])\<lparr>d_idx := 4\<rparr>)) \<and>
    d_size (demo_file [1]) = d_size ((demo_file [1])\<lparr>d_idx := 4\<rparr>)"
  by (rule input_generateFileName_inj)
     (simp_all add: input_generateFileName_def cov_name_def demo_file_def file_ok_def HF_INPUT_MAX_SIZE_def)

end
