(* ===== verification/HF_ValSearch.thy ===== *)
theory HF_ValSearch
  imports HF_Util
begin

text \<open>
  The search for constants in the program's own image (end of
  \<open>honggfuzz/libhfcommon/util.c\<close>): the segments that \<open>dl_iterate_phdr\<close> reports, the scan
  of a segment for a value, and the alternative that collects the values of the read-only
  segments once, sorts them, removes duplicates and searches them by bisection.

  The 32-bit and the 64-bit variants of the source differ in the width of the values only;
  a definition takes the width \<open>n\<close> in bytes, and values are kept in 64 bits.
\<close>

section \<open>Segments\<close>

text \<open>
  \<open>p_bytes\<close> are the bytes that are mapped from the start of the segment on; they may extend
  beyond the segment, to the end of its last page.
\<close>

record phdr_t =
  p_load :: bool
  p_r :: bool
  p_w :: bool
  p_start :: u64            \<comment> \<open>\<open>dlpi_addr + p_vaddr\<close>\<close>
  p_memsz :: nat
  p_filesz :: nat
  p_bytes :: "byte list"

record dl_phdr_info =
  dlpi_name :: "byte list"
  dlpi_phdr :: "phdr_t list"

definition seg_size :: "phdr_t \<Rightarrow> nat" where
  "seg_size ph = min (p_memsz ph) (p_filesz ph)"

datatype lhfc_addr_t = LHFC_ADDR_NOTFOUND | LHFC_ADDR_RO | LHFC_ADDR_RW

fun addrStatic_cb :: "phdr_t list \<Rightarrow> u64 \<Rightarrow> lhfc_addr_t" where
  "addrStatic_cb [] data = LHFC_ADDR_NOTFOUND"
| "addrStatic_cb (ph # phs) data =
     (if \<not> p_load ph then addrStatic_cb phs data
      else if p_start ph \<le> data \<and> data < p_start ph + of_nat (seg_size ph)
      then (if \<not> p_w ph then LHFC_ADDR_RO else LHFC_ADDR_RW)
      else addrStatic_cb phs data)"

text \<open>\<open>dl_iterate_phdr\<close> stops at the first callback that does not return 0.\<close>

fun util_getProgAddr :: "dl_phdr_info list \<Rightarrow> u64 \<Rightarrow> lhfc_addr_t" where
  "util_getProgAddr [] addr = LHFC_ADDR_NOTFOUND"
| "util_getProgAddr (i # is) addr =
     (let r = addrStatic_cb (dlpi_phdr i) addr
      in if r \<noteq> LHFC_ADDR_NOTFOUND then r else util_getProgAddr is addr)"

section \<open>Scanning\<close>

definition le_word :: "byte list \<Rightarrow> u64" where
  "le_word bs = horner_sum ucast 256 bs"

text \<open>The loop over the aligned values of a segment, which ends at the first hit.\<close>

function scan_words :: "nat \<Rightarrow> byte list \<Rightarrow> nat \<Rightarrow> nat \<Rightarrow> u64 \<Rightarrow> fault + bool" where
  "scan_words n bs sz off v =
     (if off \<ge> sz \<or> n = 0 then Inr False
      else if off + n > length bs then Inl OutOfBounds
      else if le_word (take n (drop off bs)) = v then Inr True
      else scan_words n bs sz (off + n) v)"
  by pat_completeness auto
termination
  by (relation "measure (\<lambda>(n, bs, sz, off, v). sz - off)") auto

declare scan_words.simps [simp del]

text \<open>\<open>check32_cb\<close> and \<open>check64_cb\<close>: \<open>flag\<close> is the required ELF flag.\<close>

fun check_cb :: "nat \<Rightarrow> (phdr_t \<Rightarrow> bool) \<Rightarrow> byte list \<Rightarrow> phdr_t list \<Rightarrow> u64 \<Rightarrow> fault + bool" where
  "check_cb n flag name [] v = Inr False"
| "check_cb n flag name (ph # phs) v =
     (if name \<noteq> [] \<or> \<not> p_load ph \<or> \<not> flag ph then check_cb n flag name phs v
      else case scan_words n (p_bytes ph) (seg_size ph) 0 v of
             Inl e \<Rightarrow> Inl e
           | Inr True \<Rightarrow> Inr True
           | Inr False \<Rightarrow> check_cb n flag name phs v)"

fun iterate_check :: "nat \<Rightarrow> (phdr_t \<Rightarrow> bool) \<Rightarrow> dl_phdr_info list \<Rightarrow> u64 \<Rightarrow> fault + bool" where
  "iterate_check n flag [] v = Inr False"
| "iterate_check n flag (i # is) v =
     (case check_cb n flag (dlpi_name i) (dlpi_phdr i) v of
        Inl e \<Rightarrow> Inl e
      | Inr True \<Rightarrow> Inr True
      | Inr False \<Rightarrow> iterate_check n flag is v)"

section \<open>Collecting\<close>

text \<open>The growing array: its contents and its capacity.\<close>

type_synonym varr = "u64 list \<times> nat"

definition push_value :: "nat \<Rightarrow> u64 \<Rightarrow> varr \<Rightarrow> fault + varr" where
  "push_value n w a = (case a of (vals, cap) \<Rightarrow>
     if w = 0 \<or> w = of_nat (2 ^ (8 * n) - 1) then Inr (vals, cap)
     else if length vals > cap then Inl LogFatal
     else
       let cap = (if length vals = cap then sz_mul (if cap = 0 then 1024 else cap) 2 else cap)
       in if length vals \<ge> cap then Inl OutOfBounds else Inr (vals @ [w], cap))"

function collect_words :: "nat \<Rightarrow> byte list \<Rightarrow> nat \<Rightarrow> nat \<Rightarrow> varr \<Rightarrow> fault + varr" where
  "collect_words n bs sz off a =
     (if off \<ge> sz \<or> n = 0 then Inr a
      else if off + n > length bs then Inl OutOfBounds
      else case push_value n (le_word (take n (drop off bs))) a of
             Inl e \<Rightarrow> Inl e
           | Inr a \<Rightarrow> collect_words n bs sz (off + n) a)"
  by pat_completeness auto
termination
  by (relation "measure (\<lambda>(n, bs, sz, off, a). sz - off)") auto

declare collect_words.simps [simp del]

text \<open>The callback collects the 32-bit and then the 64-bit values of every read-only segment.\<close>

fun collectValuesInBinary_cb ::
  "byte list \<Rightarrow> phdr_t list \<Rightarrow> varr \<times> varr \<Rightarrow> fault + varr \<times> varr" where
  "collectValuesInBinary_cb name [] a = Inr a"
| "collectValuesInBinary_cb name (ph # phs) (a32, a64) =
     (if name \<noteq> [] \<or> \<not> p_load ph \<or> \<not> p_r ph \<or> p_w ph then collectValuesInBinary_cb name phs (a32, a64)
      else case collect_words 4 (p_bytes ph) (seg_size ph) 0 a32 of
             Inl e \<Rightarrow> Inl e
           | Inr a32 \<Rightarrow>
               (case collect_words 8 (p_bytes ph) (seg_size ph) 0 a64 of
                  Inl e \<Rightarrow> Inl e
                | Inr a64 \<Rightarrow> collectValuesInBinary_cb name phs (a32, a64)))"

fun iterate_collect :: "dl_phdr_info list \<Rightarrow> varr \<times> varr \<Rightarrow> fault + varr \<times> varr" where
  "iterate_collect [] a = Inr a"
| "iterate_collect (i # is) a =
     (case collectValuesInBinary_cb (dlpi_name i) (dlpi_phdr i) a of
        Inl e \<Rightarrow> Inl e
      | Inr a \<Rightarrow> iterate_collect is a)"

text \<open>
  Removing duplicates in place: \<open>vals\<close> is the array, \<open>i\<close> the read index, \<open>new_size\<close> the
  write index.
\<close>

function dedup_loop :: "u64 list \<Rightarrow> nat \<Rightarrow> nat \<Rightarrow> u64 \<Rightarrow> fault + u64 list \<times> nat" where
  "dedup_loop vals i new_size previous_value =
     (if i \<ge> length vals then Inr (vals, new_size)
      else
        let current_value = vals ! i
        in if current_value \<noteq> previous_value
           then if new_size \<ge> length vals then Inl OutOfBounds
                else dedup_loop (vals[new_size := current_value]) (i + 1) (new_size + 1) current_value
           else dedup_loop vals (i + 1) new_size current_value)"
  by pat_completeness auto
termination
  by (relation "measure (\<lambda>(vals, i, m, p). length vals - i)") auto

declare dedup_loop.simps [simp del]

definition dedup :: "u64 list \<Rightarrow> fault + u64 list" where
  "dedup vals =
     (case vals of
        [] \<Rightarrow> Inr []
      | v # _ \<Rightarrow> (case dedup_loop vals 1 1 v of Inl e \<Rightarrow> Inl e | Inr (vals, m) \<Rightarrow> Inr (take m vals)))"

text \<open>\<open>qsort\<close> with \<open>cmp_u32\<close> or \<open>cmp_u64\<close> leaves the sorted array.\<close>

definition collectValuesInBinary :: "dl_phdr_info list \<Rightarrow> fault + u64 list \<times> u64 list" where
  "collectValuesInBinary infos =
     (case iterate_collect infos (([], 0), ([], 0)) of
        Inl e \<Rightarrow> Inl e
      | Inr (a32, a64) \<Rightarrow>
          (case dedup (sort (fst a32)) of
             Inl e \<Rightarrow> Inl e
           | Inr v32 \<Rightarrow> (case dedup (sort (fst a64)) of Inl e \<Rightarrow> Inl e | Inr v64 \<Rightarrow> Inr (v32, v64))))"

text \<open>
  The bisection, \<open>while (l != r)\<close>. With \<open>l\<close> past \<open>r\<close> the loop of the source would go on outside the
  range; the model counts that as a fault, and the properties show that it does not happen.
\<close>

function bisect_loop :: "u64 list \<Rightarrow> u64 \<Rightarrow> nat \<Rightarrow> nat \<Rightarrow> fault + nat" where
  "bisect_loop vals v l r =
     (if l = r then Inr l
      else if r < l \<or> (l + r) div 2 \<ge> length vals then Inl OutOfBounds
      else
        let mid = (l + r) div 2
        in if vals ! mid < v then bisect_loop vals v (mid + 1) r else bisect_loop vals v l mid)"
  by pat_completeness auto
termination
  by (relation "measure (\<lambda>(vals, v, l, r). r - l)") auto

declare bisect_loop.simps [simp del]

definition bisect :: "u64 list \<Rightarrow> u64 \<Rightarrow> fault + bool" where
  "bisect vals v =
     (if vals = [] then Inr False
      else case bisect_loop vals v 0 (length vals - 1) of
             Inl e \<Rightarrow> Inl e
           | Inr l \<Rightarrow> (case buf_get vals l of None \<Rightarrow> Inl OutOfBounds | Some x \<Rightarrow> Inr (x = v)))"

text \<open>
  \<open>util_32bitValInBinary\<close> (\<open>n = 4\<close>) and \<open>util_64bitValInBinary\<close> (\<open>n = 8\<close>);
  \<open>collect\<close> is \<open>_HF_COMMON_BIN_COLLECT_VALS\<close>.
\<close>

definition valInBinary :: "bool \<Rightarrow> nat \<Rightarrow> dl_phdr_info list \<Rightarrow> u64 \<Rightarrow> fault + bool" where
  "valInBinary collect n infos v =
     (if \<not> collect then iterate_check n p_r infos v
      else case collectValuesInBinary infos of
             Inl e \<Rightarrow> Inl e
           | Inr (values32, values64) \<Rightarrow>
               (case bisect (if n = 4 then values32 else values64) v of
                  Inl e \<Rightarrow> Inl e
                | Inr True \<Rightarrow> Inr True
                | Inr False \<Rightarrow> iterate_check n p_w infos v))"

definition util_32bitValInBinary :: "bool \<Rightarrow> dl_phdr_info list \<Rightarrow> u32 \<Rightarrow> fault + bool" where
  "util_32bitValInBinary collect infos v = valInBinary collect 4 infos (ucast v)"

definition util_64bitValInBinary :: "bool \<Rightarrow> dl_phdr_info list \<Rightarrow> u64 \<Rightarrow> fault + bool" where
  "util_64bitValInBinary collect infos v = valInBinary collect 8 infos v"

section \<open>What a scan finds\<close>

text \<open>The values of a segment, and that all of them are mapped.\<close>

definition seg_values :: "nat \<Rightarrow> phdr_t \<Rightarrow> u64 list" where
  "seg_values n ph =
     map (\<lambda>i. le_word (take n (drop (n * i) (p_bytes ph)))) [0 ..< (seg_size ph + (n - 1)) div n]"

definition seg_mapped :: "nat \<Rightarrow> phdr_t \<Rightarrow> bool" where
  "seg_mapped n ph \<longleftrightarrow> n * ((seg_size ph + (n - 1)) div n) \<le> length (p_bytes ph)"

text \<open>The segments of the program itself that satisfy a condition.\<close>

definition prog_segs :: "(phdr_t \<Rightarrow> bool) \<Rightarrow> dl_phdr_info list \<Rightarrow> phdr_t list" where
  "prog_segs c infos = concat (map (\<lambda>i. if dlpi_name i = [] then filter (\<lambda>ph. p_load ph \<and> c ph) (dlpi_phdr i)
     else []) infos)"

lemma ceil_div: "0 < n \<Longrightarrow> sz \<le> n * i \<longleftrightarrow> (sz + (n - 1)) div n \<le> i" for n sz i :: nat
proof -
  assume n: "0 < n"
  have "(sz + (n - 1)) div n \<le> i \<longleftrightarrow> (sz + (n - 1)) div n < Suc i" by (rule less_Suc_eq_le [symmetric])
  also have "\<dots> \<longleftrightarrow> sz + (n - 1) < Suc i * n" using n by (rule div_less_iff_less_mult)
  also have "\<dots> \<longleftrightarrow> sz \<le> n * i" using n by (simp add: mult.commute) linarith
  finally show ?thesis ..
qed

lemma seg_step:
  assumes n: "0 < n" and m: "seg_mapped n ph" and i: "i < (seg_size ph + (n - 1)) div n"
  shows "\<not> seg_size ph \<le> n * i" and "n * i + n \<le> length (p_bytes ph)"
    and "drop i (seg_values n ph) = le_word (take n (drop (n * i) (p_bytes ph))) # drop (Suc i) (seg_values n ph)"
proof -
  show "\<not> seg_size ph \<le> n * i" using ceil_div [OF n, of "seg_size ph" i] i by linarith
  have "n * i + n \<le> n * ((seg_size ph + (n - 1)) div n)"
    using i by (metis mult_Suc_right add.commute Suc_leI mult_le_mono2)
  then show "n * i + n \<le> length (p_bytes ph)" using m by (simp add: seg_mapped_def)
  show "drop i (seg_values n ph) = le_word (take n (drop (n * i) (p_bytes ph))) # drop (Suc i) (seg_values n ph)"
    using i by (subst Cons_nth_drop_Suc [symmetric]) (simp_all add: seg_values_def)
qed

lemma scan_words_from:
  assumes n: "0 < n" and m: "seg_mapped n ph"
  shows "scan_words n (p_bytes ph) (seg_size ph) (n * i) v = Inr (v \<in> set (drop i (seg_values n ph)))"
proof (induction "(seg_size ph + (n - 1)) div n - i" arbitrary: i)
  case 0
  then have "seg_size ph \<le> n * i" using ceil_div [OF n] by simp
  then show ?case using 0 by (subst scan_words.simps) (simp add: seg_values_def drop_map)
next
  case (Suc d)
  have i: "i < (seg_size ph + (n - 1)) div n" using Suc(2) by simp
  have "scan_words n (p_bytes ph) (seg_size ph) (n * Suc i) v =
      Inr (v \<in> set (drop (Suc i) (seg_values n ph)))"
    using Suc(2) by (intro Suc(1)) simp
  then show ?case
    using seg_step [OF n m i] n by (subst scan_words.simps) (auto simp: add.commute)
qed

lemma check_cb_ok:
  assumes "0 < n" and "\<forall>ph\<in>set phs. p_load ph \<and> flag ph \<longrightarrow> seg_mapped n ph"
  shows "check_cb n flag name phs v =
    Inr (name = [] \<and> (\<exists>ph\<in>set phs. p_load ph \<and> flag ph \<and> v \<in> set (seg_values n ph)))"
  using assms(2)
proof (induction phs)
  case (Cons ph phs)
  then show ?case
    using scan_words_from [OF assms(1), of ph 0 v] by (auto split: bool.splits)
qed simp

lemma iterate_check_ok:
  assumes "0 < n" and "\<forall>ph\<in>set (prog_segs flag infos). seg_mapped n ph"
  shows "iterate_check n flag infos v = Inr (\<exists>ph\<in>set (prog_segs flag infos). v \<in> set (seg_values n ph))"
  using assms(2)
proof (induction infos)
  case (Cons i infos)
  have "check_cb n flag (dlpi_name i) (dlpi_phdr i) v = Inr (dlpi_name i = [] \<and>
      (\<exists>ph\<in>set (dlpi_phdr i). p_load ph \<and> flag ph \<and> v \<in> set (seg_values n ph)))"
  proof (cases "dlpi_name i = []")
    case True
    then show ?thesis using Cons.prems by (intro check_cb_ok assms(1)) (auto simp: prog_segs_def)
  next
    case False
    have "check_cb n flag (dlpi_name i) phs v = Inr False" for phs using False by (induction phs) auto
    with False show ?thesis by simp
  qed
  then show ?case using Cons by (auto simp: prog_segs_def split: bool.splits if_splits)
qed (simp add: prog_segs_def)

section \<open>What collecting yields\<close>

definition interesting :: "nat \<Rightarrow> u64 \<Rightarrow> bool" where
  "interesting n w \<longleftrightarrow> w \<noteq> 0 \<and> w \<noteq> of_nat (2 ^ (8 * n) - 1)"

text \<open>The capacity is never below the size and never far above it.\<close>

definition cap_ok :: "varr \<Rightarrow> bool" where
  "cap_ok a \<longleftrightarrow> length (fst a) \<le> snd a \<and> snd a \<le> 2048 + 2 * length (fst a)"

text \<open>The array \<open>b\<close> is the array \<open>a\<close> with the interesting values of \<open>xs\<close> added; there is room
  for \<open>xs\<close> in \<open>a\<close>.\<close>

definition grown :: "nat \<Rightarrow> u64 list \<Rightarrow> varr \<Rightarrow> varr \<Rightarrow> bool" where
  "grown n xs a b \<longleftrightarrow> fst b = fst a @ filter (interesting n) xs \<and> cap_ok b"

definition room :: "u64 list \<Rightarrow> varr \<Rightarrow> bool" where
  "room xs a \<longleftrightarrow> cap_ok a \<and> length (fst a) + length xs < 2 ^ 61"

lemma grown_refl: "room xs a \<Longrightarrow> grown n [] a a"
  by (simp add: grown_def room_def)

lemma grown_trans: "grown n xs a b \<Longrightarrow> grown n ys b c \<Longrightarrow> grown n (xs @ ys) a c"
  by (simp add: grown_def)

lemma room_grown: "room (xs @ ys) a \<Longrightarrow> grown n xs a b \<Longrightarrow> room ys b"
  using length_filter_le [of "interesting n" xs] by (auto simp: room_def grown_def simp del: length_filter_le)

lemma room_prefix: "room (xs @ ys) a \<Longrightarrow> room xs a"
  by (auto simp: room_def)

lemma push_value_ok:
  assumes "room [w] a"
  shows "\<exists>b. push_value n w a = Inr b \<and> grown n [w] a b"
  using assms
  by (cases a) (auto simp: push_value_def cap_ok_def interesting_def Let_def sz_mul_def grown_def room_def)

lemma collect_words_from:
  assumes n: "0 < n" and m: "seg_mapped n ph" and "room (drop i (seg_values n ph)) a"
  shows "\<exists>b. collect_words n (p_bytes ph) (seg_size ph) (n * i) a = Inr b \<and>
    grown n (drop i (seg_values n ph)) a b"
  using assms(3)
proof (induction "(seg_size ph + (n - 1)) div n - i" arbitrary: i a)
  case 0
  then have "seg_size ph \<le> n * i" using ceil_div [OF n] by simp
  then show ?case using 0 by (subst collect_words.simps) (auto simp: seg_values_def drop_map intro: grown_refl)
next
  case (Suc d)
  let ?w = "le_word (take n (drop (n * i) (p_bytes ph)))"
  have i: "i < (seg_size ph + (n - 1)) div n" using Suc(2) by simp
  note st = seg_step [OF n m i]
  have rm: "room ([?w] @ drop (Suc i) (seg_values n ph)) a" using Suc(3) st(3) by simp
  obtain b where b: "push_value n ?w a = Inr b" "grown n [?w] a b"
    using push_value_ok [OF room_prefix [OF rm], of n] by blast
  have "\<exists>c. collect_words n (p_bytes ph) (seg_size ph) (n * Suc i) b = Inr c \<and>
      grown n (drop (Suc i) (seg_values n ph)) b c"
    using Suc(2) by (intro Suc(1) room_grown [OF rm b(2)]) simp
  then obtain c where c: "collect_words n (p_bytes ph) (seg_size ph) (n * Suc i) b = Inr c"
      "grown n (drop (Suc i) (seg_values n ph)) b c" by blast
  then show ?case
    using st n b(1) grown_trans [OF b(2) c(2)] by (subst collect_words.simps) (auto simp: add.commute)
qed

lemmas collect_segment = collect_words_from [where i = 0, simplified]

abbreviation seg_concat :: "nat \<Rightarrow> phdr_t list \<Rightarrow> u64 list" where
  "seg_concat n phs \<equiv> concat (map (seg_values n) phs)"

definition grown2 :: "phdr_t list \<Rightarrow> varr \<times> varr \<Rightarrow> varr \<times> varr \<Rightarrow> bool" where
  "grown2 phs a b \<longleftrightarrow> grown 4 (seg_concat 4 phs) (fst a) (fst b) \<and> grown 8 (seg_concat 8 phs) (snd a) (snd b)"

definition room2 :: "phdr_t list \<Rightarrow> varr \<times> varr \<Rightarrow> bool" where
  "room2 phs a \<longleftrightarrow> room (seg_concat 4 phs) (fst a) \<and> room (seg_concat 8 phs) (snd a) \<and>
     (\<forall>ph\<in>set phs. seg_mapped 4 ph \<and> seg_mapped 8 ph)"

lemma grown2_refl: "room2 xs a \<Longrightarrow> grown2 [] a a"
  by (auto simp: grown2_def room2_def grown_refl)

lemma grown2_trans: "grown2 xs a b \<Longrightarrow> grown2 ys b c \<Longrightarrow> grown2 (xs @ ys) a c"
  by (auto simp: grown2_def intro: grown_trans)

lemma room2_grown: "room2 (xs @ ys) a \<Longrightarrow> grown2 xs a b \<Longrightarrow> room2 ys b"
  by (auto simp: room2_def grown2_def dest: room_grown)

lemma room2_prefix: "room2 (xs @ ys) a \<Longrightarrow> room2 xs a"
  by (auto simp: room2_def dest: room_prefix)

lemma collect_both:
  assumes "room2 [ph] (a32, a64)"
  shows "\<exists>b32 b64. collect_words 4 (p_bytes ph) (seg_size ph) 0 a32 = Inr b32 \<and>
    collect_words 8 (p_bytes ph) (seg_size ph) 0 a64 = Inr b64 \<and> grown2 [ph] (a32, a64) (b32, b64)"
  using assms collect_segment [of 4 ph a32] collect_segment [of 8 ph a64]
  by (auto simp: room2_def grown2_def)

definition ro_segs :: "phdr_t list \<Rightarrow> phdr_t list" where
  "ro_segs phs = filter (\<lambda>ph. p_load ph \<and> p_r ph \<and> \<not> p_w ph) phs"

lemma collect_cb_ok:
  assumes "room2 (ro_segs phs) a"
  shows "\<exists>b. collectValuesInBinary_cb [] phs a = Inr b \<and> grown2 (ro_segs phs) a b"
  using assms
proof (induction phs arbitrary: a)
  case Nil
  then show ?case by (auto simp: ro_segs_def intro: grown2_refl)
next
  case (Cons ph phs)
  obtain a32 a64 where a: "a = (a32, a64)" by (rule prod.exhaust)
  show ?case
  proof (cases "p_load ph \<and> p_r ph \<and> \<not> p_w ph")
    case False
    then have "ro_segs (ph # phs) = ro_segs phs" by (auto simp: ro_segs_def)
    with False Cons.IH [of a] Cons.prems a show ?thesis by auto
  next
    case True
    then have ro: "ro_segs (ph # phs) = [ph] @ ro_segs phs" by (simp add: ro_segs_def)
    note rm = Cons.prems [unfolded ro a]
    obtain b32 b64 where b: "collect_words 4 (p_bytes ph) (seg_size ph) 0 a32 = Inr b32"
        "collect_words 8 (p_bytes ph) (seg_size ph) 0 a64 = Inr b64" "grown2 [ph] (a32, a64) (b32, b64)"
      using collect_both [OF room2_prefix [OF rm]] by blast
    obtain c where "collectValuesInBinary_cb [] phs (b32, b64) = Inr c" "grown2 (ro_segs phs) (b32, b64) c"
      using Cons.IH [OF room2_grown [OF rm b(3)]] by blast
    with b True show ?thesis unfolding ro a using grown2_trans [OF b(3)] by auto
  qed
qed

abbreviation prog_ro :: "dl_phdr_info list \<Rightarrow> phdr_t list" where
  "prog_ro \<equiv> prog_segs (\<lambda>ph. p_r ph \<and> \<not> p_w ph)"

lemma collect_cb_library: "name \<noteq> [] \<Longrightarrow> collectValuesInBinary_cb name phs a = Inr a"
  by (induction phs arbitrary: a) auto

lemma iterate_collect_ok:
  assumes "room2 (prog_ro infos) a"
  shows "\<exists>b. iterate_collect infos a = Inr b \<and> grown2 (prog_ro infos) a b"
  using assms
proof (induction infos arbitrary: a)
  case Nil
  then show ?case by (auto simp: prog_segs_def intro: grown2_refl)
next
  case (Cons i infos)
  show ?case
  proof (cases "dlpi_name i = []")
    case False
    then have "prog_ro (i # infos) = prog_ro infos" by (simp add: prog_segs_def)
    with False Cons show ?thesis by (simp add: collect_cb_library)
  next
    case True
    then have ps: "prog_ro (i # infos) = ro_segs (dlpi_phdr i) @ prog_ro infos"
      by (simp add: prog_segs_def ro_segs_def)
    note rm = Cons.prems [unfolded ps]
    obtain b where b: "collectValuesInBinary_cb [] (dlpi_phdr i) a = Inr b" "grown2 (ro_segs (dlpi_phdr i)) a b"
      using collect_cb_ok [OF room2_prefix [OF rm]] by blast
    obtain c where "iterate_collect infos b = Inr c" "grown2 (prog_ro infos) b c"
      using Cons.IH [OF room2_grown [OF rm b(2)]] by blast
    with b True show ?thesis unfolding ps using grown2_trans [OF b(2)] by auto
  qed
qed

section \<open>Removing duplicates and bisection\<close>

lemma dedup_loop_ok:
  assumes "m \<le> i" and "i \<le> length vals"
  shows "\<exists>vals' k. dedup_loop vals i m prev = Inr (vals', k) \<and>
    take k vals' = take m vals @ tl (remdups_adj (prev # drop i vals))"
  using assms
proof (induction vals i m prev rule: dedup_loop.induct)
  case (1 vals i m prev)
  show ?case
  proof (cases "i < length vals")
    case False
    with 1(4) show ?thesis by (subst dedup_loop.simps) simp
  next
    case True
    let ?cur = "vals ! i"
    have dr: "drop i vals = ?cur # drop (Suc i) vals" using True by (simp add: Cons_nth_drop_Suc)
    have hd: "remdups_adj (?cur # xs) = ?cur # tl (remdups_adj (?cur # xs))" for xs by simp
    show ?thesis
    proof (cases "?cur = prev")
      case same: True
      then show ?thesis
        using 1(2) [OF _ refl] 1(3) True dr by (subst dedup_loop.simps) auto
    next
      case False
      have "take (Suc m) (vals[m := ?cur]) = take m vals @ [?cur]"
        using 1(3) True by (simp add: take_Suc_conv_app_nth)
      moreover have "drop (Suc i) (vals[m := ?cur]) = drop (Suc i) vals" using 1(3) by simp
      ultimately show ?thesis
        using 1(1) [OF _ refl] 1(3) True False dr hd [of "drop (Suc i) vals"]
        by (subst dedup_loop.simps) (auto simp: Let_def)
    qed
  qed
qed

lemma dedup_eq: "dedup vals = Inr (remdups_adj vals)"
proof (cases vals)
  case (Cons x xs)
  then obtain vals' k where "dedup_loop vals 1 1 x = Inr (vals', k)"
      "take k vals' = take 1 vals @ tl (remdups_adj (x # drop 1 vals))"
    using dedup_loop_ok [of 1 1 vals x] by auto
  with Cons show ?thesis by (simp add: dedup_def)
qed (simp add: dedup_def)

lemma bisect_loop_finds:
  assumes "l \<le> r" and "r < length vals"
  shows "\<exists>k. bisect_loop vals v l r = Inr k \<and> l \<le> k \<and> k \<le> r \<and>
    (sorted vals \<longrightarrow> (\<forall>i. l \<le> i \<and> i \<le> r \<and> vals ! i = v \<longrightarrow> vals ! k = v))"
  using assms
proof (induction vals v l r rule: bisect_loop.induct)
  case (1 vals v l r)
  show ?case
  proof (cases "l = r")
    case True
    then show ?thesis by (subst bisect_loop.simps) auto
  next
    case False
    let ?mid = "(l + r) div 2"
    have mid: "l \<le> ?mid" "?mid < r" "?mid < length vals" using False 1(3,4) by auto
    then have ok: "\<not> (r < l \<or> ?mid \<ge> length vals)" using 1(3) by auto
    show ?thesis
    proof (cases "vals ! ?mid < v")
      case True
      from 1(1) [OF False ok refl True] mid 1(4) obtain k where
        k: "bisect_loop vals v (?mid + 1) r = Inr k" "?mid + 1 \<le> k" "k \<le> r"
          "sorted vals \<longrightarrow> (\<forall>i. ?mid + 1 \<le> i \<and> i \<le> r \<and> vals ! i = v \<longrightarrow> vals ! k = v)" by auto
      have "?mid + 1 \<le> i" if "sorted vals" "vals ! i = v" for i
        using sorted_nth_mono [OF that(1), of i ?mid] that(2) True mid(3) by (cases "?mid < i") auto
      then have at: "vals ! k = v" if "sorted vals" "l \<le> i" "i \<le> r" "vals ! i = v" for i
        using k(4) that by blast
      have "bisect_loop vals v l r = Inr k"
        using k(1) False ok True by (subst bisect_loop.simps) (simp add: Let_def)
      moreover have "l \<le> k" "k \<le> r" using k(2,3) mid by linarith+
      ultimately show ?thesis using at by blast
    next
      case right: False
      from 1(2) [OF False ok refl right] mid obtain k where
        k: "bisect_loop vals v l ?mid = Inr k" "l \<le> k" "k \<le> ?mid"
          "sorted vals \<longrightarrow> (\<forall>i. l \<le> i \<and> i \<le> ?mid \<and> vals ! i = v \<longrightarrow> vals ! k = v)" by auto
      have "vals ! ?mid = v" if "sorted vals" "vals ! i = v" "?mid \<le> i" "i \<le> r" for i
        using sorted_nth_mono [OF that(1,3)] that right 1(4) by auto
      then have at: "vals ! k = v" if "sorted vals" "l \<le> i" "i \<le> r" "vals ! i = v" for i
        using k(4) that mid by (cases "i \<le> ?mid") auto
      have "bisect_loop vals v l r = Inr k"
        using k(1) False ok right by (subst bisect_loop.simps) (simp add: Let_def)
      moreover have "l \<le> k" "k \<le> r" using k(2,3) mid by linarith+
      ultimately show ?thesis using at by blast
    qed
  qed
qed

lemma bisect_mem:
  assumes "sorted vals"
  shows "bisect vals v = Inr (v \<in> set vals)"
proof (cases "vals = []")
  case False
  then have "length vals - 1 < length vals" by simp
  from bisect_loop_finds [OF _ this, of 0 v] assms obtain k where
    k: "bisect_loop vals v 0 (length vals - 1) = Inr k" "k \<le> length vals - 1"
      and at: "\<And>i. i \<le> length vals - 1 \<Longrightarrow> vals ! i = v \<Longrightarrow> vals ! k = v" by blast
  have less: "k < length vals" using k(2) False by (cases vals) auto
  have "vals ! k = v \<longleftrightarrow> v \<in> set vals"
  proof
    show "vals ! k = v \<Longrightarrow> v \<in> set vals" using less nth_mem by blast
    show "vals ! k = v" if mem: "v \<in> set vals"
    proof -
      obtain i where "i < length vals" "vals ! i = v" using mem by (auto simp: in_set_conv_nth)
      then show ?thesis by (intro at [of i]) auto
    qed
  qed
  then show ?thesis using False k(1) less by (simp add: bisect_def buf_get_def)
qed (simp add: bisect_def)

section \<open>The two searches agree\<close>

text \<open>What the code relies on: the program's segments are mapped (to whole words), and the
  number of their words fits into the address space.\<close>

definition image_ok :: "dl_phdr_info list \<Rightarrow> bool" where
  "image_ok infos \<longleftrightarrow>
     (\<forall>ph\<in>set (prog_segs (\<lambda>_. True) infos). seg_mapped 4 ph \<and> seg_mapped 8 ph \<and> (p_w ph \<longrightarrow> p_r ph)) \<and>
     length (seg_concat 4 (prog_ro infos)) < 2 ^ 61 \<and> length (seg_concat 8 (prog_ro infos)) < 2 ^ 61"

lemma prog_segs_sub: "set (prog_segs c infos) = {ph \<in> set (prog_segs (\<lambda>_. True) infos). c ph}"
  by (auto simp: prog_segs_def split: if_splits)

lemma collect_ok:
  assumes "image_ok infos"
  shows "\<exists>v32 v64. collectValuesInBinary infos = Inr (v32, v64) \<and> sorted v32 \<and> sorted v64 \<and>
    set v32 = set (filter (interesting 4) (seg_concat 4 (prog_ro infos))) \<and>
    set v64 = set (filter (interesting 8) (seg_concat 8 (prog_ro infos)))"
proof -
  have "room2 (prog_ro infos) (([], 0), ([], 0))"
    using assms prog_segs_sub [of "\<lambda>ph. p_r ph \<and> \<not> p_w ph" infos]
    by (auto simp: room2_def room_def cap_ok_def image_ok_def)
  then obtain b where b: "iterate_collect infos (([], 0), ([], 0)) = Inr b"
      "grown2 (prog_ro infos) (([], 0), ([], 0)) b"
    using iterate_collect_ok by blast
  obtain a32 a64 where ab: "b = (a32, a64)" by (rule prod.exhaust)
  with b have "collectValuesInBinary infos = Inr (remdups_adj (sort (fst a32)), remdups_adj (sort (fst a64)))"
    by (simp add: collectValuesInBinary_def dedup_eq)
  with b(2) ab show ?thesis
    by (simp add: sorted_remdups_adj grown2_def grown_def)
qed

lemma valInBinary_scan:
  assumes "image_ok infos" and "n = 4 \<or> n = 8"
  shows "valInBinary False n infos v = Inr (\<exists>ph\<in>set (prog_segs p_r infos). v \<in> set (seg_values n ph))"
  unfolding valInBinary_def using assms prog_segs_sub [of p_r infos]
  by (subst iterate_check_ok) (auto simp: image_ok_def)

lemma valInBinary_collected:
  assumes "image_ok infos" and "n = 4 \<or> n = 8" and "interesting n v"
  shows "valInBinary True n infos v = Inr (\<exists>ph\<in>set (prog_segs p_r infos). v \<in> set (seg_values n ph))"
proof -
  obtain v32 v64 where c: "collectValuesInBinary infos = Inr (v32, v64)" "sorted v32" "sorted v64"
      "set v32 = set (filter (interesting 4) (seg_concat 4 (prog_ro infos)))"
      "set v64 = set (filter (interesting 8) (seg_concat 8 (prog_ro infos)))"
    using collect_ok [OF assms(1)] by blast
  have wr: "iterate_check n p_w infos v = Inr (\<exists>ph\<in>set (prog_segs p_w infos). v \<in> set (seg_values n ph))"
    using assms prog_segs_sub [of p_w infos] by (subst iterate_check_ok) (auto simp: image_ok_def)
  have "v \<in> set (if n = 4 then v32 else v64) \<longleftrightarrow> (\<exists>ph\<in>set (prog_ro infos). v \<in> set (seg_values n ph))"
    using c(4,5) assms(2,3) by auto
  moreover have "valInBinary True n infos v = Inr (v \<in> set (if n = 4 then v32 else v64) \<or>
      (\<exists>ph\<in>set (prog_segs p_w infos). v \<in> set (seg_values n ph)))"
    unfolding valInBinary_def using c(1) bisect_mem [OF c(2), of v] bisect_mem [OF c(3), of v] wr
    by (auto split: bool.split)
  ultimately show ?thesis
    using assms(1) prog_segs_sub [of p_w infos] prog_segs_sub [of p_r infos]
      prog_segs_sub [of "\<lambda>ph. p_r ph \<and> \<not> p_w ph" infos]
    by (auto simp: image_ok_def)
qed

lemma interesting_32: "v \<noteq> 0 \<Longrightarrow> v \<noteq> - 1 \<Longrightarrow> interesting 4 (ucast (v :: u32))"
  unfolding interesting_def minus_one_32 word_unat_eq_iff unat_ucast_32_64 by simp

lemma interesting_64: "v \<noteq> 0 \<Longrightarrow> v \<noteq> - 1 \<Longrightarrow> interesting 8 v"
  unfolding interesting_def minus_one_64 by simp

definition demo_image :: "dl_phdr_info list" where
  "demo_image = [\<lparr>dlpi_name = [], dlpi_phdr =
     [\<lparr>p_load = True, p_r = True, p_w = False, p_start = 0x1000, p_memsz = 8, p_filesz = 8,
       p_bytes = [1, 0, 0, 0, 2, 0, 0, 0]\<rparr>,
      \<lparr>p_load = True, p_r = True, p_w = True, p_start = 0x2000, p_memsz = 16, p_filesz = 4,
       p_bytes = [3, 0, 0, 0, 0, 0, 0, 0]\<rparr>]\<rparr>]"

section \<open>Properties\<close>

text \<open>C13: in an image whose program segments are mapped and whose writable segments are readable,
  collecting, sorting and bisecting the values of the read-only segments and then scanning the
  writable ones gives the same answer as scanning all readable segments: whether a segment holds
  the value. It holds for every value the collection keeps, that is all but 0 and the value with
  all bits set; neither search faults.\<close>

theorem util_valInBinary_methods_agree:
  assumes "image_ok infos" and "v \<noteq> 0" and "v \<noteq> - 1" and "w \<noteq> 0" and "w \<noteq> - 1"
  shows "(\<exists>b. util_32bitValInBinary True infos v = Inr b \<and> util_32bitValInBinary False infos v = Inr b \<and>
        (b \<longleftrightarrow> (\<exists>ph\<in>set (prog_segs p_r infos). ucast v \<in> set (seg_values 4 ph)))) \<and>
      (\<exists>b. util_64bitValInBinary True infos w = Inr b \<and> util_64bitValInBinary False infos w = Inr b \<and>
        (b \<longleftrightarrow> (\<exists>ph\<in>set (prog_segs p_r infos). w \<in> set (seg_values 8 ph))))"
  using valInBinary_scan [OF assms(1)] valInBinary_collected [OF assms(1)]
    interesting_32 [OF assms(2,3)] interesting_64 [OF assms(4,5)]
  by (simp add: util_32bitValInBinary_def util_64bitValInBinary_def)

theorem util_valInBinary_methods_agree_witness:
  "\<exists>b. util_32bitValInBinary True demo_image 3 = Inr b \<and> util_32bitValInBinary False demo_image 3 = Inr b \<and>
    (b \<longleftrightarrow> (\<exists>ph\<in>set (prog_segs p_r demo_image). ucast (3 :: u32) \<in> set (seg_values 4 ph)))"
proof -
  have "image_ok demo_image"
    by (simp add: image_ok_def demo_image_def prog_segs_def seg_mapped_def seg_size_def seg_values_def)
  from util_valInBinary_methods_agree [OF this, of 3 1] show ?thesis by simp
qed

end
