(* ===== verification/HF_FCov.thy ===== *)
theory HF_FCov
  imports HF_Libc
begin

unbundle bit_operations_syntax

text \<open>
  The function coverage tables (\<open>honggfuzz/libhfuzz/func_coverage.h\<close>, the recorder in
  \<open>honggfuzz/libhfuzz/instrument.c\<close>, the set-up in \<open>honggfuzz/func_coverage.c\<close>).

  A table is an array of slots with a key (0 for an empty slot) and a hit count. A key is looked
  for in at most 64 consecutive slots from the one its hash selects. The tables are shared by
  the threads and processes of the target without a lock: an empty slot is claimed by
  compare-and-exchange. \<open>fcov_record_edge\<close> and \<open>fcov_record_func\<close> are the recorder when it
  runs alone; \<open>fcov_step\<close> is the relation of the atomic steps of any number of recorders.
\<close>

section \<open>Constants and structures\<close>

definition HASH_PROBE_MAX :: nat where
  "HASH_PROBE_MAX = 64"

definition FCOV_EDGE_TAB_SIZE :: nat where
  "FCOV_EDGE_TAB_SIZE = 2 ^ 20"

definition FCOV_EDGE_TAB_MASK :: u32 where
  "FCOV_EDGE_TAB_MASK = push_bit 20 1 - 1"

definition FCOV_FUNC_TAB_SIZE :: nat where
  "FCOV_FUNC_TAB_SIZE = 2 ^ 16"

definition FCOV_FUNC_TAB_MASK :: u32 where
  "FCOV_FUNC_TAB_MASK = push_bit 16 1 - 1"

text \<open>The slots of a table by their index: key and count.\<close>

type_synonym 'k fcov_tab = "nat \<Rightarrow> 'k \<times> u32"

record func_coverage_t =
  block_writes :: bool
  fcov_fd :: int
  edge_count :: u32
  func_count :: u32
  edge_hits :: "u64 fcov_tab"
  func_hits :: "u32 fcov_tab"

section \<open>Hashing and keys\<close>

definition fcov_hash64 :: "u64 \<Rightarrow> u64" where
  "fcov_hash64 x =
     (let x = x XOR drop_bit 33 x;
          x = x * 0xff51afd7ed558ccd;
          x = x XOR drop_bit 33 x;
          x = x * 0xc4ceb9fe1a85ec53;
          x = x XOR drop_bit 33 x
      in x)"

definition fcov_make_edge_key :: "u64 \<Rightarrow> u64 \<Rightarrow> u64" where
  "fcov_make_edge_key src dst =
     (let s32 = ucast (ucast src :: u32);
          d32 = ucast (ucast dst :: u32)
      in push_bit 32 s32 OR d32)"

text \<open>The slot of the \<open>i\<close>-th probe for a key.\<close>

definition edge_pos :: "u64 \<Rightarrow> nat \<Rightarrow> nat" where
  "edge_pos edgeKey i =
     (let idx = ucast (fcov_hash64 edgeKey AND ucast FCOV_EDGE_TAB_MASK) :: u32
      in unat ((idx + of_nat i) AND FCOV_EDGE_TAB_MASK))"

definition func_pos :: "u32 \<Rightarrow> nat \<Rightarrow> nat" where
  "func_pos key i =
     (let idx = ucast (fcov_hash64 (ucast key) AND ucast FCOV_FUNC_TAB_MASK) :: u32
      in unat ((idx + of_nat i) AND FCOV_FUNC_TAB_MASK))"

section \<open>The recorder alone\<close>

text \<open>
  The probing loop: an empty slot is claimed, which nobody prevents here, and the slot that has
  the key afterwards is counted up.
\<close>

function fcov_probe :: "('k::zero \<Rightarrow> nat \<Rightarrow> nat) \<Rightarrow> 'k fcov_tab \<Rightarrow> 'k \<Rightarrow> nat \<Rightarrow> 'k fcov_tab option" where
  "fcov_probe pos tab key i =
     (if i \<ge> HASH_PROBE_MAX then None
      else
        let p = pos key i; curKey = fst (tab p)
        in if curKey = 0 \<or> curKey = key then Some (tab(p := (key, snd (tab p) + 1)))
           else fcov_probe pos tab key (i + 1))"
  by pat_completeness auto
termination
  by (relation "measure (\<lambda>(pos, tab, key, i). HASH_PROBE_MAX - i)") auto

declare fcov_probe.simps [simp del]

definition fcov_record_edge :: "func_coverage_t \<Rightarrow> u64 \<Rightarrow> func_coverage_t" where
  "fcov_record_edge fcov edgeKey =
     (if block_writes fcov \<or> edgeKey = 0 then fcov
      else case fcov_probe edge_pos (edge_hits fcov) edgeKey 0 of
             None \<Rightarrow> fcov
           | Some tab \<Rightarrow> fcov\<lparr>edge_hits := tab, edge_count := edge_count fcov + 1\<rparr>)"

definition fcov_record_func :: "func_coverage_t \<Rightarrow> u64 \<Rightarrow> func_coverage_t" where
  "fcov_record_func fcov faddr =
     (if block_writes fcov then fcov
      else
        let key = ucast faddr :: u32
        in if key = 0 then fcov
           else case fcov_probe func_pos (func_hits fcov) key 0 of
                  None \<Rightarrow> fcov
                | Some tab \<Rightarrow> fcov\<lparr>func_hits := tab, func_count := func_count fcov + 1\<rparr>)"

text \<open>\<open>dladdr\<close> gives the start of the function that has an address, if it finds one.\<close>

definition pc_to_func_entry :: "(u64 \<Rightarrow> u64 option) \<Rightarrow> u64 \<Rightarrow> u64" where
  "pc_to_func_entry dladdr pc = (case dladdr pc of Some saddr \<Rightarrow> if saddr \<noteq> 0 then saddr else pc | None \<Rightarrow> pc)"

definition fcov_record :: "(u64 \<Rightarrow> u64 option) \<Rightarrow> func_coverage_t option \<Rightarrow> u64 \<Rightarrow> u64 \<Rightarrow> func_coverage_t option" where
  "fcov_record dladdr g_fcov caller callee =
     (case g_fcov of
        None \<Rightarrow> None
      | Some fcov \<Rightarrow>
          if block_writes fcov \<or> callee = 0 then Some fcov
          else
            let edgeKey = fcov_make_edge_key (pc_to_func_entry dladdr caller) callee
            in Some (fcov_record_func (fcov_record_edge fcov edgeKey) callee))"

section \<open>Set-up of the shared map\<close>

text \<open>The outcomes of the system calls of the set-up, by the path they are called with.\<close>

record fcov_sys =
  sys_open :: "byte list \<Rightarrow> int"
  sys_ftruncate :: bool
  sys_mmap :: bool
  sys_dup2 :: bool

text \<open>
  The file is created anew and extended, so the mapped structure is zero before its fields are
  set. The result says whether the set-up succeeded; the map is kept when only \<open>dup2\<close> fails.
\<close>

definition fcov_initBitmap :: "fcov_sys \<Rightarrow> byte list \<Rightarrow> func_coverage_t option \<Rightarrow> bool \<times> func_coverage_t option" where
  "fcov_initBitmap sys session_path g_fcov =
     (let bitmap_file = snprintf_cut 128 (session_path @ str ''/fcov.map'');
          fd = sys_open sys bitmap_file
      in if fd < 0 then (False, g_fcov)
         else if \<not> sys_ftruncate sys then (False, g_fcov)
         else if \<not> sys_mmap sys then (False, g_fcov)
         else
           let fcov = \<lparr>block_writes = False, fcov_fd = fd, edge_count = 0, func_count = 0,
                 edge_hits = (\<lambda>_. (0, 0)), func_hits = (\<lambda>_. (0, 0))\<rparr>
           in if \<not> sys_dup2 sys then (False, Some fcov) else (True, Some fcov))"

section \<open>Recorders side by side\<close>

text \<open>
  Where a recorder stands: before the load of the slot of probe \<open>i\<close>, before the
  compare-and-exchange on it, before counting up the slot \<open>p\<close>, before counting up the total,
  or idle. \<open>c_block\<close> is \<open>block_writes\<close>, which the scheduler sets and clears at any time; it is read at the
  entry. The fields \<open>h_\<close> are a history that the program does not keep: for each key the calls,
  those that counted up their slot, those that found all slots used, and those that returned at
  the entry because writes were blocked; the calls that counted up the total; and whether writes
  have been blocked.
\<close>

datatype rec_pc = PLoad nat | PCas nat | PInc nat | PTotal | PIdle

record 'k fcov_conf =
  c_tab :: "'k fcov_tab"
  c_total :: u32
  c_thr :: "('k \<times> rec_pc) list"
  c_block :: bool
  h_calls :: "'k \<Rightarrow> nat"
  h_hits :: "'k \<Rightarrow> nat"
  h_dropped :: "'k \<Rightarrow> nat"
  h_skipped :: "'k \<Rightarrow> nat"
  h_total :: nat
  h_blocked :: bool

definition at_pc :: "'k fcov_conf \<Rightarrow> nat \<Rightarrow> 'k \<Rightarrow> rec_pc \<Rightarrow> bool" where
  "at_pc c t k l \<longleftrightarrow> t < length (c_thr c) \<and> c_thr c ! t = (k, l)"

definition goto :: "nat \<Rightarrow> 'k \<Rightarrow> rec_pc \<Rightarrow> 'k fcov_conf \<Rightarrow> 'k fcov_conf" where
  "goto t k l c = c\<lparr>c_thr := (c_thr c)[t := (k, l)]\<rparr>"

definition bump :: "'k \<Rightarrow> ('k \<Rightarrow> nat) \<Rightarrow> 'k \<Rightarrow> nat" where
  "bump k f = f(k := f k + 1)"

text \<open>What a recorder does after it knows the key of the slot of probe \<open>i\<close>.\<close>

definition next_pc :: "('k::zero \<Rightarrow> nat \<Rightarrow> nat) \<Rightarrow> 'k \<Rightarrow> nat \<Rightarrow> 'k \<Rightarrow> rec_pc" where
  "next_pc pos key i curKey = (if curKey = key then PInc (pos key i) else PLoad (i + 1))"

inductive fcov_step :: "('k::zero \<Rightarrow> nat \<Rightarrow> nat) \<Rightarrow> 'k fcov_conf \<Rightarrow> 'k fcov_conf \<Rightarrow> bool"
  for pos :: "'k::zero \<Rightarrow> nat \<Rightarrow> nat" where
  set_block: "fcov_step pos c (c\<lparr>c_block := b, h_blocked := h_blocked c \<or> b\<rparr>)"
| skip: "at_pc c t k0 PIdle \<Longrightarrow> key \<noteq> 0 \<Longrightarrow> c_block c \<Longrightarrow>
    fcov_step pos c (c\<lparr>h_calls := bump key (h_calls c), h_skipped := bump key (h_skipped c)\<rparr>)"
| start: "at_pc c t k0 PIdle \<Longrightarrow> key \<noteq> 0 \<Longrightarrow> \<not> c_block c \<Longrightarrow>
    fcov_step pos c (goto t key (PLoad 0) (c\<lparr>h_calls := bump key (h_calls c)\<rparr>))"
| give_up: "at_pc c t key (PLoad i) \<Longrightarrow> i \<ge> HASH_PROBE_MAX \<Longrightarrow>
    fcov_step pos c (goto t key PIdle (c\<lparr>h_dropped := bump key (h_dropped c)\<rparr>))"
| load_empty: "at_pc c t key (PLoad i) \<Longrightarrow> i < HASH_PROBE_MAX \<Longrightarrow> fst (c_tab c (pos key i)) = 0 \<Longrightarrow>
    fcov_step pos c (goto t key (PCas i) c)"
| load_used: "at_pc c t key (PLoad i) \<Longrightarrow> i < HASH_PROBE_MAX \<Longrightarrow> fst (c_tab c (pos key i)) \<noteq> 0 \<Longrightarrow>
    fcov_step pos c (goto t key (next_pc pos key i (fst (c_tab c (pos key i)))) c)"
| cas_done: "at_pc c t key (PCas i) \<Longrightarrow> fst (c_tab c (pos key i)) = 0 \<Longrightarrow>
    fcov_step pos c (goto t key (PInc (pos key i))
      (c\<lparr>c_tab := (c_tab c)(pos key i := (key, snd (c_tab c (pos key i))))\<rparr>))"
| cas_lost: "at_pc c t key (PCas i) \<Longrightarrow> fst (c_tab c (pos key i)) \<noteq> 0 \<Longrightarrow>
    fcov_step pos c (goto t key (next_pc pos key i (fst (c_tab c (pos key i)))) c)"
| count: "at_pc c t key (PInc p) \<Longrightarrow>
    fcov_step pos c (goto t key PTotal
      (c\<lparr>c_tab := (c_tab c)(p := (fst (c_tab c p), snd (c_tab c p) + 1)),
         h_hits := bump key (h_hits c)\<rparr>))"
| count_total: "at_pc c t key PTotal \<Longrightarrow>
    fcov_step pos c (goto t key PIdle (c\<lparr>c_total := c_total c + 1, h_total := h_total c + 1\<rparr>))"

text \<open>The configurations from an empty table and idle recorders on.\<close>

definition fcov_conf0 :: "nat \<Rightarrow> 'k::zero fcov_conf" where
  "fcov_conf0 n = \<lparr>c_tab = (\<lambda>_. (0, 0)), c_total = 0, c_thr = replicate n (0, PIdle), c_block = False,
     h_calls = (\<lambda>_. 0), h_hits = (\<lambda>_. 0), h_dropped = (\<lambda>_. 0), h_skipped = (\<lambda>_. 0), h_total = 0, h_blocked = False\<rparr>"

inductive fcov_reach :: "('k::zero \<Rightarrow> nat \<Rightarrow> nat) \<Rightarrow> nat \<Rightarrow> 'k fcov_conf \<Rightarrow> bool"
  for pos :: "'k::zero \<Rightarrow> nat \<Rightarrow> nat" and n :: nat where
  init: "fcov_reach pos n (fcov_conf0 n)"
| step: "fcov_reach pos n c \<Longrightarrow> fcov_step pos c d \<Longrightarrow> fcov_reach pos n d"

inductive_cases fcov_stepE: "fcov_step pos c d"


section \<open>Tables built by probing\<close>

text \<open>The slots of the first \<open>i\<close> probes for \<open>k\<close> are used by other keys.\<close>

definition passed :: "('k::zero \<Rightarrow> nat \<Rightarrow> nat) \<Rightarrow> 'k fcov_tab \<Rightarrow> 'k \<Rightarrow> nat \<Rightarrow> bool" where
  "passed pos tab k i \<longleftrightarrow> (\<forall>j<i. fst (tab (pos k j)) \<noteq> 0 \<and> fst (tab (pos k j)) \<noteq> k)"

text \<open>Every key is in the first slot of its probes that no other key uses; empty slots have no count.\<close>

definition tab_ok :: "('k::zero \<Rightarrow> nat \<Rightarrow> nat) \<Rightarrow> 'k fcov_tab \<Rightarrow> bool" where
  "tab_ok pos tab \<longleftrightarrow> (\<forall>p. if fst (tab p) = 0 then snd (tab p) = 0
     else \<exists>i<HASH_PROBE_MAX. p = pos (fst (tab p)) i \<and> passed pos tab (fst (tab p)) i)"

lemma tab_okD:
  "tab_ok pos tab \<Longrightarrow> fst (tab p) = 0 \<Longrightarrow> snd (tab p) = 0"
  "tab_ok pos tab \<Longrightarrow> fst (tab p) \<noteq> 0 \<Longrightarrow>
     \<exists>i<HASH_PROBE_MAX. p = pos (fst (tab p)) i \<and> passed pos tab (fst (tab p)) i"
  unfolding tab_ok_def by meson+

lemma passed_Suc: "passed pos tab k i \<Longrightarrow> fst (tab (pos k i)) \<noteq> 0 \<Longrightarrow> fst (tab (pos k i)) \<noteq> k \<Longrightarrow>
    passed pos tab k (Suc i)"
  by (auto simp: passed_def less_Suc_eq)

text \<open>A table grows: keys stay where they are.\<close>

definition extends :: "'k::zero fcov_tab \<Rightarrow> 'k fcov_tab \<Rightarrow> bool" where
  "extends tab tab' \<longleftrightarrow> (\<forall>p. fst (tab p) \<noteq> 0 \<longrightarrow> fst (tab' p) = fst (tab p))"

lemma passed_extends: "passed pos tab k i \<Longrightarrow> extends tab tab' \<Longrightarrow> passed pos tab' k i"
  by (simp add: passed_def extends_def)

lemma tab_ok_unique:
  assumes "tab_ok pos tab" and "fst (tab p) = k" and "fst (tab q) = k" and "k \<noteq> 0"
  shows "p = q"
proof -
  obtain i j where "p = pos k i" "passed pos tab k i" "q = pos k j" "passed pos tab k j"
    using tab_okD(2) [OF assms(1), of p] tab_okD(2) [OF assms(1), of q] assms(2-4) by metis
  then show ?thesis using assms(2,3) by (cases i j rule: linorder_cases) (auto simp: passed_def)
qed

lemma tab_ok_fresh:
  assumes "tab_ok pos tab" and "passed pos tab k i" and "fst (tab (pos k i)) = 0" and "k \<noteq> 0"
  shows "fst (tab q) \<noteq> k"
proof
  assume q: "fst (tab q) = k"
  then obtain j where "q = pos k j" "passed pos tab k j" using tab_okD(2) [OF assms(1), of q] assms(4) by metis
  then show False using assms(2-4) q by (cases i j rule: linorder_cases) (auto simp: passed_def)
qed

lemma tab_ok_claim:
  assumes "tab_ok pos tab" and "passed pos tab k i" and "fst (tab (pos k i)) = 0" and "k \<noteq> 0"
    and "i < HASH_PROBE_MAX"
  shows "tab_ok pos (tab(pos k i := (k, n)))"
proof -
  let ?tab = "tab(pos k i := (k, n))"
  have ext: "extends tab ?tab" using assms(3) by (simp add: extends_def)
  show ?thesis unfolding tab_ok_def
  proof (intro allI)
    fix p
    show "if fst (?tab p) = 0 then snd (?tab p) = 0
      else \<exists>j<HASH_PROBE_MAX. p = pos (fst (?tab p)) j \<and> passed pos ?tab (fst (?tab p)) j"
    proof (cases "p = pos k i")
      case True
      then show ?thesis using assms(4,5) passed_extends [OF assms(2) ext] by auto
    next
      case False
      then show ?thesis using tab_okD [OF assms(1), of p] passed_extends [OF _ ext] by fastforce
    qed
  qed
qed

lemma tab_ok_count: "tab_ok pos tab \<Longrightarrow> fst (tab p) \<noteq> 0 \<Longrightarrow> tab_ok pos (tab(p := (fst (tab p), n)))"
proof -
  assume ok: "tab_ok pos tab" and p: "fst (tab p) \<noteq> 0"
  have f: "fst ((tab(p := (fst (tab p), n))) q) = fst (tab q)" for q by simp
  show ?thesis using ok p unfolding tab_ok_def passed_def f by (auto split: if_splits)
qed

section \<open>The recorder alone counts its key\<close>

text \<open>The count of a key.\<close>

definition key_count :: "'k::zero fcov_tab \<Rightarrow> 'k \<Rightarrow> u32 option" where
  "key_count tab k = (if k \<noteq> 0 \<and> (\<exists>p. fst (tab p) = k)
     then Some (snd (tab (THE p. fst (tab p) = k))) else None)"

lemma key_count_eq: "tab_ok pos tab \<Longrightarrow> fst (tab p) = k \<Longrightarrow> k \<noteq> 0 \<Longrightarrow> key_count tab k = Some (snd (tab p))"
proof -
  assume a: "tab_ok pos tab" "fst (tab p) = k" "k \<noteq> 0"
  then have "(THE p. fst (tab p) = k) = p" using tab_ok_unique [OF a(1)] by (intro the_equality) auto
  then show ?thesis using a(2,3) by (auto simp: key_count_def)
qed

lemma key_count_None: "(\<And>p. fst (tab p) \<noteq> k) \<Longrightarrow> key_count tab k = None"
  by (simp add: key_count_def)

lemma key_count_upd:
  assumes "tab_ok pos tab" and "tab_ok pos (tab(p := (k, n)))" and "fst (tab p) = 0 \<or> fst (tab p) = k" and "k \<noteq> 0"
  shows "key_count (tab(p := (k, n))) = (key_count tab)(k \<mapsto> n)"
proof
  fix k'
  let ?tab = "tab(p := (k, n))"
  show "key_count ?tab k' = ((key_count tab)(k \<mapsto> n)) k'"
  proof (cases "k' \<noteq> k \<and> k' \<noteq> 0")
    case True
    then have keys: "fst (?tab q) = k' \<longleftrightarrow> fst (tab q) = k'" for q using assms(3) by auto
    show ?thesis
    proof (cases "\<exists>q. fst (tab q) = k'")
      case True
      then obtain q where q: "fst (tab q) = k'" by blast
      then have "q \<noteq> p" using keys [of q] \<open>k' \<noteq> k \<and> k' \<noteq> 0\<close> by auto
      then show ?thesis
        using key_count_eq [OF assms(1) q] key_count_eq [OF assms(2), of q] q \<open>k' \<noteq> k \<and> k' \<noteq> 0\<close> by simp
    next
      case False
      then show ?thesis using True keys key_count_None by (metis fun_upd_other)
    qed
  next
    case False
    then consider "k' = k" | "k' = 0" by blast
    then show ?thesis
    proof cases
      case 1
      then show ?thesis using key_count_eq [OF assms(2), of p k] assms(4) by simp
    next
      case 2
      then show ?thesis using assms(4) by (simp add: key_count_def)
    qed
  qed
qed

lemma fcov_probe_ok:
  assumes "tab_ok pos tab" and "passed pos tab k i" and "k \<noteq> 0"
  shows "case fcov_probe pos tab k i of
      None \<Rightarrow> key_count tab k = None \<and> passed pos tab k HASH_PROBE_MAX
    | Some tab' \<Rightarrow> tab_ok pos tab' \<and>
        key_count tab' = (key_count tab)(k \<mapsto> (case key_count tab k of None \<Rightarrow> 0 | Some n \<Rightarrow> n) + 1)"
  using assms
proof (induction pos tab k i rule: fcov_probe.induct)
  case (1 pos tab k i)
  note ok = 1(2) and ps = 1(3) and k = 1(4)
  let ?p = "pos k i"
  consider (none) "i \<ge> HASH_PROBE_MAX" | (new) "i < HASH_PROBE_MAX" "fst (tab ?p) = 0"
    | (old) "i < HASH_PROBE_MAX" "fst (tab ?p) = k" | (other) "i < HASH_PROBE_MAX" "fst (tab ?p) \<noteq> 0" "fst (tab ?p) \<noteq> k"
    by linarith
  then show ?case
  proof cases
    case none
    have all: "passed pos tab k HASH_PROBE_MAX" using ps none by (simp add: passed_def)
    then have "fst (tab q) \<noteq> k" for q using tab_okD(2) [OF ok, of q] k unfolding passed_def by metis
    with all none show ?thesis by (subst fcov_probe.simps) (simp add: key_count_None)
  next
    case new
    then have "key_count tab k = None" using tab_ok_fresh [OF ok ps _ k] by (simp add: key_count_None)
    moreover have "snd (tab ?p) = 0" using tab_okD(1) [OF ok new(2)] .
    moreover note tab_ok_claim [OF ok ps new(2) k new(1), of 1] 
    ultimately show ?thesis using new key_count_upd [OF ok _ _ k, of ?p 1]
      by (subst fcov_probe.simps) (simp add: Let_def)
  next
    case old
    have "key_count tab k = Some (snd (tab ?p))" using key_count_eq [OF ok old(2) k] .
    moreover have "tab_ok pos (tab(?p := (k, snd (tab ?p) + 1)))"
      using tab_ok_count [OF ok, of ?p] old(2) k by simp
    ultimately show ?thesis using old k key_count_upd [OF ok _ _ k, of ?p]
      by (subst fcov_probe.simps) (simp add: Let_def)
  next
    case other
    then have "fcov_probe pos tab k i = fcov_probe pos tab k (i + 1)"
      by (subst fcov_probe.simps) (simp add: Let_def)
    moreover have "passed pos tab k (i + 1)" using passed_Suc [OF ps other(2,3)] by simp
    ultimately show ?thesis using 1(1) [OF _ refl refl _ ok _ k] other by simp
  qed
qed

section \<open>Recorders side by side\<close>

lemma goto_simps [simp]:
  "c_tab (goto t k l c) = c_tab c" "c_total (goto t k l c) = c_total c"
  "h_hits (goto t k l c) = h_hits c" "h_total (goto t k l c) = h_total c" "h_calls (goto t k l c) = h_calls c"
  "h_dropped (goto t k l c) = h_dropped c" "h_skipped (goto t k l c) = h_skipped c" "h_blocked (goto t k l c) = h_blocked c"
  "c_block (goto t k l c) = c_block c"
  by (simp_all add: goto_def)

lemma at_pc_upd [simp]:
  "at_pc (c\<lparr>c_tab := tab, h_hits := h\<rparr>) = at_pc c" "at_pc (c\<lparr>c_tab := tab\<rparr>) = at_pc c"
  "at_pc (c\<lparr>c_total := n, h_total := m\<rparr>) = at_pc c" "at_pc (c\<lparr>c_block := b, h_blocked := b'\<rparr>) = at_pc c"
  "at_pc (c\<lparr>h_calls := f\<rparr>) = at_pc c" "at_pc (c\<lparr>h_calls := f, h_skipped := g\<rparr>) = at_pc c" "at_pc (c\<lparr>h_dropped := f\<rparr>) = at_pc c"
  by (simp_all add: at_pc_def fun_eq_iff)

text \<open>What a recorder knows at a place of its code.\<close>

fun thr_ok :: "('k::zero \<Rightarrow> nat \<Rightarrow> nat) \<Rightarrow> 'k fcov_tab \<Rightarrow> 'k \<Rightarrow> rec_pc \<Rightarrow> bool" where
  "thr_ok pos tab k (PLoad i) \<longleftrightarrow> k \<noteq> 0 \<and> passed pos tab k i"
| "thr_ok pos tab k (PCas i) \<longleftrightarrow> k \<noteq> 0 \<and> i < HASH_PROBE_MAX \<and> passed pos tab k i"
| "thr_ok pos tab k (PInc p) \<longleftrightarrow> k \<noteq> 0 \<and> fst (tab p) = k"
| "thr_ok pos tab k PTotal \<longleftrightarrow> True"
| "thr_ok pos tab k PIdle \<longleftrightarrow> True"

definition conf_ok :: "('k::zero \<Rightarrow> nat \<Rightarrow> nat) \<Rightarrow> 'k fcov_conf \<Rightarrow> bool" where
  "conf_ok pos c \<longleftrightarrow> tab_ok pos (c_tab c) \<and> (\<forall>t k l. at_pc c t k l \<longrightarrow> thr_ok pos (c_tab c) k l) \<and>
     (\<forall>p. fst (c_tab c p) \<noteq> 0 \<longrightarrow> snd (c_tab c p) = of_nat (h_hits c (fst (c_tab c p)))) \<and>
     (\<forall>k. h_hits c k \<noteq> 0 \<longrightarrow> k \<noteq> 0 \<and> (\<exists>p. fst (c_tab c p) = k)) \<and>
     (\<forall>k. h_dropped c k \<noteq> 0 \<longrightarrow> passed pos (c_tab c) k HASH_PROBE_MAX) \<and> (\<forall>k. h_skipped c k \<noteq> 0 \<longrightarrow> h_blocked c) \<and> (c_block c \<longrightarrow> h_blocked c)"

lemma passed_0 [simp]: "passed pos tab k 0"
  by (simp add: passed_def)

lemma conf_ok_thr: "conf_ok pos c \<Longrightarrow> at_pc c t k l \<Longrightarrow> thr_ok pos (c_tab c) k l"
  by (simp add: conf_ok_def)

lemma conf_ok_tab: "conf_ok pos c \<Longrightarrow> tab_ok pos (c_tab c)"
  by (simp add: conf_ok_def)

lemma conf_ok_cnt: "conf_ok pos c \<Longrightarrow> fst (c_tab c p) \<noteq> 0 \<Longrightarrow> snd (c_tab c p) = of_nat (h_hits c (fst (c_tab c p)))"
  by (simp add: conf_ok_def)

lemma conf_ok_hits: "conf_ok pos c \<Longrightarrow> h_hits c k \<noteq> 0 \<Longrightarrow> k \<noteq> 0 \<and> (\<exists>p. fst (c_tab c p) = k)"
  by (simp add: conf_ok_def)

lemma thr_ok_extends: "thr_ok pos tab k l \<Longrightarrow> extends tab tab' \<Longrightarrow> thr_ok pos tab' k l"
  using passed_extends by (cases l) (auto simp: extends_def)

lemma conf_ok_goto:
  assumes c: "conf_ok pos c" and t: "at_pc c t k0 l0" and ext: "extends (c_tab c) (c_tab d)"
    and ok: "tab_ok pos (c_tab d)" and thr: "c_thr d = c_thr c" and l: "thr_ok pos (c_tab d) k l"
    and cnt: "\<And>p. fst (c_tab d p) \<noteq> 0 \<Longrightarrow> snd (c_tab d p) = of_nat (h_hits d (fst (c_tab d p)))"
    and hits: "\<And>k. h_hits d k \<noteq> 0 \<Longrightarrow> k \<noteq> 0 \<and> (\<exists>p. fst (c_tab d p) = k)"
    and drop: "h_dropped d = h_dropped c" and skip: "h_skipped d = h_skipped c" "h_blocked d = h_blocked c" "c_block d = c_block c"
  shows "conf_ok pos (goto t k l d)"
proof -
  have "thr_ok pos (c_tab d) k' l'" if "at_pc (goto t k l d) t' k' l'" for t' k' l'
  proof (cases "t' = t")
    case True
    then show ?thesis using that l t thr by (auto simp: at_pc_def goto_def)
  next
    case False
    then have "at_pc c t' k' l'" using that thr by (auto simp: at_pc_def goto_def)
    then show ?thesis using c thr_ok_extends [OF _ ext] by (simp add: conf_ok_def)
  qed
  moreover have "passed pos (c_tab d) k HASH_PROBE_MAX" if "h_dropped d k \<noteq> 0" for k
    using that drop c passed_extends [OF _ ext] by (simp add: conf_ok_def)
  moreover have "(h_skipped d k \<noteq> 0 \<longrightarrow> h_blocked d) \<and> (c_block d \<longrightarrow> h_blocked d)" for k using skip c by (auto simp: conf_ok_def)
  ultimately show ?thesis using ok cnt hits by (simp add: conf_ok_def)
qed

text \<open>Steps that only move a recorder.\<close>

lemma conf_ok_move:
  assumes "conf_ok pos c" and "at_pc c t k0 l0" and "thr_ok pos (c_tab c) k l"
  shows "conf_ok pos (goto t k l c)"
  using assms(1) by (intro conf_ok_goto [OF assms(1,2) _ _ _ assms(3)]) (auto simp: conf_ok_def extends_def)

lemma next_pc_ok:
  assumes "k \<noteq> 0" and "passed pos tab k i" and "fst (tab (pos k i)) \<noteq> 0"
  shows "thr_ok pos tab k (next_pc pos k i (fst (tab (pos k i))))"
  using assms passed_Suc [OF assms(2,3)] by (simp add: next_pc_def)

lemma conf_ok_claim:
  assumes c: "conf_ok pos c" and t: "at_pc c t k (PCas i)" and e: "fst (c_tab c (pos k i)) = 0"
  shows "conf_ok pos (goto t k (PInc (pos k i)) (c\<lparr>c_tab := (c_tab c)(pos k i := (k, snd (c_tab c (pos k i))))\<rparr>))"
proof -
  have k: "k \<noteq> 0" "i < HASH_PROBE_MAX" "passed pos (c_tab c) k i" using conf_ok_thr [OF c t] by auto
  have fresh: "fst (c_tab c q) \<noteq> k" for q by (rule tab_ok_fresh [OF conf_ok_tab [OF c] k(3) e k(1)])
  have h: "h_hits c k = 0" using conf_ok_hits [OF c, of k] fresh by blast
  have z: "snd (c_tab c (pos k i)) = 0" by (rule tab_okD(1) [OF conf_ok_tab [OF c] e])
  show ?thesis
  proof (rule conf_ok_goto [OF c t])
    fix k' assume "h_hits (c\<lparr>c_tab := (c_tab c)(pos k i := (k, snd (c_tab c (pos k i))))\<rparr>) k' \<noteq> 0"
    then obtain p where p: "k' \<noteq> 0" "fst (c_tab c p) = k'" using conf_ok_hits [OF c, of k'] by auto
    then show "k' \<noteq> 0 \<and> (\<exists>p. fst (c_tab (c\<lparr>c_tab := (c_tab c)(pos k i := (k, snd (c_tab c (pos k i))))\<rparr>) p) = k')"
      using e by (intro conjI exI [of _ p]) auto
  qed (use k e h z conf_ok_cnt [OF c] tab_ok_claim [OF conf_ok_tab [OF c] k(3) e k(1,2)] in \<open>auto simp: extends_def\<close>)
qed

lemma conf_ok_count:
  assumes c: "conf_ok pos c" and t: "at_pc c t k (PInc p)"
  shows "conf_ok pos (goto t k PTotal (c\<lparr>c_tab := (c_tab c)(p := (fst (c_tab c p), snd (c_tab c p) + 1)),
         h_hits := bump k (h_hits c)\<rparr>))" (is "conf_ok pos (goto t k PTotal ?d)")
proof -
  have k: "k \<noteq> 0" "fst (c_tab c p) = k" using conf_ok_thr [OF c t] by auto
  have keys: "fst (c_tab ?d q) = fst (c_tab c q)" for q by simp
  show ?thesis
  proof (rule conf_ok_goto [OF c t])
    show "tab_ok pos (c_tab ?d)" using tab_ok_count [OF conf_ok_tab [OF c], of p] k by simp
    fix q assume q: "fst (c_tab ?d q) \<noteq> 0"
    show "snd (c_tab ?d q) = of_nat (h_hits ?d (fst (c_tab ?d q)))"
    proof (cases "q = p")
      case True
      then show ?thesis using conf_ok_cnt [OF c, of p] k by (simp add: bump_def)
    next
      case False
      then have "fst (c_tab c q) \<noteq> k" using tab_ok_unique [OF conf_ok_tab [OF c] _ k(2,1)] by blast
      with False q show ?thesis using conf_ok_cnt [OF c, of q] by (simp add: bump_def)
    qed
  next
    fix k' assume "h_hits ?d k' \<noteq> 0"
    then show "k' \<noteq> 0 \<and> (\<exists>q. fst (c_tab ?d q) = k')"
      using k conf_ok_hits [OF c, of k'] unfolding keys by (cases "k' = k") (auto simp: bump_def)
  qed (simp_all add: extends_def)
qed

lemma conf_ok_step: "fcov_step pos c d \<Longrightarrow> conf_ok pos c \<Longrightarrow> conf_ok pos d"
proof (induction rule: fcov_step.induct)
  case (set_block c b)
  then show ?case unfolding conf_ok_def by auto
next
  case (skip c t k0 key)
  then show ?case unfolding conf_ok_def by (simp add: bump_def)
next
  case (start c t k0 key)
  have "conf_ok pos (c\<lparr>h_calls := bump key (h_calls c)\<rparr>)" using start(4) unfolding conf_ok_def by simp
  then show ?case using start(1,2) by (intro conf_ok_move [of _ _ t k0 PIdle]) simp_all
next
  case (give_up c t key i)
  have "passed pos (c_tab c) key HASH_PROBE_MAX" using conf_ok_thr [OF give_up(3,1)] give_up(2) by (simp add: passed_def)
  then have "conf_ok pos (c\<lparr>h_dropped := bump key (h_dropped c)\<rparr>)" using give_up(3) unfolding conf_ok_def by (simp add: bump_def)
  then show ?case using give_up(1) by (intro conf_ok_move [of _ _ t key "PLoad i"]) simp_all
next
  case (load_empty c t key i)
  then show ?case using conf_ok_thr [OF load_empty(4,1)] by (intro conf_ok_move [OF load_empty(4,1)]) simp
next
  case (load_used c t key i)
  then show ?case using conf_ok_thr [OF load_used(4,1)] by (intro conf_ok_move [OF load_used(4,1)] next_pc_ok) auto
next
  case (cas_lost c t key i)
  then show ?case using conf_ok_thr [OF cas_lost(3,1)] by (intro conf_ok_move [OF cas_lost(3,1)] next_pc_ok) auto
next
  case (count_total c t key)
  then show ?case by (intro conf_ok_goto [OF count_total(2,1)]) (auto simp: conf_ok_def extends_def)
next
  case (count c t key p)
  then show ?case by (intro conf_ok_count)
qed (auto intro: conf_ok_move conf_ok_claim)

lemma conf_ok_reach: "fcov_reach pos n c \<Longrightarrow> conf_ok pos c"
proof (induction rule: fcov_reach.induct)
  case init
  then show ?case by (auto simp: fcov_conf0_def conf_ok_def at_pc_def tab_ok_def)
qed (rule conf_ok_step)

text \<open>The recorders that look for the slot of a key or are about to count it up.\<close>

definition busy :: "rec_pc \<Rightarrow> bool" where
  "busy l \<longleftrightarrow> l \<noteq> PTotal \<and> l \<noteq> PIdle"

definition active :: "'k fcov_conf \<Rightarrow> 'k \<Rightarrow> nat set" where
  "active c k = {t. \<exists>l. at_pc c t k l \<and> busy l}"

lemma finite_active [simp]: "finite (active c k)"
  by (rule finite_subset [of _ "{..<length (c_thr c)}"]) (auto simp: active_def at_pc_def)

lemma active_goto:
  "at_pc c t k0 l0 \<Longrightarrow> active (goto t k l c) k' = (if busy l \<and> k' = k then insert t (active c k') else active c k' - {t})"
  by (auto simp: active_def at_pc_def goto_def nth_list_update split: if_splits)

lemma active_same: "at_pc c t k l0 \<Longrightarrow> busy l0 \<Longrightarrow> busy l \<Longrightarrow> active (goto t k l c) = active c"
proof
  fix k' assume a: "at_pc c t k l0" "busy l0" "busy l"
  then have "t \<in> active c k' \<longleftrightarrow> k' = k" by (auto simp: active_def at_pc_def)
  then show "active (goto t k l c) k' = active c k'" using active_goto [OF a(1), of k l k'] a(3) by auto
qed

lemma active_enter: "at_pc c t k0 l0 \<Longrightarrow> \<not> busy l0 \<Longrightarrow> busy l \<Longrightarrow>
    card (active (goto t k l c) k') = card (active c k') + (if k' = k then 1 else 0)"
proof -
  assume a: "at_pc c t k0 l0" "\<not> busy l0" "busy l"
  then have "t \<notin> active c k'" by (auto simp: active_def at_pc_def)
  then show ?thesis using active_goto [OF a(1), of k l k'] a(3) by auto
qed

lemma active_leave: "at_pc c t k l0 \<Longrightarrow> busy l0 \<Longrightarrow> \<not> busy l \<Longrightarrow>
    card (active c k') = card (active (goto t k l c) k') + (if k' = k then 1 else 0)"
proof -
  assume a: "at_pc c t k l0" "busy l0" "\<not> busy l"
  then have "t \<in> active c k' \<longleftrightarrow> k' = k" by (auto simp: active_def at_pc_def)
  then show ?thesis using active_goto [OF a(1), of k l k'] a(3) card_Suc_Diff1 [of "active c k'" t] by auto
qed

lemma active_upd [simp]:
  "active (c\<lparr>c_tab := tab, h_hits := h\<rparr>) = active c" "active (c\<lparr>c_tab := tab\<rparr>) = active c"
  "active (c\<lparr>c_total := n, h_total := m\<rparr>) = active c" "active (c\<lparr>c_block := b, h_blocked := b'\<rparr>) = active c"
  "active (c\<lparr>h_calls := f\<rparr>) = active c" "active (c\<lparr>h_calls := f, h_skipped := g\<rparr>) = active c" "active (c\<lparr>h_dropped := f\<rparr>) = active c"
  by (simp_all add: active_def fun_eq_iff)

text \<open>Every call is accounted for.\<close>

definition calls_ok :: "'k fcov_conf \<Rightarrow> bool" where
  "calls_ok c \<longleftrightarrow> (\<forall>k. h_calls c k = h_hits c k + h_dropped c k + h_skipped c k + card (active c k))"

lemma busy_simps [simp]: "busy (PLoad i)" "busy (PCas i)" "busy (PInc p)" "\<not> busy PTotal" "\<not> busy PIdle"
  by (simp_all add: busy_def)

lemma busy_next [simp]: "busy (next_pc pos k i ck)"
  by (simp add: next_pc_def)

lemma calls_ok_step: "fcov_step pos c d \<Longrightarrow> calls_ok c \<Longrightarrow> calls_ok d"
proof (induction rule: fcov_step.induct)
  case (start c t k0 key)
  then show ?case using active_enter [of "c\<lparr>h_calls := bump key (h_calls c)\<rparr>" t k0 PIdle "PLoad 0" key]
    by (simp add: calls_ok_def bump_def)
next
  case (give_up c t key i)
  have "card (active c k) = card (active (goto t key PIdle (c\<lparr>h_dropped := bump key (h_dropped c)\<rparr>)) k) + (if k = key then 1 else 0)" for k
    using active_leave [of "c\<lparr>h_dropped := bump key (h_dropped c)\<rparr>" t key "PLoad i" PIdle k] give_up(1) by simp
  then show ?case using give_up(3) by (auto simp: calls_ok_def bump_def)
next
  case (count c t key p)
  let ?d = "c\<lparr>c_tab := (c_tab c)(p := (fst (c_tab c p), snd (c_tab c p) + 1)), h_hits := bump key (h_hits c)\<rparr>"
  have "card (active c k) = card (active (goto t key PTotal ?d) k) + (if k = key then 1 else 0)" for k
    using active_leave [of ?d t key "PInc p" PTotal k] count(1) by simp
  then show ?case using count(2) by (auto simp: calls_ok_def bump_def)
next
  case (count_total c t key)
  have "t \<notin> active c k" for k using count_total(1) by (auto simp: active_def at_pc_def)
  then have "active (goto t key PIdle (c\<lparr>c_total := c_total c + 1, h_total := h_total c + 1\<rparr>)) = active c"
    using active_goto [of "c\<lparr>c_total := c_total c + 1, h_total := h_total c + 1\<rparr>" t key PTotal key PIdle] count_total(1) by auto
  then show ?case using count_total(2) by (simp add: calls_ok_def)
next
  case (cas_done c t key i)
  then show ?case using active_same [of "c\<lparr>c_tab := (c_tab c)(pos key i := (key, snd (c_tab c (pos key i))))\<rparr>" t key "PCas i" "PInc (pos key i)"]
    by (simp add: calls_ok_def)
qed (auto simp: calls_ok_def bump_def active_same)

lemma calls_ok_reach: "fcov_reach pos n c \<Longrightarrow> calls_ok c"
proof (induction rule: fcov_reach.induct)
  case init
  have "active (fcov_conf0 n :: 'a fcov_conf) k = {}" for k by (auto simp: active_def at_pc_def fcov_conf0_def)
  then show ?case by (simp add: calls_ok_def) (simp add: fcov_conf0_def)
qed (rule calls_ok_step)

text \<open>The recorders that have counted up a slot and not yet the total.\<close>

definition pending :: "'k fcov_conf \<Rightarrow> nat set" where
  "pending c = {t. \<exists>k. at_pc c t k PTotal}"

lemma finite_pending [simp]: "finite (pending c)"
  by (rule finite_subset [of _ "{..<length (c_thr c)}"]) (auto simp: pending_def at_pc_def)

lemma pending_goto:
  "at_pc c t k0 l0 \<Longrightarrow> pending (goto t k l c) = (if l = PTotal then insert t (pending c) else pending c - {t})"
  by (auto simp: pending_def at_pc_def goto_def nth_list_update split: if_splits)

lemma pending_upd [simp]:
  "pending (c\<lparr>c_tab := tab, h_hits := h\<rparr>) = pending c" "pending (c\<lparr>c_tab := tab\<rparr>) = pending c"
  "pending (c\<lparr>c_total := n, h_total := m\<rparr>) = pending c" "pending (c\<lparr>c_block := b, h_blocked := b'\<rparr>) = pending c"
  "pending (c\<lparr>h_calls := f\<rparr>) = pending c" "pending (c\<lparr>h_calls := f, h_skipped := g\<rparr>) = pending c" "pending (c\<lparr>h_dropped := f\<rparr>) = pending c"
  by (simp_all add: pending_def)

definition total_ok :: "'k::finite fcov_conf \<Rightarrow> bool" where
  "total_ok c \<longleftrightarrow> c_total c = of_nat (h_total c) \<and> h_total c + card (pending c) = (\<Sum>k\<in>UNIV. h_hits c k)"

lemma sum_upd: "(\<Sum>k\<in>UNIV. (f(x := f x + 1)) k) = Suc (\<Sum>k\<in>UNIV. f k)" for f :: "'k::finite \<Rightarrow> nat"
  by (simp add: sum.remove [of UNIV x])


lemma pending_same:
  "at_pc c t k0 l0 \<Longrightarrow> l0 \<noteq> PTotal \<Longrightarrow> l \<noteq> PTotal \<Longrightarrow> pending (goto t k l c) = pending c"
  by (subst pending_goto) (auto simp: pending_def at_pc_def)

lemma total_ok_step: "fcov_step pos c d \<Longrightarrow> total_ok c \<Longrightarrow> total_ok d"
proof (induction rule: fcov_step.induct)
  case (count c t key p)
  have "t \<notin> pending c" using count(1) by (auto simp: pending_def at_pc_def)
  moreover have "(\<Sum>k\<in>UNIV. if k = key then Suc (h_hits c key) else h_hits c k) = Suc (\<Sum>k\<in>UNIV. h_hits c k)"
    using sum_upd [of "h_hits c" key] by (simp add: fun_upd_def)
  ultimately show ?case using count
    by (simp add: total_ok_def pending_goto [where ?k0.0 = key and ?l0.0 = "PInc p"] fun_upd_def bump_def)
next
  case (count_total c t key)
  have "t \<in> pending c" using count_total(1) by (auto simp: pending_def)
  then have "card (pending c) = Suc (card (pending c - {t}))" by (metis card.remove finite_pending)
  then show ?case using count_total
    by (simp add: total_ok_def pending_goto [where ?k0.0 = key and ?l0.0 = PTotal])
next
  case (load_used c t key i)
  then show ?case by (simp add: total_ok_def pending_same [OF load_used(1)] next_pc_def)
next
  case (cas_lost c t key i)
  then show ?case by (simp add: total_ok_def pending_same [OF cas_lost(1)] next_pc_def)
qed (simp_all add: total_ok_def pending_same)

lemma total_ok_reach: "fcov_reach pos n c \<Longrightarrow> total_ok c"
proof (induction rule: fcov_reach.induct)
  case init
  have "pending (fcov_conf0 n :: 'a fcov_conf) = {}" by (auto simp: pending_def at_pc_def fcov_conf0_def)
  then show ?case by (simp add: total_ok_def) (simp add: fcov_conf0_def)
qed (rule total_ok_step)


section \<open>Positions, hash and keys\<close>

lemma fcov_probe_slot: "fcov_probe pos tab k i = Some tab' \<Longrightarrow> \<exists>j n. tab' = tab(pos k j := (k, n))"
proof (induction pos tab k i rule: fcov_probe.induct)
  case (1 pos tab k i)
  show ?case
  proof (cases "fst (tab (pos k i)) = 0 \<or> fst (tab (pos k i)) = k")
    case True
    with 1(2) have "tab' = tab(pos k i := (k, snd (tab (pos k i)) + 1))"
      by (subst (asm) fcov_probe.simps) (auto simp: Let_def split: if_splits)
    then show ?thesis by blast
  next
    case False
    with 1(2) have "i < HASH_PROBE_MAX" "fcov_probe pos tab k (i + 1) = Some tab'"
      by (subst (asm) fcov_probe.simps, auto simp: Let_def split: if_splits)+
    with False 1(1) [OF _ refl refl] show ?thesis by simp
  qed
qed

lemma fcov_probe_passed: "fcov_probe pos tab k i = Some tab' \<Longrightarrow> passed pos tab k HASH_PROBE_MAX \<Longrightarrow> False"
proof (induction pos tab k i rule: fcov_probe.induct)
  case (1 pos tab k i)
  have i: "i < HASH_PROBE_MAX" using 1(2) by (subst (asm) fcov_probe.simps) (auto split: if_splits)
  then have "fst (tab (pos k i)) \<noteq> 0" "fst (tab (pos k i)) \<noteq> k" using 1(3) by (auto simp: passed_def)
  with 1(1) [OF _ refl refl] 1(2,3) i show ?case
    by (subst (asm) fcov_probe.simps) (auto simp: Let_def)
qed

text \<open>What the recorder needs of the positions: that they are inside the table.\<close>

locale probe_positions =
  fixes pos :: "'k::{zero,finite} \<Rightarrow> nat \<Rightarrow> nat" and tab_size :: nat
  assumes pos_less: "pos k i < tab_size"
begin

lemma keys_in_table: "tab_ok pos tab \<Longrightarrow> fst (tab p) \<noteq> 0 \<Longrightarrow> p < tab_size"
  using tab_okD(2) [of pos tab p] pos_less by metis

lemma probe_touches: "fcov_probe pos tab k i = Some tab' \<Longrightarrow> \<exists>p<tab_size. \<exists>n. tab' = tab(p := (k, n))"
  using fcov_probe_slot [of pos tab k i tab'] pos_less by blast

lemma reachable_counts:
  assumes "fcov_reach pos n c"
  shows "(fst (c_tab c p) \<noteq> 0 \<longrightarrow> p < tab_size \<and> snd (c_tab c p) = of_nat (h_hits c (fst (c_tab c p)))) \<and>
    (fst (c_tab c p) \<noteq> 0 \<and> fst (c_tab c p) = fst (c_tab c q) \<longrightarrow> p = q) \<and>
    (h_hits c k \<noteq> 0 \<longrightarrow> (\<exists>r<tab_size. fst (c_tab c r) = k)) \<and>
    c_total c + of_nat (card (pending c)) = of_nat (\<Sum>k\<in>UNIV. h_hits c k)"
proof -
  note ok = conf_ok_reach [OF assms] and tot = total_ok_reach [OF assms]
  have "c_total c + of_nat (card (pending c)) = of_nat (\<Sum>k\<in>UNIV. h_hits c k)"
    using tot by (metis of_nat_add total_ok_def)
  then show ?thesis
    using conf_ok_cnt [OF ok, of p] keys_in_table [OF conf_ok_tab [OF ok]] conf_ok_hits [OF ok, of k]
      tab_ok_unique [OF conf_ok_tab [OF ok], of p _ q] by metis
qed

end

lemma unat_mask_less: "unat (x AND m) \<le> unat m" for x m :: u32
  by (simp add: word_le_nat_alt [symmetric] word_and_le1)

interpretation edges: probe_positions edge_pos FCOV_EDGE_TAB_SIZE
proof
  show "edge_pos k i < FCOV_EDGE_TAB_SIZE" for k i
    unfolding edge_pos_def Let_def
    by (rule le_less_trans [OF unat_mask_less]) (simp add: FCOV_EDGE_TAB_MASK_def FCOV_EDGE_TAB_SIZE_def)
qed

interpretation funcs: probe_positions func_pos FCOV_FUNC_TAB_SIZE
proof
  show "func_pos k i < FCOV_FUNC_TAB_SIZE" for k i
    unfolding func_pos_def Let_def
    by (rule le_less_trans [OF unat_mask_less]) (simp add: FCOV_FUNC_TAB_MASK_def FCOV_FUNC_TAB_SIZE_def)
qed

text \<open>The inverse of the mixing function: the shifts are their own inverse, and the odd factors
  have inverses modulo \<open>2 ^ 64\<close>.\<close>

definition fcov_unhash64 :: "u64 \<Rightarrow> u64" where
  "fcov_unhash64 x =
     (let x = x XOR drop_bit 33 x;
          x = x * 0x9cb4b2f8129337db;
          x = x XOR drop_bit 33 x;
          x = x * 0x4f74430c22a54005;
          x = x XOR drop_bit 33 x
      in x)"

definition xorshift33 :: "u64 \<Rightarrow> u64" where
  "xorshift33 x = x XOR drop_bit 33 x"

lemma xorshift33_twice: "xorshift33 (xorshift33 x) = x"
  by (simp add: xorshift33_def xor.assoc)

lemma unhash_hash: "fcov_unhash64 (fcov_hash64 x) = x"
proof -
  have "fcov_hash64 x = xorshift33 (xorshift33 (xorshift33 x * 0xff51afd7ed558ccd) * 0xc4ceb9fe1a85ec53)"
    "\<And>y. fcov_unhash64 y = xorshift33 (xorshift33 (xorshift33 y * 0x9cb4b2f8129337db) * 0x4f74430c22a54005)"
    by (simp_all only: fcov_hash64_def fcov_unhash64_def Let_def xorshift33_def)
  moreover have "(0xff51afd7ed558ccd :: u64) * 0x4f74430c22a54005 = 1" "(0xc4ceb9fe1a85ec53 :: u64) * 0x9cb4b2f8129337db = 1"
    by simp_all
  ultimately show ?thesis by (simp only: xorshift33_twice mult.assoc mult_1_right)
qed

lemma edge_key_parts:
  "drop_bit 32 (fcov_make_edge_key src dst) = ucast (ucast src :: u32)"
  "ucast (fcov_make_edge_key src dst) = (ucast dst :: u32)"
  unfolding fcov_make_edge_key_def Let_def
  by (rule bit_word_eqI, auto simp: bit_simps)+


section \<open>A recorder that is not disturbed\<close>

lemma at_pc_len: "at_pc c t k l \<Longrightarrow> t < length (c_thr c)"
  by (simp add: at_pc_def)

lemma at_pc_goto [simp]: "at_pc (goto t k l c) t k l \<longleftrightarrow> t < length (c_thr c)"
  by (auto simp: at_pc_def goto_def)

lemma length_goto [simp]: "length (c_thr (goto t k l c)) = length (c_thr c)"
  by (simp add: goto_def)

text \<open>A recorder gets from \<open>c\<close> back to idle with the table \<open>tab\<close> and one more hit.\<close>

definition recorded :: "('k::zero \<Rightarrow> nat \<Rightarrow> nat) \<Rightarrow> nat \<Rightarrow> 'k \<Rightarrow> 'k fcov_tab \<Rightarrow> 'k fcov_conf \<Rightarrow> bool" where
  "recorded pos t k tab c \<longleftrightarrow> (\<exists>d. (fcov_step pos)\<^sup>*\<^sup>* c d \<and> c_tab d = tab \<and> c_total d = c_total c + 1 \<and>
     h_hits d = bump k (h_hits c) \<and> at_pc d t k PIdle)"

lemma recorded_step:
  "fcov_step pos c d \<Longrightarrow> recorded pos t k tab d \<Longrightarrow> c_total d = c_total c \<Longrightarrow> h_hits d = h_hits c \<Longrightarrow>
    recorded pos t k tab c"
  unfolding recorded_def by (metis converse_rtranclp_into_rtranclp)

lemma count_up:
  assumes "at_pc c t k (PInc p)"
  shows "recorded pos t k ((c_tab c)(p := (fst (c_tab c p), snd (c_tab c p) + 1))) c"
proof -
  let ?d1 = "goto t k PTotal (c\<lparr>c_tab := (c_tab c)(p := (fst (c_tab c p), snd (c_tab c p) + 1)),
         h_hits := bump k (h_hits c)\<rparr>)"
  let ?d2 = "goto t k PIdle (?d1\<lparr>c_total := c_total ?d1 + 1, h_total := h_total ?d1 + 1\<rparr>)"
  have a: "at_pc ?d1 t k PTotal" using at_pc_len [OF assms] by simp
  have "fcov_step pos c ?d1" using assms by (rule fcov_step.count)
  moreover have "fcov_step pos ?d1 ?d2" using a by (rule fcov_step.count_total)
  ultimately have "(fcov_step pos)\<^sup>*\<^sup>* c ?d2"
    by (intro converse_rtranclp_into_rtranclp [OF _ r_into_rtranclp])
  moreover have "at_pc ?d2 t k PIdle" using at_pc_len [OF assms] by simp
  ultimately show ?thesis unfolding recorded_def by (intro exI [of _ ?d2]) simp
qed

lemma probe_alone:
  assumes "fcov_probe pos tab k i = Some tab'" and "at_pc c t k (PLoad i)" and "c_tab c = tab" and "k \<noteq> 0"
  shows "recorded pos t k tab' c"
  using assms
proof (induction pos tab k i arbitrary: c rule: fcov_probe.induct)
  case (1 pos tab k i)
  let ?p = "pos k i"
  have i: "i < HASH_PROBE_MAX" using 1(2) by (subst (asm) fcov_probe.simps) (auto split: if_splits)
  consider (new) "fst (tab ?p) = 0" | (old) "fst (tab ?p) = k" | (other) "fst (tab ?p) \<noteq> 0" "fst (tab ?p) \<noteq> k"
    by blast
  then show ?case
  proof cases
    case new
    let ?d1 = "goto t k (PCas i) c"
    let ?d2 = "goto t k (PInc ?p) (?d1\<lparr>c_tab := (c_tab ?d1)(?p := (k, snd (c_tab ?d1 ?p)))\<rparr>)"
    have tab': "tab' = tab(?p := (k, snd (tab ?p) + 1))"
      using 1(2) new i by (subst (asm) fcov_probe.simps) (simp add: Let_def)
    have a: "at_pc ?d1 t k (PCas i)" "at_pc ?d2 t k (PInc ?p)" using at_pc_len [OF 1(3)] by simp_all
    from count_up [OF a(2), of pos] have "recorded pos t k tab' ?d2" using tab' 1(4) by simp
    then have "recorded pos t k tab' ?d1"
      using a new 1(4) by (intro recorded_step [OF fcov_step.cas_done [of ?d1 t k i pos]]) auto
    then show ?thesis
      using 1(3) i new 1(4) by (intro recorded_step [OF fcov_step.load_empty [of c t k i pos]]) auto
  next
    case old
    have "tab' = tab(?p := (k, snd (tab ?p) + 1))"
      using 1(2) old i by (subst (asm) fcov_probe.simps) (simp add: Let_def)
    then have "recorded pos t k tab' (goto t k (PInc ?p) c)"
      using count_up [of "goto t k (PInc ?p) c" t k ?p pos] old at_pc_len [OF 1(3)] 1(4) by simp
    then show ?thesis
      using 1(3-5) i old by (intro recorded_step [OF fcov_step.load_used [of c t k i pos]]) (auto simp: next_pc_def)
  next
    case other
    have "fcov_probe pos tab k (i + 1) = Some tab'"
      using 1(2) other i by (subst (asm) fcov_probe.simps) (simp add: Let_def)
    then have "recorded pos t k tab' (goto t k (PLoad (i + 1)) c)"
      using 1(1) [OF _ refl refl] other i at_pc_len [OF 1(3)] 1(4,5) by simp
    then show ?thesis
      using 1(3,4) i other by (intro recorded_step [OF fcov_step.load_used [of c t k i pos]]) (auto simp: next_pc_def)
  qed
qed

lemma record_alone:
  assumes "fcov_probe pos (c_tab c) k 0 = Some tab'" and "at_pc c t k0 PIdle" and "k \<noteq> 0" and "\<not> c_block c"
  shows "recorded pos t k tab' c"
proof -
  have "recorded pos t k tab' (goto t k (PLoad 0) (c\<lparr>h_calls := bump k (h_calls c)\<rparr>))"
    using at_pc_len [OF assms(2)] assms(3) by (intro probe_alone [OF assms(1)]) auto
  then show ?thesis by (rule recorded_step [OF fcov_step.start [OF assms(2-4)]]) auto
qed

lemma reach_steps: "(fcov_step pos)\<^sup>*\<^sup>* c d \<Longrightarrow> fcov_reach pos n c \<Longrightarrow> fcov_reach pos n d"
  by (induction rule: rtranclp_induct) (auto intro: fcov_reach.step)


lemma edge_record_reach:
  assumes "fcov_reach edge_pos n c" and "at_pc c t k0 PIdle" and "k \<noteq> 0" and "fst (c_tab c (edge_pos k 0)) = 0"
    and "\<not> c_block c"
  shows "\<exists>d. fcov_reach edge_pos n d \<and> h_hits d = bump k (h_hits c) \<and> at_pc d t k PIdle"
proof -
  have "\<exists>tab'. fcov_probe edge_pos (c_tab c) k 0 = Some tab'"
    using assms(4) by (subst fcov_probe.simps) (simp add: HASH_PROBE_MAX_def Let_def)
  then show ?thesis using record_alone [OF _ assms(2,3,5)] reach_steps [OF _ assms(1)]
    unfolding recorded_def by metis
qed

section \<open>Properties\<close>

text \<open>C14: any number of threads may record edges at the same time, while writes are blocked and
  allowed again at any time. Whatever the order of the atomic steps, in every state that is reached
  each key is in at most one slot, that slot is inside the table, and its count is the number of
  finished hits of the key (modulo \<open>2 ^ 32\<close>). Every call for a key is accounted for: it has counted
  up the slot of the key, it is still at work, it found the 64 slots of the key in use by other
  keys (which then holds for ever), or it returned at its entry because writes were blocked. When all
  recorders are idle the total is the sum of the hits.\<close>

theorem fcov_record_edge_concurrent:
  assumes "fcov_reach edge_pos n c"
  shows "(\<forall>p. fst (c_tab c p) \<noteq> 0 \<longrightarrow>
        p < FCOV_EDGE_TAB_SIZE \<and> snd (c_tab c p) = of_nat (h_hits c (fst (c_tab c p)))) \<and>
      (\<forall>p q. fst (c_tab c p) \<noteq> 0 \<and> fst (c_tab c p) = fst (c_tab c q) \<longrightarrow> p = q) \<and>
      (\<forall>k. h_hits c k \<noteq> 0 \<longrightarrow> (\<exists>p<FCOV_EDGE_TAB_SIZE. fst (c_tab c p) = k)) \<and>
      (\<forall>k. h_calls c k = h_hits c k + h_dropped c k + h_skipped c k + card {t. \<exists>l. at_pc c t k l \<and> l \<noteq> PTotal \<and> l \<noteq> PIdle}) \<and>
      (\<forall>k. h_dropped c k \<noteq> 0 \<longrightarrow> (\<forall>i<HASH_PROBE_MAX. fst (c_tab c (edge_pos k i)) \<notin> {0, k})) \<and>
      (\<forall>k. h_skipped c k \<noteq> 0 \<longrightarrow> h_blocked c) \<and>
      ((\<forall>t k l. at_pc c t k l \<longrightarrow> l = PIdle) \<longrightarrow> c_total c = of_nat (\<Sum>k\<in>UNIV. h_hits c k))"
proof -
  note ok = conf_ok_reach [OF assms]
  have "c_total c = of_nat (\<Sum>k\<in>UNIV. h_hits c k)" if "\<forall>t k l. at_pc c t k l \<longrightarrow> l = PIdle"
  proof -
    have "pending c = {}" using that by (fastforce simp: pending_def)
    then show ?thesis using edges.reachable_counts [OF assms] by simp
  qed
  moreover have "h_calls c k = h_hits c k + h_dropped c k + h_skipped c k + card {t. \<exists>l. at_pc c t k l \<and> l \<noteq> PTotal \<and> l \<noteq> PIdle}" for k
    using calls_ok_reach [OF assms] by (simp add: calls_ok_def active_def busy_def)
  moreover have "\<forall>i<HASH_PROBE_MAX. fst (c_tab c (edge_pos k i)) \<notin> {0, k}" if "h_dropped c k \<noteq> 0" for k
    using ok that unfolding conf_ok_def passed_def by blast
  moreover have "h_blocked c" if "h_skipped c k \<noteq> 0" for k using ok that unfolding conf_ok_def by blast
  ultimately show ?thesis using edges.reachable_counts [OF assms] by blast
qed

theorem fcov_record_edge_concurrent_witness:
  "\<exists>c p. fcov_reach edge_pos 2 c \<and> h_hits c 5 = 1 \<and> p < FCOV_EDGE_TAB_SIZE \<and> fst (c_tab c p) = 5 \<and> snd (c_tab c p) = 1"
proof -
  let ?c0 = "fcov_conf0 2 :: u64 fcov_conf"
  have "at_pc ?c0 1 0 PIdle" "fst (c_tab ?c0 (edge_pos 5 0)) = 0" "\<not> c_block ?c0" "h_hits ?c0 5 = 0"
    by (simp_all add: at_pc_def fcov_conf0_def)
  then obtain d where d: "fcov_reach edge_pos 2 d" "h_hits d 5 = 1"
    using edge_record_reach [OF fcov_reach.init [of edge_pos 2], of 1 0 5] by (auto simp: bump_def)
  obtain p where p: "p < FCOV_EDGE_TAB_SIZE" "fst (c_tab d p) = 5"
    using fcov_record_edge_concurrent [OF d(1)] d(2) by (metis zero_neq_one)
  moreover have "snd (c_tab d p) = of_nat (h_hits d 5)" using fcov_record_edge_concurrent [OF d(1)] p(2) by auto
  ultimately show ?thesis using d by auto
qed



text \<open>Hashing and packing lose nothing: the mixing function has an inverse, so different keys
  have different hashes, and an edge key gives back the low halves of both addresses.\<close>

theorem fcov_keys_roundtrip:
  "fcov_unhash64 (fcov_hash64 x) = x \<and>
   drop_bit 32 (fcov_make_edge_key src dst) = ucast (ucast src :: u32) \<and>
   ucast (fcov_make_edge_key src dst) = (ucast dst :: u32)"
  by (simp add: unhash_hash edge_key_parts)

end
