(* ===== verification/HF_Instrument.thy ===== *)
theory HF_Instrument
  imports HF_Run HF_ValSearch HF_FCov
begin

text \<open>
  The instrumentation run time that is linked into the fuzzed program
  (\<open>honggfuzz/libhfuzz/instrument.c\<close>): coverage maps shared with the fuzzer, comparison
  feedback, and the hooks the compiler calls.

  The large arrays of \<open>feedback_t\<close> are functions from indices; every access is checked against
  the size of the array. \<open>globalCovFeedback\<close> and \<open>localCovFeedback\<close> are pointers that both start
  at the same static structure, so the structures are kept in a store by reference. The guards and
  the 8-bit counters of the modules of the program are cells of its memory. The address a hook is
  called from (\<open>__builtin_return_address\<close>) is an argument.
\<close>

section \<open>State\<close>

definition HF_PERF_BITMAP_SIZE_16M :: nat where
  "HF_PERF_BITMAP_SIZE_16M = 1024 * 1024 * 16"

definition HF_PERF_BITMAP_BITSZ_MASK :: u64 where
  "HF_PERF_BITMAP_BITSZ_MASK = 0x7FFFFFF"

definition HF_PC_GUARD_MAX :: nat where
  "HF_PC_GUARD_MAX = 1024 * 1024 * 64"

definition HF_THREAD_MAX :: nat where
  "HF_THREAD_MAX = 2048"

definition CMP_VALS_MAX :: nat where
  "CMP_VALS_MAX = 1024 * 16"

record feedback_t =
  pcGuardMap :: "nat \<Rightarrow> byte"
  bbMapPc :: "nat \<Rightarrow> byte"
  bbMapCmp :: "nat \<Rightarrow> u32"
  pidNewPC :: "nat \<Rightarrow> u64"
  pidNewEdge :: "nat \<Rightarrow> u64"
  pidNewCmp :: "nat \<Rightarrow> u64"
  guardNb :: u64
  pidTotalPC :: "nat \<Rightarrow> u64"
  pidTotalEdge :: "nat \<Rightarrow> u64"
  pidTotalCmp :: "nat \<Rightarrow> u64"

text \<open>The structures the two pointers can point to.\<close>

datatype fb_ref = BBMapFb | CovBitmap | PerThreadBitmap

record ctr8_t =
  ctr_start :: addr
  ctr_cnt :: nat
  ctr_guard :: nat

text \<open>\<open>g_fcov\<close>: null, the failed mapping \<open>MAP_FAILED\<close>, or the mapped structure.\<close>

datatype fcov_ptr = FcovNull | FcovFailed | FcovMap func_coverage_t

text \<open>
  What the process finds at start-up: the number in the environment (as \<open>atoi\<close> reads it), and
  for each of the shared files its size, if the descriptor is open, and the mapped contents, if
  \<open>mmap\<close> succeeds.
\<close>

record ins_env_t =
  env_thread_no :: "int option"
  env_cov :: "nat option \<times> feedback_t option"
  env_local :: "nat option \<times> feedback_t option"
  env_cmp :: "nat option \<times> cmpfeedback_t option"
  env_fcov :: "nat option \<times> func_coverage_t option"

record instr_t =
  fb_store :: "fb_ref \<Rightarrow> feedback_t"
  globalCov :: fb_ref
  localCov :: fb_ref
  globalCmp :: "cmpfeedback_t option"
  g_fcov :: fcov_ptr
  my_thread_no :: u32
  guardCnt :: nat
  guards_initialized :: bool
  gcells :: "addr \<Rightarrow> u32"           \<comment> \<open>the PC guards of the modules\<close>
  ccells :: "addr \<Rightarrow> byte"          \<comment> \<open>the 8-bit counters of the modules\<close>
  hf8bitcounters :: "ctr8_t list"   \<comment> \<open>the used entries of the table\<close>
  ins_rng :: rng
  ins_image :: "dl_phdr_info list"
  ins_env :: ins_env_t
  ins_once :: bool                  \<comment> \<open>\<open>localInitOnce\<close> has run\<close>

definition covG :: "instr_t \<Rightarrow> feedback_t" where
  "covG s = fb_store s (globalCov s)"

definition covL :: "instr_t \<Rightarrow> feedback_t" where
  "covL s = fb_store s (localCov s)"

definition modG :: "(feedback_t \<Rightarrow> feedback_t) \<Rightarrow> (instr_t, unit) hm" where
  "modG f = modify (\<lambda>s. s\<lparr>fb_store := (fb_store s)(globalCov s := f (covG s))\<rparr>)"

definition modL :: "(feedback_t \<Rightarrow> feedback_t) \<Rightarrow> (instr_t, unit) hm" where
  "modL f = modify (\<lambda>s. s\<lparr>fb_store := (fb_store s)(localCov s := f (covL s))\<rparr>)"

text \<open>Adding to the entry of the thread in one of the arrays by thread.\<close>

definition add_pid ::
  "(((nat \<Rightarrow> u64) \<Rightarrow> nat \<Rightarrow> u64) \<Rightarrow> feedback_t \<Rightarrow> feedback_t) \<Rightarrow> u64 \<Rightarrow> (instr_t, unit) hm" where
  "add_pid upd v =
     bnd (gets (\<lambda>s. unat (my_thread_no s))) (\<lambda>t.
     bnd (check OutOfBounds (t < HF_THREAD_MAX)) (\<lambda>_.
     modG (upd (\<lambda>a. a(t := a t + v)))))"

definition clear_pid ::
  "(((nat \<Rightarrow> u64) \<Rightarrow> nat \<Rightarrow> u64) \<Rightarrow> feedback_t \<Rightarrow> feedback_t) \<Rightarrow> (instr_t, unit) hm" where
  "clear_pid upd =
     bnd (gets (\<lambda>s. unat (my_thread_no s))) (\<lambda>t.
     bnd (check OutOfBounds (t < HF_THREAD_MAX)) (\<lambda>_.
     modG (upd (\<lambda>a. a(t := 0)))))"

section \<open>Guards\<close>

definition instrumentReserveGuard :: "nat \<Rightarrow> (instr_t, nat) hm" where
  "instrumentReserveGuard cnt =
     bnd (gets guardCnt) (\<lambda>base.
     bnd (modify (\<lambda>s. s\<lparr>guardCnt := sz_add base cnt\<rparr>)) (\<lambda>_.
     bnd (check LogFatal (sz_add base cnt < HF_PC_GUARD_MAX)) (\<lambda>_.
     bnd (gets covG) (\<lambda>fb.
     bnd (if unat (guardNb fb) < sz_add base cnt
          then modG (\<lambda>fb. fb\<lparr>guardNb := of_nat (sz_add base cnt)\<rparr>) else ret ()) (\<lambda>_.
     ret base)))))"

definition instrumentResetLocalCovFeedback :: "(instr_t, unit) hm" where
  "instrumentResetLocalCovFeedback =
     bnd (instrumentReserveGuard 0) (\<lambda>n.
     modL (\<lambda>fb. fb\<lparr>pcGuardMap := (\<lambda>i. if i < min n HF_PC_GUARD_MAX then 0 else pcGuardMap fb i)\<rparr>))"

section \<open>Constants of the program for the dictionary\<close>

definition ins_rnd :: "(rng, 'a) hm \<Rightarrow> (instr_t, 'a) hm" where
  "ins_rnd m = zoom ins_rng (\<lambda>g s. s\<lparr>ins_rng := g\<rparr>) m"

definition instrumentLimitEvery :: "u64 \<Rightarrow> (instr_t, bool) hm" where
  "instrumentLimitEvery step = bnd (ins_rnd (util_rndGet 0 step)) (\<lambda>v. ret (v = 0))"

text \<open>
  \<open>mem\<close> has the bytes that are accessible from the address on. This is the call of one process that runs alone: its increment
  returns the number it read before, so \<open>newoff\<close> is \<open>curroff\<close>. The steps of several processes that add at the same time
  are modelled in \<open>HF_Dict\<close>.
\<close>

definition instrumentAddConstMemInternal :: "byte list \<Rightarrow> nat \<Rightarrow> (instr_t, unit) hm" where
  "instrumentAddConstMemInternal mem len =
     (if len \<le> 1 then ret ()
      else
        let len = (if len > 32 then 32 else len)
        in bnd (gets globalCmp) (\<lambda>g.
           bnd (or_fault NullDeref g) (\<lambda>fb.
           let curroff = unat (cmpf_cnt fb)
           in if curroff \<ge> CMP_VALS_MAX then ret ()
              else
                bnd (check OutOfBounds (len \<le> length mem)) (\<lambda>_.
                if \<exists>e\<in>set (take curroff (cmpf_valArr fb)).
                     len = unat (cv_len e) \<and> take len (cv_val e) = take len mem
                then ret ()
                else
                  let newoff = curroff; fb = fb\<lparr>cmpf_cnt := cmpf_cnt fb + 1\<rparr>
                  in if newoff \<ge> CMP_VALS_MAX
                     then modify (\<lambda>s. s\<lparr>globalCmp := Some (fb\<lparr>cmpf_cnt := of_nat CMP_VALS_MAX\<rparr>)\<rparr>)
                     else
                       bnd (or_fault OutOfBounds (buf_get (cmpf_valArr fb) newoff)) (\<lambda>e.
                       bnd (or_fault OutOfBounds (buf_write (cv_val e) 0 (take len mem))) (\<lambda>val.
                       modify (\<lambda>s. s\<lparr>globalCmp := Some (fb\<lparr>cmpf_valArr :=
                         (cmpf_valArr fb)[newoff := \<lparr>cv_val = val, cv_len = of_nat len\<rparr>]\<rparr>)\<rparr>)))))))"

definition instrumentAddConstMem :: "u64 \<Rightarrow> byte list \<Rightarrow> nat \<Rightarrow> bool \<Rightarrow> (instr_t, unit) hm" where
  "instrumentAddConstMem p mem len check_if_ro =
     bnd (gets globalCmp) (\<lambda>g.
     if g = None then ret ()
     else if len \<le> 1 then ret ()
     else bnd (instrumentLimitEvery 127) (\<lambda>now.
       if \<not> now then ret ()
       else bnd (gets ins_image) (\<lambda>im.
         if check_if_ro \<and> util_getProgAddr im p = LHFC_ADDR_NOTFOUND then ret ()
         else instrumentAddConstMemInternal mem len)))"

text \<open>A string: the NUL ends it, or the read leaves the accessible bytes.\<close>

definition strlenM :: "byte list \<Rightarrow> ('s, nat) hm" where
  "strlenM mem = bnd (check OutOfBounds (0 \<in> set mem)) (\<lambda>_. ret (length (cstr mem)))"

definition strnlenM :: "byte list \<Rightarrow> nat \<Rightarrow> ('s, nat) hm" where
  "strnlenM mem n =
     bnd (check OutOfBounds (0 \<in> set (take n mem) \<or> n \<le> length mem)) (\<lambda>_. ret (length (cstr (take n mem))))"

definition instrumentAddConstStr :: "u64 \<Rightarrow> byte list \<Rightarrow> (instr_t, unit) hm" where
  "instrumentAddConstStr p mem =
     bnd (gets globalCmp) (\<lambda>g.
     if g = None then ret ()
     else bnd (instrumentLimitEvery 127) (\<lambda>now.
       if \<not> now then ret ()
       else
         bnd (or_fault OutOfBounds (buf_get mem 0)) (\<lambda>c0.
         bnd (if c0 = 0 then ret 0 else or_fault OutOfBounds (buf_get mem 1)) (\<lambda>c1.
         if c0 = 0 \<or> c1 = 0 then ret ()
         else bnd (gets ins_image) (\<lambda>im.
           if util_getProgAddr im p = LHFC_ADDR_NOTFOUND then ret ()
           else bnd (strlenM mem) (\<lambda>n. instrumentAddConstMemInternal mem n))))))"

definition instrumentAddConstStrN :: "u64 \<Rightarrow> byte list \<Rightarrow> nat \<Rightarrow> (instr_t, unit) hm" where
  "instrumentAddConstStrN p mem n =
     bnd (gets globalCmp) (\<lambda>g.
     if g = None then ret ()
     else if n \<le> 1 then ret ()
     else bnd (instrumentLimitEvery 127) (\<lambda>now.
       if \<not> now then ret ()
       else bnd (gets ins_image) (\<lambda>im.
         if util_getProgAddr im p = LHFC_ADDR_NOTFOUND then ret ()
         else bnd (strnlenM mem n) (\<lambda>m. instrumentAddConstMemInternal mem m))))"

definition instrumentConstAvail :: "(instr_t, bool) hm" where
  "instrumentConstAvail = gets (\<lambda>s. globalCmp s \<noteq> None)"


section \<open>Program counters\<close>

text \<open>\<open>ATOMIC_BITMAP_SET\<close> on \<open>globalCovFeedback->bbMapPc\<close>: the bit before.\<close>

definition bitmap_set_pc :: "nat \<Rightarrow> (instr_t, bool) hm" where
  "bitmap_set_pc offset =
     bnd (check OutOfBounds (offset div 8 < HF_PERF_BITMAP_SIZE_16M)) (\<lambda>_.
     bnd (gets covG) (\<lambda>fb.
     let b = bbMapPc fb (offset div 8); mask = push_bit (offset mod 8) 1 :: byte
     in if b AND mask \<noteq> 0 then ret True
        else bnd (modG (\<lambda>fb. fb\<lparr>bbMapPc := (bbMapPc fb)(offset div 8 := b OR mask)\<rparr>)) (\<lambda>_. ret False)))"

definition mark_pc :: "u64 \<Rightarrow> (instr_t, unit) hm" where
  "mark_pc x =
     bnd (bitmap_set_pc (unat (x AND HF_PERF_BITMAP_BITSZ_MASK))) (\<lambda>prev.
     if \<not> prev then add_pid pidNewPC_update 1 else ret ())"

definition hfuzz_trace_pc_internal :: "u64 \<Rightarrow> (instr_t, unit) hm" where
  "hfuzz_trace_pc_internal pc = mark_pc pc"

definition sanitizer_cov_trace_pc :: "u64 \<Rightarrow> (instr_t, unit) hm" where
  "sanitizer_cov_trace_pc ra = hfuzz_trace_pc_internal ra"

definition hfuzz_trace_pc :: "u64 \<Rightarrow> (instr_t, unit) hm" where
  "hfuzz_trace_pc pc = hfuzz_trace_pc_internal pc"

definition cyg_profile_func_enter :: "(u64 \<Rightarrow> u64 option) \<Rightarrow> u64 \<Rightarrow> u64 \<Rightarrow> (instr_t, unit) hm" where
  "cyg_profile_func_enter dladdr func caller =
     bnd (gets g_fcov) (\<lambda>f.
     case f of
       FcovMap fcov \<Rightarrow>
         (case fcov_record dladdr (Some fcov) caller func of
            None \<Rightarrow> raise NullDeref
          | Some fcov' \<Rightarrow> modify (\<lambda>s. s\<lparr>g_fcov := FcovMap fcov'\<rparr>))
     | FcovFailed \<Rightarrow> raise OutOfBounds
     | FcovNull \<Rightarrow> mark_pc (push_bit 12 func OR (caller AND 0xFFF)))"

definition cyg_profile_func_exit :: "u64 \<Rightarrow> u64 \<Rightarrow> (instr_t, unit) hm" where
  "cyg_profile_func_exit func caller = ret ()"

definition sanitizer_cov_trace_pc_indir :: "u64 \<Rightarrow> u64 \<Rightarrow> (instr_t, unit) hm" where
  "sanitizer_cov_trace_pc_indir ra callee = mark_pc (push_bit 12 ra OR (callee AND 0xFFF))"

definition sanitizer_cov_indir_call16 :: "u64 \<Rightarrow> u64 \<Rightarrow> (instr_t, unit) hm" where
  "sanitizer_cov_indir_call16 ra callee = mark_pc (push_bit 12 ra OR (callee AND 0xFFF))"

section \<open>Comparisons\<close>

definition popcount :: "'a::len word \<Rightarrow> nat" where
  "popcount w = length (filter (bit w) [0..<LENGTH('a)])"

text \<open>
  The slot of an address keeps the largest number of equal bits. The slot has 32 bits, and the
  hooks read it into an 8-bit variable.
\<close>

definition note_cmp :: "u64 \<Rightarrow> byte \<Rightarrow> (instr_t, unit) hm" where
  "note_cmp pc v =
     (let pos = unat pc mod HF_PERF_BITMAP_SIZE_16M
      in bnd (check OutOfBounds (pos < HF_PERF_BITMAP_SIZE_16M)) (\<lambda>_.
         bnd (gets (\<lambda>s. bbMapCmp (covG s) pos)) (\<lambda>slot.
         let prev = ucast slot :: byte
         in if prev < v
            then bnd (modG (\<lambda>fb. fb\<lparr>bbMapCmp := (bbMapCmp fb)(pos := ucast v)\<rparr>)) (\<lambda>_.
                 add_pid pidNewCmp_update (ucast v - ucast prev))
            else ret ())))"

definition hfuzz_trace_cmp1_internal :: "u64 \<Rightarrow> byte \<Rightarrow> byte \<Rightarrow> (instr_t, unit) hm" where
  "hfuzz_trace_cmp1_internal pc Arg1 Arg2 = note_cmp pc (of_nat (1 * 8 - popcount (Arg1 XOR Arg2)))"

definition hfuzz_trace_cmp2_internal :: "u64 \<Rightarrow> u16 \<Rightarrow> u16 \<Rightarrow> (instr_t, unit) hm" where
  "hfuzz_trace_cmp2_internal pc Arg1 Arg2 = note_cmp pc (of_nat (2 * 8 - popcount (Arg1 XOR Arg2)))"

definition hfuzz_trace_cmp4_internal :: "u64 \<Rightarrow> u32 \<Rightarrow> u32 \<Rightarrow> (instr_t, unit) hm" where
  "hfuzz_trace_cmp4_internal pc Arg1 Arg2 = note_cmp pc (of_nat (4 * 8 - popcount (Arg1 XOR Arg2)))"

definition hfuzz_trace_cmp8_internal :: "u64 \<Rightarrow> u64 \<Rightarrow> u64 \<Rightarrow> (instr_t, unit) hm" where
  "hfuzz_trace_cmp8_internal pc Arg1 Arg2 = note_cmp pc (of_nat (8 * 8 - popcount (Arg1 XOR Arg2)))"

text \<open>The bytes of a value in memory (little endian), and the value with its bytes swapped.\<close>

definition mem_bytes :: "nat \<Rightarrow> 'a::len word \<Rightarrow> byte list" where
  "mem_bytes n w = map (\<lambda>i. ucast (drop_bit (8 * i) w)) [0..<n]"

definition bswap :: "nat \<Rightarrow> 'a::len word \<Rightarrow> 'a word" where
  "bswap n w = horner_sum ucast 256 (rev (mem_bytes n w))"

text \<open>A value that the program's image has, or its byte-swapped form, goes into the dictionary
  in both forms.\<close>

definition add_if_const :: "nat \<Rightarrow> (dl_phdr_info list \<Rightarrow> 'a::len word \<Rightarrow> fault + bool) \<Rightarrow> 'a word \<Rightarrow> (instr_t, unit) hm" where
  "add_if_const n inBinary Arg =
     (let bswp = bswap n Arg
      in bnd (gets ins_image) (\<lambda>im.
         bnd (case inBinary im Arg of
                Inl e \<Rightarrow> raise e
              | Inr True \<Rightarrow> ret True
              | Inr False \<Rightarrow> (case inBinary im bswp of Inl e \<Rightarrow> raise e | Inr b \<Rightarrow> ret b)) (\<lambda>found.
         if found
         then bnd (instrumentAddConstMemInternal (mem_bytes n Arg) n) (\<lambda>_.
              instrumentAddConstMemInternal (mem_bytes n bswp) n)
         else ret ())))"

definition sanitizer_cov_trace_cmp1 :: "u64 \<Rightarrow> byte \<Rightarrow> byte \<Rightarrow> (instr_t, unit) hm" where
  "sanitizer_cov_trace_cmp1 ra Arg1 Arg2 = hfuzz_trace_cmp1_internal ra Arg1 Arg2"

definition sanitizer_cov_trace_cmp2 :: "u64 \<Rightarrow> u16 \<Rightarrow> u16 \<Rightarrow> (instr_t, unit) hm" where
  "sanitizer_cov_trace_cmp2 ra Arg1 Arg2 = hfuzz_trace_cmp2_internal ra Arg1 Arg2"

definition sanitizer_cov_trace_cmp4 :: "u64 \<Rightarrow> u32 \<Rightarrow> u32 \<Rightarrow> (instr_t, unit) hm" where
  "sanitizer_cov_trace_cmp4 ra Arg1 Arg2 =
     bnd (gets globalCmp) (\<lambda>g.
     bnd (if g = None then ret False else instrumentLimitEvery 4095) (\<lambda>now.
     bnd (if now
          then bnd (if Arg1 > 0xffff then add_if_const 4 (util_32bitValInBinary False) Arg1 else ret ()) (\<lambda>_.
               if Arg2 > 0xffff then add_if_const 4 (util_32bitValInBinary False) Arg2 else ret ())
          else ret ()) (\<lambda>_.
     hfuzz_trace_cmp4_internal ra Arg1 Arg2)))"

definition sanitizer_cov_trace_cmp8 :: "u64 \<Rightarrow> u64 \<Rightarrow> u64 \<Rightarrow> (instr_t, unit) hm" where
  "sanitizer_cov_trace_cmp8 ra Arg1 Arg2 =
     bnd (gets globalCmp) (\<lambda>g.
     bnd (if g = None then ret False else instrumentLimitEvery 4095) (\<lambda>now.
     bnd (if now
          then bnd (if Arg1 > 0xffffff then add_if_const 8 (util_64bitValInBinary False) Arg1 else ret ()) (\<lambda>_.
               if Arg2 > 0xffffff then add_if_const 8 (util_64bitValInBinary False) Arg2 else ret ())
          else ret ()) (\<lambda>_.
     hfuzz_trace_cmp8_internal ra Arg1 Arg2)))"

text \<open>\<open>stk\<close> is the address of the variable on the stack that holds the constant.\<close>

definition add_const_arg :: "nat \<Rightarrow> u64 \<Rightarrow> 'a::len word \<Rightarrow> (instr_t, unit) hm" where
  "add_const_arg n stk Arg1 =
     (if Arg1 \<noteq> 0
      then bnd (instrumentAddConstMem stk (mem_bytes n (bswap n Arg1)) n False) (\<lambda>_.
           instrumentAddConstMem stk (mem_bytes n Arg1) n False)
      else ret ())"

definition sanitizer_cov_trace_const_cmp1 :: "u64 \<Rightarrow> u64 \<Rightarrow> byte \<Rightarrow> byte \<Rightarrow> (instr_t, unit) hm" where
  "sanitizer_cov_trace_const_cmp1 ra stk Arg1 Arg2 =
     bnd (instrumentAddConstMem stk (mem_bytes 1 Arg1) 1 False) (\<lambda>_. hfuzz_trace_cmp1_internal ra Arg1 Arg2)"

definition sanitizer_cov_trace_const_cmp2 :: "u64 \<Rightarrow> u64 \<Rightarrow> u16 \<Rightarrow> u16 \<Rightarrow> (instr_t, unit) hm" where
  "sanitizer_cov_trace_const_cmp2 ra stk Arg1 Arg2 =
     bnd (add_const_arg 2 stk Arg1) (\<lambda>_. hfuzz_trace_cmp2_internal ra Arg1 Arg2)"

definition sanitizer_cov_trace_const_cmp4 :: "u64 \<Rightarrow> u64 \<Rightarrow> u32 \<Rightarrow> u32 \<Rightarrow> (instr_t, unit) hm" where
  "sanitizer_cov_trace_const_cmp4 ra stk Arg1 Arg2 =
     bnd (add_const_arg 4 stk Arg1) (\<lambda>_. hfuzz_trace_cmp4_internal ra Arg1 Arg2)"

definition sanitizer_cov_trace_const_cmp8 :: "u64 \<Rightarrow> u64 \<Rightarrow> u64 \<Rightarrow> u64 \<Rightarrow> (instr_t, unit) hm" where
  "sanitizer_cov_trace_const_cmp8 ra stk Arg1 Arg2 =
     bnd (add_const_arg 8 stk Arg1) (\<lambda>_. hfuzz_trace_cmp8_internal ra Arg1 Arg2)"

definition hfuzz_trace_cmp1 :: "u64 \<Rightarrow> byte \<Rightarrow> byte \<Rightarrow> (instr_t, unit) hm" where
  "hfuzz_trace_cmp1 pc Arg1 Arg2 = hfuzz_trace_cmp1_internal pc Arg1 Arg2"

definition hfuzz_trace_cmp2 :: "u64 \<Rightarrow> u16 \<Rightarrow> u16 \<Rightarrow> (instr_t, unit) hm" where
  "hfuzz_trace_cmp2 pc Arg1 Arg2 = hfuzz_trace_cmp2_internal pc Arg1 Arg2"

definition hfuzz_trace_cmp4 :: "u64 \<Rightarrow> u32 \<Rightarrow> u32 \<Rightarrow> (instr_t, unit) hm" where
  "hfuzz_trace_cmp4 pc Arg1 Arg2 = hfuzz_trace_cmp4_internal pc Arg1 Arg2"

definition hfuzz_trace_cmp8 :: "u64 \<Rightarrow> u64 \<Rightarrow> u64 \<Rightarrow> (instr_t, unit) hm" where
  "hfuzz_trace_cmp8 pc Arg1 Arg2 = hfuzz_trace_cmp8_internal pc Arg1 Arg2"

definition sanitizer_cov_trace_cmp :: "u64 \<Rightarrow> u64 \<Rightarrow> u64 \<Rightarrow> u64 \<Rightarrow> (instr_t, unit) hm" where
  "sanitizer_cov_trace_cmp ra SizeAndType Arg1 Arg2 =
     (let CmpSize = drop_bit 32 SizeAndType div 8
      in if CmpSize = 1 then hfuzz_trace_cmp1_internal ra (ucast Arg1) (ucast Arg2)
         else if CmpSize = 2 then hfuzz_trace_cmp2_internal ra (ucast Arg1) (ucast Arg2)
         else if CmpSize = 4 then hfuzz_trace_cmp4_internal ra (ucast Arg1) (ucast Arg2)
         else if CmpSize = 8 then hfuzz_trace_cmp8_internal ra Arg1 Arg2
         else ret ())"

definition sanitizer_cov_trace_switch :: "u64 \<Rightarrow> u64 \<Rightarrow> u64 list \<Rightarrow> (instr_t, unit) hm" where
  "sanitizer_cov_trace_switch ra Val Cases =
     bnd (or_fault OutOfBounds (buf_get Cases 0)) (\<lambda>n.
     forM [0..<unat n] (\<lambda>i.
       bnd (or_fault OutOfBounds (buf_get Cases 1)) (\<lambda>bits.
       bnd (or_fault OutOfBounds (buf_get Cases (i + 2))) (\<lambda>c.
       note_cmp (ra + of_nat i) (ucast bits - of_nat (popcount (Val XOR c)))))))"

definition sanitizer_cov_trace_div8 :: "u64 \<Rightarrow> u64 \<Rightarrow> (instr_t, unit) hm" where
  "sanitizer_cov_trace_div8 ra Val = note_cmp ra (of_nat (8 * 8 - popcount Val))"

definition sanitizer_cov_trace_div4 :: "u64 \<Rightarrow> u32 \<Rightarrow> (instr_t, unit) hm" where
  "sanitizer_cov_trace_div4 ra Val = note_cmp ra (of_nat (4 * 8 - popcount Val))"

definition instrumentUpdateCmpMap :: "u64 \<Rightarrow> u32 \<Rightarrow> (instr_t, bool) hm" where
  "instrumentUpdateCmpMap a v =
     (let pos = unat a mod HF_PERF_BITMAP_SIZE_16M
      in bnd (check OutOfBounds (pos < HF_PERF_BITMAP_SIZE_16M)) (\<lambda>_.
         bnd (gets (\<lambda>s. bbMapCmp (covG s) pos)) (\<lambda>prev.
         if prev < v
         then bnd (modG (\<lambda>fb. fb\<lparr>bbMapCmp := (bbMapCmp fb)(pos := v)\<rparr>)) (\<lambda>_.
              bnd (add_pid pidNewCmp_update (ucast (v - prev))) (\<lambda>_. ret True))
         else ret False)))"

definition instrumentClearNewCov :: "(instr_t, unit) hm" where
  "instrumentClearNewCov =
     bnd (clear_pid pidNewPC_update) (\<lambda>_.
     bnd (clear_pid pidNewEdge_update) (\<lambda>_.
     bnd (clear_pid pidNewCmp_update) (\<lambda>_.
     bnd (clear_pid pidTotalPC_update) (\<lambda>_.
     bnd (clear_pid pidTotalEdge_update) (\<lambda>_.
     clear_pid pidTotalCmp_update)))))"

definition instrumentThreadNo :: "(instr_t, u32) hm" where
  "instrumentThreadNo = gets my_thread_no"


section \<open>Start-up\<close>

definition sizeof_feedback_t :: nat where
  "sizeof_feedback_t = HF_PC_GUARD_MAX + HF_PERF_BITMAP_SIZE_16M + 4 * HF_PERF_BITMAP_SIZE_16M +
     6 * (8 * HF_THREAD_MAX) + 8"

definition sizeof_cmpfeedback_t :: nat where
  "sizeof_cmpfeedback_t = 4 + CMP_VALS_MAX * (32 + 4)"

definition sizeof_func_coverage_t :: nat where
  "sizeof_func_coverage_t = 16 + 16 * FCOV_EDGE_TAB_SIZE + 8 * FCOV_FUNC_TAB_SIZE"

definition initializeCmpFeedback :: "(instr_t, unit) hm" where
  "initializeCmpFeedback =
     bnd (gets (\<lambda>s. env_cmp (ins_env s))) (\<lambda>e. case e of
       (Some sz, Some m) \<Rightarrow>
         if sz \<noteq> sizeof_cmpfeedback_t then ret () else modify (\<lambda>s. s\<lparr>globalCmp := Some m\<rparr>)
     | _ \<Rightarrow> ret ())"

definition initializeLocalCovFeedback :: "(instr_t, bool) hm" where
  "initializeLocalCovFeedback =
     bnd (gets (\<lambda>s. env_local (ins_env s))) (\<lambda>e. case e of
       (Some sz, Some m) \<Rightarrow>
         if sz < sizeof_feedback_t then ret False
         else bnd (modify (\<lambda>s. s\<lparr>fb_store := (fb_store s)(PerThreadBitmap := m), localCov := PerThreadBitmap\<rparr>)) (\<lambda>_. ret True)
     | _ \<Rightarrow> ret False)"

definition initializeGlobalCovFeedback :: "(instr_t, bool) hm" where
  "initializeGlobalCovFeedback =
     bnd (gets (\<lambda>s. env_cov (ins_env s))) (\<lambda>e. case e of
       (Some sz, Some m) \<Rightarrow>
         if sz < sizeof_feedback_t then ret False
         else bnd (modify (\<lambda>s. s\<lparr>fb_store := (fb_store s)(CovBitmap := m), globalCov := CovBitmap\<rparr>)) (\<lambda>_. ret True)
     | _ \<Rightarrow> ret False)"

text \<open>A failed mapping leaves \<open>MAP_FAILED\<close> in \<open>g_fcov\<close>.\<close>

definition fcov_initFCovFeedback :: "(instr_t, bool) hm" where
  "fcov_initFCovFeedback =
     bnd (gets (\<lambda>s. env_fcov (ins_env s))) (\<lambda>e. case fst e of
       None \<Rightarrow> ret False
     | Some sz \<Rightarrow>
         if sz < sizeof_func_coverage_t then ret False
         else (case snd e of
                 None \<Rightarrow> bnd (modify (\<lambda>s. s\<lparr>g_fcov := FcovFailed\<rparr>)) (\<lambda>_. ret False)
               | Some m \<Rightarrow> bnd (modify (\<lambda>s. s\<lparr>g_fcov := FcovMap m\<rparr>)) (\<lambda>_. ret True)))"

definition initializeInstrument :: "(instr_t, unit) hm" where
  "initializeInstrument =
     bnd (gets (\<lambda>s. env_thread_no (ins_env s))) (\<lambda>no. case no of
       None \<Rightarrow> ret ()
     | Some n \<Rightarrow>
         bnd (modify (\<lambda>s. s\<lparr>my_thread_no := of_int n\<rparr>)) (\<lambda>_.
         bnd (check LogFatal (unat (of_int n :: u32) < HF_THREAD_MAX)) (\<lambda>_.
         bnd initializeGlobalCovFeedback (\<lambda>okG.
         bnd (check LogFatal okG) (\<lambda>_.
         bnd initializeLocalCovFeedback (\<lambda>okL.
         bnd (check LogFatal okL) (\<lambda>_.
         bnd initializeCmpFeedback (\<lambda>_.
         bnd instrumentClearNewCov (\<lambda>_.
         bnd fcov_initFCovFeedback (\<lambda>_. ret ()))))))))))"

definition hfuzzInstrumentInit :: "(instr_t, unit) hm" where
  "hfuzzInstrumentInit =
     bnd (gets ins_once) (\<lambda>once.
     if once then ret ()
     else bnd (modify (\<lambda>s. s\<lparr>ins_once := True\<rparr>)) (\<lambda>_. initializeInstrument))"

section \<open>Edges\<close>

definition sanitizer_cov_trace_pc_guard_init :: "addr \<Rightarrow> addr \<Rightarrow> (instr_t, unit) hm" where
  "sanitizer_cov_trace_pc_guard_init start stop =
     bnd (modify (\<lambda>s. s\<lparr>guards_initialized := True\<rparr>)) (\<lambda>_.
     bnd hfuzzInstrumentInit (\<lambda>_.
     if start = stop then ret ()
     else
       bnd (gets (\<lambda>s. gcells s start)) (\<lambda>g.
       if g > 0 then ret ()
       else forM [start..<stop] (\<lambda>x.
              bnd (instrumentReserveGuard 1) (\<lambda>guardNo.
              modify (\<lambda>s. s\<lparr>gcells := (gcells s)(x := of_nat guardNo)\<rparr>))))))"

text \<open>Numbers of visits are mapped to buckets.\<close>

definition instrumentCntMap :: "byte list" where
  "instrumentCntMap = [0, 1, 2, 4] @ replicate 2 8 @ replicate 5 16 @ replicate 22 32 @ replicate 32 64 @ replicate 191 128"

text \<open>The new bucket of an edge goes into the global map.\<close>

definition note_edge :: "nat \<Rightarrow> byte \<Rightarrow> (instr_t, unit) hm" where
  "note_edge guard newval =
     bnd (check OutOfBounds (guard < HF_PC_GUARD_MAX)) (\<lambda>_.
     bnd (gets (\<lambda>s. pcGuardMap (covG s) guard)) (\<lambda>oldval.
     if oldval < newval
     then bnd (modG (\<lambda>fb. fb\<lparr>pcGuardMap := (pcGuardMap fb)(guard := oldval OR newval)\<rparr>)) (\<lambda>_.
          if oldval = 0 then add_pid pidNewEdge_update 1
          else if oldval < newval then add_pid pidNewCmp_update 1
          else ret ())
     else ret ()))"

definition sanitizer_cov_trace_pc_guard :: "addr \<Rightarrow> (instr_t, unit) hm" where
  "sanitizer_cov_trace_pc_guard guard_ptr =
     bnd (gets (\<lambda>s. unat (gcells s guard_ptr))) (\<lambda>guard.
     if guard = 0 then ret ()
     else
       bnd (check OutOfBounds (guard < HF_PC_GUARD_MAX)) (\<lambda>_.
       bnd (gets (\<lambda>s. pcGuardMap (covL s) guard)) (\<lambda>c.
       bnd (if c > 100 then modify (\<lambda>s. s\<lparr>gcells := (gcells s)(guard_ptr := 0)\<rparr>) else ret ()) (\<lambda>_.
       bnd (modL (\<lambda>fb. fb\<lparr>pcGuardMap := (pcGuardMap fb)(guard := pcGuardMap fb guard + 1)\<rparr>)) (\<lambda>_.
       let v = c + 1
       in bnd (if v = 1 then add_pid pidTotalEdge_update 1 else add_pid pidTotalCmp_update 1) (\<lambda>_.
          bnd (or_fault OutOfBounds (buf_get instrumentCntMap (unat v))) (\<lambda>newval.
          note_edge guard newval)))))))"

text \<open>One 8-bit counter: it is reset and its bucket is noted; the totals are returned.\<close>

definition count_counter :: "ctr8_t \<Rightarrow> nat \<Rightarrow> u64 \<times> u64 \<Rightarrow> (instr_t, u64 \<times> u64) hm" where
  "count_counter m j tot = (case tot of (totalEdge, totalCmp) \<Rightarrow>
     bnd (gets (\<lambda>s. ccells s (ctr_start m + j))) (\<lambda>v.
     bnd (modify (\<lambda>s. s\<lparr>ccells := (ccells s)(ctr_start m + j := 0)\<rparr>)) (\<lambda>_.
     if v = 0 then ret (totalEdge, totalCmp)
     else
       bnd (or_fault OutOfBounds (buf_get instrumentCntMap (unat v))) (\<lambda>newval.
       bnd (note_edge (ctr_guard m + j) newval) (\<lambda>_.
       ret (totalEdge + 1, if v > 1 then totalCmp + ucast newval else totalCmp))))))"

definition instrument8BitCountersCount :: "(instr_t, unit) hm" where
  "instrument8BitCountersCount =
     bnd (gets hf8bitcounters) (\<lambda>ms.
     bnd (foldM (\<lambda>m tot. foldM (\<lambda>j tot. count_counter m j tot) [0..<ctr_cnt m] tot) ms (0, 0)) (\<lambda>tot.
     bnd (add_pid pidTotalEdge_update (fst tot)) (\<lambda>_.
     add_pid pidTotalCmp_update (snd tot))))"

text \<open>An entry whose start is null stays free.\<close>

definition sanitizer_cov_8bit_counters_init :: "addr \<Rightarrow> addr \<Rightarrow> (instr_t, unit) hm" where
  "sanitizer_cov_8bit_counters_init start stop =
     bnd hfuzzInstrumentInit (\<lambda>_.
     if start = stop then ret ()
     else
       bnd (gets hf8bitcounters) (\<lambda>ms.
       if length ms < 256
       then let cnt = sz_sub stop start
            in bnd (instrumentReserveGuard cnt) (\<lambda>guard.
               if start = 0 then ret ()
               else modify (\<lambda>s. s\<lparr>hf8bitcounters := ms @ [\<lparr>ctr_start = start, ctr_cnt = cnt, ctr_guard = guard\<rparr>]\<rparr>))
       else ret ()))"

definition sanitizer_cov_pcs_init :: "addr \<Rightarrow> addr \<Rightarrow> (instr_t, unit) hm" where
  "sanitizer_cov_pcs_init pcs_beg pcs_end = ret ()"

end
