(* ===== verification/HF_Instrument_Props.thy ===== *)
theory HF_Instrument_Props
  imports HF_Instrument
begin

text \<open>
  Correctness of the instrumentation run time. \<open>ins_event\<close> has the calls the instrumented
  program makes; \<open>exec\<close> runs one. The invariant \<open>ins_ok\<close> says that the thread number is inside
  the arrays by thread, that no two guards and no two 8-bit counters share an entry of the guard
  map, that all entries in use are inside it, and that the values for the dictionary are well
  formed. \<open>keeps\<close> relates the state before and after: coverage that was found is not lost.
\<close>

section \<open>Calls\<close>

datatype ins_event =
    EvGuardInit addr addr | EvGuard addr | EvCtrInit addr addr | EvCtrCount | EvReset | EvClear
  | EvPc u64 | EvIndir u64 u64 | EvIndir16 u64 u64 | EvEnter "u64 \<Rightarrow> u64 option" u64 u64 | EvExit u64 u64
  | EvCmp1 u64 byte byte | EvCmp2 u64 u16 u16 | EvCmp4 u64 u32 u32 | EvCmp8 u64 u64 u64
  | EvConst1 u64 u64 byte byte | EvConst2 u64 u64 u16 u16 | EvConst4 u64 u64 u32 u32 | EvConst8 u64 u64 u64 u64
  | EvCmp u64 u64 u64 u64 | EvSwitch u64 u64 "u64 list" | EvDiv8 u64 u64 | EvDiv4 u64 u32
  | EvUpdateCmp u64 u32 | EvAddMem u64 "byte list" nat bool | EvAddStr u64 "byte list" | EvAddStrN u64 "byte list" nat

fun exec :: "ins_event \<Rightarrow> (instr_t, unit) hm" where
  "exec (EvGuardInit start stop) = sanitizer_cov_trace_pc_guard_init start stop"
| "exec (EvGuard g) = sanitizer_cov_trace_pc_guard g"
| "exec (EvCtrInit start stop) = sanitizer_cov_8bit_counters_init start stop"
| "exec EvCtrCount = instrument8BitCountersCount"
| "exec EvReset = instrumentResetLocalCovFeedback"
| "exec EvClear = instrumentClearNewCov"
| "exec (EvPc pc) = hfuzz_trace_pc pc"
| "exec (EvIndir ra c) = sanitizer_cov_trace_pc_indir ra c"
| "exec (EvIndir16 ra c) = sanitizer_cov_indir_call16 ra c"
| "exec (EvEnter d f c) = cyg_profile_func_enter d f c"
| "exec (EvExit f c) = cyg_profile_func_exit f c"
| "exec (EvCmp1 ra a b) = sanitizer_cov_trace_cmp1 ra a b"
| "exec (EvCmp2 ra a b) = sanitizer_cov_trace_cmp2 ra a b"
| "exec (EvCmp4 ra a b) = sanitizer_cov_trace_cmp4 ra a b"
| "exec (EvCmp8 ra a b) = sanitizer_cov_trace_cmp8 ra a b"
| "exec (EvConst1 ra stk a b) = sanitizer_cov_trace_const_cmp1 ra stk a b"
| "exec (EvConst2 ra stk a b) = sanitizer_cov_trace_const_cmp2 ra stk a b"
| "exec (EvConst4 ra stk a b) = sanitizer_cov_trace_const_cmp4 ra stk a b"
| "exec (EvConst8 ra stk a b) = sanitizer_cov_trace_const_cmp8 ra stk a b"
| "exec (EvCmp ra st a b) = sanitizer_cov_trace_cmp ra st a b"
| "exec (EvSwitch ra v cs) = sanitizer_cov_trace_switch ra v cs"
| "exec (EvDiv8 ra v) = sanitizer_cov_trace_div8 ra v"
| "exec (EvDiv4 ra v) = sanitizer_cov_trace_div4 ra v"
| "exec (EvUpdateCmp a v) = bnd (instrumentUpdateCmpMap a v) (\<lambda>_. ret ())"
| "exec (EvAddMem p m n ro) = instrumentAddConstMem p m n ro"
| "exec (EvAddStr p m) = instrumentAddConstStr p m"
| "exec (EvAddStrN p m n) = instrumentAddConstStrN p m n"

text \<open>What the compiler and the program guarantee of the arguments: ranges are ordered, tables
  of cases have the announced length, and the announced memory is accessible.\<close>

fun ev_ok :: "ins_event \<Rightarrow> bool" where
  "ev_ok (EvCtrInit start stop) \<longleftrightarrow> start \<le> stop \<and> stop < 2 ^ 63"
| "ev_ok (EvSwitch ra v cs) \<longleftrightarrow> 2 \<le> length cs \<and> unat (cs ! 0) + 2 \<le> length cs"
| "ev_ok (EvAddMem p m n ro) \<longleftrightarrow> n \<le> length m"
| "ev_ok (EvAddStr p m) \<longleftrightarrow> 0 \<in> set m"
| "ev_ok (EvAddStrN p m n) \<longleftrightarrow> n \<le> length m"
| "ev_ok _ \<longleftrightarrow> True"

section \<open>Invariant\<close>

text \<open>The values for the dictionary, as the structure in shared memory has them.\<close>

definition cmp_full :: "cmpfeedback_t \<Rightarrow> bool" where
  "cmp_full m \<longleftrightarrow> length (cmpf_valArr m) = CMP_VALS_MAX \<and> unat (cmpf_cnt m) \<le> CMP_VALS_MAX \<and>
     (\<forall>e\<in>set (cmpf_valArr m). length (cv_val e) = 32 \<and> unat (cv_len e) \<le> 32)"

definition ctr_range :: "ctr8_t \<Rightarrow> nat set" where
  "ctr_range m = {ctr_guard m..<ctr_guard m + ctr_cnt m}"

definition guards_ok :: "nat \<Rightarrow> (addr \<Rightarrow> u32) \<Rightarrow> ctr8_t list \<Rightarrow> bool" where
  "guards_ok n g ms \<longleftrightarrow> 0 < n \<and> n < HF_PC_GUARD_MAX \<and>
     (\<forall>x. unat (g x) < n) \<and> (\<forall>x y. g x \<noteq> 0 \<and> g x = g y \<longrightarrow> x = y) \<and>
     (\<forall>m\<in>set ms. 0 < ctr_guard m \<and> ctr_guard m + ctr_cnt m \<le> n) \<and>
     (\<forall>x. \<forall>m\<in>set ms. unat (g x) \<notin> ctr_range m) \<and>
     sorted_wrt (\<lambda>a b. ctr_range a \<inter> ctr_range b = {}) ms"

definition ins_ok :: "instr_t \<Rightarrow> bool" where
  "ins_ok s \<longleftrightarrow> unat (my_thread_no s) < HF_THREAD_MAX \<and>
     guards_ok (guardCnt s) (gcells s) (hf8bitcounters s) \<and>
     (\<forall>m. globalCmp s = Some m \<longrightarrow> cmp_full m) \<and>
     image_ok (ins_image s) \<and> g_fcov s \<noteq> FcovFailed"

text \<open>No coverage is lost from \<open>a\<close> to \<open>b\<close>.\<close>

definition cov_le :: "feedback_t \<Rightarrow> feedback_t \<Rightarrow> bool" where
  "cov_le a b \<longleftrightarrow> (\<forall>i. pcGuardMap a i OR pcGuardMap b i = pcGuardMap b i) \<and>
     (\<forall>i. bbMapPc a i OR bbMapPc b i = bbMapPc b i)"

definition keeps :: "instr_t \<Rightarrow> instr_t \<Rightarrow> bool" where
  "keeps s0 s \<longleftrightarrow> globalCov s = globalCov s0 \<and> localCov s = localCov s0 \<and> ins_once s \<and>
     (globalCov s0 \<noteq> localCov s0 \<longrightarrow> cov_le (covG s0) (covG s))"

definition J :: "instr_t \<Rightarrow> instr_t \<Rightarrow> bool" where
  "J s0 s \<longleftrightarrow> ins_ok s \<and> keeps s0 s"

named_theorems hf_J \<open>steps that keep the invariant\<close>

lemma cov_le_refl [simp]: "cov_le a a"
  by (simp add: cov_le_def)

lemma or_absorb_trans: "(a :: byte) OR b = b \<Longrightarrow> b OR c = c \<Longrightarrow> a OR c = c"
  by (metis or.assoc)

lemma cov_le_trans: "cov_le a b \<Longrightarrow> cov_le b c \<Longrightarrow> cov_le a c"
  unfolding cov_le_def using or_absorb_trans by blast

lemma cov_le_counters [simp]:
  "cov_le fb (pidNewPC_update f fb)" "cov_le fb (pidNewEdge_update f fb)" "cov_le fb (pidNewCmp_update f fb)"
  "cov_le fb (pidTotalPC_update f fb)" "cov_le fb (pidTotalEdge_update f fb)" "cov_le fb (pidTotalCmp_update f fb)"
  "cov_le fb (bbMapCmp_update f2 fb)" "cov_le fb (guardNb_update f3 fb)"
  by (simp_all add: cov_le_def)

lemma J_modG:
  assumes "J s0 s" and "cov_le (covG s) (f (covG s))"
  shows "wlp (modG f) (\<lambda>_. J s0) s"
  using assms cov_le_trans [OF _ assms(2)]
  by (auto simp: modG_def wlp_modify J_def keeps_def ins_ok_def covG_def)

lemma J_modL: "J s0 s \<Longrightarrow> wlp (modL f) (\<lambda>_. J s0) s"
  by (auto simp: modL_def wlp_modify J_def keeps_def ins_ok_def covG_def)

lemma J_add_pid:
  assumes "J s0 s" and "\<And>fb f. cov_le fb (upd f fb)"
  shows "wlp (add_pid upd v) (\<lambda>_. J s0) s"
proof -
  have "wlp (modG (upd g)) (\<lambda>_. J s0) s" for g by (rule J_modG [OF assms(1)]) (rule assms(2))
  then show ?thesis using assms(1) by (auto simp: add_pid_def hf_wlp J_def ins_ok_def)
qed

lemma J_clear_pid:
  assumes "J s0 s" and "\<And>fb f. cov_le fb (upd f fb)"
  shows "wlp (clear_pid upd) (\<lambda>_. J s0) s"
proof -
  have "wlp (modG (upd g)) (\<lambda>_. J s0) s" for g by (rule J_modG [OF assms(1)]) (rule assms(2))
  then show ?thesis using assms(1) by (auto simp: clear_pid_def hf_wlp J_def ins_ok_def)
qed

lemma wlp_seq: "wlp m (\<lambda>_. I) s \<Longrightarrow> (\<And>x t. I t \<Longrightarrow> wlp (f x) Q t) \<Longrightarrow> wlp (bnd m f) Q s"
  by (auto simp: wlp_bnd elim: wlp_mono)

lemma J_clear: "J s0 s \<Longrightarrow> wlp instrumentClearNewCov (\<lambda>_. J s0) s"
  unfolding instrumentClearNewCov_def by (intro wlp_seq [where I = "J s0"] J_clear_pid) simp_all

section \<open>Program counters and comparisons\<close>

lemma mask_less: "unat (x AND HF_PERF_BITMAP_BITSZ_MASK) div 8 < HF_PERF_BITMAP_SIZE_16M"
proof -
  have "x AND HF_PERF_BITMAP_BITSZ_MASK \<le> HF_PERF_BITMAP_BITSZ_MASK" by (rule word_and_le1)
  then have "unat (x AND HF_PERF_BITMAP_BITSZ_MASK) \<le> 0x7FFFFFF"
    by (simp add: word_le_nat_alt HF_PERF_BITMAP_BITSZ_MASK_def)
  then show ?thesis by (simp add: HF_PERF_BITMAP_SIZE_16M_def)
qed

lemma J_mark_pc: "J s0 s \<Longrightarrow> wlp (mark_pc x) (\<lambda>_. J s0) s"
proof -
  assume J: "J s0 s"
  let ?o = "unat (x AND HF_PERF_BITMAP_BITSZ_MASK)"
  let ?f = "\<lambda>fb. fb\<lparr>bbMapPc := (bbMapPc fb)(?o div 8 := bbMapPc (covG s) (?o div 8) OR push_bit (?o mod 8) 1)\<rparr>"
  have "wlp (modG ?f) (\<lambda>_. J s0) s"
    using J by (rule J_modG) (auto simp: cov_le_def or.assoc [symmetric])
  then have "wlp (bitmap_set_pc ?o) (\<lambda>_. J s0) s"
    using mask_less [of x] J by (simp add: bitmap_set_pc_def hf_wlp Let_def)
  then show ?thesis unfolding mark_pc_def
    by (rule wlp_seq) (simp add: wlp_if wlp_ret J_add_pid)
qed

lemma J_note_cmp: "J s0 s \<Longrightarrow> wlp (note_cmp pc v) (\<lambda>_. J s0) s"
proof -
  assume J: "J s0 s"
  have "wlp (bnd (modG (\<lambda>fb. fb\<lparr>bbMapCmp := f fb\<rparr>)) (\<lambda>_. add_pid pidNewCmp_update d)) (\<lambda>_. J s0) s" for f d
    using J by (intro wlp_seq [where I = "J s0"] J_modG J_add_pid) auto
  with J show ?thesis by (simp add: note_cmp_def hf_wlp Let_def HF_PERF_BITMAP_SIZE_16M_def)
qed

lemma J_updateCmp: "J s0 s \<Longrightarrow> wlp (instrumentUpdateCmpMap a v) (\<lambda>_. J s0) s"
proof -
  assume J: "J s0 s"
  have "wlp (bnd (modG (\<lambda>fb. fb\<lparr>bbMapCmp := f fb\<rparr>)) (\<lambda>_. bnd (add_pid pidNewCmp_update d) (\<lambda>_. ret b))) (\<lambda>_. J s0) s" for f d and b :: bool
    using J by (intro wlp_seq [where I = "J s0"] J_modG J_add_pid) (auto simp: wlp_ret)
  with J show ?thesis by (simp add: instrumentUpdateCmpMap_def hf_wlp Let_def HF_PERF_BITMAP_SIZE_16M_def)
qed

lemmas cmp_hook_defs = hfuzz_trace_cmp1_internal_def hfuzz_trace_cmp2_internal_def
  hfuzz_trace_cmp4_internal_def hfuzz_trace_cmp8_internal_def

lemma J_switch:
  assumes "J s0 s" and "2 \<le> length cs" and "unat (cs ! 0) + 2 \<le> length cs"
  shows "wlp (sanitizer_cov_trace_switch ra v cs) (\<lambda>_. J s0) s"
proof -
  have "wlp (forM [0..<unat (cs ! 0)] (\<lambda>i. bnd (or_fault OutOfBounds (buf_get cs 1)) (\<lambda>bits.
       bnd (or_fault OutOfBounds (buf_get cs (i + 2))) (\<lambda>c.
       note_cmp (ra + of_nat i) (ucast bits - of_nat (popcount (v XOR c))))))) (\<lambda>_. J s0) s"
    using assms by (intro wlp_forM) (auto simp: hf_wlp buf_get_def J_note_cmp)
  moreover have "cs \<noteq> []" using assms(2) by auto
  ultimately show ?thesis by (simp add: sanitizer_cov_trace_switch_def hf_wlp buf_get_def del: One_nat_def)
qed


section \<open>Values for the dictionary\<close>

lemma J_globalCmp:
  assumes "J s0 s" and "cmp_full m"
  shows "J s0 (s\<lparr>globalCmp := Some m\<rparr>)"
  using assms by (auto simp: J_def keeps_def ins_ok_def covG_def)

lemma cmp_full_add:
  assumes "cmp_full m" and "unat (cmpf_cnt m) < CMP_VALS_MAX" and "length val = 32" and "unat n \<le> 32"
  shows "cmp_full (m\<lparr>cmpf_cnt := cmpf_cnt m + 1,
    cmpf_valArr := (cmpf_valArr m)[unat (cmpf_cnt m) := \<lparr>cv_val = val, cv_len = n\<rparr>]\<rparr>)"
proof -
  have "unat (cmpf_cnt m + 1) = Suc (unat (cmpf_cnt m))"
    using assms(2) by (simp add: unat_word_ariths CMP_VALS_MAX_def)
  with assms show ?thesis
    by (auto simp: cmp_full_def dest: set_update_subset_insert [THEN subsetD])
qed

lemma J_addInternal:
  assumes J: "J s0 s" and "globalCmp s \<noteq> None" and len: "n \<le> length mem"
  shows "wlp (instrumentAddConstMemInternal mem n) (\<lambda>_. J s0) s"
proof -
  obtain m where m: "globalCmp s = Some m" using assms(2) by blast
  then have full: "cmp_full m" using J by (simp add: J_def ins_ok_def)
  let ?l = "if n > 32 then 32 else n"
  have "J s0 (s\<lparr>globalCmp := Some (m\<lparr>cmpf_cnt := cmpf_cnt m + 1,
      cmpf_valArr := (cmpf_valArr m)[unat (cmpf_cnt m) := \<lparr>cv_val = val, cv_len = of_nat ?l\<rparr>]\<rparr>)\<rparr>)"
    if "unat (cmpf_cnt m) < CMP_VALS_MAX" "length val = 32" for val
    using that full by (intro J_globalCmp [OF J] cmp_full_add) (auto simp: unat_of_nat)
  moreover have "length (cv_val (cmpf_valArr m ! unat (cmpf_cnt m))) = 32" if "unat (cmpf_cnt m) < CMP_VALS_MAX"
    using that full by (auto simp: cmp_full_def)
  ultimately show ?thesis
    using J m len full
    by (auto simp: instrumentAddConstMemInternal_def hf_wlp Let_def buf_get_def buf_write_def cmp_full_def
        split: option.splits if_splits)
qed

lemma J_limitEvery:
  assumes "J s0 s" and "step \<noteq> - 1"
    and "\<And>b t. J s0 t \<Longrightarrow> globalCmp t = globalCmp s \<Longrightarrow> Q b t"
  shows "wlp (instrumentLimitEvery step) Q s"
proof -
  have "Q b (s\<lparr>ins_rng := g\<rparr>)" for b g
    using assms(1) by (intro assms(3)) (auto simp: J_def keeps_def ins_ok_def covG_def)
  then show ?thesis using assms(2)
    by (auto simp: instrumentLimitEvery_def ins_rnd_def hf_wlp intro!: wp_wlp wp_rndGetI)
qed

lemma J_addMem: "J s0 s \<Longrightarrow> n \<le> length mem \<Longrightarrow> wlp (instrumentAddConstMem p mem n ro) (\<lambda>_. J s0) s"
  unfolding instrumentAddConstMem_def
  by (auto simp: hf_wlp intro!: J_limitEvery J_addInternal)

lemma length_cstr_le: "length (cstr mem) \<le> length mem"
  by (simp add: cstr_def length_takeWhile_le)

lemma J_addStr:
  assumes "J s0 s" and "0 \<in> set mem"
  shows "wlp (instrumentAddConstStr p mem) (\<lambda>_. J s0) s"
proof -
  obtain c0 cs where mem: "mem = c0 # cs" using assms(2) by (cases mem) auto
  have "cs \<noteq> []" if "c0 \<noteq> 0" using that assms(2) mem by auto
  then show ?thesis unfolding instrumentAddConstStr_def
    using assms length_cstr_le [of mem] mem
    by (auto simp: hf_wlp buf_get_def strlenM_def intro!: J_limitEvery J_addInternal)
qed

lemma J_addStrN:
  assumes "J s0 s" and "n \<le> length mem"
  shows "wlp (instrumentAddConstStrN p mem n) (\<lambda>_. J s0) s"
proof -
  have "length (cstr (take n mem)) \<le> length mem" using length_cstr_le [of "take n mem"] assms(2) by simp
  then show ?thesis unfolding instrumentAddConstStrN_def
    using assms by (auto simp: hf_wlp strnlenM_def intro!: J_limitEvery J_addInternal)
qed

lemma length_mem_bytes [simp]: "length (mem_bytes n w) = n"
  by (simp add: mem_bytes_def)

lemma J_add_const_arg: "J s0 s \<Longrightarrow> wlp (add_const_arg n stk a) (\<lambda>_. J s0) s"
  unfolding add_const_arg_def wlp_if wlp_ret by (auto intro!: wlp_seq [where I = "J s0"] J_addMem)

text \<open>Adding values keeps the structure mapped.\<close>

definition Jc :: "instr_t \<Rightarrow> instr_t \<Rightarrow> bool" where
  "Jc s0 s \<longleftrightarrow> J s0 s \<and> globalCmp s \<noteq> None"

lemma Jc_addInternal:
  assumes "Jc s0 s" and "n \<le> length mem"
  shows "wlp (instrumentAddConstMemInternal mem n) (\<lambda>_. Jc s0) s"
proof -
  have "wlp (instrumentAddConstMemInternal mem n) (\<lambda>_ t. globalCmp t \<noteq> None) s"
    using assms J_addInternal [of s0 s n mem]
    by (auto simp: instrumentAddConstMemInternal_def hf_wlp Let_def Jc_def split: option.splits if_splits)
  moreover have "wlp (instrumentAddConstMemInternal mem n) (\<lambda>_. J s0) s"
    using assms by (intro J_addInternal) (auto simp: Jc_def)
  ultimately show ?thesis by (auto simp: wlp_def Jc_def split: sum.splits)
qed

lemma Jc_add_if_const:
  assumes "Jc s0 s" and "\<And>v. \<exists>b. inBin (ins_image s) v = Inr b"
  shows "wlp (add_if_const n inBin a) (\<lambda>_. Jc s0) s"
proof -
  obtain b1 b2 where b: "inBin (ins_image s) a = Inr b1" "inBin (ins_image s) (bswap n a) = Inr b2"
    using assms(2) by metis
  have "wlp (bnd (instrumentAddConstMemInternal (mem_bytes n a) n)
      (\<lambda>_. instrumentAddConstMemInternal (mem_bytes n (bswap n a)) n)) (\<lambda>_. Jc s0) s"
    using assms(1) by (intro wlp_seq [where I = "Jc s0"] Jc_addInternal) auto
  with assms(1) b show ?thesis
    by (auto simp: add_if_const_def wlp_bnd wlp_gets wlp_ret wlp_if Let_def split: bool.split)
qed


lemma scan_no_fault:
  "Jc s0 s \<Longrightarrow> \<exists>b. util_32bitValInBinary False (ins_image s) v = Inr b"
  "Jc s0 s \<Longrightarrow> \<exists>b. util_64bitValInBinary False (ins_image s) w = Inr b"
  using valInBinary_scan [of "ins_image s"]
  by (auto simp: Jc_def J_def ins_ok_def util_32bitValInBinary_def util_64bitValInBinary_def)

lemma J_sometimes:
  assumes "J s0 s" and "\<And>now t. J s0 t \<Longrightarrow> (now \<longrightarrow> Jc s0 t) \<Longrightarrow> wlp (f now) (\<lambda>_. J s0) t"
  shows "wlp (bnd (gets globalCmp) (\<lambda>g.
     bnd (if g = None then ret False else instrumentLimitEvery 4095) f)) (\<lambda>_. J s0) s"
  using assms
  by (cases "globalCmp s") (auto simp: hf_wlp Jc_def intro!: J_limitEvery)

lemma J_traced_args:
  assumes "J s0 s" and "\<And>t v. Jc s0 t \<Longrightarrow> \<exists>b. inBin (ins_image t) v = Inr b"
    and "\<And>t. J s0 t \<Longrightarrow> wlp rest (\<lambda>_. J s0) t"
  shows "wlp (bnd (gets globalCmp) (\<lambda>g.
     bnd (if g = None then ret False else instrumentLimitEvery 4095) (\<lambda>now.
     bnd (if now then bnd (if p then add_if_const n inBin a else ret ()) (\<lambda>_.
               if q then add_if_const n inBin b else ret ())
          else ret ()) (\<lambda>_. rest)))) (\<lambda>_. J s0) s"
proof -
  have both: "wlp (bnd (if p then add_if_const n inBin a else ret ()) (\<lambda>_.
      if q then add_if_const n inBin b else ret ())) (\<lambda>_. J s0) t" if "Jc s0 t" for t
  proof (rule wlp_seq [where I = "Jc s0"])
    show "wlp (if p then add_if_const n inBin a else ret ()) (\<lambda>_. Jc s0) t"
      using that assms(2) by (simp add: wlp_ret Jc_add_if_const)
    show "wlp (if q then add_if_const n inBin b else ret ()) (\<lambda>_. J s0) u" if u: "Jc s0 u" for u
    proof -
      have "wlp (add_if_const n inBin b) (\<lambda>_. Jc s0) u" using u assms(2) [OF u] by (rule Jc_add_if_const)
      then show ?thesis using u by (auto simp: wlp_ret Jc_def elim: wlp_mono)
    qed
  qed
  have "wlp (bnd (if now then bnd (if p then add_if_const n inBin a else ret ()) (\<lambda>_.
               if q then add_if_const n inBin b else ret ())
          else ret ()) (\<lambda>_. rest)) (\<lambda>_. J s0) t" if "J s0 t" "now \<longrightarrow> Jc s0 t" for now t
    using both that by (intro wlp_seq [where I = "J s0"] assms(3)) (auto simp: wlp_ret)
  then show ?thesis by (rule J_sometimes [OF assms(1)]) auto
qed

section \<open>Guards\<close>

lemma guards_ok_grow:
  assumes "guards_ok n g ms" and "n + k < HF_PC_GUARD_MAX"
  shows "guards_ok (n + k) g ms"
  using assms by (auto simp: guards_ok_def intro: trans_less_add1 trans_le_add1)

lemma J_guardCnt:
  assumes "J s0 s" and "guardCnt s + k < HF_PC_GUARD_MAX"
  shows "J s0 (s\<lparr>guardCnt := guardCnt s + k\<rparr>)"
  using assms guards_ok_grow by (auto simp: J_def keeps_def ins_ok_def covG_def)

text \<open>A reservation hands out the next numbers.\<close>

lemma J_reserve:
  assumes "J s0 s" and "k < 2 ^ 63"
    and "\<And>t. J s0 t \<Longrightarrow> guardCnt t = guardCnt s + k \<Longrightarrow> gcells t = gcells s \<Longrightarrow>
      hf8bitcounters t = hf8bitcounters s \<Longrightarrow> Q (guardCnt s) t"
  shows "wlp (instrumentReserveGuard k) Q s"
proof -
  have n: "guardCnt s < HF_PC_GUARD_MAX" using assms(1) by (simp add: J_def ins_ok_def guards_ok_def)
  then have sz: "sz_add (guardCnt s) k = guardCnt s + k"
    using assms(2) by (simp add: sz_add_def HF_PC_GUARD_MAX_def)
  let ?t = "s\<lparr>guardCnt := guardCnt s + k\<rparr>"
  have "wlp (modG (\<lambda>fb. fb\<lparr>guardNb := x\<rparr>)) (\<lambda>_. Q (guardCnt s)) ?t \<and> Q (guardCnt s) ?t"
    if "guardCnt s + k < HF_PC_GUARD_MAX" for x
  proof -
    note J = J_guardCnt [OF assms(1) that]
    have "wlp (modG (\<lambda>fb. fb\<lparr>guardNb := x\<rparr>)) (\<lambda>_. J s0) ?t" by (rule J_modG [OF J]) simp
    then show ?thesis using J by (auto simp: modG_def wlp_modify intro!: assms(3))
  qed
  then show ?thesis by (simp add: instrumentReserveGuard_def hf_wlp sz)
qed

lemma J_reset: "J s0 s \<Longrightarrow> wlp instrumentResetLocalCovFeedback (\<lambda>_. J s0) s"
  unfolding instrumentResetLocalCovFeedback_def wlp_bnd by (rule J_reserve) (auto intro: J_modL)

lemma guards_ok_set:
  assumes "guards_ok n g ms" and "Suc n < HF_PC_GUARD_MAX"
  shows "guards_ok (Suc n) (g(x := of_nat n)) ms"
proof -
  have u: "unat (of_nat n :: u32) = n" using assms(2) by (simp add: unat_of_nat HF_PC_GUARD_MAX_def)
  have "g y \<noteq> of_nat n" for y
  proof -
    have "unat (g y) < n" using assms(1) by (simp add: guards_ok_def)
    then show ?thesis using u by auto
  qed
  then show ?thesis using assms u
    by (auto simp: guards_ok_def less_Suc_eq ctr_range_def dest: spec)
qed

lemma guards_ok_clear: "guards_ok n g ms \<Longrightarrow> guards_ok n (g(x := 0)) ms"
  by (auto simp: guards_ok_def ctr_range_def)

lemma guards_ok_module:
  assumes "guards_ok n g ms" and "n + k < HF_PC_GUARD_MAX"
  shows "guards_ok (n + k) g (ms @ [\<lparr>ctr_start = a, ctr_cnt = k, ctr_guard = n\<rparr>])"
proof -
  have "ctr_range m \<inter> {n..<n + k} = {}" if "m \<in> set ms" for m
    using assms(1) that by (fastforce simp: guards_ok_def ctr_range_def)
  moreover have "unat (g x) < n" for x using assms(1) by (simp add: guards_ok_def)
  ultimately show ?thesis using assms guards_ok_grow [OF assms]
    by (auto simp: guards_ok_def sorted_wrt_append ctr_range_def not_le)
qed

lemma J_gcells:
  "J s0 s \<Longrightarrow> guards_ok (guardCnt s) g ms \<Longrightarrow> J s0 (s\<lparr>gcells := g, hf8bitcounters := ms\<rparr>)"
  by (auto simp: J_def keeps_def ins_ok_def covG_def)

lemma J_guards: "J s0 s \<Longrightarrow> guards_ok (guardCnt s) (gcells s) (hf8bitcounters s)"
  by (simp add: J_def ins_ok_def)

lemma J_guardCnt_less: "J s0 s \<Longrightarrow> guardCnt s < HF_PC_GUARD_MAX"
  by (simp add: J_def ins_ok_def guards_ok_def)

lemma J_once: "J s0 s \<Longrightarrow> wlp hfuzzInstrumentInit Q s = Q () s"
  by (simp add: hfuzzInstrumentInit_def hf_wlp J_def keeps_def)

lemma J_next_guard:
  assumes "J s0 s"
  shows "wlp (bnd (instrumentReserveGuard 1) (\<lambda>guardNo.
    modify (\<lambda>s. s\<lparr>gcells := (gcells s)(x := of_nat guardNo)\<rparr>))) (\<lambda>_. J s0) s"
  unfolding wlp_bnd wlp_modify
proof (rule J_reserve [OF assms])
  fix t assume t: "J s0 t" "guardCnt t = guardCnt s + 1" "gcells t = gcells s" "hf8bitcounters t = hf8bitcounters s"
  then have "guards_ok (guardCnt t) ((gcells t)(x := of_nat (guardCnt s))) (hf8bitcounters t)"
    using guards_ok_set [OF J_guards [OF assms], of x] J_guardCnt_less [OF t(1)] by simp
  from J_gcells [OF t(1) this] show "J s0 (t\<lparr>gcells := (gcells t)(x := of_nat (guardCnt s))\<rparr>)" by simp
qed simp

lemma J_flag: "J s0 s \<Longrightarrow> J s0 (s\<lparr>guards_initialized := b\<rparr>)"
  by (auto simp: J_def keeps_def ins_ok_def covG_def)

lemma J_guardInit: "J s0 s \<Longrightarrow> wlp (sanitizer_cov_trace_pc_guard_init start stop) (\<lambda>_. J s0) s"
proof -
  assume J: "J s0 s"
  note J' = J_flag [OF J, of True]
  have "wlp (forM [start..<stop] (\<lambda>x. bnd (instrumentReserveGuard 1) (\<lambda>guardNo.
    modify (\<lambda>s. s\<lparr>gcells := (gcells s)(x := of_nat guardNo)\<rparr>)))) (\<lambda>_. J s0) (s\<lparr>guards_initialized := True\<rparr>)"
    by (rule wlp_forM [OF J_next_guard J'])
  with J' show ?thesis
    by (simp add: sanitizer_cov_trace_pc_guard_init_def wlp_bnd [of "modify _"] wlp_modify
        wlp_bnd [of hfuzzInstrumentInit] J_once [OF J'] wlp_ret wlp_bnd [of "gets _"] wlp_gets)
qed

lemma J_note_edge:
  assumes J: "J s0 s" and "guard < HF_PC_GUARD_MAX"
  shows "wlp (note_edge guard newval) (\<lambda>_. J s0) s"
proof -
  let ?f = "\<lambda>fb. fb\<lparr>pcGuardMap := (pcGuardMap fb)(guard := pcGuardMap (covG s) guard OR newval)\<rparr>"
  have "wlp (modG ?f) (\<lambda>_. J s0) s"
    using J by (rule J_modG) (auto simp: cov_le_def or.assoc [symmetric])
  then have "wlp (bnd (modG ?f) (\<lambda>_. if pcGuardMap (covG s) guard = 0 then add_pid pidNewEdge_update 1
      else if pcGuardMap (covG s) guard < newval then add_pid pidNewCmp_update 1 else ret ())) (\<lambda>_. J s0) s"
    by (rule wlp_seq) (auto simp: wlp_ret intro: J_add_pid)
  with assms show ?thesis by (simp add: note_edge_def wlp_bnd [of "check _ _"] wlp_check wlp_bnd [of "gets _"] wlp_gets wlp_ret)
qed

lemma length_instrumentCntMap [simp]: "length instrumentCntMap = 256"
  by (simp add: instrumentCntMap_def)

lemma cntMap_get: "buf_get instrumentCntMap (unat (v :: byte)) = Some (instrumentCntMap ! unat v)"
  using unat_lt_8 [of v] by (simp add: buf_get_def)

lemma J_clear_guard: "J s0 s \<Longrightarrow> J s0 (s\<lparr>gcells := (gcells s)(x := 0)\<rparr>)"
  using J_gcells [of s0 s "(gcells s)(x := 0)" "hf8bitcounters s"] guards_ok_clear
  by (simp add: J_def ins_ok_def)

lemma J_guard: "J s0 s \<Longrightarrow> wlp (sanitizer_cov_trace_pc_guard g) (\<lambda>_. J s0) s"
proof -
  assume J: "J s0 s"
  let ?n = "unat (gcells s g)" and ?c = "pcGuardMap (covL s) (unat (gcells s g))"
  have n: "?n < HF_PC_GUARD_MAX"
    using J by (auto simp: J_def ins_ok_def guards_ok_def intro: less_trans)
  have "wlp (bnd (if ?c > 100 then modify (\<lambda>s. s\<lparr>gcells := (gcells s)(g := 0)\<rparr>) else ret ()) (\<lambda>_.
       bnd (modL (\<lambda>fb. fb\<lparr>pcGuardMap := (pcGuardMap fb)(?n := pcGuardMap fb ?n + 1)\<rparr>)) (\<lambda>_.
       bnd (if ?c + 1 = 1 then add_pid pidTotalEdge_update 1 else add_pid pidTotalCmp_update 1) (\<lambda>_.
          bnd (or_fault OutOfBounds (buf_get instrumentCntMap (unat (?c + 1)))) (\<lambda>newval.
          note_edge ?n newval))))) (\<lambda>_. J s0) s"
    using J n J_clear_guard [OF J]
    by (intro wlp_seq [where I = "J s0"])
       (auto simp: wlp_modify wlp_ret cntMap_get wlp_bnd [of "or_fault _ _"] wlp_or_fault intro: J_modL J_add_pid J_note_edge)
  with J n show ?thesis
    by (simp add: sanitizer_cov_trace_pc_guard_def wlp_bnd [of "gets _"] wlp_gets wlp_bnd [of "check _ _"]
        wlp_check wlp_ret Let_def)
qed

lemma J_ccells: "J s0 s \<Longrightarrow> J s0 (s\<lparr>ccells := c\<rparr>)"
  by (auto simp: J_def keeps_def ins_ok_def covG_def)


lemma J_count_counter:
  assumes "J s0 s" and "ctr_guard m + j < HF_PC_GUARD_MAX"
  shows "wlp (count_counter m j tot) (\<lambda>_. J s0) s"
proof -
  obtain e c where tot: "tot = (e, c)" by (rule prod.exhaust)
  let ?t = "s\<lparr>ccells := (ccells s)(ctr_start m + j := 0)\<rparr>"
  have "wlp (note_edge (ctr_guard m + j) v) (\<lambda>_. J s0) ?t" for v
    using assms by (intro J_note_edge J_ccells)
  then show ?thesis using J_ccells [OF assms(1)]
    by (simp add: tot count_counter_def hf_wlp cntMap_get)
qed

lemma J_count: "J s0 s \<Longrightarrow> wlp instrument8BitCountersCount (\<lambda>_. J s0) s"
proof -
  assume J: "J s0 s"
  have b: "ctr_guard m + j < HF_PC_GUARD_MAX" if "m \<in> set (hf8bitcounters s)" "j < ctr_cnt m" for m j
    using J_guards [OF J] that by (fastforce simp: guards_ok_def)
  have "wlp (foldM (\<lambda>m tot. foldM (\<lambda>j tot. count_counter m j tot) [0..<ctr_cnt m] tot) (hf8bitcounters s) (0, 0))
      (\<lambda>_. J s0) s"
    by (intro wlp_foldM J J_count_counter) (auto intro: b)
  then have "wlp (bnd (foldM (\<lambda>m tot. foldM (\<lambda>j tot. count_counter m j tot) [0..<ctr_cnt m] tot) (hf8bitcounters s) (0, 0))
      (\<lambda>tot. bnd (add_pid pidTotalEdge_update (fst tot)) (\<lambda>_. add_pid pidTotalCmp_update (snd tot)))) (\<lambda>_. J s0) s"
    by (rule wlp_seq) (auto intro!: wlp_seq [where I = "J s0"] J_add_pid)
  then show ?thesis by (simp add: instrument8BitCountersCount_def wlp_bnd [of "gets _"] wlp_gets)
qed

lemma J_ctrInit:
  assumes J: "J s0 s" and "start \<le> stop" and "stop < 2 ^ 63"
  shows "wlp (sanitizer_cov_8bit_counters_init start stop) (\<lambda>_. J s0) s"
proof -
  have sz: "sz_sub stop start = stop - start" using assms(2) by (simp add: sz_sub_le)
  have "wlp (instrumentReserveGuard (stop - start)) (\<lambda>guard. wlp (if start = 0 then ret ()
      else modify (\<lambda>t. t\<lparr>hf8bitcounters := hf8bitcounters s @
        [\<lparr>ctr_start = start, ctr_cnt = stop - start, ctr_guard = guard\<rparr>]\<rparr>)) (\<lambda>_. J s0)) s"
  proof (rule J_reserve [OF J])
    fix t assume t: "J s0 t" "guardCnt t = guardCnt s + (stop - start)" "gcells t = gcells s"
      "hf8bitcounters t = hf8bitcounters s"
    have "guards_ok (guardCnt t) (gcells t) (hf8bitcounters s @
        [\<lparr>ctr_start = start, ctr_cnt = stop - start, ctr_guard = guardCnt s\<rparr>])"
      using guards_ok_module [OF J_guards [OF J], of "stop - start" start] J_guardCnt_less [OF t(1)] t(2,3) by simp
    from J_gcells [OF t(1) this] t(1) show "wlp (if start = 0 then ret ()
      else modify (\<lambda>t. t\<lparr>hf8bitcounters := hf8bitcounters s @
        [\<lparr>ctr_start = start, ctr_cnt = stop - start, ctr_guard = guardCnt s\<rparr>]\<rparr>)) (\<lambda>_. J s0) t"
      by (simp add: wlp_ret wlp_modify)
  qed (use assms in simp)
  with J show ?thesis
    by (simp add: sanitizer_cov_8bit_counters_init_def wlp_bnd J_once [OF J] wlp_ret wlp_gets sz Let_def)
qed

lemma J_enter:
  assumes J: "J s0 s"
  shows "wlp (cyg_profile_func_enter d f c) (\<lambda>_. J s0) s"
proof (cases "g_fcov s")
  case FcovNull
  then show ?thesis using J_mark_pc [OF J] by (simp add: cyg_profile_func_enter_def hf_wlp)
next
  case FcovFailed
  then show ?thesis using J by (simp add: J_def ins_ok_def)
next
  case (FcovMap fcov)
  have "\<exists>fcov'. fcov_record d (Some fcov) c f = Some fcov'" by (simp add: fcov_record_def Let_def)
  then obtain fcov' where "fcov_record d (Some fcov) c f = Some fcov'" ..
  moreover have "J s0 (s\<lparr>g_fcov := FcovMap fcov'\<rparr>)" using J by (auto simp: J_def keeps_def ins_ok_def covG_def)
  ultimately show ?thesis using FcovMap by (simp add: cyg_profile_func_enter_def hf_wlp)
qed

section \<open>All calls\<close>

lemma J_cmp_hook:
  "J s0 s \<Longrightarrow> wlp (hfuzz_trace_cmp1_internal pc a1 b1) (\<lambda>_. J s0) s"
  "J s0 s \<Longrightarrow> wlp (hfuzz_trace_cmp2_internal pc a2 b2) (\<lambda>_. J s0) s"
  "J s0 s \<Longrightarrow> wlp (hfuzz_trace_cmp4_internal pc a4 b4) (\<lambda>_. J s0) s"
  "J s0 s \<Longrightarrow> wlp (hfuzz_trace_cmp8_internal pc a8 b8) (\<lambda>_. J s0) s"
  by (simp_all add: cmp_hook_defs J_note_cmp)

lemma J_const_hook:
  "J s0 s \<Longrightarrow> wlp (sanitizer_cov_trace_const_cmp1 ra stk a1 b1) (\<lambda>_. J s0) s"
  "J s0 s \<Longrightarrow> wlp (sanitizer_cov_trace_const_cmp2 ra stk a2 b2) (\<lambda>_. J s0) s"
  "J s0 s \<Longrightarrow> wlp (sanitizer_cov_trace_const_cmp4 ra stk a4 b4) (\<lambda>_. J s0) s"
  "J s0 s \<Longrightarrow> wlp (sanitizer_cov_trace_const_cmp8 ra stk a8 b8) (\<lambda>_. J s0) s"
  unfolding sanitizer_cov_trace_const_cmp1_def sanitizer_cov_trace_const_cmp2_def
    sanitizer_cov_trace_const_cmp4_def sanitizer_cov_trace_const_cmp8_def
  by (rule wlp_seq [where I = "J s0"]; simp add: J_addMem J_add_const_arg J_cmp_hook)+

lemma J_cmp_args:
  "J s0 s \<Longrightarrow> wlp (sanitizer_cov_trace_cmp4 ra a4 b4) (\<lambda>_. J s0) s"
  "J s0 s \<Longrightarrow> wlp (sanitizer_cov_trace_cmp8 ra a8 b8) (\<lambda>_. J s0) s"
  unfolding sanitizer_cov_trace_cmp4_def sanitizer_cov_trace_cmp8_def
  by (rule J_traced_args; simp add: scan_no_fault J_cmp_hook)+

lemma J_exec: "J s0 s \<Longrightarrow> ev_ok e \<Longrightarrow> wlp (exec e) (\<lambda>_. J s0) s"
  by (cases e)
     (simp_all add: J_guardInit J_guard J_ctrInit J_count J_reset J_clear J_enter J_const_hook J_cmp_args J_cmp_hook
       J_switch J_addMem J_addStr J_addStrN J_mark_pc J_note_cmp hfuzz_trace_pc_def hfuzz_trace_pc_internal_def
       sanitizer_cov_trace_pc_indir_def sanitizer_cov_indir_call16_def cyg_profile_func_exit_def wlp_ret
       sanitizer_cov_trace_cmp1_def sanitizer_cov_trace_cmp2_def sanitizer_cov_trace_cmp_def Let_def
       sanitizer_cov_trace_div8_def sanitizer_cov_trace_div4_def wlp_bnd J_updateCmp)

lemma J_refl: "ins_ok s \<Longrightarrow> ins_once s \<Longrightarrow> J s s"
  by (simp add: J_def keeps_def)

lemma J_exec_all: "J s0 s \<Longrightarrow> \<forall>e\<in>set es. ev_ok e \<Longrightarrow> wlp (forM es exec) (\<lambda>_. J s0) s"
  by (intro wlp_forM) (auto intro: J_exec)

section \<open>Start-up\<close>

text \<open>The file of the function coverage can be mapped, if it is there and large enough.\<close>

definition fcov_mappable :: "ins_env_t \<Rightarrow> bool" where
  "fcov_mappable e \<longleftrightarrow> (\<forall>sz. fst (env_fcov e) = Some sz \<and> sizeof_func_coverage_t \<le> sz \<longrightarrow> snd (env_fcov e) \<noteq> None)"

text \<open>The process at its start: the values of the static variables, and what it may assume of
  the files it inherits.\<close>

definition boot_ok :: "instr_t \<Rightarrow> bool" where
  "boot_ok s \<longleftrightarrow> globalCov s = BBMapFb \<and> localCov s = BBMapFb \<and> globalCmp s = None \<and> g_fcov s = FcovNull \<and>
     my_thread_no s = 0 \<and> guardCnt s = 1 \<and> gcells s = (\<lambda>_. 0) \<and> hf8bitcounters s = [] \<and> \<not> ins_once s \<and>
     image_ok (ins_image s) \<and> (\<forall>m. snd (env_cmp (ins_env s)) = Some m \<longrightarrow> cmp_full m) \<and> fcov_mappable (ins_env s)"

lemma guards_ok_init: "guards_ok 1 (\<lambda>_. 0) []"
  by (simp add: guards_ok_def HF_PC_GUARD_MAX_def)

text \<open>The state while the start-up runs, after the thread number has been read.\<close>

definition booting :: "fb_ref \<Rightarrow> fb_ref \<Rightarrow> instr_t \<Rightarrow> bool" where
  "booting g l s \<longleftrightarrow> ins_ok s \<and> ins_once s \<and> globalCov s = g \<and> localCov s = l \<and>
     (\<forall>m. snd (env_cmp (ins_env s)) = Some m \<longrightarrow> cmp_full m) \<and> fcov_mappable (ins_env s)"

lemmas booting_defs = booting_def ins_ok_def

lemma booting_global:
  "booting g l s \<Longrightarrow> wlp initializeGlobalCovFeedback (\<lambda>ok t. ok \<longrightarrow> booting CovBitmap l t) s"
  by (auto simp: initializeGlobalCovFeedback_def hf_wlp booting_defs split: prod.splits option.splits)

lemma booting_local:
  "booting g l s \<Longrightarrow> wlp initializeLocalCovFeedback (\<lambda>ok t. ok \<longrightarrow> booting g PerThreadBitmap t) s"
  by (auto simp: initializeLocalCovFeedback_def hf_wlp booting_defs split: prod.splits option.splits)

lemma booting_cmp: "booting g l s \<Longrightarrow> wlp initializeCmpFeedback (\<lambda>_. booting g l) s"
  by (auto simp: initializeCmpFeedback_def hf_wlp booting_defs split: prod.splits option.splits)

lemma booting_clear_pid: "booting g l s \<Longrightarrow> wlp (clear_pid upd) (\<lambda>_. booting g l) s"
  by (auto simp: clear_pid_def modG_def hf_wlp booting_defs)

lemma booting_clear: "booting g l s \<Longrightarrow> wlp instrumentClearNewCov (\<lambda>_. booting g l) s"
  unfolding instrumentClearNewCov_def by (intro wlp_seq [where I = "booting g l"] booting_clear_pid)

lemma booting_fcov: "booting g l s \<Longrightarrow> wlp fcov_initFCovFeedback (\<lambda>_. booting g l) s"
  by (auto simp: fcov_initFCovFeedback_def hf_wlp booting_defs fcov_mappable_def split: option.splits)

lemma wlp_must:
  assumes "wlp m (\<lambda>ok t. ok \<longrightarrow> I t) s" and "\<And>t. I t \<Longrightarrow> wlp rest Q t"
  shows "wlp (bnd m (\<lambda>ok. bnd (check LogFatal ok) (\<lambda>_. rest))) Q s"
  using assms by (auto simp: hf_wlp elim!: wlp_mono)

lemma boot_init:
  assumes "boot_ok s"
  shows "wlp hfuzzInstrumentInit (\<lambda>_ t. ins_ok t \<and> ins_once t \<and>
    (if env_thread_no (ins_env s) = None then globalCov t = BBMapFb \<and> localCov t = BBMapFb
     else globalCov t = CovBitmap \<and> localCov t = PerThreadBitmap)) s"
proof (cases "env_thread_no (ins_env s)")
  case None
  then show ?thesis using assms guards_ok_init
    by (simp add: hfuzzInstrumentInit_def initializeInstrument_def hf_wlp boot_ok_def ins_ok_def HF_THREAD_MAX_def)
next
  case (Some n)
  let ?s = "s\<lparr>ins_once := True, my_thread_no := of_int n\<rparr>"
  have "wlp (bnd initializeGlobalCovFeedback (\<lambda>okG. bnd (check LogFatal okG) (\<lambda>_.
         bnd initializeLocalCovFeedback (\<lambda>okL. bnd (check LogFatal okL) (\<lambda>_.
         bnd initializeCmpFeedback (\<lambda>_. bnd instrumentClearNewCov (\<lambda>_.
         bnd fcov_initFCovFeedback (\<lambda>_. ret ()))))))))
      (\<lambda>_. booting CovBitmap PerThreadBitmap) ?s" if "unat (of_int n :: u32) < HF_THREAD_MAX"
  proof -
    have "booting BBMapFb BBMapFb ?s" using assms guards_ok_init that by (auto simp: booting_defs boot_ok_def)
    then show ?thesis
      by (intro wlp_must [OF booting_global] wlp_must [OF booting_local] wlp_seq [OF booting_cmp]
          wlp_seq [OF booting_clear] wlp_seq [OF booting_fcov]) (auto simp: wlp_ret)
  qed
  then have "wlp hfuzzInstrumentInit (\<lambda>_. booting CovBitmap PerThreadBitmap) s"
    using assms Some by (simp add: hfuzzInstrumentInit_def initializeInstrument_def boot_ok_def
        wlp_bnd [of "gets _"] wlp_gets wlp_bnd [of "modify _"] wlp_modify wlp_bnd [of "check _ (_ < _)"] wlp_check)
  then show ?thesis using Some by (auto simp: booting_def elim: wlp_mono)
qed


section \<open>Sample states\<close>

definition zero_feedback :: feedback_t where
  "zero_feedback = \<lparr>pcGuardMap = (\<lambda>_. 0), bbMapPc = (\<lambda>_. 0), bbMapCmp = (\<lambda>_. 0), pidNewPC = (\<lambda>_. 0),
     pidNewEdge = (\<lambda>_. 0), pidNewCmp = (\<lambda>_. 0), guardNb = 0, pidTotalPC = (\<lambda>_. 0), pidTotalEdge = (\<lambda>_. 0),
     pidTotalCmp = (\<lambda>_. 0)\<rparr>"

definition zero_fcov :: func_coverage_t where
  "zero_fcov = \<lparr>block_writes = False, fcov_fd = 7, edge_count = 0, func_count = 0,
     edge_hits = (\<lambda>_. (0, 0)), func_hits = (\<lambda>_. (0, 0))\<rparr>"

definition zero_cmp :: cmpfeedback_t where
  "zero_cmp = \<lparr>cmpf_cnt = 0, cmpf_valArr = replicate CMP_VALS_MAX \<lparr>cv_val = replicate 32 0, cv_len = 0\<rparr>\<rparr>"

definition demo_boot :: instr_t where
  "demo_boot = \<lparr>fb_store = (\<lambda>_. zero_feedback), globalCov = BBMapFb, localCov = BBMapFb, globalCmp = None,
     g_fcov = FcovNull, my_thread_no = 0, guardCnt = 1, guards_initialized = False, gcells = (\<lambda>_. 0),
     ccells = (\<lambda>_. 0), hf8bitcounters = [],
     ins_rng = \<lparr>rndThreadOnce = True, rndState = (1, 2, 3, 4), entropy = (0, 0, 0, 0)\<rparr>,
     ins_image = demo_image,
     ins_env = \<lparr>env_thread_no = Some 3, env_cov = (Some sizeof_feedback_t, Some zero_feedback),
       env_local = (Some sizeof_feedback_t, Some zero_feedback), env_cmp = (Some sizeof_cmpfeedback_t, Some zero_cmp),
       env_fcov = (Some sizeof_func_coverage_t, Some zero_fcov)\<rparr>,
     ins_once = False\<rparr>"

definition demo_ins :: instr_t where
  "demo_ins = demo_boot\<lparr>globalCov := CovBitmap, localCov := PerThreadBitmap, globalCmp := Some zero_cmp, ins_once := True\<rparr>"

lemma zero_cmp_full: "cmp_full zero_cmp"
  by (simp add: cmp_full_def zero_cmp_def)

lemma demo_image_ok: "image_ok demo_image"
  by (simp add: image_ok_def demo_image_def prog_segs_def seg_mapped_def seg_size_def seg_values_def)

lemma demo_boot_ok: "boot_ok demo_boot"
  by (simp add: boot_ok_def demo_boot_def demo_image_ok zero_cmp_full fcov_mappable_def)

lemma demo_ins_ok: "ins_ok demo_ins"
  using guards_ok_init
  by (simp add: ins_ok_def demo_ins_def demo_boot_def demo_image_ok zero_cmp_full HF_THREAD_MAX_def)

section \<open>Helper facts of the properties\<close>

lemma cmp_full_cmpf_ok: "cmp_full m \<Longrightarrow> cmpf_ok m"
  by (auto simp: cmp_full_def cmpf_ok_def CMP_VALS_MAX_def)

text \<open>The values of the dictionary.\<close>

definition dict_vals :: "cmpfeedback_t \<Rightarrow> byte list list" where
  "dict_vals m = map (\<lambda>e. take (unat (cv_len e)) (cv_val e)) (take (unat (cmpf_cnt m)) (cmpf_valArr m))"

lemma dict_known:
  assumes "cmp_full m" and "n \<le> 32" and "n \<le> length mem"
  shows "(\<exists>e\<in>set (take (unat (cmpf_cnt m)) (cmpf_valArr m)). n = unat (cv_len e) \<and> take n (cv_val e) = take n mem)
    \<longleftrightarrow> take n mem \<in> set (dict_vals m)"
proof -
  have "length (cv_val e) = 32 \<and> unat (cv_len e) \<le> 32" if "e \<in> set (take (unat (cmpf_cnt m)) (cmpf_valArr m))" for e
    using assms(1) that by (auto simp: cmp_full_def dest: in_set_takeD)
  then have "n = unat (cv_len e) \<and> take n (cv_val e) = take n mem \<longleftrightarrow> take (unat (cv_len e)) (cv_val e) = take n mem"
    if "e \<in> set (take (unat (cmpf_cnt m)) (cmpf_valArr m))" for e
    using that assms(2,3) by (metis length_take min.absorb2)
  then show ?thesis by (auto simp: dict_vals_def image_iff eq_commute [of "take n mem"])
qed


lemma take_update_snoc: "i < length xs \<Longrightarrow> take (Suc i) (xs[i := x]) = take i xs @ [x]"
  by (simp add: take_Suc_conv_app_nth)

lemma addInternal_value:
  assumes m: "globalCmp s = Some m" "cmp_full m" and n: "2 \<le> n" "n \<le> length mem"
  shows "\<exists>m'. instrumentAddConstMemInternal mem n s = Inr ((), s\<lparr>globalCmp := Some m'\<rparr>) \<and> cmp_full m' \<and>
    dict_vals m' = (if unat (cmpf_cnt m) \<ge> CMP_VALS_MAX \<or> take (min 32 n) mem \<in> set (dict_vals m) then dict_vals m
      else dict_vals m @ [take (min 32 n) mem])"
proof (cases "unat (cmpf_cnt m) \<ge> CMP_VALS_MAX")
  case True
  moreover have "s = s\<lparr>globalCmp := Some m\<rparr>" using m(1) by simp
  ultimately show ?thesis
    using n(1) m by (intro exI [of _ m]) (simp add: instrumentAddConstMemInternal_def bnd_def gets_def or_fault_def ret_def Let_def)
next
  case room: False
  define l where "l = (if n > 32 then 32 else n)"
  have l: "l \<le> 32" "l \<le> length mem" "l = min 32 n" using n(2) by (auto simp: l_def)
  note known = dict_known [OF m(2) l(1,2)]
  let ?i = "unat (cmpf_cnt m)"
  let ?e = "cmpf_valArr m ! ?i"
  let ?new = "\<lparr>cv_val = take l mem @ drop l (cv_val ?e), cv_len = of_nat l\<rparr>"
  let ?m = "m\<lparr>cmpf_cnt := cmpf_cnt m + 1, cmpf_valArr := (cmpf_valArr m)[?i := ?new]\<rparr>"
  have i: "?i < length (cmpf_valArr m)" "length (cv_val ?e) = 32" using m(2) room by (auto simp: cmp_full_def)
  have cnt: "unat (cmpf_cnt m + 1) = Suc ?i" using room by (simp add: unat_word_ariths CMP_VALS_MAX_def)
  have ul: "unat (of_nat l :: u32) = l" using l(1) by (simp add: unat_of_nat)
  then have new: "dict_vals ?m = dict_vals m @ [take l mem]"
    using i l by (simp add: dict_vals_def cnt take_update_snoc)
  have full: "cmp_full ?m"
    using m(2) room i l ul cnt by (auto simp: cmp_full_def dest!: set_update_subset_insert [THEN subsetD])
  have run: "instrumentAddConstMemInternal mem n s =
      (if take l mem \<in> set (dict_vals m) then Inr ((), s) else Inr ((), s\<lparr>globalCmp := Some ?m\<rparr>))"
    using n(1) l i m(1) room known
    by (simp add: instrumentAddConstMemInternal_def l_def [symmetric] bnd_def gets_def or_fault_def check_def ret_def
        modify_def Let_def buf_get_def buf_write_def not_le)
  show ?thesis
  proof (cases "take l mem \<in> set (dict_vals m)")
    case True
    moreover have "s = s\<lparr>globalCmp := Some m\<rparr>" using m(1) by simp
    ultimately show ?thesis using run l(3) m(2) by (intro exI [of _ m]) simp
  next
    case False
    then show ?thesis using run new full room l(3) by (intro exI [of _ ?m]) simp
  qed
qed

lemma add_pid_run:
  "unat (my_thread_no s) < HF_THREAD_MAX \<Longrightarrow>
    add_pid upd v s = Inr ((), s\<lparr>fb_store := (fb_store s)(globalCov s :=
      upd (\<lambda>a. a(unat (my_thread_no s) := a (unat (my_thread_no s)) + v)) (covG s))\<rparr>)"
  by (simp add: add_pid_def bnd_def gets_def check_def ret_def modG_def modify_def)

text \<open>A slot below 256 fits into the 8-bit variable of the hooks.\<close>

lemma slot_fits:
  assumes "slot < 256"
  shows "(ucast (slot :: u32) :: byte) < v \<longleftrightarrow> slot < ucast v"
    and "ucast (ucast slot :: byte) = (ucast slot :: u64)"
  using assms
  by (simp_all add: word_less_nat_alt unat_ucast_byte unat_ucast_8_32 word_unat_eq_iff unat_ucast_8_64 unat_ucast_32_64)

lemma ucast_8_32_64: "ucast (ucast (v :: byte) :: u32) = (ucast v :: u64)"
  by (simp add: word_unat_eq_iff unat_ucast_8_64 unat_ucast_8_32 unat_ucast_32_64)

lemma note_cmp_run:
  assumes "unat (my_thread_no s) < HF_THREAD_MAX" and i: "unat pc mod HF_PERF_BITMAP_SIZE_16M = i"
    and "bbMapCmp (covG s) i < 256"
  shows "\<exists>t. note_cmp pc v s = Inr ((), t) \<and> bbMapCmp (covG t) i = max (bbMapCmp (covG s) i) (ucast v) \<and>
    pidNewCmp (covG t) (unat (my_thread_no s)) =
      pidNewCmp (covG s) (unat (my_thread_no s)) + (ucast (bbMapCmp (covG t) i) - ucast (bbMapCmp (covG s) i))"
proof -
  have less: "i < HF_PERF_BITMAP_SIZE_16M" using i by (auto simp: HF_PERF_BITMAP_SIZE_16M_def)
  note fits = slot_fits [OF assms(3)]
  show ?thesis
  proof (cases "bbMapCmp (covG s) i < ucast v")
    case True
    have "max (bbMapCmp (covG s) i) (ucast v) = ucast v" using less_imp_le [OF True] by (rule max.absorb2)
    then show ?thesis using True assms(1) less fits
      by (simp add: note_cmp_def i bnd_def gets_def check_def ret_def modG_def modify_def Let_def add_pid_run covG_def
          ucast_8_32_64)
  next
    case False
    then have "max (bbMapCmp (covG s) i) (ucast v) = bbMapCmp (covG s) i" by (intro max.absorb1) simp
    then show ?thesis using False less fits
      by (simp add: note_cmp_def i bnd_def gets_def check_def ret_def Let_def del: not_less)
  qed
qed

lemma popcount_zero: "popcount (a XOR b) = 0 \<longleftrightarrow> a = b" for a b :: "'a::len word"
proof -
  have "popcount (a XOR b) = 0 \<longleftrightarrow> (\<forall>i<LENGTH('a). \<not> bit (a XOR b) i)"
    by (auto simp: popcount_def filter_empty_conv)
  also have "\<dots> \<longleftrightarrow> a = b" by (auto simp: bit_xor_iff intro: bit_word_eqI)
  finally show ?thesis .
qed

lemma popcount_le: "popcount w \<le> LENGTH('a)" for w :: "'a::len word"
  unfolding popcount_def by (rule order_trans [OF length_filter_le]) simp

lemma ins_ok_maps:
  assumes "ins_ok t"
  shows "unat (gcells t x) < HF_PC_GUARD_MAX" and "gcells t x \<noteq> 0 \<and> gcells t x = gcells t y \<longrightarrow> x = y"
    and "m \<in> set (hf8bitcounters t) \<Longrightarrow> ctr_range m \<subseteq> {..<HF_PC_GUARD_MAX} \<and> (\<forall>x. unat (gcells t x) \<notin> ctr_range m)"
    and "sorted_wrt (\<lambda>a b. ctr_range a \<inter> ctr_range b = {}) (hf8bitcounters t)"
    and "globalCmp t = Some c \<Longrightarrow> cmpf_ok c"
proof -
  note g = assms [unfolded ins_ok_def guards_ok_def]
  show "unat (gcells t x) < HF_PC_GUARD_MAX" using g less_trans by blast
  show "gcells t x \<noteq> 0 \<and> gcells t x = gcells t y \<longrightarrow> x = y" using g by blast
  show "sorted_wrt (\<lambda>a b. ctr_range a \<inter> ctr_range b = {}) (hf8bitcounters t)" using g by blast
  show "globalCmp t = Some c \<Longrightarrow> cmpf_ok c" using g cmp_full_cmpf_ok by blast
  assume m: "m \<in> set (hf8bitcounters t)"
  then have "ctr_guard m + ctr_cnt m \<le> guardCnt t" "guardCnt t < HF_PC_GUARD_MAX" using g by blast+
  then have "ctr_range m \<subseteq> {..<HF_PC_GUARD_MAX}" by (auto simp: ctr_range_def)
  with m g show "ctr_range m \<subseteq> {..<HF_PC_GUARD_MAX} \<and> (\<forall>x. unat (gcells t x) \<notin> ctr_range m)" by blast
qed

text \<open>A program with two guards that passes one of them and compares 1 with 3.\<close>

lemma demo_init: "\<exists>t. hfuzzInstrumentInit demo_boot = Inr ((), t) \<and> gcells t = (\<lambda>_. 0) \<and> guardCnt t = 1 \<and> ins_once t \<and>
    my_thread_no t = 3 \<and> pcGuardMap (covL t) = (\<lambda>_. 0) \<and> localCov t \<noteq> globalCov t"
  by (simp add: hfuzzInstrumentInit_def initializeInstrument_def initializeGlobalCovFeedback_def
      initializeLocalCovFeedback_def initializeCmpFeedback_def instrumentClearNewCov_def clear_pid_def modG_def
      fcov_initFCovFeedback_def demo_boot_def bnd_def gets_def check_def ret_def modify_def HF_THREAD_MAX_def)
     (simp add: covL_def zero_feedback_def)

lemma reserve_one:
  assumes "guardCnt t = k" and "k < 100"
  shows "\<exists>u. instrumentReserveGuard 1 t = Inr (k, u) \<and> gcells u = gcells t \<and> guardCnt u = k + 1 \<and> my_thread_no u = my_thread_no t \<and>
    covL u = (if localCov t = globalCov t then covL u else covL t) \<and> localCov u = localCov t \<and> globalCov u = globalCov t"
  using assms by (simp add: instrumentReserveGuard_def bnd_def gets_def check_def ret_def modify_def modG_def sz_add_def HF_PC_GUARD_MAX_def)
    (simp add: covL_def covG_def)

lemma demo_guards: "\<exists>t. bnd hfuzzInstrumentInit (\<lambda>_. exec (EvGuardInit 10 12)) demo_boot = Inr ((), t) \<and>
    gcells t 11 = 2 \<and> my_thread_no t = 3 \<and> pcGuardMap (covL t) = (\<lambda>_. 0)"
proof -
  obtain s where s: "hfuzzInstrumentInit demo_boot = Inr ((), s)" "gcells s = (\<lambda>_. 0)" "guardCnt s = 1" "ins_once s"
    "my_thread_no s = 3" "pcGuardMap (covL s) = (\<lambda>_. 0)" "localCov s \<noteq> globalCov s" using demo_init by blast
  let ?s = "s\<lparr>guards_initialized := True\<rparr>"
  obtain u where u: "instrumentReserveGuard 1 ?s = Inr (1, u)" "gcells u = gcells s" "guardCnt u = 2" "my_thread_no u = my_thread_no s"
    "covL u = covL s" "localCov u = localCov s" "globalCov u = globalCov s"
    using reserve_one [of ?s 1] s(3,7) by (auto simp: covL_def)
  let ?u = "u\<lparr>gcells := (gcells u)(10 := 1)\<rparr>"
  obtain v where v: "instrumentReserveGuard 1 ?u = Inr (2, v)" "my_thread_no v = my_thread_no s" "covL v = covL s"
    using reserve_one [of ?u 2] s(7) u(3-7) by (auto simp: covL_def)
  have again: "hfuzzInstrumentInit ?s = Inr ((), ?s)" using s(4) by (simp add: hfuzzInstrumentInit_def bnd_def gets_def ret_def)
  have "[10..<12] = [10, Suc 10]" by (simp add: upt_rec)
  then show ?thesis
    using s(1,2,5,6) u(1,2) v again
    by (simp add: sanitizer_cov_trace_pc_guard_init_def bnd_def gets_def modify_def ret_def) (simp add: covL_def)
qed

lemma add_pid_total: "my_thread_no s = 3 \<Longrightarrow> \<exists>t. add_pid upd v s = Inr ((), t) \<and> my_thread_no t = 3 \<and> gcells t = gcells s"
  by (simp add: add_pid_run HF_THREAD_MAX_def)

lemma note_edge_total:
  assumes "my_thread_no s = 3" and "g < 100"
  shows "\<exists>t. note_edge g v s = Inr ((), t) \<and> my_thread_no t = 3"
  using assms by (simp add: note_edge_def bnd_def gets_def check_def ret_def modG_def modify_def add_pid_run HF_PC_GUARD_MAX_def
      HF_THREAD_MAX_def)

lemma note_cmp_total: "my_thread_no s = 3 \<Longrightarrow> \<exists>t. note_cmp pc v s = Inr ((), t)"
  by (simp add: note_cmp_def bnd_def gets_def check_def ret_def modG_def modify_def add_pid_run Let_def HF_PERF_BITMAP_SIZE_16M_def
      HF_THREAD_MAX_def)

lemma demo_guard:
  assumes "gcells s 11 = 2" "my_thread_no s = 3" "pcGuardMap (covL s) = (\<lambda>_. 0)"
  shows "\<exists>t. sanitizer_cov_trace_pc_guard 11 s = Inr ((), t) \<and> my_thread_no t = 3"
proof -
  let ?s = "s\<lparr>fb_store := (fb_store s)(localCov s := (covL s)\<lparr>pcGuardMap := (pcGuardMap (covL s))(2 := pcGuardMap (covL s) 2 + 1)\<rparr>)\<rparr>"
  obtain t where t: "add_pid pidTotalEdge_update 1 ?s = Inr ((), t)" "my_thread_no t = 3"
    using add_pid_total [of ?s] assms(2) by auto
  have "buf_get instrumentCntMap 1 = Some 1" by (simp add: buf_get_def instrumentCntMap_def)
  then show ?thesis
    using note_edge_total [OF t(2), of 2 1] assms t(1)
    by (simp add: sanitizer_cov_trace_pc_guard_def bnd_def gets_def check_def ret_def modL_def modify_def or_fault_def Let_def
        HF_PC_GUARD_MAX_def)
qed

lemma demo_calls: "\<exists>t. bnd hfuzzInstrumentInit (\<lambda>_. forM [EvGuardInit 10 12, EvGuard 11, EvCmp1 7 1 3] exec) demo_boot = Inr ((), t)"
proof -
  obtain s where s: "bnd hfuzzInstrumentInit (\<lambda>_. exec (EvGuardInit 10 12)) demo_boot = Inr ((), s)"
    "gcells s 11 = 2" "my_thread_no s = 3" "pcGuardMap (covL s) = (\<lambda>_. 0)" using demo_guards by blast
  obtain i where i: "hfuzzInstrumentInit demo_boot = Inr ((), i)" "exec (EvGuardInit 10 12) i = Inr ((), s)"
    using s(1) by (auto simp: bnd_def split: sum.splits)
  obtain t where t: "exec (EvGuard 11) s = Inr ((), t)" "my_thread_no t = 3" using demo_guard [OF s(2-4)] by auto
  have "\<exists>u. exec (EvCmp1 7 1 3) t = Inr ((), u)"
    using note_cmp_total [OF t(2)] by (simp add: sanitizer_cov_trace_cmp1_def hfuzz_trace_cmp1_internal_def)
  then show ?thesis using i t(1) by (auto simp: bnd_def ret_def simp del: exec.simps)
qed

section \<open>Properties\<close>



text \<open>C17: coverage is not lost: with the maps of the fuzzer in place, whatever calls the program
  makes, a program counter or an edge bucket that is marked in the shared map stays marked.\<close>

theorem instrument_coverage_kept:
  assumes "ins_ok s" and "ins_once s" and "globalCov s \<noteq> localCov s" and "\<forall>e\<in>set es. ev_ok e"
    and "forM es exec s = Inr ((), t)"
  shows "globalCov t = globalCov s \<and>
    (\<forall>i n. bit (bbMapPc (covG s) i) n \<longrightarrow> bit (bbMapPc (covG t) i) n) \<and>
    (\<forall>i n. bit (pcGuardMap (covG s) i) n \<longrightarrow> bit (pcGuardMap (covG t) i) n)"
proof -
  have "J s t" using wlp_result [OF J_exec_all [OF J_refl [OF assms(1,2)] assms(4)]] assms(5) by auto
  then have "globalCov t = globalCov s" "cov_le (covG s) (covG t)" using assms(3) by (auto simp: J_def keeps_def)
  then show ?thesis unfolding cov_le_def by (metis bit_or_iff)
qed

theorem instrument_coverage_kept_witness:
  "\<exists>t. forM [EvPc 5] exec demo_ins = Inr ((), t) \<and> globalCov t = globalCov demo_ins"
proof -
  have "\<exists>t. forM [EvPc 5] exec demo_ins = Inr ((), t)"
    by (simp add: hfuzz_trace_pc_def hfuzz_trace_pc_internal_def mark_pc_def bitmap_set_pc_def bnd_def check_def ret_def
        gets_def modG_def modify_def add_pid_run demo_ins_def demo_boot_def HF_PERF_BITMAP_BITSZ_MASK_def
        HF_PERF_BITMAP_SIZE_16M_def HF_THREAD_MAX_def Let_def covG_def zero_feedback_def)
  then obtain t where t: "forM [EvPc 5] exec demo_ins = Inr ((), t)" ..
  have "globalCov demo_ins \<noteq> localCov demo_ins" "ins_once demo_ins" by (simp_all add: demo_ins_def)
  from instrument_coverage_kept [OF demo_ins_ok this(2,1) _ t] t show ?thesis by auto
qed


text \<open>\<open>instrumentUpdateCmpMap\<close> keeps the maximum: the slot of the address becomes the larger of
  its old value and the new one, the result says whether it grew, and the counter of new
  comparisons of the thread grows by exactly the gain.\<close>

theorem instrumentUpdateCmpMap_max:
  assumes "unat (my_thread_no s) < HF_THREAD_MAX"
  shows "\<exists>t. instrumentUpdateCmpMap a v s = Inr (bbMapCmp (covG s) (unat a mod HF_PERF_BITMAP_SIZE_16M) < v, t) \<and>
    bbMapCmp (covG t) = (bbMapCmp (covG s))(unat a mod HF_PERF_BITMAP_SIZE_16M :=
      max (bbMapCmp (covG s) (unat a mod HF_PERF_BITMAP_SIZE_16M)) v) \<and>
    pidNewCmp (covG t) (unat (my_thread_no s)) = pidNewCmp (covG s) (unat (my_thread_no s)) +
      ucast (bbMapCmp (covG t) (unat a mod HF_PERF_BITMAP_SIZE_16M) - bbMapCmp (covG s) (unat a mod HF_PERF_BITMAP_SIZE_16M))"
proof -
  let ?i = "unat a mod HF_PERF_BITMAP_SIZE_16M"
  have i: "?i < HF_PERF_BITMAP_SIZE_16M" by (simp add: HF_PERF_BITMAP_SIZE_16M_def)
  show ?thesis
  proof (cases "bbMapCmp (covG s) ?i < v")
    case True
    have "max (bbMapCmp (covG s) ?i) v = v" using less_imp_le [OF True] by (rule max.absorb2)
    with True i assms show ?thesis
      by (simp add: instrumentUpdateCmpMap_def bnd_def gets_def check_def ret_def modG_def modify_def Let_def
          add_pid_run covG_def)
  next
    case False
    then have "max (bbMapCmp (covG s) ?i) v = bbMapCmp (covG s) ?i" by (simp add: max_def)
    with False i assms show ?thesis
      by (simp add: instrumentUpdateCmpMap_def bnd_def gets_def check_def ret_def Let_def)
  qed
qed

theorem instrumentUpdateCmpMap_max_witness:
  "\<exists>t. instrumentUpdateCmpMap 9 300 demo_ins = Inr (True, t) \<and> bbMapCmp (covG t) 9 = 300"
proof -
  have "unat (my_thread_no demo_ins) < HF_THREAD_MAX" using demo_ins_ok by (simp add: ins_ok_def)
  from instrumentUpdateCmpMap_max [OF this, of 9 300] show ?thesis
    by (auto simp: demo_ins_def demo_boot_def covG_def zero_feedback_def HF_PERF_BITMAP_SIZE_16M_def)
qed

text \<open>The hook of an 8-byte comparison raises the slot of its address to the number of equal
  bits of the operands, as long as the slot fits into the 8-bit variable it is read into; the slot
  gets the full 64 exactly when the operands are equal.\<close>

theorem hfuzz_trace_cmp8_slot:
  assumes "unat (my_thread_no s) < HF_THREAD_MAX" and "bbMapCmp (covG s) (unat pc mod HF_PERF_BITMAP_SIZE_16M) < 64"
  shows "\<exists>t. hfuzz_trace_cmp8 pc a b s = Inr ((), t) \<and>
    bbMapCmp (covG t) (unat pc mod HF_PERF_BITMAP_SIZE_16M) =
      max (bbMapCmp (covG s) (unat pc mod HF_PERF_BITMAP_SIZE_16M)) (of_nat (64 - popcount (a XOR b))) \<and>
    (bbMapCmp (covG t) (unat pc mod HF_PERF_BITMAP_SIZE_16M) = 64 \<longleftrightarrow> a = b)"
proof -
  let ?v = "64 - popcount (a XOR b)" and ?i = "unat pc mod HF_PERF_BITMAP_SIZE_16M"
  have le: "?v \<le> 64" by simp
  have cast: "ucast (of_nat ?v :: byte) = (of_nat ?v :: u32)"
    using le by (simp add: word_unat_eq_iff unat_ucast_8_32 unat_of_nat)
  have full: "max (bbMapCmp (covG s) ?i) (of_nat ?v) = 64 \<longleftrightarrow> ?v = 64"
  proof -
    have "(of_nat ?v :: u32) = 64 \<longleftrightarrow> ?v = 64" using le by (simp add: word_unat_eq_iff unat_of_nat)
    then show ?thesis using assms(2) by (auto simp: max_def)
  qed
  have "?v = 64 \<longleftrightarrow> a = b" using popcount_zero [of a b] popcount_le [of "a XOR b"] by auto
  moreover have "bbMapCmp (covG s) ?i < 256" using assms(2) by (simp add: word_less_nat_alt)
  then obtain t where "note_cmp pc (of_nat ?v) s = Inr ((), t)"
      "bbMapCmp (covG t) ?i = max (bbMapCmp (covG s) ?i) (ucast (of_nat ?v :: byte))"
    using note_cmp_run [OF assms(1) refl, of pc "of_nat ?v"] by blast
  ultimately show ?thesis using full unfolding cast by (simp add: hfuzz_trace_cmp8_def hfuzz_trace_cmp8_internal_def)
qed

theorem hfuzz_trace_cmp8_slot_witness:
  "\<exists>t. hfuzz_trace_cmp8 9 5 5 demo_ins = Inr ((), t) \<and> bbMapCmp (covG t) 9 = 64"
proof -
  have "unat (my_thread_no demo_ins) < HF_THREAD_MAX" using demo_ins_ok by (simp add: ins_ok_def)
  moreover have "bbMapCmp (covG demo_ins) (unat (9 :: u64) mod HF_PERF_BITMAP_SIZE_16M) < 64"
    by (simp add: demo_ins_def demo_boot_def covG_def zero_feedback_def)
  ultimately show ?thesis using hfuzz_trace_cmp8_slot [of demo_ins 9 5 5]
    by (auto simp: HF_PERF_BITMAP_SIZE_16M_def)
qed

text \<open>A larger slot is cut to 8 bits by the hooks: after \<open>instrumentUpdateCmpMap\<close> has noted 300
  there is a comparison that sets the slot back to 48.\<close>

theorem hfuzz_trace_cmp8_loses_progress:
  "\<exists>s t u. ins_ok s \<and> instrumentUpdateCmpMap 9 300 s = Inr (True, t) \<and> bbMapCmp (covG t) 9 = 300 \<and>
    hfuzz_trace_cmp8 9 0 0xFFFF t = Inr ((), u) \<and> bbMapCmp (covG u) 9 = 48"
proof -
  let ?t = "demo_ins\<lparr>fb_store := (fb_store demo_ins)(CovBitmap := zero_feedback
    \<lparr>bbMapCmp := (\<lambda>_. 0)(9 := 300), pidNewCmp := (\<lambda>_. 0)(0 := 300)\<rparr>)\<rparr>"
  note run = bnd_def gets_def check_def ret_def modG_def modify_def Let_def add_pid_run covG_def
    demo_ins_def demo_boot_def zero_feedback_def HF_PERF_BITMAP_SIZE_16M_def HF_THREAD_MAX_def
  have "popcount (0xFFFF :: u64) = 16" by code_simp
  then have "\<exists>u. hfuzz_trace_cmp8 9 0 0xFFFF ?t = Inr ((), u) \<and> bbMapCmp (covG u) 9 = 48"
    by (simp add: hfuzz_trace_cmp8_def hfuzz_trace_cmp8_internal_def note_cmp_def run)
  moreover have "instrumentUpdateCmpMap 9 300 demo_ins = Inr (True, ?t)"
    by (simp add: instrumentUpdateCmpMap_def run)
  moreover have "bbMapCmp (covG ?t) 9 = 300" by (simp add: run)
  ultimately show ?thesis using demo_ins_ok by blast
qed



text \<open>A failed mapping of the function coverage is not reset: there is a start of the process
  that succeeds and after which the first function entry accesses memory at \<open>MAP_FAILED\<close>.\<close>

theorem cyg_profile_func_enter_bad_map:
  "\<exists>s t. globalCov s = BBMapFb \<and> hfuzzInstrumentInit s = Inr ((), t) \<and>
    cyg_profile_func_enter (\<lambda>_. None) 16 32 t = Inl OutOfBounds"
proof -
  let ?s = "demo_boot\<lparr>ins_env := (ins_env demo_boot)\<lparr>env_fcov := (Some sizeof_func_coverage_t, None)\<rparr>\<rparr>"
  note run = bnd_def gets_def check_def ret_def modify_def
  have "\<exists>t. hfuzzInstrumentInit ?s = Inr ((), t) \<and> g_fcov t = FcovFailed"
    by (simp add: hfuzzInstrumentInit_def initializeInstrument_def initializeGlobalCovFeedback_def
        initializeLocalCovFeedback_def initializeCmpFeedback_def instrumentClearNewCov_def clear_pid_def modG_def
        fcov_initFCovFeedback_def demo_boot_def run HF_THREAD_MAX_def)
  then obtain t where "hfuzzInstrumentInit ?s = Inr ((), t)" "g_fcov t = FcovFailed" by blast
  then show ?thesis
    by (intro exI [of _ ?s] exI [of _ t]) (simp add: cyg_profile_func_enter_def raise_def bnd_def gets_def demo_boot_def)
qed

end
