(* ===== verification/HF_Driver.thy ===== *)
theory HF_Driver
  imports HF_Select
begin

text \<open>
  \<open>honggfuzz/driver_loader.c\<close>: the drivers of a session. A scheduler writes the profile of the
  driver to run into a file; \<open>drive_loadDriver\<close> reads it and moves the driver to the head of the
  list of drivers (a doubly linked list with a table by number), and \<open>driver_switchDriver\<close> makes
  the head the active driver: it accounts the statistics of the old one, builds the command line
  and puts the seeds of the new driver at the head of the queue of inputs.

  The drivers live in a store by address. The JSON library is a parameter: \<open>json_parse\<close> gives
  the fields of a text as the accessors of the library return them. A \<open>float\<close> is kept as its bits.
\<close>

section \<open>Structures\<close>

definition MAX_ARGC :: nat where "MAX_ARGC = 32"
definition MAX_PATH :: nat where "MAX_PATH = 256"
definition MAX_DRIVER :: nat where "MAX_DRIVER = 8192"
definition MAX_SEED_HASHES :: nat where "MAX_SEED_HASHES = 4096"
definition HF_ARGS_MAX :: nat where "HF_ARGS_MAX = 2048"

record driver_prof_t =
  prof_id :: int
  prof_name :: "byte list"
  prof_driver :: "byte list"
  prof_seed_dir :: "byte list"
  prof_priority :: u32
  prof_argv :: "byte list list"     \<comment> \<open>\<open>argc\<close> strings\<close>
  prof_output :: "byte list"
  prof_phase :: int
  prof_in_place_edit :: int

record fuzz_driver_t =
  drv_prof :: driver_prof_t
  start_time :: u32
  total_time :: u32
  start_crashes :: u32
  total_crashes :: u32
  delta_crashes :: u32
  start_edges :: u32
  delta_edges :: u32
  total_edges :: u32
  total_exes :: u32
  fd_initialized :: bool
  fd_next :: "addr option"
  fd_pre :: "addr option"

record fuzz_driver_table_t =
  t_store :: "addr \<rightharpoonup> fuzz_driver_t"
  t_brk :: addr
  active_drv_path :: path
  driver_runtime_path :: path
  active_driver :: "addr option"
  driver_list_head :: "addr option"
  driver_count :: u32
  driver_map :: "nat \<Rightarrow> addr option"
  seed_hashes :: "u64 list"         \<comment> \<open>\<open>seed_hash_count\<close> entries\<close>
  t_current_phase :: int
  t_inPlaceEdit :: int

section \<open>Profiles\<close>

datatype json_args = JNotArray | JArray "byte list option list"

text \<open>
  What the JSON library finds in the text. A field of type \<open>option\<close> may be missing; a text that is there may be \<open>null\<close>,
  for which \<open>json_object_get_string\<close> returns a null pointer (a number that is \<open>null\<close> reads as 0).
\<close>

record drv_json =
  j_id :: "int option"
  j_name :: "byte list option option"
  j_driver :: "byte list option option"
  j_args :: "json_args option"
  j_seed_dir :: "byte list option option"
  j_priority :: "u32 option"
  j_output :: "byte list option option"
  j_phase :: "int option"
  j_in_place :: "int option"

definition zero_prof :: driver_prof_t where
  "zero_prof = \<lparr>prof_id = 0, prof_name = [], prof_driver = [], prof_seed_dir = [], prof_priority = 0,
     prof_argv = [], prof_output = [], prof_phase = 0, prof_in_place_edit = 0\<rparr>"

definition zero_driver :: "driver_prof_t \<Rightarrow> fuzz_driver_t" where
  "zero_driver p = \<lparr>drv_prof = p, start_time = 0, total_time = 0, start_crashes = 0, total_crashes = 0,
     delta_crashes = 0, start_edges = 0, delta_edges = 0, total_edges = 0, total_exes = 0,
     fd_initialized = False, fd_next = None, fd_pre = None\<rparr>"

text \<open>An argument that is not a string ends the process.\<close>

fun parse_strings :: "byte list option list \<Rightarrow> fault + byte list list" where
  "parse_strings [] = Inr []"
| "parse_strings (None # as) = Inl LogFatal"
| "parse_strings (Some a # as) = (case parse_strings as of Inl e \<Rightarrow> Inl e | Inr bs \<Rightarrow> Inr (a # bs))"

definition drive_parseArgs :: "json_args \<Rightarrow> fault + byte list list" where
  "drive_parseArgs args =
     (case args of JNotArray \<Rightarrow> Inl LogFatal | JArray as \<Rightarrow> parse_strings (take (MAX_ARGC - 1) as))"

text \<open>\<open>strncpy (dst, s, n)\<close> into a zeroed array with more than \<open>n\<close> bytes.\<close>

definition strncpy_cut :: "nat \<Rightarrow> byte list \<Rightarrow> byte list" where
  "strncpy_cut n s = take n (cstr s)"

text \<open>\<open>%s\<close>, for which a null pointer is printed by the C library as \<open>(null)\<close>; copying from one is a fault.\<close>

definition fmt_s :: "byte list option \<Rightarrow> byte list" where
  "fmt_s s = (case s of None \<Rightarrow> str ''(null)'' | Some t \<Rightarrow> cstr t)"

definition drive_parseDriverProfile ::
  "(byte list \<Rightarrow> drv_json option) \<Rightarrow> byte list \<Rightarrow> fault + driver_prof_t option" where
  "drive_parseDriverProfile json_parse json_str =
     (case json_parse json_str of
        None \<Rightarrow> Inr None
      | Some j \<Rightarrow>
          (case (j_id j, j_name j, j_driver j, j_args j, j_seed_dir j, j_priority j, j_output j, j_phase j) of
             (Some no, Some name, Some driver, Some args, Some seed_dir, Some priority, Some out, Some phase) \<Rightarrow>
               if name = None \<or> out = None then Inl NullDeref
               else
               (let nm = strncpy_cut (MAX_PATH - 1) (the name)
                in case drive_parseArgs args of
                     Inl e \<Rightarrow> Inl e
                   | Inr argv \<Rightarrow> Inr (Some
                       \<lparr>prof_id = no, prof_name = nm,
                        prof_driver = snprintf_cut MAX_PATH (str ''drivers/'' @ nm @ [47] @ fmt_s driver),
                        prof_seed_dir = snprintf_cut MAX_PATH (str ''drivers/'' @ nm @ [47] @ fmt_s seed_dir),
                        prof_priority = priority, prof_argv = argv,
                        prof_output = strncpy_cut (MAX_ARGC - 1) (the out),
                        prof_phase = phase,
                        prof_in_place_edit = (case j_in_place j of None \<Rightarrow> 0 | Some v \<Rightarrow> if v = 0 then 0 else 1)\<rparr>))
           | _ \<Rightarrow> Inr None))"

section \<open>The table of drivers\<close>

definition drv_rd :: "addr option \<Rightarrow> (fuzz_driver_table_t, fuzz_driver_t) hm" where
  "drv_rd p = bnd (or_fault NullDeref p) (\<lambda>a. bnd (gets (\<lambda>t. t_store t a)) (or_fault NullDeref))"

definition drv_wr :: "addr option \<Rightarrow> (fuzz_driver_t \<Rightarrow> fuzz_driver_t) \<Rightarrow> (fuzz_driver_table_t, unit) hm" where
  "drv_wr p f = bnd (or_fault NullDeref p) (\<lambda>a.
     bnd (drv_rd (Some a)) (\<lambda>d. modify (\<lambda>t. t\<lparr>t_store := (t_store t)(a \<mapsto> f d)\<rparr>)))"

text \<open>The links of a known driver that is not the head: it is taken out and put in front.\<close>

definition drv_moveToHead :: "addr option \<Rightarrow> addr option \<Rightarrow> (fuzz_driver_table_t, unit) hm" where
  "drv_moveToHead exist_drv head =
     bnd (drv_rd exist_drv) (\<lambda>d.
     bnd (drv_wr (fd_pre d) (\<lambda>p. p\<lparr>fd_next := fd_next d\<rparr>)) (\<lambda>_.
     bnd (if fd_next d \<noteq> None then drv_wr (fd_next d) (\<lambda>n. n\<lparr>fd_pre := fd_pre d\<rparr>) else ret ()) (\<lambda>_.
     bnd (drv_wr exist_drv (\<lambda>d. d\<lparr>fd_next := head, fd_pre := None\<rparr>)) (\<lambda>_.
     bnd (drv_wr head (\<lambda>h. h\<lparr>fd_pre := exist_drv\<rparr>)) (\<lambda>_.
     modify (\<lambda>t. t\<lparr>driver_list_head := exist_drv\<rparr>))))))"

definition drive_addDriver :: "fuzz_driver_t \<Rightarrow> (fuzz_driver_table_t, bool) hm" where
  "drive_addDriver fdrv =
     (let no = prof_id (drv_prof fdrv)
      in bnd (check OutOfBounds (0 \<le> no \<and> no < int MAX_DRIVER)) (\<lambda>_.
         bnd (gets (\<lambda>t. driver_map t (nat no))) (\<lambda>exist_drv.
         case exist_drv of
           None \<Rightarrow>
             bnd (gets (\<lambda>t. (t_brk t, driver_list_head t))) (\<lambda>(new_drv, head).
             bnd (modify (\<lambda>t. t\<lparr>t_store := (t_store t)(new_drv \<mapsto> fdrv), t_brk := new_drv + 1,
                    driver_map := (driver_map t)(nat no := Some new_drv)\<rparr>)) (\<lambda>_.
             bnd (if head = None
                  then bnd (modify (\<lambda>t. t\<lparr>driver_list_head := Some new_drv\<rparr>)) (\<lambda>_.
                       drv_wr (Some new_drv) (\<lambda>d. d\<lparr>fd_next := None, fd_pre := None\<rparr>))
                  else bnd (drv_wr (Some new_drv) (\<lambda>d. d\<lparr>fd_next := head, fd_pre := None\<rparr>)) (\<lambda>_.
                       bnd (drv_wr head (\<lambda>d. d\<lparr>fd_pre := Some new_drv\<rparr>)) (\<lambda>_.
                       modify (\<lambda>t. t\<lparr>driver_list_head := Some new_drv\<rparr>)))) (\<lambda>_.
             bnd (modify (\<lambda>t. t\<lparr>driver_count := driver_count t + 1\<rparr>)) (\<lambda>_. ret True))))
         | Some e \<Rightarrow>
             bnd (drv_wr exist_drv (\<lambda>d. d\<lparr>drv_prof := (drv_prof d)\<lparr>prof_priority := prof_priority (drv_prof fdrv)\<rparr>\<rparr>)) (\<lambda>_.
             bnd (gets driver_list_head) (\<lambda>head.
             bnd (if exist_drv = head then ret ()
                  else drv_moveToHead exist_drv head) (\<lambda>_.
             ret True))))))"

text \<open>
  Reading the file of the active driver: what the successive calls of \<open>read\<close> return; no bytes
  at the third call or an error end the process.
\<close>

fun read_profile :: "nat \<Rightarrow> (nat \<Rightarrow> byte list option) \<Rightarrow> nat \<Rightarrow> fault + byte list" where
  "read_profile try_no reads i =
     (case reads i of
        None \<Rightarrow> Inl LogFatal
      | Some [] \<Rightarrow> if try_no - 1 = 0 then Inl LogFatal else read_profile (try_no - 1) reads (i + 1)
      | Some bs \<Rightarrow> Inr (take 1023 bs))"

declare read_profile.simps [simp del]

text \<open>\<open>opened\<close> says whether the file of the active driver can be opened.\<close>

definition drive_loadDriver ::
  "(byte list \<Rightarrow> drv_json option) \<Rightarrow> bool \<Rightarrow> (nat \<Rightarrow> byte list option) \<Rightarrow> (fuzz_driver_table_t, bool) hm" where
  "drive_loadDriver json_parse opened reads =
     (if \<not> opened then ret False
      else case read_profile 3 reads 0 of
             Inl e \<Rightarrow> raise e
           | Inr dv_buffer \<Rightarrow>
               (case drive_parseDriverProfile json_parse (cstr dv_buffer) of
                  Inl e \<Rightarrow> raise e
                | Inr None \<Rightarrow> raise LogFatal
                | Inr (Some prof) \<Rightarrow>
                    if prof_id prof = 0 \<or> prof_id prof > int MAX_DRIVER then raise LogFatal
                    else bnd (drive_addDriver (zero_driver prof)) (\<lambda>ok.
                         if \<not> ok then raise LogFatal
                         else bnd (modify (\<lambda>t. t\<lparr>t_current_phase := prof_phase prof,
                                t_inPlaceEdit := prof_in_place_edit prof\<rparr>)) (\<lambda>_. ret True))))"

definition drive_getInitDriver :: "(fuzz_driver_table_t, addr option) hm" where
  "drive_getInitDriver = gets driver_list_head"


section \<open>Sessions\<close>

text \<open>
  What the driver code uses of the process beside the table: the run, the command line, the
  coverage and crash counters, the time, and the directories and files it reads and writes
  (\<open>ses_dirs\<close>: the names in a directory, if it can be opened; \<open>ses_exists\<close>: whether \<open>stat\<close>
  finds a path; \<open>ses_mkdir\<close>, \<open>ses_writable\<close>:
  whether a directory or file can be created).
\<close>

record session_t =
  ses_run :: run_t
  ses_tab :: fuzz_driver_table_t
  exe_cmdline :: "byte list list"
  exe_argc :: nat
  exe_heap :: bool                   \<comment> \<open>the command line is a block of the heap, not a part of \<open>argv\<close>\<close>
  softCntEdge :: u64
  softCntPc :: u64
  softCntCmp :: u64
  uniqueCrashesCnt :: u64
  covGuardNb :: u64
  ses_time :: u64
  ses_dirs :: "path \<Rightarrow> path list option"
  ses_exists :: "path \<Rightarrow> bool"
  ses_mkdir :: "path \<Rightarrow> bool"
  ses_writable :: "path \<Rightarrow> bool"
  ses_stats :: "path \<rightharpoonup> byte list"
  ses_drv_file :: bool               \<comment> \<open>the file of the active driver exists\<close>

definition tabM :: "(fuzz_driver_table_t, 'a) hm \<Rightarrow> (session_t, 'a) hm" where
  "tabM m = zoom ses_tab (\<lambda>t s. s\<lparr>ses_tab := t\<rparr>) m"

definition modH :: "(hfuzz_t \<Rightarrow> hfuzz_t) \<Rightarrow> (session_t, unit) hm" where
  "modH f = modify (\<lambda>s. s\<lparr>ses_run := (ses_run s)\<lparr>global := f (global (ses_run s))\<rparr>\<rparr>)"

definition drive_initOutput :: "fuzz_driver_t \<Rightarrow> (session_t, bool) hm" where
  "drive_initOutput driver =
     (let out_path = snprintf_cut MAX_PATH (str ''fuzz/out/'' @ prof_name (drv_prof driver))
      in bnd (gets (\<lambda>s. ses_exists s out_path \<or> ses_mkdir s out_path)) (\<lambda>ok.
         bnd (check LogFatal ok) (\<lambda>_.
         bnd (modH (\<lambda>h. h\<lparr>io_outputDir := Some out_path\<rparr>)) (\<lambda>_. ret True))))"

text \<open>The argument vector, without the final null pointer, and its length.\<close>

definition drive_getArgv :: "fuzz_driver_t \<Rightarrow> fault + byte list list \<times> nat" where
  "drive_getArgv driver =
     (let p = drv_prof driver;
          args = take (HF_ARGS_MAX - 4) (prof_argv p);
          argv = prof_driver p # args @ [str ''___FILE___''] @ (if prof_output p \<noteq> [] then [prof_output p] else []);
          argc = length argv
      in if argc < HF_ARGS_MAX then Inr (argv, argc) else Inl OutOfBounds)"

section \<open>Seeds\<close>

definition driver_readData :: "fs_t \<Rightarrow> path \<Rightarrow> byte list option" where
  "driver_readData fs seedPath =
     (case fs_open fs seedPath of
        None \<Rightarrow> None
      | Some bs \<Rightarrow> if bs = [] \<or> length bs > HF_INPUT_MAX_SIZE then None else Some bs)"

definition fnv1a_hash :: "byte list \<Rightarrow> u64" where
  "fnv1a_hash data = foldl (\<lambda>hash b. (hash XOR ucast b) * 1099511628211) 14695981039346656037 data"

text \<open>The result is false for a known seed; a full table accepts every seed.\<close>

definition driver_isSeedExist :: "byte list \<Rightarrow> (fuzz_driver_table_t, bool) hm" where
  "driver_isSeedExist data =
     (let hash = fnv1a_hash data
      in bnd (gets seed_hashes) (\<lambda>hs.
         if hash \<in> set hs then ret False
         else bnd (if length hs < MAX_SEED_HASHES then modify (\<lambda>t. t\<lparr>seed_hashes := hs @ [hash]\<rparr>) else ret ()) (\<lambda>_.
              ret True)))"

definition seed_file :: "driver_prof_t \<Rightarrow> byte list \<Rightarrow> path \<Rightarrow> nat \<Rightarrow> dynfile_t" where
  "seed_file prof buf seedName idx = \<lparr>d_size = length buf, d_cov = replicate 4 0, d_idx = idx,
     d_driver_id = of_int (prof_id prof), d_timeExecUSecs = 0, d_path = snprintf_cut PATH_MAX seedName,
     d_src = None, d_refs = 0, d_phase = STATE_DYNAMIC_MAIN, d_timedout = False, d_data = buf, d_imported = True\<rparr>"

definition inject_seed :: "driver_prof_t \<Rightarrow> byte list \<Rightarrow> path \<Rightarrow> hfuzz_t \<Rightarrow> hfuzz_t" where
  "inject_seed prof buf seedName h =
     (let a = io_brk h; idx = sz_add (io_dynfileqCnt h) 1
      in h\<lparr>io_dynfileqCnt := idx, io_store := (io_store h)(a \<mapsto> seed_file prof buf seedName idx), io_brk := a + 1,
           io_dynfileq := a # io_dynfileq h, io_dynfileqCurrent := Some a\<rparr>)"

definition driver_addDriverSeed :: "driver_prof_t \<Rightarrow> path \<Rightarrow> path \<Rightarrow> (session_t, unit) hm" where
  "driver_addDriverSeed prof seedPath seedName =
     bnd (gets (\<lambda>s. driver_readData (io_fs (global (ses_run s))) seedPath)) (\<lambda>d. case d of
       None \<Rightarrow> ret ()
     | Some buf \<Rightarrow>
         bnd (tabM (driver_isSeedExist buf)) (\<lambda>isnew.
         if \<not> isnew then ret () else modH (inject_seed prof buf seedName)))"

definition driver_addDriverSeedDir :: "driver_prof_t \<Rightarrow> (session_t, unit) hm" where
  "driver_addDriverSeedDir prof =
     bnd (gets (\<lambda>s. ses_dirs s (prof_seed_dir prof))) (\<lambda>d. case d of
       None \<Rightarrow> ret ()
     | Some names \<Rightarrow>
         forM names (\<lambda>name.
           let fullPath = join_path (prof_seed_dir prof) name
           in bnd (gets (\<lambda>s. fs_stat (io_fs (global (ses_run s))) fullPath)) (\<lambda>st. case st of
                Some (True, _) \<Rightarrow> driver_addDriverSeed prof fullPath name
              | _ \<Rightarrow> ret ())))"

text \<open>
  The loop visits the elements in the order they had at its start: the successor is read before
  an element is moved to the head.
\<close>

fun prioritize_loop :: "(addr \<rightharpoonup> dynfile_t) \<Rightarrow> u32 \<Rightarrow> addr list \<Rightarrow> addr list \<Rightarrow> fault + addr list" where
  "prioritize_loop st driver_id [] q = Inr q"
| "prioritize_loop st driver_id (cur # rest) q =
     (case st cur of
        None \<Rightarrow> Inl NullDeref
      | Some df \<Rightarrow> prioritize_loop st driver_id rest
          (if d_driver_id df = driver_id then cur # remove1 cur q else q))"

definition driver_prioritizeSeeds :: "u32 \<Rightarrow> (session_t, unit) hm" where
  "driver_prioritizeSeeds driver_id =
     bnd (gets (\<lambda>s. global (ses_run s))) (\<lambda>h.
     case prioritize_loop (io_store h) driver_id (io_dynfileq h) (io_dynfileq h) of
       Inl e \<Rightarrow> raise e
     | Inr q \<Rightarrow> modH (\<lambda>h. h\<lparr>io_dynfileq := q, io_dynfileqCurrent := (case q of [] \<Rightarrow> None | a # _ \<Rightarrow> Some a)\<rparr>))"

section \<open>Statistics\<close>

definition driver_initStat :: "addr option \<Rightarrow> (session_t, unit) hm" where
  "driver_initStat driver =
     bnd (gets (\<lambda>s. (softCntEdge s, uniqueCrashesCnt s, ses_time s))) (\<lambda>(edges, crashes, tm).
     tabM (drv_wr driver (\<lambda>d. d\<lparr>start_edges := ucast edges, start_crashes := ucast crashes, start_time := ucast tm\<rparr>)))"

definition u_dec :: "'a::len word \<Rightarrow> byte list" where
  "u_dec w = dec_nat (unat w)"

definition write_stat :: "path \<Rightarrow> byte list \<Rightarrow> (session_t, unit) hm" where
  "write_stat p txt =
     bnd (gets (\<lambda>s. ses_writable s p)) (\<lambda>ok.
     if ok then modify (\<lambda>s. s\<lparr>ses_stats := (ses_stats s)(p \<mapsto> txt)\<rparr>) else ret ())"

definition driver_updateDrvStat :: "(session_t, unit) hm" where
  "driver_updateDrvStat =
     bnd (gets (\<lambda>s. active_driver (ses_tab s))) (\<lambda>driver.
     if driver = None then ret ()
     else
       bnd (gets (\<lambda>s. (softCntEdge s, uniqueCrashesCnt s, ses_time s))) (\<lambda>(edges, crashes, tm).
       bnd (tabM (drv_wr driver (\<lambda>d.
              let de = ucast (edges - ucast (start_edges d)); dc = ucast (crashes - ucast (start_crashes d))
              in d\<lparr>delta_edges := de, total_edges := total_edges d + de,
                   delta_crashes := dc, total_crashes := total_crashes d + dc,
                   total_time := ucast (ucast (total_time d) + (tm - ucast (start_time d))),
                   total_exes := total_exes d + 1\<rparr>))) (\<lambda>_.
       bnd (tabM (drv_rd driver)) (\<lambda>d.
       bnd (gets (\<lambda>s. driver_runtime_path (ses_tab s))) (\<lambda>dir.
       write_stat (snprintf_cut MAX_PATH (dir @ [47] @ u_dec (of_int (prof_id (drv_prof d)) :: u32)))
         (str ''edges:'' @ u_dec (total_edges d) @ str ''(+'' @ u_dec (delta_edges d) @
          str ''), crashes:'' @ u_dec (total_crashes d) @ str ''(+'' @ u_dec (delta_crashes d) @
          str ''), time:'' @ u_dec (total_time d) @ str '', exes:'' @ u_dec (total_exes d) @ [10]))))))"

definition driver_saveGlobalStats :: "(session_t, unit) hm" where
  "driver_saveGlobalStats =
     bnd (gets (\<lambda>s. driver_runtime_path (ses_tab s))) (\<lambda>dir.
     bnd (gets (\<lambda>s.
       str ''edges:'' @ u_dec (softCntEdge s) @ str '', crashes:'' @ u_dec (uniqueCrashesCnt s) @
       str '', pc:'' @ u_dec (softCntPc s) @ str '', cmp:'' @ u_dec (softCntCmp s) @
       str '', time:'' @ u_dec (ses_time s - of_int (timing_timeStart (global (ses_run s)))) @
       str '', total_edges:'' @ u_dec (covGuardNb s) @ [10])) (\<lambda>txt.
     write_stat (snprintf_cut MAX_PATH (dir @ str ''/overview.stat'')) txt))"

section \<open>Switching\<close>

text \<open>The command line of before is freed, which is an error while it still is the one of the process (\<open>&argv[optind]\<close>).\<close>

definition driver_switchDriver :: "(session_t, unit) hm" where
  "driver_switchDriver =
     bnd driver_updateDrvStat (\<lambda>_.
     bnd (gets (\<lambda>s. (active_driver (ses_tab s), driver_list_head (ses_tab s)))) (\<lambda>(act, head).
     bnd (if act = head then bnd (tabM (drv_rd act)) (\<lambda>_. ret ())
          else
            bnd (tabM (drv_rd head)) (\<lambda>driver.
            bnd (drive_initOutput driver) (\<lambda>ok.
            bnd (check LogFatal ok) (\<lambda>_.
            bnd (bnd (gets exe_heap) (check BadFree)) (\<lambda>_.
            bnd (case drive_getArgv driver of Inl e \<Rightarrow> raise e
                 | Inr (argv, argc) \<Rightarrow> modify (\<lambda>s. s\<lparr>exe_cmdline := argv, exe_argc := argc, exe_heap := True\<rparr>)) (\<lambda>_.
            bnd (if \<not> fd_initialized driver
                 then bnd (driver_addDriverSeedDir (drv_prof driver)) (\<lambda>_.
                      tabM (drv_wr head (\<lambda>d. d\<lparr>fd_initialized := True\<rparr>)))
                 else driver_prioritizeSeeds (of_int (prof_id (drv_prof driver)))) (\<lambda>_.
            bnd (modify (\<lambda>s. s\<lparr>ses_tab := (ses_tab s)\<lparr>active_driver := head\<rparr>\<rparr>)) (\<lambda>_.
            modH (\<lambda>h. h\<lparr>drv_active_driver_id := Some (of_int (prof_id (drv_prof driver)))\<rparr>))))))))) (\<lambda>_.
     bnd (gets (\<lambda>s. active_driver (ses_tab s))) (\<lambda>act.
     bnd (driver_initStat act) (\<lambda>_.
     modify (\<lambda>s. s\<lparr>ses_drv_file := False\<rparr>))))))"

end
