(* ===== verification/HF_Driver_Props.thy ===== *)
theory HF_Driver_Props
  imports HF_Driver
begin

text \<open>
  Correctness of the driver table: the linked list and the table by number implement a list of
  profiles in which a loaded driver moves to the front. Seeds of a driver and its inputs go to
  the front of the queue of inputs, which stays well formed.
\<close>

section \<open>Doubly linked lists\<close>

text \<open>The drivers \<open>xs\<close> are linked from \<open>h\<close> on: \<open>p\<close> precedes the first, \<open>l\<close> is the last
  (or \<open>p\<close>), and \<open>q\<close> follows the last.\<close>

fun dseg :: "(addr \<rightharpoonup> fuzz_driver_t) \<Rightarrow> addr option \<Rightarrow> addr option \<Rightarrow> addr list \<Rightarrow> addr option \<Rightarrow> addr option \<Rightarrow> bool"
where
  "dseg st p h [] l q \<longleftrightarrow> l = p \<and> h = q"
| "dseg st p h (a # as) l q \<longleftrightarrow> h = Some a \<and>
     (\<exists>d. st a = Some d \<and> fd_pre d = p \<and> dseg st (Some a) (fd_next d) as l q)"

lemma dseg_append: "dseg st p h (xs @ ys) l q \<longleftrightarrow> (\<exists>m k. dseg st p h xs m k \<and> dseg st m k ys l q)"
  by (induction xs arbitrary: p h) auto

lemma dseg_dom: "dseg st p h xs l q \<Longrightarrow> set xs \<subseteq> dom st"
  by (induction xs arbitrary: p h) auto

lemma dseg_cong:
  "\<forall>a\<in>set xs. \<exists>d d'. st a = Some d \<and> st' a = Some d' \<and> fd_pre d = fd_pre d' \<and> fd_next d = fd_next d' \<Longrightarrow>
    dseg st p h xs l q \<longleftrightarrow> dseg st' p h xs l q"
  by (induction xs arbitrary: p h) fastforce+

lemma dseg_other: "b \<notin> set xs \<Longrightarrow> dseg (st(b \<mapsto> d)) p h xs l q \<longleftrightarrow> dseg st p h xs l q"
  by (induction xs arbitrary: p h) auto

lemma dseg_set_pre:
  assumes "dseg st p h (a # as) l q" and "a \<notin> set as" and "st a = Some d"
  shows "dseg (st(a \<mapsto> d\<lparr>fd_pre := p'\<rparr>)) p' h (a # as) l q"
  using assms by (simp add: dseg_other)

lemma dseg_set_next:
  assumes "dseg st p h (ys @ [b]) l k" and "b \<notin> set ys" and "st b = Some d"
  shows "dseg (st(b \<mapsto> d\<lparr>fd_next := k'\<rparr>)) p h (ys @ [b]) (Some b) k'"
  using assms by (auto simp: dseg_append dseg_other)

lemma dseg_last: "dseg st p h (ys @ [b]) l k \<Longrightarrow> l = Some b"
  by (auto simp: dseg_append)

section \<open>The table\<close>

definition tab_links :: "fuzz_driver_table_t \<Rightarrow> addr list \<Rightarrow> bool" where
  "tab_links t xs \<longleftrightarrow> (\<exists>l. dseg (t_store t) None (driver_list_head t) xs l None)"

definition tab_wf :: "fuzz_driver_table_t \<Rightarrow> addr list \<Rightarrow> bool" where
  "tab_wf t xs \<longleftrightarrow> distinct xs \<and> tab_links t xs \<and> (\<forall>a\<in>dom (t_store t). a < t_brk t) \<and>
     (\<forall>no a. driver_map t no = Some a \<longleftrightarrow> a \<in> set xs \<and> no < MAX_DRIVER \<and>
        (\<exists>d. t_store t a = Some d \<and> prof_id (drv_prof d) = int no)) \<and>
     (\<forall>a\<in>set xs. \<forall>d. t_store t a = Some d \<longrightarrow> 0 \<le> prof_id (drv_prof d) \<and> prof_id (drv_prof d) < int MAX_DRIVER) \<and>
     driver_count t = of_nat (length xs)"

definition profs :: "fuzz_driver_table_t \<Rightarrow> addr list \<Rightarrow> driver_prof_t list" where
  "profs t xs = map (\<lambda>a. drv_prof (the (t_store t a))) xs"

text \<open>The table holds the drivers with the profiles \<open>ps\<close>, in this order.\<close>

definition drivers :: "fuzz_driver_table_t \<Rightarrow> driver_prof_t list \<Rightarrow> bool" where
  "drivers t ps \<longleftrightarrow> (\<exists>xs. tab_wf t xs \<and> ps = profs t xs)"

text \<open>What loading a profile means for the list: a known driver gets the new priority, and the
  driver goes to the front.\<close>

definition to_front :: "driver_prof_t \<Rightarrow> driver_prof_t list \<Rightarrow> driver_prof_t list" where
  "to_front p ps =
     (case find (\<lambda>q. prof_id q = prof_id p) ps of
        None \<Rightarrow> p # ps
      | Some q \<Rightarrow> q\<lparr>prof_priority := prof_priority p\<rparr> # filter (\<lambda>r. prof_id r \<noteq> prof_id p) ps)"

lemma drv_rd_run: "t_store t a = Some d \<Longrightarrow> drv_rd (Some a) t = Inr (d, t)"
  by (simp add: drv_rd_def bnd_def or_fault_def ret_def gets_def)

lemma drv_wr_run:
  "t_store t a = Some d \<Longrightarrow> drv_wr (Some a) f t = Inr ((), t\<lparr>t_store := (t_store t)(a \<mapsto> f d)\<rparr>)"
  by (simp add: drv_wr_def bnd_def or_fault_def ret_def drv_rd_run modify_def)

lemma wp_drv_wr [hf_wp]:
  "wp (drv_wr p f) Q t \<longleftrightarrow> (\<exists>a d. p = Some a \<and> t_store t a = Some d \<and> Q () (t\<lparr>t_store := (t_store t)(a \<mapsto> f d)\<rparr>))"
  by (cases p) (auto simp: drv_wr_def drv_rd_def hf_wp)

lemma wp_drv_rd [hf_wp]:
  "wp (drv_rd p) Q t \<longleftrightarrow> (\<exists>a d. p = Some a \<and> t_store t a = Some d \<and> Q d t)"
  by (cases p) (auto simp: drv_rd_def hf_wp)

text \<open>Adding a new driver in front.\<close>

definition added :: "fuzz_driver_t \<Rightarrow> nat \<Rightarrow> fuzz_driver_table_t \<Rightarrow> fuzz_driver_table_t" where
  "added d no t =
     (let a = t_brk t; h = driver_list_head t;
          st = (t_store t)(a \<mapsto> d\<lparr>fd_next := h, fd_pre := None\<rparr>)
      in t\<lparr>t_store := (case h of None \<Rightarrow> st | Some b \<Rightarrow> st(b \<mapsto> (the (st b))\<lparr>fd_pre := Some a\<rparr>)),
           t_brk := a + 1, driver_list_head := Some a, driver_count := driver_count t + 1,
           driver_map := (driver_map t)(no := Some a)\<rparr>)"

lemma add_new_run:
  assumes wf: "tab_wf t xs" and no: "prof_id (drv_prof d) = int no" "no < MAX_DRIVER" and new: "driver_map t no = None"
  shows "drive_addDriver d t = Inr (True, added d no t)"
proof (cases "driver_list_head t")
  case None
  with no new show ?thesis
    by (simp add: drive_addDriver_def bnd_def check_def ret_def gets_def modify_def added_def drv_wr_run Let_def)
next
  case (Some b)
  then obtain as where "xs = b # as" using wf by (cases xs) (auto simp: tab_wf_def tab_links_def)
  then obtain db where "t_store t b = Some db" "b < t_brk t" using wf Some by (auto simp: tab_wf_def tab_links_def)
  with no new Some show ?thesis
    by (simp add: drive_addDriver_def bnd_def check_def ret_def gets_def modify_def added_def drv_wr_run Let_def)
qed


text \<open>Two stores with the same profiles.\<close>

definition same_profs :: "(addr \<rightharpoonup> fuzz_driver_t) \<Rightarrow> (addr \<rightharpoonup> fuzz_driver_t) \<Rightarrow> addr set \<Rightarrow> bool" where
  "same_profs st st' A \<longleftrightarrow> (\<forall>x\<in>A. map_option drv_prof (st x) = map_option drv_prof (st' x))"

lemma tab_wf_dom: "tab_wf t xs \<Longrightarrow> a \<in> set xs \<Longrightarrow> \<exists>d. t_store t a = Some d"
  by (auto simp: tab_wf_def tab_links_def dest!: dseg_dom)

lemma tab_wf_id: "tab_wf t xs \<Longrightarrow> a \<in> set xs \<Longrightarrow> t_store t a = Some d \<Longrightarrow>
    driver_map t (nat (prof_id (drv_prof d))) = Some a"
  unfolding tab_wf_def by (metis nat_0_le nat_less_iff)

lemma tab_wf_id_inj:
  assumes "tab_wf t xs" "a \<in> set xs" "b \<in> set xs" "t_store t a = Some d" "t_store t b = Some e"
    "prof_id (drv_prof d) = prof_id (drv_prof e)"
  shows "a = b"
  using tab_wf_id [OF assms(1,2,4)] tab_wf_id [OF assms(1,3,5)] assms(6) by simp

lemma added_head:
  assumes wf: "tab_wf t xs"
  shows "tab_links (added d no t) (t_brk t # xs) \<and> same_profs (t_store t) (t_store (added d no t)) (dom (t_store t)) \<and>
    dom (t_store (added d no t)) = insert (t_brk t) (dom (t_store t)) \<and>
    map_option drv_prof (t_store (added d no t) (t_brk t)) = Some (drv_prof d)"
proof (cases xs)
  case Nil
  with wf have h: "driver_list_head t = None" by (simp add: tab_wf_def tab_links_def)
  have "t_brk t \<notin> dom (t_store t)" using wf by (auto simp: tab_wf_def)
  with h Nil show ?thesis by (auto simp: added_def Let_def tab_links_def same_profs_def)
next
  case (Cons b as)
  with wf obtain l db where h: "driver_list_head t = Some b" "t_store t b = Some db" "distinct (b # as)"
      "dseg (t_store t) None (Some b) (b # as) l None"
    by (auto simp: tab_wf_def tab_links_def)
  have brk: "t_brk t \<notin> dom (t_store t)" using wf by (auto simp: tab_wf_def)
  then have nb: "t_brk t \<noteq> b" "t_brk t \<notin> set (b # as)" using h(2) dseg_dom [OF h(4)] by auto
  let ?st = "(t_store t)(t_brk t \<mapsto> d\<lparr>fd_next := Some b, fd_pre := None\<rparr>)"
  have st: "t_store (added d no t) = ?st(b \<mapsto> db\<lparr>fd_pre := Some (t_brk t)\<rparr>)" "driver_list_head (added d no t) = Some (t_brk t)"
    using h nb by (simp_all add: added_def Let_def)
  have "dseg ?st None (Some b) (b # as) l None" using dseg_other [OF nb(2)] h(4) by blast
  from dseg_set_pre [OF this, of db "Some (t_brk t)"] h(2,3) nb(1)
  have "dseg (t_store (added d no t)) (Some (t_brk t)) (Some b) (b # as) l None" unfolding st by simp
  then have "dseg (t_store (added d no t)) None (Some (t_brk t)) (t_brk t # xs) l None"
    using nb(1) by (simp add: st(1) Cons)
  then show ?thesis using h(2) nb(1) brk by (auto simp: tab_links_def st same_profs_def)
qed

text \<open>The invariant beside the links, over the numbers of the drivers.\<close>

definition ids :: "(addr \<rightharpoonup> fuzz_driver_t) \<Rightarrow> addr \<Rightarrow> int option" where
  "ids st a = map_option (\<lambda>d. prof_id (drv_prof d)) (st a)"

lemma tab_wf_ids:
  "tab_wf t xs \<longleftrightarrow> distinct xs \<and> tab_links t xs \<and> (\<forall>a\<in>dom (t_store t). a < t_brk t) \<and>
     (\<forall>no a. driver_map t no = Some a \<longleftrightarrow> a \<in> set xs \<and> no < MAX_DRIVER \<and> ids (t_store t) a = Some (int no)) \<and>
     (\<forall>a\<in>set xs. \<forall>i. ids (t_store t) a = Some i \<longrightarrow> 0 \<le> i \<and> i < int MAX_DRIVER) \<and>
     driver_count t = of_nat (length xs)"
  by (auto simp: tab_wf_def ids_def)

lemma same_profs_ids: "same_profs st st' A \<Longrightarrow> a \<in> A \<Longrightarrow> ids st' a = ids st a"
  unfolding same_profs_def ids_def
  by (drule (1) bspec) (cases "st a"; cases "st' a"; simp)

lemma same_profs_profs:
  assumes "same_profs (t_store t) (t_store t') A" "set xs \<subseteq> A" "set xs \<subseteq> dom (t_store t)"
  shows "profs t' xs = profs t xs"
  unfolding profs_def
proof (rule map_cong [OF refl])
  fix a assume "a \<in> set xs"
  with assms have "map_option drv_prof (t_store t a) = map_option drv_prof (t_store t' a)" "a \<in> dom (t_store t)"
    by (auto simp: same_profs_def)
  then show "drv_prof (the (t_store t' a)) = drv_prof (the (t_store t a))" by (cases "t_store t' a") auto
qed

lemma added_sel:
  "t_brk (added d no t) = t_brk t + 1" "driver_map (added d no t) = (driver_map t)(no := Some (t_brk t))"
  "driver_count (added d no t) = driver_count t + 1"
  by (simp_all add: added_def Let_def)

lemma added_wf:
  assumes wf: "tab_wf t xs" and no: "prof_id (drv_prof d) = int no" "no < MAX_DRIVER" and new: "driver_map t no = None"
  shows "tab_wf (added d no t) (t_brk t # xs) \<and> profs (added d no t) (t_brk t # xs) = drv_prof d # profs t xs"
proof -
  let ?t = "added d no t" and ?a = "t_brk t"
  note w = wf [unfolded tab_wf_ids] and h = added_head [OF wf, of d no]
  from h have links: "tab_links ?t (?a # xs)" and same: "same_profs (t_store t) (t_store ?t) (dom (t_store t))"
    and dm: "dom (t_store ?t) = insert ?a (dom (t_store t))" and at: "map_option drv_prof (t_store ?t ?a) = Some (drv_prof d)"
    by auto
  have xs: "set xs \<subseteq> dom (t_store t)" using tab_wf_dom [OF wf] by blast
  have na: "?a \<notin> set xs" using w xs by (meson less_irrefl subsetD)
  have ia: "ids (t_store ?t) ?a = Some (int no)" using at no by (auto simp: ids_def)
  have ix: "ids (t_store ?t) a = ids (t_store t) a" if "a \<in> set xs" for a
    using same_profs_ids [OF same] that xs by blast
  have nn: "ids (t_store t) a \<noteq> Some (int no)" if "a \<in> set xs" for a
    using w that no(2) new by (metis option.distinct(1))
  have "tab_wf ?t (?a # xs)"
    unfolding tab_wf_ids
  proof (intro conjI)
    show "distinct (?a # xs)" using na w by simp
    show "tab_links ?t (?a # xs)" by (rule links)
    show "\<forall>a\<in>dom (t_store ?t). a < t_brk ?t" using w dm by (auto simp: added_sel less_Suc_eq)
    show "\<forall>n a. driver_map ?t n = Some a \<longleftrightarrow> a \<in> set (?a # xs) \<and> n < MAX_DRIVER \<and> ids (t_store ?t) a = Some (int n)"
      using w ia ix nn na no(2) by (auto simp: added_sel)
    show "\<forall>a\<in>set (?a # xs). \<forall>i. ids (t_store ?t) a = Some i \<longrightarrow> 0 \<le> i \<and> i < int MAX_DRIVER"
      using w ia ix no(2) by auto
    show "driver_count ?t = of_nat (length (?a # xs))" using w by (simp add: added_sel)
  qed
  moreover have "profs ?t xs = profs t xs" by (rule same_profs_profs [OF same xs xs])
  then have "profs ?t (?a # xs) = drv_prof d # profs t xs" using at by (auto simp: profs_def)
  ultimately show ?thesis ..
qed

section \<open>Moving a driver to the front\<close>

lemma same_profs_upd: "st a = Some d \<Longrightarrow> drv_prof d' = drv_prof d \<Longrightarrow> same_profs st (st(a \<mapsto> d')) A"
  by (simp add: same_profs_def)

lemma same_profs_trans: "same_profs st st' A \<Longrightarrow> same_profs st' st'' A \<Longrightarrow> same_profs st st'' A"
  by (simp add: same_profs_def)

lemma same_profs_dom: "same_profs st st' UNIV \<Longrightarrow> dom st' = dom st"
  unfolding same_profs_def dom_def by (metis (no_types, lifting) UNIV_I map_option_is_None)

text \<open>The first two writes: the driver is taken out of the list.\<close>

lemma unlink_run:
  assumes front: "dseg (t_store t) None h (ys @ [b]) m (Some e)" and rear: "dseg (t_store t) (Some b) (Some e) (e # zs) l None"
    and d: "t_store t e = Some d" and dist: "distinct (ys @ b # e # zs)"
  shows "wp (bnd (drv_wr (fd_pre d) (\<lambda>p. p\<lparr>fd_next := fd_next d\<rparr>)) (\<lambda>_.
      if fd_next d \<noteq> None then drv_wr (fd_next d) (\<lambda>n. n\<lparr>fd_pre := fd_pre d\<rparr>) else ret ()))
    (\<lambda>_ t'. \<exists>st l'. t' = t\<lparr>t_store := st\<rparr> \<and> dseg st None h (ys @ b # zs) l' None \<and> same_profs (t_store t) st UNIV \<and>
       st e = Some d) t"
proof -
  from rear d have pre: "fd_pre d = Some b" and tl: "dseg (t_store t) (Some e) (fd_next d) zs l None" by auto
  obtain db where db: "t_store t b = Some db" using dseg_dom [OF front] by auto
  define st1 where "st1 = (t_store t)(b \<mapsto> db\<lparr>fd_next := fd_next d\<rparr>)"
  have f1: "dseg st1 None h (ys @ [b]) (Some b) (fd_next d)"
    unfolding st1_def using dseg_set_next [OF front _ db] dist by simp
  have t1: "dseg st1 (Some e) (fd_next d) zs l None" unfolding st1_def using tl dist by (simp add: dseg_other)
  have s1: "same_profs (t_store t) st1 UNIV" unfolding st1_def by (rule same_profs_upd, rule db) simp
  have e1: "st1 e = Some d" using d dist by (simp add: st1_def)
  show ?thesis
  proof (cases zs)
    case Nil
    with t1 have "fd_next d = None" by simp
    then show ?thesis using f1 s1 e1 Nil pre db by (auto simp: hf_wp st1_def)
  next
    case (Cons c cs)
    with t1 obtain dc where c: "fd_next d = Some c" "st1 c = Some dc" by auto
    define st2 where "st2 = st1(c \<mapsto> dc\<lparr>fd_pre := Some b\<rparr>)"
    have "dseg st2 (Some b) (fd_next d) zs l None"
      unfolding st2_def using dseg_set_pre [OF t1 [unfolded Cons] _ c(2)] dist Cons by simp
    moreover have "dseg st2 None h (ys @ [b]) (Some b) (fd_next d)"
      unfolding st2_def using f1 dist Cons by (subst dseg_other) auto
    ultimately have "dseg st2 None h ((ys @ [b]) @ zs) l None" by (subst dseg_append) blast
    moreover have "same_profs (t_store t) st2 UNIV"
      unfolding st2_def by (rule same_profs_trans [OF s1], rule same_profs_upd, rule c(2)) simp
    moreover have "st2 e = Some d" using e1 dist Cons by (simp add: st2_def)
    ultimately show ?thesis using c db pre by (auto simp: hf_wp st1_def st2_def)
  qed
qed

lemma wp_assoc: "wp (bnd m (\<lambda>x. bnd (f x) g)) Q s \<longleftrightarrow> wp (bnd (bnd m f) g) Q s"
  by (simp add: wp_bnd)

lemma move_run:
  assumes front: "dseg (t_store t) None (Some h) (ys @ [b]) m (Some e)"
    and rear: "dseg (t_store t) (Some b) (Some e) (e # zs) l None" and dist: "distinct (ys @ b # e # zs)"
  shows "wp (drv_moveToHead (Some e) (Some h)) (\<lambda>_ t'. \<exists>st. t' = t\<lparr>t_store := st, driver_list_head := Some e\<rparr> \<and>
    tab_links t' (e # ys @ b # zs) \<and> same_profs (t_store t) st UNIV) t"
proof -
  from rear obtain d where d: "t_store t e = Some d" by auto
  have "wp (bnd (drv_wr (Some e) (\<lambda>d. d\<lparr>fd_next := Some h, fd_pre := None\<rparr>)) (\<lambda>_.
      bnd (drv_wr (Some h) (\<lambda>h. h\<lparr>fd_pre := Some e\<rparr>)) (\<lambda>_. modify (\<lambda>t. t\<lparr>driver_list_head := Some e\<rparr>))))
    (\<lambda>_ t'. \<exists>st. t' = t\<lparr>t_store := st, driver_list_head := Some e\<rparr> \<and>
      tab_links t' (e # ys @ b # zs) \<and> same_profs (t_store t) st UNIV) (t\<lparr>t_store := st\<rparr>)"
    if st: "dseg st None (Some h) (ys @ b # zs) l' None" "same_profs (t_store t) st UNIV" "st e = Some d" for st l'
  proof -
    define st3 where "st3 = st(e \<mapsto> d\<lparr>fd_next := Some h, fd_pre := None\<rparr>)"
    obtain as where as: "ys @ b # zs = h # as" using st(1) by (cases ys) auto
    have l3: "dseg st3 None (Some h) (h # as) l' None"
      unfolding st3_def using st(1) dist by (subst dseg_other) (auto simp: as [symmetric])
    then obtain dh where dh: "st3 h = Some dh" by auto
    have dis: "h \<notin> set as" "e \<noteq> h" "e \<notin> set as"
    proof -
      have "distinct (e # h # as)" using dist by (auto simp: as [symmetric])
      then show "h \<notin> set as" "e \<noteq> h" "e \<notin> set as" by auto
    qed
    have "dseg (st3(h \<mapsto> dh\<lparr>fd_pre := Some e\<rparr>)) (Some e) (Some h) (h # as) l' None"
      using dseg_set_pre [OF l3 dis(1) dh] .
    then have "dseg (st3(h \<mapsto> dh\<lparr>fd_pre := Some e\<rparr>)) None (Some e) (e # h # as) l' None"
      using dis(2) by (simp add: st3_def)
    moreover have "same_profs (t_store t) (st3(h \<mapsto> dh\<lparr>fd_pre := Some e\<rparr>)) UNIV"
    proof (rule same_profs_trans [OF st(2)], rule same_profs_trans)
      show "same_profs st st3 UNIV" unfolding st3_def by (rule same_profs_upd, rule st(3)) simp
      show "same_profs st3 (st3(h \<mapsto> dh\<lparr>fd_pre := Some e\<rparr>)) UNIV" by (rule same_profs_upd, rule dh) simp
    qed
    ultimately show ?thesis using st(3) dh by (auto simp: hf_wp tab_links_def as st3_def)
  qed
  note rest = this
  show ?thesis
    unfolding drv_moveToHead_def wp_bnd [of "drv_rd _"] wp_drv_rd
    by (rule exI [of _ e], rule exI [of _ d], intro conjI refl d, subst wp_assoc, subst wp_bnd,
        rule wp_mono [OF unlink_run [OF front rear d dist]], elim exE conjE, hypsubst, rule rest)
qed

lemma dseg_upd_prof:
  assumes "st a = Some d"
  shows "dseg (st(a \<mapsto> d\<lparr>drv_prof := p\<rparr>)) q h xs l k \<longleftrightarrow> dseg st q h xs l k"
  using assms by (induction xs arbitrary: q h) auto

text \<open>A table with the same drivers in another order, after a change of a profile that keeps its number.\<close>

lemma tab_wf_reorder:
  assumes wf: "tab_wf t xs" and st: "t_store t' = st'" "\<And>a. ids st' a = ids (t_store t) a"
    and links: "tab_links t' xs'" and xs': "distinct xs'" "set xs' = set xs"
    and sel: "t_brk t' = t_brk t" "driver_map t' = driver_map t" "driver_count t' = driver_count t"
  shows "tab_wf t' xs'"
proof -
  have "dom st' = dom (t_store t)" using st(2) unfolding ids_def dom_def
    by (metis (no_types, lifting) map_option_is_None)
  moreover have "length xs' = length xs" using wf xs' by (metis distinct_card tab_wf_ids)
  ultimately show ?thesis using assms by (simp add: tab_wf_ids)
qed

lemma to_front_known:
  assumes wf: "tab_wf t (ys @ e # zs)" and d: "t_store t e = Some d" "prof_id (drv_prof d) = prof_id p"
  shows "to_front p (profs t (ys @ e # zs)) = (drv_prof d)\<lparr>prof_priority := prof_priority p\<rparr> # profs t (ys @ zs)"
proof -
  have ne: "prof_id (drv_prof (the (t_store t a))) \<noteq> prof_id p" if "a \<in> set (ys @ zs)" for a
  proof
    assume id: "prof_id (drv_prof (the (t_store t a))) = prof_id p"
    have a: "a \<in> set (ys @ e # zs)" "a \<noteq> e" using that wf by (auto simp: tab_wf_def)
    then obtain d' where "t_store t a = Some d'" using tab_wf_dom [OF wf] by blast
    with tab_wf_id_inj [OF wf a(1), of e d' d] a d id show False by simp
  qed
  then have "find (\<lambda>q. prof_id q = prof_id p) (profs t ys) = None"
    "filter (\<lambda>q. prof_id q \<noteq> prof_id p) (profs t ys) = profs t ys"
    "filter (\<lambda>q. prof_id q \<noteq> prof_id p) (profs t zs) = profs t zs"
    by (auto simp: profs_def find_None_iff filter_id_conv)
  then show ?thesis using d by (simp add: to_front_def profs_def find_append)
qed

lemma to_front_new:
  assumes wf: "tab_wf t xs" and no: "prof_id p = int no" "no < MAX_DRIVER" and new: "driver_map t no = None"
  shows "to_front p (profs t xs) = p # profs t xs"
proof -
  have "prof_id (drv_prof (the (t_store t a))) \<noteq> prof_id p" if "a \<in> set xs" for a
  proof
    assume "prof_id (drv_prof (the (t_store t a))) = prof_id p"
    moreover obtain d where "t_store t a = Some d" using tab_wf_dom [OF wf \<open>a \<in> set xs\<close>] by blast
    ultimately show False using tab_wf_id [OF wf that] no new by simp
  qed
  then have "find (\<lambda>q. prof_id q = prof_id p) (profs t xs) = None" by (auto simp: profs_def find_None_iff)
  then show ?thesis by (simp add: to_front_def)
qed

text \<open>The change of the priority, which comes before the move.\<close>

definition set_prio :: "u32 \<Rightarrow> fuzz_driver_t \<Rightarrow> fuzz_driver_t" where
  "set_prio v d = d\<lparr>drv_prof := (drv_prof d)\<lparr>prof_priority := v\<rparr>\<rparr>"

lemma known_wp:
  assumes wf: "tab_wf t (ys @ e # zs)" and d: "t_store t e = Some d"
    and st1: "st1 = (t_store t)(e \<mapsto> set_prio v d)"
  shows "wp (bnd (gets driver_list_head) (\<lambda>head. if Some e = head then ret () else drv_moveToHead (Some e) head))
    (\<lambda>_ t'. \<exists>st h. t' = t\<lparr>t_store := st, driver_list_head := h\<rparr> \<and> tab_links t' (e # ys @ zs) \<and> same_profs st1 st UNIV)
    (t\<lparr>t_store := st1\<rparr>)"
proof -
  have dist: "distinct (ys @ e # zs)" using wf by (simp add: tab_wf_def)
  obtain l where "dseg (t_store t) None (driver_list_head t) (ys @ e # zs) l None"
    using wf by (auto simp: tab_wf_def tab_links_def)
  then have "dseg st1 None (driver_list_head t) (ys @ e # zs) l None"
    unfolding st1 set_prio_def using d by (subst dseg_upd_prof) auto
  then obtain m where m: "dseg st1 None (driver_list_head t) ys m (Some e)" "dseg st1 m (Some e) (e # zs) l None"
    by (auto simp: dseg_append)
  show ?thesis
  proof (cases ys rule: rev_cases)
    case Nil
    with m have "driver_list_head t = Some e" "tab_links (t\<lparr>t_store := st1\<rparr>) (e # ys @ zs)" by (auto simp: tab_links_def)
    moreover from this have "t\<lparr>t_store := st1\<rparr> = t\<lparr>t_store := st1, driver_list_head := Some e\<rparr>" by simp
    ultimately show ?thesis by (auto simp: hf_wp same_profs_def intro!: exI [of _ st1] exI [of _ "Some e"])
  next
    case (snoc ys' b)
    then have mb: "m = Some b" using m(1) dseg_last by blast
    obtain h where h: "driver_list_head t = Some h" "h \<in> set ys" using m(1) snoc by (cases ys') auto
    then have "h \<noteq> e" using dist by auto
    have "wp (drv_moveToHead (Some e) (Some h)) (\<lambda>_ t'. \<exists>st. t' = t\<lparr>t_store := st1, t_store := st, driver_list_head := Some e\<rparr> \<and>
        tab_links t' (e # ys' @ b # zs) \<and> same_profs (t_store (t\<lparr>t_store := st1\<rparr>)) st UNIV) (t\<lparr>t_store := st1\<rparr>)"
      by (rule move_run) (use m mb h(1) dist snoc in auto)
    then show ?thesis using h(1) \<open>h \<noteq> e\<close> snoc by (auto simp: hf_wp elim!: wp_mono)
  qed
qed

lemma add_known:
  assumes wf: "tab_wf t xs" and no: "prof_id (drv_prof fd) = int no" "no < MAX_DRIVER" and known: "driver_map t no = Some e"
  shows "wp (drive_addDriver fd) (\<lambda>r t'. r \<and> drivers t' (to_front (drv_prof fd) (profs t xs))) t"
proof -
  from wf known obtain d where e: "e \<in> set xs" and d: "t_store t e = Some d" "prof_id (drv_prof d) = prof_id (drv_prof fd)"
    using no by (auto simp: tab_wf_def)
  then obtain ys zs where xs: "xs = ys @ e # zs" by (auto simp: in_set_conv_decomp)
  let ?v = "prof_priority (drv_prof fd)"
  define st1 where "st1 = (t_store t)(e \<mapsto> set_prio ?v d)"
  have res: "drivers t' (to_front (drv_prof fd) (profs t xs))"
    if "t' = t\<lparr>t_store := st, driver_list_head := h\<rparr>" "tab_links t' (e # ys @ zs)" "same_profs st1 st UNIV" for t' st h
  proof -
    have i: "ids st a = ids (t_store t) a" for a
      using same_profs_ids [OF that(3), of a] d(1) by (simp add: st1_def ids_def set_prio_def)
    have w: "tab_wf t' (e # ys @ zs)"
      by (rule tab_wf_reorder [OF wf, where st' = st]) (use that xs i wf in \<open>auto simp: tab_wf_def\<close>)
    have q: "map_option drv_prof (st a) = map_option drv_prof (st1 a)" for a using that(3) by (simp add: same_profs_def)
    have "same_profs (t_store t) (t_store t') (set (ys @ zs))"
      unfolding same_profs_def using wf xs q by (auto simp: that(1) st1_def tab_wf_def)
    then have "profs t' (ys @ zs) = profs t (ys @ zs)"
      by (rule same_profs_profs) (use tab_wf_dom [OF wf] xs in auto)
    moreover have "drv_prof (the (st e)) = (drv_prof d)\<lparr>prof_priority := ?v\<rparr>"
      using q [of e] by (auto simp: st1_def set_prio_def)
    ultimately have "profs t' (e # ys @ zs) = to_front (drv_prof fd) (profs t xs)"
      unfolding xs using to_front_known [of t ys e zs d "drv_prof fd"] wf d by (simp add: xs that(1) profs_def)
    with w show ?thesis unfolding drivers_def by metis
  qed
  have "wp (bnd (gets driver_list_head) (\<lambda>head. if Some e = head then ret () else drv_moveToHead (Some e) head))
     (\<lambda>_ t'. drivers t' (to_front (drv_prof fd) (profs t xs))) (t\<lparr>t_store := st1\<rparr>)"
    by (rule wp_mono [OF known_wp [OF wf [unfolded xs] d(1) st1_def]]) (use res in blast)
  then show ?thesis
    unfolding drive_addDriver_def Let_def using no known d(1)
    by (auto simp: hf_wp st1_def set_prio_def)
qed

lemma add_driver:
  assumes "drivers t ps" and "0 \<le> prof_id (drv_prof fd)" and "prof_id (drv_prof fd) < int MAX_DRIVER"
  shows "\<exists>t'. drive_addDriver fd t = Inr (True, t') \<and> drivers t' (to_front (drv_prof fd) ps)"
proof -
  from assms(1) obtain xs where wf: "tab_wf t xs" and ps: "ps = profs t xs" by (auto simp: drivers_def)
  obtain no where no: "prof_id (drv_prof fd) = int no" "no < MAX_DRIVER"
    using assms(2,3) by (metis nonneg_int_cases of_nat_less_iff)
  show ?thesis
  proof (cases "driver_map t no")
    case None
    then show ?thesis
      using add_new_run [OF wf no None] added_wf [OF wf no None] to_front_new [OF wf no None]
      by (auto simp: drivers_def ps)
  next
    case (Some e)
    show ?thesis using wp_result [OF add_known [OF wf no Some]] by (auto simp: ps)
  qed
qed

section \<open>Seeds and the queue of inputs\<close>

lemma prioritize_loop_result:
  assumes "distinct rest" and "set rest \<subseteq> dom st" and "set rest \<subseteq> set q" and "distinct q"
  shows "prioritize_loop st no rest q =
    Inr (rev (filter (\<lambda>a. d_driver_id (the (st a)) = no) rest) @
         filter (\<lambda>a. a \<notin> set (filter (\<lambda>a. d_driver_id (the (st a)) = no) rest)) q)"
  using assms
proof (induction rest arbitrary: q)
  case Nil
  then show ?case by (auto simp: filter_id_conv)
next
  case (Cons a rest)
  then obtain df where df: "st a = Some df" by auto
  let ?m = "\<lambda>a. d_driver_id (the (st a)) = no"
  show ?case
  proof (cases "d_driver_id df = no")
    case False
    with Cons df show ?thesis by simp
  next
    case True
    have "prioritize_loop st no rest (a # remove1 a q) =
        Inr (rev (filter ?m rest) @ filter (\<lambda>b. b \<notin> set (filter ?m rest)) (a # remove1 a q))"
      using Cons.prems by (intro Cons.IH) (auto simp: set_remove1_eq)
    moreover have "filter (\<lambda>b. b \<notin> set (filter ?m rest)) (remove1 a q) =
        filter (\<lambda>b. b \<notin> set (filter ?m (a # rest))) q"
      using Cons.prems(4) df True by (auto simp: distinct_remove1_removeAll removeAll_filter_not_eq intro!: filter_cong)
    ultimately show ?thesis using True df Cons.prems(1) by simp
  qed
qed

definition seeds_first :: "(addr \<rightharpoonup> dynfile_t) \<Rightarrow> u32 \<Rightarrow> addr list \<Rightarrow> addr list" where
  "seeds_first st no q =
     rev (filter (\<lambda>a. d_driver_id (the (st a)) = no) q) @ filter (\<lambda>a. d_driver_id (the (st a)) \<noteq> no) q"

lemma prioritize_loop_queue:
  assumes "distinct q" and "set q \<subseteq> dom st"
  shows "prioritize_loop st no q q = Inr (seeds_first st no q)"
proof -
  have "filter (\<lambda>a. a \<notin> set (filter (\<lambda>a. d_driver_id (the (st a)) = no) q)) q =
      filter (\<lambda>a. d_driver_id (the (st a)) \<noteq> no) q"
    by (rule filter_cong) auto
  with prioritize_loop_result [OF assms(1,2) subset_refl assms(1), of no] show ?thesis
    unfolding seeds_first_def by metis
qed

lemma seeds_first_set: "set (seeds_first st no q) = set q" "length (seeds_first st no q) = length q"
  "distinct q \<Longrightarrow> distinct (seeds_first st no q)"
  by (auto simp: seeds_first_def sum_length_filter_compl)

lemma queue_wf_reorder:
  assumes "queue_wf h" and "distinct q" and "set q = set (io_dynfileq h)" and "length q = length (io_dynfileq h)"
    and "\<And>a. c = Some a \<Longrightarrow> a \<in> set q"
  shows "queue_wf (h\<lparr>io_dynfileq := q, io_dynfileqCurrent := c\<rparr>)"
  using assms by (auto simp: queue_wf_def store_ok_def)

lemma inject_seed_wf:
  assumes wf: "queue_wf h" and cnt: "io_dynfileqCnt h + 1 < 2 ^ 64" and buf: "length buf \<le> HF_INPUT_MAX_SIZE"
  shows "queue_wf (inject_seed prof buf nm h)" and "io_dynfileqCnt (inject_seed prof buf nm h) = io_dynfileqCnt h + 1"
proof -
  have brk: "io_brk h \<notin> dom (io_store h)" using wf by (auto simp: queue_wf_def store_ok_def)
  have idx: "sz_add (io_dynfileqCnt h) 1 = io_dynfileqCnt h + 1" using cnt by (simp add: sz_add_def)
  then show "io_dynfileqCnt (inject_seed prof buf nm h) = io_dynfileqCnt h + 1" by (simp add: inject_seed_def Let_def)
  have f: "file_ok (seed_file prof buf nm idx)" for idx using buf by (simp add: file_ok_def seed_file_def)
  have "store_ok (inject_seed prof buf nm h)"
    using wf brk f by (auto simp: queue_wf_def store_ok_def inject_seed_def Let_def less_Suc_eq)
  then show "queue_wf (inject_seed prof buf nm h)"
    using wf idx by (auto simp: queue_wf_def inject_seed_def Let_def seed_file_def le_SucI)
qed

section \<open>Switching the driver\<close>

text \<open>Changes of a table that the list of drivers does not see.\<close>

definition tab_sim :: "addr list \<Rightarrow> fuzz_driver_table_t \<Rightarrow> fuzz_driver_table_t \<Rightarrow> bool" where
  "tab_sim xs t t' \<longleftrightarrow> tab_wf t' xs \<and> same_profs (t_store t) (t_store t') UNIV \<and>
     driver_list_head t' = driver_list_head t"

lemma tab_sim_refl: "tab_wf t xs \<Longrightarrow> tab_sim xs t t"
  by (simp add: tab_sim_def same_profs_def)

lemma tab_sim_trans: "tab_sim xs t t' \<Longrightarrow> tab_sim xs t' t'' \<Longrightarrow> tab_sim xs t t''"
  unfolding tab_sim_def using same_profs_trans by metis

lemma tab_sim_other [simp]:
  "tab_sim xs t (t'\<lparr>seed_hashes := hs\<rparr>) = tab_sim xs t t'"
  "tab_sim xs t (t'\<lparr>active_driver := act\<rparr>) = tab_sim xs t t'"
  by (simp_all add: tab_sim_def tab_wf_def tab_links_def)

lemma tab_sim_wr:
  assumes wf: "tab_wf t xs" and d: "t_store t a = Some d"
    and f: "drv_prof d' = drv_prof d" "fd_next d' = fd_next d" "fd_pre d' = fd_pre d"
  shows "tab_sim xs t (t\<lparr>t_store := (t_store t)(a \<mapsto> d')\<rparr>)"
proof -
  let ?st = "(t_store t)(a \<mapsto> d')"
  have same: "same_profs (t_store t) ?st UNIV" using d f by (simp add: same_profs_def)
  have "dseg ?st None (driver_list_head t) xs l None \<longleftrightarrow> dseg (t_store t) None (driver_list_head t) xs l None" for l
    by (rule dseg_cong [symmetric]) (use tab_wf_dom [OF wf] d f in fastforce)
  then have links: "tab_links (t\<lparr>t_store := ?st\<rparr>) xs" using wf by (simp add: tab_wf_def tab_links_def)
  have "tab_wf (t\<lparr>t_store := ?st\<rparr>) xs"
    by (rule tab_wf_reorder [OF wf, where st' = ?st]) (use wf links same_profs_ids [OF same] in \<open>auto simp: tab_wf_def\<close>)
  with same show ?thesis by (simp add: tab_sim_def)
qed

lemma tab_sim_head:
  assumes "tab_sim xs t t'" and "driver_list_head t = Some a"
  shows "\<exists>d. t_store t' a = Some d"
proof -
  have "a \<in> set xs" using assms by (cases xs) (auto simp: tab_sim_def tab_wf_def tab_links_def)
  then show ?thesis using tab_wf_dom assms by (auto simp: tab_sim_def)
qed

text \<open>What a step of the switch keeps of a session; \<open>n\<close> inputs can still be added.\<close>

definition sess_inv :: "addr list \<Rightarrow> session_t \<Rightarrow> nat \<Rightarrow> session_t \<Rightarrow> bool" where
  "sess_inv xs s0 n s \<longleftrightarrow> tab_sim xs (ses_tab s0) (ses_tab s) \<and> queue_wf (global (ses_run s)) \<and>
     io_dynfileqCnt (global (ses_run s)) + n < 2 ^ 64 \<and> ses_dirs s = ses_dirs s0 \<and>
     ses_exists s = ses_exists s0 \<and> ses_mkdir s = ses_mkdir s0 \<and>
     io_fs (global (ses_run s)) = io_fs (global (ses_run s0))"

lemma wp_tabM [hf_wp]: "wp (tabM m) Q s \<longleftrightarrow> wp m (\<lambda>x t. Q x (s\<lparr>ses_tab := t\<rparr>)) (ses_tab s)"
  by (simp add: tabM_def wp_zoom)

lemma wp_modH [hf_wp]:
  "wp (modH f) Q s \<longleftrightarrow> Q () (s\<lparr>ses_run := (ses_run s)\<lparr>global := f (global (ses_run s))\<rparr>\<rparr>)"
  by (simp add: modH_def wp_modify)

lemma sess_inv_wr:
  assumes inv: "sess_inv xs s0 n s" and d: "t_store (ses_tab s) a = Some d"
    and d': "drv_prof d' = drv_prof d" "fd_next d' = fd_next d" "fd_pre d' = fd_pre d"
  shows "sess_inv xs s0 n (s\<lparr>ses_tab := (ses_tab s)\<lparr>t_store := (t_store (ses_tab s))(a \<mapsto> d')\<rparr>\<rparr>)"
proof -
  have sim: "tab_sim xs (ses_tab s0) (ses_tab s)" using inv by (simp add: sess_inv_def)
  then have "tab_wf (ses_tab s) xs" by (simp add: tab_sim_def)
  from tab_sim_trans [OF sim tab_sim_wr [OF this d d']] show ?thesis using inv by (simp add: sess_inv_def)
qed

lemma sess_inv_stats [simp]:
  "sess_inv xs s0 n (s\<lparr>ses_stats := st\<rparr>) = sess_inv xs s0 n s"
  "sess_inv xs s0 n (s\<lparr>ses_drv_file := b\<rparr>) = sess_inv xs s0 n s"
  "sess_inv xs s0 n (s\<lparr>exe_cmdline := cmd, exe_argc := k, exe_heap := hp\<rparr>) = sess_inv xs s0 n s"
  "sess_inv xs s0 n (s\<lparr>ses_tab := (ses_tab s)\<lparr>seed_hashes := hs\<rparr>\<rparr>) = sess_inv xs s0 n s"
  "sess_inv xs s0 n (s\<lparr>ses_tab := (ses_tab s)\<lparr>active_driver := act\<rparr>\<rparr>) = sess_inv xs s0 n s"
  by (simp_all add: sess_inv_def)

lemma update_stat_wp:
  assumes inv: "sess_inv xs s0 n s" and act: "\<And>a. active_driver (ses_tab s) = Some a \<Longrightarrow> a \<in> dom (t_store (ses_tab s))"
  shows "wp driver_updateDrvStat (\<lambda>_ s'. sess_inv xs s0 n s' \<and> active_driver (ses_tab s') = active_driver (ses_tab s) \<and>
    ses_run s' = ses_run s \<and> exe_heap s' = exe_heap s) s"
proof (cases "active_driver (ses_tab s)")
  case None
  then show ?thesis using inv by (simp add: driver_updateDrvStat_def hf_wp)
next
  case (Some a)
  then obtain d where "t_store (ses_tab s) a = Some d" using act by auto
  with Some show ?thesis
    unfolding driver_updateDrvStat_def write_stat_def
    by (auto simp: hf_wp Let_def intro: sess_inv_wr [OF inv])
qed

text \<open>What loading seeds leaves alone.\<close>

definition kept :: "session_t \<Rightarrow> session_t \<Rightarrow> bool" where
  "kept s s' \<longleftrightarrow> active_driver (ses_tab s') = active_driver (ses_tab s) \<and> exe_cmdline s' = exe_cmdline s \<and>
     exe_argc s' = exe_argc s \<and> exe_heap s' = exe_heap s \<and> io_outputDir (global (ses_run s')) = io_outputDir (global (ses_run s))"

lemma readData_size: "driver_readData fs p = Some buf \<Longrightarrow> length buf \<le> HF_INPUT_MAX_SIZE"
  by (auto simp: driver_readData_def split: option.splits if_splits)

lemma inject_seed_fs [simp]: "io_fs (inject_seed prof buf nm h) = io_fs h" "io_outputDir (inject_seed prof buf nm h) = io_outputDir h"
  by (simp_all add: inject_seed_def Let_def)

lemma add_seed_wp:
  assumes inv: "sess_inv xs s0 (Suc n) s"
  shows "wp (driver_addDriverSeed prof p nm) (\<lambda>_ s'. sess_inv xs s0 n s' \<and> kept s s') s"
proof (cases "driver_readData (io_fs (global (ses_run s))) p")
  case None
  then show ?thesis using inv by (simp add: driver_addDriverSeed_def hf_wp sess_inv_def kept_def)
next
  case (Some buf)
  then have len: "length buf \<le> HF_INPUT_MAX_SIZE" by (rule readData_size)
  have cnt: "io_dynfileqCnt (global (ses_run s)) + 1 < 2 ^ 64" and wf: "queue_wf (global (ses_run s))"
    using inv by (auto simp: sess_inv_def)
  note new = inject_seed_wf [OF wf cnt len, of prof nm]
  have "sess_inv xs s0 n (s\<lparr>ses_run := (ses_run s)\<lparr>global := inject_seed prof buf nm (global (ses_run s))\<rparr>\<rparr>)"
    "sess_inv xs s0 n s"
    using inv new by (simp_all add: sess_inv_def)
  then show ?thesis using Some
    by (auto simp: driver_addDriverSeed_def driver_isSeedExist_def hf_wp Let_def sess_inv_def kept_def)
qed

lemma add_dir_wp:
  assumes "sess_inv xs s0 (length names + n) s"
  shows "wp (forM names (\<lambda>name.
           let fullPath = join_path (prof_seed_dir prof) name
           in bnd (gets (\<lambda>s. fs_stat (io_fs (global (ses_run s))) fullPath)) (\<lambda>st. case st of
                Some (True, _) \<Rightarrow> driver_addDriverSeed prof fullPath name
              | _ \<Rightarrow> ret ())))
    (\<lambda>_ s'. sess_inv xs s0 n s' \<and> kept s s') s"
  (is "wp (forM names ?body) _ _")
  using assms
proof (induction names arbitrary: s)
  case Nil
  then show ?case by (simp add: wp_ret kept_def)
next
  case (Cons nm names)
  have weak: "sess_inv xs s0 (length names + n) s" using Cons.prems by (simp add: sess_inv_def)
  have "wp (?body nm) (\<lambda>_ s'. sess_inv xs s0 (length names + n) s' \<and> kept s s') s"
    using add_seed_wp [of xs s0 "length names + n" s prof] Cons.prems weak
    by (auto simp: Let_def hf_wp kept_def [of s s] split: option.splits bool.splits)
  then show ?case
    by (simp only: forM.simps wp_bnd) (erule wp_mono, elim conjE, drule Cons.IH, simp add: kept_def)
qed

lemma prioritize_wp:
  assumes inv: "sess_inv xs s0 n s"
  shows "wp (driver_prioritizeSeeds no) (\<lambda>_ s'. sess_inv xs s0 n s' \<and> kept s s') s"
proof -
  let ?h = "global (ses_run s)"
  have wf: "queue_wf ?h" using inv by (simp add: sess_inv_def)
  then have q: "distinct (io_dynfileq ?h)" "set (io_dynfileq ?h) \<subseteq> dom (io_store ?h)"
    by (simp_all add: queue_wf_def store_ok_def)
  let ?q = "seeds_first (io_store ?h) no (io_dynfileq ?h)"
  have "queue_wf (?h\<lparr>io_dynfileq := ?q, io_dynfileqCurrent := case ?q of [] \<Rightarrow> None | a # _ \<Rightarrow> Some a\<rparr>)"
    by (rule queue_wf_reorder [OF wf seeds_first_set(3) [OF q(1)] seeds_first_set(1,2)]) (auto split: list.splits)
  then show ?thesis using inv
    by (simp add: driver_prioritizeSeeds_def hf_wp prioritize_loop_queue [OF q] sess_inv_def kept_def)
qed

definition argv_of :: "driver_prof_t \<Rightarrow> byte list list" where
  "argv_of p = prof_driver p # take 2044 (prof_argv p) @ str ''___FILE___'' # (if prof_output p = [] then [] else [prof_output p])"

lemma getArgv_ok: "drive_getArgv d = Inr (argv_of (drv_prof d), length (argv_of (drv_prof d)))"
  by (simp add: drive_getArgv_def argv_of_def HF_ARGS_MAX_def Let_def min_less_iff_disj)

definition outdir_of :: "driver_prof_t \<Rightarrow> path" where
  "outdir_of p = snprintf_cut MAX_PATH (str ''fuzz/out/'' @ prof_name p)"

text \<open>The run is set up for a driver.\<close>

definition entered :: "driver_prof_t \<Rightarrow> session_t \<Rightarrow> bool" where
  "entered p s \<longleftrightarrow> drv_active_driver_id (global (ses_run s)) = Some (of_int (prof_id p)) \<and>
     exe_cmdline s = argv_of p \<and> exe_argc s = length (argv_of p) \<and> exe_heap s \<and> io_outputDir (global (ses_run s)) = Some (outdir_of p)"

definition seed_names :: "session_t \<Rightarrow> driver_prof_t \<Rightarrow> path list" where
  "seed_names s p = (case ses_dirs s (prof_seed_dir p) of None \<Rightarrow> [] | Some names \<Rightarrow> names)"

lemma seeds_wp:
  assumes inv: "sess_inv xs s0 (length (seed_names s0 p)) s" and head: "driver_list_head (ses_tab s0) = Some a"
  shows "wp (if b then bnd (driver_addDriverSeedDir p) (\<lambda>_. tabM (drv_wr (Some a) (\<lambda>d. d\<lparr>fd_initialized := True\<rparr>)))
             else driver_prioritizeSeeds no) (\<lambda>_ s'. sess_inv xs s0 0 s' \<and> kept s s') s"
proof -
  have "wp (driver_addDriverSeedDir p) (\<lambda>_ s'. sess_inv xs s0 0 s' \<and> kept s s') s"
  proof (cases "ses_dirs s0 (prof_seed_dir p)")
    case None
    then show ?thesis using inv by (simp add: driver_addDriverSeedDir_def hf_wp sess_inv_def kept_def)
  next
    case (Some names)
    then have "ses_dirs s (prof_seed_dir p) = Some names" "sess_inv xs s0 (length names + 0) s"
      using inv by (simp_all add: sess_inv_def seed_names_def)
    with add_dir_wp [of xs s0 names 0 s p] show ?thesis by (simp add: driver_addDriverSeedDir_def hf_wp)
  qed
  moreover have "wp (tabM (drv_wr (Some a) (\<lambda>d. d\<lparr>fd_initialized := True\<rparr>))) (\<lambda>_ s'. sess_inv xs s0 0 s' \<and> kept s s') t"
    if t: "sess_inv xs s0 0 t" "kept s t" for t
  proof -
    obtain d where "t_store (ses_tab t) a = Some d" using tab_sim_head [OF _ head] t(1) by (auto simp: sess_inv_def)
    with sess_inv_wr [OF t(1) this, of "d\<lparr>fd_initialized := True\<rparr>"] t(2) show ?thesis by (simp add: hf_wp kept_def)
  qed
  moreover have "wp (driver_prioritizeSeeds no) (\<lambda>_ s'. sess_inv xs s0 0 s' \<and> kept s s') s"
    using prioritize_wp [of xs s0 0 s no] inv by (simp add: sess_inv_def)
  ultimately show ?thesis by (auto simp: wp_bnd elim!: wp_mono)
qed

lemma enter_wp:
  assumes inv: "sess_inv xs s0 (length (seed_names s0 p)) s" and head: "driver_list_head (ses_tab s0) = Some a"
    and d: "t_store (ses_tab s) a = Some d" "drv_prof d = p" and out: "ses_exists s0 (outdir_of p) \<or> ses_mkdir s0 (outdir_of p)"
    and heap: "exe_heap s"
  shows "wp (bnd (drive_initOutput d) (\<lambda>ok.
            bnd (check LogFatal ok) (\<lambda>_.
            bnd (bnd (gets exe_heap) (check BadFree)) (\<lambda>_.
            bnd (case drive_getArgv d of Inl e \<Rightarrow> raise e
                 | Inr (argv, argc) \<Rightarrow> modify (\<lambda>s. s\<lparr>exe_cmdline := argv, exe_argc := argc, exe_heap := True\<rparr>)) (\<lambda>_.
            bnd (if \<not> fd_initialized d
                 then bnd (driver_addDriverSeedDir (drv_prof d)) (\<lambda>_.
                      tabM (drv_wr (Some a) (\<lambda>d. d\<lparr>fd_initialized := True\<rparr>)))
                 else driver_prioritizeSeeds (of_int (prof_id (drv_prof d)))) (\<lambda>_.
            bnd (modify (\<lambda>s. s\<lparr>ses_tab := (ses_tab s)\<lparr>active_driver := Some a\<rparr>\<rparr>)) (\<lambda>_.
            modH (\<lambda>h. h\<lparr>drv_active_driver_id := Some (of_int (prof_id (drv_prof d)))\<rparr>))))))))
    (\<lambda>_ s'. sess_inv xs s0 0 s' \<and> active_driver (ses_tab s') = Some a \<and> entered p s') s"
proof -
  let ?h = "(global (ses_run s))\<lparr>io_outputDir := Some (outdir_of p)\<rparr>"
  let ?s = "s\<lparr>ses_run := (ses_run s)\<lparr>global := ?h\<rparr>, exe_cmdline := argv_of p, exe_argc := length (argv_of p), exe_heap := True\<rparr>"
  have "queue_wf ?h" using inv by (auto simp: sess_inv_def queue_wf_def store_ok_def)
  then have s: "sess_inv xs s0 (length (seed_names s0 p)) ?s" using inv by (simp add: sess_inv_def)
  have fin: "sess_inv xs s0 0 (t\<lparr>ses_tab := (ses_tab t)\<lparr>active_driver := Some a\<rparr>,
      ses_run := (ses_run t)\<lparr>global := (global (ses_run t))\<lparr>drv_active_driver_id := i\<rparr>\<rparr>\<rparr>)" if "sess_inv xs s0 0 t" for t i
    using that by (auto simp: sess_inv_def queue_wf_def store_ok_def)
  have o: "ses_exists s (outdir_of p) \<or> ses_mkdir s (outdir_of p)" using inv out by (simp add: sess_inv_def)
  show ?thesis
    unfolding drive_initOutput_def Let_def d(2) outdir_of_def [symmetric] getArgv_ok sum.case prod.case
      wp_bnd wp_gets wp_check wp_ret wp_modH wp_modify
    by (intro conjI o TrueI, (simp add: heap), rule wp_mono [OF seeds_wp [OF s head]]) (auto intro!: fin simp: kept_def entered_def)
qed

text \<open>The driver at the head, in every state of a switch.\<close>

lemma sess_head:
  assumes inv: "sess_inv xs s0 n t" and head: "driver_list_head (ses_tab s0) = Some a"
    and p: "map_option drv_prof (t_store (ses_tab s0) a) = Some p"
  shows "\<exists>d. t_store (ses_tab t) a = Some d \<and> drv_prof d = p"
proof -
  have sim: "tab_sim xs (ses_tab s0) (ses_tab t)" using inv by (simp add: sess_inv_def)
  then have "map_option drv_prof (t_store (ses_tab s0) a) = map_option drv_prof (t_store (ses_tab t) a)"
    by (simp add: tab_sim_def same_profs_def)
  with p tab_sim_head [OF sim head] show ?thesis by auto
qed

lemma init_stat_wp:
  assumes inv: "sess_inv xs s0 0 t" and act: "active_driver (ses_tab t) = Some a" and d: "t_store (ses_tab t) a = Some d"
  shows "wp (bnd (driver_initStat (active_driver (ses_tab t))) (\<lambda>_. modify (\<lambda>s. s\<lparr>ses_drv_file := False\<rparr>)))
    (\<lambda>_ s'. sess_inv xs s0 0 s' \<and> active_driver (ses_tab s') = Some a \<and> (entered p t \<longrightarrow> entered p s') \<and> \<not> ses_drv_file s') t"
  using sess_inv_wr [OF inv d] act d by (auto simp: driver_initStat_def hf_wp entered_def)

lemma switch_wp:
  assumes start: "sess_inv xs s (length (seed_names s p)) s" and head: "driver_list_head (ses_tab s) = Some a"
    and p: "map_option drv_prof (t_store (ses_tab s) a) = Some p"
    and act: "active_driver (ses_tab s) \<in> {None} \<union> Some ` dom (t_store (ses_tab s))"
    and out: "ses_exists s (outdir_of p) \<or> ses_mkdir s (outdir_of p)" and heap: "active_driver (ses_tab s) = Some a \<or> exe_heap s"
  shows "wp driver_switchDriver (\<lambda>_ s'. sess_inv xs s 0 s' \<and> active_driver (ses_tab s') = Some a \<and>
      (active_driver (ses_tab s) \<noteq> Some a \<longrightarrow> entered p s') \<and> \<not> ses_drv_file s') s" (is "wp _ ?Q s")
  unfolding driver_switchDriver_def wp_bnd [of driver_updateDrvStat]
proof (rule wp_mono [OF update_stat_wp [OF start]], goal_cases)
  case (1 b)
  then show ?case using act by auto
next
  case (2 x t)
  then have t: "sess_inv xs s (length (seed_names s p)) t" "active_driver (ses_tab t) = active_driver (ses_tab s)"
      "driver_list_head (ses_tab t) = Some a"
    using head by (auto simp: sess_inv_def tab_sim_def)
  from 2 have hp: "exe_heap t = exe_heap s" by simp
  from t have t0: "sess_inv xs s 0 t" by (simp add: sess_inv_def)
  obtain d where d: "t_store (ses_tab t) a = Some d" "drv_prof d = p" using sess_head [OF t(1) head p] by auto
  have same: "t\<lparr>ses_tab := ses_tab t\<rparr> = t" by simp
  show ?case
  proof (cases "active_driver (ses_tab s) = Some a")
    case True
    then show ?thesis using t d init_stat_wp [OF t0 _ d(1), of p] by (auto simp: hf_wp elim!: wp_mono)
  next
    case False
    have fin: "wp (bnd (driver_initStat (active_driver (ses_tab u))) (\<lambda>_. modify (\<lambda>s. s\<lparr>ses_drv_file := False\<rparr>))) ?Q u"
      if u: "sess_inv xs s 0 u \<and> active_driver (ses_tab u) = Some a \<and> entered p u" for u
    proof -
      obtain d' where "t_store (ses_tab u) a = Some d'" using sess_head [OF _ head p] u by blast
      from wp_mono [OF init_stat_wp [OF _ _ this, of xs s p]] u show ?thesis by auto
    qed
    show ?thesis
      unfolding wp_bnd [of "gets _"] wp_gets t(2,3) prod.case if_not_P [OF False] wp_bnd [of "bnd (tabM _) _"]
        wp_bnd [of "tabM _"] wp_tabM wp_drv_rd
      by (rule exI [of _ a], rule exI [of _ d], intro conjI refl d(1), unfold same,
          rule wp_mono [OF enter_wp [OF t(1) head d out]], (use False heap hp in simp), rule fin)
  qed
qed

section \<open>A session with two drivers\<close>

definition demo_prof :: "int \<Rightarrow> driver_prof_t" where
  "demo_prof no = zero_prof\<lparr>prof_id := no, prof_name := str ''d'', prof_driver := str ''drivers/d/d''\<rparr>"

definition demo_table :: fuzz_driver_table_t where
  "demo_table = \<lparr>t_store = [0 \<mapsto> (zero_driver (demo_prof 7))\<lparr>fd_next := Some 1\<rparr>,
       1 \<mapsto> (zero_driver (demo_prof 9))\<lparr>fd_pre := Some 0\<rparr>], t_brk = 2, active_drv_path = [], driver_runtime_path = [],
     active_driver = None, driver_list_head = Some 0, driver_count = 2,
     driver_map = (\<lambda>_. None)(7 := Some 0, 9 := Some 1), seed_hashes = [], t_current_phase = 0, t_inPlaceEdit = 0\<rparr>"

definition demo_session :: session_t where
  "demo_session = \<lparr>ses_run = demo_drivers, ses_tab = demo_table, exe_cmdline = [], exe_argc = 0, exe_heap = True, softCntEdge = 0,
     softCntPc = 0, softCntCmp = 0, uniqueCrashesCnt = 0, covGuardNb = 0, ses_time = 0, ses_dirs = (\<lambda>_. None),
     ses_exists = (\<lambda>_. True), ses_mkdir = (\<lambda>_. True), ses_writable = (\<lambda>_. True), ses_stats = (\<lambda>_. None),
     ses_drv_file = True\<rparr>"

definition demo_json :: "int \<Rightarrow> drv_json" where
  "demo_json no = \<lparr>j_id = Some no, j_name = Some (Some []), j_driver = Some (Some []), j_args = Some (JArray []),
     j_seed_dir = Some (Some []), j_priority = Some 1, j_output = Some (Some []), j_phase = Some 2, j_in_place = None\<rparr>"

lemma demo_table_drivers: "drivers demo_table [demo_prof 7, demo_prof 9]"
  unfolding drivers_def
  by (rule exI [of _ "[0, 1]"])
     (auto simp: tab_wf_def tab_links_def profs_def demo_table_def zero_driver_def demo_prof_def zero_prof_def MAX_DRIVER_def)

lemma demo_parse:
  "\<exists>prof. drive_parseDriverProfile (\<lambda>_. Some (demo_json no)) txt = Inr (Some prof) \<and> prof_id prof = no"
  by (simp add: drive_parseDriverProfile_def demo_json_def drive_parseArgs_def Let_def)

lemma demo_session_queue: "queue_wf (global (ses_run demo_session))"
  by (auto simp: demo_session_def demo_drivers_def queue_wf_def store_ok_def file_ok_def demo_input_def demo_file_def
      demo_run_def demo_global_def HF_INPUT_MAX_SIZE_def split: if_splits)

section \<open>Properties\<close>

text \<open>C19: Loading a driver refines one operation on a list of profiles, for every table that
  holds a list \<open>ps\<close> of drivers and every number from 0 to \<open>MAX_DRIVER - 1\<close>: a new driver is put in
  front, a known one keeps its profile but for the priority and moves to the front. The call
  succeeds, no link is followed out of the list, and the table by number, the links in both
  directions and the count are those of the new list.\<close>

theorem drive_addDriver_refines:
  assumes "drivers t ps" and "0 \<le> prof_id (drv_prof fd)" and "prof_id (drv_prof fd) < int MAX_DRIVER"
  shows "\<exists>t'. drive_addDriver fd t = Inr (True, t') \<and> drivers t' (to_front (drv_prof fd) ps)"
  using assms by (rule add_driver)

theorem drive_addDriver_refines_witness:
  "\<exists>t'. drive_addDriver (zero_driver ((demo_prof 9)\<lparr>prof_priority := 5\<rparr>)) demo_table = Inr (True, t') \<and>
     drivers t' [(demo_prof 9)\<lparr>prof_priority := 5\<rparr>, demo_prof 7]"
  using drive_addDriver_refines [OF demo_table_drivers, of "zero_driver ((demo_prof 9)\<lparr>prof_priority := 5\<rparr>)"]
  by (simp add: zero_driver_def demo_prof_def zero_prof_def MAX_DRIVER_def to_front_def)

text \<open>C20: Switching to the driver at the head of the list succeeds in every session whose table,
  active driver and queue of inputs are well formed, whose output directory exists or can be
  made (otherwise the process ends with a message), whose input counter has room for the files of the seed directory, and whose command line
  is a block of the heap, as it is when the process was started with a driver or has switched before (otherwise the switch frees a part of
  \<open>argv\<close>, see \<open>driver_switchDriver_bad_free\<close>). Afterwards the
  head is the active driver, the list of drivers is unchanged, the queue of inputs is well
  formed, the file of the active driver is removed, and unless the driver was active before,
  the command line, the output directory and the number of the active driver are those of its
  profile, and the command line is a block of the heap.\<close>

theorem driver_switchDriver_ok:
  assumes tab: "drivers (ses_tab s) (p # ps)" and queue: "queue_wf (global (ses_run s))"
    and act: "active_driver (ses_tab s) \<in> {None} \<union> Some ` dom (t_store (ses_tab s))"
    and out: "ses_exists s (outdir_of p) \<or> ses_mkdir s (outdir_of p)"
    and room: "io_dynfileqCnt (global (ses_run s)) + length (seed_names s p) < 2 ^ 64"
    and heap: "active_driver (ses_tab s) = driver_list_head (ses_tab s) \<or> exe_heap s"
  shows "\<exists>s'. driver_switchDriver s = Inr ((), s') \<and> drivers (ses_tab s') (p # ps) \<and>
    driver_list_head (ses_tab s) \<noteq> None \<and> active_driver (ses_tab s') = driver_list_head (ses_tab s) \<and>
    queue_wf (global (ses_run s')) \<and> \<not> ses_drv_file s' \<and>
    (active_driver (ses_tab s) \<noteq> driver_list_head (ses_tab s) \<longrightarrow> entered p s')"
proof -
  from tab obtain a as where xs: "tab_wf (ses_tab s) (a # as)" "p # ps = profs (ses_tab s) (a # as)"
    unfolding drivers_def by (metis list.exhaust list.map_disc_iff list.simps(3) profs_def)
  have head: "driver_list_head (ses_tab s) = Some a" using xs(1) by (auto simp: tab_wf_def tab_links_def)
  have p: "map_option drv_prof (t_store (ses_tab s) a) = Some p"
    using tab_wf_dom [OF xs(1), of a] xs(2) by (auto simp: profs_def)
  have start: "sess_inv (a # as) s (length (seed_names s p)) s"
    using xs queue room by (simp add: sess_inv_def tab_sim_refl)
  from heap have hp: "active_driver (ses_tab s) = Some a \<or> exe_heap s" by (simp add: head)
  from wp_result [OF switch_wp [OF start head p act out hp]] obtain s' where "driver_switchDriver s = Inr ((), s')"
    "sess_inv (a # as) s 0 s'" "active_driver (ses_tab s') = Some a"
    "active_driver (ses_tab s) \<noteq> Some a \<longrightarrow> entered p s'" "\<not> ses_drv_file s'"
    by auto
  moreover from this have "drivers (ses_tab s') (p # ps)"
    unfolding drivers_def xs(2) using tab_wf_dom [OF xs(1)]
    by (intro exI [of _ "a # as"] conjI) (auto simp: sess_inv_def tab_sim_def intro!: same_profs_profs [symmetric, where A = UNIV])
  ultimately show ?thesis using head by (auto simp: sess_inv_def)
qed

theorem driver_switchDriver_ok_witness:
  "\<exists>s'. driver_switchDriver demo_session = Inr ((), s') \<and> active_driver (ses_tab s') = Some 0 \<and>
     exe_cmdline s' = [str ''drivers/d/d'', str ''___FILE___''] \<and> queue_wf (global (ses_run s'))"
  using driver_switchDriver_ok [of demo_session "demo_prof 7" "[demo_prof 9]"] demo_table_drivers demo_session_queue
  by (auto simp: demo_session_def demo_table_def entered_def argv_of_def seed_names_def demo_prof_def zero_prof_def
      demo_drivers_def)

text \<open>A session that was started without a driver runs the command line of the process, \<open>&argv[optind]\<close>. Its first switch
  frees this pointer, which is not from the heap.\<close>

theorem driver_switchDriver_bad_free:
  assumes "active_driver (ses_tab s) = None" and "driver_list_head (ses_tab s) = Some a" and "t_store (ses_tab s) a = Some d"
    and "ses_exists s (outdir_of (drv_prof d)) \<or> ses_mkdir s (outdir_of (drv_prof d))" and "\<not> exe_heap s"
  shows "driver_switchDriver s = Inl BadFree"
  using assms
  by (auto simp: driver_switchDriver_def driver_updateDrvStat_def drive_initOutput_def outdir_of_def drv_rd_def tabM_def zoom_def bnd_def
      gets_def ret_def check_def or_fault_def raise_def modH_def modify_def Let_def)

theorem driver_switchDriver_bad_free_witness: "driver_switchDriver (demo_session\<lparr>exe_heap := False\<rparr>) = Inl BadFree"
  by (rule driver_switchDriver_bad_free [where a = 0]) (simp_all add: demo_session_def demo_table_def)

text \<open>Giving the inputs of a driver priority moves exactly them to the front of the queue, the
  last one first, keeps the order of the others, makes the first input of the new queue the
  current one and changes nothing else, for every well-formed queue.\<close>

theorem driver_prioritizeSeeds_order:
  assumes "queue_wf (global (ses_run s))"
  defines "h \<equiv> global (ses_run s)"
  shows "driver_prioritizeSeeds no s =
    Inr ((), s\<lparr>ses_run := (ses_run s)\<lparr>global := h\<lparr>
      io_dynfileq := rev (filter (\<lambda>a. d_driver_id (the (io_store h a)) = no) (io_dynfileq h)) @
        filter (\<lambda>a. d_driver_id (the (io_store h a)) \<noteq> no) (io_dynfileq h),
      io_dynfileqCurrent := (case rev (filter (\<lambda>a. d_driver_id (the (io_store h a)) = no) (io_dynfileq h)) @
        filter (\<lambda>a. d_driver_id (the (io_store h a)) \<noteq> no) (io_dynfileq h) of [] \<Rightarrow> None | a # _ \<Rightarrow> Some a)\<rparr>\<rparr>\<rparr>)"
proof -
  have "distinct (io_dynfileq h)" "set (io_dynfileq h) \<subseteq> dom (io_store h)"
    using assms by (simp_all add: queue_wf_def store_ok_def)
  from prioritize_loop_queue [OF this, of no] show ?thesis
    by (simp add: driver_prioritizeSeeds_def bnd_def gets_def modH_def modify_def h_def seeds_first_def)
qed

theorem driver_prioritizeSeeds_order_witness:
  "\<exists>s'. driver_prioritizeSeeds 7 demo_session = Inr ((), s') \<and> io_dynfileq (global (ses_run s')) = [2, 1]"
  using driver_prioritizeSeeds_order [OF demo_session_queue, of 7]
  by (simp add: demo_session_def demo_drivers_def demo_input_def)

text \<open>C21: What loading does with a profile that was read and parsed, for every number: 0 and
  numbers above \<open>MAX_DRIVER\<close> end the process, a number from 1 to \<open>MAX_DRIVER - 1\<close> puts the
  driver in front of the list and takes over phase and edit mode, and a negative number or
  \<open>MAX_DRIVER\<close> itself, which the range check lets pass, indexes the table out of its bounds.\<close>

theorem drive_loadDriver_cases:
  assumes tab: "drivers t ps" and rds: "reads 0 = Some bs" "bs \<noteq> []"
    and prof: "drive_parseDriverProfile json_parse (cstr (take 1023 bs)) = Inr (Some prof)"
  shows "(if prof_id prof = 0 \<or> prof_id prof > int MAX_DRIVER
          then drive_loadDriver json_parse True reads t = Inl LogFatal
          else if prof_id prof < 0 \<or> prof_id prof = int MAX_DRIVER
          then drive_loadDriver json_parse True reads t = Inl OutOfBounds
          else \<exists>t'. drive_loadDriver json_parse True reads t = Inr (True, t') \<and> drivers t' (to_front prof ps) \<and>
                 t_current_phase t' = prof_phase prof \<and> t_inPlaceEdit t' = prof_in_place_edit prof)"
proof -
  have rd: "read_profile 3 reads 0 = Inr (take 1023 bs)" using rds by (cases bs) (simp_all add: read_profile.simps)
  have sel: "drivers (u\<lparr>t_current_phase := x, t_inPlaceEdit := y\<rparr>) qs = drivers u qs" for u x y qs
    by (simp add: drivers_def tab_wf_def tab_links_def profs_def)
  consider "prof_id prof = 0 \<or> prof_id prof > int MAX_DRIVER" | "prof_id prof < 0 \<or> prof_id prof = int MAX_DRIVER"
    | "0 < prof_id prof" "prof_id prof < int MAX_DRIVER" by linarith
  then show ?thesis
  proof cases
    case 3
    then obtain t' where "drive_addDriver (zero_driver prof) t = Inr (True, t')" "drivers t' (to_front prof ps)"
      using add_driver [OF tab, of "zero_driver prof"] by (auto simp: zero_driver_def)
    with 3 rd prof show ?thesis by (auto simp: drive_loadDriver_def bnd_def modify_def ret_def sel)
  qed (use rd prof in \<open>auto simp: drive_loadDriver_def raise_def bnd_def drive_addDriver_def check_def zero_driver_def MAX_DRIVER_def\<close>)
qed

theorem drive_loadDriver_cases_witness:
  "drive_loadDriver (\<lambda>_. Some (demo_json 8192)) True (\<lambda>_. Some [123]) demo_table = Inl OutOfBounds"
proof -
  obtain prof where "drive_parseDriverProfile (\<lambda>_. Some (demo_json 8192)) (cstr (take 1023 [123])) = Inr (Some prof)"
    "prof_id prof = int MAX_DRIVER"
    using demo_parse [of 8192] by (auto simp: MAX_DRIVER_def)
  with drive_loadDriver_cases [OF demo_table_drivers _ _ this(1), of "\<lambda>_. Some [123]"] show ?thesis
    by (simp add: MAX_DRIVER_def)
qed

end
