(* ===== verification/HF_MemCmp.thy ===== *)
theory HF_MemCmp
  imports HF_Instrument_Props HF_Input
begin

text \<open>
  \<open>honggfuzz/libhfuzz/memorycmp.c\<close>: replacements of the comparison, search and copy functions of
  libc and of several libraries. They compute what the original computes and report to the
  fuzzer how far a comparison got, and the constant strings that took part.

  A pointer is its address with the bytes that can be accessed from there on; reading past them
  is the fault \<open>OutOfBounds\<close>. A function that returns a pointer into its first argument returns the
  offset. The copy functions take the bytes of the destination and return the new ones;
  source and destination do not overlap, as C requires. \<open>ra\<close> is the address of the caller.
\<close>

section \<open>Pointers and characters\<close>

record cptr =
  ptr_addr :: u64
  ptr_bytes :: "byte list"

definition ptr_add :: "cptr \<Rightarrow> nat \<Rightarrow> cptr" where
  "ptr_add p k = \<lparr>ptr_addr = ptr_addr p + of_nat k, ptr_bytes = drop k (ptr_bytes p)\<rparr>"

definition byte_at :: "cptr \<Rightarrow> nat \<Rightarrow> ('s, byte) hm" where
  "byte_at p i = or_fault OutOfBounds (buf_get (ptr_bytes p) i)"

text \<open>\<open>tolower\<close> and \<open>toupper\<close> in the C locale.\<close>

definition tolower :: "int \<Rightarrow> int" where
  "tolower c = (if 65 \<le> c \<and> c \<le> 90 then c + 32 else c)"

definition toupper :: "int \<Rightarrow> int" where
  "toupper c = (if 97 \<le> c \<and> c \<le> 122 then c - 32 else c)"

section \<open>Comparisons\<close>

definition HF_cmphash :: "dl_phdr_info list \<Rightarrow> u64 \<Rightarrow> cptr \<Rightarrow> cptr \<Rightarrow> u64" where
  "HF_cmphash im addr s1 s2 =
     (let addr = (if util_getProgAddr im (ptr_addr s1) \<noteq> LHFC_ADDR_NOTFOUND
                  then addr XOR push_bit 1 (ptr_addr s1) else addr)
      in if util_getProgAddr im (ptr_addr s2) \<noteq> LHFC_ADDR_NOTFOUND
         then addr XOR push_bit 2 (ptr_addr s2) else addr)"

definition note_prefix :: "u64 \<Rightarrow> cptr \<Rightarrow> cptr \<Rightarrow> nat \<Rightarrow> (instr_t, unit) hm" where
  "note_prefix addr s1 s2 i =
     bnd (gets ins_image) (\<lambda>im.
     bnd (instrumentUpdateCmpMap (HF_cmphash im addr s1 s2) (of_nat i)) (\<lambda>_. ret ()))"

text \<open>The loop of \<open>HF_strcmp\<close> and, with a conversion of the characters, of \<open>HF_strcasecmp\<close>: the index
  of the first difference or of the end.\<close>

fun str_scan :: "(int \<Rightarrow> int) \<Rightarrow> byte list \<Rightarrow> byte list \<Rightarrow> nat \<Rightarrow> fault + nat" where
  "str_scan cv (a # as) (b # bs) i =
     (if cv (uint a) = cv (uint b) \<and> \<not> (a = 0 \<or> b = 0) then str_scan cv as bs (i + 1) else Inr i)"
| "str_scan cv _ _ i = Inl OutOfBounds"

text \<open>The loops with a limit: over strings, and over memory (\<open>HF_memcmp\<close>, where 0 is not special).\<close>

fun strn_scan :: "(int \<Rightarrow> int) \<Rightarrow> bool \<Rightarrow> nat \<Rightarrow> byte list \<Rightarrow> byte list \<Rightarrow> nat \<Rightarrow> fault + nat" where
  "strn_scan cv nul 0 as bs i = Inr i"
| "strn_scan cv nul (Suc n) (a # as) (b # bs) i =
     (if cv (uint a) \<noteq> cv (uint b) \<or> (nul \<and> (a = 0 \<or> b = 0)) then Inr i
      else strn_scan cv nul n as bs (i + 1))"
| "strn_scan cv nul (Suc n) _ _ i = Inl OutOfBounds"

definition lift_scan :: "fault + 'a \<Rightarrow> ('s, 'a) hm" where
  "lift_scan r = (case r of Inl e \<Rightarrow> raise e | Inr v \<Rightarrow> ret v)"

definition HF_strcmp :: "cptr \<Rightarrow> cptr \<Rightarrow> u64 \<Rightarrow> (instr_t, int) hm" where
  "HF_strcmp s1 s2 addr =
     bnd (lift_scan (str_scan (\<lambda>c. c) (ptr_bytes s1) (ptr_bytes s2) 0)) (\<lambda>i.
     bnd (note_prefix addr s1 s2 i) (\<lambda>_.
     bnd (instrumentAddConstStr (ptr_addr s1) (ptr_bytes s1)) (\<lambda>_.
     bnd (instrumentAddConstStr (ptr_addr s2) (ptr_bytes s2)) (\<lambda>_.
     bnd (byte_at s1 i) (\<lambda>a. bnd (byte_at s2 i) (\<lambda>b. ret (uint a - uint b)))))))"

definition HF_strcasecmp :: "cptr \<Rightarrow> cptr \<Rightarrow> (int \<Rightarrow> int) \<Rightarrow> u64 \<Rightarrow> (instr_t, int) hm" where
  "HF_strcasecmp s1 s2 cmp_func addr =
     bnd (lift_scan (str_scan cmp_func (ptr_bytes s1) (ptr_bytes s2) 0)) (\<lambda>i.
     bnd (note_prefix addr s1 s2 i) (\<lambda>_.
     bnd (instrumentAddConstStr (ptr_addr s1) (ptr_bytes s1)) (\<lambda>_.
     bnd (instrumentAddConstStr (ptr_addr s2) (ptr_bytes s2)) (\<lambda>_.
     bnd (byte_at s1 i) (\<lambda>a. bnd (byte_at s2 i) (\<lambda>b. ret (cmp_func (uint a) - cmp_func (uint b))))))))"

text \<open>The result after \<open>i\<close> of at most \<open>n\<close> steps.\<close>

definition cmp_result :: "(int \<Rightarrow> int) \<Rightarrow> cptr \<Rightarrow> cptr \<Rightarrow> nat \<Rightarrow> nat \<Rightarrow> (instr_t, int) hm" where
  "cmp_result cv s1 s2 n i =
     (if i = n then ret 0
      else bnd (byte_at s1 i) (\<lambda>a. bnd (byte_at s2 i) (\<lambda>b. ret (cv (uint a) - cv (uint b)))))"

definition HF_strncmp :: "cptr \<Rightarrow> cptr \<Rightarrow> nat \<Rightarrow> bool \<Rightarrow> u64 \<Rightarrow> (instr_t, int) hm" where
  "HF_strncmp s1 s2 n constfb addr =
     bnd (lift_scan (strn_scan (\<lambda>c. c) True n (ptr_bytes s1) (ptr_bytes s2) 0)) (\<lambda>i.
     bnd (note_prefix addr s1 s2 i) (\<lambda>_.
     bnd (if constfb
          then bnd (instrumentAddConstStrN (ptr_addr s1) (ptr_bytes s1) n) (\<lambda>_.
               instrumentAddConstStrN (ptr_addr s2) (ptr_bytes s2) n)
          else ret ()) (\<lambda>_.
     cmp_result (\<lambda>c. c) s1 s2 n i)))"

definition HF_strncasecmp :: "cptr \<Rightarrow> cptr \<Rightarrow> nat \<Rightarrow> (int \<Rightarrow> int) \<Rightarrow> bool \<Rightarrow> u64 \<Rightarrow> (instr_t, int) hm" where
  "HF_strncasecmp s1 s2 n cmp_func constfb addr =
     bnd (lift_scan (strn_scan cmp_func True n (ptr_bytes s1) (ptr_bytes s2) 0)) (\<lambda>i.
     bnd (note_prefix addr s1 s2 i) (\<lambda>_.
     bnd (if constfb
          then bnd (instrumentAddConstStrN (ptr_addr s1) (ptr_bytes s1) n) (\<lambda>_.
               instrumentAddConstStrN (ptr_addr s2) (ptr_bytes s2) n)
          else ret ()) (\<lambda>_.
     cmp_result cmp_func s1 s2 n i)))"

definition HF_memcmp :: "cptr \<Rightarrow> cptr \<Rightarrow> nat \<Rightarrow> bool \<Rightarrow> u64 \<Rightarrow> (instr_t, int) hm" where
  "HF_memcmp m1 m2 n constfb addr =
     bnd (lift_scan (strn_scan (\<lambda>c. c) False n (ptr_bytes m1) (ptr_bytes m2) 0)) (\<lambda>i.
     bnd (note_prefix addr m1 m2 i) (\<lambda>_.
     bnd (if constfb
          then bnd (instrumentAddConstMem (ptr_addr m1) (ptr_bytes m1) n True) (\<lambda>_.
               instrumentAddConstMem (ptr_addr m2) (ptr_bytes m2) n True)
          else ret ()) (\<lambda>_.
     cmp_result (\<lambda>c. c) m1 m2 n i)))"

section \<open>Searches\<close>

text \<open>\<open>strchr\<close> for a character that is not 0: its offset, if it is in the string.\<close>

fun strchr_off :: "byte \<Rightarrow> byte list \<Rightarrow> fault + nat option" where
  "strchr_off c [] = Inl OutOfBounds"
| "strchr_off c (b # bs) =
     (if b = c then Inr (Some 0)
      else if b = 0 then Inr None
      else case strchr_off c bs of Inr (Some k) \<Rightarrow> Inr (Some (k + 1)) | r \<Rightarrow> r)"

lemma strchr_off_less: "strchr_off c bs = Inr (Some j) \<Longrightarrow> j < length bs"
  by (induction bs arbitrary: j) (auto split: if_splits sum.splits option.splits)

function strstr_loop :: "cptr \<Rightarrow> cptr \<Rightarrow> nat \<Rightarrow> byte \<Rightarrow> u64 \<Rightarrow> nat \<Rightarrow> (instr_t, nat option) hm" where
  "strstr_loop haystack needle needle_len c addr k =
     (case strchr_off c (drop k (ptr_bytes haystack)) of
        Inl e \<Rightarrow> raise e
      | Inr None \<Rightarrow> ret None
      | Inr (Some j) \<Rightarrow>
          bnd (HF_strncmp (ptr_add haystack (k + j)) needle needle_len False addr) (\<lambda>r.
          if r = 0 then ret (Some (k + j)) else strstr_loop haystack needle needle_len c addr (k + j + 1)))"
  by pat_completeness auto
termination
  by (relation "measure (\<lambda>(h, nd, nl, c, ad, k). length (ptr_bytes h) - k)") (auto dest!: strchr_off_less)

declare strstr_loop.simps [simp del]

definition HF_strstr :: "cptr \<Rightarrow> cptr \<Rightarrow> u64 \<Rightarrow> (instr_t, nat option) hm" where
  "HF_strstr haystack needle addr =
     bnd (strlenM (ptr_bytes needle)) (\<lambda>needle_len.
     if needle_len = 0 then ret (Some 0)
     else
       bnd (instrumentAddConstStr (ptr_addr needle) (ptr_bytes needle)) (\<lambda>_.
       bnd (byte_at needle 0) (\<lambda>c.
       strstr_loop haystack needle needle_len c addr 0)))"

function strcasestr_loop :: "cptr \<Rightarrow> cptr \<Rightarrow> nat \<Rightarrow> (int \<Rightarrow> int) \<Rightarrow> u64 \<Rightarrow> nat \<Rightarrow> (instr_t, nat option) hm" where
  "strcasestr_loop haystack needle needle_len cmp_func addr i =
     (if i \<ge> length (ptr_bytes haystack) then raise OutOfBounds
      else if ptr_bytes haystack ! i = 0 then ret None
      else
        bnd (HF_strncasecmp (ptr_add haystack i) needle needle_len cmp_func False addr) (\<lambda>r.
        if r = 0 then ret (Some i) else strcasestr_loop haystack needle needle_len cmp_func addr (i + 1)))"
  by pat_completeness auto
termination
  by (relation "measure (\<lambda>(h, nd, nl, f, ad, i). length (ptr_bytes h) - i)") auto

declare strcasestr_loop.simps [simp del]

definition HF_strcasestr :: "cptr \<Rightarrow> cptr \<Rightarrow> (int \<Rightarrow> int) \<Rightarrow> u64 \<Rightarrow> (instr_t, nat option) hm" where
  "HF_strcasestr haystack needle cmp_func addr =
     bnd (strlenM (ptr_bytes needle)) (\<lambda>needle_len.
     if needle_len = 0 then ret (Some 0)
     else
       bnd (instrumentAddConstStr (ptr_addr needle) (ptr_bytes needle)) (\<lambda>_.
       strcasestr_loop haystack needle needle_len cmp_func addr 0))"

function memmem_loop :: "cptr \<Rightarrow> nat \<Rightarrow> cptr \<Rightarrow> nat \<Rightarrow> u64 \<Rightarrow> nat \<Rightarrow> (instr_t, nat option) hm" where
  "memmem_loop haystack haystacklen needle needlelen addr i =
     (if i > haystacklen - needlelen then ret None
      else
        bnd (HF_memcmp (ptr_add haystack i) needle needlelen False addr) (\<lambda>r.
        if r = 0 then ret (Some i) else memmem_loop haystack haystacklen needle needlelen addr (i + 1)))"
  by pat_completeness auto
termination
  by (relation "measure (\<lambda>(h, hl, nd, nl, ad, i). Suc (hl - nl) - i)") auto

declare memmem_loop.simps [simp del]

definition HF_memmem :: "cptr \<Rightarrow> nat \<Rightarrow> cptr \<Rightarrow> nat \<Rightarrow> u64 \<Rightarrow> (instr_t, nat option) hm" where
  "HF_memmem haystack haystacklen needle needlelen addr =
     (if needlelen > haystacklen then ret None
      else if needlelen = 0 then ret (Some 0)
      else
        bnd (instrumentAddConstMem (ptr_addr needle) (ptr_bytes needle) needlelen True) (\<lambda>_.
        memmem_loop haystack haystacklen needle needlelen addr 0))"

section \<open>Copies\<close>

text \<open>\<open>off\<close> is the offset of the pointer in the destination; the result is the returned offset
  and the new bytes.\<close>

definition HF_strcpy :: "byte list \<Rightarrow> nat \<Rightarrow> cptr \<Rightarrow> u64 \<Rightarrow> (instr_t, nat \<times> byte list) hm" where
  "HF_strcpy dest off src addr =
     bnd (strlenM (ptr_bytes src)) (\<lambda>len.
     bnd (if len > 0
          then bnd (lift_scan (util_Log2 len)) (\<lambda>v. bnd (instrumentUpdateCmpMap addr (of_nat v)) (\<lambda>_. ret ())) else ret ()) (\<lambda>_.
     bnd (or_fault OutOfBounds (buf_write dest off (take (len + 1) (ptr_bytes src)))) (\<lambda>dest.
     ret (off, dest))))"

definition HF_strcat :: "byte list \<Rightarrow> cptr \<Rightarrow> u64 \<Rightarrow> (instr_t, nat \<times> byte list) hm" where
  "HF_strcat dest src addr =
     bnd (strlenM dest) (\<lambda>len. HF_strcpy dest len src addr)"

definition HF_strlcpy :: "byte list \<Rightarrow> nat \<Rightarrow> cptr \<Rightarrow> nat \<Rightarrow> u64 \<Rightarrow> (instr_t, nat \<times> byte list) hm" where
  "HF_strlcpy dest off src sz addr =
     bnd (strlenM (ptr_bytes src)) (\<lambda>slen.
     let len = (if sz < slen then sz else slen)
     in if sz = 0 then ret (0, dest)
        else
          let len = (if len = sz then len - 1 else len)
          in bnd (if len > 0
                  then bnd (lift_scan (util_Log2 len)) (\<lambda>v. bnd (instrumentUpdateCmpMap addr (of_nat v)) (\<lambda>_.
                       or_fault OutOfBounds (buf_write dest off (take len (ptr_bytes src)))))
                  else ret dest) (\<lambda>dest.
             bnd (or_fault OutOfBounds (buf_write dest (off + len) [0])) (\<lambda>dest.
             ret (slen, dest))))"

definition HF_strlcat :: "byte list \<Rightarrow> cptr \<Rightarrow> nat \<Rightarrow> u64 \<Rightarrow> (instr_t, nat \<times> byte list) hm" where
  "HF_strlcat dest src sz addr =
     bnd (strlenM dest) (\<lambda>dstlen.
     if dstlen \<ge> sz then bnd (strlenM (ptr_bytes src)) (\<lambda>n. ret (dstlen + n, dest))
     else
       let left = sz - dstlen
       in bnd (HF_strlcpy dest dstlen src left addr) (\<lambda>(r, dest). ret (dstlen + r, dest)))"

section \<open>Wrappers of libc functions\<close>

definition wrap_strcmp :: "u64 \<Rightarrow> cptr \<Rightarrow> cptr \<Rightarrow> (instr_t, int) hm" where
  "wrap_strcmp ra s1 s2 =
     HF_strcmp s1 s2 ra"

definition weak_hook_strcmp :: "u64 \<Rightarrow> cptr \<Rightarrow> cptr \<Rightarrow> (instr_t, unit) hm" where
  "weak_hook_strcmp pc s1 s2 =
     bnd (HF_strcmp s1 s2 pc) (\<lambda>_. ret ())"

definition wrap_strcasecmp :: "u64 \<Rightarrow> cptr \<Rightarrow> cptr \<Rightarrow> (instr_t, int) hm" where
  "wrap_strcasecmp ra s1 s2 =
     HF_strcasecmp s1 s2 tolower ra"

definition weak_hook_strcasecmp :: "u64 \<Rightarrow> cptr \<Rightarrow> cptr \<Rightarrow> (instr_t, unit) hm" where
  "weak_hook_strcasecmp pc s1 s2 =
     bnd (HF_strcasecmp s1 s2 tolower pc) (\<lambda>_. ret ())"

definition wrap_stricmp :: "u64 \<Rightarrow> cptr \<Rightarrow> cptr \<Rightarrow> (instr_t, int) hm" where
  "wrap_stricmp ra s1 s2 =
     HF_strcasecmp s1 s2 tolower ra"

definition weak_hook_stricmp :: "u64 \<Rightarrow> cptr \<Rightarrow> cptr \<Rightarrow> (instr_t, unit) hm" where
  "weak_hook_stricmp pc s1 s2 =
     bnd (HF_strcasecmp s1 s2 tolower pc) (\<lambda>_. ret ())"

definition wrap_strncmp :: "u64 \<Rightarrow> cptr \<Rightarrow> cptr \<Rightarrow> nat \<Rightarrow> (instr_t, int) hm" where
  "wrap_strncmp ra s1 s2 n =
     bnd instrumentConstAvail (\<lambda>c. HF_strncmp s1 s2 n c ra)"

definition weak_hook_strncmp :: "u64 \<Rightarrow> cptr \<Rightarrow> cptr \<Rightarrow> nat \<Rightarrow> (instr_t, unit) hm" where
  "weak_hook_strncmp pc s1 s2 n =
     bnd (bnd instrumentConstAvail (\<lambda>c. HF_strncmp s1 s2 n c pc)) (\<lambda>_. ret ())"

definition wrap_strncasecmp :: "u64 \<Rightarrow> cptr \<Rightarrow> cptr \<Rightarrow> nat \<Rightarrow> (instr_t, int) hm" where
  "wrap_strncasecmp ra s1 s2 n =
     bnd instrumentConstAvail (\<lambda>c. HF_strncasecmp s1 s2 n tolower c ra)"

definition weak_hook_strncasecmp :: "u64 \<Rightarrow> cptr \<Rightarrow> cptr \<Rightarrow> nat \<Rightarrow> (instr_t, unit) hm" where
  "weak_hook_strncasecmp pc s1 s2 n =
     bnd (bnd instrumentConstAvail (\<lambda>c. HF_strncasecmp s1 s2 n tolower c pc)) (\<lambda>_. ret ())"

definition wrap_strnicmp :: "u64 \<Rightarrow> cptr \<Rightarrow> cptr \<Rightarrow> nat \<Rightarrow> (instr_t, int) hm" where
  "wrap_strnicmp ra s1 s2 n =
     bnd instrumentConstAvail (\<lambda>c. HF_strncasecmp s1 s2 n tolower c ra)"

definition weak_hook_strnicmp :: "u64 \<Rightarrow> cptr \<Rightarrow> cptr \<Rightarrow> nat \<Rightarrow> (instr_t, unit) hm" where
  "weak_hook_strnicmp pc s1 s2 n =
     bnd (bnd instrumentConstAvail (\<lambda>c. HF_strncasecmp s1 s2 n tolower c pc)) (\<lambda>_. ret ())"

definition wrap_strstr :: "u64 \<Rightarrow> cptr \<Rightarrow> cptr \<Rightarrow> (instr_t, nat option) hm" where
  "wrap_strstr ra haystack needle =
     HF_strstr haystack needle ra"

definition weak_hook_strstr :: "u64 \<Rightarrow> cptr \<Rightarrow> cptr \<Rightarrow> (instr_t, unit) hm" where
  "weak_hook_strstr pc haystack needle =
     bnd (HF_strstr haystack needle pc) (\<lambda>_. ret ())"

definition wrap_strcasestr :: "u64 \<Rightarrow> cptr \<Rightarrow> cptr \<Rightarrow> (instr_t, nat option) hm" where
  "wrap_strcasestr ra haystack needle =
     HF_strcasestr haystack needle tolower ra"

definition weak_hook_strcasestr :: "u64 \<Rightarrow> cptr \<Rightarrow> cptr \<Rightarrow> (instr_t, unit) hm" where
  "weak_hook_strcasestr pc haystack needle =
     bnd (HF_strcasestr haystack needle tolower pc) (\<lambda>_. ret ())"

definition wrap_memcmp :: "u64 \<Rightarrow> cptr \<Rightarrow> cptr \<Rightarrow> nat \<Rightarrow> (instr_t, int) hm" where
  "wrap_memcmp ra s1 s2 n =
     bnd instrumentConstAvail (\<lambda>c. HF_memcmp s1 s2 n c ra)"

definition weak_hook_memcmp :: "u64 \<Rightarrow> cptr \<Rightarrow> cptr \<Rightarrow> nat \<Rightarrow> (instr_t, unit) hm" where
  "weak_hook_memcmp pc s1 s2 n =
     bnd (bnd instrumentConstAvail (\<lambda>c. HF_memcmp s1 s2 n c pc)) (\<lambda>_. ret ())"

definition wrap_bcmp :: "u64 \<Rightarrow> cptr \<Rightarrow> cptr \<Rightarrow> nat \<Rightarrow> (instr_t, int) hm" where
  "wrap_bcmp ra s1 s2 n =
     bnd instrumentConstAvail (\<lambda>c. HF_memcmp s1 s2 n c ra)"

definition weak_hook_bcmp :: "u64 \<Rightarrow> cptr \<Rightarrow> cptr \<Rightarrow> nat \<Rightarrow> (instr_t, unit) hm" where
  "weak_hook_bcmp pc s1 s2 n =
     bnd (bnd instrumentConstAvail (\<lambda>c. HF_memcmp s1 s2 n c pc)) (\<lambda>_. ret ())"

definition wrap_memmem :: "u64 \<Rightarrow> cptr \<Rightarrow> nat \<Rightarrow> cptr \<Rightarrow> nat \<Rightarrow> (instr_t, nat option) hm" where
  "wrap_memmem ra haystack hlen needle nlen =
     HF_memmem haystack hlen needle nlen ra"

definition weak_hook_memmem :: "u64 \<Rightarrow> cptr \<Rightarrow> nat \<Rightarrow> cptr \<Rightarrow> nat \<Rightarrow> (instr_t, unit) hm" where
  "weak_hook_memmem pc haystack hlen needle nlen =
     bnd (HF_memmem haystack hlen needle nlen pc) (\<lambda>_. ret ())"

definition wrap_strcpy :: "u64 \<Rightarrow> byte list \<Rightarrow> cptr \<Rightarrow> (instr_t, nat \<times> byte list) hm" where
  "wrap_strcpy ra dest src =
     HF_strcpy dest 0 src ra"

definition weak_hook_strcpy :: "u64 \<Rightarrow> byte list \<Rightarrow> cptr \<Rightarrow> (instr_t, byte list) hm" where
  "weak_hook_strcpy pc dest src =
     bnd (HF_strcpy dest 0 src pc) (\<lambda>(r, dest). ret dest)"

definition wrap_strcat :: "u64 \<Rightarrow> byte list \<Rightarrow> cptr \<Rightarrow> (instr_t, nat \<times> byte list) hm" where
  "wrap_strcat ra dest src =
     HF_strcat dest src ra"

definition weak_hook_strcat :: "u64 \<Rightarrow> byte list \<Rightarrow> cptr \<Rightarrow> (instr_t, byte list) hm" where
  "weak_hook_strcat pc dest src =
     bnd (HF_strcat dest src pc) (\<lambda>(r, dest). ret dest)"

definition wrap_strlcpy :: "u64 \<Rightarrow> byte list \<Rightarrow> cptr \<Rightarrow> nat \<Rightarrow> (instr_t, nat \<times> byte list) hm" where
  "wrap_strlcpy ra dest src len =
     HF_strlcpy dest 0 src len ra"

definition weak_hook_strlcpy :: "u64 \<Rightarrow> byte list \<Rightarrow> cptr \<Rightarrow> nat \<Rightarrow> (instr_t, byte list) hm" where
  "weak_hook_strlcpy pc dest src sz =
     bnd (HF_strlcpy dest 0 src sz pc) (\<lambda>(r, dest). ret dest)"

definition wrap_strlcat :: "u64 \<Rightarrow> byte list \<Rightarrow> cptr \<Rightarrow> nat \<Rightarrow> (instr_t, nat \<times> byte list) hm" where
  "wrap_strlcat ra dest src len =
     HF_strlcat dest src len ra"

definition weak_hook_strlcat :: "u64 \<Rightarrow> byte list \<Rightarrow> cptr \<Rightarrow> nat \<Rightarrow> (instr_t, byte list) hm" where
  "weak_hook_strlcat pc dest src sz =
     bnd (HF_strlcat dest src sz pc) (\<lambda>(r, dest). ret dest)"

section \<open>Wrappers of library functions\<close>

text \<open>Apache httpd.\<close>

definition ap_cstr_casecmp :: "u64 \<Rightarrow> cptr \<Rightarrow> cptr \<Rightarrow> (instr_t, int) hm" where
  "ap_cstr_casecmp ra s1 s2 =
     HF_strcasecmp s1 s2 tolower ra"

definition ap_cstr_casecmpn :: "u64 \<Rightarrow> cptr \<Rightarrow> cptr \<Rightarrow> nat \<Rightarrow> (instr_t, int) hm" where
  "ap_cstr_casecmpn ra s1 s2 n =
     bnd instrumentConstAvail (\<lambda>c. HF_strncasecmp s1 s2 n tolower c ra)"

definition ap_strcasestr :: "u64 \<Rightarrow> cptr \<Rightarrow> cptr \<Rightarrow> (instr_t, nat option) hm" where
  "ap_strcasestr ra s1 s2 =
     HF_strcasestr s1 s2 tolower ra"

definition apr_cstr_casecmp :: "u64 \<Rightarrow> cptr \<Rightarrow> cptr \<Rightarrow> (instr_t, int) hm" where
  "apr_cstr_casecmp ra s1 s2 =
     HF_strcasecmp s1 s2 tolower ra"

definition apr_cstr_casecmpn :: "u64 \<Rightarrow> cptr \<Rightarrow> cptr \<Rightarrow> nat \<Rightarrow> (instr_t, int) hm" where
  "apr_cstr_casecmpn ra s1 s2 n =
     bnd instrumentConstAvail (\<lambda>c. HF_strncasecmp s1 s2 n tolower c ra)"

text \<open>SSL libraries.\<close>

definition CRYPTO_memcmp :: "u64 \<Rightarrow> cptr \<Rightarrow> cptr \<Rightarrow> nat \<Rightarrow> (instr_t, int) hm" where
  "CRYPTO_memcmp ra s1 s2 n =
     bnd instrumentConstAvail (\<lambda>c. HF_memcmp s1 s2 n c ra)"

definition OPENSSL_memcmp :: "u64 \<Rightarrow> cptr \<Rightarrow> cptr \<Rightarrow> nat \<Rightarrow> (instr_t, int) hm" where
  "OPENSSL_memcmp ra s1 s2 n =
     bnd instrumentConstAvail (\<lambda>c. HF_memcmp s1 s2 n c ra)"

definition OPENSSL_strcasecmp :: "u64 \<Rightarrow> cptr \<Rightarrow> cptr \<Rightarrow> (instr_t, int) hm" where
  "OPENSSL_strcasecmp ra s1 s2 =
     HF_strcasecmp s1 s2 tolower ra"

definition OPENSSL_strncasecmp :: "u64 \<Rightarrow> cptr \<Rightarrow> cptr \<Rightarrow> nat \<Rightarrow> (instr_t, int) hm" where
  "OPENSSL_strncasecmp ra s1 s2 n =
     bnd instrumentConstAvail (\<lambda>c. HF_strncasecmp s1 s2 n tolower c ra)"

definition memcmpct :: "u64 \<Rightarrow> cptr \<Rightarrow> cptr \<Rightarrow> nat \<Rightarrow> (instr_t, int) hm" where
  "memcmpct ra s1 s2 n =
     bnd instrumentConstAvail (\<lambda>c. HF_memcmp s1 s2 n c ra)"

text \<open>libXML. A null pointer is \<open>None\<close>; \<open>ptr_eq\<close> compares addresses. A signed length is an \<open>int\<close>.\<close>

definition xml_to_upper :: "int \<Rightarrow> int" where
  "xml_to_upper c = (if c \<ge> 97 \<and> c \<le> 122 then c - 97 + 65 else c)"

definition ptr_eq :: "cptr option \<Rightarrow> cptr option \<Rightarrow> bool" where
  "ptr_eq p q \<longleftrightarrow> map_option ptr_addr p = map_option ptr_addr q"

text \<open>The checks of null pointers that several wrappers share.\<close>

definition null_cmp :: "cptr option \<Rightarrow> cptr option \<Rightarrow> (cptr \<Rightarrow> cptr \<Rightarrow> (instr_t, int) hm) \<Rightarrow> (instr_t, int) hm" where
  "null_cmp s1 s2 f =
     (if ptr_eq s1 s2 then ret 0
      else case s1 of None \<Rightarrow> ret (- 1) | Some p1 \<Rightarrow> (case s2 of None \<Rightarrow> ret 1 | Some p2 \<Rightarrow> f p1 p2))"

definition null_or :: "'a \<Rightarrow> cptr option \<Rightarrow> cptr option \<Rightarrow> (cptr \<Rightarrow> cptr \<Rightarrow> (instr_t, 'a) hm) \<Rightarrow> (instr_t, 'a) hm" where
  "null_or v s1 s2 f = (case s1 of None \<Rightarrow> ret v | Some p1 \<Rightarrow> (case s2 of None \<Rightarrow> ret v | Some p2 \<Rightarrow> f p1 p2))"

definition xmlStrncmp :: "u64 \<Rightarrow> cptr option \<Rightarrow> cptr option \<Rightarrow> int \<Rightarrow> (instr_t, int) hm" where
  "xmlStrncmp ra s1 s2 len =
     (if len \<le> 0 then ret 0
      else null_cmp s1 s2 (\<lambda>p1 p2. bnd instrumentConstAvail (\<lambda>c. HF_strncmp p1 p2 (nat len) c ra)))"

definition xmlStrcmp :: "u64 \<Rightarrow> cptr option \<Rightarrow> cptr option \<Rightarrow> (instr_t, int) hm" where
  "xmlStrcmp ra s1 s2 =
     null_cmp s1 s2 (\<lambda>p1 p2. HF_strcmp p1 p2 ra)"

definition xmlStrEqual :: "u64 \<Rightarrow> cptr option \<Rightarrow> cptr option \<Rightarrow> (instr_t, int) hm" where
  "xmlStrEqual ra s1 s2 =
     (if ptr_eq s1 s2 then ret 1
      else null_or 0 s1 s2 (\<lambda>p1 p2. bnd (HF_strcmp p1 p2 ra) (\<lambda>r. ret (if r = 0 then 1 else 0))))"

definition xmlStrcasecmp :: "u64 \<Rightarrow> cptr option \<Rightarrow> cptr option \<Rightarrow> (instr_t, int) hm" where
  "xmlStrcasecmp ra s1 s2 =
     null_cmp s1 s2 (\<lambda>p1 p2. HF_strcasecmp p1 p2 xml_to_upper ra)"

definition xmlStrncasecmp :: "u64 \<Rightarrow> cptr option \<Rightarrow> cptr option \<Rightarrow> int \<Rightarrow> (instr_t, int) hm" where
  "xmlStrncasecmp ra s1 s2 len =
     (if len \<le> 0 then ret 0
      else null_cmp s1 s2 (\<lambda>p1 p2. bnd instrumentConstAvail (\<lambda>c. HF_strncasecmp p1 p2 (nat len) xml_to_upper c ra)))"

definition xmlStrstr :: "u64 \<Rightarrow> cptr option \<Rightarrow> cptr option \<Rightarrow> (instr_t, nat option) hm" where
  "xmlStrstr ra haystack needle =
     null_or None haystack needle (\<lambda>h n. HF_strstr h n ra)"

definition xmlStrcasestr :: "u64 \<Rightarrow> cptr option \<Rightarrow> cptr option \<Rightarrow> (instr_t, nat option) hm" where
  "xmlStrcasestr ra haystack needle =
     null_or None haystack needle (\<lambda>h n. HF_strcasestr h n xml_to_upper ra)"

text \<open>Samba and LittleCMS.\<close>

definition memcmp_const_time :: "u64 \<Rightarrow> cptr \<Rightarrow> cptr \<Rightarrow> nat \<Rightarrow> (instr_t, int) hm" where
  "memcmp_const_time ra s1 s2 n =
     bnd instrumentConstAvail (\<lambda>c. HF_memcmp s1 s2 n c ra)"

definition strcsequal :: "u64 \<Rightarrow> cptr option \<Rightarrow> cptr option \<Rightarrow> (instr_t, bool) hm" where
  "strcsequal ra s1 s2 =
     (if ptr_eq s1 s2 then ret True
      else null_or False s1 s2 (\<lambda>p1 p2. bnd (HF_strcmp p1 p2 ra) (\<lambda>r. ret (r = 0))))"

definition cmsstrcasecmp :: "u64 \<Rightarrow> cptr \<Rightarrow> cptr \<Rightarrow> (instr_t, int) hm" where
  "cmsstrcasecmp ra s1 s2 =
     HF_strcasecmp s1 s2 toupper ra"

text \<open>GLib. \<open>g_strncasecmp\<close> converts its signed length to \<open>size_t\<close>.\<close>

definition g_strcmp0 :: "u64 \<Rightarrow> cptr option \<Rightarrow> cptr option \<Rightarrow> (instr_t, int) hm" where
  "g_strcmp0 ra s1 s2 =
     (case s1 of None \<Rightarrow> ret (if ptr_eq s1 s2 then 0 else - 1)
      | Some p1 \<Rightarrow> (case s2 of None \<Rightarrow> ret (if ptr_eq s1 s2 then 0 else 1) | Some p2 \<Rightarrow> HF_strcmp p1 p2 ra))"

definition g_strcasecmp :: "u64 \<Rightarrow> cptr option \<Rightarrow> cptr option \<Rightarrow> (instr_t, int) hm" where
  "g_strcasecmp ra s1 s2 =
     null_or 0 s1 s2 (\<lambda>p1 p2. HF_strcasecmp p1 p2 tolower ra)"

definition g_strncasecmp :: "u64 \<Rightarrow> cptr option \<Rightarrow> cptr option \<Rightarrow> int \<Rightarrow> (instr_t, int) hm" where
  "g_strncasecmp ra s1 s2 n =
     null_or 0 s1 s2 (\<lambda>p1 p2. bnd instrumentConstAvail (\<lambda>c. HF_strncasecmp p1 p2 (nat (n mod 2 ^ 64)) tolower c ra))"

definition g_strstr_len :: "u64 \<Rightarrow> cptr option \<Rightarrow> int \<Rightarrow> cptr option \<Rightarrow> (instr_t, nat option) hm" where
  "g_strstr_len ra haystack haystack_len needle =
     null_or None haystack needle (\<lambda>h n.
       if haystack_len < 0 then HF_strstr h n ra
       else bnd (strlenM (ptr_bytes n)) (\<lambda>nlen. HF_memmem h (nat haystack_len) n nlen ra))"

definition hf_glib_ascii_tolower :: "int \<Rightarrow> int" where
  "hf_glib_ascii_tolower c = (if c \<ge> 65 \<and> c \<le> 90 then c - 65 + 97 else c)"

definition g_ascii_strcasecmp :: "u64 \<Rightarrow> cptr option \<Rightarrow> cptr option \<Rightarrow> (instr_t, int) hm" where
  "g_ascii_strcasecmp ra s1 s2 =
     null_or 0 s1 s2 (\<lambda>p1 p2. HF_strcasecmp p1 p2 hf_glib_ascii_tolower ra)"

definition g_ascii_strncasecmp :: "u64 \<Rightarrow> cptr option \<Rightarrow> cptr option \<Rightarrow> nat \<Rightarrow> (instr_t, int) hm" where
  "g_ascii_strncasecmp ra s1 s2 n =
     null_or 0 s1 s2 (\<lambda>p1 p2. bnd instrumentConstAvail (\<lambda>c. HF_strncasecmp p1 p2 n hf_glib_ascii_tolower c ra))"

definition g_str_has_prefix :: "u64 \<Rightarrow> cptr option \<Rightarrow> cptr option \<Rightarrow> (instr_t, bool) hm" where
  "g_str_has_prefix ra s pfx =
     null_or False s pfx (\<lambda>p1 p2.
       bnd (strlenM (ptr_bytes p2)) (\<lambda>n.
       bnd instrumentConstAvail (\<lambda>c.
       bnd (HF_strncmp p1 p2 n c ra) (\<lambda>r. ret (r = 0)))))"

definition g_str_has_suffix :: "u64 \<Rightarrow> cptr option \<Rightarrow> cptr option \<Rightarrow> (instr_t, bool) hm" where
  "g_str_has_suffix ra s sfx =
     null_or False s sfx (\<lambda>p1 p2.
       bnd (strlenM (ptr_bytes p1)) (\<lambda>str_len.
       bnd (strlenM (ptr_bytes p2)) (\<lambda>suffix_len.
       if str_len < suffix_len then ret False
       else bnd (HF_strcmp (ptr_add p1 (str_len - suffix_len)) p2 ra) (\<lambda>r. ret (r = 0)))))"

text \<open>CUrl.\<close>

definition curl_toupper :: "int \<Rightarrow> int" where
  "curl_toupper c = (if c \<ge> 97 \<and> c \<le> 122 then 65 + c - 97 else c)"

definition as_flag :: "(instr_t, int) hm \<Rightarrow> (instr_t, int) hm" where
  "as_flag m = bnd m (\<lambda>r. ret (if r = 0 then 1 else 0))"

definition Curl_strcasecompare :: "u64 \<Rightarrow> cptr \<Rightarrow> cptr \<Rightarrow> (instr_t, int) hm" where
  "Curl_strcasecompare ra s1 s2 =
     as_flag (HF_strcasecmp s1 s2 curl_toupper ra)"

definition curl_strequal :: "u64 \<Rightarrow> cptr \<Rightarrow> cptr \<Rightarrow> (instr_t, int) hm" where
  "curl_strequal ra s1 s2 =
     as_flag (HF_strcasecmp s1 s2 curl_toupper ra)"

definition Curl_safe_strcasecompare :: "u64 \<Rightarrow> cptr option \<Rightarrow> cptr option \<Rightarrow> (instr_t, int) hm" where
  "Curl_safe_strcasecompare ra s1 s2 =
     (if s1 = None \<and> s2 = None then ret 1
      else null_or 0 s1 s2 (\<lambda>p1 p2. as_flag (HF_strcasecmp p1 p2 curl_toupper ra)))"

definition Curl_strncasecompare :: "u64 \<Rightarrow> cptr \<Rightarrow> cptr \<Rightarrow> nat \<Rightarrow> (instr_t, int) hm" where
  "Curl_strncasecompare ra s1 s2 n =
     bnd instrumentConstAvail (\<lambda>c. as_flag (HF_strncasecmp s1 s2 n curl_toupper c ra))"

definition curl_strnequal :: "u64 \<Rightarrow> cptr \<Rightarrow> cptr \<Rightarrow> nat \<Rightarrow> (instr_t, int) hm" where
  "curl_strnequal ra s1 s2 n =
     bnd instrumentConstAvail (\<lambda>c. as_flag (HF_strncasecmp s1 s2 n curl_toupper c ra))"

text \<open>SQLite and C++.\<close>

definition sqlite3_stricmp :: "u64 \<Rightarrow> cptr \<Rightarrow> cptr \<Rightarrow> (instr_t, int) hm" where
  "sqlite3_stricmp ra s1 s2 =
     HF_strcasecmp s1 s2 tolower ra"

definition sqlite3StrICmp :: "u64 \<Rightarrow> cptr \<Rightarrow> cptr \<Rightarrow> (instr_t, int) hm" where
  "sqlite3StrICmp ra s1 s2 =
     HF_strcasecmp s1 s2 tolower ra"

definition sqlite3_strnicmp :: "u64 \<Rightarrow> cptr \<Rightarrow> cptr \<Rightarrow> nat \<Rightarrow> (instr_t, int) hm" where
  "sqlite3_strnicmp ra s1 s2 n =
     HF_strncasecmp s1 s2 n tolower True ra"

definition char_traits_compare :: "u64 \<Rightarrow> cptr \<Rightarrow> cptr \<Rightarrow> nat \<Rightarrow> (instr_t, int) hm" where
  "char_traits_compare ra s1 s2 n =
     bnd instrumentConstAvail (\<lambda>c. HF_memcmp s1 s2 n c ra)"

end
