(* ===== verification/HF_MemCmp_Props.thy ===== *)
theory HF_MemCmp_Props
  imports HF_MemCmp
begin

text \<open>
  The replacements of \<open>memorycmp.c\<close> against the functions of C they replace: the sign of a
  comparison is the lexicographic order of the strings, a search finds the first occurrence,
  copies have the effect of the original; and all of them leave the run time well formed.
\<close>

section \<open>Reporting constants\<close>

text \<open>What reporting a constant may change.\<close>

definition const_step :: "instr_t \<Rightarrow> instr_t \<Rightarrow> bool" where
  "const_step s t \<longleftrightarrow> (\<exists>g c. t = s\<lparr>ins_rng := g, globalCmp := c\<rparr> \<and> (\<forall>m. c = Some m \<longrightarrow> cmp_full m))"

lemma const_step_ok: "const_step s t \<Longrightarrow> ins_ok s \<Longrightarrow> ins_ok t"
  by (auto simp: const_step_def ins_ok_def)

lemma const_step_refl: "ins_ok s \<Longrightarrow> const_step s s"
  unfolding const_step_def ins_ok_def by (intro exI [of _ "ins_rng s"] exI [of _ "globalCmp s"]) simp

lemma const_step_trans: "const_step s t \<Longrightarrow> const_step t u \<Longrightarrow> const_step s u"
proof -
  assume "const_step s t" "const_step t u"
  then obtain g c g' c' where "t = s\<lparr>ins_rng := g, globalCmp := c\<rparr>" "u = t\<lparr>ins_rng := g', globalCmp := c'\<rparr>"
    "\<forall>m. c' = Some m \<longrightarrow> cmp_full m" unfolding const_step_def by blast
  then show "const_step s u" unfolding const_step_def by (intro exI [of _ g'] exI [of _ c']) simp
qed

lemma const_step_sel: "const_step s t \<Longrightarrow> covG t = covG s \<and> ins_image t = ins_image s"
  by (auto simp: const_step_def covG_def)

lemma wp_addInternal:
  assumes ok: "ins_ok s" and c: "globalCmp s = Some m" and len: "n \<le> length mem"
  shows "wp (instrumentAddConstMemInternal mem n) (\<lambda>_. const_step s) s"
proof -
  have full: "cmp_full m" using ok c by (simp add: ins_ok_def)
  have new: "const_step s (s\<lparr>globalCmp := Some m'\<rparr>)" if "cmp_full m'" for m'
    using that unfolding const_step_def by (intro exI [of _ "ins_rng s"] exI [of _ "Some m'"]) simp
  consider "n \<le> 1" | "\<not> n \<le> 1" "CMP_VALS_MAX \<le> unat (cmpf_cnt m)" | "2 \<le> n" "unat (cmpf_cnt m) < CMP_VALS_MAX" by linarith
  then show ?thesis
  proof cases
    case 3
    let ?l = "if n > 32 then 32 else n"
    have "const_step s (s\<lparr>globalCmp := Some (m\<lparr>cmpf_cnt := cmpf_cnt m + 1,
      cmpf_valArr := (cmpf_valArr m)[unat (cmpf_cnt m) := \<lparr>cv_val = val, cv_len = of_nat ?l\<rparr>]\<rparr>)\<rparr>)"
      if "length val = 32" for val
      using that 3 full by (intro new cmp_full_add) (auto simp: unat_of_nat)
    moreover have "length (cv_val (cmpf_valArr m ! unat (cmpf_cnt m))) = 32" "unat (cmpf_cnt m) < length (cmpf_valArr m)"
      using 3 full by (auto simp: cmp_full_def)
    ultimately show ?thesis using 3 c len const_step_refl [OF ok]
      by (auto simp: instrumentAddConstMemInternal_def hf_wp Let_def buf_get_def buf_write_def)
  qed (use c const_step_refl [OF ok] in \<open>auto simp: instrumentAddConstMemInternal_def hf_wp Let_def\<close>)
qed

text \<open>The common shape: nothing to do, not this time, or the constant is looked at.\<close>

lemma wp_limited:
  assumes ok: "ins_ok s" and "step \<noteq> - 1"
    and f: "\<And>t. const_step s t \<Longrightarrow> globalCmp t = globalCmp s \<Longrightarrow> wp f (\<lambda>_. const_step t) t"
  shows "wp (bnd (instrumentLimitEvery step) (\<lambda>now. if \<not> now then ret () else f)) (\<lambda>_. const_step s) s"
proof -
  have r: "const_step s (s\<lparr>ins_rng := g\<rparr>)" for g
    using ok unfolding const_step_def ins_ok_def by (intro exI [of _ g] exI [of _ "globalCmp s"]) simp
  have "wp f (\<lambda>_. const_step s) (s\<lparr>ins_rng := g\<rparr>)" for g
    by (rule wp_mono [OF f [OF r]]) (auto intro: const_step_trans [OF r])
  then show ?thesis using assms(2) r
    by (auto simp: instrumentLimitEvery_def ins_rnd_def hf_wp intro!: wp_rndGetI)
qed

lemma wp_addStr:
  assumes ok: "ins_ok s" and "0 \<in> set mem"
  shows "wp (instrumentAddConstStr p mem) (\<lambda>_. const_step s) s"
proof -
  obtain c0 cs where mem: "mem = c0 # cs" using assms(2) by (cases mem) auto
  have cs: "cs \<noteq> []" if "c0 \<noteq> 0" using that assms(2) mem by auto
  show ?thesis
  proof (cases "globalCmp s")
    case None
    then show ?thesis using const_step_refl [OF ok] by (simp add: instrumentAddConstStr_def hf_wp)
  next
    case (Some m)
    have "wp (bnd (or_fault OutOfBounds (buf_get mem 0)) (\<lambda>c0.
         bnd (if c0 = 0 then ret 0 else or_fault OutOfBounds (buf_get mem 1)) (\<lambda>c1.
         if c0 = 0 \<or> c1 = 0 then ret ()
         else bnd (gets ins_image) (\<lambda>im.
           if util_getProgAddr im p = LHFC_ADDR_NOTFOUND then ret ()
           else bnd (strlenM mem) (\<lambda>n. instrumentAddConstMemInternal mem n))))) (\<lambda>_. const_step t) t"
      if "const_step s t" "globalCmp t = globalCmp s" for t
      using that cs assms(2) mem length_cstr_le [of mem] const_step_ok [OF that(1) ok] Some
      by (auto simp: hf_wp buf_get_def strlenM_def intro!: wp_addInternal const_step_refl)
    then show ?thesis using Some
      unfolding instrumentAddConstStr_def wp_bnd [of "gets _"] wp_gets by (simp add: wp_limited [OF ok])
  qed
qed

lemma wp_addStrN:
  assumes ok: "ins_ok s" and len: "n \<le> length mem \<or> 0 \<in> set (take n mem)"
  shows "wp (instrumentAddConstStrN p mem n) (\<lambda>_. const_step s) s"
proof (cases "globalCmp s")
  case None
  then show ?thesis using const_step_refl [OF ok] by (simp add: instrumentAddConstStrN_def hf_wp)
next
  case (Some m)
  have "length (cstr (take n mem)) \<le> length mem" using length_cstr_le [of "take n mem"] by simp
  then have "wp (bnd (gets ins_image) (\<lambda>im.
         if util_getProgAddr im p = LHFC_ADDR_NOTFOUND then ret ()
         else bnd (strnlenM mem n) (\<lambda>m. instrumentAddConstMemInternal mem m))) (\<lambda>_. const_step t) t"
    if "const_step s t" "globalCmp t = globalCmp s" for t
    using that len const_step_ok [OF that(1) ok] Some
    by (auto simp: hf_wp strnlenM_def intro!: wp_addInternal const_step_refl)
  then show ?thesis using Some const_step_refl [OF ok]
    unfolding instrumentAddConstStrN_def wp_bnd [of "gets globalCmp"] wp_gets [of globalCmp]
    by (auto simp: wp_ret intro!: wp_limited [OF ok])
qed

lemma wp_addMem:
  assumes ok: "ins_ok s" and len: "n \<le> length mem"
  shows "wp (instrumentAddConstMem p mem n ro) (\<lambda>_. const_step s) s"
proof (cases "globalCmp s")
  case None
  then show ?thesis using const_step_refl [OF ok] by (simp add: instrumentAddConstMem_def hf_wp)
next
  case (Some m)
  have "wp (bnd (gets ins_image) (\<lambda>im.
         if ro \<and> util_getProgAddr im p = LHFC_ADDR_NOTFOUND then ret ()
         else instrumentAddConstMemInternal mem n)) (\<lambda>_. const_step t) t"
    if "const_step s t" "globalCmp t = globalCmp s" for t
    using that len const_step_ok [OF that(1) ok] Some
    by (auto simp: hf_wp intro!: wp_addInternal const_step_refl)
  then show ?thesis using Some const_step_refl [OF ok]
    unfolding instrumentAddConstMem_def wp_bnd [of "gets globalCmp"] wp_gets [of globalCmp]
    by (auto simp: wp_ret intro!: wp_limited [OF ok])
qed

section \<open>Reporting progress\<close>

text \<open>From \<open>s\<close> to \<open>t\<close> the slot of \<open>a\<close> was raised to at least \<open>v\<close>, and other slots did not change.\<close>

definition slot_raised :: "u64 \<Rightarrow> u32 \<Rightarrow> instr_t \<Rightarrow> instr_t \<Rightarrow> bool" where
  "slot_raised a v s t \<longleftrightarrow> bbMapCmp (covG t) = (bbMapCmp (covG s))(unat a mod HF_PERF_BITMAP_SIZE_16M :=
     max (bbMapCmp (covG s) (unat a mod HF_PERF_BITMAP_SIZE_16M)) v)"

lemma wp_updateCmp:
  assumes "ins_ok s"
  shows "wp (instrumentUpdateCmpMap a v) (\<lambda>_ t. ins_ok t \<and> ins_image t = ins_image s \<and> slot_raised a v s t) s"
proof -
  let ?i = "unat a mod HF_PERF_BITMAP_SIZE_16M"
  have i: "?i < HF_PERF_BITMAP_SIZE_16M" by (simp add: HF_PERF_BITMAP_SIZE_16M_def)
  have th: "unat (my_thread_no s) < HF_THREAD_MAX" using assms by (simp add: ins_ok_def)
  show ?thesis
  proof (cases "bbMapCmp (covG s) ?i < v")
    case True
    have "max (bbMapCmp (covG s) ?i) v = v" using less_imp_le [OF True] by (rule max.absorb2)
    with True i th assms show ?thesis
      by (simp add: instrumentUpdateCmpMap_def wp_def bnd_def gets_def check_def ret_def modG_def modify_def Let_def
          add_pid_run covG_def slot_raised_def ins_ok_def)
  next
    case False
    then have "max (bbMapCmp (covG s) ?i) v = bbMapCmp (covG s) ?i" by (simp add: max_def)
    with False i assms show ?thesis
      by (simp add: instrumentUpdateCmpMap_def hf_wp Let_def slot_raised_def)
  qed
qed

lemma wp_note_prefix:
  "ins_ok s \<Longrightarrow> wp (note_prefix addr s1 s2 i)
    (\<lambda>_ t. ins_ok t \<and> ins_image t = ins_image s \<and> slot_raised (HF_cmphash (ins_image s) addr s1 s2) (of_nat i) s t) s"
  unfolding note_prefix_def wp_bnd wp_gets wp_ret by (rule wp_updateCmp)

lemma slot_raised_const: "slot_raised a v s t \<Longrightarrow> const_step t u \<Longrightarrow> slot_raised a v s u"
  using const_step_sel by (auto simp: slot_raised_def)

section \<open>Common prefixes\<close>

fun cpl :: "'a list \<Rightarrow> 'a list \<Rightarrow> nat" where
  "cpl (a # as) (b # bs) = (if a = b then Suc (cpl as bs) else 0)"
| "cpl _ _ = 0"

lemma cpl_le: "cpl xs ys \<le> length xs" "cpl xs ys \<le> length ys"
  by (induction xs ys rule: cpl.induct) auto

lemma cpl_full: "length xs = n \<Longrightarrow> length ys = n \<Longrightarrow> cpl xs ys = n \<longleftrightarrow> xs = ys"
  by (induction xs ys arbitrary: n rule: cpl.induct) auto

lemma cpl_take: "take (cpl xs ys) xs = take (cpl xs ys) ys"
  by (induction xs ys rule: cpl.induct) auto

lemma cpl_differ:
  fixes xs ys :: "int list"
  assumes "cpl xs ys < length xs" and "cpl xs ys < length ys"
  shows "xs ! cpl xs ys \<noteq> ys ! cpl xs ys \<and> (ord_class.lexordp xs ys \<longleftrightarrow> xs ! cpl xs ys < ys ! cpl xs ys)"
  using assms by (induction xs ys rule: cpl.induct) auto

text \<open>The characters as a comparison sees them.\<close>

definition keys :: "(int \<Rightarrow> int) \<Rightarrow> byte list \<Rightarrow> int list" where
  "keys cv xs = map (\<lambda>b. cv (uint b)) xs"

lemma keys_simps [simp]: "keys cv [] = []" "keys cv (b # bs) = cv (uint b) # keys cv bs" "length (keys cv xs) = length xs"
  by (simp_all add: keys_def)

lemma keys_nth [simp]: "i < length xs \<Longrightarrow> keys cv xs ! i = cv (uint (xs ! i))"
  by (simp add: keys_def)

lemma keys_id: "keys (\<lambda>c. c) xs = keys (\<lambda>c. c) ys \<longleftrightarrow> xs = ys"
  unfolding keys_def by (rule inj_map_eq_map) (simp add: inj_def word_uint_eq_iff)

lemma cstr_simps [simp]: "cstr [] = []" "cstr (b # bs) = (if b = 0 then [] else b # cstr bs)"
  by (simp_all add: cstr_def)

text \<open>A string of at most \<open>n\<close> bytes can be read: it ends, or \<open>n\<close> bytes are there.\<close>

definition readable :: "nat \<Rightarrow> byte list \<Rightarrow> bool" where
  "readable n bs \<longleftrightarrow> n \<le> length bs \<or> 0 \<in> set (take n bs)"

lemma readable_Suc [simp]: "readable (Suc n) (b # bs) \<longleftrightarrow> b = 0 \<or> readable n bs" "readable 0 bs" "\<not> readable (Suc n) []"
  by (auto simp: readable_def)

lemma cstr_nth:
  "0 \<in> set bs \<Longrightarrow> k \<le> length (cstr bs) \<Longrightarrow> k < length bs \<and> bs ! k = (cstr bs @ [0]) ! k"
proof (induction bs arbitrary: k)
  case (Cons b bs)
  then show ?case by (cases k) (auto split: if_splits)
qed simp

lemma cstr_take_nth:
  "readable n bs \<Longrightarrow> k \<le> length (cstr (take n bs)) \<Longrightarrow> k < n \<Longrightarrow> k < length bs \<and> bs ! k = (cstr (take n bs) @ [0]) ! k"
proof (induction n arbitrary: bs k)
  case (Suc n)
  then obtain b bs' where bs: "bs = b # bs'" by (cases bs) auto
  show ?case
  proof (cases "k = 0 \<or> b = 0")
    case True
    then show ?thesis using Suc.prems bs by auto
  next
    case False
    then obtain k' where "k = Suc k'" by (cases k) auto
    then show ?thesis using Suc.IH [of bs' k'] Suc.prems bs False by simp
  qed
qed simp

lemma str_scan_result:
  "0 \<in> set as \<Longrightarrow> 0 \<in> set bs \<Longrightarrow> str_scan cv as bs i = Inr (i + cpl (keys cv (cstr as)) (keys cv (cstr bs)))"
  by (induction cv as bs i rule: str_scan.induct) auto

lemma strn_scan_result:
  "readable n as \<Longrightarrow> readable n bs \<Longrightarrow>
    strn_scan cv True n as bs i = Inr (i + cpl (keys cv (cstr (take n as))) (keys cv (cstr (take n bs))))"
proof (induction n arbitrary: as bs i)
  case (Suc n)
  then show ?case by (cases as; cases bs) auto
qed simp

lemma mem_scan_result:
  "n \<le> length as \<Longrightarrow> n \<le> length bs \<Longrightarrow>
    strn_scan cv False n as bs i = Inr (i + cpl (keys cv (take n as)) (keys cv (take n bs)))"
proof (induction n arbitrary: as bs i)
  case (Suc n)
  then show ?case by (cases as; cases bs) auto
qed simp

text \<open>
  What the result of a comparison needs of the conversion of characters: the end of a string
  sorts before every character.
\<close>

locale char_conv =
  fixes cv :: "int \<Rightarrow> int"
  assumes cv_nul: "cv 0 = 0" and cv_pos: "0 < c \<Longrightarrow> 0 < cv c"
begin

lemma cv_byte_pos: "b \<noteq> 0 \<Longrightarrow> 0 < cv (uint (b :: byte))"
proof -
  assume "b \<noteq> 0"
  then have "uint b \<noteq> 0" by (simp add: uint_0_iff)
  then show ?thesis using cv_pos [of "uint b"] uint_ge_0 [of b] by linarith
qed

lemma sign_of_difference:
  assumes "0 \<notin> set xs" and "0 \<notin> set ys"
  defines "k \<equiv> cpl (keys cv xs) (keys cv ys)"
  defines "r \<equiv> cv (uint ((xs @ [0]) ! k)) - cv (uint ((ys @ [0]) ! k))"
  shows "(r = 0 \<longleftrightarrow> keys cv xs = keys cv ys) \<and> (r < 0 \<longleftrightarrow> ord_class.lexordp (keys cv xs) (keys cv ys))"
  using assms(1,2) unfolding r_def k_def
proof (induction xs arbitrary: ys)
  case Nil
  then show ?case by (cases ys) (auto simp: cv_nul dest!: cv_byte_pos)
next
  case (Cons x xs)
  show ?case
  proof (cases ys)
    case Nil
    then show ?thesis using Cons.prems cv_byte_pos [of x] by (auto simp: cv_nul)
  next
    case (Cons y ys')
    then show ?thesis using Cons.IH [of ys'] Cons.prems by auto
  qed
qed

end

interpretation plain: char_conv "\<lambda>c. c"
  by unfold_locales auto

interpretation lower: char_conv tolower
  by unfold_locales (auto simp: tolower_def)

interpretation upper: char_conv toupper
  by unfold_locales (auto simp: toupper_def)

interpretation xml: char_conv xml_to_upper
  by unfold_locales (auto simp: xml_to_upper_def)

interpretation glib: char_conv hf_glib_ascii_tolower
  by unfold_locales (auto simp: hf_glib_ascii_tolower_def)

interpretation curl: char_conv curl_toupper
  by unfold_locales (auto simp: curl_toupper_def)

section \<open>Comparisons\<close>

text \<open>The outcome of a comparison of \<open>xs\<close> and \<open>ys\<close> with the slot \<open>a\<close>.\<close>

definition compared :: "(int \<Rightarrow> int) \<Rightarrow> u64 \<Rightarrow> byte list \<Rightarrow> byte list \<Rightarrow> instr_t \<Rightarrow> int \<Rightarrow> instr_t \<Rightarrow> bool" where
  "compared cv a xs ys s r t \<longleftrightarrow> ins_ok t \<and> ins_image t = ins_image s \<and>
     slot_raised a (of_nat (cpl (keys cv xs) (keys cv ys))) s t \<and>
     (r = 0 \<longleftrightarrow> keys cv xs = keys cv ys) \<and> (r < 0 \<longleftrightarrow> ord_class.lexordp (keys cv xs) (keys cv ys))"

lemma wp_lift_scan: "wp (lift_scan (Inr v)) Q = Q v"
  by (simp add: lift_scan_def wp_ret)

lemma wp_byte_at: "i < length (ptr_bytes p) \<Longrightarrow> wp (byte_at p i) Q = Q (ptr_bytes p ! i)"
  by (simp add: byte_at_def buf_get_def or_fault_def wp_ret)

text \<open>A comparison after its loop: the slot is raised, then constants may be reported.\<close>

lemma wp_after_scan:
  assumes ok: "ins_ok s" and f: "\<And>t. ins_ok t \<Longrightarrow> wp f (\<lambda>_. const_step t) t"
    and r: "\<And>u. wp res (\<lambda>r u'. u' = u \<and> R r) u"
  shows "wp (bnd (note_prefix addr s1 s2 i) (\<lambda>_. bnd f (\<lambda>_. res)))
    (\<lambda>r t. ins_ok t \<and> ins_image t = ins_image s \<and> slot_raised (HF_cmphash (ins_image s) addr s1 s2) (of_nat i) s t \<and> R r) s"
  unfolding wp_bnd
proof (rule wp_mono [OF wp_note_prefix [OF ok]])
  fix x t assume t: "ins_ok t \<and> ins_image t = ins_image s \<and> slot_raised (HF_cmphash (ins_image s) addr s1 s2) (of_nat i) s t"
  show "wp f (\<lambda>x. wp res (\<lambda>r t. ins_ok t \<and> ins_image t = ins_image s \<and>
      slot_raised (HF_cmphash (ins_image s) addr s1 s2) (of_nat i) s t \<and> R r)) t"
  proof (rule wp_mono [OF f])
    show "ins_ok t" using t by simp
    fix y u assume "const_step t u"
    with t show "wp res (\<lambda>r t. ins_ok t \<and> ins_image t = ins_image s \<and>
      slot_raised (HF_cmphash (ins_image s) addr s1 s2) (of_nat i) s t \<and> R r) u"
      by (intro wp_mono [OF r]) (auto intro: const_step_ok slot_raised_const dest: const_step_sel)
  qed
qed

lemma wp_both:
  assumes "ins_ok t" and "\<And>t. ins_ok t \<Longrightarrow> wp f (\<lambda>_. const_step t) t" and "\<And>t. ins_ok t \<Longrightarrow> wp g (\<lambda>_. const_step t) t"
  shows "wp (bnd f (\<lambda>_. g)) (\<lambda>_. const_step t) t"
  unfolding wp_bnd
proof (rule wp_mono [OF assms(2) [OF assms(1)]])
  fix x u assume u: "const_step t u"
  then have "wp g (\<lambda>_. const_step u) u" using assms(1,3) const_step_ok by blast
  then show "wp g (\<lambda>_. const_step t) u" by (rule wp_mono) (rule const_step_trans [OF u])
qed

lemma bnd_assoc: "bnd (bnd m f) g = bnd m (\<lambda>x. bnd (f x) g)"
  by (rule ext) (simp add: bnd_def split: sum.split prod.split)

lemma HF_strcmp_case: "HF_strcmp s1 s2 addr = HF_strcasecmp s1 s2 (\<lambda>c. c) addr"
  by (simp add: HF_strcmp_def HF_strcasecmp_def)

lemma HF_strncmp_case: "HF_strncmp s1 s2 n c addr = HF_strncasecmp s1 s2 n (\<lambda>c. c) c addr"
  by (simp add: HF_strncmp_def HF_strncasecmp_def)

lemma cstr_no_nul [simp]: "0 \<notin> set (cstr bs)"
  by (auto simp: cstr_def dest: set_takeWhileD)

lemma length_cstr_take: "length (cstr (take n bs)) \<le> n"
  using length_cstr_le [of "take n bs"] by simp

lemma lexordp_irrefl_int: "\<not> ord_class.lexordp zs zs" for zs :: "int list"
  by (induction zs) auto

context char_conv
begin

lemma strcasecmp_wp:
  assumes ok: "ins_ok s" and str: "0 \<in> set (ptr_bytes s1)" "0 \<in> set (ptr_bytes s2)"
  shows "wp (HF_strcasecmp s1 s2 cv addr)
    (compared cv (HF_cmphash (ins_image s) addr s1 s2) (cstr (ptr_bytes s1)) (cstr (ptr_bytes s2)) s) s"
proof -
  let ?x = "cstr (ptr_bytes s1)" and ?y = "cstr (ptr_bytes s2)"
  let ?k = "cpl (keys cv ?x) (keys cv ?y)"
  have k: "?k \<le> length ?x" "?k \<le> length ?y" using cpl_le [of "keys cv ?x" "keys cv ?y"] by simp_all
  note at = cstr_nth [OF str(1) k(1)] cstr_nth [OF str(2) k(2)]
  let ?R = "\<lambda>r. (r = 0 \<longleftrightarrow> keys cv ?x = keys cv ?y) \<and> (r < 0 \<longleftrightarrow> ord_class.lexordp (keys cv ?x) (keys cv ?y))"
  have res: "wp (bnd (byte_at s1 ?k) (\<lambda>a. bnd (byte_at s2 ?k) (\<lambda>b. ret (cv (uint a) - cv (uint b)))))
      (\<lambda>r u'. u' = u \<and> ?R r) u" for u
    using at sign_of_difference [of ?x ?y] by (simp add: wp_bnd wp_byte_at wp_ret)
  have "wp (bnd (note_prefix addr s1 s2 ?k) (\<lambda>_.
     bnd (bnd (instrumentAddConstStr (ptr_addr s1) (ptr_bytes s1)) (\<lambda>_. instrumentAddConstStr (ptr_addr s2) (ptr_bytes s2))) (\<lambda>_.
     bnd (byte_at s1 ?k) (\<lambda>a. bnd (byte_at s2 ?k) (\<lambda>b. ret (cv (uint a) - cv (uint b)))))))
    (\<lambda>r t. ins_ok t \<and> ins_image t = ins_image s \<and> slot_raised (HF_cmphash (ins_image s) addr s1 s2) (of_nat ?k) s t \<and> ?R r) s"
    by (rule wp_after_scan [OF ok wp_both res]) (auto intro: wp_addStr str)
  then show ?thesis
    unfolding HF_strcasecmp_def str_scan_result [OF str] wp_bnd [of "lift_scan _"] wp_lift_scan compared_def bnd_assoc
    by simp
qed

lemma cmp_result_wp:
  assumes r: "readable n (ptr_bytes s1)" "readable n (ptr_bytes s2)"
  defines "x \<equiv> cstr (take n (ptr_bytes s1))" and "y \<equiv> cstr (take n (ptr_bytes s2))"
  shows "wp (cmp_result cv s1 s2 n (cpl (keys cv x) (keys cv y)))
    (\<lambda>r u'. u' = u \<and> (r = 0 \<longleftrightarrow> keys cv x = keys cv y) \<and> (r < 0 \<longleftrightarrow> ord_class.lexordp (keys cv x) (keys cv y))) u"
proof -
  let ?k = "cpl (keys cv x) (keys cv y)"
  have len: "length x \<le> n" "length y \<le> n" unfolding x_def y_def by (rule length_cstr_take)+
  have k: "?k \<le> length x" "?k \<le> length y" using cpl_le [of "keys cv x" "keys cv y"] by simp_all
  show ?thesis
  proof (cases "?k = n")
    case True
    then have "keys cv x = keys cv y" using cpl_full [of "keys cv x" n "keys cv y"] len k by simp
    then show ?thesis using True lexordp_irrefl_int by (simp add: cmp_result_def wp_ret)
  next
    case False
    then have n: "?k < n" using k len by linarith
    from cstr_take_nth [OF r(1) k(1) [unfolded x_def] ] cstr_take_nth [OF r(2) k(2) [unfolded y_def]]
    have at: "?k < length (ptr_bytes s1) \<and> ptr_bytes s1 ! ?k = (x @ [0]) ! ?k" "?k < length (ptr_bytes s2) \<and> ptr_bytes s2 ! ?k = (y @ [0]) ! ?k"
      using n unfolding x_def y_def by auto
    show ?thesis using at False sign_of_difference [of x y] unfolding x_def y_def
      by (simp add: cmp_result_def wp_bnd wp_byte_at wp_ret)
  qed
qed

lemma strncasecmp_wp:
  assumes ok: "ins_ok s" and r: "readable n (ptr_bytes s1)" "readable n (ptr_bytes s2)"
  shows "wp (HF_strncasecmp s1 s2 n cv constfb addr)
    (compared cv (HF_cmphash (ins_image s) addr s1 s2) (cstr (take n (ptr_bytes s1))) (cstr (take n (ptr_bytes s2))) s) s"
proof -
  have c: "wp (if constfb then bnd (instrumentAddConstStrN (ptr_addr s1) (ptr_bytes s1) n) (\<lambda>_.
      instrumentAddConstStrN (ptr_addr s2) (ptr_bytes s2) n) else ret ()) (\<lambda>_. const_step t) t" if "ins_ok t" for t
    using that r by (auto simp: wp_ret readable_def const_step_refl intro!: wp_both wp_addStrN)
  show ?thesis
    unfolding HF_strncasecmp_def strn_scan_result [OF r] wp_bnd [of "lift_scan _"] wp_lift_scan compared_def add_0
    by (rule wp_after_scan [OF ok c cmp_result_wp [OF r]])
qed

end

lemma memcmp_wp:
  assumes ok: "ins_ok s" and len: "n \<le> length (ptr_bytes m1)" "n \<le> length (ptr_bytes m2)"
  shows "wp (HF_memcmp m1 m2 n constfb addr)
    (compared (\<lambda>c. c) (HF_cmphash (ins_image s) addr m1 m2) (take n (ptr_bytes m1)) (take n (ptr_bytes m2)) s) s"
proof -
  let ?x = "take n (ptr_bytes m1)" and ?y = "take n (ptr_bytes m2)"
  let ?k = "cpl (keys (\<lambda>c. c) ?x) (keys (\<lambda>c. c) ?y)"
  have c: "wp (if constfb then bnd (instrumentAddConstMem (ptr_addr m1) (ptr_bytes m1) n True) (\<lambda>_.
      instrumentAddConstMem (ptr_addr m2) (ptr_bytes m2) n True) else ret ()) (\<lambda>_. const_step t) t" if "ins_ok t" for t
    using that len by (auto simp: wp_ret const_step_refl intro!: wp_both wp_addMem)
  have k: "?k \<le> n" using cpl_le(1) [of "keys (\<lambda>c. c) ?x" "keys (\<lambda>c. c) ?y"] by simp
  have res: "wp (cmp_result (\<lambda>c. c) m1 m2 n ?k) (\<lambda>r u'. u' = u \<and> (r = 0 \<longleftrightarrow> keys (\<lambda>c. c) ?x = keys (\<lambda>c. c) ?y) \<and>
      (r < 0 \<longleftrightarrow> ord_class.lexordp (keys (\<lambda>c. c) ?x) (keys (\<lambda>c. c) ?y))) u" for u
  proof (cases "?k = n")
    case True
    then have "keys (\<lambda>c. c) ?x = keys (\<lambda>c. c) ?y" using cpl_full [of "keys (\<lambda>c. c) ?x" n "keys (\<lambda>c. c) ?y"] len by simp
    then show ?thesis using True lexordp_irrefl_int by (simp add: cmp_result_def wp_ret)
  next
    case False
    then have n: "?k < n" using k by simp
    from cpl_differ [of "keys (\<lambda>c. c) ?x" "keys (\<lambda>c. c) ?y"] n len
    have "uint (ptr_bytes m1 ! ?k) \<noteq> uint (ptr_bytes m2 ! ?k) \<and> (ord_class.lexordp (keys (\<lambda>c. c) ?x) (keys (\<lambda>c. c) ?y) \<longleftrightarrow>
        uint (ptr_bytes m1 ! ?k) < uint (ptr_bytes m2 ! ?k))" by simp
    moreover from this n len have "keys (\<lambda>c. c) ?x \<noteq> keys (\<lambda>c. c) ?y" by (metis keys_id nth_take)
    ultimately show ?thesis using False n len by (simp add: cmp_result_def wp_bnd wp_byte_at wp_ret)
  qed
  show ?thesis
    unfolding HF_memcmp_def mem_scan_result [OF len] wp_bnd [of "lift_scan _"] wp_lift_scan compared_def add_0
    by (rule wp_after_scan [OF ok c res])
qed

section \<open>Searches\<close>

text \<open>The first offset in a string at which a word is found, up to the conversion of characters.\<close>

definition first_at :: "(int \<Rightarrow> int) \<Rightarrow> byte list \<Rightarrow> byte list \<Rightarrow> nat \<Rightarrow> nat option" where
  "first_at cv w xs k = find (\<lambda>i. keys cv (take (length w) (drop i xs)) = keys cv w) [k..<Suc (length xs)]"

lemma first_at_skip:
  assumes "\<And>i. k \<le> i \<Longrightarrow> i < m \<Longrightarrow> keys cv (take (length w) (drop i xs)) \<noteq> keys cv w" and "k \<le> m" "m \<le> Suc (length xs)"
  shows "first_at cv w xs k = first_at cv w xs m"
  unfolding first_at_def by (rule find_upt_skip) (use assms in auto)

lemma first_at_here:
  "k \<le> length xs \<Longrightarrow> keys cv (take (length w) (drop k xs)) = keys cv w \<Longrightarrow> first_at cv w xs k = Some k"
  unfolding first_at_def by (subst upt_conv_Cons) simp_all

lemma first_at_none:
  "(\<And>i. k \<le> i \<Longrightarrow> i \<le> length xs \<Longrightarrow> keys cv (take (length w) (drop i xs)) \<noteq> keys cv w) \<Longrightarrow> first_at cv w xs k = None"
  by (auto simp: first_at_def find_None_iff)

lemma drop_cstr:
  "k \<le> length (cstr bs) \<Longrightarrow> 0 \<in> set bs \<Longrightarrow> 0 \<in> set (drop k bs) \<and> cstr (drop k bs) = drop k (cstr bs)"
proof (induction bs arbitrary: k)
  case (Cons b bs)
  then show ?case by (cases k) (auto split: if_splits)
qed simp

lemma cstr_take: "cstr (take n bs) = take n (cstr bs)"
  by (induction bs arbitrary: n) (simp_all add: take_Cons')

lemma readable_str: "0 \<in> set bs \<Longrightarrow> readable n bs"
  by (cases "n \<le> length bs") (auto simp: readable_def)

lemma strchr_off_spec:
  assumes "0 \<in> set bs" and "c \<noteq> 0"
  shows "case strchr_off c bs of Inl e \<Rightarrow> False
    | Inr None \<Rightarrow> c \<notin> set (cstr bs)
    | Inr (Some j) \<Rightarrow> j < length (cstr bs) \<and> cstr bs ! j = c \<and> c \<notin> set (take j (cstr bs))"
  using assms(1)
proof (induction bs)
  case (Cons b bs)
  then show ?case using assms(2) by (auto split: sum.splits option.splits)
qed simp

text \<open>One candidate of a search: it is the word, or the search goes on behind it.\<close>

lemma wp_candidate:
  fixes c :: "(instr_t, int) hm"
  assumes ok: "ins_ok s" and n: "length w = n" and m: "m < length xs"
    and cmp: "wp c (\<lambda>r t. ins_ok t \<and> (r = 0 \<longleftrightarrow> keys cv (take n (drop m xs)) = keys cv w)) s"
    and rest: "\<And>t. ins_ok t \<Longrightarrow> wp next_one (\<lambda>r t. ins_ok t \<and> r = first_at cv w xs (Suc m)) t"
  shows "wp (bnd c (\<lambda>r. if r = 0 then ret (Some m) else next_one)) (\<lambda>r t. ins_ok t \<and> r = first_at cv w xs m) s"
  unfolding wp_bnd
proof (rule wp_mono [OF cmp])
  fix r t assume t: "ins_ok t \<and> (r = 0 \<longleftrightarrow> keys cv (take n (drop m xs)) = keys cv w)"
  show "wp (if r = 0 then ret (Some m) else next_one) (\<lambda>r t. ins_ok t \<and> r = first_at cv w xs m) t"
  proof (cases "r = 0")
    case True
    then show ?thesis using t n m by (simp add: wp_ret first_at_here)
  next
    case False
    have "first_at cv w xs m = first_at cv w xs (Suc m)"
      by (rule first_at_skip) (use False t n m in \<open>auto simp: le_less_Suc_eq\<close>)
    with False rest t show ?thesis by simp
  qed
qed

lemma strncmp_at:
  assumes ok: "ins_ok s" and h: "0 \<in> set (ptr_bytes h)" and w: "0 \<in> set (ptr_bytes nd)" and k: "k \<le> length (cstr (ptr_bytes h))"
    and cv: "char_conv cv"
  shows "wp (HF_strncasecmp (ptr_add h k) nd (length (cstr (ptr_bytes nd))) cv False addr)
    (\<lambda>r t. ins_ok t \<and> (r = 0 \<longleftrightarrow>
       keys cv (take (length (cstr (ptr_bytes nd))) (drop k (cstr (ptr_bytes h)))) = keys cv (cstr (ptr_bytes nd)))) s"
proof -
  note d = drop_cstr [OF k h]
  have "wp (HF_strncasecmp (ptr_add h k) nd (length (cstr (ptr_bytes nd))) cv False addr)
    (compared cv (HF_cmphash (ins_image s) addr (ptr_add h k) nd)
      (cstr (take (length (cstr (ptr_bytes nd))) (ptr_bytes (ptr_add h k)))) (cstr (take (length (cstr (ptr_bytes nd))) (ptr_bytes nd))) s) s"
    by (rule char_conv.strncasecmp_wp [OF cv ok]) (use d w in \<open>simp_all add: ptr_add_def readable_str\<close>)
  then show ?thesis by (rule wp_mono) (simp add: compared_def ptr_add_def cstr_take d)
qed

lemma not_at:
  assumes "i < length xs \<longrightarrow> xs ! i \<noteq> c"
  shows "keys (\<lambda>c. c) (take (length (c # cs)) (drop i xs)) \<noteq> keys (\<lambda>c. c) (c # cs)"
  unfolding keys_id
proof
  assume eq: "take (length (c # cs)) (drop i xs) = c # cs"
  then have "i < length xs" by (cases "i < length xs") simp_all
  moreover from this have "xs ! i = c" using arg_cong [OF eq, of "\<lambda>l. l ! 0"] by simp
  ultimately show False using assms by simp
qed

lemma notin_take_drop:
  assumes "c \<notin> set (take j (drop k xs))" and "k \<le> i" "i < k + j" "i < length xs"
  shows "xs ! i \<noteq> c"
proof
  assume "xs ! i = c"
  with assms(2-4) have "take j (drop k xs) ! (i - k) = c" "i - k < length (take j (drop k xs))" by auto
  then show False using assms(1) nth_mem by blast
qed

lemma strstr_loop_wp:
  assumes "ins_ok s" and h: "0 \<in> set (ptr_bytes h)" and w: "0 \<in> set (ptr_bytes nd)"
    and c: "cstr (ptr_bytes nd) = c # cs" and "k \<le> length (cstr (ptr_bytes h))"
  shows "wp (strstr_loop h nd (length (cstr (ptr_bytes nd))) c addr k)
    (\<lambda>r t. ins_ok t \<and> r = first_at (\<lambda>c. c) (cstr (ptr_bytes nd)) (cstr (ptr_bytes h)) k) s"
  using assms(1,5)
proof (induction "length (ptr_bytes h) - k" arbitrary: k s rule: less_induct)
  case less
  let ?h = "cstr (ptr_bytes h)" and ?w = "cstr (ptr_bytes nd)"
  have c0: "c \<noteq> 0" using c cstr_no_nul [of "ptr_bytes nd"] by auto
  note miss = not_at [of _ ?h c cs, folded c]
  note d = drop_cstr [OF less.prems(2) h]
  note sp = strchr_off_spec [OF conjunct1 [OF d] c0]
  show ?case
  proof (cases "strchr_off c (drop k (ptr_bytes h))")
    case (Inl e)
    then show ?thesis using sp by simp
  next
    case (Inr jo)
    show ?thesis
    proof (cases jo)
      case None
      then have "c \<notin> set (take (length ?h) (drop k ?h))" using sp d Inr by simp
      then have "first_at (\<lambda>c. c) ?w ?h k = None"
        by (intro first_at_none miss impI) (erule notin_take_drop, auto)
      then show ?thesis using Inr None less.prems(1) by (simp add: strstr_loop.simps [of h] wp_ret)
    next
      case (Some j)
      then have j: "k + j < length ?h" "c \<notin> set (take j (drop k ?h))" using sp d Inr by auto
      have skip: "first_at (\<lambda>c. c) ?w ?h k = first_at (\<lambda>c. c) ?w ?h (k + j)"
        by (rule first_at_skip, intro miss impI notin_take_drop [OF j(2)]) (use j(1) in auto)
      have "length ?h \<le> length (ptr_bytes h)" by (rule length_cstr_le)
      then have IH: "wp (strstr_loop h nd (length ?w) c addr (Suc (k + j))) (\<lambda>r t. ins_ok t \<and> r = first_at (\<lambda>c. c) ?w ?h (Suc (k + j))) t"
        if "ins_ok t" for t using that j(1) by (intro less.hyps) auto
      have "wp (HF_strncmp (ptr_add h (k + j)) nd (length ?w) False addr)
        (\<lambda>r t. ins_ok t \<and> (r = 0 \<longleftrightarrow> keys (\<lambda>c. c) (take (length ?w) (drop (k + j) ?h)) = keys (\<lambda>c. c) ?w)) s"
        unfolding HF_strncmp_case by (rule strncmp_at [OF less.prems(1) h w _ plain.char_conv_axioms]) (use j(1) in simp)
      from wp_candidate [OF less.prems(1) refl j(1) this IH] show ?thesis
        unfolding skip by (simp add: strstr_loop.simps [of h] Inr Some cong: if_cong)
    qed
  qed
qed

lemma strstr_wp:
  assumes ok: "ins_ok s" and h: "0 \<in> set (ptr_bytes h)" and w: "0 \<in> set (ptr_bytes nd)"
  shows "wp (HF_strstr h nd addr)
    (\<lambda>r t. ins_ok t \<and> r = first_at (\<lambda>c. c) (cstr (ptr_bytes nd)) (cstr (ptr_bytes h)) 0) s"
proof (cases "cstr (ptr_bytes nd)")
  case Nil
  then show ?thesis using ok w by (simp add: HF_strstr_def strlenM_def hf_wp first_at_here)
next
  case (Cons c cs)
  obtain bs where "ptr_bytes nd = c # bs" using Cons w by (cases "ptr_bytes nd") (auto split: if_splits)
  then have c: "wp (byte_at nd 0) Q = Q c" for Q :: "byte \<Rightarrow> instr_t \<Rightarrow> bool" by (simp add: wp_byte_at)
  have "wp (strstr_loop h nd (length (cstr (ptr_bytes nd))) c addr 0)
    (\<lambda>r t. ins_ok t \<and> r = first_at (\<lambda>c. c) (cstr (ptr_bytes nd)) (cstr (ptr_bytes h)) 0) t" if "const_step s t" for t
    by (rule strstr_loop_wp [OF const_step_ok [OF that ok] h w Cons]) simp
  then have "wp (instrumentAddConstStr (ptr_addr nd) (ptr_bytes nd)) (\<lambda>_. wp (strstr_loop h nd (length (cstr (ptr_bytes nd))) c addr 0)
    (\<lambda>r t. ins_ok t \<and> r = first_at (\<lambda>c. c) (cstr (ptr_bytes nd)) (cstr (ptr_bytes h)) 0)) s"
    by (rule wp_mono [OF wp_addStr [OF ok w]])
  moreover have "length (cstr (ptr_bytes nd)) \<noteq> 0" using Cons by simp
  ultimately show ?thesis using w
    by (simp add: HF_strstr_def strlenM_def c wp_bnd wp_check wp_ret)
qed

lemma strcasestr_loop_wp:
  assumes "ins_ok s" and h: "0 \<in> set (ptr_bytes h)" and w: "0 \<in> set (ptr_bytes nd)" and cv: "char_conv cv"
    and w0: "cstr (ptr_bytes nd) \<noteq> []" and "k \<le> length (cstr (ptr_bytes h))"
  shows "wp (strcasestr_loop h nd (length (cstr (ptr_bytes nd))) cv addr k)
    (\<lambda>r t. ins_ok t \<and> r = first_at cv (cstr (ptr_bytes nd)) (cstr (ptr_bytes h)) k) s"
  using assms(1,6)
proof (induction "length (ptr_bytes h) - k" arbitrary: k s rule: less_induct)
  case less
  let ?h = "cstr (ptr_bytes h)" and ?w = "cstr (ptr_bytes nd)"
  have at: "k < length (ptr_bytes h)" "ptr_bytes h ! k = (?h @ [0]) ! k" using cstr_nth [OF h less.prems(2)] by auto
  show ?case
  proof (cases "k = length ?h")
    case True
    then have "first_at cv ?w ?h k = None" using w0 by (intro first_at_none) (auto simp: keys_def)
    then show ?thesis using True at less.prems(1) by (simp add: strcasestr_loop.simps [of h] wp_ret)
  next
    case False
    then have k: "k < length ?h" using less.prems(2) by simp
    then have nz: "ptr_bytes h ! k \<noteq> 0" using at(2) cstr_no_nul [of "ptr_bytes h"] by (metis nth_append nth_mem)
    have IH: "wp (strcasestr_loop h nd (length ?w) cv addr (Suc k)) (\<lambda>r t. ins_ok t \<and> r = first_at cv ?w ?h (Suc k)) t"
      if "ins_ok t" for t using that k at(1) by (intro less.hyps) auto
    from wp_candidate [OF less.prems(1) refl k strncmp_at [OF less.prems(1) h w less.prems(2) cv] IH] at(1) nz
    show ?thesis by (subst strcasestr_loop.simps) (simp cong: if_cong)
  qed
qed

lemma strcasestr_wp:
  assumes ok: "ins_ok s" and h: "0 \<in> set (ptr_bytes h)" and w: "0 \<in> set (ptr_bytes nd)" and cv: "char_conv cv"
  shows "wp (HF_strcasestr h nd cv addr)
    (\<lambda>r t. ins_ok t \<and> r = first_at cv (cstr (ptr_bytes nd)) (cstr (ptr_bytes h)) 0) s"
proof (cases "cstr (ptr_bytes nd) = []")
  case True
  then show ?thesis using ok w by (simp add: HF_strcasestr_def strlenM_def hf_wp first_at_here)
next
  case False
  have "wp (strcasestr_loop h nd (length (cstr (ptr_bytes nd))) cv addr 0)
    (\<lambda>r t. ins_ok t \<and> r = first_at cv (cstr (ptr_bytes nd)) (cstr (ptr_bytes h)) 0) t" if "const_step s t" for t
    by (rule strcasestr_loop_wp [OF const_step_ok [OF that ok] h w cv False]) simp
  then have "wp (instrumentAddConstStr (ptr_addr nd) (ptr_bytes nd)) (\<lambda>_. wp (strcasestr_loop h nd (length (cstr (ptr_bytes nd))) cv addr 0)
    (\<lambda>r t. ins_ok t \<and> r = first_at cv (cstr (ptr_bytes nd)) (cstr (ptr_bytes h)) 0)) s"
    by (rule wp_mono [OF wp_addStr [OF ok w]])
  then show ?thesis using w False by (simp add: HF_strcasestr_def strlenM_def wp_bnd wp_check wp_ret)
qed

text \<open>The search in memory looks at the offsets where the word still fits.\<close>

lemma first_at_end:
  assumes "length xs - length w < k" and "w \<noteq> []" and "k \<le> length xs" and "length w \<le> length xs"
  shows "first_at cv w xs k = None"
  using assms by (intro first_at_none) (auto dest!: arg_cong [of _ _ length])

lemma memmem_loop_wp:
  assumes "ins_ok s" and hl: "hl \<le> length (ptr_bytes h)" and nl: "nl \<le> length (ptr_bytes nd)" "0 < nl" "nl \<le> hl"
    and "k \<le> Suc (hl - nl)"
  shows "wp (memmem_loop h hl nd nl addr k)
    (\<lambda>r t. ins_ok t \<and> r = first_at (\<lambda>c. c) (take nl (ptr_bytes nd)) (take hl (ptr_bytes h)) k) s"
  using assms(1,6)
proof (induction "Suc (hl - nl) - k" arbitrary: k s rule: less_induct)
  case less
  let ?h = "take hl (ptr_bytes h)" and ?w = "take nl (ptr_bytes nd)"
  have len: "length ?h = hl" "length ?w = nl" using hl nl by simp_all
  show ?case
  proof (cases "hl - nl < k")
    case True
    then have "first_at (\<lambda>c. c) ?w ?h k = None" using len nl less.prems(2) by (intro first_at_end) auto
    then show ?thesis using True less.prems(1) by (simp add: memmem_loop.simps [of h] wp_ret)
  next
    case False
    then have k: "k < length ?h" "k + nl \<le> hl" using nl len by auto
    have IH: "wp (memmem_loop h hl nd nl addr (Suc k)) (\<lambda>r t. ins_ok t \<and> r = first_at (\<lambda>c. c) ?w ?h (Suc k)) t"
      if "ins_ok t" for t using that False by (intro less.hyps) auto
    have "take nl (drop k ?h) = take nl (drop k (ptr_bytes h))" using k(2) by (simp add: drop_take)
    then have "wp (HF_memcmp (ptr_add h k) nd nl False addr)
        (\<lambda>r t. ins_ok t \<and> (r = 0 \<longleftrightarrow> keys (\<lambda>c. c) (take nl (drop k ?h)) = keys (\<lambda>c. c) ?w)) s"
      using k hl nl by (intro wp_mono [OF memcmp_wp [OF less.prems(1)]]) (auto simp: compared_def ptr_add_def)
    from wp_candidate [OF less.prems(1) len(2) k(1) this IH] False show ?thesis
      by (subst memmem_loop.simps) (simp cong: if_cong)
  qed
qed

lemma memmem_wp:
  assumes ok: "ins_ok s" and hl: "hl \<le> length (ptr_bytes h)" and nl: "nl \<le> length (ptr_bytes nd)"
  shows "wp (HF_memmem h hl nd nl addr)
    (\<lambda>r t. ins_ok t \<and> r = first_at (\<lambda>c. c) (take nl (ptr_bytes nd)) (take hl (ptr_bytes h)) 0) s"
proof -
  let ?h = "take hl (ptr_bytes h)" and ?w = "take nl (ptr_bytes nd)"
  consider "hl < nl" | "nl = 0" | "0 < nl" "nl \<le> hl" by linarith
  then show ?thesis
  proof cases
    case 1
    then have "first_at (\<lambda>c. c) ?w ?h 0 = None" using hl nl
      by (intro first_at_none) (auto simp: keys_id dest!: arg_cong [of _ _ length])
    then show ?thesis using 1 ok by (simp add: HF_memmem_def wp_ret)
  next
    case 2
    then show ?thesis using ok by (simp add: HF_memmem_def wp_ret first_at_here)
  next
    case 3
    then have "wp (memmem_loop h hl nd nl addr 0) (\<lambda>r t. ins_ok t \<and> r = first_at (\<lambda>c. c) ?w ?h 0) t" if "const_step s t" for t
      using hl nl by (intro memmem_loop_wp const_step_ok [OF that ok]) auto
    then have "wp (instrumentAddConstMem (ptr_addr nd) (ptr_bytes nd) nl True) (\<lambda>_. wp (memmem_loop h hl nd nl addr 0)
        (\<lambda>r t. ins_ok t \<and> r = first_at (\<lambda>c. c) ?w ?h 0)) s"
      by (rule wp_mono [OF wp_addMem [OF ok nl]])
    then show ?thesis using 3 by (simp add: HF_memmem_def wp_bnd)
  qed
qed

section \<open>Copies\<close>

lemma str_split: "0 \<in> set bs \<Longrightarrow> take (Suc (length (cstr bs))) bs = cstr bs @ [0]"
  by (induction bs) auto

lemma str_take: "n \<le> length (cstr bs) \<Longrightarrow> take n bs = take n (cstr bs)"
proof (induction bs arbitrary: n)
  case (Cons b bs)
  then show ?case by (cases n) (auto split: if_splits)
qed simp

lemma cstr_append_nul: "0 \<notin> set xs \<Longrightarrow> cstr (xs @ 0 # ys) = xs"
  by (induction xs) auto

lemma wp_strlen: "0 \<in> set bs \<Longrightarrow> wp (strlenM bs) (\<lambda>n t. n = length (cstr bs) \<and> t = s) s"
  by (simp add: strlenM_def hf_wp)

lemma wp_log2_update:
  assumes "ins_ok s" and "n < 2 ^ 32"
  shows "wp (if 0 < n then bnd (lift_scan (util_Log2 n)) (\<lambda>v. bnd (instrumentUpdateCmpMap addr (of_nat v)) (\<lambda>_. ret ())) else ret ())
    (\<lambda>_. ins_ok) s"
proof (cases "0 < n")
  case True
  then have "util_Log2 n = Inr (floor_log2 n)" using assms(2) by (simp add: util_Log2_def Let_def)
  then show ?thesis using True by (simp add: wp_bnd wp_lift_scan wp_ret wp_mono [OF wp_updateCmp [OF assms(1)]])
qed (use assms in \<open>simp add: wp_ret\<close>)

lemma strcpy_wp:
  assumes ok: "ins_ok s" and src: "0 \<in> set (ptr_bytes src)" "length (cstr (ptr_bytes src)) < 2 ^ 32"
    and room: "off + length (cstr (ptr_bytes src)) < length dest"
  shows "wp (HF_strcpy dest off src addr) (\<lambda>r t. ins_ok t \<and>
    r = (off, take off dest @ cstr (ptr_bytes src) @ 0 # drop (off + length (cstr (ptr_bytes src)) + 1) dest)) s"
  unfolding HF_strcpy_def
proof (rule wp_seq [OF wp_strlen [OF src(1)]], elim conjE, hypsubst, rule wp_seq)
  show "wp (if 0 < length (cstr (ptr_bytes src)) then bnd (lift_scan (util_Log2 (length (cstr (ptr_bytes src))))) (\<lambda>v.
      bnd (instrumentUpdateCmpMap addr (of_nat v)) (\<lambda>_. ret ())) else ret ()) (\<lambda>_. ins_ok) s"
    using wp_log2_update [OF ok src(2)] .
qed (use room str_split [OF src(1)] in \<open>simp add: hf_wp buf_write_def\<close>)

lemma strcat_wp:
  assumes ok: "ins_ok s" and src: "0 \<in> set (ptr_bytes src)" "length (cstr (ptr_bytes src)) < 2 ^ 32"
    and dest: "0 \<in> set dest" "length (cstr dest) + length (cstr (ptr_bytes src)) < length dest"
  shows "wp (HF_strcat dest src addr) (\<lambda>r t. ins_ok t \<and> r = (length (cstr dest),
    cstr dest @ cstr (ptr_bytes src) @ 0 # drop (length (cstr dest) + length (cstr (ptr_bytes src)) + 1) dest)) s"
  using strcpy_wp [OF ok src dest(2)] dest(1) str_take [of "length (cstr dest)" dest]
  by (simp add: HF_strcat_def strlenM_def wp_bnd wp_check wp_ret)

lemma write_nul:
  assumes "off + length xs < length dest"
  shows "buf_write (take off dest @ xs @ drop (off + length xs) dest) (off + length xs) [0] =
    Some (take off dest @ xs @ 0 # drop (off + length xs + 1) dest)"
  using assms by (simp add: buf_write_def)

lemma strlcpy_copy_wp:
  assumes ok: "ins_ok s" and n: "n < 2 ^ 32" "n \<le> length (cstr (ptr_bytes src))" "off + n < length dest"
  shows "wp (if n > 0 then bnd (lift_scan (util_Log2 n)) (\<lambda>v. bnd (instrumentUpdateCmpMap addr (of_nat v)) (\<lambda>_.
         or_fault OutOfBounds (buf_write dest off (take n (ptr_bytes src))))) else ret dest)
      (\<lambda>d t. ins_ok t \<and> d = take off dest @ take n (cstr (ptr_bytes src)) @ drop (off + n) dest) s"
proof (cases "n > 0")
  case True
  have "util_Log2 n = Inr (floor_log2 n)" using True n(1) by (simp add: util_Log2_def Let_def)
  moreover have "buf_write dest off (take n (ptr_bytes src)) = Some (take off dest @ take n (cstr (ptr_bytes src)) @ drop (off + n) dest)"
    using n str_take [OF n(2)] by (simp add: buf_write_def)
  ultimately show ?thesis using True wp_mono [OF wp_updateCmp [OF ok, of addr "of_nat (floor_log2 n)"]]
    by (simp add: wp_bnd wp_lift_scan wp_or_fault)
qed (use ok in \<open>simp add: wp_ret\<close>)

lemma strlcpy_wp:
  assumes ok: "ins_ok s" and src: "0 \<in> set (ptr_bytes src)" "length (cstr (ptr_bytes src)) < 2 ^ 32"
    and room: "off + sz \<le> length dest" "0 < sz"
  shows "wp (HF_strlcpy dest off src sz addr) (\<lambda>r t. ins_ok t \<and> r = (length (cstr (ptr_bytes src)),
    take off dest @ take (sz - 1) (cstr (ptr_bytes src)) @ 0 # drop (off + min (sz - 1) (length (cstr (ptr_bytes src))) + 1) dest)) s"
proof -
  let ?s = "cstr (ptr_bytes src)"
  define n where "n = min (sz - 1) (length ?s)"
  have len: "(if (if sz < length ?s then sz else length ?s) = sz then (if sz < length ?s then sz else length ?s) - 1
      else (if sz < length ?s then sz else length ?s)) = n" using room(2) by (auto simp: n_def)
  have n: "n < 2 ^ 32" "n \<le> length ?s" "off + n < length dest" using src(2) room by (auto simp: n_def)
  have sz: "sz \<noteq> 0" using room(2) by simp
  have tk: "take (sz - 1) ?s = take n ?s" by (auto simp: n_def min_def)
  have fin: "wp (bnd (or_fault OutOfBounds (buf_write d (off + n) [0])) (\<lambda>dest. ret (length ?s, dest)))
    (\<lambda>r t. ins_ok t \<and> r = (length ?s, take off dest @ take n ?s @ 0 # drop (off + n + 1) dest)) t"
    if "ins_ok t \<and> d = take off dest @ take n ?s @ drop (off + n) dest" for d t
    using that write_nul [of off "take n ?s" dest] n by (simp add: wp_bnd wp_or_fault wp_ret)
  show ?thesis
    unfolding HF_strlcpy_def tk n_def [symmetric]
    by (rule wp_seq [OF wp_strlen [OF src(1)]], elim conjE, hypsubst, unfold Let_def len if_not_P [OF sz])
       (rule wp_seq [OF strlcpy_copy_wp [OF ok n] fin])
qed

section \<open>Properties\<close>

definition demo_str :: "string \<Rightarrow> cptr" where
  "demo_str xs = \<lparr>ptr_addr = 0, ptr_bytes = str xs @ [0]\<rparr>"

text \<open>C22: The replacement of \<open>strcmp\<close> computes the order of the two strings: on strings that end,
  and from every well-formed state of the run time, the call returns, the result is 0 exactly for
  equal strings and negative exactly when the first string comes first in the lexicographic order
  of unsigned characters, the slot of the comparison is raised to the length of the common
  prefix, other slots keep their values, and the run time stays well formed.\<close>

theorem HF_strcmp_correct:
  assumes "ins_ok s" and "0 \<in> set (ptr_bytes s1)" and "0 \<in> set (ptr_bytes s2)"
  shows "\<exists>r t. HF_strcmp s1 s2 addr s = Inr (r, t) \<and> ins_ok t \<and>
    (r = 0 \<longleftrightarrow> cstr (ptr_bytes s1) = cstr (ptr_bytes s2)) \<and>
    (r < 0 \<longleftrightarrow> ord_class.lexordp (map uint (cstr (ptr_bytes s1))) (map uint (cstr (ptr_bytes s2)))) \<and>
    slot_raised (HF_cmphash (ins_image s) addr s1 s2) (of_nat (cpl (cstr (ptr_bytes s1)) (cstr (ptr_bytes s2)))) s t"
proof -
  have "cpl (keys (\<lambda>c. c) xs) (keys (\<lambda>c. c) ys) = cpl xs ys" for xs ys
    by (induction xs ys rule: cpl.induct) (auto simp: word_uint_eq_iff)
  with wp_result [OF plain.strcasecmp_wp [OF assms, of addr]] show ?thesis
    unfolding HF_strcmp_case compared_def keys_id by (auto simp: keys_def)
qed

theorem HF_strcmp_correct_witness:
  "\<exists>r t. HF_strcmp (demo_str ''ab'') (demo_str ''b'') 7 demo_ins = Inr (r, t) \<and> r < 0"
  using HF_strcmp_correct [OF demo_ins_ok, of "demo_str ''ab''" "demo_str ''b''" 7]
  by (auto simp: demo_str_def str_def)

text \<open>The replacement of \<open>strncasecmp\<close> ignores the case of letters and looks at no more than
  \<open>n\<close> characters: it needs only that both arguments end or have \<open>n\<close> bytes, returns 0 exactly when
  the cut strings are equal up to the case, and otherwise the sign of their order.\<close>

theorem wrap_strncasecmp_correct:
  assumes "ins_ok s" and "readable n (ptr_bytes s1)" and "readable n (ptr_bytes s2)"
  shows "\<exists>r t. wrap_strncasecmp ra s1 s2 n s = Inr (r, t) \<and> ins_ok t \<and>
    (r = 0 \<longleftrightarrow> map (tolower \<circ> uint) (cstr (take n (ptr_bytes s1))) = map (tolower \<circ> uint) (cstr (take n (ptr_bytes s2)))) \<and>
    (r < 0 \<longleftrightarrow> ord_class.lexordp (map (tolower \<circ> uint) (cstr (take n (ptr_bytes s1))))
                 (map (tolower \<circ> uint) (cstr (take n (ptr_bytes s2)))))"
proof -
  have "wp (wrap_strncasecmp ra s1 s2 n) (compared tolower (HF_cmphash (ins_image s) ra s1 s2)
      (cstr (take n (ptr_bytes s1))) (cstr (take n (ptr_bytes s2))) s) s"
    unfolding wrap_strncasecmp_def instrumentConstAvail_def wp_bnd wp_gets by (rule lower.strncasecmp_wp [OF assms])
  from wp_result [OF this] show ?thesis by (auto simp: compared_def keys_def comp_def)
qed

theorem wrap_strncasecmp_correct_witness:
  "\<exists>t. wrap_strncasecmp 7 (demo_str ''aBc'') (demo_str ''Abd'') 2 demo_ins = Inr (0, t)"
  using wrap_strncasecmp_correct [OF demo_ins_ok, of 2 "demo_str ''aBc''" "demo_str ''Abd''" 7]
  by (auto simp: demo_str_def str_def readable_def tolower_def)

text \<open>The replacement of \<open>g_strstr_len\<close> finds the first occurrence: with a negative length the
  first offset at which the word is found in the string, otherwise the first in the given number
  of bytes (here the haystack need not end); the empty word is found at the start, and the run
  time stays well formed. Both search loops of the file are used.\<close>

theorem g_strstr_len_correct:
  assumes "ins_ok s" and "0 \<in> set (ptr_bytes w)"
    and "if len < 0 then 0 \<in> set (ptr_bytes h) else nat len \<le> length (ptr_bytes h)"
  defines "xs \<equiv> (if len < 0 then cstr (ptr_bytes h) else take (nat len) (ptr_bytes h))"
  shows "\<exists>t. g_strstr_len ra (Some h) len (Some w) s =
      Inr (find (\<lambda>i. take (length (cstr (ptr_bytes w))) (drop i xs) = cstr (ptr_bytes w)) [0..<Suc (length xs)], t) \<and> ins_ok t"
proof -
  have w: "take (length (cstr (ptr_bytes w))) (ptr_bytes w) = cstr (ptr_bytes w)" by (simp add: str_take)
  have "wp (g_strstr_len ra (Some h) len (Some w)) (\<lambda>r t. ins_ok t \<and> r = first_at (\<lambda>c. c) (cstr (ptr_bytes w)) xs 0) s"
  proof (cases "len < 0")
    case True
    then show ?thesis using strstr_wp [OF assms(1) _ assms(2), of h] assms(3)
      by (simp add: g_strstr_len_def null_or_def xs_def)
  next
    case False
    then show ?thesis
      using memmem_wp [OF assms(1), of "nat len" h "length (cstr (ptr_bytes w))" w] assms(2,3) length_cstr_le
      by (simp add: g_strstr_len_def null_or_def xs_def w strlenM_def wp_bnd wp_check wp_ret)
  qed
  from wp_result [OF this] show ?thesis by (auto simp: first_at_def keys_id)
qed

theorem g_strstr_len_correct_witness:
  "\<exists>t. g_strstr_len 7 (Some (demo_str ''aab'')) (- 1) (Some (demo_str ''ab'')) demo_ins = Inr (Some 1, t)"
  using g_strstr_len_correct [OF demo_ins_ok, of "demo_str ''ab''" "- 1" "demo_str ''aab''" 7]
  by (auto simp: demo_str_def str_def upt_rec)

text \<open>The replacement of \<open>strlcpy\<close> for a destination with at least \<open>sz\<close> bytes: with \<open>sz > 0\<close> it
  copies as many characters as fit before a final NUL, changes nothing behind it and returns the
  length of the source. With \<open>sz = 0\<close> it writes nothing and returns 0, where the documented
  function returns the length of the source.\<close>

theorem wrap_strlcpy_effect:
  assumes "ins_ok s" and "0 \<in> set (ptr_bytes src)" and "length (cstr (ptr_bytes src)) < 2 ^ 32" and "sz \<le> length dest"
  shows "\<exists>t. wrap_strlcpy ra dest src sz s = Inr ((if sz = 0 then (0, dest)
      else (length (cstr (ptr_bytes src)),
            take (sz - 1) (cstr (ptr_bytes src)) @ 0 # drop (min (sz - 1) (length (cstr (ptr_bytes src))) + 1) dest)), t) \<and> ins_ok t"
proof (cases "sz = 0")
  case True
  then show ?thesis using assms(1,2)
    by (simp add: wrap_strlcpy_def HF_strlcpy_def strlenM_def bnd_def check_def ret_def Let_def)
next
  case False
  then show ?thesis
    using wp_result [OF strlcpy_wp [OF assms(1-3), of 0 sz dest ra]] assms(4) by (auto simp: wrap_strlcpy_def)
qed

theorem wrap_strlcpy_effect_witness:
  "\<exists>t. wrap_strlcpy 7 [1, 2, 3, 4] (demo_str ''abc'') 3 demo_ins = Inr ((3, str ''ab'' @ [0, 4]), t)"
  using wrap_strlcpy_effect [OF demo_ins_ok, of "demo_str ''abc''" 3 "[1, 2, 3, 4]" 7]
  by (auto simp: demo_str_def str_def)

text \<open>The replacement of \<open>strcat\<close> appends the source, but returns the address of the appended
  part (the offset of the old end) instead of the destination, and the sanitizer hook of \<open>strcat\<close>,
  which runs after the real function, appends the source a second time.\<close>

theorem strcat_hook_appends_twice:
  assumes "ins_ok s" and "0 \<in> set (ptr_bytes src)" and "length (cstr (ptr_bytes src)) < 2 ^ 32" and "0 \<in> set dest"
    and "length (cstr dest) + 2 * length (cstr (ptr_bytes src)) < length dest"
  shows "\<exists>dest' t dest'' u. wrap_strcat ra dest src s = Inr ((length (cstr dest), dest'), t) \<and>
    cstr dest' = cstr dest @ cstr (ptr_bytes src) \<and>
    weak_hook_strcat pc dest' src t = Inr (dest'', u) \<and>
    cstr dest'' = cstr dest @ cstr (ptr_bytes src) @ cstr (ptr_bytes src)"
proof -
  let ?s = "cstr (ptr_bytes src)"
  define d where "d = cstr dest @ ?s @ 0 # drop (length (cstr dest) + length ?s + 1) dest"
  obtain t where t: "wrap_strcat ra dest src s = Inr ((length (cstr dest), d), t)" "ins_ok t"
    using wp_result [OF strcat_wp [OF assms(1-4), of ra]] assms(5) by (auto simp: wrap_strcat_def d_def)
  have d: "cstr d = cstr dest @ ?s" "length d = length dest" "0 \<in> set d"
    using cstr_append_nul [of "cstr dest @ ?s"] assms(5) by (simp_all add: d_def)
  have "length (cstr d) + length ?s < length d" using d assms(5) by simp
  from wp_result [OF strcat_wp [OF t(2) assms(2,3) d(3) this, of pc]] obtain u where
    u: "HF_strcat d src pc t = Inr ((length (cstr d), cstr d @ ?s @ 0 # drop (length (cstr d) + length ?s + 1) d), u)" by auto
  have "weak_hook_strcat pc d src t = Inr (cstr d @ ?s @ 0 # drop (length (cstr d) + length ?s + 1) d, u)"
    by (simp only: weak_hook_strcat_def bnd_def u sum.case prod.case ret_def)
  moreover have "cstr (cstr d @ ?s @ 0 # ys) = cstr dest @ ?s @ ?s" for ys
    using cstr_append_nul [of "cstr d @ ?s" ys] by (simp add: d(1))
  ultimately show ?thesis using t(1) d(1) by blast
qed

theorem strcat_hook_appends_twice_witness:
  "\<exists>dest' t dest'' u. wrap_strcat 7 (str ''x'' @ [0, 0, 0, 0]) (demo_str ''a'') demo_ins = Inr ((1, dest'), t) \<and>
    weak_hook_strcat 9 dest' (demo_str ''a'') t = Inr (dest'', u) \<and> cstr dest'' = str ''xaa''"
proof -
  have c: "cstr (str ''x'' @ [0, 0, 0, 0]) = str ''x''" "cstr (ptr_bytes (demo_str ''a'')) = str ''a''"
    "0 \<in> set (ptr_bytes (demo_str ''a''))"
    by (simp_all add: demo_str_def str_def)
  have l: "length (str ''x'') = 1" "length (str ''a'') = 1" "str ''x'' @ str ''a'' @ str ''a'' = str ''xaa''"
    by (simp_all add: str_def)
  from strcat_hook_appends_twice [OF demo_ins_ok c(3), of "str ''x'' @ [0, 0, 0, 0]" 7 9] show ?thesis
    unfolding c l by auto
qed

end
