(* ===== verification/HF_Partial.thy ===== *)
theory HF_Partial
  imports HF_Prelude
begin

text \<open>
  Computations that may not end: \<open>None\<close> is a loop that never returns, otherwise they give a fault
  or a result and the new state. They extend the monad of \<open>HF_Prelude\<close>.
\<close>

type_synonym ('s, 'a) pm = "'s \<Rightarrow> (fault + 'a \<times> 's) option"

definition pbnd :: "('s, 'a) pm \<Rightarrow> ('a \<Rightarrow> ('s, 'b) pm) \<Rightarrow> ('s, 'b) pm" where
  "pbnd m f = (\<lambda>s. case m s of None \<Rightarrow> None | Some (Inl e) \<Rightarrow> Some (Inl e) | Some (Inr (x, t)) \<Rightarrow> f x t)"

definition plift :: "('s, 'a) hm \<Rightarrow> ('s, 'a) pm" where
  "plift m = (\<lambda>s. Some (m s))"

definition pzoom :: "('s \<Rightarrow> 't) \<Rightarrow> ('t \<Rightarrow> 's \<Rightarrow> 's) \<Rightarrow> ('t, 'a) pm \<Rightarrow> ('s, 'a) pm" where
  "pzoom get put m = (\<lambda>s. case m (get s) of None \<Rightarrow> None | Some (Inl e) \<Rightarrow> Some (Inl e)
     | Some (Inr (x, t)) \<Rightarrow> Some (Inr (x, put t s)))"

text \<open>
  Partial correctness: if the computation returns, its only fault is a fatal exit, and its
  result and state satisfy \<open>Q\<close>.
\<close>

definition pwlp :: "('s, 'a) pm \<Rightarrow> ('a \<Rightarrow> 's \<Rightarrow> bool) \<Rightarrow> 's \<Rightarrow> bool" where
  "pwlp m Q s = (case m s of None \<Rightarrow> True | Some (Inl e) \<Rightarrow> e = LogFatal | Some (Inr (x, t)) \<Rightarrow> Q x t)"

lemma pwlp_pbnd: "pwlp (pbnd m f) Q = pwlp m (\<lambda>x. pwlp (f x) Q)"
  by (rule ext) (simp add: pwlp_def pbnd_def split: option.split sum.split prod.split)

lemma pwlp_plift: "pwlp (plift m) Q = wlp m Q"
  by (rule ext) (simp add: pwlp_def plift_def wlp_def)

lemma pwlp_pzoom: "pwlp (pzoom get put m) Q = (\<lambda>s. pwlp m (\<lambda>x t. Q x (put t s)) (get s))"
  by (rule ext) (simp add: pwlp_def pzoom_def split: option.split sum.split prod.split)

lemma pwlp_if: "pwlp (if b then m else n) Q = (if b then pwlp m Q else pwlp n Q)"
  by simp

lemmas hf_pwlp = pwlp_pbnd pwlp_plift pwlp_pzoom pwlp_if

lemma pwlp_mono: "pwlp m Q s \<Longrightarrow> (\<And>x t. Q x t \<Longrightarrow> R x t) \<Longrightarrow> pwlp m R s"
  by (auto simp: pwlp_def split: option.splits sum.splits)

lemma pwlp_seq: "pwlp m R s \<Longrightarrow> (\<And>x t. R x t \<Longrightarrow> pwlp (f x) Q t) \<Longrightarrow> pwlp (pbnd m f) Q s"
  unfolding pwlp_pbnd by (erule pwlp_mono) blast

lemma pwlp_result: "pwlp m Q s \<Longrightarrow> m s = Some r \<Longrightarrow> r = Inl LogFatal \<or> (\<exists>x t. r = Inr (x, t) \<and> Q x t)"
  by (auto simp: pwlp_def split: sum.splits)

end
