(* ===== verification/HF_Fuzz.thy ===== *)
theory HF_Fuzz
  imports HF_Partial HF_Driver HF_Instrument
begin

text \<open>
  \<open>honggfuzz/fuzz.c\<close> and \<open>honggfuzz/fuzz_profiling.c\<close>: one iteration of a fuzzing thread. It
  updates statistics, loads and switches drivers, fetches an input according to the phase, runs
  the target and evaluates the coverage the target left in the shared map; an input with new
  coverage goes into the queue.

  Running the target (\<open>subproc_Run\<close>), saving a report and the external commands are parameters
  of type \<open>fuzz_cfg\<close>. The counter by which the threads agree on leaving the dry run is shared:
  what a thread sees of it while it waits is a parameter here, and \<open>HF_Phase\<close> models the threads
  together.
\<close>

section \<open>State\<close>

record hwcnt_t =
  cpuInstrCnt :: u64
  cpuBranchCnt :: u64
  bbCnt :: u64
  newBBCnt :: u64

record inplace_edit_t =
  inplaceOrigPath :: path
  inplaceTmpPath :: path
  inplaceOrigFd :: int

text \<open>A thread: its run with the session, the shared map, the counters of the process
  (\<open>fz_ghw\<close>) and of the run (\<open>fz_rhw\<close>), and the other fields of \<open>run_t\<close>.\<close>

record fuzz_t =
  fz_ses :: session_t
  fz_cov :: feedback_t
  fuzzNo :: nat
  fz_ghw :: hwcnt_t
  fz_rhw :: hwcnt_t
  termTimeStamp :: int
  switchingToFDM :: bool
  crashFileName :: path
  run_pc :: u64
  backtrace :: u64
  run_access :: u64
  run_exception :: int
  run_report :: "byte list"
  mainWorker :: bool
  run_pid :: int
  dyn_fd :: int
  open_fds :: "int set"
  inPlaceEdits :: inplace_edit_t
  crashesCnt :: nat
  timeoutedCnt :: nat
  threadsActiveCnt :: nat
  threadsFinished :: nat
  verifiedCrashesCnt :: nat
  stats_lines :: "byte list"
  g_last_sec :: u32
  g_prof_header_written :: bool
  prof_file :: "byte list"

record fuzz_cfg =
  c_skipFeedbackOnTimeout :: bool
  c_useVerifier :: bool
  c_exitUponCrash :: bool
  c_statsFile :: bool
  c_mutationsMax :: nat
  c_session_path :: "path option"
  c_externalCommand :: "(byte list \<Rightarrow> byte list option) option"
  c_postExternalCommand :: "(byte list \<Rightarrow> byte list option) option"
  c_feedbackMutateCommand :: "(byte list \<Rightarrow> byte list option) option"
  c_subproc_Run :: "(fuzz_t, bool) hm"
  c_waitForExternalInput :: "(fuzz_t, bool) hm"
  c_saveReport :: "(fuzz_t, unit) hm"
  c_json_parse :: "byte list \<Rightarrow> drv_json option"
  c_reads :: "nat \<Rightarrow> byte list option"
  c_seen :: "nat \<Rightarrow> u32 \<times> bool"
  c_mkstemp :: "path \<Rightarrow> (path \<times> int) option"
  c_written :: "nat \<Rightarrow> nat"
  c_prof_writable :: bool
  c_rss_kb :: u64

definition fz_run :: "fuzz_t \<Rightarrow> run_t" where
  "fz_run s = ses_run (fz_ses s)"

definition fz_hf :: "fuzz_t \<Rightarrow> hfuzz_t" where
  "fz_hf s = global (fz_run s)"

definition put_run :: "run_t \<Rightarrow> fuzz_t \<Rightarrow> fuzz_t" where
  "put_run r s = s\<lparr>fz_ses := (fz_ses s)\<lparr>ses_run := r\<rparr>\<rparr>"

definition runM :: "(run_t, 'a) hm \<Rightarrow> (fuzz_t, 'a) hm" where
  "runM m = zoom fz_run put_run m"

definition runP :: "(run_t, 'a) pm \<Rightarrow> (fuzz_t, 'a) pm" where
  "runP m = pzoom fz_run put_run m"

definition sesM :: "(session_t, 'a) hm \<Rightarrow> (fuzz_t, 'a) hm" where
  "sesM m = zoom fz_ses (\<lambda>u s. s\<lparr>fz_ses := u\<rparr>) m"

section \<open>Termination\<close>

definition fuzz_isTerminating :: "fuzz_t \<Rightarrow> bool" where
  "fuzz_isTerminating s \<longleftrightarrow> termTimeStamp s \<noteq> 0"

definition fuzz_setTerminating :: "(fuzz_t, unit) hm" where
  "fuzz_setTerminating = modify (\<lambda>s. if termTimeStamp s \<noteq> 0 then s else s\<lparr>termTimeStamp := now (fz_run s)\<rparr>)"

definition fuzz_shouldTerminate :: "fuzz_t \<Rightarrow> bool" where
  "fuzz_shouldTerminate s \<longleftrightarrow> termTimeStamp s \<noteq> 0 \<and> now (fz_run s) - termTimeStamp s > 5"

section \<open>Leaving the dry run\<close>

text \<open>The waiting loop: \<open>seen i\<close> is the counter and whether the process terminates at check \<open>i\<close>.\<close>

partial_function (option) wait_all :: "(nat \<Rightarrow> u32 \<times> bool) \<Rightarrow> nat \<Rightarrow> nat \<Rightarrow> bool option" where
  "wait_all seen mx i =
     (if unat (fst (seen i)) = mx then Some True
      else if snd (seen i) then Some False
      else wait_all seen mx (i + 1))"

definition empty_input :: dynfile_t where
  "empty_input = \<lparr>d_size = 0, d_cov = [0, 0, 0, 0], d_idx = 0, d_driver_id = 959527, d_timeExecUSecs = 1,
     d_path = str ''[DYNAMIC-0-SIZE]'', d_src = None, d_refs = 0, d_phase = STATE_UNSET, d_timedout = False,
     d_data = [], d_imported = False\<rparr>"

definition add_empty_input :: "(run_t, unit) hm" where
  "add_empty_input = (\<lambda>r. case input_addDynamicInput (r\<lparr>dynfile := empty_input\<rparr>) of
     Inl e \<Rightarrow> Inl e | Inr (_, r') \<Rightarrow> Inr ((), r'\<lparr>dynfile := dynfile r\<rparr>))"

definition limit_input_size :: "hfuzz_t \<Rightarrow> hfuzz_t" where
  "limit_input_size h =
     (if io_maxFileSz h = 0 \<and> mutate_maxInputSz h > HF_INPUT_DEFAULT_SIZE
      then let newsz = (if io_dynfileqMaxSz h \<ge> HF_INPUT_DEFAULT_SIZE then io_dynfileqMaxSz h else HF_INPUT_DEFAULT_SIZE);
               newsz = sz_add newsz (newsz div 4)
           in h\<lparr>mutate_maxInputSz := (if newsz > mutate_maxInputSz h then mutate_maxInputSz h else newsz)\<rparr>
      else h)"

text \<open>What the thread does that finds all threads ready.\<close>

definition finish_switch :: "(run_t, unit) hm" where
  "finish_switch =
     bnd (gets global) (\<lambda>h.
     if cfg_minimize h then modify (\<lambda>r. r\<lparr>global := (global r)\<lparr>feedback_state := STATE_DYNAMIC_MINIMIZE\<rparr>\<rparr>)
     else
       bnd (if io_dynfileqCnt h = 0 then add_empty_input else ret ()) (\<lambda>_.
       bnd (modify (setPath (str ''[DYNAMIC]''))) (\<lambda>_.
       bnd (modify (\<lambda>r. r\<lparr>global := limit_input_size (global r)\<rparr>)) (\<lambda>_.
       modify (\<lambda>r. r\<lparr>global := (global r)\<lparr>feedback_state := STATE_DYNAMIC_MAIN\<rparr>\<rparr>)))))"

definition fuzz_setDynamicMainState :: "fuzz_cfg \<Rightarrow> (fuzz_t, unit) pm" where
  "fuzz_setDynamicMainState c = (\<lambda>s.
     if fuzz_getState (fz_hf s) \<noteq> STATE_DYNAMIC_DRY_RUN then Some (Inr ((), s))
     else case wait_all (c_seen c) (threads_threadsMax (fz_hf s)) 0 of
            None \<Rightarrow> None
          | Some False \<Rightarrow> Some (Inr ((), s\<lparr>switchingToFDM := True\<rparr>))
          | Some True \<Rightarrow> Some (runM finish_switch (s\<lparr>switchingToFDM := False\<rparr>)))"

section \<open>Minimizing the corpus\<close>

partial_function (option) minimize_loop :: "run_t \<Rightarrow> (fault + unit \<times> run_t) option" where
  "minimize_loop r =
     (case input_getNext False (global r) of
        None \<Rightarrow> None
      | Some (None, h) \<Rightarrow> Some (Inr ((), r\<lparr>global := h\<rparr>))
      | Some (Some (fname, len), h) \<Rightarrow>
          (case input_inDynamicCorpus fname len h of
             Inl e \<Rightarrow> Some (Inl e)
           | Inr found \<Rightarrow>
               minimize_loop (r\<lparr>global := (if found then h else snd (input_removeStaticFile (inputDir h) fname h))\<rparr>)))"

definition fuzz_minimizeRemoveFiles :: "(run_t, unit) pm" where
  "fuzz_minimizeRemoveFiles = (\<lambda>r.
     if io_outputDir (global r) \<noteq> None then Some (Inr ((), r))
     else
       let (ok, h) = input_getDirStatsAndRewind (global r); r = r\<lparr>global := h\<rparr>
       in if \<not> ok then Some (Inr ((), r)) else minimize_loop r)"

section \<open>Feedback\<close>

text \<open>Reading and clearing the entry of the thread in an array of the shared map.\<close>

definition take_pid ::
  "(feedback_t \<Rightarrow> nat \<Rightarrow> u64) \<Rightarrow> (((nat \<Rightarrow> u64) \<Rightarrow> nat \<Rightarrow> u64) \<Rightarrow> feedback_t \<Rightarrow> feedback_t) \<Rightarrow> (fuzz_t, u64) hm" where
  "take_pid get upd =
     bnd (gets fuzzNo) (\<lambda>n.
     bnd (check OutOfBounds (n < HF_THREAD_MAX)) (\<lambda>_.
     bnd (gets (\<lambda>s. get (fz_cov s) n)) (\<lambda>v.
     bnd (modify (\<lambda>s. s\<lparr>fz_cov := upd (\<lambda>a. a(n := 0)) (fz_cov s)\<rparr>)) (\<lambda>_. ret v))))"

record soft_t =
  softNewPC :: u64
  softCurPC :: u64
  softNewEdge :: u64
  softCurEdge :: u64
  softNewCmp :: u64
  softCurCmp :: u64

definition read_soft :: "(fuzz_t, soft_t) hm" where
  "read_soft =
     bnd (take_pid pidNewPC pidNewPC_update) (\<lambda>np.
     bnd (take_pid pidTotalPC pidTotalPC_update) (\<lambda>cp.
     bnd (take_pid pidNewEdge pidNewEdge_update) (\<lambda>ne.
     bnd (take_pid pidTotalEdge pidTotalEdge_update) (\<lambda>ce.
     bnd (take_pid pidNewCmp pidNewCmp_update) (\<lambda>nc.
     bnd (take_pid pidTotalCmp pidTotalCmp_update) (\<lambda>cc.
     ret \<lparr>softNewPC = np, softCurPC = cp, softNewEdge = ne, softCurEdge = ce, softNewCmp = nc, softCurCmp = cc\<rparr>))))))"

definition no_soft :: soft_t where
  "no_soft = \<lparr>softNewPC = 0, softCurPC = 0, softNewEdge = 0, softCurEdge = 0, softNewCmp = 0, softCurCmp = 0\<rparr>"

text \<open>The line of the statistics file.\<close>

definition stats_line :: "fuzz_cfg \<Rightarrow> fuzz_t \<Rightarrow> byte list" where
  "stats_line c s =
     (let h = fz_hf s; curr_sec = now (fz_run s); elapsed_sec = curr_sec - timing_timeStart h;
          cnt = cnts_mutationsCnt h;
          curr_exec_cnt = (if c_mutationsMax c > 0 \<and> cnt > c_mutationsMax c then c_mutationsMax c else cnt);
          tot_exec_per_sec = (if elapsed_sec \<noteq> 0 then curr_exec_cnt div nat (elapsed_sec mod 2 ^ 64) else 0);
          sep = str '', ''
      in dec_nat (nat (curr_sec mod 2 ^ 64)) @ sep @ dec_nat (nat (timing_lastCovUpdate h mod 2 ^ 64)) @ sep @
         dec_nat curr_exec_cnt @ sep @ dec_nat tot_exec_per_sec @ sep @ dec_nat (crashesCnt s) @ sep @
         u_dec (uniqueCrashesCnt (fz_ses s)) @ sep @ dec_nat (timeoutedCnt s) @ sep @
         u_dec (softCntEdge (fz_ses s)) @ sep @ u_dec (softCntPc (fz_ses s)) @ sep @ dec_nat (io_dynfileqCnt h) @ [10])"

definition modR :: "(run_t \<Rightarrow> run_t) \<Rightarrow> (fuzz_t, unit) hm" where
  "modR f = runM (modify f)"

definition diff0 :: "fuzz_t \<Rightarrow> int" where
  "diff0 s = sint (cpuInstrCnt (fz_ghw s) - cpuInstrCnt (fz_rhw s))"

definition diff1 :: "fuzz_t \<Rightarrow> int" where
  "diff1 s = sint (cpuBranchCnt (fz_ghw s) - cpuBranchCnt (fz_rhw s))"

definition new_coverage :: "soft_t \<Rightarrow> fuzz_t \<Rightarrow> bool" where
  "new_coverage f s \<longleftrightarrow> newBBCnt (fz_rhw s) > 0 \<or> softNewPC f > 0 \<or> softNewEdge f > 0 \<or> softNewCmp f > 0 \<or>
     diff0 s < 0 \<or> diff1 s < 0"

definition count_new :: "soft_t \<Rightarrow> fuzz_t \<Rightarrow> fuzz_t" where
  "count_new f s =
     s\<lparr>fz_ghw := (fz_ghw s)\<lparr>
         cpuInstrCnt := (if diff0 s < 0 then cpuInstrCnt (fz_rhw s) else cpuInstrCnt (fz_ghw s)),
         cpuBranchCnt := (if diff1 s < 0 then cpuBranchCnt (fz_rhw s) else cpuBranchCnt (fz_ghw s)),
         bbCnt := bbCnt (fz_ghw s) + newBBCnt (fz_rhw s)\<rparr>,
       fz_ses := (fz_ses s)\<lparr>softCntPc := softCntPc (fz_ses s) + softNewPC f,
         softCntEdge := softCntEdge (fz_ses s) + softNewEdge f, softCntCmp := softCntCmp (fz_ses s) + softNewCmp f\<rparr>\<rparr>"

definition size_cov :: "nat \<Rightarrow> (fuzz_t, u64) hm" where
  "size_cov sz =
     (if sz = 0 then ret 64
      else case util_Log2 sz of Inl e \<Rightarrow> raise e | Inr v \<Rightarrow> ret (of_nat (64 - v)))"

definition input_cov :: "soft_t \<Rightarrow> u64 \<Rightarrow> hwcnt_t \<Rightarrow> u64 list" where
  "input_cov f v hw = [softCurEdge f + softCurPC f + bbCnt hw, softCurCmp f, cpuInstrCnt hw + cpuBranchCnt hw, v]"

text \<open>The input has new coverage: count it and add the input to the queue.\<close>

definition feedback_new :: "fuzz_cfg \<Rightarrow> soft_t \<Rightarrow> (fuzz_t, unit) hm" where
  "feedback_new c f =
     bnd (modify (count_new f)) (\<lambda>_.
     bnd (modify (\<lambda>s. if c_statsFile c then s\<lparr>stats_lines := stats_lines s @ stats_line c s\<rparr> else s)) (\<lambda>_.
     bnd (gets (\<lambda>s. inSize (fz_run s))) (\<lambda>sz.
     bnd (size_cov sz) (\<lambda>v.
     bnd (gets fz_rhw) (\<lambda>hw.
     bnd (modR (\<lambda>r. r\<lparr>dynfile := (dynfile r)\<lparr>d_cov := input_cov f v hw, d_imported := False\<rparr>\<rparr>)) (\<lambda>_.
     runM input_addDynamicInput))))))"

text \<open>It has none: an imported file is of no use.\<close>

definition feedback_none :: "(fuzz_t, unit) hm" where
  "feedback_none =
     modR (\<lambda>r. if d_imported (dynfile r)
       then r\<lparr>global := unlink_file
              (join_path (case io_outputDir (global r) of Some d \<Rightarrow> d | None \<Rightarrow> inputDir (global r)) (d_path (dynfile r)))
              (global r)\<rparr>
       else r)"

definition fuzz_perfFeedback :: "fuzz_cfg \<Rightarrow> (fuzz_t, unit) hm" where
  "fuzz_perfFeedback c =
     bnd (gets (\<lambda>s. (c_skipFeedbackOnTimeout c \<and> tmOutSignaled (fz_run s)) \<or> feedback_dynFileMethod (fz_hf s) = DYNFILE_NONE)) (\<lambda>skip.
     if skip then ret ()
     else
       bnd (gets (\<lambda>s. feedback_dynFileMethod (fz_hf s) AND DYNFILE_SOFT \<noteq> 0)) (\<lambda>soft.
       bnd (if soft then read_soft else ret no_soft) (\<lambda>f.
       bnd (gets (new_coverage f)) (\<lambda>new.
       if new then feedback_new c f else feedback_none))))"

section \<open>The verifier\<close>

definition HF_VERIFIER_ITER :: nat where "HF_VERIFIER_ITER = 5"

text \<open>The repetitions: the result is whether all of them gave the same stack hash.\<close>

primrec verify_loop :: "fuzz_cfg \<Rightarrow> u64 \<Rightarrow> nat \<Rightarrow> (fuzz_t, bool) hm" where
  "verify_loop c bt 0 = ret True"
| "verify_loop c bt (Suc i) =
     bnd (modR (\<lambda>r. r\<lparr>timeStartedUSecs := nowUSecs r\<rparr>)) (\<lambda>_.
     bnd (modify (\<lambda>s. s\<lparr>backtrace := 0, run_access := 0, run_exception := 0, mainWorker := False\<rparr>)) (\<lambda>_.
     bnd (c_subproc_Run c) (\<lambda>ok.
     bnd (check LogFatal ok) (\<lambda>_.
     bnd (gets backtrace) (\<lambda>b.
     if b \<noteq> bt then bnd (modify (\<lambda>s. s\<lparr>backtrace := bt\<rparr>)) (\<lambda>_. ret False)
     else verify_loop c bt i)))))"

definition setFiles :: "((path \<Rightarrow> byte list option) \<Rightarrow> path \<Rightarrow> byte list option) \<Rightarrow> fuzz_t \<Rightarrow> fuzz_t" where
  "setFiles f s = put_run ((fz_run s)\<lparr>global := (fz_hf s)\<lparr>io_fs := (io_fs (fz_hf s))\<lparr>fs_files := f (fs_files (io_fs (fz_hf s)))\<rparr>\<rparr>\<rparr>) s"

definition fuzz_runVerifier :: "fuzz_cfg \<Rightarrow> (fuzz_t, bool) hm" where
  "fuzz_runVerifier c =
     bnd (gets (\<lambda>s. (crashFileName s, backtrace s))) (\<lambda>(orig, bt).
     if orig = [] \<or> bt = 0 then ret False
     else
       let origCrashPath = snprintf_cut PATH_MAX orig;
           verFile = snprintf_cut PATH_MAX (origCrashPath @ str ''.verified'')
       in bnd (gets (\<lambda>s. files_exists (io_fs (fz_hf s)) verFile)) (\<lambda>ex.
          if ex then ret False
          else bnd (verify_loop c bt HF_VERIFIER_ITER) (\<lambda>same.
               if \<not> same then ret True
               else
                 bnd (gets (\<lambda>s. (io_fs (fz_hf s), dynfile (fz_run s)))) (\<lambda>(fs, df).
                 if files_exists fs verFile then ret False
                 else if fs_denied fs verFile then ret True
                 else if c_written c (d_size df) \<noteq> d_size df
                 then bnd (modify (setFiles (\<lambda>m. m(verFile := None)))) (\<lambda>_. ret True)
                 else
                   bnd (modR (\<lambda>r. r\<lparr>global := (global r)\<lparr>io_fs := fs\<lparr>fs_files :=
                          (fs_files fs)(verFile \<mapsto> take (d_size df) (d_data df))\<rparr>\<rparr>\<rparr>)) (\<lambda>_.
                   bnd (modify (\<lambda>s. s\<lparr>verifiedCrashesCnt := sz_add (verifiedCrashesCnt s) 1\<rparr>)) (\<lambda>_.
                   ret True))))))"

section \<open>Fetching an input\<close>

text \<open>In the dry run: a file of the corpus as it is, or, when there is none left, the next phase.\<close>

definition fetch_dry_run :: "fuzz_cfg \<Rightarrow> (fuzz_t, bool) pm" where
  "fetch_dry_run c =
     pbnd (plift (gets (\<lambda>s. fuzz_getState (fz_hf s)))) (\<lambda>st.
     if st \<noteq> STATE_DYNAMIC_DRY_RUN then plift (ret False)
     else
       pbnd (plift (modR (\<lambda>r. r\<lparr>run_mutationsPerRun := 0\<rparr>))) (\<lambda>_.
       pbnd (runP (input_prepareStaticFile False False)) (\<lambda>got.
       if got then plift (ret True)
       else
         pbnd (fuzz_setDynamicMainState c) (\<lambda>_.
         pbnd (plift (modR (\<lambda>r. r\<lparr>run_mutationsPerRun := mutate_mutationsPerRun (global r)\<rparr>))) (\<lambda>_.
         plift (ret False))))))"

definition fetch_dynamic :: "fuzz_cfg \<Rightarrow> (fuzz_t, bool) pm" where
  "fetch_dynamic c =
     (case c_externalCommand c of
        Some cmd \<Rightarrow> plift (runM (input_prepareExternalFile cmd))
      | None \<Rightarrow> runP (input_prepareDynamicInput (c_feedbackMutateCommand c = None)))"

definition fetch_static :: "fuzz_cfg \<Rightarrow> (fuzz_t, bool) pm" where
  "fetch_static c =
     (case c_externalCommand c of
        Some cmd \<Rightarrow> plift (runM (input_prepareExternalFile cmd))
      | None \<Rightarrow> runP (input_prepareStaticFile True (c_feedbackMutateCommand c = None)))"

definition post_process :: "(byte list \<Rightarrow> byte list option) option \<Rightarrow> (fuzz_t, bool) hm" where
  "post_process cmd = (case cmd of None \<Rightarrow> ret True | Some f \<Rightarrow> runM (input_postProcessFile f))"

definition fuzz_fetchInput :: "fuzz_cfg \<Rightarrow> (fuzz_t, bool) pm" where
  "fuzz_fetchInput c =
     pbnd (fetch_dry_run c) (\<lambda>got.
     if got then plift (ret True)
     else pbnd (plift (gets (\<lambda>s. fuzz_getState (fz_hf s)))) (\<lambda>st.
       if st = STATE_DYNAMIC_MINIMIZE then pbnd (runP fuzz_minimizeRemoveFiles) (\<lambda>_. plift (ret False))
       else pbnd (if st = STATE_DYNAMIC_MAIN then fetch_dynamic c else plift (ret True)) (\<lambda>ok.
         if \<not> ok then plift (ret False)
         else pbnd (plift (gets (\<lambda>s. fuzz_getState (fz_hf s)))) (\<lambda>st.
           pbnd (if st = STATE_STATIC then fetch_static c else plift (ret True)) (\<lambda>ok.
           if \<not> ok then plift (ret False)
           else pbnd (plift (post_process (c_postExternalCommand c))) (\<lambda>ok.
             if \<not> ok then plift (ret False)
             else plift (post_process (c_feedbackMutateCommand c))))))))"

section \<open>Editing in place\<close>

text \<open>\<open>%06u\<close>.\<close>

definition pad6 :: "nat \<Rightarrow> byte list" where
  "pad6 n = (let d = dec_nat n in replicate (6 - length d) 48 @ d)"

text \<open>The copy: its descriptor (0 for a failure) and the name \<open>mkstemp\<close> made of the template.\<close>

definition fuzz_makeWorkingCopy :: "fuzz_cfg \<Rightarrow> path \<Rightarrow> (fuzz_t, int \<times> path) hm" where
  "fuzz_makeWorkingCopy c tmpCopy =
     (case c_mkstemp c tmpCopy of
        None \<Rightarrow> ret (0, tmpCopy)
      | Some (p, fd) \<Rightarrow>
          bnd (gets (\<lambda>s. inSize (fz_run s))) (\<lambda>sz.
          bnd (runM (readIn 0 sz)) (\<lambda>bs.
          if c_written c sz \<noteq> sz then bnd (modify (setFiles (\<lambda>m. m(p := None)))) (\<lambda>_. ret (0, p))
          else bnd (modify (\<lambda>s. (setFiles (\<lambda>m. m(p \<mapsto> bs)) s)\<lparr>open_fds := insert fd (open_fds s)\<rparr>)) (\<lambda>_.
               ret (fd, p)))))"

definition fuzz_redirectToCopy :: "fuzz_cfg \<Rightarrow> path \<Rightarrow> (fuzz_t, unit) hm" where
  "fuzz_redirectToCopy c tmpl =
     bnd (fuzz_makeWorkingCopy c tmpl) (\<lambda>(tmpFd, tmpl).
     if tmpFd \<le> 0 then ret ()
     else
       bnd (modify (\<lambda>s. s\<lparr>inPlaceEdits := \<lparr>
              inplaceOrigPath = snprintf_cut PATH_MAX (d_path (dynfile (fz_run s))),
              inplaceTmpPath = snprintf_cut PATH_MAX tmpl, inplaceOrigFd = dyn_fd s\<rparr>\<rparr>)) (\<lambda>_.
       bnd (gets (\<lambda>s. inplaceTmpPath (inPlaceEdits s))) (\<lambda>tmp.
       bnd (modR (setPath (snprintf_cut PATH_MAX tmp))) (\<lambda>_.
       modify (\<lambda>s. s\<lparr>dyn_fd := tmpFd\<rparr>)))))"

definition inplace_template :: "fuzz_cfg \<Rightarrow> fuzz_t \<Rightarrow> path" where
  "inplace_template c s = snprintf_cut PATH_MAX
     ((case c_session_path c of Some d \<Rightarrow> d | None \<Rightarrow> str ''/tmp'') @ str ''/hfuzz_inplace_'' @ pad6 (fuzzNo s) @ [95] @
      pad6 (unat (d_driver_id (dynfile (fz_run s)))) @ str ''_XXXXXX'')"

definition fuzz_inPlaceEditBefore :: "fuzz_cfg \<Rightarrow> (fuzz_t, unit) hm" where
  "fuzz_inPlaceEditBefore c =
     bnd (gets (\<lambda>s. t_inPlaceEdit (ses_tab (fz_ses s)) = 0 \<or> inSize (fz_run s) = 0)) (\<lambda>skip.
     if skip then ret ()
     else bnd (gets (inplace_template c)) (fuzz_redirectToCopy c))"

definition fuzz_unLinkTempCopy :: "(fuzz_t, unit) hm" where
  "fuzz_unLinkTempCopy =
     bnd (gets (\<lambda>s. inplaceTmpPath (inPlaceEdits s))) (\<lambda>tmp.
     if tmp = [] then ret ()
     else modify (\<lambda>s. (setFiles (\<lambda>m. m(tmp := None)) s)\<lparr>inPlaceEdits :=
            \<lparr>inplaceOrigPath = [], inplaceTmpPath = [], inplaceOrigFd = 0\<rparr>\<rparr>))"

definition fuzz_inPlaceEditAfter :: "(fuzz_t, unit) hm" where
  "fuzz_inPlaceEditAfter =
     bnd (gets (\<lambda>s. (t_inPlaceEdit (ses_tab (fz_ses s)) = 0, inPlaceEdits s))) (\<lambda>(off, ie).
     if off \<or> inplaceTmpPath ie = [] then ret ()
     else
       bnd (modR (setPath (snprintf_cut PATH_MAX (inplaceOrigPath ie)))) (\<lambda>_.
       bnd (modify (\<lambda>s. if dyn_fd s \<ge> 0 then s\<lparr>open_fds := open_fds s - {dyn_fd s}\<rparr> else s)) (\<lambda>_.
       bnd (modify (\<lambda>s. if inplaceOrigFd ie > 0 then s\<lparr>dyn_fd := inplaceOrigFd ie\<rparr> else s)) (\<lambda>_.
       fuzz_unLinkTempCopy))))"

section \<open>Profiling\<close>

definition HF_M_PROFILING_PERIOD :: u32 where "HF_M_PROFILING_PERIOD = 300"

record hf_fuzz_metrics_t =
  iterations :: nat
  edges_covered :: u64
  uniq_crashes :: u64
  corpus_size :: nat

definition hf_profiler_collect_metrics :: "fuzz_t \<Rightarrow> hf_fuzz_metrics_t" where
  "hf_profiler_collect_metrics s =
     \<lparr>iterations = cnts_mutationsCnt (fz_hf s), edges_covered = softCntEdge (fz_ses s),
      uniq_crashes = uniqueCrashesCnt (fz_ses s), corpus_size = io_dynfileqCnt (fz_hf s)\<rparr>"

definition hf_profiler_sampling :: "fuzz_cfg \<Rightarrow> (fuzz_t, unit) hm" where
  "hf_profiler_sampling c =
     bnd (modify (\<lambda>s. if g_last_sec s = 0 then s\<lparr>prof_file := []\<rparr> else s)) (\<lambda>_.
     bnd (gets (\<lambda>s. (of_int (now (fz_run s)) :: u32, g_last_sec s))) (\<lambda>(ts, prev).
     if ts - prev < HF_M_PROFILING_PERIOD then ret ()
     else
       bnd (modify (\<lambda>s. s\<lparr>g_last_sec := ts\<rparr>)) (\<lambda>_.
       if \<not> c_prof_writable c then ret ()
       else
         bnd (gets hf_profiler_collect_metrics) (\<lambda>m.
         bnd (modify (\<lambda>s. if g_prof_header_written s then s
                else s\<lparr>prof_file := prof_file s @
                         str ''timestamp, iterations, edges_covered, uniq_crashes, corpus_size, rss_kb'' @ [10],
                       g_prof_header_written := True\<rparr>)) (\<lambda>_.
         modify (\<lambda>s. s\<lparr>prof_file := prof_file s @ u_dec ts @ str '', '' @ dec_nat (iterations m) @ str '', '' @
           u_dec (edges_covered m) @ str '', '' @ u_dec (uniq_crashes m) @ str '', '' @ dec_nat (corpus_size m) @
           str '', '' @ u_dec (c_rss_kb c) @ [10]\<rparr>))))))"

section \<open>An iteration\<close>

definition zero_hw :: hwcnt_t where
  "zero_hw = \<lparr>cpuInstrCnt = 0, cpuBranchCnt = 0, bbCnt = 0, newBBCnt = 0\<rparr>"

definition reset_run :: "(fuzz_t, unit) hm" where
  "reset_run =
     bnd (modR (\<lambda>r. r\<lparr>timeStartedUSecs := nowUSecs r,
       run_mutationsPerRun := mutate_mutationsPerRun (global r), tmOutSignaled := False\<rparr>)) (\<lambda>_.
     modify (\<lambda>s. s\<lparr>crashFileName := [], run_pc := 0, backtrace := 0, run_access := 0, run_exception := 0,
       run_report := [], mainWorker := True, fz_rhw := zero_hw\<rparr>))"

definition drive_session :: "fuzz_cfg \<Rightarrow> (fuzz_t, unit) hm" where
  "drive_session c =
     bnd (sesM driver_saveGlobalStats) (\<lambda>_.
     bnd (gets (\<lambda>s. ses_drv_file (fz_ses s))) (\<lambda>opened.
     bnd (sesM (tabM (drive_loadDriver (c_json_parse c) opened (c_reads c)))) (\<lambda>loaded.
     bnd (if loaded then sesM driver_switchDriver else ret ()) (\<lambda>_.
     hf_profiler_sampling c))))"

definition report_run :: "fuzz_cfg \<Rightarrow> (fuzz_t, unit) hm" where
  "report_run c =
     bnd (gets (\<lambda>s. feedback_dynFileMethod (fz_hf s) \<noteq> DYNFILE_NONE)) (\<lambda>fb.
     bnd (if fb then fuzz_perfFeedback c else ret ()) (\<lambda>_.
     bnd (if c_useVerifier c then fuzz_runVerifier c else ret True) (\<lambda>go_on.
     if go_on then c_saveReport c else ret ())))"

definition fuzz_fuzzLoop :: "fuzz_cfg \<Rightarrow> (fuzz_t, unit) pm" where
  "fuzz_fuzzLoop c =
     pbnd (plift reset_run) (\<lambda>_.
     pbnd (plift (if c_session_path c \<noteq> None then drive_session c else ret ())) (\<lambda>_.
     pbnd (fuzz_fetchInput c) (\<lambda>got.
     plift (if \<not> got then
              bnd (gets fz_hf) (\<lambda>h.
              if cfg_minimize h \<and> fuzz_getState h = STATE_DYNAMIC_MINIMIZE then fuzz_setTerminating else raise LogFatal)
            else
              bnd (fuzz_inPlaceEditBefore c) (\<lambda>_.
              bnd (c_subproc_Run c) (\<lambda>ok.
              bnd (check LogFatal ok) (\<lambda>_.
              bnd fuzz_inPlaceEditAfter (\<lambda>_.
              report_run c))))))))"

definition fuzz_fuzzLoopSocket :: "fuzz_cfg \<Rightarrow> (fuzz_t, unit) hm" where
  "fuzz_fuzzLoopSocket c =
     bnd reset_run (\<lambda>_.
     bnd (c_subproc_Run c) (\<lambda>_.
     bnd (c_waitForExternalInput c) (\<lambda>fed.
     if \<not> fed then modify (\<lambda>s. s\<lparr>run_pid := 0\<rparr>) else report_run c)))"

section \<open>Threads\<close>

text \<open>The limit of iterations, with the counter incremented on the way; \<open>True\<close> ends the thread.\<close>

definition limit_reached :: "fuzz_cfg \<Rightarrow> (fuzz_t, bool) hm" where
  "limit_reached c =
     bnd (gets fz_hf) (\<lambda>h.
     bnd (modR (\<lambda>r. r\<lparr>global := (global r)\<lparr>cnts_mutationsCnt := sz_add (cnts_mutationsCnt (global r)) 1\<rparr>\<rparr>)) (\<lambda>_.
     ret (if mutate_mutationsPerRun h = 0 \<and> c_useVerifier c \<and> \<not> socketFuzzer_enabled h
          then cnts_mutationsCnt h \<ge> io_fileCnt h
          else cnts_mutationsCnt h \<ge> c_mutationsMax c \<and> c_mutationsMax c \<noteq> 0)))"

text \<open>The loop of a thread; \<open>cs i\<close> is what iteration \<open>i\<close> meets.\<close>

partial_function (option) thread_loop :: "(nat \<Rightarrow> fuzz_cfg) \<Rightarrow> nat \<Rightarrow> fuzz_t \<Rightarrow> (fault + unit \<times> fuzz_t) option" where
  "thread_loop cs i s =
     (case limit_reached (cs i) s of
        Inl e \<Rightarrow> Some (Inl e)
      | Inr (stop, s) \<Rightarrow>
          if stop then Some (Inr ((), s))
          else (case (if socketFuzzer_enabled (fz_hf s) then plift (fuzz_fuzzLoopSocket (cs i)) else fuzz_fuzzLoop (cs i)) s of
             None \<Rightarrow> None
           | Some (Inl e) \<Rightarrow> Some (Inl e)
           | Some (Inr (_, s)) \<Rightarrow>
               if fuzz_isTerminating s then Some (Inr ((), s))
               else if c_exitUponCrash (cs i) \<and> crashesCnt s > 0 then Some (fuzz_setTerminating s)
               else thread_loop cs (i + 1) s))"

text \<open>
  A new thread: its number and its zeroed run. \<open>fd\<close> is the shared file of the input (none when it
  cannot be made), \<open>ready\<close> that the map of the thread and the architecture could be set up.
\<close>

definition new_run :: "nat \<Rightarrow> fuzz_t \<Rightarrow> fuzz_t" where
  "new_run n s = put_run ((fz_run s)\<lparr>dynfile := \<lparr>d_size = 0, d_cov = [0, 0, 0, 0], d_idx = 0, d_driver_id = 0,
       d_timeExecUSecs = 0, d_path = [], d_src = None, d_refs = 0, d_phase = STATE_UNSET, d_timedout = False,
       d_data = [], d_imported = False\<rparr>, timeStartedUSecs := 0, run_mutationsPerRun := 0,
       staticFileTryMore := False, tmOutSignaled := False, triesLeft := 0, run_current := None\<rparr>)
     (s\<lparr>fuzzNo := n, run_pid := 0, crashFileName := [], run_pc := 0, backtrace := 0, run_access := 0,
        run_exception := 0, run_report := [], mainWorker := False, fz_rhw := zero_hw, dyn_fd := 0,
        inPlaceEdits := \<lparr>inplaceOrigPath = [], inplaceTmpPath = [], inplaceOrigFd = 0\<rparr>\<rparr>)"

definition fuzz_threadNew :: "(nat \<Rightarrow> fuzz_cfg) \<Rightarrow> int option \<Rightarrow> bool \<Rightarrow> (fuzz_t, unit) pm" where
  "fuzz_threadNew cs fd ready =
     pbnd (plift (gets threadsActiveCnt)) (\<lambda>n.
     pbnd (plift (modify (\<lambda>s. new_run n (s\<lparr>threadsActiveCnt := sz_add n 1\<rparr>)))) (\<lambda>_.
     pbnd (plift (gets (\<lambda>s. socketFuzzer_enabled (fz_hf s)))) (\<lambda>sock.
     pbnd (plift (if sock then ret ()
       else case fd of None \<Rightarrow> raise LogFatal
          | Some f \<Rightarrow> modify (\<lambda>s. s\<lparr>dyn_fd := f, open_fds := insert f (open_fds s)\<rparr>))) (\<lambda>_.
     pbnd (plift (check LogFatal ready)) (\<lambda>_.
     pbnd (thread_loop cs 0) (\<lambda>_.
     plift (modify (\<lambda>s. s\<lparr>threadsFinished := sz_add (threadsFinished s) 1,
       open_fds := (if dyn_fd s = - 1 then open_fds s else open_fds s - {dyn_fd s})\<rparr>))))))))"

text \<open>The phase in which the threads start (\<open>arch\<close>, \<open>san\<close>: the set-up of both succeeded).\<close>

definition fuzz_threadsStart :: "bool \<Rightarrow> bool \<Rightarrow> (hfuzz_t, unit) hm" where
  "fuzz_threadsStart arch san =
     bnd (check LogFatal arch) (\<lambda>_.
     bnd (check LogFatal san) (\<lambda>_.
     modify (\<lambda>h. h\<lparr>feedback_state :=
       (if socketFuzzer_enabled h then STATE_DYNAMIC_MAIN
        else if feedback_dynFileMethod h \<noteq> DYNFILE_NONE then STATE_DYNAMIC_DRY_RUN
        else STATE_STATIC)\<rparr>)))"

end
