(* ===== verification/HF_Fuzz_Inv.thy ===== *)
theory HF_Fuzz_Inv
  imports HF_Fuzz HF_Driver_Props
begin

text \<open>
  The invariant of a thread in the main phase, and that every step of an iteration keeps it.
\<close>

section \<open>The invariant\<close>

text \<open>
  \<open>Q\<close> is a set of inputs that are in the queue for good: they are not imported, so they are
  never taken out. As long as there is one, the next choice finds an input. \<open>n\<close> bounds the
  number of inputs.
\<close>

definition permanent :: "addr set \<Rightarrow> hfuzz_t \<Rightarrow> bool" where
  "permanent Q h \<longleftrightarrow> Q \<noteq> {} \<and> Q \<subseteq> set (io_dynfileq h) \<and> (\<forall>a\<in>Q. \<exists>df. io_store h a = Some df \<and> \<not> d_imported df)"

definition input_ok :: "run_t \<Rightarrow> bool" where
  "input_ok r \<longleftrightarrow> length (d_cov (dynfile r)) = 4 \<and>
     (\<forall>a. d_src (dynfile r) = Some a \<longrightarrow> a \<in> dom (io_store (global r)))"

definition main_inv :: "addr set \<Rightarrow> nat \<Rightarrow> run_t \<Rightarrow> bool" where
  "main_inv Q n r \<longleftrightarrow> fuzz_getState (global r) = STATE_DYNAMIC_MAIN \<and> prepare_inv r \<and> by_cov (global r) \<and>
     \<not> drv_independentQueue (global r) \<and> permanent Q (global r) \<and> input_ok r \<and>
     io_dynfileqCnt (global r) \<le> n"

lemmas main_inv_defs = main_inv_def prepare_inv_def select_inv_def queue_wf_def store_ok_def counters_ok_def
  wf_run_def env_ok_def by_cov_def covs_def inData_def inSize_def maxInputSz_def permanent_def input_ok_def
  fuzz_getState_def

lemma main_inv_irrelevant [simp]:
  "main_inv Q n (r\<lparr>timeStartedUSecs := u\<rparr>) = main_inv Q n r" "main_inv Q n (r\<lparr>run_mutationsPerRun := v\<rparr>) = main_inv Q n r"
  "main_inv Q n (r\<lparr>tmOutSignaled := b\<rparr>) = main_inv Q n r" "main_inv Q n (r\<lparr>dynfile := (dynfile r)\<lparr>d_path := p\<rparr>\<rparr>) = main_inv Q n r"
  "main_inv Q n (r\<lparr>global := (global r)\<lparr>io_fs := fs\<rparr>\<rparr>) = main_inv Q n r"
  by (simp_all add: main_inv_defs)

lemma main_inv_cov:
  "main_inv Q n r \<Longrightarrow> length c = 4 \<Longrightarrow> main_inv Q n (r\<lparr>dynfile := (dynfile r)\<lparr>d_cov := c, d_imported := b\<rparr>\<rparr>)"
  by (simp add: main_inv_defs)

lemma main_inv_wf: "main_inv Q n r \<Longrightarrow> wf_run r"
  by (simp add: main_inv_def prepare_inv_def)

text \<open>The bytes of the input, the generator and the second cursor may change.\<close>

lemma main_inv_frame:
  assumes "main_inv Q n r" and "wf_run s" and f: "frame_proj s = frame_proj r"
  shows "main_inv Q n s"
proof -
  note [simp] = frame_fields [OF f]
  have "queue_wf (global s)"
    using assms(1) queue_wf_frame [OF _ assms(2) f] by (simp add: main_inv_def prepare_inv_def select_inv_def)
  moreover have e: "fuzz_getState (global s) = fuzz_getState (global r)" "cnts_mutationsCnt (global s) = cnts_mutationsCnt (global r)"
    "threads_threadsMax (global s) = threads_threadsMax (global r)" "io_dynfileqCurrent (global s) = io_dynfileqCurrent (global r)"
    "triesLeft s = triesLeft r" "run_current s = run_current r" "d_cov (dynfile s) = d_cov (dynfile r)"
    "mutate_mutationsPerRun (global s) = mutate_mutationsPerRun (global r)"
    "drv_independentQueue (global s) = drv_independentQueue (global r)"
    using arg_cong [OF f, of "\<lambda>r. fuzz_getState (global r)"] arg_cong [OF f, of "\<lambda>r. cnts_mutationsCnt (global r)"]
      arg_cong [OF f, of "\<lambda>r. threads_threadsMax (global r)"] arg_cong [OF f, of "\<lambda>r. io_dynfileqCurrent (global r)"]
      arg_cong [OF f, of triesLeft] arg_cong [OF f, of run_current] arg_cong [OF f, of "\<lambda>r. d_cov (dynfile r)"]
      arg_cong [OF f, of "\<lambda>r. mutate_mutationsPerRun (global r)"] arg_cong [OF f, of "\<lambda>r. drv_independentQueue (global r)"]
    by (simp_all add: frame_proj_def fuzz_getState_def)
  ultimately show ?thesis
    using assms(1,2) by (simp add: main_inv_def prepare_inv_def select_inv_def counters_ok_def by_cov_def covs_def
        permanent_def input_ok_def)
qed

section \<open>Fetching an input\<close>

lemma main_inv_picked:
  assumes "main_inv Q n r" and "picked r t" and "run_current t = Some a" and "io_store (global t) a = Some df"
  shows "main_inv Q n (t\<lparr>triesLeft := (if d_imported df then 0 else triesLeft t)\<rparr>)"
proof -
  obtain c g k where c: "\<And>x. c = Some x \<Longrightarrow> x \<in> set (io_dynfileq (global r))"
    and t: "t = r\<lparr>global := (global r)\<lparr>io_dynfileqCurrent := c\<rparr>, rnd_gen := g, triesLeft := k, run_current := Some a\<rparr>"
    using assms(2,3) by (auto simp: picked_def)
  have "wf_run t" "queue_wf (global t)"
    using picked_ok [OF _ assms(2)] assms(1) by (auto simp: main_inv_def)
  moreover have "io_store (global r) a = Some df" using assms(4) by (simp add: t)
  ultimately show ?thesis
    using assms(1) c by (auto simp: t main_inv_def prepare_inv_def select_inv_def counters_ok_def by_cov_def covs_def
        permanent_def input_ok_def fuzz_getState_def maxInputSz_def wf_run_def inData_def inSize_def)
qed

lemma main_inv_loaded:
  assumes "main_inv Q n r" and "io_store (global r) a = Some df"
  shows "main_inv Q n (loaded a df r)"
proof -
  have "file_ok df" "d_size df \<le> maxInputSz r"
    using assms by (auto simp: main_inv_def prepare_inv_def select_inv_def queue_wf_def store_ok_def)
  then show ?thesis
    using assms by (auto simp: loaded_def main_inv_def prepare_inv_def select_inv_def counters_ok_def by_cov_def covs_def
        permanent_def input_ok_def fuzz_getState_def maxInputSz_def wf_run_def inData_def inSize_def file_ok_def)
qed

lemma main_inv_dequeued:
  assumes inv: "main_inv Q n r" and "io_store (global r) a = Some df" and "d_imported df"
    and "io_dynfileqCurrent (global r) \<noteq> Some a"
  shows "main_inv Q n (dequeued a r)"
proof -
  have q: "queue_wf (global r)" and d: "distinct (io_dynfileq (global r))"
    using inv by (auto simp: main_inv_def prepare_inv_def select_inv_def queue_wf_def store_ok_def)
  have aQ: "a \<notin> Q" using assms by (auto simp: main_inv_def permanent_def)
  have q': "queue_wf (global (dequeued a r))" by (rule dequeued_ok [OF q])
  have rm: "remove1 a (io_dynfileq (global r)) = filter (\<lambda>x. x \<noteq> a) (io_dynfileq (global r))"
    using d by (simp add: distinct_remove1_removeAll removeAll_filter_not_eq eq_commute)
  have sub: "Q \<subseteq> set (io_dynfileq (global (dequeued a r)))"
    using inv aQ by (auto simp: dequeued_def rm main_inv_def permanent_def)
  moreover from this have ne: "io_dynfileq (global (dequeued a r)) \<noteq> []"
    using inv by (auto simp: main_inv_def permanent_def)
  moreover have "by_cov (global (dequeued a r))"
    using inv by (auto simp: main_inv_def by_cov_def covs_def dequeued_def rm sorted_wrt_map sorted_wrt_filter)
  moreover have "wf_run (dequeued a r)"
    using main_inv_wf [OF inv] q' ne
    by (simp add: wf_run_def env_ok_def queue_wf_def) (simp add: dequeued_def inData_def inSize_def maxInputSz_def)
  moreover have "x \<in> set (io_dynfileq (global (dequeued a r)))" if "io_dynfileqCurrent (global r) = Some x" for x
    using inv that assms(4) by (auto simp: dequeued_def rm main_inv_def prepare_inv_def select_inv_def)
  ultimately show ?thesis
    using inv q' by (simp add: main_inv_def prepare_inv_def select_inv_def counters_ok_def permanent_def input_ok_def)
      (simp add: dequeued_def fuzz_getState_def maxInputSz_def)
qed

lemma loaded_tries: "loaded a df (r\<lparr>triesLeft := n\<rparr>) = (loaded a df r)\<lparr>triesLeft := n\<rparr>"
  by (simp add: loaded_def)

lemma main_load_input:
  assumes inv: "main_inv Q n r" and p: "picked r t"
  shows "wp (load_input nm) (\<lambda>b s. b \<and> main_inv Q n s) t"
proof -
  have "prepare_inv r" using inv by (simp add: main_inv_def)
  from picked_ok [OF this p] obtain a df where a: "run_current t = Some a" "io_store (global t) a = Some df" "file_ok df"
    "length (inData t) = inSize t" "d_size df \<le> maxInputSz t" "d_imported df \<Longrightarrow> a \<in> set (io_dynfileq (global t))"
    "io_store (global t) = io_store (global r)" by metis
  have cur: "d_imported df \<Longrightarrow> io_dynfileqCurrent (global t) \<noteq> Some a"
    using p a(1,2,7) by (auto simp: picked_def)
  note pk = main_inv_picked [OF inv p a(1,2)]
  have ld: "main_inv Q n (loaded a df (t\<lparr>triesLeft := (if d_imported df then 0 else triesLeft t)\<rparr>))"
    by (rule main_inv_loaded [OF pk]) (simp add: a(2))
  show ?thesis
  proof (rule wp_load_input [OF a(1-5)])
    assume i: "d_imported df"
    have "main_inv Q n (dequeued a ((loaded a df t)\<lparr>triesLeft := 0\<rparr>))"
      by (rule main_inv_dequeued [OF _ _ i]) (use ld i cur a(2) in \<open>simp_all add: loaded_tries\<close>, simp_all add: loaded_def)
    moreover have "dequeued a ((loaded a df t)\<lparr>triesLeft := 0\<rparr>) = dequeued a (loaded a df t)"
      by (simp add: dequeued_def)
    ultimately show "a \<in> set (io_dynfileq (global t)) \<and> True \<and> main_inv Q n (dequeued a (loaded a df t))"
      using a(6) i by simp
  next
    assume "\<not> d_imported df"
    then have l: "main_inv Q n (loaded a df t)" using ld by (simp add: loaded_tries)
    then have "wf_run (loaded a df t)" "1 \<le> unat (mutate_mutationsPerRun (global (loaded a df t)))"
      by (simp_all add: main_inv_def prepare_inv_def)
    note m = wp_mangleContent_all [OF this]
    have "wp mangle_mangleContent (\<lambda>_ s. True \<and> main_inv Q n s) (loaded a df t)"
      by (rule wp_mono [OF m]) (use l main_inv_frame in blast)
    then show "wp (if nm then mangle_mangleContent else ret ()) (\<lambda>_ s. True \<and> main_inv Q n s) (loaded a df t)"
      using l by (simp add: wp_ret)
  qed
qed

lemma main_prepareDynamic:
  assumes inv: "main_inv Q n r"
  shows "pwlp (input_prepareDynamicInput nm) (\<lambda>b s. b \<and> main_inv Q n s) r"
proof -
  have c: "io_dynfileqCnt (global r) \<noteq> 0" and s: "select_inv r" and i: "\<not> drv_independentQueue (global r)"
    using inv by (auto simp: main_inv_def prepare_inv_def select_inv_def counters_ok_def)
  show ?thesis
  proof (cases "pick_loop 0 r")
    case None
    then show ?thesis using c by (simp add: pwlp_def input_prepareDynamicInput_def)
  next
    case (Some p)
    from pick_loop_sound [OF Some s i] obtain t where t: "p = Inr t" "picked r t" by blast
    from wp_result [OF main_load_input [OF inv t(2), of nm]] show ?thesis
      using c Some t(1) by (auto simp: pwlp_def input_prepareDynamicInput_def)
  qed
qed


text \<open>What an external command leaves is cut to the allowed size.\<close>

lemma wp_read_tmp_file:
  assumes "wf_run r"
  shows "wp (read_tmp_file res) (\<lambda>b s. wf_run s \<and> frame_proj s = frame_proj r \<and> b = (res \<noteq> None) \<and>
    (b \<longrightarrow> (\<exists>bs. res = Some bs \<and> inData s = take (maxInputSz r) bs))) r"
proof (cases res)
  case None
  then show ?thesis using assms by (simp add: read_tmp_file_def wp_ret)
next
  case (Some bs)
  have w: "length (inData r) = inSize r" "env_ok (global r)" using assms by (simp_all add: wf_run_def)
  have rs: "length (resize k d) = k" for k and d :: "byte list" by (simp add: resize_def)
  have p: "resize (min (length bs) k) (patch 0 (take k bs) (resize k e)) = take k bs" for k and e :: "byte list"
    by (simp add: patch_def resize_def min_def)
  show ?thesis
    unfolding read_tmp_file_def Some option.case wp_bnd wp_gets
    by (rule wp_setSize [OF w(1) order.refl], simp only: wp_writeIn, intro conjI)
       (simp add: inData_def rs, rule wp_setSize,
        use w(2) in \<open>simp_all add: inData_def inSize_def maxInputSz_def setData_def rs p wp_ret wf_run_def frame_proj_def\<close>)
qed

lemma main_read_tmp:
  assumes "main_inv Q n r"
  shows "wp (read_tmp_file res) (\<lambda>_. main_inv Q n) r"
  by (rule wp_mono [OF wp_read_tmp_file]) (use assms main_inv_wf main_inv_frame in blast)+

lemma main_external: "main_inv Q n r \<Longrightarrow> wp (input_prepareExternalFile cmd) (\<lambda>_. main_inv Q n) r"
  unfolding input_prepareExternalFile_def wp_bnd wp_modify by (rule main_read_tmp) (simp add: setPath_def)

lemma main_external_given:
  assumes "main_inv Q n r" and "cmd [] = Some bs"
  shows "wp (input_prepareExternalFile cmd) (\<lambda>b s. b \<and> main_inv Q n s) r"
proof -
  have m: "main_inv Q n (setPath (str ''[EXTERNAL]'') r)" using assms(1) by (simp add: setPath_def)
  show ?thesis
    unfolding input_prepareExternalFile_def wp_bnd wp_modify
    by (rule wp_mono [OF wp_read_tmp_file [OF main_inv_wf [OF m]]]) (use m assms(2) main_inv_frame in blast)
qed

lemma main_postProcess:
  assumes "main_inv Q n r"
  shows "wp (input_postProcessFile cmd) (\<lambda>_. main_inv Q n) r"
  using main_inv_wf [OF assms] main_read_tmp [OF assms]
  by (simp add: input_postProcessFile_def wp_bnd wp_gets wp_readIn wf_run_def)

section \<open>The invariant of a thread\<close>

definition thr_inv :: "addr set \<Rightarrow> nat \<Rightarrow> fuzz_t \<Rightarrow> bool" where
  "thr_inv Q n s \<longleftrightarrow> fuzzNo s < HF_THREAD_MAX \<and> main_inv Q n (fz_run s)"

lemma run_put [simp]:
  "fz_run (put_run r s) = r" "fuzzNo (put_run r s) = fuzzNo s" "fz_hf (put_run r s) = global r"
  by (simp_all add: fz_run_def put_run_def fz_hf_def)

lemma wlp_runM [hf_wlp]: "wlp (runM m) P = (\<lambda>s. wlp m (\<lambda>x t. P x (put_run t s)) (fz_run s))"
  by (simp add: runM_def wlp_zoom)

lemma pwlp_runP: "pwlp (runP m) P = (\<lambda>s. pwlp m (\<lambda>x t. P x (put_run t s)) (fz_run s))"
  by (simp add: runP_def pwlp_pzoom)

lemma thr_run:
  assumes "thr_inv Q n s" and "main_inv Q n (fz_run s) \<Longrightarrow> wp m (\<lambda>_. main_inv Q n) (fz_run s)"
  shows "wlp (runM m) (\<lambda>_. thr_inv Q n) s"
  using assms by (auto simp: wlp_runM thr_inv_def intro: wp_wlp)

lemma thr_modR: "thr_inv Q n s \<Longrightarrow> (\<And>r. main_inv Q n r \<Longrightarrow> main_inv Q n (f r)) \<Longrightarrow> wlp (modR f) (\<lambda>_. thr_inv Q n) s"
  by (simp add: modR_def wlp_runM wlp_modify thr_inv_def)

lemma thr_post: "thr_inv Q n s \<Longrightarrow> wlp (post_process cmd) (\<lambda>_. thr_inv Q n) s"
  by (auto simp: post_process_def wlp_ret intro: thr_run main_postProcess split: option.split)

lemma thr_state: "thr_inv Q n s \<Longrightarrow> fuzz_getState (fz_hf s) = STATE_DYNAMIC_MAIN"
  by (simp add: thr_inv_def main_inv_def fz_hf_def)

lemma thr_dynamic:
  assumes "thr_inv Q n s"
  shows "pwlp (fetch_dynamic c) (\<lambda>_. thr_inv Q n) s"
proof (cases "c_externalCommand c")
  case None
  have "pwlp (input_prepareDynamicInput nm) (\<lambda>_ t. thr_inv Q n (put_run t s)) (fz_run s)" for nm
    by (rule pwlp_mono [OF main_prepareDynamic]) (use assms in \<open>auto simp: thr_inv_def\<close>)
  then show ?thesis by (simp add: fetch_dynamic_def None pwlp_runP)
next
  case (Some cmd)
  then show ?thesis
    using thr_run [OF assms main_external] by (simp add: fetch_dynamic_def pwlp_plift)
qed

lemma thr_fetchInput:
  assumes "thr_inv Q n s"
  shows "pwlp (fuzz_fetchInput c) (\<lambda>_. thr_inv Q n) s"
proof -
  have after: "pwlp (pbnd (plift (post_process p)) (\<lambda>ok. if \<not> ok then plift (ret False) else plift (post_process q)))
    (\<lambda>_. thr_inv Q n) t" if "thr_inv Q n t" for p q t
    unfolding hf_pwlp wlp_ret by (rule wlp_mono [OF thr_post [OF that]]) (use thr_post in auto)
  have "pwlp (fetch_dry_run c) (\<lambda>b t. \<not> b \<and> thr_inv Q n t) s"
    using assms thr_state [OF assms] by (simp add: fetch_dry_run_def hf_pwlp hf_wlp)
  then show ?thesis
    unfolding fuzz_fetchInput_def
  proof (rule pwlp_seq, elim conjE)
    fix b t assume b: "\<not> b" and t: "thr_inv Q n t"
    show "pwlp (if b then plift (ret True)
      else pbnd (plift (gets (\<lambda>s. fuzz_getState (fz_hf s)))) (\<lambda>st.
       if st = STATE_DYNAMIC_MINIMIZE then pbnd (runP fuzz_minimizeRemoveFiles) (\<lambda>_. plift (ret False))
       else pbnd (if st = STATE_DYNAMIC_MAIN then fetch_dynamic c else plift (ret True)) (\<lambda>ok.
         if \<not> ok then plift (ret False)
         else pbnd (plift (gets (\<lambda>s. fuzz_getState (fz_hf s)))) (\<lambda>st.
           pbnd (if st = STATE_STATIC then fetch_static c else plift (ret True)) (\<lambda>ok.
           if \<not> ok then plift (ret False)
           else pbnd (plift (post_process (c_postExternalCommand c))) (\<lambda>ok.
             if \<not> ok then plift (ret False)
             else plift (post_process (c_feedbackMutateCommand c)))))))) (\<lambda>_. thr_inv Q n) t"
      using b thr_state [OF t]
      by (simp add: pwlp_pbnd [of "plift (gets _)"] pwlp_plift wlp_gets, intro pwlp_seq [OF thr_dynamic [OF t]])
         (use thr_state after in \<open>auto simp: pwlp_pbnd [of "plift (gets _)"] pwlp_pbnd [of "plift (ret _)"]
            pwlp_plift wlp_gets wlp_ret\<close>)
  qed
qed


section \<open>Adding an input\<close>

lemma permanent_mono:
  assumes "permanent Q h" and "set (io_dynfileq h) \<subseteq> set (io_dynfileq g)"
    and "\<And>a df. io_store h a = Some df \<Longrightarrow> \<exists>df'. io_store g a = Some df' \<and> d_imported df' = d_imported df"
  shows "permanent Q g"
  unfolding permanent_def using assms(1,2)
  by (intro conjI ballI) (auto simp: permanent_def, metis assms(3))

text \<open>Counting a reference changes nothing else of a stored input.\<close>

definition same_files :: "(addr \<rightharpoonup> dynfile_t) \<Rightarrow> (addr \<rightharpoonup> dynfile_t) \<Rightarrow> bool" where
  "same_files st st' \<longleftrightarrow> dom st' = dom st \<and>
     (\<forall>a df. st a = Some df \<longrightarrow> (\<exists>k. st' a = Some (df\<lparr>d_refs := k\<rparr>)))"

lemma same_filesD: "same_files st st' \<Longrightarrow> st' a = Some df' \<Longrightarrow>
    \<exists>df. st a = Some df \<and> d_size df' = d_size df \<and> d_imported df' = d_imported df"
  "same_files st st' \<Longrightarrow> st a = Some df \<Longrightarrow> \<exists>df'. st' a = Some df' \<and> d_imported df' = d_imported df"
proof -
  assume s: "same_files st st'" and "st' a = Some df'"
  then obtain df where "st a = Some df" unfolding same_files_def by (metis domD domI)
  with s \<open>st' a = Some df'\<close> show "\<exists>df. st a = Some df \<and> d_size df' = d_size df \<and> d_imported df' = d_imported df"
    by (fastforce simp: same_files_def)
next
  assume "same_files st st'" and "st a = Some df"
  then show "\<exists>df'. st' a = Some df' \<and> d_imported df' = d_imported df" by (fastforce simp: same_files_def)
qed

lemma bump_effect:
  assumes ok: "queue_ok h" and src: "\<And>a. src = Some a \<Longrightarrow> a \<in> dom (io_store h)"
  shows "\<exists>st. bump_refs src h = Inr (h\<lparr>io_store := st\<rparr>) \<and> queue_ok (h\<lparr>io_store := st\<rparr>) \<and> same_files (io_store h) st"
proof -
  from bump_refs_ok [OF ok, of src] src obtain st where
    st: "bump_refs src h = Inr (h\<lparr>io_store := st\<rparr>)" "queue_ok (h\<lparr>io_store := st\<rparr>)" by blast
  have refl: "\<exists>k. f = f\<lparr>d_refs := k\<rparr>" for f :: dynfile_t by (rule exI [of _ "d_refs f"]) simp
  have "\<exists>st. bump_refs src h = Inr (h\<lparr>io_store := st\<rparr>) \<and> same_files (io_store h) st"
  proof (cases src)
    case None
    have "same_files (io_store h) (io_store h)" using refl by (auto simp: same_files_def)
    with None show ?thesis by (intro exI [of _ "io_store h"]) (simp add: bump_refs_def)
  next
    case (Some a)
    then obtain f where f: "io_store h a = Some f" using src by blast
    let ?st = "(io_store h)(a \<mapsto> f\<lparr>d_refs := d_refs f + 1\<rparr>)"
    have "same_files (io_store h) ?st"
      unfolding same_files_def
    proof (intro conjI allI impI)
      show "dom ?st = dom (io_store h)" using f by auto
      show "\<exists>k. ?st x = Some (df\<lparr>d_refs := k\<rparr>)" if "io_store h x = Some df" for x df
        using that f refl [of df] by (cases "x = a") auto
    qed
    then show ?thesis using Some f by (intro exI [of _ ?st]) (simp add: bump_refs_def)
  qed
  then obtain st' where "bump_refs src h = Inr (h\<lparr>io_store := st'\<rparr>)" "same_files (io_store h) st'" by blast
  moreover from this(1) st have "queue_ok (h\<lparr>io_store := st'\<rparr>)" by (metis sum.inject(2))
  ultimately show ?thesis by blast
qed

lemma enqueue_effect:
  assumes ok: "queue_ok h" and df: "file_ok df" and cnt: "io_dynfileqCnt h < 2 ^ 64 - 1"
  shows "\<exists>q df'. enqueue df h = Inr (df', enqueued df' q h) \<and> queue_ok (enqueued df' q h) \<and>
    set q = insert (io_brk h) (set (io_dynfileq h)) \<and> df' = df\<lparr>d_idx := io_dynfileqCnt h + 1\<rparr>"
proof -
  let ?df = "df\<lparr>d_idx := io_dynfileqCnt h + 1\<rparr>"
  have fresh: "io_brk h \<notin> dom (io_store h)" and sub: "set (io_dynfileq h) \<subseteq> dom (io_store h)"
    using ok by (auto simp: queue_ok_def queue_wf_def store_ok_def)
  from enqueue_refines [OF ok df cnt] obtain q where q: "enqueue df h = Inr (?df, enqueued ?df q h)"
    "queue_ok (enqueued ?df q h)" by blast
  from insert_by_cov_refines [OF sub, of "io_brk h" ?df] fresh sub obtain q' where
    q': "insert_by_cov (io_store h) ?df (io_brk h) (io_dynfileq h) = Inr q'" "mset q' = add_mset (io_brk h) (mset (io_dynfileq h))"
    by blast
  have "enqueue df h = Inr (?df, enqueued ?df q' h)" using q'(1) cnt by (simp add: enqueue_def Let_def enqueued_def hf_sz)
  with q(1) have "io_dynfileq (enqueued ?df q h) = io_dynfileq (enqueued ?df q' h)" by (metis prod.inject sum.inject(2))
  then have "mset q = add_mset (io_brk h) (mset (io_dynfileq h))" using q'(2) by (simp add: enqueued_def)
  then have "set q = insert (io_brk h) (set (io_dynfileq h))" by (metis set_mset_add_mset_insert set_mset_mset)
  with q show ?thesis by blast
qed

text \<open>The state after an input was added, before its files are written.\<close>

definition with_new :: "dynfile_t \<Rightarrow> addr list \<Rightarrow> (addr \<rightharpoonup> dynfile_t) \<Rightarrow> run_t \<Rightarrow> hfuzz_t" where
  "with_new df q st r = enqueued df q ((global r)\<lparr>timing_lastCovUpdate := now r, io_store := st\<rparr>)"

lemma with_new_fields [simp]:
  "io_dynfileq (with_new df q st r) = q" "io_store (with_new df q st r) = st(io_brk (global r) \<mapsto> df)"
  "io_dynfileqCnt (with_new df q st r) = io_dynfileqCnt (global r) + 1"
  "io_dynfileqMaxSz (with_new df q st r) = max (io_dynfileqMaxSz (global r)) (d_size df)"
  "io_dynfileqCurrent (with_new df q st r) = io_dynfileqCurrent (global r)"
  "mutate_maxInputSz (with_new df q st r) = mutate_maxInputSz (global r)"
  "mutate_mutationsPerRun (with_new df q st r) = mutate_mutationsPerRun (global r)"
  "cnts_mutationsCnt (with_new df q st r) = cnts_mutationsCnt (global r)"
  "threads_threadsMax (with_new df q st r) = threads_threadsMax (global r)"
  "drv_independentQueue (with_new df q st r) = drv_independentQueue (global r)"
  "feedback_state (with_new df q st r) = feedback_state (global r)"
  "cfg_minimize (with_new df q st r) = cfg_minimize (global r)"
  by (simp_all add: with_new_def enqueued_def)

lemma add_effect:
  assumes ok: "queue_ok (global r)" and w: "wf_run r" "input_ok r" and cnt: "io_dynfileqCnt (global r) < 2 ^ 64 - 1"
  shows "\<exists>df q st. input_addDynamicInput r = Inr ((), r\<lparr>global := save_cov_files df (with_new df q st r)\<rparr>) \<and>
    queue_ok (with_new df q st r) \<and> wf_run (r\<lparr>global := with_new df q st r\<rparr>) \<and>
    same_files (io_store (global r)) st \<and> st (io_brk (global r)) = None \<and>
    set q = insert (io_brk (global r)) (set (io_dynfileq (global r))) \<and>
    d_size df = inSize r \<and> d_imported df = d_imported (dynfile r) \<and> d_data df = inData r"
proof -
  let ?h = "(global r)\<lparr>timing_lastCovUpdate := now r\<rparr>" and ?df = "new_dynfile (r\<lparr>global := (global r)\<lparr>timing_lastCovUpdate := now r\<rparr>\<rparr>)"
  have h: "queue_ok ?h" using ok by (simp add: queue_ok_def queue_wf_def store_ok_def by_cov_def covs_def)
  from bump_effect [OF h, of "d_src (dynfile r)"] w(2) obtain st where
    st: "bump_refs (d_src (dynfile r)) ?h = Inr (?h\<lparr>io_store := st\<rparr>)" "queue_ok (?h\<lparr>io_store := st\<rparr>)"
      "same_files (io_store (global r)) st" by (auto simp: input_ok_def)
  have df: "file_ok ?df" "d_size ?df = inSize r" "d_data ?df = inData r" "d_imported ?df = d_imported (dynfile r)"
    using w by (simp_all add: new_dynfile_def Let_def file_ok_def wf_run_def env_ok_def inData_def inSize_def
        maxInputSz_def input_ok_def)
  from enqueue_effect [OF st(2) df(1)] cnt obtain q df' where
    q: "enqueue ?df (?h\<lparr>io_store := st\<rparr>) = Inr (df', with_new df' q st r)" "queue_ok (with_new df' q st r)"
      "set q = insert (io_brk (global r)) (set (io_dynfileq (global r)))" "\<exists>k. df' = ?df\<lparr>d_idx := k\<rparr>"
    unfolding with_new_def by (auto simp: fun_upd_def)
  have "input_addDynamicInput r = Inr ((), r\<lparr>global := save_cov_files df' (with_new df' q st r)\<rparr>)"
    using st(1) q(1) by (simp add: input_addDynamicInput_def Let_def)
  moreover have "st (io_brk (global r)) = None"
    using st(2) by (auto simp: queue_ok_def queue_wf_def store_ok_def dom_def)
  moreover have "wf_run (r\<lparr>global := with_new df' q st r\<rparr>)"
    using w(1) q(2,3) by (auto simp: wf_run_def env_ok_def queue_ok_def queue_wf_def)
      (auto simp: with_new_def enqueued_def inData_def inSize_def maxInputSz_def)
  ultimately show ?thesis using q(2-4) df st(3) by (intro exI [of _ df'] exI [of _ q] exI [of _ st]) auto
qed

lemma main_save: "main_inv Q n (r\<lparr>global := save_cov_files df h\<rparr>) = main_inv Q n (r\<lparr>global := h\<rparr>)"
  by (simp add: save_cov_files_def Let_def main_inv_defs)

lemma main_add:
  assumes inv: "main_inv Q n r" and n: "n < 2 ^ 64 - 1"
  shows "wp input_addDynamicInput (\<lambda>_. main_inv Q (n + 1)) r"
proof -
  have ok: "queue_ok (global r)" "wf_run r" "input_ok r" and cnt: "io_dynfileqCnt (global r) < 2 ^ 64 - 1"
    using inv n by (auto simp: main_inv_def prepare_inv_def select_inv_def queue_ok_def)
  from add_effect [OF ok cnt] obtain df q st where
    e: "input_addDynamicInput r = Inr ((), r\<lparr>global := save_cov_files df (with_new df q st r)\<rparr>)"
      "queue_ok (with_new df q st r)" "wf_run (r\<lparr>global := with_new df q st r\<rparr>)" "same_files (io_store (global r)) st"
      "st (io_brk (global r)) = None" "set q = insert (io_brk (global r)) (set (io_dynfileq (global r)))" "d_size df = inSize r"
    by blast
  let ?r = "r\<lparr>global := with_new df q st r\<rparr>"
  note sf = same_filesD [OF e(4)]
  have "permanent Q (with_new df q st r)"
    by (rule permanent_mono [of Q "global r"]) (use inv e(5,6) sf(2) in \<open>fastforce simp: main_inv_def\<close>)+
  moreover have "select_inv ?r"
    using inv e(2,5,6) sf(2) by (fastforce simp: main_inv_def prepare_inv_def select_inv_def queue_ok_def counters_ok_def)
  moreover have "input_ok ?r" using inv e(4) by (auto simp: main_inv_def input_ok_def same_files_def)
  moreover have "d_size f \<le> maxInputSz ?r" if "io_store (global ?r) a = Some f" for a f
    using that inv e(7) ok(2) sf(1) by (fastforce simp: main_inv_def prepare_inv_def wf_run_def maxInputSz_def split: if_splits)
  ultimately have "main_inv Q (n + 1) ?r"
    using inv e(2,3) by (auto simp: main_inv_def prepare_inv_def queue_ok_def fuzz_getState_def)
  then show ?thesis using e(1) by (simp add: wp_def main_save)
qed

end
