(* ===== verification/HF_Fuzz_Props.thy ===== *)
theory HF_Fuzz_Props
  imports HF_Fuzz_Inv
begin

text \<open>
  An iteration of a thread in the main phase keeps the invariant, whatever the target does within
  its contract; what the feedback, the editing in place and the change of the phase do.
\<close>

section \<open>Steps of an iteration\<close>

lemma wlp_then: "wlp m R s \<Longrightarrow> (\<And>x t. R x t \<Longrightarrow> wlp (f x) P t) \<Longrightarrow> wlp (bnd m f) P s"
  by (auto simp: wlp_bnd elim: wlp_mono)

lemma wlp_bnd_gets: "wlp (bnd (gets g) f) P s = wlp (f (g s)) P s"
  by (simp add: wlp_bnd wlp_gets)

lemma thr_cong: "fuzzNo t = fuzzNo s \<Longrightarrow> fz_run t = fz_run s \<Longrightarrow> thr_inv Q n t = thr_inv Q n s"
  by (simp add: thr_inv_def)

lemma thr_mono: "thr_inv Q n s \<Longrightarrow> n \<le> m \<Longrightarrow> thr_inv Q m s"
  by (auto simp: thr_inv_def main_inv_def)

text \<open>The contract of the code that runs the target and of the one that writes a report: they keep
  the input, the queue and the position in it; the target may leave other comparison operands.\<close>

definition run_keeps :: "fuzz_t \<Rightarrow> fuzz_t \<Rightarrow> bool" where
  "run_keeps s t \<longleftrightarrow> fuzzNo t = fuzzNo s \<and>
     (\<exists>m fs b u v. fz_run t = (fz_run s)\<lparr>global := (fz_hf s)\<lparr>feedback_cmpFeedbackMap := m, io_fs := fs\<rparr>,
        tmOutSignaled := b, now := u, nowUSecs := v\<rparr> \<and>
      (cmpf_ok (feedback_cmpFeedbackMap (fz_hf s)) \<longrightarrow> cmpf_ok m))"

definition target_ok :: "fuzz_cfg \<Rightarrow> bool" where
  "target_ok c \<longleftrightarrow> (\<forall>s. wlp (c_subproc_Run c) (\<lambda>_. run_keeps s) s \<and> wlp (c_saveReport c) (\<lambda>_. run_keeps s) s)"

lemma main_inv_target:
  assumes "main_inv Q n r" and "cmpf_ok (feedback_cmpFeedbackMap (global r)) \<longrightarrow> cmpf_ok m"
  shows "main_inv Q n (r\<lparr>global := (global r)\<lparr>feedback_cmpFeedbackMap := m, io_fs := fs\<rparr>,
    tmOutSignaled := b, now := u, nowUSecs := v\<rparr>)"
  using assms by (simp add: main_inv_defs)

lemma setFiles_inv [simp]: "thr_inv Q n (setFiles f s) = thr_inv Q n s"
  by (simp add: setFiles_def thr_inv_def) (simp add: fz_hf_def)

lemma thr_keeps: "thr_inv Q n s \<Longrightarrow> run_keeps s t \<Longrightarrow> thr_inv Q n t"
  unfolding thr_inv_def run_keeps_def fz_hf_def by (elim conjE exE) (simp add: main_inv_target)

lemma thr_subproc: "target_ok c \<Longrightarrow> thr_inv Q n s \<Longrightarrow> wlp (c_subproc_Run c) (\<lambda>_. thr_inv Q n) s"
  using thr_keeps by (auto simp: target_ok_def intro: wlp_mono)

lemma thr_saveReport: "target_ok c \<Longrightarrow> thr_inv Q n s \<Longrightarrow> wlp (c_saveReport c) (\<lambda>_. thr_inv Q n) s"
  using thr_keeps by (auto simp: target_ok_def intro: wlp_mono)

lemma thr_reset: "thr_inv Q n s \<Longrightarrow> wlp reset_run (\<lambda>_. thr_inv Q n) s"
  by (simp add: reset_run_def modR_def hf_wlp thr_inv_def) (simp add: fz_run_def put_run_def main_inv_defs)

lemma thr_take_pid: "thr_inv Q n s \<Longrightarrow> wlp (take_pid get upd) (\<lambda>_. thr_inv Q n) s"
  by (simp add: take_pid_def hf_wlp thr_inv_def fz_run_def)

lemma thr_read_soft: "thr_inv Q n s \<Longrightarrow> wlp read_soft (\<lambda>_. thr_inv Q n) s"
  unfolding read_soft_def by (intro wlp_then [OF thr_take_pid]) (simp_all add: wlp_ret)

lemma length_input_cov [simp]: "length (input_cov f v hw) = 4"
  by (simp add: input_cov_def)

text \<open>An input is shorter than \<open>2\<^sup>3\<^sup>2\<close> bytes, so the logarithm of its size is defined.\<close>

lemma thr_size_cov:
  assumes "thr_inv Q n s"
  shows "wlp (size_cov (inSize (fz_run s))) (\<lambda>_. thr_inv Q n) s"
proof -
  have "inSize (fz_run s) < 4294967296"
    using assms by (auto simp: thr_inv_def wf_run_def env_ok_def maxInputSz_def HF_INPUT_MAX_SIZE_def dest!: main_inv_wf)
  then show ?thesis using assms by (simp add: size_cov_def util_Log2_def hf_wlp)
qed

lemma thr_feedback_new:
  assumes t: "thr_inv Q n s" and n: "n < 2 ^ 64 - 1"
  shows "wlp (feedback_new c f) (\<lambda>_. thr_inv Q (n + 1)) s"
proof -
  have cn: "wlp (modify (count_new f)) (\<lambda>_. thr_inv Q n) s"
    using t by (simp add: wlp_modify) (simp add: thr_inv_def count_new_def fz_run_def)
  have st: "wlp (modify (\<lambda>s. if c_statsFile c then s\<lparr>stats_lines := stats_lines s @ stats_line c s\<rparr> else s))
    (\<lambda>_. thr_inv Q n) u" if "thr_inv Q n u" for u
    using that by (simp add: hf_wlp thr_inv_def fz_run_def)
  have mod: "wlp (modR (\<lambda>r. r\<lparr>dynfile := (dynfile r)\<lparr>d_cov := input_cov f v hw, d_imported := False\<rparr>\<rparr>))
    (\<lambda>_. thr_inv Q n) u" if "thr_inv Q n u" for u v hw
    by (rule thr_modR [OF that]) (simp add: main_inv_cov)
  have add: "wlp (runM input_addDynamicInput) (\<lambda>_. thr_inv Q (n + 1)) u" if "thr_inv Q n u" for u
    using that wp_wlp [OF main_add [OF _ n]] by (simp add: wlp_runM thr_inv_def)
  show ?thesis
    unfolding feedback_new_def
    by (rule wlp_then [OF cn], rule wlp_then [OF st], assumption, unfold wlp_bnd_gets,
        rule wlp_then [OF thr_size_cov], assumption, unfold wlp_bnd_gets, rule wlp_then [OF mod], assumption, rule add)
qed

lemma thr_feedback_none: "thr_inv Q n s \<Longrightarrow> wlp feedback_none (\<lambda>_. thr_inv Q n) s"
  unfolding feedback_none_def by (rule thr_modR) (simp_all add: unlink_file_def)

lemma thr_perfFeedback:
  assumes inv: "thr_inv Q n s" and n: "n < 2 ^ 64 - 1"
  shows "wlp (fuzz_perfFeedback c) (\<lambda>_. thr_inv Q (n + 1)) s"
proof -
  have one: "thr_inv Q (n + 1) t" if "thr_inv Q n t" for t using that by (rule thr_mono) simp
  have soft: "wlp (if b then read_soft else ret no_soft) (\<lambda>_. thr_inv Q n) s" for b
    using inv thr_read_soft by (simp add: wlp_ret)
  have eval: "wlp (bnd (gets (new_coverage f)) (\<lambda>new. if new then feedback_new c f else feedback_none))
    (\<lambda>_. thr_inv Q (n + 1)) t" if "thr_inv Q n t" for f t
    using thr_feedback_new [OF that n] wlp_mono [OF thr_feedback_none [OF that], of "\<lambda>_. thr_inv Q (n + 1)"] one
    by (simp add: wlp_bnd wlp_gets)
  have rest: "wlp (bnd (if b then read_soft else ret no_soft) (\<lambda>f.
      bnd (gets (new_coverage f)) (\<lambda>new. if new then feedback_new c f else feedback_none))) (\<lambda>_. thr_inv Q (n + 1)) s" for b
    by (rule wlp_then [OF soft eval])
  show ?thesis
    unfolding fuzz_perfFeedback_def using one [OF inv] rest by (simp add: wlp_bnd_gets wlp_ret)
qed


text \<open>Editing in place changes the file system, the name of the input and its descriptor.\<close>

lemma thr_inv_fields [simp]:
  "thr_inv Q n (s\<lparr>open_fds := x\<rparr>) = thr_inv Q n s" "thr_inv Q n (s\<lparr>dyn_fd := d\<rparr>) = thr_inv Q n s"
  "thr_inv Q n (s\<lparr>inPlaceEdits := ie\<rparr>) = thr_inv Q n s" "thr_inv Q n (s\<lparr>verifiedCrashesCnt := v\<rparr>) = thr_inv Q n s"
  "thr_inv Q n (s\<lparr>backtrace := b\<rparr>) = thr_inv Q n s"
  by (simp_all add: thr_inv_def fz_run_def)

lemma thr_makeWorkingCopy:
  assumes "thr_inv Q n s"
  shows "wlp (fuzz_makeWorkingCopy c tmpl) (\<lambda>_. thr_inv Q n) s"
proof -
  have "length (inData (fz_run s)) = inSize (fz_run s)"
    using assms main_inv_wf by (auto simp: thr_inv_def wf_run_def)
  then have "wlp (runM (readIn 0 (inSize (fz_run s)))) (\<lambda>_. thr_inv Q n) s"
    using assms by (intro thr_run) (auto simp: wp_readIn)
  then show ?thesis
    unfolding fuzz_makeWorkingCopy_def using assms
    by (auto simp: wlp_ret wlp_bnd_gets split: option.split intro!: wlp_then [of "runM _"]) (simp_all add: hf_wlp)
qed

lemma thr_redirect:
  assumes "thr_inv Q n s"
  shows "wlp (fuzz_redirectToCopy c tmpl) (\<lambda>_. thr_inv Q n) s"
proof -
  have set: "thr_inv Q n (put_run (setPath p (fz_run t)) t)" if "thr_inv Q n t" for p t
    using that by (simp add: thr_inv_def setPath_def)
  show ?thesis
    unfolding fuzz_redirectToCopy_def
    by (rule wlp_then [OF thr_makeWorkingCopy [OF assms]])
       (simp add: hf_wlp modR_def set split: prod.split)
qed

lemma thr_editBefore: "thr_inv Q n s \<Longrightarrow> wlp (fuzz_inPlaceEditBefore c) (\<lambda>_. thr_inv Q n) s"
  by (simp add: fuzz_inPlaceEditBefore_def wlp_bnd_gets wlp_ret thr_redirect)

lemma thr_editAfter: "thr_inv Q n s \<Longrightarrow> wlp fuzz_inPlaceEditAfter (\<lambda>_. thr_inv Q n) s"
  unfolding fuzz_inPlaceEditAfter_def
  by (simp add: wlp_bnd_gets wlp_ret, intro impI, rule wlp_then [OF thr_modR], assumption)
     (simp_all add: setPath_def fuzz_unLinkTempCopy_def hf_wlp)

lemma thr_verify_loop:
  assumes "target_ok c" and "thr_inv Q n s"
  shows "wlp (verify_loop c bt i) (\<lambda>_. thr_inv Q n) s"
  using assms(2)
proof (induction i arbitrary: s)
  case 0
  then show ?case by (simp add: wlp_ret)
next
  case (Suc i)
  have tm: "wlp (modR (\<lambda>r. r\<lparr>timeStartedUSecs := nowUSecs r\<rparr>)) (\<lambda>_. thr_inv Q n) s"
    by (rule thr_modR [OF Suc.prems]) simp
  have cl: "thr_inv Q n (t\<lparr>backtrace := 0, run_access := 0, run_exception := 0, mainWorker := False\<rparr>)" if "thr_inv Q n t" for t
    using that by (simp add: thr_inv_def fz_run_def)
  show ?case
    unfolding verify_loop.simps
    by (rule wlp_then [OF tm], unfold wlp_bnd [of "modify _"] wlp_modify, rule wlp_then [OF thr_subproc [OF assms(1) cl]], assumption)
       (auto simp: wlp_bnd [of "check _ _"] wlp_check wlp_bnd_gets Suc.IH wlp_bnd [of "modify _"] wlp_modify wlp_ret)
qed

lemma thr_runVerifier:
  assumes "target_ok c" and "thr_inv Q n s"
  shows "wlp (fuzz_runVerifier c) (\<lambda>_. thr_inv Q n) s"
proof -
  have wr: "thr_inv Q n (put_run (r\<lparr>global := (global r)\<lparr>io_fs := fs\<rparr>\<rparr>) t)" if "thr_inv Q n t" "r = fz_run t" for r fs t
    using that by (simp add: thr_inv_def)
  show ?thesis
    unfolding fuzz_runVerifier_def
    by (simp add: wlp_bnd_gets wlp_ret assms(2) Let_def, intro impI, rule wlp_then [OF thr_verify_loop [OF assms]])
       (auto simp: wlp_bnd_gets wlp_ret modR_def wlp_bnd [of "runM _"] wlp_runM wlp_bnd [of "modify _"] wlp_modify wr)
qed

lemma thr_report_run:
  assumes c: "target_ok c" and inv: "thr_inv Q n s" and n: "n < 2 ^ 64 - 1"
  shows "wlp (report_run c) (\<lambda>_. thr_inv Q (n + 1)) s"
proof -
  have fb: "wlp (if b then fuzz_perfFeedback c else ret ()) (\<lambda>_. thr_inv Q (n + 1)) s" for b
    using thr_perfFeedback [OF inv n] thr_mono [OF inv] by (simp add: wlp_ret)
  have vf: "wlp (if c_useVerifier c then fuzz_runVerifier c else ret True) (\<lambda>_. thr_inv Q (n + 1)) t"
    if "thr_inv Q (n + 1) t" for t using that thr_runVerifier [OF c that] by (simp add: wlp_ret)
  have sv: "wlp (if b then c_saveReport c else ret ()) (\<lambda>_. thr_inv Q (n + 1)) t" if "thr_inv Q (n + 1) t" for b t
    using that thr_saveReport [OF c that] by (simp add: wlp_ret)
  show ?thesis
    unfolding report_run_def wlp_bnd_gets
    by (rule wlp_then [OF fb], rule wlp_then [OF vf], assumption, rule sv)
qed

lemma thr_fuzzLoop:
  assumes c: "target_ok c" "c_session_path c = None" and inv: "thr_inv Q n s" and n: "n < 2 ^ 64 - 1"
  shows "pwlp (fuzz_fuzzLoop c) (\<lambda>_. thr_inv Q (n + 1)) s"
proof -
  have go: "wlp (bnd (fuzz_inPlaceEditBefore c) (\<lambda>_. bnd (c_subproc_Run c) (\<lambda>ok. bnd (check LogFatal ok) (\<lambda>_.
      bnd fuzz_inPlaceEditAfter (\<lambda>_. report_run c))))) (\<lambda>_. thr_inv Q (n + 1)) t" if "thr_inv Q n t" for t
    by (rule wlp_then [OF thr_editBefore [OF that]], rule wlp_then [OF thr_subproc [OF c(1)]], assumption,
        unfold wlp_bnd [of "check _ _"] wlp_check, simp, intro impI, rule wlp_then [OF thr_editAfter], assumption)
       (use thr_report_run [OF c(1) _ n] in simp)
  have fail: "wlp (bnd (gets fz_hf) (\<lambda>h. if cfg_minimize h \<and> fuzz_getState h = STATE_DYNAMIC_MINIMIZE then fuzz_setTerminating
      else raise LogFatal)) (\<lambda>_. thr_inv Q (n + 1)) t" if "thr_inv Q n t" for t
    using thr_state [OF that] by (simp add: wlp_bnd_gets wlp_raise)
  show ?thesis
    unfolding fuzz_fuzzLoop_def
    by (rule pwlp_seq [where R = "\<lambda>_. thr_inv Q n"], simp add: pwlp_plift thr_reset [OF inv],
        rule pwlp_seq [where R = "\<lambda>_. thr_inv Q n"], simp add: pwlp_plift c(2) wlp_ret,
        rule pwlp_seq [OF thr_fetchInput], assumption)
       (use go fail in \<open>simp add: pwlp_plift\<close>)
qed


section \<open>Not ending\<close>

lemma pbnd_None: "pbnd m f s = None \<longleftrightarrow> m s = None \<or> (\<exists>x t. m s = Some (Inr (x, t)) \<and> f x t = None)"
  by (auto simp: pbnd_def split: option.splits sum.splits)

lemma plift_not_None [simp]: "plift m s \<noteq> None"
  by (simp add: plift_def)

lemma runP_None: "runP m s = None \<longleftrightarrow> m (fz_run s) = None"
  by (auto simp: runP_def pzoom_def split: option.splits sum.splits)

text \<open>In the main phase, only the choice of an input can go on forever.\<close>

lemma thr_fetch_None:
  assumes inv: "thr_inv Q n s" and "fuzz_fetchInput c s = None"
  shows "c_externalCommand c = None \<and> pick_loop 0 (fz_run s) = None"
proof -
  have main: "fetch_dry_run c s = Some (Inr (False, s))"
    using thr_state [OF inv] by (simp add: fetch_dry_run_def pbnd_def plift_def gets_def ret_def)
  have "\<not> (fetch_dynamic c s = Some (Inr (b, t)) \<and> fuzz_getState (fz_hf t) \<noteq> STATE_DYNAMIC_MAIN)" for b t
    using thr_dynamic [OF inv, of c] thr_state by (auto simp: pwlp_def)
  then have "fetch_dynamic c s = None"
    using assms(2) thr_state [OF inv]
    by (auto simp: fuzz_fetchInput_def pbnd_None main plift_def gets_def ret_def split: if_splits)
  then show ?thesis
    by (auto simp: fetch_dynamic_def runP_None input_prepareDynamicInput_def split: option.splits sum.splits if_splits)
qed

definition started :: "run_t \<Rightarrow> run_t" where
  "started r = r\<lparr>timeStartedUSecs := nowUSecs r, run_mutationsPerRun := mutate_mutationsPerRun (global r),
     tmOutSignaled := False\<rparr>"

lemma reset_run_result: "\<exists>t. reset_run s = Inr ((), t) \<and> fz_run t = started (fz_run s) \<and> ses_tab (fz_ses t) = ses_tab (fz_ses s)"
  by (simp add: reset_run_def modR_def runM_def bnd_def zoom_def modify_def started_def)
     (simp add: fz_run_def put_run_def)

lemma thr_fuzzLoop_None:
  assumes "c_session_path c = None" and "thr_inv Q n s" and "fuzz_fuzzLoop c s = None"
  shows "c_externalCommand c = None \<and> pick_loop 0 (started (fz_run s)) = None"
proof -
  from reset_run_result [of s] obtain t where t: "reset_run s = Inr ((), t)" "fz_run t = started (fz_run s)" by blast
  then have "fuzz_fetchInput c t = None"
    using assms(1,3) by (auto simp: fuzz_fuzzLoop_def pbnd_None plift_def ret_def)
  moreover have "thr_inv Q n t" using thr_reset [OF assms(2)] t(1) by (simp add: wlp_def)
  ultimately show ?thesis using thr_fetch_None t(2) by metis
qed


section \<open>Feedback\<close>

definition soft_of :: "nat \<Rightarrow> feedback_t \<Rightarrow> soft_t" where
  "soft_of k m = \<lparr>softNewPC = pidNewPC m k, softCurPC = pidTotalPC m k, softNewEdge = pidNewEdge m k,
     softCurEdge = pidTotalEdge m k, softNewCmp = pidNewCmp m k, softCurCmp = pidTotalCmp m k\<rparr>"

definition cleared :: "nat \<Rightarrow> feedback_t \<Rightarrow> feedback_t" where
  "cleared k m = m\<lparr>pidNewPC := (pidNewPC m)(k := 0), pidTotalPC := (pidTotalPC m)(k := 0),
     pidNewEdge := (pidNewEdge m)(k := 0), pidTotalEdge := (pidTotalEdge m)(k := 0),
     pidNewCmp := (pidNewCmp m)(k := 0), pidTotalCmp := (pidTotalCmp m)(k := 0)\<rparr>"

lemma read_soft_result:
  "fuzzNo s < HF_THREAD_MAX \<Longrightarrow>
   read_soft s = Inr (soft_of (fuzzNo s) (fz_cov s), s\<lparr>fz_cov := cleared (fuzzNo s) (fz_cov s)\<rparr>)"
  by (simp add: read_soft_def take_pid_def bnd_def gets_def check_def ret_def modify_def soft_of_def cleared_def)

lemma new_coverage_cov [simp]: "new_coverage f (s\<lparr>fz_cov := m\<rparr>) = new_coverage f s"
  by (simp add: new_coverage_def diff0_def diff1_def)

lemma new_coverage_iff: "new_coverage (soft_of k (fz_cov s)) s \<longleftrightarrow>
    newBBCnt (fz_rhw s) > 0 \<or> pidNewPC (fz_cov s) k > 0 \<or> pidNewEdge (fz_cov s) k > 0 \<or> pidNewCmp (fz_cov s) k > 0 \<or>
    sint (cpuInstrCnt (fz_ghw s) - cpuInstrCnt (fz_rhw s)) < 0 \<or> sint (cpuBranchCnt (fz_ghw s) - cpuBranchCnt (fz_rhw s)) < 0"
  by (simp add: new_coverage_def soft_of_def diff0_def diff1_def)

lemma count_new_fields [simp]:
  "fz_run (count_new f s) = fz_run s" "fuzzNo (count_new f s) = fuzzNo s" "fz_cov (count_new f s) = fz_cov s"
  "fz_rhw (count_new f s) = fz_rhw s"
  by (simp_all add: count_new_def fz_run_def)

text \<open>What adding an input with new coverage leaves.\<close>

lemma feedback_new_result:
  assumes inv: "thr_inv Q n s" and n: "n < 2 ^ 64 - 1"
  shows "\<exists>t. feedback_new c f s = Inr ((), t) \<and> fz_cov t = fz_cov s \<and>
    softCntEdge (fz_ses t) = softCntEdge (fz_ses s) + softNewEdge f \<and>
    softCntPc (fz_ses t) = softCntPc (fz_ses s) + softNewPC f \<and> softCntCmp (fz_ses t) = softCntCmp (fz_ses s) + softNewCmp f \<and>
    io_dynfileqCnt (fz_hf t) = io_dynfileqCnt (fz_hf s) + 1 \<and>
    set (io_dynfileq (fz_hf t)) = insert (io_brk (fz_hf s)) (set (io_dynfileq (fz_hf s))) \<and>
    (\<exists>df. io_store (fz_hf t) (io_brk (fz_hf s)) = Some df \<and> d_data df = inData (fz_run s) \<and> \<not> d_imported df)"
proof -
  define s1 where "s1 = (\<lambda>s. if c_statsFile c then s\<lparr>stats_lines := stats_lines s @ stats_line c s\<rparr> else s) (count_new f s)"
  have s1: "fz_run s1 = fz_run s" "fz_cov s1 = fz_cov s" "fz_ses s1 = fz_ses (count_new f s)"
    by (simp_all add: s1_def fz_run_def count_new_def)
  have "inSize (fz_run s) < 4294967296"
    using inv by (auto simp: thr_inv_def wf_run_def env_ok_def maxInputSz_def HF_INPUT_MAX_SIZE_def dest!: main_inv_wf)
  then obtain v where v: "size_cov (inSize (fz_run s)) u = Inr (v, u)" for u
    by (cases "inSize (fz_run s) = 0") (auto simp: size_cov_def util_Log2_def ret_def)
  define r where "r = (fz_run s)\<lparr>dynfile := (dynfile (fz_run s))\<lparr>d_cov := input_cov f v (fz_rhw s1), d_imported := False\<rparr>\<rparr>"
  have mi: "main_inv Q n r" using inv by (simp add: r_def main_inv_cov thr_inv_def)
  then have ok: "queue_ok (global r)" "wf_run r" "input_ok r" and cnt: "io_dynfileqCnt (global r) < 2 ^ 64 - 1"
    using n by (auto simp: main_inv_def prepare_inv_def select_inv_def queue_ok_def)
  from add_effect [OF ok cnt] obtain df q st where
    e: "input_addDynamicInput r = Inr ((), r\<lparr>global := save_cov_files df (with_new df q st r)\<rparr>)"
      "set q = insert (io_brk (global r)) (set (io_dynfileq (global r)))" "d_imported df = d_imported (dynfile r)"
      "d_data df = inData r" by blast
  define t where "t = put_run (r\<lparr>global := save_cov_files df (with_new df q st r)\<rparr>) (put_run r s1)"
  have sv: "io_dynfileqCnt (save_cov_files df h) = io_dynfileqCnt h" "io_dynfileq (save_cov_files df h) = io_dynfileq h"
    "io_store (save_cov_files df h) = io_store h" for h by (simp_all add: save_cov_files_def Let_def)
  have eq: "feedback_new c f s = Inr ((), t)"
    using e(1) v s1(1) by (simp add: feedback_new_def bnd_def modify_def gets_def modR_def runM_def zoom_def flip: s1_def)
      (simp add: t_def r_def)
  have t: "fz_hf t = save_cov_files df (with_new df q st r)" "fz_cov t = fz_cov s1" "softCntEdge (fz_ses t) = softCntEdge (fz_ses s1)"
    "softCntPc (fz_ses t) = softCntPc (fz_ses s1)" "softCntCmp (fz_ses t) = softCntCmp (fz_ses s1)"
    by (simp_all add: t_def) (simp_all add: put_run_def)
  show ?thesis
    using e(2-4) s1(2,3) sv by (intro exI [of _ t]) (simp add: eq t, simp add: count_new_def r_def inData_def fz_hf_def)
qed


section \<open>Editing in place\<close>

lemma cut_id: "length p < PATH_MAX \<Longrightarrow> snprintf_cut PATH_MAX p = p"
  by (simp add: snprintf_cut_def)

lemma fz_fields [simp]:
  "fz_run (s\<lparr>open_fds := x\<rparr>) = fz_run s" "fz_run (s\<lparr>dyn_fd := d\<rparr>) = fz_run s" "fz_run (s\<lparr>inPlaceEdits := ie\<rparr>) = fz_run s"
  "fz_ses (put_run r s) = (fz_ses s)\<lparr>ses_run := r\<rparr>" "dyn_fd (put_run r s) = dyn_fd s" "open_fds (put_run r s) = open_fds s"
  "inPlaceEdits (put_run r s) = inPlaceEdits s"
  by (simp_all add: fz_run_def put_run_def)

text \<open>The state while the target works on its copy.\<close>

definition redirected :: "path \<Rightarrow> int \<Rightarrow> fuzz_t \<Rightarrow> fuzz_t" where
  "redirected p fd s =
     (let s1 = (setFiles (\<lambda>m. m(p \<mapsto> inData (fz_run s))) s)\<lparr>open_fds := insert fd (open_fds s),
        inPlaceEdits := \<lparr>inplaceOrigPath = d_path (dynfile (fz_run s)), inplaceTmpPath = p, inplaceOrigFd = dyn_fd s\<rparr>\<rparr>
      in (put_run (setPath p (fz_run s1)) s1)\<lparr>dyn_fd := fd\<rparr>)"

lemma editBefore_result:
  assumes "t_inPlaceEdit (ses_tab (fz_ses s)) \<noteq> 0" and "inSize (fz_run s) \<noteq> 0"
    and "length (inData (fz_run s)) = inSize (fz_run s)" and "c_mkstemp c (inplace_template c s) = Some (p, fd)"
    and "fd > 0" and "length p < PATH_MAX" and "length (d_path (dynfile (fz_run s))) < PATH_MAX"
    and "c_written c (inSize (fz_run s)) = inSize (fz_run s)"
  shows "fuzz_inPlaceEditBefore c s = Inr ((), redirected p fd s)"
proof -
  have "runM (readIn 0 (inSize (fz_run s))) s = Inr (inData (fz_run s), s)"
    using assms(3) by (simp add: runM_def readIn_def zoom_def bnd_def gets_def or_fault_def buf_read_def ret_def)
      (simp add: put_run_def fz_run_def)
  then have "fuzz_makeWorkingCopy c (inplace_template c s) s =
      Inr ((fd, p), (setFiles (\<lambda>m. m(p \<mapsto> inData (fz_run s))) s)\<lparr>open_fds := insert fd (open_fds s)\<rparr>)"
    using assms(4,8) by (simp add: fuzz_makeWorkingCopy_def bnd_def gets_def modify_def ret_def)
  then show ?thesis
    using assms(1,2,5-7)
    by (simp add: fuzz_inPlaceEditBefore_def fuzz_redirectToCopy_def bnd_def gets_def modify_def modR_def runM_def zoom_def
        cut_id redirected_def Let_def)
      (simp add: setFiles_def cut_id setPath_def)
qed


definition no_edit :: inplace_edit_t where
  "no_edit = \<lparr>inplaceOrigPath = [], inplaceTmpPath = [], inplaceOrigFd = 0\<rparr>"

lemma editAfter_result:
  assumes "t_inPlaceEdit (ses_tab (fz_ses s)) \<noteq> 0" and "p \<noteq> []" and "length (d_path (dynfile (fz_run s))) < PATH_MAX"
    and "fd > 0" and "fd \<notin> open_fds s" and "dyn_fd s > 0" and "fs_files (io_fs (fz_hf s)) p = None"
  shows "fuzz_inPlaceEditAfter (redirected p fd s) = Inr ((), s\<lparr>inPlaceEdits := no_edit\<rparr>)"
proof -
  have tab: "ses_tab (fz_ses (redirected p fd s)) = ses_tab (fz_ses s)"
    by (simp add: redirected_def Let_def put_run_def setFiles_def)
  have ie: "inPlaceEdits (redirected p fd s) = \<lparr>inplaceOrigPath = d_path (dynfile (fz_run s)), inplaceTmpPath = p, inplaceOrigFd = dyn_fd s\<rparr>"
    "dyn_fd (redirected p fd s) = fd"
    by (simp_all add: redirected_def Let_def)
  have files: "(fs_files (io_fs (fz_hf s)))(p := None) = fs_files (io_fs (fz_hf s))" using assms(7) by auto
  show ?thesis
    using assms(1-4,6) tab ie
    by (simp add: fuzz_inPlaceEditAfter_def fuzz_unLinkTempCopy_def bnd_def gets_def modify_def modR_def runM_def zoom_def
        cut_id)
      (use assms(5) files in \<open>simp add: redirected_def Let_def setFiles_def put_run_def fz_run_def fz_hf_def setPath_def
        no_edit_def\<close>)
qed

text \<open>After any run that left the record of the redirection and the descriptor of the input.\<close>

lemma editAfter_any:
  assumes "inPlaceEdits u = \<lparr>inplaceOrigPath = op, inplaceTmpPath = p, inplaceOrigFd = ofd\<rparr>" and "dyn_fd u = fd"
    and "p \<noteq> []" and "length op < PATH_MAX" and "fd > 0" and "ofd > 0"
  shows "if t_inPlaceEdit (ses_tab (fz_ses u)) \<noteq> 0
       then \<exists>v. fuzz_inPlaceEditAfter u = Inr ((), v) \<and> d_path (dynfile (fz_run v)) = op \<and>
         dyn_fd v = ofd \<and> open_fds v = open_fds u - {fd} \<and> inPlaceEdits v = no_edit \<and>
         fs_files (io_fs (fz_hf v)) = (fs_files (io_fs (fz_hf u)))(p := None) \<and>
         inData (fz_run v) = inData (fz_run u) \<and> io_dynfileq (fz_hf v) = io_dynfileq (fz_hf u)
       else fuzz_inPlaceEditAfter u = Inr ((), u)"
  using assms
  by (simp add: fuzz_inPlaceEditAfter_def fuzz_unLinkTempCopy_def bnd_def gets_def modify_def modR_def runM_def zoom_def
      cut_id ret_def) (simp add: setFiles_def setPath_def no_edit_def inData_def fz_hf_def)

section \<open>Imported inputs\<close>

text \<open>The first input of the queue is imported: it is taken at once.\<close>

lemma pick_imported:
  assumes "select_inv r" and "\<not> drv_independentQueue (global r)" and "triesLeft r = 0"
    and "io_dynfileqCurrent (global r) = None" and "io_dynfileq (global r) = a # q"
    and "io_store (global r) a = Some df" and "d_imported df"
  shows "pick_loop 0 r = Some (Inr (advance r a))"
  using assms by (simp add: pick_loop_step cursor_def tailq_first_def Let_def)

lemma pick_empty:
  "triesLeft r = 0 \<Longrightarrow> io_dynfileqCurrent (global r) = None \<Longrightarrow> io_dynfileq (global r) = [] \<Longrightarrow>
   pick_loop 0 r = Some (Inl NullDeref)"
  by (subst pick_loop.simps) (simp add: tailq_first_def)

section \<open>A concrete thread\<close>

definition demo_thread :: "run_t \<Rightarrow> fuzz_t" where
  "demo_thread r = \<lparr>fz_ses = demo_session\<lparr>ses_run := r\<rparr>, fz_cov = \<lparr>pcGuardMap = (\<lambda>_. 0), bbMapPc = (\<lambda>_. 0), bbMapCmp = (\<lambda>_. 0),
       pidNewPC = (\<lambda>_. 0), pidNewEdge = (\<lambda>_. 3), pidNewCmp = (\<lambda>_. 0), guardNb = 0, pidTotalPC = (\<lambda>_. 0),
       pidTotalEdge = (\<lambda>_. 0), pidTotalCmp = (\<lambda>_. 0)\<rparr>, fuzzNo = 0, fz_ghw = zero_hw, fz_rhw = zero_hw, termTimeStamp = 0,
     switchingToFDM = False, crashFileName = [], run_pc = 0, backtrace = 0, run_access = 0, run_exception = 0,
     run_report = [], mainWorker = True, run_pid = 0, dyn_fd = 3, open_fds = {3}, inPlaceEdits = no_edit, crashesCnt = 0,
     timeoutedCnt = 0, threadsActiveCnt = 1, threadsFinished = 0, verifiedCrashesCnt = 0, stats_lines = [],
     g_last_sec = 0, g_prof_header_written = False, prof_file = []\<rparr>"

definition demo_cfg :: fuzz_cfg where
  "demo_cfg = \<lparr>c_skipFeedbackOnTimeout = False, c_useVerifier = False, c_exitUponCrash = False, c_statsFile = False,
     c_mutationsMax = 0, c_session_path = None, c_externalCommand = Some (\<lambda>_. Some [1, 2]), c_postExternalCommand = None,
     c_feedbackMutateCommand = None, c_subproc_Run = ret True, c_waitForExternalInput = ret True, c_saveReport = ret (),
     c_json_parse = (\<lambda>_. None), c_reads = (\<lambda>_. None), c_seen = (\<lambda>_. (1, False)),
     c_mkstemp = (\<lambda>_. Some ([116], 7)), c_written = (\<lambda>k. k), c_prof_writable = True, c_rss_kb = 0\<rparr>"

lemma run_keeps_refl: "run_keeps s s"
  unfolding run_keeps_def
  by (intro conjI refl exI [of _ "feedback_cmpFeedbackMap (fz_hf s)"] exI [of _ "io_fs (fz_hf s)"]
      exI [of _ "tmOutSignaled (fz_run s)"] exI [of _ "now (fz_run s)"] exI [of _ "nowUSecs (fz_run s)"])
     (simp_all add: fz_hf_def)

lemma demo_target_ok: "target_ok demo_cfg"
  by (simp add: target_ok_def demo_cfg_def wlp_ret run_keeps_refl)

lemma demo_thr_inv: "thr_inv {1} 1 (demo_thread demo_queue)"
proof -
  have "fz_run (demo_thread demo_queue) = demo_queue" "fuzzNo (demo_thread demo_queue) = 0"
    by (simp_all add: demo_thread_def fz_run_def)
  then show ?thesis
    using demo_queue_ok by (simp add: thr_inv_def main_inv_def HF_THREAD_MAX_def)
      (simp add: demo_queue_def demo_run_def demo_global_def demo_input_def demo_file_def by_cov_def covs_def permanent_def
        input_ok_def fuzz_getState_def)
qed

text \<open>An iteration of this thread returns: the command gives an input of two bytes, which is run and evaluated.\<close>

lemma perfFeedback_returns:
  assumes "thr_inv Q n s" and "n < 2 ^ 64 - 1"
  shows "\<exists>t. fuzz_perfFeedback c s = Inr ((), t)"
proof -
  let ?s = "s\<lparr>fz_cov := cleared (fuzzNo s) (fz_cov s)\<rparr>"
  have "thr_inv Q n ?s" using assms(1) by (simp add: thr_inv_def fz_run_def)
  then have new: "\<exists>t. feedback_new c f u = Inr ((), t)" if "u = s \<or> u = ?s" for f u
    using feedback_new_result [OF _ assms(2), of Q u c f] assms(1) that by blast
  have none: "\<exists>t. feedback_none u = Inr ((), t)" for u
    by (simp add: feedback_none_def modR_def runM_def zoom_def modify_def)
  have "read_soft s = Inr (soft_of (fuzzNo s) (fz_cov s), ?s)"
    using assms(1) by (intro read_soft_result) (simp add: thr_inv_def)
  then show ?thesis using new none by (simp add: fuzz_perfFeedback_def bnd_def gets_def ret_def)
qed

lemma external_fetch:
  assumes inv: "thr_inv Q n s" and c: "c_externalCommand c = Some cmd" "cmd [] = Some bs" "c_postExternalCommand c = None" "c_feedbackMutateCommand c = None"
  shows "\<exists>r. fuzz_fetchInput c s = Some (Inr (True, put_run r s)) \<and> thr_inv Q n (put_run r s)"
proof -
  have "main_inv Q n (fz_run s)" using inv by (simp add: thr_inv_def)
  from wp_result [OF main_external_given [of Q n _ cmd, OF this c(2)]] obtain r where
    r: "input_prepareExternalFile cmd (fz_run s) = Inr (True, r)" "main_inv Q n r" by auto
  have inv': "thr_inv Q n (put_run r s)" using r(2) inv by (simp add: thr_inv_def)
  have "fetch_dynamic c s = Some (Inr (True, put_run r s))"
    using r(1) by (simp add: fetch_dynamic_def c plift_def runM_def zoom_def)
  then have "fuzz_fetchInput c s = Some (Inr (True, put_run r s))"
    using thr_state [OF inv] thr_state [OF inv']
    by (simp add: fuzz_fetchInput_def fetch_dry_run_def pbnd_def plift_def gets_def ret_def post_process_def c)
  then show ?thesis using inv' by blast
qed

lemma editAfter_returns: "\<exists>t. fuzz_inPlaceEditAfter s = Inr ((), t)"
  by (simp add: fuzz_inPlaceEditAfter_def fuzz_unLinkTempCopy_def bnd_def gets_def ret_def modify_def modR_def runM_def zoom_def split: prod.split)

text \<open>An iteration returns when the input comes from a command that works, is not edited in place, and the run and the saving return.\<close>

lemma external_iteration:
  assumes inv: "thr_inv Q n s0" and n: "n < 2 ^ 64 - 1" and off: "t_inPlaceEdit (ses_tab (fz_ses s0)) = 0"
    and c: "c_externalCommand c = Some cmd" "cmd [] = Some bs" "c_postExternalCommand c = None" "c_feedbackMutateCommand c = None"
      "c_session_path c = None" "\<not> c_useVerifier c"
    and run: "\<And>f. \<exists>g. c_subproc_Run c f = Inr (True, g) \<and> run_keeps f g" and save: "\<And>f. \<exists>g. c_saveReport c f = Inr ((), g)"
  shows "\<exists>t. fuzz_fuzzLoop c s0 = Some (Inr ((), t))"
proof -
  from reset_run_result [of s0] obtain s where s: "reset_run s0 = Inr ((), s)" "ses_tab (fz_ses s) = ses_tab (fz_ses s0)" by blast
  have "thr_inv Q n s" using thr_reset [OF inv] s(1) by (simp add: wlp_def)
  from external_fetch [OF this c(1-4)] obtain r where
    r: "fuzz_fetchInput c s = Some (Inr (True, put_run r s))" "thr_inv Q n (put_run r s)" by blast
  have e: "fuzz_inPlaceEditBefore c (put_run r s) = Inr ((), put_run r s)"
    using s(2) off by (simp add: fuzz_inPlaceEditBefore_def bnd_def gets_def ret_def)
  obtain g where g: "c_subproc_Run c (put_run r s) = Inr (True, g)" "run_keeps (put_run r s) g" using run by blast
  obtain h where h: "fuzz_inPlaceEditAfter g = Inr ((), h)" using editAfter_returns by blast
  have "thr_inv Q n h" using thr_editAfter [OF thr_keeps [OF r(2) g(2)]] h by (simp add: wlp_def)
  then obtain t where t: "fuzz_perfFeedback c h = Inr ((), t)" using perfFeedback_returns [OF _ n] by blast
  have "\<exists>t. report_run c h = Inr ((), t)"
    using t save [of t] save [of h] c(6) by (auto simp: report_run_def bnd_def gets_def ret_def)
  then show ?thesis
    using s(1) r(1) e g(1) h c(5) by (simp add: fuzz_fuzzLoop_def pbnd_def plift_def bnd_def ret_def check_def)
qed

lemma demo_iteration: "\<exists>t. fuzz_fuzzLoop demo_cfg (demo_thread demo_queue) = Some (Inr ((), t))"
proof (rule external_iteration [OF demo_thr_inv])
  show "t_inPlaceEdit (ses_tab (fz_ses (demo_thread demo_queue))) = 0"
    by (simp add: demo_thread_def demo_session_def demo_table_def)
  show "\<exists>g. c_subproc_Run demo_cfg f = Inr (True, g) \<and> run_keeps f g" for f
    using run_keeps_refl by (simp add: demo_cfg_def ret_def)
qed (simp_all add: demo_cfg_def ret_def)

section \<open>Properties\<close>





text \<open>C24: running on a copy and coming back from it. When editing in place is on and the copy can be made
  (under a fresh name and descriptor, completely written), the target sees a file with exactly
  the bytes of the input, under that name and descriptor. Then the target runs: whatever it does to the state
  other than the thread's own record of the redirection and the descriptor of its input (\<open>u\<close> is the state after the
  run), if editing in place is still on, the input has its old name and descriptor again, the descriptor of the copy
  is closed, the copy is removed, and every other file is as the run left it; if nothing changed during the run, the state is
  the one before. The flag is shared: if another thread has meanwhile loaded a driver without editing in place, nothing is undone, and the
  thread's input keeps the name and the descriptor of the copy.\<close>

theorem inPlaceEdit_roundtrip:
  assumes "t_inPlaceEdit (ses_tab (fz_ses s)) \<noteq> 0" and "inSize (fz_run s) \<noteq> 0"
    and "length (inData (fz_run s)) = inSize (fz_run s)" and "c_mkstemp c (inplace_template c s) = Some (p, fd)"
    and "fd > 0" and "fd \<notin> open_fds s" and "p \<noteq> []" and "length p < PATH_MAX" and "fs_files (io_fs (fz_hf s)) p = None"
    and "length (d_path (dynfile (fz_run s))) < PATH_MAX" and "dyn_fd s > 0"
    and "c_written c (inSize (fz_run s)) = inSize (fz_run s)"
  shows "\<exists>t. fuzz_inPlaceEditBefore c s = Inr ((), t) \<and> d_path (dynfile (fz_run t)) = p \<and> dyn_fd t = fd \<and> fd \<in> open_fds t \<and>
    fs_files (io_fs (fz_hf t)) p = Some (inData (fz_run s)) \<and>
    (\<forall>u. inPlaceEdits u = inPlaceEdits t \<and> dyn_fd u = dyn_fd t \<longrightarrow>
      (if t_inPlaceEdit (ses_tab (fz_ses u)) \<noteq> 0
       then \<exists>v. fuzz_inPlaceEditAfter u = Inr ((), v) \<and> d_path (dynfile (fz_run v)) = d_path (dynfile (fz_run s)) \<and>
         dyn_fd v = dyn_fd s \<and> open_fds v = open_fds u - {fd} \<and> inPlaceEdits v = no_edit \<and>
         fs_files (io_fs (fz_hf v)) = (fs_files (io_fs (fz_hf u)))(p := None) \<and>
         inData (fz_run v) = inData (fz_run u) \<and> io_dynfileq (fz_hf v) = io_dynfileq (fz_hf u)
       else fuzz_inPlaceEditAfter u = Inr ((), u))) \<and>
    fuzz_inPlaceEditAfter t = Inr ((), s\<lparr>inPlaceEdits := no_edit\<rparr>)"
proof (intro exI [of _ "redirected p fd s"] conjI allI impI)
  let ?t = "redirected p fd s"
  show "fuzz_inPlaceEditBefore c s = Inr ((), ?t)" by (rule editBefore_result [OF assms(1-5,8,10,12)])
  show "d_path (dynfile (fz_run ?t)) = p" "dyn_fd ?t = fd" "fd \<in> open_fds ?t" "fs_files (io_fs (fz_hf ?t)) p = Some (inData (fz_run s))"
    by (simp_all add: redirected_def Let_def fz_hf_def setPath_def setFiles_def)
  show "fuzz_inPlaceEditAfter ?t = Inr ((), s\<lparr>inPlaceEdits := no_edit\<rparr>)" by (rule editAfter_result [OF assms(1,7,10,5,6,11,9)])
  fix u :: fuzz_t
  assume "inPlaceEdits u = inPlaceEdits ?t \<and> dyn_fd u = dyn_fd ?t"
  then have "inPlaceEdits u = \<lparr>inplaceOrigPath = d_path (dynfile (fz_run s)), inplaceTmpPath = p, inplaceOrigFd = dyn_fd s\<rparr>" "dyn_fd u = fd"
    by (simp_all add: redirected_def Let_def)
  from editAfter_any [OF this assms(7,10,5,11)]
  show "if t_inPlaceEdit (ses_tab (fz_ses u)) \<noteq> 0
       then \<exists>v. fuzz_inPlaceEditAfter u = Inr ((), v) \<and> d_path (dynfile (fz_run v)) = d_path (dynfile (fz_run s)) \<and>
         dyn_fd v = dyn_fd s \<and> open_fds v = open_fds u - {fd} \<and> inPlaceEdits v = no_edit \<and>
         fs_files (io_fs (fz_hf v)) = (fs_files (io_fs (fz_hf u)))(p := None) \<and>
         inData (fz_run v) = inData (fz_run u) \<and> io_dynfileq (fz_hf v) = io_dynfileq (fz_hf u)
       else fuzz_inPlaceEditAfter u = Inr ((), u)" .
qed

definition demo_edit :: fuzz_t where
  "demo_edit = (demo_thread (demo_run [1, 2]))\<lparr>fz_ses := demo_session\<lparr>ses_run := demo_run [1, 2],
     ses_tab := demo_table\<lparr>t_inPlaceEdit := 1\<rparr>\<rparr>\<rparr>"

text \<open>The target cuts its copy and the run leaves a hash; with the flag cleared nothing is undone.\<close>

theorem inPlaceEdit_roundtrip_witness:
  "\<exists>t. fuzz_inPlaceEditBefore demo_cfg demo_edit = Inr ((), t) \<and> fs_files (io_fs (fz_hf t)) [116] = Some [1, 2] \<and>
     (\<exists>v. fuzz_inPlaceEditAfter ((setFiles (\<lambda>m. m([116] \<mapsto> [1])) t)\<lparr>backtrace := 5\<rparr>) = Inr ((), v) \<and>
        d_path (dynfile (fz_run v)) = [] \<and> dyn_fd v = 3 \<and> fs_files (io_fs (fz_hf v)) [116] = None)"
proof -
  have fields: "fz_run demo_edit = demo_run [1, 2]" "fz_hf demo_edit = demo_global" "t_inPlaceEdit (ses_tab (fz_ses demo_edit)) = 1"
    "open_fds demo_edit = {3}" "dyn_fd demo_edit = 3"
    by (simp_all add: demo_edit_def demo_thread_def fz_run_def fz_hf_def demo_run_def)
  have cfg: "c_mkstemp demo_cfg x = Some ([116], 7)" "c_written demo_cfg k = k" for x k by (simp_all add: demo_cfg_def)
  have path: "d_path (dynfile (demo_run [1, 2])) = []" "fs_files (io_fs demo_global) x = None" for x
    by (simp_all add: demo_run_def demo_file_def demo_global_def demo_fs_def)
  let ?t = "redirected [116] 7 demo_edit" and ?u = "(setFiles (\<lambda>m. m([116] \<mapsto> [1])) (redirected [116] 7 demo_edit))\<lparr>backtrace := 5\<rparr>"
  have t: "fuzz_inPlaceEditBefore demo_cfg demo_edit = Inr ((), ?t)"
    by (rule editBefore_result) (simp_all add: fields cfg path PATH_MAX_def)
  have u: "inPlaceEdits ?u = inPlaceEdits ?t" "dyn_fd ?u = dyn_fd ?t" "t_inPlaceEdit (ses_tab (fz_ses ?u)) \<noteq> 0"
    using fields(3) by (simp_all add: setFiles_def redirected_def Let_def put_run_def)
  have "fs_files (io_fs (fz_hf ?t)) [116] = Some [1, 2] \<and>
      (\<exists>v. fuzz_inPlaceEditAfter ?u = Inr ((), v) \<and> d_path (dynfile (fz_run v)) = [] \<and> dyn_fd v = 3 \<and> fs_files (io_fs (fz_hf v)) [116] = None)"
  proof (rule exE [OF inPlaceEdit_roundtrip [of demo_edit demo_cfg "[116]" 7]], goal_cases)
    case (13 t)
    then have eq: "t = ?t" using t by simp
    from 13 have "fs_files (io_fs (fz_hf t)) [116] = Some (inData (fz_run demo_edit))" by (elim conjE)
    moreover from 13 have "\<exists>v. fuzz_inPlaceEditAfter ?u = Inr ((), v) \<and> d_path (dynfile (fz_run v)) = d_path (dynfile (fz_run demo_edit)) \<and>
         dyn_fd v = dyn_fd demo_edit \<and> fs_files (io_fs (fz_hf v)) = (fs_files (io_fs (fz_hf ?u)))([116] := None)"
      using u unfolding eq by (elim conjE allE [of _ ?u] impE, blast) (simp only: if_True not_False_eq_True, blast)
    ultimately show ?case unfolding eq by (auto simp: fields path)
  qed (simp_all add: fields cfg path PATH_MAX_def)
  then show ?thesis using t by auto
qed


text \<open>The count of inputs includes the imported ones but is not decremented when an imported
  input is taken out of the queue. When the queue holds only one imported input (so the dry run
  did not add the input without bytes), the next choice succeeds and leaves an empty queue with
  a count that is not zero, and the choice after that follows a null pointer.\<close>

theorem imported_only_queue_faults:
  assumes inv: "prepare_inv r" and i: "\<not> drv_independentQueue (global r)" and t: "triesLeft r = 0"
    and cur: "io_dynfileqCurrent (global r) = None" and q: "io_dynfileq (global r) = [a]"
    and st: "io_store (global r) a = Some df" and imp: "d_imported df"
  shows "\<exists>s. input_prepareDynamicInput nm r = Some (Inr (True, s)) \<and> input_prepareDynamicInput nm s = Some (Inl NullDeref)"
proof -
  let ?r = "advance r a"
  have sel: "select_inv r" and cnt: "io_dynfileqCnt (global r) \<noteq> 0" and f: "file_ok df" and w: "wf_run r"
    and sz: "d_size df \<le> maxInputSz r"
    using inv st by (auto simp: prepare_inv_def select_inv_def counters_ok_def queue_wf_def store_ok_def)
  have "wp (load_input nm) (\<lambda>b s. b \<and> s = dequeued a (loaded a df ?r)) ?r"
    by (rule wp_load_input [where a = a and df = df])
       (use st f w sz q imp in \<open>simp_all add: advance_def wf_run_def inData_def inSize_def maxInputSz_def\<close>)
  from wp_result [OF this] have l: "load_input nm ?r = Inr (True, dequeued a (loaded a df ?r))" by auto
  have nx: "tailq_next (global r) a = None" by (simp add: tailq_next_def q)
  have "pick_loop 0 (dequeued a (loaded a df ?r)) = Some (Inl NullDeref)"
    by (rule pick_empty) (simp_all add: dequeued_def loaded_def advance_def nx q)
  moreover have "io_dynfileqCnt (global (dequeued a (loaded a df ?r))) \<noteq> 0"
    using cnt by (simp add: dequeued_def loaded_def advance_def)
  ultimately show ?thesis
    using pick_imported [OF sel i t cur q st imp] l cnt by (simp add: input_prepareDynamicInput_def)
qed

definition demo_imported :: run_t where
  "demo_imported = demo_queue\<lparr>global := (global demo_queue)\<lparr>io_store := [1 \<mapsto> (demo_input 1 0 False)\<lparr>d_imported := True\<rparr>]\<rparr>\<rparr>"

lemma demo_imported_ok: "prepare_inv demo_imported"
  by (simp add: prepare_inv_def select_inv_def queue_wf_def store_ok_def counters_ok_def wf_run_def
      env_ok_def file_ok_def demo_imported_def demo_queue_def demo_input_def demo_file_def demo_run_def demo_global_def
      inData_def inSize_def maxInputSz_def HF_INPUT_MAX_SIZE_def)

theorem imported_only_queue_faults_witness:
  "\<exists>s. input_prepareDynamicInput True demo_imported = Some (Inr (True, s)) \<and>
     input_prepareDynamicInput True s = Some (Inl NullDeref)"
  by (rule imported_only_queue_faults [OF demo_imported_ok, of 1 "(demo_input 1 0 False)\<lparr>d_imported := True\<rparr>"])
     (simp_all add: demo_imported_def demo_queue_def demo_global_def demo_run_def)

text \<open>A seed that is larger than the limit of the main phase ends the process. The limit is
  computed from the largest input that was recorded with coverage, but imported inputs are only
  bounded by the size of the buffer: when one that is larger is next in the queue, loading it
  ends in a fatal exit.\<close>

theorem large_seed_is_fatal:
  assumes "select_inv r" and "\<not> drv_independentQueue (global r)" and "triesLeft r = 0"
    and "io_dynfileqCurrent (global r) = None" and "io_dynfileq (global r) = a # q"
    and "io_store (global r) a = Some df" and "d_imported df" and "d_size df > maxInputSz r" and "inSize r \<le> maxInputSz r"
  shows "input_prepareDynamicInput nm r = Some (Inl LogFatal)"
proof -
  have "io_dynfileqCnt (global r) \<noteq> 0" using assms(1) by (simp add: select_inv_def counters_ok_def)
  moreover have "load_input nm (advance r a) = Inl LogFatal"
    using assms(6,8,9)
    by (simp add: load_input_def bnd_def gets_def or_fault_def ret_def deref_def input_setSize_def raise_def)
       (simp add: advance_def inSize_def maxInputSz_def ret_def raise_def bnd_def gets_def)
  ultimately show ?thesis
    using pick_imported [OF assms(1-7)] by (simp add: input_prepareDynamicInput_def)
qed

definition demo_large :: run_t where
  "demo_large = demo_imported\<lparr>global := (global demo_imported)\<lparr>mutate_maxInputSz := 1, io_store :=
     [1 \<mapsto> (demo_input 1 0 False)\<lparr>d_imported := True, d_size := 2, d_data := [65, 66]\<rparr>]\<rparr>\<rparr>"

theorem large_seed_is_fatal_witness: "input_prepareDynamicInput True demo_large = Some (Inl LogFatal)"
proof (rule large_seed_is_fatal [where a = 1])
  show "select_inv demo_large"
    by (simp add: select_inv_def queue_wf_def store_ok_def counters_ok_def file_ok_def demo_large_def demo_imported_def
        demo_queue_def demo_input_def demo_file_def demo_run_def demo_global_def HF_INPUT_MAX_SIZE_def)
qed (simp_all add: demo_large_def demo_imported_def demo_queue_def demo_global_def demo_run_def inSize_def maxInputSz_def
    demo_file_def, simp_all)

end
