(* ===== verification/HF_Switch.thy ===== *)
theory HF_Switch
  imports HF_Fuzz_Inv
begin

text \<open>
  The change from the dry run to the main phase (\<open>fuzz_setDynamicMainState\<close> of
  \<open>honggfuzz/fuzz.c\<close>): it establishes the invariant of the main phase.
\<close>

definition dry_inv :: "run_t \<Rightarrow> bool" where
  "dry_inv r \<longleftrightarrow> queue_ok (global r) \<and> wf_run r \<and> input_ok r \<and> inSize r \<le> HF_INPUT_DEFAULT_SIZE \<and>
     1 \<le> unat (mutate_mutationsPerRun (global r)) \<and> cnts_mutationsCnt (global r) \<noteq> 0 \<and>
     threads_threadsMax (global r) \<noteq> 0 \<and> \<not> drv_independentQueue (global r) \<and> triesLeft r = 0 \<and>
     io_dynfileqCurrent (global r) = None \<and>
     (\<forall>a df. io_store (global r) a = Some df \<longrightarrow>
        \<not> d_imported df \<and> d_size df \<le> io_dynfileqMaxSz (global r) \<and> d_size df \<le> maxInputSz r)"

text \<open>The new limit leaves room for every stored input.\<close>

lemma limit_size:
  "mutate_maxInputSz (limit_input_size h) \<le> mutate_maxInputSz h"
  "k \<le> mutate_maxInputSz h \<Longrightarrow> k \<le> io_dynfileqMaxSz h \<or> k \<le> HF_INPUT_DEFAULT_SIZE \<Longrightarrow>
     io_dynfileqMaxSz h \<le> HF_INPUT_MAX_SIZE \<Longrightarrow> k \<le> mutate_maxInputSz (limit_input_size h)"
  by (auto simp: limit_input_size_def Let_def sz_add_def HF_INPUT_MAX_SIZE_def HF_INPUT_DEFAULT_SIZE_def)

lemma limit_frame:
  "limit_input_size h = h\<lparr>mutate_maxInputSz := mutate_maxInputSz (limit_input_size h)\<rparr>"
  by (simp add: limit_input_size_def Let_def)

definition to_main :: "run_t \<Rightarrow> run_t" where
  "to_main r = r\<lparr>global := (limit_input_size (global r))\<lparr>feedback_state := STATE_DYNAMIC_MAIN\<rparr>,
     dynfile := (dynfile r)\<lparr>d_path := str ''[DYNAMIC]''\<rparr>\<rparr>"

lemma to_main_inv:
  assumes inv: "dry_inv r" and ne: "io_dynfileq (global r) \<noteq> []" and mx: "io_dynfileqMaxSz (global r) \<le> HF_INPUT_MAX_SIZE"
  shows "main_inv (set (io_dynfileq (global r))) (io_dynfileqCnt (global r)) (to_main r)"
proof -
  define m where "m = mutate_maxInputSz (limit_input_size (global r))"
  have t: "to_main r = r\<lparr>global := (global r)\<lparr>mutate_maxInputSz := m, feedback_state := STATE_DYNAMIC_MAIN\<rparr>,
     dynfile := (dynfile r)\<lparr>d_path := str ''[DYNAMIC]''\<rparr>\<rparr>"
    unfolding to_main_def m_def by (subst limit_frame) simp
  have w: "1 \<le> mutate_maxInputSz (global r)" "mutate_maxInputSz (global r) \<le> HF_INPUT_MAX_SIZE"
      "inSize r \<le> mutate_maxInputSz (global r)" "inSize r \<le> HF_INPUT_DEFAULT_SIZE"
    using inv by (auto simp: dry_inv_def wf_run_def env_ok_def maxInputSz_def)
  have m: "1 \<le> m" "m \<le> HF_INPUT_MAX_SIZE" "inSize r \<le> m"
    using limit_size(2) [OF w(1) _ mx] limit_size(2) [OF w(3) _ mx] order.trans [OF limit_size(1) w(2)] w(4)
    by (auto simp: m_def HF_INPUT_DEFAULT_SIZE_def)
  have st: "d_size df \<le> m" "\<not> d_imported df" if "io_store (global r) a = Some df" for a df
    using that inv limit_size(2) [OF _ _ mx, of "d_size df"] by (auto simp: m_def dry_inv_def maxInputSz_def)
  have cnt: "io_dynfileqCnt (global r) \<noteq> 0" "set (io_dynfileq (global r)) \<subseteq> dom (io_store (global r))"
    using inv ne by (auto simp: dry_inv_def queue_ok_def queue_wf_def store_ok_def)
  have q: "queue_ok (global (to_main r))"
    using inv by (simp add: t dry_inv_def queue_ok_def queue_wf_def store_ok_def by_cov_def covs_def)
  have "wf_run (to_main r)"
    using inv q m by (simp add: wf_run_def env_ok_def queue_ok_def queue_wf_def dry_inv_def)
      (simp add: t inData_def inSize_def maxInputSz_def)
  moreover have "permanent (set (io_dynfileq (global r))) (global (to_main r))"
    using ne cnt st by (fastforce simp: permanent_def t)
  moreover have "input_ok (to_main r)" "select_inv (to_main r)"
    using inv q cnt ne by (auto simp: dry_inv_def input_ok_def select_inv_def queue_ok_def counters_ok_def t)
  ultimately show ?thesis
    using inv q st by (auto simp: main_inv_def prepare_inv_def queue_ok_def t fuzz_getState_def dry_inv_def maxInputSz_def)
qed

lemma save_fields [simp]:
  "io_dynfileqCnt (save_cov_files df h) = io_dynfileqCnt h" "cfg_minimize (save_cov_files df h) = cfg_minimize h"
  "io_dynfileqMaxSz (save_cov_files df h) = io_dynfileqMaxSz h" "io_store (save_cov_files df h) = io_store h"
  "io_dynfileq (save_cov_files df h) = io_dynfileq h" "mutate_maxInputSz (save_cov_files df h) = mutate_maxInputSz h"
  by (simp_all add: save_cov_files_def Let_def)

text \<open>Adding an input in the dry run keeps its invariant.\<close>

lemma dry_inv_fs: "dry_inv (r\<lparr>global := save_cov_files df h\<rparr>) = dry_inv (r\<lparr>global := h\<rparr>)"
  by (simp add: save_cov_files_def Let_def dry_inv_def queue_ok_def queue_wf_def store_ok_def by_cov_def covs_def
      wf_run_def env_ok_def inData_def inSize_def maxInputSz_def input_ok_def)

lemma dry_add:
  assumes inv: "dry_inv r" and cnt: "io_dynfileqCnt (global r) < 2 ^ 64 - 1" and i: "\<not> d_imported (dynfile r)"
  shows "wp input_addDynamicInput (\<lambda>_ s. dry_inv s \<and> maxInputSz s = maxInputSz r \<and> (\<exists>df st h. global s = save_cov_files df h \<and>
    io_dynfileqCnt h = io_dynfileqCnt (global r) + 1 \<and> cfg_minimize h = cfg_minimize (global r) \<and>
    io_dynfileqMaxSz h = max (io_dynfileqMaxSz (global r)) (inSize r) \<and> same_files (io_store (global r)) st \<and>
    io_store h = st(io_brk (global r) \<mapsto> df) \<and> d_data df = inData r \<and>
    set (io_dynfileq h) = insert (io_brk (global r)) (set (io_dynfileq (global r))))) r"
proof -
  have ok: "queue_ok (global r)" "wf_run r" "input_ok r" using inv by (auto simp: dry_inv_def)
  from add_effect [OF ok cnt] obtain df q st where
    e: "input_addDynamicInput r = Inr ((), r\<lparr>global := save_cov_files df (with_new df q st r)\<rparr>)"
      "queue_ok (with_new df q st r)" "wf_run (r\<lparr>global := with_new df q st r\<rparr>)" "same_files (io_store (global r)) st"
      "st (io_brk (global r)) = None" "set q = insert (io_brk (global r)) (set (io_dynfileq (global r)))" "d_size df = inSize r"
      "d_imported df = d_imported (dynfile r)" "d_data df = inData r" by blast
  note sf = same_filesD(1) [OF e(4)]
  have "\<not> d_imported f \<and> d_size f \<le> max (io_dynfileqMaxSz (global r)) (inSize r) \<and> d_size f \<le> maxInputSz r"
    if f: "(st(io_brk (global r) \<mapsto> df)) a = Some f" for a f
  proof (cases "a = io_brk (global r)")
    case True
    then show ?thesis using f i e(7,8) ok(2) by (auto simp: wf_run_def)
  next
    case False
    then obtain g where "io_store (global r) a = Some g" "d_size f = d_size g" "d_imported f = d_imported g"
      using sf [of a f] f by auto
    then show ?thesis using inv by (auto simp: dry_inv_def le_max_iff_disj)
  qed
  moreover have "input_ok (r\<lparr>global := with_new df q st r\<rparr>)" using ok(3) e(4) by (auto simp: input_ok_def same_files_def)
  ultimately have "dry_inv (r\<lparr>global := with_new df q st r\<rparr>)"
    using inv e(2,3,7) by (auto simp: dry_inv_def maxInputSz_def inSize_def)
  then have "dry_inv (r\<lparr>global := save_cov_files df (with_new df q st r)\<rparr>)" by (simp add: dry_inv_fs)
  moreover have "\<exists>df' st' h. save_cov_files df (with_new df q st r) = save_cov_files df' h \<and>
    io_dynfileqCnt h = io_dynfileqCnt (global r) + 1 \<and> cfg_minimize h = cfg_minimize (global r) \<and>
    io_dynfileqMaxSz h = max (io_dynfileqMaxSz (global r)) (inSize r) \<and> same_files (io_store (global r)) st' \<and>
    io_store h = st'(io_brk (global r) \<mapsto> df') \<and> d_data df' = inData r \<and>
    set (io_dynfileq h) = insert (io_brk (global r)) (set (io_dynfileq (global r)))"
    using e by (intro exI [of _ df] exI [of _ st] exI [of _ "with_new df q st r"]) simp
  ultimately show ?thesis using e(1) by (simp add: wp_def maxInputSz_def)
qed

text \<open>The input without bytes that stands in for an empty corpus.\<close>

lemma dry_inv_swap:
  assumes "dry_inv r" and "input_ok (r\<lparr>dynfile := d\<rparr>)" and "length (d_data d) = d_size d" and "d_size d \<le> HF_INPUT_DEFAULT_SIZE"
    and "d_size d \<le> maxInputSz r"
  shows "dry_inv (r\<lparr>dynfile := d\<rparr>)"
  using assms by (simp add: dry_inv_def wf_run_def inData_def inSize_def maxInputSz_def)

lemma empty_input_added:
  assumes inv: "dry_inv r" and z: "io_dynfileqCnt (global r) = 0"
  shows "wp add_empty_input (\<lambda>_ s. dry_inv s \<and> io_dynfileqCnt (global s) = 1 \<and> io_dynfileqMaxSz (global s) = io_dynfileqMaxSz (global r) \<and>
    maxInputSz s = maxInputSz r \<and> (\<exists>a df. io_dynfileq (global s) = [a] \<and> io_store (global s) a = Some df \<and> d_data df = [])) r"
proof -
  let ?r = "r\<lparr>dynfile := empty_input\<rparr>"
  have q: "io_dynfileq (global r) = []" using inv z by (auto simp: dry_inv_def queue_ok_def queue_wf_def)
  have e: "dry_inv ?r" "\<not> d_imported (dynfile ?r)" "inSize ?r = 0" "inData ?r = []"
    using inv by (auto intro!: dry_inv_swap simp: empty_input_def input_ok_def inSize_def inData_def)
  from wp_result [OF dry_add [OF e(1) _ e(2)]] z obtain s df st h where
    s: "input_addDynamicInput ?r = Inr ((), s)" "dry_inv s" "maxInputSz s = maxInputSz r" and h: "global s = save_cov_files df h"
      "io_dynfileqCnt h = 1" "io_dynfileqMaxSz h = io_dynfileqMaxSz (global r)" "same_files (io_store (global r)) st"
      "io_store h = st(io_brk (global r) \<mapsto> df)" "d_data df = []"
      "set (io_dynfileq h) = {io_brk (global r)}" using e(3,4) q by (auto simp: maxInputSz_def)
  have "distinct (io_dynfileq h)" using s(2) h(1) by (auto simp: dry_inv_def queue_ok_def queue_wf_def store_ok_def)
  with h(7) have "io_dynfileq h = [io_brk (global r)]"
    by (metis distinct_card card_1_singleton_iff length_0_conv length_Suc_conv list.set_intros(1) singletonD One_nat_def)
  moreover have "dry_inv (s\<lparr>dynfile := dynfile r\<rparr>)"
    using inv s(3) h(1,4,5)
    by (intro dry_inv_swap [OF s(2)]) (auto simp: dry_inv_def input_ok_def same_files_def wf_run_def inData_def inSize_def)
  ultimately show ?thesis using s(1,3) h by (simp add: wp_def add_empty_input_def maxInputSz_def)
qed


section \<open>Properties\<close>



end
