(* ===== verification/HF_Phase.thy ===== *)
theory HF_Phase
  imports HF_Fuzz
begin

text \<open>
  The threads leaving the dry run together. \<open>fuzz_setDynamicMainState\<close> of \<open>honggfuzz/fuzz.c\<close>
  counts the threads that have no more files, and the one that holds the mutex waits until all
  have been counted. \<open>HF_Fuzz\<close> models one thread and what it sees; here the steps of
  \<open>n\<close> threads interleave.
\<close>

section \<open>Steps\<close>

text \<open>
  Where a thread is: fetching files, after the increment, with the mutex before and after the
  test of the phase, past the dry run, or ended (with or without having been counted).
\<close>

datatype dry_pc = DryRun | Counted | Checking | Waiting | InMain | Ended bool

text \<open>\<open>ph_switches\<close> counts how often the rest of \<open>fuzz_setDynamicMainState\<close> was run.\<close>

record phase_t =
  ph_cnt :: u32
  ph_mutex :: "nat option"
  ph_state :: fuzzState_t
  ph_term :: bool
  ph_pc :: "nat \<Rightarrow> dry_pc"
  ph_switches :: nat

definition move_to :: "nat \<Rightarrow> dry_pc \<Rightarrow> phase_t \<Rightarrow> phase_t" where
  "move_to t p s = s\<lparr>ph_pc := (ph_pc s)(t := p)\<rparr>"

definition unlock :: "phase_t \<Rightarrow> phase_t" where
  "unlock s = s\<lparr>ph_mutex := None\<rparr>"

definition next_phase :: "bool \<Rightarrow> fuzzState_t" where
  "next_phase minimize = (if minimize then STATE_DYNAMIC_MINIMIZE else STATE_DYNAMIC_MAIN)"

text \<open>
  A thread ends when the iterations are used up or the process terminates. \<open>notice\<close> is a thread
  that finds the phase changed before it looked for a file.
\<close>

inductive phase_step :: "nat \<Rightarrow> bool \<Rightarrow> phase_t \<Rightarrow> phase_t \<Rightarrow> bool" for n :: nat and minimize :: bool where
  count: "t < n \<Longrightarrow> ph_pc s t = DryRun \<Longrightarrow> phase_step n minimize s (move_to t Counted (s\<lparr>ph_cnt := ph_cnt s + 1\<rparr>))"
| notice: "t < n \<Longrightarrow> ph_pc s t = DryRun \<Longrightarrow> ph_state s \<noteq> STATE_DYNAMIC_DRY_RUN \<Longrightarrow>
    phase_step n minimize s (move_to t InMain s)"
| lock: "t < n \<Longrightarrow> ph_pc s t = Counted \<Longrightarrow> ph_mutex s = None \<Longrightarrow>
    phase_step n minimize s (move_to t Checking (s\<lparr>ph_mutex := Some t\<rparr>))"
| switched: "t < n \<Longrightarrow> ph_pc s t = Checking \<Longrightarrow> ph_state s \<noteq> STATE_DYNAMIC_DRY_RUN \<Longrightarrow>
    phase_step n minimize s (move_to t InMain (unlock s))"
| wait: "t < n \<Longrightarrow> ph_pc s t = Checking \<Longrightarrow> ph_state s = STATE_DYNAMIC_DRY_RUN \<Longrightarrow>
    phase_step n minimize s (move_to t Waiting s)"
| switch: "t < n \<Longrightarrow> ph_pc s t = Waiting \<Longrightarrow> unat (ph_cnt s) = n \<Longrightarrow>
    phase_step n minimize s (move_to t InMain (unlock (s\<lparr>ph_state := next_phase minimize, ph_switches := ph_switches s + 1\<rparr>)))"
| stop: "t < n \<Longrightarrow> ph_pc s t = Waiting \<Longrightarrow> unat (ph_cnt s) \<noteq> n \<Longrightarrow> ph_term s \<Longrightarrow>
    phase_step n minimize s (move_to t (Ended True) (unlock s))"
| end_dry: "t < n \<Longrightarrow> ph_pc s t = DryRun \<Longrightarrow> phase_step n minimize s (move_to t (Ended False) s)"
| end_main: "t < n \<Longrightarrow> ph_pc s t = InMain \<Longrightarrow> phase_step n minimize s (move_to t (Ended True) s)"
| terminate: "phase_step n minimize s (s\<lparr>ph_term := True\<rparr>)"

definition phase_init :: phase_t where
  "phase_init = \<lparr>ph_cnt = 0, ph_mutex = None, ph_state = STATE_DYNAMIC_DRY_RUN, ph_term = False,
     ph_pc = (\<lambda>_. DryRun), ph_switches = 0\<rparr>"

definition phase_steps :: "nat \<Rightarrow> bool \<Rightarrow> phase_t \<Rightarrow> phase_t \<Rightarrow> bool" where
  "phase_steps n minimize = (phase_step n minimize)\<^sup>*\<^sup>*"

section \<open>The invariant\<close>

definition uncounted :: "dry_pc \<Rightarrow> bool" where
  "uncounted p \<longleftrightarrow> p = DryRun \<or> p = Ended False"

definition counted_set :: "nat \<Rightarrow> phase_t \<Rightarrow> nat set" where
  "counted_set n s = {t. t < n \<and> \<not> uncounted (ph_pc s t)}"

definition phase_inv :: "nat \<Rightarrow> bool \<Rightarrow> phase_t \<Rightarrow> bool" where
  "phase_inv n minimize s \<longleftrightarrow>
     unat (ph_cnt s) = card (counted_set n s) \<and>
     (\<forall>t<n. ph_mutex s = Some t \<longleftrightarrow> ph_pc s t = Checking \<or> ph_pc s t = Waiting) \<and>
     (\<forall>t. ph_mutex s = Some t \<longrightarrow> t < n) \<and>
     (if ph_state s = STATE_DYNAMIC_DRY_RUN
      then ph_switches s = 0 \<and> (\<forall>t<n. ph_pc s t \<noteq> InMain \<and> (ph_pc s t = Ended True \<longrightarrow> ph_term s))
      else ph_state s = next_phase minimize \<and> ph_switches s = 1 \<and> (\<forall>t<n. \<not> uncounted (ph_pc s t) \<and> ph_pc s t \<noteq> Waiting))"

lemma finite_counted [simp]: "finite (counted_set n s)"
  by (simp add: counted_set_def)

lemma card_counted: "card (counted_set n s) \<le> n"
  using card_mono [of "{..<n}" "counted_set n s"] by (auto simp: counted_set_def)

lemma all_counted: "card (counted_set n s) = n \<longleftrightarrow> (\<forall>t<n. \<not> uncounted (ph_pc s t))"
proof -
  have "counted_set n s \<subseteq> {..<n}" by (auto simp: counted_set_def)
  then have "card (counted_set n s) = card {..<n} \<longleftrightarrow> counted_set n s = {..<n}"
    by (metis card_subset_eq finite_lessThan)
  then show ?thesis by (auto simp: counted_set_def)
qed

lemma counted_move_to:
  "t < n \<Longrightarrow> counted_set n (move_to t p s) = (if uncounted p then counted_set n s - {t} else insert t (counted_set n s))"
  by (auto simp: counted_set_def move_to_def)

lemma counted_same: "uncounted p = uncounted (ph_pc s t) \<Longrightarrow> counted_set n (move_to t p s) = counted_set n s"
  by (auto simp: counted_set_def move_to_def)

lemma next_phase_neq [simp]: "next_phase m \<noteq> STATE_DYNAMIC_DRY_RUN" "STATE_DYNAMIC_DRY_RUN \<noteq> next_phase m"
  by (simp_all add: next_phase_def)

lemma holder_unique:
  assumes "phase_inv n minimize s" and "t < n" and "ph_pc s t = Checking \<or> ph_pc s t = Waiting"
  shows "\<forall>u<n. u \<noteq> t \<longrightarrow> ph_pc s u \<noteq> Checking \<and> ph_pc s u \<noteq> Waiting"
proof -
  have m: "ph_mutex s = Some u \<longleftrightarrow> ph_pc s u = Checking \<or> ph_pc s u = Waiting" if "u < n" for u
    using assms(1) that unfolding phase_inv_def by blast
  from m [OF assms(2)] assms(3) have "ph_mutex s = Some t" by blast
  with m show ?thesis by auto
qed

lemma phase_inv_init: "phase_inv n minimize phase_init"
  by (simp add: phase_inv_def phase_init_def counted_set_def uncounted_def)

lemma phase_inv_step:
  assumes "phase_step n minimize s s'" and "phase_inv n minimize s" and "n < 2 ^ 32"
  shows "phase_inv n minimize s'"
  using assms
proof (induction rule: phase_step.induct)
  case (count t s)
  have new: "t \<notin> counted_set n s" using count by (auto simp: counted_set_def uncounted_def)
  have "card (counted_set n s) < n"
    using count card_counted [of n s] all_counted [of n s] by (auto simp: uncounted_def order_less_le)
  then have "unat (ph_cnt s + 1) = unat (ph_cnt s) + 1"
    using count.prems by (simp add: phase_inv_def unat_word_ariths)
  then have "unat (ph_cnt s + 1) = card (counted_set n (move_to t Counted s))"
    using count new by (simp add: counted_move_to uncounted_def phase_inv_def)
  then show ?case using count by (auto simp: phase_inv_def move_to_def counted_set_def uncounted_def split: if_splits)
next
  case (notice t s)
  then show ?case by (auto simp: phase_inv_def uncounted_def)
next
  case (lock t s)
  have "counted_set n (move_to t Checking s) = counted_set n s" using lock by (simp add: counted_same uncounted_def)
  then show ?case using lock by (auto simp: phase_inv_def move_to_def counted_set_def uncounted_def split: if_splits)
next
  case (switched t s)
  then have "\<forall>u<n. u \<noteq> t \<longrightarrow> ph_pc s u \<noteq> Checking \<and> ph_pc s u \<noteq> Waiting" by (intro holder_unique) auto
  moreover have "counted_set n (move_to t InMain s) = counted_set n s" using switched by (simp add: counted_same uncounted_def)
  ultimately show ?case using switched
    by (auto simp: phase_inv_def move_to_def unlock_def counted_set_def uncounted_def split: if_splits)
next
  case (wait t s)
  have "counted_set n (move_to t Waiting s) = counted_set n s" using wait by (simp add: counted_same uncounted_def)
  then show ?case using wait by (auto simp: phase_inv_def move_to_def counted_set_def uncounted_def split: if_splits)
next
  case (switch t s)
  then have "\<forall>u<n. u \<noteq> t \<longrightarrow> ph_pc s u \<noteq> Checking \<and> ph_pc s u \<noteq> Waiting" by (intro holder_unique) auto
  moreover have "\<forall>t<n. \<not> uncounted (ph_pc s t)" using switch all_counted [of n s] by (simp add: phase_inv_def)
  moreover have "counted_set n (move_to t InMain s) = counted_set n s" using switch by (simp add: counted_same uncounted_def)
  ultimately show ?case using switch
    by (auto simp: phase_inv_def move_to_def unlock_def counted_set_def uncounted_def split: if_splits)
next
  case (stop t s)
  then have "\<forall>u<n. u \<noteq> t \<longrightarrow> ph_pc s u \<noteq> Checking \<and> ph_pc s u \<noteq> Waiting" by (intro holder_unique) auto
  moreover have "counted_set n (move_to t (Ended True) s) = counted_set n s" using stop by (simp add: counted_same uncounted_def)
  ultimately show ?case using stop
    by (auto simp: phase_inv_def move_to_def unlock_def counted_set_def uncounted_def split: if_splits)
next
  case (end_dry t s)
  have "counted_set n (move_to t (Ended False) s) = counted_set n s" using end_dry by (simp add: counted_same uncounted_def)
  then show ?case using end_dry by (auto simp: phase_inv_def move_to_def counted_set_def uncounted_def split: if_splits)
next
  case (end_main t s)
  have "counted_set n (move_to t (Ended True) s) = counted_set n s" using end_main by (simp add: counted_same uncounted_def)
  then show ?case using end_main by (auto simp: phase_inv_def move_to_def counted_set_def uncounted_def split: if_splits)
next
  case (terminate s)
  then show ?case by (auto simp: phase_inv_def counted_set_def)
qed


lemma phase_inv_steps:
  assumes "phase_steps n minimize s s'" and "phase_inv n minimize s" and "n < 2 ^ 32"
  shows "phase_inv n minimize s'"
  using assms(1) unfolding phase_steps_def
  by (induction rule: rtranclp_induct) (use assms(2,3) phase_inv_step in blast)+

lemmas phase_reach = phase_inv_steps [OF _ phase_inv_init]

lemma steps_one: "phase_step n minimize s s' \<Longrightarrow> phase_steps n minimize s' t \<Longrightarrow> phase_steps n minimize s t"
  unfolding phase_steps_def by (rule converse_rtranclp_into_rtranclp)

lemma steps_refl [simp]: "phase_steps n minimize s s"
  by (simp add: phase_steps_def)

section \<open>Progress\<close>

text \<open>While no thread has ended, all can report.\<close>

lemma can_count:
  assumes "phase_inv n minimize s" and "n < 2 ^ 32" and "ph_state s = STATE_DYNAMIC_DRY_RUN" and "\<not> ph_term s"
    and "\<forall>t<n. ph_pc s t \<noteq> Ended False"
  shows "\<exists>s'. phase_steps n minimize s s' \<and> phase_inv n minimize s' \<and> ph_state s' = STATE_DYNAMIC_DRY_RUN \<and> \<not> ph_term s' \<and>
    (\<forall>t<n. \<not> uncounted (ph_pc s' t))"
  using assms
proof (induction "n - card (counted_set n s)" arbitrary: s)
  case 0
  then have "card (counted_set n s) = n" using card_counted [of n s] by simp
  then show ?case using 0 all_counted [of n s] by (intro exI [of _ s]) simp
next
  case (Suc k)
  then have "card (counted_set n s) \<noteq> n" by simp
  then obtain t where t: "t < n" "ph_pc s t = DryRun" using Suc.prems(5) all_counted [of n s] by (auto simp: uncounted_def)
  let ?s = "move_to t Counted (s\<lparr>ph_cnt := ph_cnt s + 1\<rparr>)"
  have st: "phase_step n minimize s ?s" using t by (rule phase_step.count)
  have "counted_set n ?s = insert t (counted_set n s)" "t \<notin> counted_set n s"
    using t by (auto simp: counted_set_def move_to_def uncounted_def)
  then have "k = n - card (counted_set n ?s)" using Suc.hyps(2) by simp
  moreover have "phase_inv n minimize ?s" by (rule phase_inv_step [OF st Suc.prems(1,2)])
  ultimately have "\<exists>s'. phase_steps n minimize ?s s' \<and> phase_inv n minimize s' \<and> ph_state s' = STATE_DYNAMIC_DRY_RUN \<and> \<not> ph_term s' \<and>
      (\<forall>t<n. \<not> uncounted (ph_pc s' t))"
    using Suc.prems by (intro Suc.hyps(1)) (simp_all add: move_to_def)
  then show ?case using steps_one [OF st] by blast
qed

lemma can_switch_waiting:
  assumes "phase_inv n minimize s" and "t < n" and "ph_pc s t = Waiting" and "\<forall>t<n. \<not> uncounted (ph_pc s t)"
  shows "\<exists>s'. phase_steps n minimize s s' \<and> ph_state s' = next_phase minimize"
proof -
  have "unat (ph_cnt s) = n" using assms(1,4) all_counted [of n s] by (simp add: phase_inv_def)
  from steps_one [OF phase_step.switch [OF assms(2,3) this] steps_refl] show ?thesis
    by (intro exI conjI) (assumption, simp add: move_to_def unlock_def)
qed

lemma can_switch_checking:
  assumes "phase_inv n minimize s" and "n < 2 ^ 32" and "t < n" and "ph_pc s t = Checking"
    and "ph_state s = STATE_DYNAMIC_DRY_RUN" and "\<forall>t<n. \<not> uncounted (ph_pc s t)"
  shows "\<exists>s'. phase_steps n minimize s s' \<and> ph_state s' = next_phase minimize"
proof -
  note st = phase_step.wait [OF assms(3,4,5), of minimize]
  have "\<exists>s'. phase_steps n minimize (move_to t Waiting s) s' \<and> ph_state s' = next_phase minimize"
    by (rule can_switch_waiting [OF phase_inv_step [OF st assms(1,2)] assms(3)])
       (use assms(6) in \<open>simp_all add: move_to_def uncounted_def\<close>)
  then show ?thesis using steps_one [OF st] by blast
qed

lemma can_switch:
  assumes inv: "phase_inv n minimize s" and n: "n < 2 ^ 32" "0 < n" and dry: "ph_state s = STATE_DYNAMIC_DRY_RUN"
    and tm: "\<not> ph_term s" and all: "\<forall>t<n. \<not> uncounted (ph_pc s t)"
  shows "\<exists>s'. phase_steps n minimize s s' \<and> ph_state s' = next_phase minimize"
proof (cases "ph_mutex s")
  case None
  have "ph_pc s 0 \<noteq> Checking" "ph_pc s 0 \<noteq> Waiting" "ph_pc s 0 \<noteq> InMain" "ph_pc s 0 \<noteq> Ended True" "\<not> uncounted (ph_pc s 0)"
    using inv n dry tm all None by (auto simp: phase_inv_def)
  then have pc: "ph_pc s 0 = Counted" by (cases "ph_pc s 0") (auto simp: uncounted_def)
  note st = phase_step.lock [OF n(2) pc None, of minimize]
  have "\<exists>s'. phase_steps n minimize (move_to 0 Checking (s\<lparr>ph_mutex := Some 0\<rparr>)) s' \<and> ph_state s' = next_phase minimize"
    by (rule can_switch_checking [OF phase_inv_step [OF st inv n(1)] n])
       (use dry all in \<open>simp_all add: move_to_def uncounted_def\<close>)
  then show ?thesis using steps_one [OF st] by blast
next
  case (Some t)
  then have "t < n" "ph_pc s t = Checking \<or> ph_pc s t = Waiting" using inv by (auto simp: phase_inv_def)
  then show ?thesis
    using can_switch_checking [OF inv n(1) _ _ dry all] can_switch_waiting [OF inv _ _ all] by blast
qed

section \<open>A thread that ends early\<close>

inductive_cases phase_stepE: "phase_step n minimize s s'"

lemma ended_stays:
  assumes "phase_steps n minimize s s'" and "ph_pc s t = Ended b"
  shows "ph_pc s' t = Ended b"
  using assms(1) unfolding phase_steps_def
proof (induction rule: rtranclp_induct)
  case (step u v)
  show ?case using step.hyps(2) step.IH
    by (cases rule: phase_step.cases) (auto simp: move_to_def unlock_def)
qed (rule assms(2))

lemma stuck_waiting:
  assumes inv: "phase_inv n minimize s" and t: "t < n" "ph_pc s t = Ended False" and "\<not> ph_term s" and "ph_pc s u = Waiting" "u < n"
    and st: "phase_step n minimize s s'"
  shows "ph_pc s' u = Waiting"
proof -
  have "unat (ph_cnt s) \<noteq> n" using inv t all_counted [of n s] by (auto simp: phase_inv_def uncounted_def)
  with st assms(4,5) show ?thesis
    by (cases rule: phase_step.cases) (simp_all add: move_to_def unlock_def, auto)
qed

section \<open>Properties\<close>

text \<open>C4: for any number of threads and any interleaving of their steps, the phase changes at most
  once, by one thread; before the change no thread is past the dry run, and after it every
  thread has reported, so none runs an input of the dry run any more. At most one thread is
  inside the critical section.\<close>

theorem phase_switch_once:
  assumes "phase_steps n minimize phase_init s" and "n < 2 ^ 32"
  shows "(ph_state s = STATE_DYNAMIC_DRY_RUN \<and> ph_switches s = 0 \<and> (\<forall>t<n. ph_pc s t \<noteq> InMain) \<or>
      ph_state s = next_phase minimize \<and> ph_switches s = 1 \<and> (\<forall>t<n. ph_pc s t \<noteq> DryRun \<and> ph_pc s t \<noteq> Ended False)) \<and>
    (\<forall>t<n. \<forall>u<n. ph_pc s t \<in> {Checking, Waiting} \<and> ph_pc s u \<in> {Checking, Waiting} \<longrightarrow> u = t)"
proof -
  have inv: "phase_inv n minimize s" by (rule phase_reach [OF assms])
  have "\<forall>t<n. \<forall>u<n. ph_pc s t \<in> {Checking, Waiting} \<and> ph_pc s u \<in> {Checking, Waiting} \<longrightarrow> u = t"
    using holder_unique [OF inv] by (metis insertE singletonD)
  moreover have "ph_state s = STATE_DYNAMIC_DRY_RUN \<and> ph_switches s = 0 \<and> (\<forall>t<n. ph_pc s t \<noteq> InMain) \<or>
      ph_state s = next_phase minimize \<and> ph_switches s = 1 \<and> (\<forall>t<n. ph_pc s t \<noteq> DryRun \<and> ph_pc s t \<noteq> Ended False)"
    using inv by (cases "ph_state s = STATE_DYNAMIC_DRY_RUN") (simp_all add: phase_inv_def uncounted_def)
  ultimately show ?thesis by blast
qed

definition alone_counted :: phase_t where
  "alone_counted = move_to 0 Counted (phase_init\<lparr>ph_cnt := 1\<rparr>)"

definition alone_done :: phase_t where
  "alone_done = move_to 0 InMain (unlock ((move_to 0 Waiting (move_to 0 Checking (alone_counted\<lparr>ph_mutex := Some 0\<rparr>)))
     \<lparr>ph_state := STATE_DYNAMIC_MAIN, ph_switches := 1\<rparr>))"

lemma alone_steps: "phase_steps 1 False phase_init alone_counted" "phase_steps 1 False alone_counted alone_done"
proof -
  have "phase_step 1 False phase_init alone_counted"
    using phase_step.count [of 0 1 phase_init False] by (simp add: alone_counted_def phase_init_def)
  then show "phase_steps 1 False phase_init alone_counted" by (rule steps_one) simp
  let ?l = "move_to 0 Checking (alone_counted\<lparr>ph_mutex := Some 0\<rparr>)"
  have "phase_step 1 False alone_counted ?l"
    by (rule phase_step.lock) (simp_all add: alone_counted_def move_to_def phase_init_def)
  moreover have "phase_step 1 False ?l (move_to 0 Waiting ?l)"
    by (rule phase_step.wait) (simp_all add: alone_counted_def move_to_def phase_init_def)
  moreover have "phase_step 1 False (move_to 0 Waiting ?l) alone_done"
    using phase_step.switch [of 0 1 "move_to 0 Waiting ?l" False]
    by (simp add: alone_done_def alone_counted_def move_to_def unlock_def phase_init_def next_phase_def)
  ultimately show "phase_steps 1 False alone_counted alone_done" by (blast intro: steps_one steps_refl)
qed

theorem phase_switch_once_witness:
  "ph_state alone_counted = STATE_DYNAMIC_DRY_RUN \<and> ph_switches alone_counted = 0 \<and> ph_pc alone_counted 0 \<noteq> InMain"
  using phase_switch_once [OF alone_steps(1)] by (simp add: alone_counted_def move_to_def phase_init_def next_phase_def)

text \<open>C25: the threads are never stuck in the dry run: in every reachable state in which no thread
  has ended before reporting and the process is not terminating, some continuation changes the
  phase.\<close>

theorem phase_switch_possible:
  assumes "phase_steps n minimize phase_init s" and "n < 2 ^ 32" and "0 < n" and "\<not> ph_term s"
    and "\<forall>t<n. ph_pc s t \<noteq> Ended False"
  shows "\<exists>s'. phase_steps n minimize s s' \<and> ph_state s' = next_phase minimize"
proof (cases "ph_state s = STATE_DYNAMIC_DRY_RUN")
  case True
  have inv: "phase_inv n minimize s" by (rule phase_reach [OF assms(1,2)])
  from can_count [OF inv assms(2) True assms(4,5)] obtain u where
    u: "phase_steps n minimize s u" "phase_inv n minimize u" "ph_state u = STATE_DYNAMIC_DRY_RUN" "\<not> ph_term u"
      "\<forall>t<n. \<not> uncounted (ph_pc u t)" by blast
  from can_switch [OF u(2) assms(2,3) u(3-5)] u(1) show ?thesis
    unfolding phase_steps_def by (meson rtranclp_trans)
next
  case False
  then show ?thesis using phase_reach [OF assms(1,2)] by (intro exI [of _ s]) (simp add: phase_inv_def)
qed

theorem phase_switch_possible_witness: "\<exists>s'. phase_steps 1 False alone_counted s' \<and> ph_state s' = STATE_DYNAMIC_MAIN"
  using phase_switch_possible [OF alone_steps(1)] by (simp add: alone_counted_def move_to_def phase_init_def next_phase_def)

text \<open>C26: a thread that ends before it has reported (the limit of iterations was reached while
  there were files left) keeps all others in the dry run for ever: the phase never changes, and
  as long as the process is not told to terminate, a thread that waits never gets out of its
  loop.\<close>

theorem early_end_blocks_switch:
  assumes "phase_steps n minimize phase_init s" and "n < 2 ^ 32" and "t < n" and "ph_pc s t = Ended False"
    and "phase_steps n minimize s s'"
  shows "ph_state s' = STATE_DYNAMIC_DRY_RUN \<and>
    (\<forall>u s''. u < n \<and> ph_pc s' u = Waiting \<and> \<not> ph_term s' \<and> phase_step n minimize s' s'' \<longrightarrow> ph_pc s'' u = Waiting)"
proof -
  have inv: "phase_inv n minimize s'" by (rule phase_inv_steps [OF assms(5) phase_reach [OF assms(1,2)] assms(2)])
  have e: "ph_pc s' t = Ended False" by (rule ended_stays [OF assms(5,4)])
  then have "ph_state s' = STATE_DYNAMIC_DRY_RUN" using inv assms(3) by (auto simp: phase_inv_def uncounted_def split: if_splits)
  then show ?thesis using stuck_waiting [OF inv assms(3) e] by blast
qed


definition early_end :: phase_t where
  "early_end = move_to 0 (Ended False) phase_init"

definition early_wait :: phase_t where
  "early_wait = move_to 1 Waiting (move_to 1 Checking ((move_to 1 Counted (early_end\<lparr>ph_cnt := 1\<rparr>))\<lparr>ph_mutex := Some 1\<rparr>))"

lemma early_steps: "phase_steps 2 False phase_init early_end" "phase_steps 2 False early_end early_wait"
proof -
  have "phase_step 2 False phase_init early_end"
    using phase_step.end_dry [of 0 2 phase_init False] by (simp add: early_end_def phase_init_def)
  then show "phase_steps 2 False phase_init early_end" by (rule steps_one) simp
  let ?c = "move_to 1 Counted (early_end\<lparr>ph_cnt := 1\<rparr>)"
  let ?l = "move_to 1 Checking (?c\<lparr>ph_mutex := Some 1\<rparr>)"
  have "phase_step 2 False early_end ?c"
    using phase_step.count [of 1 2 early_end False] by (simp add: early_end_def move_to_def phase_init_def)
  moreover have "phase_step 2 False ?c ?l"
    by (rule phase_step.lock) (simp_all add: early_end_def move_to_def phase_init_def)
  moreover have "phase_step 2 False ?l early_wait"
    unfolding early_wait_def by (rule phase_step.wait) (simp_all add: early_end_def move_to_def phase_init_def)
  ultimately show "phase_steps 2 False early_end early_wait" by (blast intro: steps_one steps_refl)
qed

theorem early_end_blocks_switch_witness:
  "ph_state early_wait = STATE_DYNAMIC_DRY_RUN \<and>
   \<not> (\<exists>s''. phase_step 2 False early_wait s'' \<and> ph_pc s'' 1 \<noteq> Waiting)"
  using early_end_blocks_switch [OF early_steps(1) _ _ _ early_steps(2), of 0]
  by (auto simp: early_wait_def early_end_def move_to_def phase_init_def)

end
