(* ===== verification/HF_Files.thy ===== *)
theory HF_Files
  imports HF_Input
begin

text \<open>
  \<open>honggfuzz/libhfcommon/files.c\<close>: reading and writing files in pieces, files in directories,
  the lists of symbols, and shared memory. The system calls may transfer fewer bytes than asked
  for; what call \<open>i\<close> does is a parameter. Printing socket addresses is left out.
\<close>

section \<open>Descriptors\<close>

text \<open>
  A \<open>read\<close> or \<open>write\<close> fails, or transfers at most a number of bytes. Calls that are interrupted
  are repeated by \<open>TEMP_FAILURE_RETRY\<close> and are not counted.
\<close>

datatype io_ev = IoErr | IoPart nat

text \<open>
  \<open>files_readFromFd\<close>: \<open>left\<close> is what follows the position in the file. A \<open>read\<close> returns 0 only at
  the end of the file. The result is the bytes in the buffer, or nothing for -1.
\<close>

function read_loop :: "(nat \<Rightarrow> io_ev) \<Rightarrow> nat \<Rightarrow> byte list \<Rightarrow> nat \<Rightarrow> byte list option" where
  "read_loop ev i left want =
     (if want = 0 then Some []
      else case ev i of
        IoErr \<Rightarrow> None
      | IoPart k \<Rightarrow>
          let sz = min (k + 1) (min want (length left))
          in if sz = 0 then Some []
             else map_option (\<lambda>r. take sz left @ r) (read_loop ev (i + 1) (drop sz left) (want - sz)))"
  by pat_completeness auto
termination
  by (relation "measure (\<lambda>(ev, i, left, want). want)") auto

declare read_loop.simps [simp del]

definition files_readFromFd :: "(nat \<Rightarrow> io_ev) \<Rightarrow> byte list \<Rightarrow> nat \<Rightarrow> byte list option" where
  "files_readFromFd ev left fileSz = read_loop ev 0 left fileSz"

text \<open>The offset is not used: the file is always read from its beginning.\<close>

definition files_readFromFdSeek :: "(nat \<Rightarrow> io_ev) \<Rightarrow> bool \<Rightarrow> byte list \<Rightarrow> nat \<Rightarrow> nat \<Rightarrow> byte list option" where
  "files_readFromFdSeek ev seekable content fileSz off =
     (if \<not> seekable then None else files_readFromFd ev content fileSz)"

definition files_readFileToBufMax :: "(nat \<Rightarrow> io_ev) \<Rightarrow> fs_t \<Rightarrow> path \<Rightarrow> nat \<Rightarrow> byte list option" where
  "files_readFileToBufMax ev fs fname fileMaxSz =
     (case fs_open fs fname of None \<Rightarrow> None | Some content \<Rightarrow> files_readFromFd ev content fileMaxSz)"

text \<open>
  \<open>files_writeToFd\<close>: a \<open>write\<close> that transfers nothing is tried again. The result is whether all
  was written, and the bytes that were.
\<close>

partial_function (option) write_loop :: "(nat \<Rightarrow> io_ev) \<Rightarrow> nat \<Rightarrow> byte list \<Rightarrow> byte list \<Rightarrow> (bool \<times> byte list) option" where
  "write_loop ev i w buf =
     (if buf = [] then Some (True, w)
      else case ev i of
        IoErr \<Rightarrow> Some (False, w)
      | IoPart k \<Rightarrow> write_loop ev (i + 1) (w @ take k buf) (drop k buf))"

definition files_writeToFd :: "(nat \<Rightarrow> io_ev) \<Rightarrow> byte list \<Rightarrow> (bool \<times> byte list) option" where
  "files_writeToFd ev buf = write_loop ev 0 [] buf"

definition files_writeStrToFd :: "(nat \<Rightarrow> io_ev) \<Rightarrow> byte list \<Rightarrow> (bool \<times> byte list) option" where
  "files_writeStrToFd ev s = files_writeToFd ev (cstr s)"

definition files_writePatternToFd :: "(nat \<Rightarrow> io_ev) \<Rightarrow> bool \<Rightarrow> nat \<Rightarrow> byte \<Rightarrow> (bool \<times> byte list) option" where
  "files_writePatternToFd ev mem sz p =
     (if \<not> mem then Some (False, []) else files_writeToFd ev (replicate sz p))"

text \<open>\<open>files_sendToSocket\<close> and \<open>files_sendToSocketNB\<close> are the same loop over \<open>send\<close>.\<close>

definition files_sendToSocket :: "(nat \<Rightarrow> io_ev) \<Rightarrow> byte list \<Rightarrow> (bool \<times> byte list) option" where
  "files_sendToSocket ev buf = write_loop ev 0 [] buf"

definition files_sendToSocketNB :: "(nat \<Rightarrow> io_ev) \<Rightarrow> byte list \<Rightarrow> (bool \<times> byte list) option" where
  "files_sendToSocketNB ev buf = write_loop ev 0 [] buf"

section \<open>Files\<close>

text \<open>The flags of \<open>open\<close> that matter.\<close>

record open_flags =
  o_creat :: bool
  o_excl :: bool
  o_trunc :: bool

definition setFile :: "path \<Rightarrow> byte list option \<Rightarrow> fs_t \<Rightarrow> fs_t" where
  "setFile p c fs = fs\<lparr>fs_files := (fs_files fs)(p := c)\<rparr>"

text \<open>\<open>open\<close> for writing: the content the writes start on, or a failure.\<close>

definition open_write :: "fs_t \<Rightarrow> path \<Rightarrow> open_flags \<Rightarrow> byte list option" where
  "open_write fs p fl =
     (if fs_denied fs p then None
      else case fs_files fs p of
        None \<Rightarrow> if o_creat fl then Some [] else None
      | Some c \<Rightarrow> if o_creat fl \<and> o_excl fl then None else if o_trunc fl then Some [] else Some c)"

text \<open>The bytes replace the beginning of what is there.\<close>

definition overlay :: "byte list \<Rightarrow> byte list \<Rightarrow> byte list" where
  "overlay new old = new @ drop (length new) old"

definition files_writeBufToFile ::
  "(nat \<Rightarrow> io_ev) \<Rightarrow> path \<Rightarrow> byte list \<Rightarrow> open_flags \<Rightarrow> fs_t \<Rightarrow> (bool \<times> fs_t) option" where
  "files_writeBufToFile ev fname buf fl fs =
     (case open_write fs fname fl of
        None \<Rightarrow> Some (False, fs)
      | Some c \<Rightarrow>
          (case files_writeToFd ev buf of
             None \<Rightarrow> None
           | Some (ok, w) \<Rightarrow> Some (ok, if ok then setFile fname (Some (overlay w c)) fs else setFile fname None fs)))"

definition files_writeStrToFile ::
  "(nat \<Rightarrow> io_ev) \<Rightarrow> path \<Rightarrow> byte list \<Rightarrow> open_flags \<Rightarrow> fs_t \<Rightarrow> (bool \<times> fs_t) option" where
  "files_writeStrToFile ev fname s fl fs = files_writeBufToFile ev fname (cstr s) fl fs"

text \<open>
  \<open>files_writeBufToTmpFile\<close>: the temporary file has no name; the result is its content (\<open>tmp\<close>: it
  could be made, \<open>seek\<close>: it could be rewound), or nothing for -1.
\<close>

definition files_writeBufToTmpFile :: "(nat \<Rightarrow> io_ev) \<Rightarrow> bool \<Rightarrow> bool \<Rightarrow> byte list \<Rightarrow> byte list option option" where
  "files_writeBufToTmpFile ev tmp seek buf =
     (if \<not> tmp then Some None
      else case files_writeToFd ev buf of
        None \<Rightarrow> None
      | Some (ok, w) \<Rightarrow> Some (if ok \<and> seek then Some w else None))"

definition files_basename :: "path \<Rightarrow> path" where
  "files_basename p = (case strrchr p 47 of None \<Rightarrow> p | Some i \<Rightarrow> drop (i + 1) p)"

text \<open>
  \<open>files_resetFile\<close>: punching a hole keeps the size; without it the file is cut and extended
  (\<open>punch\<close>, \<open>shrink\<close>, \<open>grow\<close>: the calls succeed).
\<close>

definition files_resetFile :: "bool \<Rightarrow> bool \<Rightarrow> bool \<Rightarrow> nat \<Rightarrow> byte list \<Rightarrow> bool \<times> byte list" where
  "files_resetFile punch shrink grow sz c =
     (if punch then (True, replicate (min sz (length c)) 0 @ drop sz c)
      else if \<not> shrink then (False, c)
      else if \<not> grow then (False, [])
      else (True, replicate sz 0))"

section \<open>Lists of symbols\<close>

text \<open>
  \<open>files_parseSymbolFilter\<close>: a symbol per line, without the last character of the line. The array
  is filled from its beginning; the result is the number of symbols and the array.
\<close>

fun symbol_lines :: "byte list list \<Rightarrow> byte list list \<Rightarrow> nat \<Rightarrow> fault + (nat \<times> byte list list)" where
  "symbol_lines [] filterList n = Inr (n, filterList)"
| "symbol_lines (l # ls) filterList n =
     (if length (cstr l) < 3 then Inl LogFatal
      else let filterList = take (n + 1) (filterList @ [[]]);
               sym = snprintf_cut (length (cstr l)) (cstr l)
           in symbol_lines ls (filterList[n := sym]) (n + 1))"

definition files_parseSymbolFilter :: "fs_t \<Rightarrow> path \<Rightarrow> byte list list \<Rightarrow> fault + (nat \<times> byte list list)" where
  "files_parseSymbolFilter fs srcFile filterList =
     (case fs_open fs srcFile of
        None \<Rightarrow> Inr (0, filterList)
      | Some c \<Rightarrow> symbol_lines (getlines c) filterList 0)"

section \<open>Shared memory\<close>

text \<open>What the system calls return, in the order in which they are tried (Linux).\<close>

record shm_calls =
  shm_open_path :: "int option"
  shm_memfd :: int
  shm_open_fd :: int
  shm_mkostemp :: int
  shm_ftruncate :: bool
  shm_mmap :: "addr option"

text \<open>The descriptor, and the descriptors that are open afterwards.\<close>

definition files_createSharedMem :: "shm_calls \<Rightarrow> bool \<Rightarrow> int set \<Rightarrow> int \<times> int set" where
  "files_createSharedMem c exportmap fds =
     (if exportmap \<and> shm_open_path c = None then (- 1, fds)
      else
        let fd = (if exportmap then the (shm_open_path c) else - 1);
            fd = (if fd = - 1 then shm_memfd c else fd);
            fd = (if fd = - 1 then shm_open_fd c else fd)
        in if fd = - 1 \<and> shm_mkostemp c = - 1 then (- 1, fds)
           else let fd = (if fd = - 1 then shm_mkostemp c else fd)
                in if shm_ftruncate c then (fd, insert fd fds) else (- 1, fds))"

text \<open>When the mapping fails, the descriptor is set to -1 before it is closed.\<close>

definition files_mapSharedMem :: "shm_calls \<Rightarrow> bool \<Rightarrow> int set \<Rightarrow> addr option \<times> int \<times> int set" where
  "files_mapSharedMem c exportmap fds =
     (let (fd, fds) = files_createSharedMem c exportmap fds
      in if fd = - 1 then (None, - 1, fds)
         else case shm_mmap c of
           None \<Rightarrow> let fd = - 1 in (None, fd, fds - {fd})
         | Some p \<Rightarrow> (Some p, fd, fds))"

section \<open>Facts\<close>

lemma read_loop_exact:
  "read_loop ev i left want = Some r \<Longrightarrow> r = take want left"
proof (induction ev i left want arbitrary: r rule: read_loop.induct)
  case (1 ev i left want)
  show ?case
  proof (cases "want = 0 \<or> left = []")
    case True
    then show ?thesis using 1(2) by (subst (asm) read_loop.simps) (auto split: io_ev.splits if_splits)
  next
    case False
    then obtain k where k: "ev i = IoPart k" using 1(2) by (subst (asm) read_loop.simps) (auto split: io_ev.splits)
    let ?sz = "min (k + 1) (min want (length left))"
    have "read_loop ev i left want = map_option (\<lambda>q. take ?sz left @ q) (read_loop ev (i + 1) (drop ?sz left) (want - ?sz))"
      using False k by (subst read_loop.simps) (auto simp: Let_def min_def)
    with 1(2) obtain q where q: "read_loop ev (i + 1) (drop ?sz left) (want - ?sz) = Some q" "r = take ?sz left @ q" by auto
    have "q = take (want - ?sz) (drop ?sz left)" using False k q(1) by (intro 1(1)) auto
    moreover have "take ?sz left @ take (want - ?sz) (drop ?sz left) = take want left"
      by (simp add: take_add [symmetric])
    ultimately show ?thesis using q(2) by simp
  qed
qed

lemma read_loop_total:
  assumes "\<forall>j. ev j \<noteq> IoErr"
  shows "read_loop ev i left want \<noteq> None"
  using assms
proof (induction ev i left want rule: read_loop.induct)
  case (1 ev i left want)
  then obtain k where k: "ev i = IoPart k" by (cases "ev i") auto
  show ?case using 1(1) [OF _ k refl] 1(2) k by (subst read_loop.simps) (simp add: Let_def)
qed

lemma read_all: "\<forall>j. ev j \<noteq> IoErr \<Longrightarrow> files_readFromFd ev c n = Some (take n c)"
  unfolding files_readFromFd_def using read_loop_exact read_loop_total by (metis not_None_eq)

lemma write_loop_all:
  assumes "\<forall>j. \<exists>k. ev j = IoPart (Suc k)"
  shows "write_loop ev i w buf = Some (True, w @ buf)"
proof (induction "length buf" arbitrary: i w buf rule: less_induct)
  case less
  obtain k where k: "ev i = IoPart (Suc k)" using assms by blast
  show ?case
  proof (cases "buf = []")
    case False
    then have "write_loop ev (i + 1) (w @ take (Suc k) buf) (drop (Suc k) buf) = Some (True, (w @ take (Suc k) buf) @ drop (Suc k) buf)"
      by (intro less) simp
    then show ?thesis using False k by (subst write_loop.simps) simp
  qed (subst write_loop.simps, simp)
qed

section \<open>Properties\<close>

text \<open>C38: a file that is written and read back holds what was written, however the system calls
  split the transfers. When no call fails and every \<open>write\<close> makes progress, writing a buffer to a
  new file succeeds, changes no other file, and reading at most \<open>n\<close> bytes of it returns the first
  \<open>n\<close> bytes of the buffer.\<close>

theorem files_write_read_roundtrip:
  assumes "\<forall>j. \<exists>k. wev j = IoPart (Suc k)" and "\<forall>j. revt j \<noteq> IoErr"
    and "fs_files fs p = None" and "\<not> fs_denied fs p" and "o_creat fl"
  shows "\<exists>fs'. files_writeBufToFile wev p buf fl fs = Some (True, fs') \<and>
    files_readFileToBufMax revt fs' p n = Some (take n buf) \<and> (\<forall>q. q \<noteq> p \<longrightarrow> fs_files fs' q = fs_files fs q)"
  using assms(3-5) write_loop_all [OF assms(1), of 0 "[]" buf] read_all [OF assms(2)]
  by (intro exI [of _ "setFile p (Some buf) fs"])
     (simp add: files_writeBufToFile_def open_write_def files_writeToFd_def overlay_def files_readFileToBufMax_def
       fs_open_def setFile_def)

theorem files_write_read_roundtrip_witness:
  "\<exists>fs'. files_writeBufToFile (\<lambda>_. IoPart 1) [97] [1, 2, 3] \<lparr>o_creat = True, o_excl = True, o_trunc = False\<rparr> demo_fs = Some (True, fs') \<and>
    files_readFileToBufMax (\<lambda>_. IoPart 0) fs' [97] 2 = Some [1, 2]"
  using files_write_read_roundtrip [of "\<lambda>_. IoPart 1" "\<lambda>_. IoPart 0" demo_fs "[97]" "\<lparr>o_creat = True, o_excl = True, o_trunc = False\<rparr>" "[1, 2, 3]" 2]
  by (auto simp: demo_fs_def)

end
