(* ===== verification/HF_Sanitizers.thy ===== *)
theory HF_Sanitizers
  imports HF_Files
begin

text \<open>
  \<open>honggfuzz/sanitizers.c\<close>: the options for the sanitizers, the parser of their reports and the
  hash of a call stack; \<open>cmdlineAddEnv\<close> of \<open>honggfuzz/cmdline.c\<close>; and from
  \<open>honggfuzz/linux/unwind.c\<close> the memory maps, the unwinding (over a parameter for libunwind) and the
  search for a symbol in a call stack.
\<close>

section \<open>Scanning\<close>

text \<open>
  The directives of \<open>sscanf\<close> that are used: a character, blanks, a number in a base, a word and a
  run of characters outside a set, with a width and with or without an assignment. The result is
  the list of assigned values up to the first directive that does not match; its length is what
  \<open>sscanf\<close> returns, as far as the callers look at it.
\<close>

datatype scan_dir = SLit byte | SBlank | SNum nat bool | SWord "nat option" bool | SNot "byte list" "nat option" bool

datatype scan_val = ScanInt int | ScanStr "byte list"

definition lits :: "string \<Rightarrow> scan_dir list" where
  "lits s = map (\<lambda>c. if c = CHR '' '' then SBlank else SLit (of_char c)) s"

definition cut_width :: "nat option \<Rightarrow> byte list \<Rightarrow> byte list" where
  "cut_width w t = (case w of None \<Rightarrow> t | Some k \<Rightarrow> take k t)"

definition digit_of :: "nat \<Rightarrow> byte \<Rightarrow> nat option" where
  "digit_of base c = (case xdigit c of Some d \<Rightarrow> if d < base then Some d else None | None \<Rightarrow> None)"

definition digits_value :: "nat \<Rightarrow> byte list \<Rightarrow> nat" where
  "digits_value base ds = foldl (\<lambda>v c. base * v + the (digit_of base c)) 0 ds"

text \<open>
  A number with an optional sign, cut to 64 bits like \<open>strtoul\<close> does (numbers that do not fit have
  no meaning in C). The word \<open>(nil)\<close> that the GNU library accepts as a pointer is left out.
\<close>

definition scan_num :: "nat \<Rightarrow> byte list \<Rightarrow> (int \<times> byte list) option" where
  "scan_num base s =
     (let (neg, r) = strip_sign s;
          r = (if base = 16 then strip_0x r else r);
          ds = takeWhile (\<lambda>c. digit_of base c \<noteq> None) r;
          v = int (min (digits_value base ds) (2 ^ 64 - 1))
      in if ds = [] then None else Some (if neg then - v else v, drop (length ds) r))"

fun sscanf :: "scan_dir list \<Rightarrow> byte list \<Rightarrow> scan_val list" where
  "sscanf [] s = []"
| "sscanf (SLit c # ds) s = (case s of [] \<Rightarrow> [] | x # r \<Rightarrow> if x = c then sscanf ds r else [])"
| "sscanf (SBlank # ds) s = sscanf ds (dropWhile isspace s)"
| "sscanf (SNum base keep # ds) s =
     (case scan_num base (dropWhile isspace s) of
        None \<Rightarrow> []
      | Some (v, r) \<Rightarrow> (if keep then [ScanInt v] else []) @ sscanf ds r)"
| "sscanf (SWord w keep # ds) s =
     (let s = dropWhile isspace s; t = cut_width w (takeWhile (\<lambda>c. \<not> isspace c) s)
      in if t = [] then [] else (if keep then [ScanStr t] else []) @ sscanf ds (drop (length t) s))"
| "sscanf (SNot cs w keep # ds) s =
     (let t = cut_width w (takeWhile (\<lambda>c. c \<notin> set cs) s)
      in if t = [] then [] else (if keep then [ScanStr t] else []) @ sscanf ds (drop (length t) s))"

text \<open>\<open>%x\<close>.\<close>

fun hex_nat :: "nat \<Rightarrow> byte list" where
  "hex_nat n = (if n < 16 then [hex_digit n] else hex_nat (n div 16) @ [hex_digit (n mod 16)])"

declare hex_nat.simps [simp del]

definition val_u64 :: "scan_val \<Rightarrow> u64" where
  "val_u64 v = (case v of ScanInt i \<Rightarrow> of_int i | ScanStr _ \<Rightarrow> 0)"

definition val_str :: "scan_val \<Rightarrow> byte list" where
  "val_str v = (case v of ScanInt _ \<Rightarrow> [] | ScanStr t \<Rightarrow> t)"

section \<open>Options of the sanitizers\<close>

definition ENV_MAX :: nat where "ENV_MAX = 128"
definition ENV_LEN :: nat where "ENV_LEN = 4096"

text \<open>\<open>cmdlineAddEnv\<close>; the list holds the entries that are in use.\<close>

fun add_env :: "nat \<Rightarrow> byte list \<Rightarrow> nat \<Rightarrow> byte list list \<Rightarrow> byte list list option" where
  "add_env room env n [] = (if room = 0 then None else Some [snprintf_cut ENV_LEN env])"
| "add_env room env n (e # es) =
     (if room = 0 then None
      else if strncmp_eq e env n then Some (snprintf_cut ENV_LEN env # es)
      else map_option ((#) e) (add_env (room - 1) env n es))"

definition cmdlineAddEnv :: "byte list \<Rightarrow> byte list list \<Rightarrow> bool \<times> byte list list" where
  "cmdlineAddEnv env envs =
     (let enveqlen = (case strchr env 61 of None \<Rightarrow> length env | Some i \<Rightarrow> i + 1)
      in case add_env ENV_MAX env enveqlen envs of None \<Rightarrow> (False, envs) | Some envs \<Rightarrow> (True, envs))"

record san_cfg =
  san_enable :: bool
  san_workDir :: path
  san_netDriver :: bool
  san_rssLimit :: u64
  san_del_report :: bool
  san_getenv :: "byte list \<Rightarrow> bool"

definition kLOGPREFIX :: "byte list" where "kLOGPREFIX = str ''HF.sanitizer.log''"

definition kSAN_COMMON :: "byte list" where
  "kSAN_COMMON = str ''symbolize=1:detect_leaks=0:disable_coredump=0:detect_odr_violation=0:'' @
     str ''allocator_may_return_null=1:allow_user_segv_handler=0:handle_segv=2:handle_sigbus=2:'' @
     str ''handle_abort=2:handle_sigill=2:handle_sigfpe=2:abort_on_error=1''"

definition kMSAN_OPTS :: "byte list" where
  "kMSAN_OPTS = kSAN_COMMON @ str '':wrap_signals=0:print_stats=1''"

definition kSAN_REGULAR :: "byte list" where
  "kSAN_REGULAR = str ''symbolize=1:detect_leaks=0:disable_coredump=0:detect_odr_violation=0:'' @
     str ''allocator_may_return_null=1:allow_user_segv_handler=1:handle_segv=0:handle_sigbus=0:'' @
     str ''handle_abort=0:handle_sigill=0:handle_sigfpe=0:abort_on_error=1''"

text \<open>\<open>rssLimit\<close> is printed as a signed number.\<close>

definition sanitizers_AddFlag :: "san_cfg \<Rightarrow> byte list \<Rightarrow> byte list \<Rightarrow> byte list list \<Rightarrow> byte list list" where
  "sanitizers_AddFlag c env val envs =
     (if san_getenv c env then envs
      else
        let opts = (if san_enable c then val else kSAN_REGULAR);
            buf = snprintf_cut 4096 (env @ [61] @ opts @ str '':log_path='' @ san_workDir c @ [47] @ kLOGPREFIX);
            buf = (if \<not> san_netDriver c \<and> san_rssLimit c \<noteq> 0
                   then snd (util_ssnprintf buf 4096 (str '':soft_rss_limit_mb='' @ dec_int (sint (san_rssLimit c)))) else buf)
        in snd (cmdlineAddEnv buf envs))"

definition sanitizers_Init :: "san_cfg \<Rightarrow> byte list list \<Rightarrow> bool \<times> byte list list" where
  "sanitizers_Init c envs =
     (True, sanitizers_AddFlag c (str ''LSAN_OPTIONS'') kSAN_COMMON
       (sanitizers_AddFlag c (str ''MSAN_OPTIONS'') kMSAN_OPTS
       (sanitizers_AddFlag c (str ''UBSAN_OPTIONS'') kSAN_COMMON
       (sanitizers_AddFlag c (str ''ASAN_OPTIONS'') kSAN_COMMON envs))))"

section \<open>Reports\<close>

definition HF_STR_LEN :: nat where "HF_STR_LEN = 8192"
definition HF_FUNC_NAME_SZ :: nat where "HF_FUNC_NAME_SZ = 256"
definition HF_MAX_FUNCS :: nat where "HF_MAX_FUNCS = 80"

record funcs_t =
  f_pc :: u64
  f_func :: "byte list"
  f_module :: "byte list"
  f_file :: "byte list"
  f_line :: u64

definition zero_func :: funcs_t where
  "zero_func = \<lparr>f_pc = 0, f_func = [], f_module = [], f_file = [], f_line = 0\<rparr>"

text \<open>\<open>sanitizers_PidForTid\<close>, over the text of the status file.\<close>

fun tgid_lines :: "int \<Rightarrow> byte list list \<Rightarrow> int" where
  "tgid_lines pid [] = pid"
| "tgid_lines pid (l # ls) =
     (case sscanf (lits ''Tgid:'' @ [SNum 10 True]) (cstr l) of
        [ScanInt v] \<Rightarrow> sint (of_int v :: u32)
      | _ \<Rightarrow> tgid_lines pid ls)"

definition sanitizers_PidForTid :: "int \<Rightarrow> byte list option \<Rightarrow> int" where
  "sanitizers_PidForTid pid status = (case status of None \<Rightarrow> pid | Some txt \<Rightarrow> tgid_lines pid (getlines txt))"

text \<open>Storing a scanned string in an array of \<open>sz\<close> bytes.\<close>

definition fit :: "nat \<Rightarrow> byte list \<Rightarrow> ('a \<Rightarrow> 'a) \<Rightarrow> 'a \<Rightarrow> fault + 'a" where
  "fit sz t upd x = (if length t < sz then Inr (upd x) else Inl OutOfBounds)"

definition put_pc :: "scan_val \<Rightarrow> funcs_t \<Rightarrow> fault + funcs_t" where
  "put_pc v f = Inr (f\<lparr>f_pc := val_u64 v\<rparr>)"

definition put_line :: "scan_val \<Rightarrow> funcs_t \<Rightarrow> fault + funcs_t" where
  "put_line v f = Inr (f\<lparr>f_line := val_u64 v\<rparr>)"

definition put_func :: "scan_val \<Rightarrow> funcs_t \<Rightarrow> fault + funcs_t" where
  "put_func v = fit HF_FUNC_NAME_SZ (val_str v) (\<lambda>f. f\<lparr>f_func := val_str v\<rparr>)"

definition put_module :: "scan_val \<Rightarrow> funcs_t \<Rightarrow> fault + funcs_t" where
  "put_module v = fit HF_STR_LEN (val_str v) (\<lambda>f. f\<lparr>f_module := val_str v\<rparr>)"

definition put_file :: "scan_val \<Rightarrow> funcs_t \<Rightarrow> fault + funcs_t" where
  "put_file v = fit HF_STR_LEN (val_str v) (\<lambda>f. f\<lparr>f_file := val_str v\<rparr>)"

fun puts_all :: "(scan_val \<Rightarrow> 'a \<Rightarrow> fault + 'a) list \<Rightarrow> scan_val list \<Rightarrow> 'a \<Rightarrow> fault + 'a" where
  "puts_all (p # ps) (v # vs) f = (case p v f of Inl e \<Rightarrow> Inl e | Inr f \<Rightarrow> puts_all ps vs f)"
| "puts_all _ _ f = Inr f"

text \<open>
  The six forms of a frame, in the order in which they are tried. A form that does not match
  completely leaves what it assigned before. The module of the second form has no width.
\<close>

definition frame_pc :: "scan_dir list" where
  "frame_pc = lits ''#'' @ [SNum 10 False] @ lits '' 0x'' @ [SNum 16 True]"

definition frame_forms :: "(scan_dir list \<times> (scan_val \<Rightarrow> funcs_t \<Rightarrow> fault + funcs_t) list \<times> bool) list" where
  "frame_forms =
     [(frame_pc @ lits '' in '' @ [SNot (str '')'') (Some 255) True] @ lits '') '' @ [SNot (str '':'') (Some 255) True] @ lits '':'' @
        [SNum 10 True], [put_pc, put_func, put_file, put_line], True),
      (frame_pc @ lits '' in '' @ [SNot (str '')'') (Some 255) True] @ lits '') ('' @ [SNot (str '')'') None True] @ lits '')'',
        [put_pc, put_func, put_module], True),
      (frame_pc @ lits '' in '' @ [SWord (Some 255) True, SNot (str ''('') None False] @ lits ''('' @ [SNot (str '')'') (Some 8191) True],
        [put_pc, put_func, put_module], False),
      (frame_pc @ lits '' in '' @ [SNot (str '' '') (Some 255) True] @ lits '' '' @ [SNot (58 # [10]) (Some 8191) True] @ lits '':'' @
        [SNum 10 True], [put_pc, put_func, put_file, put_line], False),
      (frame_pc @ [SNot (str ''('') None False] @ lits ''('' @ [SNot (41 # [10]) (Some 8191) True],
        [put_pc, put_module], False),
      (frame_pc @ lits ''  '' @ [SNot (str '':'') (Some 8191) True] @ lits '':'' @ [SNum 10 True],
        [put_pc, put_file, put_line], False)]"

fun try_forms :: "(scan_dir list \<times> (scan_val \<Rightarrow> funcs_t \<Rightarrow> fault + funcs_t) list \<times> bool) list \<Rightarrow>
    byte list \<Rightarrow> funcs_t \<Rightarrow> fault + funcs_t" where
  "try_forms [] l f = Inr f"
| "try_forms ((ds, ps, paren) # fs) l f =
     (let vs = sscanf ds l
      in case puts_all ps vs f of
           Inl e \<Rightarrow> Inl e
         | Inr f \<Rightarrow>
             if length vs = length ps
             then Inr (if paren then f\<lparr>f_func := snd (util_ssnprintf (f_func f) HF_FUNC_NAME_SZ [41])\<rparr> else f)
             else try_forms fs l f)"

definition parse_frame :: "byte list \<Rightarrow> funcs_t \<Rightarrow> fault + funcs_t" where
  "parse_frame l f = try_forms frame_forms l (f\<lparr>f_func := str ''UNKNOWN''\<rparr>)"

record san_t =
  headerFound :: bool
  frameFound :: bool
  frameIdx :: u32
  san_funcs :: "funcs_t list"
  san_pc :: u64
  san_crashAddr :: u64
  san_description :: "byte list"

text \<open>Only the number at the beginning decides about the header: the text after it does not
  change what \<open>sscanf\<close> returns.\<close>

definition error_head :: "scan_dir list" where
  "error_head = lits ''=='' @ [SNum 10 False] @ lits ''==ERROR: ''"

definition put_addrs :: "scan_val list \<Rightarrow> san_t \<Rightarrow> san_t" where
  "put_addrs vs s =
     (case vs of [] \<Rightarrow> s
      | [a] \<Rightarrow> s\<lparr>san_crashAddr := val_u64 a\<rparr>
      | a # p # _ \<Rightarrow> s\<lparr>san_crashAddr := val_u64 a, san_pc := val_u64 p\<rparr>)"

definition parse_header :: "byte list \<Rightarrow> san_t \<Rightarrow> san_t" where
  "parse_header l s =
     (let s = s\<lparr>headerFound := True\<rparr>;
          s = put_addrs (sscanf (error_head @ [SNot (str '':'') None False] @ lits '': '' @ [SNot (str '' '') None False] @
                lits '' on address 0x'' @ [SNum 16 True] @ lits '' at pc 0x'' @ [SNum 16 True]) l) s;
          s = put_addrs (sscanf (error_head @ [SNot (str '':'') None False] @ lits '': '' @ [SNot (str '' '') None False] @
                lits '' on '' @ [SWord None False] @ lits '' address 0x'' @ [SNum 16 True] @ lits '' (pc 0x'' @ [SNum 16 True]) l) s
      in case sscanf (error_head @ [SNot [10] (Some 8191) True]) l of
           [] \<Rightarrow> s | v # _ \<Rightarrow> s\<lparr>san_description := val_str v\<rparr>)"

text \<open>One line; \<open>True\<close> ends the loop.\<close>

definition report_line :: "int \<Rightarrow> byte list \<Rightarrow> san_t \<Rightarrow> fault + (bool \<times> san_t)" where
  "report_line pid l s =
     (if \<not> headerFound s then
        (case sscanf (lits ''=='' @ [SNum 10 True]) l of
           [ScanInt v] \<Rightarrow> if sint (of_int v :: u32) \<noteq> pid then Inr (True, s) else Inr (False, parse_header l s)
         | _ \<Rightarrow> Inr (False, s))
      else
        let p = dropWhile isspace l
        in if p = [] \<and> frameIdx s \<noteq> 0 then Inr (True, s)
           else case sscanf (lits ''#'' @ [SNum 10 True]) p of
             [ScanInt v] \<Rightarrow>
               let i = of_int v :: u32
               in if unat i \<ge> HF_MAX_FUNCS then Inr (True, s\<lparr>frameIdx := of_nat (HF_MAX_FUNCS - 1)\<rparr>)
                  else if unat i < length (san_funcs s) then
                    (case parse_frame p (san_funcs s ! unat i) of
                       Inl e \<Rightarrow> Inl e
                     | Inr f \<Rightarrow> Inr (False, s\<lparr>frameFound := True, frameIdx := i, san_funcs := (san_funcs s)[unat i := f]\<rparr>))
                  else Inl OutOfBounds
           | _ \<Rightarrow> Inr (False, s))"

fun report_lines :: "int \<Rightarrow> byte list list \<Rightarrow> san_t \<Rightarrow> fault + san_t" where
  "report_lines pid [] s = Inr s"
| "report_lines pid (l # ls) s =
     (case report_line pid (cstr l) s of
        Inl e \<Rightarrow> Inl e
      | Inr (stop, s) \<Rightarrow> if stop then Inr s else report_lines pid ls s)"

text \<open>\<open>status\<close> is the text of the status file of the thread.\<close>

definition report_path :: "san_cfg \<Rightarrow> int \<Rightarrow> path" where
  "report_path c pid = snprintf_cut PATH_MAX (san_workDir c @ [47] @ kLOGPREFIX @ [46] @ dec_int pid)"

definition sanitizers_parseReport ::
  "san_cfg \<Rightarrow> byte list option \<Rightarrow> int \<Rightarrow> funcs_t list \<Rightarrow> u64 \<Rightarrow> u64 \<Rightarrow> fs_t \<Rightarrow> fault + (nat \<times> san_t \<times> fs_t)" where
  "sanitizers_parseReport c status tid funcs pc crashAddr fs =
     (let pid = sanitizers_PidForTid tid status;
          s = \<lparr>headerFound = False, frameFound = False, frameIdx = 0, san_funcs = funcs, san_pc = pc,
               san_crashAddr = crashAddr, san_description = []\<rparr>
      in case fs_open fs (report_path c pid) of
           None \<Rightarrow> Inr (0, s, fs)
         | Some txt \<Rightarrow>
             (case report_lines pid (getlines txt) s of
                Inl e \<Rightarrow> Inl e
              | Inr s \<Rightarrow> Inr (if frameFound s then unat (frameIdx s) + 1 else 0, s,
                  if san_del_report c then setFile (report_path c pid) None fs else fs)))"

section \<open>The hash of a call stack\<close>

definition HF_SINGLE_FRAME_MASK :: u64 where "HF_SINGLE_FRAME_MASK = 0xBADBAD0000000000"

text \<open>The program counter is printed with 16 digits; its last three are hashed.\<close>

definition frame_hash :: "funcs_t \<Rightarrow> u64" where
  "frame_hash f = (let pcStr = str ''0x'' @ hex_fixed 16 (unat (f_pc f)) in util_hash (drop (length pcStr - 3) pcStr))"

definition sanitizers_hashCallstack :: "bool \<Rightarrow> funcs_t list \<Rightarrow> nat \<Rightarrow> bool \<Rightarrow> u64" where
  "sanitizers_hashCallstack enable funcs funcCnt enableMasking =
     (let numFrames = (if enable then 14 else 7);
          hash = foldl (\<lambda>h f. h XOR frame_hash f) 0 (take (min funcCnt numFrames) funcs)
      in if enableMasking \<and> funcCnt = 1 then hash OR HF_SINGLE_FRAME_MASK else hash)"

section \<open>Unwinding\<close>

record procMap_t =
  map_start :: u64
  map_end :: u64
  map_name :: "byte list"

fun arch_searchMaps :: "u64 \<Rightarrow> procMap_t list \<Rightarrow> byte list option" where
  "arch_searchMaps addr [] = None"
| "arch_searchMaps addr (m # ms) =
     (if map_start m \<le> addr \<and> addr \<le> map_end m then Some (map_name m)
      else if addr < map_start m then None
      else arch_searchMaps addr ms)"

text \<open>
  \<open>arch_unwindStack\<close>: \<open>steps\<close> is the registers libunwind yields, one for each step that succeeds
  (none when the register cannot be read; then the search uses what the variable held).
\<close>

definition unwind_frame :: "procMap_t list \<Rightarrow> u64 option \<Rightarrow> u64 \<Rightarrow> funcs_t \<Rightarrow> funcs_t" where
  "unwind_frame maps ip stale f =
     f\<lparr>f_pc := (case ip of None \<Rightarrow> 0 | Some a \<Rightarrow> a),
       f_module := (case arch_searchMaps (case ip of None \<Rightarrow> stale | Some a \<Rightarrow> a) maps of
          Some m \<Rightarrow> m | None \<Rightarrow> str ''UNKNOWN'')\<rparr>"

definition arch_unwindStack :: "procMap_t list \<Rightarrow> (u64 option \<times> u64) list \<Rightarrow> funcs_t list \<Rightarrow> nat \<times> funcs_t list" where
  "arch_unwindStack maps steps funcs =
     (let steps = take HF_MAX_FUNCS steps
      in (length steps, map2 (\<lambda>(ip, stale) f. unwind_frame maps ip stale f) steps funcs @ drop (length steps) funcs))"

text \<open>
  \<open>arch_btContainsSymbol\<close>: the length of the comparison is the length of the name of the frame,
  until a symbol with a wildcard sets it; it keeps that value for the symbols after it.
\<close>

fun frame_symbols :: "byte list \<Rightarrow> nat \<Rightarrow> byte list list \<Rightarrow> bool" where
  "frame_symbols func len [] = False"
| "frame_symbols func len (sy # syms) =
     (let len = (case strchr sy 42 of None \<Rightarrow> len | Some w \<Rightarrow> sz_sub w 1)
      in if strncmp_eq (func @ [0]) (sy @ [0]) len then True else frame_symbols func len syms)"

fun arch_btContainsSymbol :: "byte list list \<Rightarrow> funcs_t list \<Rightarrow> byte list option" where
  "arch_btContainsSymbol syms [] = None"
| "arch_btContainsSymbol syms (f # fs) =
     (if f_func f \<noteq> [] \<and> frame_symbols (f_func f) (length (f_func f)) syms then Some (f_func f)
      else arch_btContainsSymbol syms fs)"

end
