(* ===== verification/HF_Sanitizers_Props.thy ===== *)
theory HF_Sanitizers_Props
  imports HF_Sanitizers "HOL-Library.Sublist"
begin

text \<open>
  What the parser of sanitizer reports and the hash of a call stack guarantee: bounds for every
  report, the frames of a report read back, and what the hash depends on.
\<close>

section \<open>The hash\<close>

lemma hex_fixed_drop: "drop w (hex_fixed (w + k) n) = hex_fixed k (n mod 16 ^ k)"
proof (induction k arbitrary: n)
  case (Suc k)
  have "drop w (hex_fixed (w + Suc k) n) = hex_fixed k ((n div 16) mod 16 ^ k) @ [hex_digit (n mod 16)]"
    using Suc by simp
  moreover have "(n mod 16 ^ Suc k) div 16 = (n div 16) mod 16 ^ k"
    by (simp add: mod_mult2_eq)
  moreover have "(n mod 16 ^ Suc k) mod 16 = n mod 16" by (simp add: mod_mult2_eq)
  ultimately show ?case by simp
qed simp

lemma frame_hash_low: "frame_hash f = util_hash (hex_fixed 3 (unat (f_pc f) mod 4096))"
proof -
  have "drop 15 (str ''0x'' @ hex_fixed 16 (unat (f_pc f))) = drop 13 (hex_fixed 16 (unat (f_pc f)))"
    by (simp add: str_def)
  also have "\<dots> = hex_fixed 3 (unat (f_pc f) mod 4096)"
    using hex_fixed_drop [of 13 3 "unat (f_pc f)"] by simp
  finally show ?thesis by (simp add: frame_hash_def str_def Let_def)
qed

text \<open>The order of the frames does not matter, because their hashes are added bit by bit.\<close>

interpretation xor_hash: comp_fun_commute "\<lambda>v h. h XOR (v :: u64)"
  by unfold_locales (simp add: fun_eq_iff ac_simps)

lemma foldl_xor_mset:
  "foldl (\<lambda>h f. h XOR g f) (a :: u64) fs = fold_mset (\<lambda>v h. h XOR v) a (mset (map g fs))"
  by (induction fs arbitrary: a) (simp_all add: xor_hash.fold_mset_fun_left_comm)


lemma low_bits: "unat (w AND 0xFFF) = unat w mod 4096" for w :: u64
proof -
  have "w AND 0xFFF = take_bit 12 w" by (simp add: take_bit_eq_mask mask_eq_exp_minus_1)
  then have "unat (w AND 0xFFF) = take_bit 12 (unat w)" by (simp only: unsigned_take_bit_eq)
  then show ?thesis by (simp add: take_bit_eq_mod)
qed

lemma hash_cong:
  assumes "mset (map (\<lambda>f. f_pc f AND 0xFFF) fs) = mset (map (\<lambda>f. f_pc f AND 0xFFF) gs)"
  shows "foldl (\<lambda>h f. h XOR frame_hash f) 0 fs = foldl (\<lambda>h f. h XOR frame_hash f) 0 gs"
proof -
  have eq: "mset (map frame_hash hs) = image_mset (\<lambda>w. util_hash (hex_fixed 3 (unat w))) (mset (map (\<lambda>f. f_pc f AND 0xFFF) hs))" for hs
    by (simp add: frame_hash_low low_bits multiset.map_comp comp_def cong: multiset.map_cong)
  show ?thesis unfolding foldl_xor_mset eq assms ..
qed

text \<open>Three hexadecimal digits hash to less than 40 bits, below the mask for single frames.\<close>

lemma take_bit_small: "unat w < 2 ^ m \<Longrightarrow> take_bit m w = w" for w :: u64
proof -
  assume "unat w < 2 ^ m"
  then have "unat (take_bit m w) = unat w" by (simp only: unsigned_take_bit_eq take_bit_nat_eq_self)
  then show ?thesis by (simp only: unsigned_word_eqI)
qed

lemma scast_ascii: "unat (b :: byte) < 128 \<Longrightarrow> unat (scast b :: u64) = unat b"
proof -
  assume b: "unat b < 128"
  have "bit b 7 = bit (unat b) 7" by (simp add: bit_unsigned_iff)
  also have "\<dots> = False" using b by (simp add: bit_iff_odd)
  finally have "\<not> bit b 7" by simp
  moreover have "uint b < 128" using b by (metis of_nat_less_iff of_nat_numeral of_nat_unat)
  ultimately have "sint b = uint b" by (simp add: sint_uint signed_take_bit_eq_if_positive bit_uint_iff take_bit_int_eq_self_iff)
  then have "scast b = (ucast b :: u64)" by (metis scast_eq ucast_eq)
  then show ?thesis using b by (simp add: unsigned_ucast_eq take_bit_nat_eq_self)
qed


lemma xor_small:
  assumes "unat (a :: u64) < 2 ^ m" and "unat b < 2 ^ m"
  shows "unat (a XOR b) < 2 ^ m"
proof -
  have "take_bit m (a XOR b) = a XOR b" using take_bit_small assms by (simp only: take_bit_xor)
  then have "take_bit m (unat (a XOR b)) = unat (a XOR b)" by (simp only: unsigned_take_bit_eq [symmetric])
  then show ?thesis by (metis take_bit_nat_less_exp)
qed

lemma hash_round:
  assumes "unat x + 128 \<le> M" and "1025 * M \<le> 2 ^ m" and "m < 64" and "unat (b :: byte) < 128"
  shows "unat (let r = x + scast b; r = r + push_bit 10 r in r XOR drop_bit 6 r :: u64) < 2 ^ m"
proof -
  define r where "r = x + scast b"
  have lt: "2 ^ m < (2 :: nat) ^ 64" using assms(3) by (intro power_strict_increasing) auto
  have "unat x + unat b < 2 ^ 64" using assms lt by linarith
  then have r: "unat r = unat x + unat b" by (simp add: r_def unat_word_ariths scast_ascii [OF assms(4)])
  then have less: "1025 * unat r < 2 ^ m" using assms by linarith
  then have "1025 * unat r < 2 ^ 64" using lt by linarith
  moreover have "r + push_bit 10 r = 1025 * r" by (simp add: push_bit_eq_mult)
  ultimately have u: "unat (r + push_bit 10 r) = 1025 * unat r" by (simp add: unat_word_ariths)
  have "unat (drop_bit 6 (r + push_bit 10 r)) = 1025 * unat r div 64"
    unfolding unsigned_drop_bit_eq u using \<open>1025 * unat r < 2 ^ 64\<close> by (simp add: drop_bit_eq_div take_bit_nat_eq_self)
  then have "unat (drop_bit 6 (r + push_bit 10 r)) < 2 ^ m" using less by linarith
  then show ?thesis using xor_small less u by (simp only: Let_def r_def [symmetric])
qed

lemma hex_digit_ascii: "d < 16 \<Longrightarrow> unat (hex_digit d) < 128"
proof -
  assume d: "d < 16"
  have "unat (of_nat (48 + d) :: byte) = 48 + d" "unat (of_nat (87 + d) :: byte) = 87 + d"
    using d by (simp_all only: unat_of_nat) simp_all
  then show ?thesis using d by (simp add: hex_digit_def)
qed

lemma hash_three: "unat a < 128 \<Longrightarrow> unat b < 128 \<Longrightarrow> unat c < 128 \<Longrightarrow> unat (util_hash [a, b, c]) < 2 ^ 40"
proof -
  assume asc: "unat a < 128" "unat b < 128" "unat c < 128"
  let ?f = "\<lambda>x b. let r = x + scast (b :: byte); r = r + push_bit 10 r in r XOR drop_bit 6 r :: u64"
  have "unat (?f 0 a) < 2 ^ 18" by (rule hash_round [of _ 128]) (use asc in simp_all)
  then have "unat (?f (?f 0 a) b) < 2 ^ 29" by (intro hash_round [of _ "2 ^ 18 + 128"]) (use asc in simp_all)
  then have "unat (?f (?f (?f 0 a) b) c) < 2 ^ 40" by (intro hash_round [of _ "2 ^ 29 + 128"]) (use asc in simp_all)
  then show ?thesis by (simp only: util_hash_def foldl.simps)
qed

lemma single_frame_hash:
  "sanitizers_hashCallstack en funcs 1 True \<noteq> sanitizers_hashCallstack en funcs 1 False"
proof -
  define h where "h = sanitizers_hashCallstack en funcs 1 False"
  have "unat h < 2 ^ 40"
  proof (cases funcs)
    case (Cons f fs)
    have "hex_fixed 3 n = [hex_digit (n div 16 div 16 mod 16), hex_digit (n div 16 mod 16), hex_digit (n mod 16)]" for n
      by (simp add: numeral_3_eq_3)
    moreover have "h = frame_hash f" using Cons by (simp add: h_def sanitizers_hashCallstack_def)
    ultimately show ?thesis by (simp only: frame_hash_low) (intro hash_three hex_digit_ascii, simp_all)
  qed (simp add: h_def sanitizers_hashCallstack_def)
  then have "\<not> bit (unat h) 40" by (simp add: bit_iff_odd)
  then have "\<not> bit h 40" by (simp add: bit_unsigned_iff)
  moreover have "bit (h OR HF_SINGLE_FRAME_MASK) 40" by (simp add: bit_simps HF_SINGLE_FRAME_MASK_def)
  moreover have "sanitizers_hashCallstack en funcs 1 True = h OR HF_SINGLE_FRAME_MASK" by (simp add: h_def sanitizers_hashCallstack_def)
  ultimately show ?thesis unfolding h_def by metis
qed

section \<open>Scanned values fit\<close>

text \<open>
  A bound for the length of each value that the directives assign, for a line of \<open>n\<close> bytes, and
  that a list of values keeps such bounds.
\<close>

definition width_bound :: "nat \<Rightarrow> nat option \<Rightarrow> nat" where
  "width_bound n w = (case w of None \<Rightarrow> n | Some k \<Rightarrow> min k n)"

fun keep_bounds :: "nat \<Rightarrow> scan_dir list \<Rightarrow> nat list" where
  "keep_bounds n [] = []"
| "keep_bounds n (SNum base True # ds) = 0 # keep_bounds n ds"
| "keep_bounds n (SWord w True # ds) = width_bound n w # keep_bounds n ds"
| "keep_bounds n (SNot cs w True # ds) = width_bound n w # keep_bounds n ds"
| "keep_bounds n (_ # ds) = keep_bounds n ds"

fun fits :: "scan_val list \<Rightarrow> nat list \<Rightarrow> bool" where
  "fits [] bs = True"
| "fits (v # vs) [] = False"
| "fits (v # vs) (b # bs) \<longleftrightarrow> length (val_str v) \<le> b \<and> fits vs bs"

lemma cut_width_bound: "length t \<le> n \<Longrightarrow> length (cut_width w t) \<le> width_bound n w"
  by (auto simp: cut_width_def width_bound_def split: option.split)

lemma strip_length: "length (snd (strip_sign s)) \<le> length s" "length (strip_0x s) \<le> length s"
  by (auto simp: strip_sign_def strip_0x_def split: list.split)

lemma scan_num_rest: "scan_num base s = Some (v, r) \<Longrightarrow> length r \<le> length s"
  using strip_length(1) [of s] strip_length(2) [of "snd (strip_sign s)"]
  by (auto simp: scan_num_def Let_def split: if_splits prod.splits)

lemma sscanf_fits: "length s \<le> n \<Longrightarrow> fits (sscanf ds s) (keep_bounds n ds)"
proof (induction ds s rule: sscanf.induct)
  case (3 ds s)
  then show ?case using length_dropWhile_le [of isspace s] by simp
next
  case (4 base keep ds s)
  show ?case
  proof (cases "scan_num base (dropWhile isspace s)")
    case (Some p)
    obtain v r where p: "p = (v, r)" by fastforce
    have "length r \<le> n" using scan_num_rest Some p length_dropWhile_le 4(2) by (metis le_trans)
    then show ?thesis using 4(1) [OF Some p [symmetric]] Some p by (cases keep) (simp_all add: val_str_def)
  qed simp
next
  case (5 w keep ds s)
  let ?s = "dropWhile isspace s" let ?t = "takeWhile (\<lambda>c. \<not> isspace c) ?s"
  have "length ?t \<le> n" using 5(2) length_takeWhile_le length_dropWhile_le by (meson le_trans)
  with 5 length_dropWhile_le [of isspace s] show ?case
    by (cases keep) (auto simp: Let_def val_str_def cut_width_bound)
next
  case (6 cs w keep ds s)
  have "length (takeWhile (\<lambda>c. c \<notin> set cs) s) \<le> n" using 6(2) length_takeWhile_le by (meson le_trans)
  with 6 show ?case by (cases keep) (auto simp: Let_def val_str_def cut_width_bound)
qed (auto split: list.split)


section \<open>Bounds\<close>

definition wf_func :: "funcs_t \<Rightarrow> bool" where
  "wf_func f \<longleftrightarrow> length (f_func f) < HF_FUNC_NAME_SZ \<and> length (f_module f) < HF_STR_LEN \<and> length (f_file f) < HF_STR_LEN"

definition safe_put :: "(scan_val \<Rightarrow> funcs_t \<Rightarrow> fault + funcs_t) \<Rightarrow> nat \<Rightarrow> bool" where
  "safe_put p b \<longleftrightarrow> (\<forall>v f. length (val_str v) \<le> b \<longrightarrow> wf_func f \<longrightarrow> (\<exists>f'. p v f = Inr f' \<and> wf_func f'))"

lemma safe_puts:
  "safe_put put_pc b" "safe_put put_line b"
  "b < HF_FUNC_NAME_SZ \<Longrightarrow> safe_put put_func b"
  "b < HF_STR_LEN \<Longrightarrow> safe_put put_module b" "b < HF_STR_LEN \<Longrightarrow> safe_put put_file b"
  by (auto simp: safe_put_def put_pc_def put_line_def put_func_def put_module_def put_file_def fit_def wf_func_def)

lemma puts_all_safe:
  "list_all2 safe_put ps bs \<Longrightarrow> fits vs bs \<Longrightarrow> wf_func f \<Longrightarrow> \<exists>f'. puts_all ps vs f = Inr f' \<and> wf_func f'"
proof (induction ps bs arbitrary: vs f rule: list_all2_induct)
  case (Cons p ps b bs)
  then show ?case by (cases vs) (fastforce simp: safe_put_def)+
qed simp

lemma close_paren_wf: "wf_func f \<Longrightarrow> wf_func (f\<lparr>f_func := snd (util_ssnprintf (f_func f) HF_FUNC_NAME_SZ [41])\<rparr>)"
  by (auto simp: wf_func_def util_ssnprintf_def util_vssnprintf_def snprintf_cut_def Let_def)

lemma try_forms_safe:
  assumes "\<forall>(ds, ps, paren) \<in> set fs. list_all2 safe_put ps (keep_bounds (length l) ds)" and "wf_func f"
  shows "\<exists>f'. try_forms fs l f = Inr f' \<and> wf_func f'"
  using assms
proof (induction fs arbitrary: f)
  case (Cons form fs)
  obtain ds ps paren where form: "form = (ds, ps, paren)" using prod_cases3 by blast
  obtain g where g: "puts_all ps (sscanf ds l) f = Inr g" "wf_func g"
    using puts_all_safe [OF _ sscanf_fits] Cons.prems form by fastforce
  show ?case using Cons g form close_paren_wf by (auto simp: Let_def)
qed simp

lemma frame_forms_safe:
  assumes "length l < HF_STR_LEN"
  shows "\<forall>(ds, ps, paren) \<in> set frame_forms. list_all2 safe_put ps (keep_bounds (length l) ds)"
  using assms by (simp add: frame_forms_def frame_pc_def lits_def str_def width_bound_def safe_puts HF_STR_LEN_def HF_FUNC_NAME_SZ_def)

lemma parse_frame_safe:
  assumes "length l < HF_STR_LEN" and "wf_func f"
  shows "\<exists>f'. parse_frame l f = Inr f' \<and> wf_func f'"
  unfolding parse_frame_def
  by (intro try_forms_safe frame_forms_safe assms(1)) (use assms(2) in \<open>simp add: wf_func_def HF_FUNC_NAME_SZ_def str_def\<close>)

definition wf_san :: "san_t \<Rightarrow> bool" where
  "wf_san s \<longleftrightarrow> length (san_funcs s) = HF_MAX_FUNCS \<and> list_all wf_func (san_funcs s) \<and> unat (frameIdx s) < HF_MAX_FUNCS \<and>
     length (san_description s) < HF_STR_LEN"


lemma put_addrs_wf: "wf_san (put_addrs vs s) = wf_san s"
  by (simp add: put_addrs_def wf_san_def split: list.split)

lemma parse_header_wf: "wf_san s \<Longrightarrow> wf_san (parse_header l s)"
proof -
  assume "wf_san s"
  define t where "t = put_addrs (sscanf (error_head @ [SNot (str '':'') None False] @ lits '': '' @ [SNot (str '' '') None False] @
      lits '' on '' @ [SWord None False] @ lits '' address 0x'' @ [SNum 16 True] @ lits '' (pc 0x'' @ [SNum 16 True]) l)
    (put_addrs (sscanf (error_head @ [SNot (str '':'') None False] @ lits '': '' @ [SNot (str '' '') None False] @
      lits '' on address 0x'' @ [SNum 16 True] @ lits '' at pc 0x'' @ [SNum 16 True]) l) (s\<lparr>headerFound := True\<rparr>))"
  have t: "wf_san t" using \<open>wf_san s\<close> by (simp add: t_def put_addrs_wf) (simp add: wf_san_def)
  have "fits (sscanf (error_head @ [SNot [10] (Some 8191) True]) l) [min 8191 (length l)]"
    using sscanf_fits [of l "length l" "error_head @ [SNot [10] (Some 8191) True]"] by (simp add: error_head_def lits_def width_bound_def)
  with t show ?thesis unfolding parse_header_def Let_def t_def [symmetric]
    by (auto simp: wf_san_def HF_STR_LEN_def split: list.split)
qed

lemma report_line_safe:
  assumes "length l < HF_STR_LEN" and wf: "wf_san s"
  shows "\<exists>stop s'. report_line pid l s = Inr (stop, s') \<and> wf_san s'"
proof (cases "headerFound s")
  case False
  then show ?thesis using wf parse_header_wf [OF wf, of l] by (auto simp: report_line_def split: list.split scan_val.split)
next
  case True
  have short: "length (dropWhile isspace l) < HF_STR_LEN" using assms(1) length_dropWhile_le le_less_trans by blast
  have store: "\<exists>f'. parse_frame (dropWhile isspace l) (san_funcs s ! unat i) = Inr f' \<and>
      wf_san (s\<lparr>frameFound := True, frameIdx := i, san_funcs := (san_funcs s)[unat i := f']\<rparr>)" if "unat i < HF_MAX_FUNCS" for i
    using that wf parse_frame_safe [OF short, of "san_funcs s ! unat i"]
    by (auto simp: wf_san_def list_all_length nth_list_update)
  have last: "wf_san (s\<lparr>frameIdx := of_nat (HF_MAX_FUNCS - 1)\<rparr>)" using wf by (simp add: wf_san_def HF_MAX_FUNCS_def)
  have len: "length (san_funcs s) = HF_MAX_FUNCS" using wf by (simp add: wf_san_def)
  show ?thesis
  proof (cases "\<exists>v. sscanf (lits ''#'' @ [SNum 10 True]) (dropWhile isspace l) = [ScanInt v]")
    case True
    then obtain v where v: "sscanf (lits ''#'' @ [SNum 10 True]) (dropWhile isspace l) = [ScanInt v]" by blast
    show ?thesis using \<open>headerFound s\<close> v wf last len store [of "of_int v"] by (auto simp: report_line_def Let_def not_le ex_bool_eq)
  next
    case False
    then show ?thesis using \<open>headerFound s\<close> wf by (auto simp: report_line_def Let_def split: list.split scan_val.split)
  qed
qed

lemma report_lines_safe:
  "list_all (\<lambda>l. length l < HF_STR_LEN) ls \<Longrightarrow> wf_san s \<Longrightarrow> \<exists>s'. report_lines pid ls s = Inr s' \<and> wf_san s'"
proof (induction ls arbitrary: s)
  case (Cons l ls)
  have "length (cstr l) < HF_STR_LEN" using Cons.prems(1) by (simp add: cstr_def le_less_trans [OF length_takeWhile_le])
  then obtain stop t where "report_line pid (cstr l) s = Inr (stop, t)" "wf_san t"
    using report_line_safe Cons.prems(2) by blast
  then show ?case using Cons by auto
qed simp


section \<open>Printed numbers are scanned back\<close>

lemma digits_value_snoc: "digits_value base (ds @ [c]) = base * digits_value base ds + the (digit_of base c)"
  by (simp add: digits_value_def)

lemma digit_of_dec: "d < 10 \<Longrightarrow> digit_of 10 (of_nat (48 + d)) = Some d"
proof -
  assume d: "d < 10"
  then have "unat (of_nat (48 + d) :: byte) = 48 + d" by (simp only: unat_of_nat) simp
  with d show ?thesis by (simp add: digit_of_def xdigit_def word_le_nat_alt)
qed

lemma digit_of_10: "digit_of 10 c = None \<longleftrightarrow> \<not> isdigit c"
  by (auto simp: digit_of_def xdigit_def isdigit_def word_le_nat_alt split: option.split)

lemma digit_of_hex: "d < 16 \<Longrightarrow> digit_of 16 (hex_digit d) = Some d"
proof -
  assume d: "d < 16"
  have "unat (of_nat (48 + d) :: byte) = 48 + d" "unat (of_nat (87 + d) :: byte) = 87 + d"
    using d by (simp_all only: unat_of_nat) simp_all
  with d show ?thesis by (simp add: digit_of_def xdigit_def hex_digit_def word_le_nat_alt)
qed

lemma dec_nat_scan: "digits_value 10 (dec_nat n) = n \<and> (\<forall>c \<in> set (dec_nat n). digit_of 10 c \<noteq> None)"
proof (induction n rule: dec_nat.induct)
  case (1 n)
  show ?case
  proof (cases "n < 10")
    case True
    then show ?thesis using digit_of_dec [of n] by (subst (1 2) dec_nat.simps) (simp add: digits_value_def)
  next
    case False
    then show ?thesis using 1 digit_of_dec [of "n mod 10"] by (subst (1 2) dec_nat.simps) (simp add: digits_value_snoc)
  qed
qed

lemma hex_nat_nonempty: "hex_nat n \<noteq> []"
  by (subst hex_nat.simps) simp

lemma hex_nat_scan: "digits_value 16 (hex_nat n) = n \<and> (\<forall>c \<in> set (hex_nat n). digit_of 16 c \<noteq> None)"
proof (induction n rule: hex_nat.induct)
  case (1 n)
  show ?case
  proof (cases "n < 16")
    case True
    then show ?thesis using digit_of_hex [of n] by (subst (1 2) hex_nat.simps) (simp add: digits_value_def)
  next
    case False
    then show ?thesis using 1 digit_of_hex [of "n mod 16"] by (subst (1 2) hex_nat.simps) (simp add: digits_value_snoc)
  qed
qed

lemma digit_not_special: "digit_of base c \<noteq> None \<Longrightarrow> c \<noteq> 45 \<and> c \<noteq> 43 \<and> \<not> isspace c \<and> c \<noteq> 120 \<and> c \<noteq> 88"
  by (auto simp: digit_of_def xdigit_def isspace_def word_le_nat_alt split: if_splits)

text \<open>Digits \<open>ds\<close> before something that is not a digit.\<close>

lemma scan_digits:
  assumes "ds \<noteq> []" and dig: "\<forall>c \<in> set ds. digit_of base c \<noteq> None" and r: "r = [] \<or> digit_of base (hd r) = None \<and> (base = 16 \<longrightarrow> hd r \<notin> {120, 88})"
  shows "scan_num base (ds @ r) = Some (int (min (digits_value base ds) (2 ^ 64 - 1)), r)"
    and "dropWhile isspace (ds @ r) = ds @ r"
proof -
  obtain d ds' where ds: "ds = d # ds'" using assms(1) by (cases ds) auto
  have d: "d \<noteq> 45" "d \<noteq> 43" "\<not> isspace d" using digit_not_special [of base d] dig ds by auto
  have "b \<noteq> 120 \<and> b \<noteq> 88" if "ds' @ r = b # t" "base = 16" for b t
    using that dig ds r digit_not_special [of base b] by (cases ds') auto
  then have "base = 16 \<longrightarrow> strip_0x (ds @ r) = ds @ r" using ds by (auto simp: strip_0x_def split: list.split)
  moreover have "takeWhile (\<lambda>c. digit_of base c \<noteq> None) (ds @ r) = ds"
    using dig r by (cases r) (auto simp: takeWhile_append)
  moreover have "strip_sign (ds @ r) = (False, ds @ r)" using d ds by (simp add: strip_sign_def)
  ultimately show "scan_num base (ds @ r) = Some (int (min (digits_value base ds) (2 ^ 64 - 1)), r)"
    using assms(1) by (cases "base = 16") (simp_all add: scan_num_def Let_def)
  show "dropWhile isspace (ds @ r) = ds @ r" using d ds by simp
qed

lemmas scan_printed =
  scan_digits [OF dec_nat_nonempty conjunct2 [OF dec_nat_scan]] scan_digits [OF hex_nat_nonempty conjunct2 [OF hex_nat_scan]]

text \<open>The beginning of a frame, and the name after it.\<close>

definition frame_head :: "nat \<Rightarrow> u64 \<Rightarrow> byte list" where
  "frame_head i pc = str ''#'' @ dec_nat i @ str '' 0x'' @ hex_nat (unat pc)"

lemma sscanf_frame_head:
  "sscanf (frame_pc @ ds) (frame_head i pc @ 32 # r) = ScanInt (int (unat pc)) # sscanf ds (32 # r)"
proof -
  have sp: "(32 :: byte) # r = [] \<or> digit_of b (hd (32 # r)) = None \<and> (b = 16 \<longrightarrow> hd (32 # r) \<notin> {120, 88})" for b
    by (simp add: digit_of_def xdigit_def)
  have sp': "(str '' 0x'' @ t) = [] \<or> digit_of b (hd (str '' 0x'' @ t)) = None \<and> (b = 16 \<longrightarrow> hd (str '' 0x'' @ t) \<notin> {120, 88})" for b t
    by (simp add: str_def digit_of_def xdigit_def)
  have "min (unat pc) (2 ^ 64 - 1) = unat pc" using unsigned_less [of pc, where ?'a = nat] by simp
  then show ?thesis
    using scan_printed(1,2) [OF sp', of i "hex_nat (unat pc) @ 32 # r"] scan_printed(3,4) [OF sp, of "unat pc"]
    by (simp add: frame_pc_def frame_head_def lits_def str_def dec_nat_scan hex_nat_scan isspace_def)
qed

lemma isspace_blank [simp]: "isspace 32" "\<not> isspace 105" "\<not> isspace 58"
  by (simp_all add: isspace_def)

lemma sscanf_in: "t \<noteq> [] \<Longrightarrow> \<not> isspace (hd t) \<Longrightarrow> sscanf (lits '' in '' @ ds) (str '' in '' @ t) = sscanf ds t"
  by (cases t) (simp_all add: lits_def str_def)

lemma sscanf_head_in:
  assumes "t \<noteq> []" and "\<not> isspace (hd t)"
  shows "sscanf (frame_pc @ lits '' in '' @ ds) (frame_head i pc @ str '' in '' @ t) = ScanInt (int (unat pc)) # sscanf ds t"
proof -
  have "str '' in '' @ t = 32 # 105 # 110 # 32 # t" by (simp add: str_def)
  then show ?thesis using sscanf_frame_head [of "lits '' in '' @ ds" i pc] sscanf_in [OF assms] by metis
qed

text \<open>The four first forms on the rest of such a line, which has no parentheses.\<close>

lemma sscanf_no_lit: "c \<notin> set t \<Longrightarrow> sscanf (SLit c # ds) t = []"
  by (cases t) auto

lemma sscanf_not_all:
  assumes "\<forall>c \<in> set s. c \<notin> set cs" and "cut_width w s \<noteq> []"
  shows "sscanf (SNot cs w keep # ds) s =
    (if keep then [ScanStr (cut_width w s)] else []) @ sscanf ds (drop (length (cut_width w s)) s)"
proof -
  have "takeWhile (\<lambda>c. c \<notin> set cs) s = s" using assms(1) by (simp add: takeWhile_eq_all_conv)
  then show ?thesis using assms(2) by (simp only: sscanf.simps Let_def if_False)
qed

lemma no_paren_forms:
  assumes "41 \<notin> set t" and "t \<noteq> []"
  shows "sscanf (SNot (str '')'') (Some 255) True # lits '') '' @ ds) t = [ScanStr (take 255 t)]"
    and "sscanf (SNot (str '')'') (Some 255) True # lits '') ('' @ ds) t = [ScanStr (take 255 t)]"
proof -
  have "\<forall>c \<in> set t. c \<notin> set (str '')'')" using assms(1) by (auto simp: str_def)
  moreover have "41 \<notin> set (drop 255 t)" using assms(1) in_set_dropD by fastforce
  moreover have "drop (min (length t) 255) t = drop 255 t" by (simp add: min_def)
  ultimately show "sscanf (SNot (str '')'') (Some 255) True # lits '') '' @ ds) t = [ScanStr (take 255 t)]"
    "sscanf (SNot (str '')'') (Some 255) True # lits '') ('' @ ds) t = [ScanStr (take 255 t)]"
    using assms(2) by (simp_all add: sscanf_not_all sscanf_no_lit lits_def cut_width_def del: sscanf.simps)
qed

lemma word_form:
  assumes "40 \<notin> set r" and "name \<noteq> []" and "\<forall>c \<in> set name. \<not> isspace c" and "length name < 256"
  shows "sscanf (SWord (Some 255) True # SNot (str ''('') None False # lits ''('' @ ds) (name @ 32 # r) = [ScanStr name]"
proof -
  have "sscanf (SNot (str ''('') None False # lits ''('' @ ds) (32 # r) = []"
    using assms(1) by (subst sscanf_not_all) (auto simp: str_def lits_def cut_width_def)
  moreover have "dropWhile isspace (name @ 32 # r) = name @ 32 # r" using assms(2,3) by (cases name) auto
  moreover have "takeWhile (\<lambda>c. \<not> isspace c) (name @ 32 # r) = name" using assms(3) by (simp add: takeWhile_append)
  ultimately show ?thesis using assms(2,4) by (simp add: Let_def cut_width_def del: sscanf.simps(6))
qed

lemma file_form:
  assumes "name \<noteq> []" and "32 \<notin> set name" and "length name < 256"
    and "fname \<noteq> []" and "\<not> isspace (hd fname)" and "58 \<notin> set fname" and "10 \<notin> set fname" and "length fname < 8192"
    and r: "r = [] \<or> \<not> isdigit (hd r)" and ln: "n < 2 ^ 64"
  shows "sscanf (SNot (str '' '') (Some 255) True # lits '' '' @ SNot (58 # [10]) (Some 8191) True # lits '':'' @ [SNum 10 True])
      (name @ 32 # fname @ 58 # dec_nat n @ r) = [ScanStr name, ScanStr fname, ScanInt (int n)]"
proof -
  have "takeWhile (\<lambda>c. c \<notin> {32}) (name @ 32 # t) = name" for t using assms(2) by (auto simp: takeWhile_append)
  moreover have "dropWhile isspace (32 # fname @ t) = fname @ t" for t using assms(4,5) by (cases fname) auto
  moreover have "takeWhile (\<lambda>c. c \<notin> {58, 10}) (fname @ 58 # t) = fname" for t using assms(6,7) by (auto simp: takeWhile_append)
  moreover have "min n (2 ^ 64 - 1) = n" using ln by simp
  moreover have "r = [] \<or> digit_of 10 (hd r) = None \<and> ((10 :: nat) = 16 \<longrightarrow> hd r \<notin> {120, 88})" using r by (simp add: digit_of_10)
  ultimately show ?thesis using assms(1,3,4,8) scan_printed(1,2) [of r n]
    by (simp add: Let_def str_def lits_def cut_width_def dec_nat_scan)
qed

text \<open>The first form: a name up to its first closing parenthesis, and the text up to the next colon.\<close>

lemma paren_form:
  assumes "41 \<notin> set n" and "n \<noteq> []" and "length n < 255"
    and "u \<noteq> []" and "\<not> isspace (hd u)" and "58 \<notin> set u" and "length u < 256" and "sp = [] \<or> sp = [32]"
    and r: "r = [] \<or> \<not> isdigit (hd r)" and ln: "k < 2 ^ 64"
  shows "sscanf (SNot (str '')'') (Some 255) True # lits '') '' @ SNot (str '':'') (Some 255) True # lits '':'' @ [SNum 10 True])
      (n @ 41 # sp @ u @ 58 # dec_nat k @ r) = [ScanStr n, ScanStr u, ScanInt (int k)]"
proof -
  have "takeWhile (\<lambda>c. c \<noteq> 41) (n @ 41 # t) = n" for t using assms(1) by (auto simp: takeWhile_append)
  moreover have "dropWhile isspace (sp @ u @ t) = u @ t" for t using assms(4,5,8) by (cases u) auto
  moreover have "takeWhile (\<lambda>c. c \<noteq> 58) (u @ 58 # t) = u" for t using assms(6) by (auto simp: takeWhile_append)
  moreover have "min k (2 ^ 64 - 1) = k" using ln by simp
  moreover have "r = [] \<or> digit_of 10 (hd r) = None \<and> ((10 :: nat) = 16 \<longrightarrow> hd r \<notin> {120, 88})" using r by (simp add: digit_of_10)
  ultimately show ?thesis using assms(2-4,7) scan_printed(1,2) [of r k]
    by (simp add: Let_def str_def lits_def cut_width_def dec_nat_scan)
qed

lemma parse_frame_paren:
  assumes "41 \<notin> set n" and "n \<noteq> []" and "\<not> isspace (hd n)" and "length n < 255"
    and "u \<noteq> []" and "\<not> isspace (hd u)" and "58 \<notin> set u" and "length u < 256" and "sp = [] \<or> sp = [32]"
    and "r = [] \<or> \<not> isdigit (hd r)"
  shows "parse_frame (frame_head i pc @ str '' in '' @ n @ 41 # sp @ u @ 58 # dec_nat (unat ln) @ r) f =
    Inr (f\<lparr>f_pc := pc, f_func := n @ [41], f_file := u, f_line := ln\<rparr>)"
proof -
  define t where "t = n @ 41 # sp @ u @ 58 # dec_nat (unat ln) @ r"
  have t: "t \<noteq> []" "\<not> isspace (hd t)" using assms(2,3) by (simp_all add: t_def)
  have form: "sscanf (SNot (str '')'') (Some 255) True # lits '') '' @ SNot (str '':'') (Some 255) True # lits '':'' @ [SNum 10 True]) t =
      [ScanStr n, ScanStr u, ScanInt (int (unat ln))]"
    unfolding t_def using assms unsigned_less [of ln, where ?'a = nat] by (intro paren_form) simp_all
  show ?thesis
    unfolding parse_frame_def frame_forms_def t_def [symmetric] append_Cons append_Nil try_forms.simps(2) sscanf_head_in [OF t] form
    using assms(4,8)
    by (simp add: put_pc_def put_func_def put_file_def put_line_def fit_def HF_FUNC_NAME_SZ_def HF_STR_LEN_def val_str_def val_u64_def
        util_ssnprintf_def util_vssnprintf_def snprintf_cut_def Let_def)
qed

lemma parse_frame_plain:
  assumes "name \<noteq> []" and "\<forall>c \<in> set name. \<not> isspace c" and "length name < HF_FUNC_NAME_SZ"
    and "fname \<noteq> []" and "\<not> isspace (hd fname)" and "58 \<notin> set fname" and "10 \<notin> set fname" and "length fname < HF_STR_LEN"
    and "{40, 41} \<inter> set (name @ fname @ r) = {}" and "r = [] \<or> \<not> isdigit (hd r)"
  shows "parse_frame (frame_head i pc @ str '' in '' @ name @ 32 # fname @ 58 # dec_nat (unat ln) @ r) f =
    Inr (f\<lparr>f_pc := pc, f_func := name, f_file := fname, f_line := ln\<rparr>)"
proof -
  define t where "t = name @ 32 # fname @ 58 # dec_nat (unat ln) @ r"
  have "c \<noteq> 40 \<and> c \<noteq> 41" if "c \<in> set (dec_nat n)" for c n using dec_nat_digits [OF that] by (auto simp: isdigit_def)
  then have t: "t \<noteq> []" "\<not> isspace (hd t)" "41 \<notin> set t" "40 \<notin> set (fname @ 58 # dec_nat (unat ln) @ r)"
    using assms(1,2,9) by (auto simp: t_def hd_append)
  have sp: "32 \<notin> set name" using assms(2) by (auto simp: isspace_def)
  have words: "sscanf (SWord (Some 255) True # SNot (str ''('') None False # lits ''('' @ ds) t = [ScanStr name]" for ds
    unfolding t_def using assms(1-3) t(4) by (intro word_form) (auto simp: HF_FUNC_NAME_SZ_def)
  have files: "sscanf (SNot (str '' '') (Some 255) True # lits '' '' @ SNot (58 # [10]) (Some 8191) True # lits '':'' @ [SNum 10 True]) t =
      [ScanStr name, ScanStr fname, ScanInt (int (unat ln))]"
    unfolding t_def using assms sp unsigned_less [of ln, where ?'a = nat]
    by (intro file_form) (auto simp: HF_FUNC_NAME_SZ_def HF_STR_LEN_def)
  show ?thesis
    unfolding parse_frame_def frame_forms_def t_def [symmetric] append_Cons append_Nil try_forms.simps sscanf_head_in [OF t(1,2)]
      no_paren_forms [OF t(3,1)] words files
    using assms(3,8)
    by (simp add: put_pc_def put_func_def put_file_def put_line_def fit_def HF_FUNC_NAME_SZ_def val_str_def val_u64_def)
qed

section \<open>Properties\<close>

definition demo_san :: san_cfg where
  "demo_san = \<lparr>san_enable = True, san_workDir = str ''/w'', san_netDriver = False, san_rssLimit = 0, san_del_report = True,
     san_getenv = (\<lambda>_. False)\<rparr>"

text \<open>C36: reading a sanitizer report never writes outside the array of 80 frames or outside a string
  of a frame, and the number of frames returned is at most 80, for every report file whose lines
  are shorter than 8192 bytes, whatever they hold. (The module of the second form of a frame has no
  width, so that longer lines can overflow it.)\<close>

theorem sanitizers_parseReport_safe:
  assumes "\<forall>txt. fs_open fs (report_path c (sanitizers_PidForTid tid status)) = Some txt \<longrightarrow>
      list_all (\<lambda>l. length l < HF_STR_LEN) (getlines txt)"
    and "length funcs = HF_MAX_FUNCS" and "list_all wf_func funcs"
  shows "\<exists>n s fs'. sanitizers_parseReport c status tid funcs pc crashAddr fs = Inr (n, s, fs') \<and> n \<le> HF_MAX_FUNCS \<and>
    length (san_funcs s) = HF_MAX_FUNCS \<and> list_all wf_func (san_funcs s) \<and> length (san_description s) < HF_STR_LEN"
proof (cases "fs_open fs (report_path c (sanitizers_PidForTid tid status))")
  case None
  then show ?thesis using assms by (simp add: sanitizers_parseReport_def HF_STR_LEN_def)
next
  case (Some body)
  define s where "s = \<lparr>headerFound = False, frameFound = False, frameIdx = 0, san_funcs = funcs, san_pc = pc,
    san_crashAddr = crashAddr, san_description = []\<rparr>"
  have "wf_san s" using assms by (simp add: s_def wf_san_def HF_STR_LEN_def HF_MAX_FUNCS_def)
  then obtain s' where "report_lines (sanitizers_PidForTid tid status) (getlines body) s = Inr s'" "wf_san s'"
    using report_lines_safe assms(1) Some by blast
  then show ?thesis using Some by (auto simp: sanitizers_parseReport_def s_def [symmetric] wf_san_def)
qed

text \<open>A report with a header, a frame with debug information, one without, and a line of another kind.\<close>

definition demo_lines :: "byte list list" where
  "demo_lines = [str ''==7==ERROR: AddressSanitizer: SEGV on address 0x10 at pc 0x4011'' @ [10],
     str ''    #0 0x4011 in main /a/b.c:12:5'' @ [10], str ''    #1 0x5022  (/lib/c.so+0x22)'' @ [10], str ''Hint'' @ [10]]"

definition demo_report_fs :: fs_t where
  "demo_report_fs = demo_fs\<lparr>fs_files := [report_path demo_san 7 \<mapsto> concat demo_lines]\<rparr>"

lemma header_fields: "headerFound (parse_header l s)" "frameFound (parse_header l s) = frameFound s" "frameIdx (parse_header l s) = frameIdx s"
  by (simp_all add: parse_header_def put_addrs_def Let_def split: list.split)

lemma report_frame_step:
  assumes "headerFound s" and wf: "wf_san s" and len: "length l < HF_STR_LEN"
    and v: "sscanf (lits ''#'' @ [SNum 10 True]) (dropWhile isspace l) = [ScanInt v]" and i: "unat (of_int v :: u32) < HF_MAX_FUNCS"
  shows "\<exists>s'. report_line pid l s = Inr (False, s') \<and> wf_san s' \<and> headerFound s' \<and> frameFound s' \<and> frameIdx s' = of_int v"
proof -
  have short: "length (dropWhile isspace l) < HF_STR_LEN" using len length_dropWhile_le le_less_trans by blast
  have funcs: "length (san_funcs s) = HF_MAX_FUNCS" using wf by (simp add: wf_san_def)
  then have "wf_func (san_funcs s ! unat (of_int v :: u32))" using wf i by (simp add: wf_san_def list_all_length)
  from parse_frame_safe [OF short this] obtain f where "parse_frame (dropWhile isspace l) (san_funcs s ! unat (of_int v :: u32)) = Inr f" "wf_func f" by blast
  moreover have "dropWhile isspace l \<noteq> []"
  proof
    assume "dropWhile isspace l = []"
    then show False using v unfolding \<open>dropWhile isspace l = []\<close> by (simp add: lits_def)
  qed
  ultimately show ?thesis using assms funcs
    by (auto simp: report_line_def Let_def wf_san_def list_all_length nth_list_update)
qed

lemmas scan_defs = str_def lits_def isspace_def scan_num_def strip_sign_def digit_of_def xdigit_def digits_value_def cstr_def

lemma demo_lines_scan:
  "sscanf (lits ''=='' @ [SNum 10 True]) (cstr (demo_lines ! 0)) = [ScanInt 7]"
  "sscanf (lits ''#'' @ [SNum 10 True]) (dropWhile isspace (cstr (demo_lines ! 1))) = [ScanInt 0]"
  "sscanf (lits ''#'' @ [SNum 10 True]) (dropWhile isspace (cstr (demo_lines ! 2))) = [ScanInt 1]"
  "sscanf (lits ''#'' @ [SNum 10 True]) (dropWhile isspace (cstr (demo_lines ! 3))) = []"
  "dropWhile isspace (cstr (demo_lines ! 3)) \<noteq> []"
  by (simp_all add: demo_lines_def scan_defs)

lemma demo_lines_short: "length (cstr (demo_lines ! 1)) < HF_STR_LEN" "length (cstr (demo_lines ! 2)) < HF_STR_LEN"
  by (simp_all add: demo_lines_def HF_STR_LEN_def str_def cstr_def)

lemma demo_getlines: "getlines (concat demo_lines) = demo_lines"
  by (simp add: demo_lines_def getlines_def str_def)

lemma demo_report_read:
  assumes wf: "wf_san s" and "\<not> headerFound s"
  shows "\<exists>s'. report_lines 7 demo_lines s = Inr s' \<and> frameFound s' \<and> frameIdx s' = 1"
proof -
  let ?h = "parse_header (cstr (demo_lines ! 0)) s"
  have h: "report_line 7 (cstr (demo_lines ! 0)) s = Inr (False, ?h)" using assms(2) demo_lines_scan(1) by (simp add: report_line_def)
  obtain a where a: "report_line 7 (cstr (demo_lines ! 1)) ?h = Inr (False, a)" "wf_san a" "headerFound a"
    using report_frame_step [OF header_fields(1) parse_header_wf [OF wf] demo_lines_short(1) demo_lines_scan(2)] by (auto simp: HF_MAX_FUNCS_def)
  obtain b where b: "report_line 7 (cstr (demo_lines ! 2)) a = Inr (False, b)" "headerFound b" "frameFound b" "frameIdx b = 1"
    using report_frame_step [OF a(3,2) demo_lines_short(2) demo_lines_scan(3)] by (auto simp: HF_MAX_FUNCS_def)
  have c: "report_line 7 (cstr (demo_lines ! 3)) b = Inr (False, b)" using b(2) demo_lines_scan(4,5) by (simp add: report_line_def Let_def)
  have "demo_lines = [demo_lines ! 0, demo_lines ! 1, demo_lines ! 2, demo_lines ! 3]" by (simp add: demo_lines_def)
  then have "report_lines 7 demo_lines s = report_lines 7 [demo_lines ! 0, demo_lines ! 1, demo_lines ! 2, demo_lines ! 3] s" by simp
  then show ?thesis using h a(1) b c by simp
qed

theorem sanitizers_parseReport_safe_witness:
  "\<exists>s fs'. sanitizers_parseReport demo_san None 7 (replicate HF_MAX_FUNCS zero_func) 0 0 demo_report_fs = Inr (2, s, fs') \<and>
     list_all wf_func (san_funcs s) \<and> length (san_description s) < HF_STR_LEN"
proof -
  let ?s = "\<lparr>headerFound = False, frameFound = False, frameIdx = 0, san_funcs = replicate HF_MAX_FUNCS zero_func, san_pc = 0,
    san_crashAddr = 0, san_description = []\<rparr>"
  have funcs: "list_all wf_func (replicate HF_MAX_FUNCS zero_func)"
    by (simp add: list_all_length wf_func_def zero_func_def HF_STR_LEN_def HF_FUNC_NAME_SZ_def)
  then have "wf_san ?s" by (simp add: wf_san_def HF_MAX_FUNCS_def HF_STR_LEN_def)
  from demo_report_read [OF this] obtain t where t: "report_lines 7 demo_lines ?s = Inr t" "frameFound t" "frameIdx t = 1" by auto
  have pid: "sanitizers_PidForTid 7 None = 7" by (simp add: sanitizers_PidForTid_def)
  have opened: "fs_open demo_report_fs (report_path demo_san 7) = Some (concat demo_lines)"
    by (simp add: demo_report_fs_def fs_open_def demo_fs_def)
  have lines: "\<forall>txt. fs_open demo_report_fs (report_path demo_san (sanitizers_PidForTid 7 None)) = Some txt \<longrightarrow>
      list_all (\<lambda>l. length l < HF_STR_LEN) (getlines txt)"
    unfolding pid opened by (simp add: demo_getlines) (simp add: demo_lines_def str_def HF_STR_LEN_def)
  from sanitizers_parseReport_safe [OF lines _ funcs, of 0 0] obtain n s fs' where
    n: "sanitizers_parseReport demo_san None 7 (replicate HF_MAX_FUNCS zero_func) 0 0 demo_report_fs = Inr (n, s, fs')"
      "list_all wf_func (san_funcs s)" "length (san_description s) < HF_STR_LEN" by auto
  moreover have "n = 2" using n(1) t by (simp add: sanitizers_parseReport_def pid opened demo_getlines)
  ultimately show ?thesis by blast
qed

text \<open>The hash of a call stack depends only on the last twelve bits of the program counters of its
  first frames (14 with sanitizers, else 7), and not on their order: it is the same when the
  program is loaded at another multiple of 4096, and for the same places called in another order.\<close>

theorem sanitizers_hashCallstack_low_bits:
  assumes "mset (map (\<lambda>f. f_pc f AND 0xFFF) (take (min n (if enable then 14 else 7)) fs)) =
      mset (map (\<lambda>f. f_pc f AND 0xFFF) (take (min n (if enable then 14 else 7)) gs))"
  shows "sanitizers_hashCallstack enable fs n msk = sanitizers_hashCallstack enable gs n msk"
  unfolding sanitizers_hashCallstack_def Let_def hash_cong [OF assms] ..


theorem sanitizers_hashCallstack_low_bits_witness:
  "sanitizers_hashCallstack False [zero_func\<lparr>f_pc := 0x401123\<rparr>, zero_func\<lparr>f_pc := 0x401456\<rparr>] 2 True =
   sanitizers_hashCallstack False [zero_func\<lparr>f_pc := 0x55555456\<rparr>, zero_func\<lparr>f_pc := 0x55555123\<rparr>] 2 True"
  by (rule sanitizers_hashCallstack_low_bits) (simp add: zero_func_def)



text \<open>A demangled name with two closing parentheses, such as one with a parameter that is a pointer to a function, is cut at the first
  one, and the rest of the name becomes the beginning of the file.\<close>

theorem parse_frame_nested_parens:
  assumes "41 \<notin> set n" and "n \<noteq> []" and "\<not> isspace (hd n)" and "length n < 255"
    and "m \<noteq> []" and "\<not> isspace (hd m)" and "58 \<notin> set m" and "58 \<notin> set fname" and "length m + length fname < 254"
    and "r = [] \<or> \<not> isdigit (hd r)"
  shows "parse_frame (frame_head i pc @ str '' in '' @ (n @ 41 # m @ [41]) @ 32 # fname @ 58 # dec_nat (unat ln) @ r) f =
    Inr (f\<lparr>f_pc := pc, f_func := n @ [41], f_file := m @ [41, 32] @ fname, f_line := ln\<rparr>)"
  using assms parse_frame_paren [of n "m @ [41, 32] @ fname" "[]" r i pc ln f] by simp

theorem parse_frame_nested_parens_witness:
  "parse_frame (frame_head 0 0x4022 @ str '' in '' @ (str ''f(int (*'' @ 41 # str ''(char)'' @ [41]) @ 32 # str ''/a.cc'' @ 58 # dec_nat (unat (3 :: u64)) @ []) zero_func =
    Inr (zero_func\<lparr>f_pc := 0x4022, f_func := str ''f(int (*'' @ [41], f_file := str ''(char)'' @ [41, 32] @ str ''/a.cc'', f_line := 3\<rparr>)"
  by (rule parse_frame_nested_parens) (simp_all add: str_def isspace_def)

section \<open>Lists of symbols\<close>

lemma strncmp_prefix: "0 \<notin> set func \<Longrightarrow> strncmp_eq (func @ [0]) (sy @ [0]) (length func) \<longleftrightarrow> prefix func sy"
proof
  assume z: "0 \<notin> set func" and eq: "strncmp_eq (func @ [0]) (sy @ [0]) (length func)"
  then have "func = take (length func) (sy @ [0])" by (simp add: strncmp_eq_def)
  then have "prefix func (sy @ [0])" by (metis append_take_drop_id prefixI)
  then show "prefix func sy" using z by (auto simp: prefix_snoc)
qed (auto simp: strncmp_eq_def prefix_def)

lemma strchr_none: "c \<notin> set s \<Longrightarrow> strchr s c = None"
proof -
  assume "c \<notin> set s"
  then have "takeWhile (\<lambda>x. x \<noteq> c) s = s" by (auto simp: takeWhile_eq_all_conv)
  then show ?thesis by (simp only: strchr_def Let_def) simp
qed

lemma frame_symbols_plain:
  "0 \<notin> set func \<Longrightarrow> \<forall>sy \<in> set syms. 42 \<notin> set sy \<Longrightarrow>
    frame_symbols func (length func) syms \<longleftrightarrow> (\<exists>sy \<in> set syms. prefix func sy)"
  by (induction syms) (auto simp: strncmp_prefix strchr_none Let_def)

text \<open>Without wildcards, the search for a symbol in a call stack finds the first frame whose name
  is the beginning of a listed symbol: it returns a name exactly when there is such a frame.\<close>

theorem arch_btContainsSymbol_correct:
  assumes "\<forall>sy \<in> set syms. 42 \<notin> set sy" and "\<forall>f \<in> set fs. 0 \<notin> set (f_func f)"
  shows "arch_btContainsSymbol syms fs =
    map_option f_func (find (\<lambda>f. f_func f \<noteq> [] \<and> (\<exists>sy \<in> set syms. prefix (f_func f) sy)) fs)"
  using assms(2)
proof (induction fs)
  case (Cons f fs)
  then have "frame_symbols (f_func f) (length (f_func f)) syms \<longleftrightarrow> (\<exists>sy \<in> set syms. prefix (f_func f) sy)"
    by (intro frame_symbols_plain assms(1)) simp
  then show ?case using Cons by (simp del: frame_symbols.simps)
qed simp

theorem arch_btContainsSymbol_correct_witness:
  "arch_btContainsSymbol [str ''abcd''] [zero_func, zero_func\<lparr>f_func := str ''abc''\<rparr>] = Some (str ''abc'')"
  using arch_btContainsSymbol_correct [of "[str ''abcd'']" "[zero_func, zero_func\<lparr>f_func := str ''abc''\<rparr>]"]
  by (simp add: zero_func_def str_def del: arch_btContainsSymbol.simps)

text \<open>With a wildcard the length of the comparison stays what the wildcard made it: after an entry
  \<open>pc*\<close>, which itself compares only \<open>p\<close>, the next entry matches every name that agrees with it on
  \<open>length p\<close> bytes.\<close>

theorem arch_btContainsSymbol_wildcard:
  assumes "42 \<notin> set (p @ c # z)" and "f_func f \<noteq> []"
    and "length p \<le> length (f_func f)" and "length p \<le> length z"
  shows "arch_btContainsSymbol [p @ [c, 42], z] [f] \<noteq> None \<longleftrightarrow>
    take (length p) (f_func f) = p \<or> take (length p) (f_func f) = take (length p) z"
proof -
  have "takeWhile (\<lambda>x. x \<noteq> 42) (p @ [c, 42]) = p @ [c]" using assms(1) by (auto simp: takeWhile_append)
  then have "strchr (p @ [c, 42]) 42 = Some (length p + 1)" by (simp add: strchr_def Let_def)
  moreover have "strchr z 42 = None" using assms(1) by (simp add: strchr_none)
  ultimately show ?thesis using assms(2-4) by (auto simp: strncmp_eq_def sz_sub_def Let_def)
qed


theorem arch_btContainsSymbol_wildcard_witness:
  "arch_btContainsSymbol [str ''abc*'', str ''main''] [zero_func\<lparr>f_func := str ''mask''\<rparr>] \<noteq> None"
  using arch_btContainsSymbol_wildcard [of "str ''ab''" "of_char (CHR ''c'')" "str ''main''" "zero_func\<lparr>f_func := str ''mask''\<rparr>"]
  by (simp add: zero_func_def str_def)

end
