(* ===== verification/HF_Crash.thy ===== *)
theory HF_Crash
  imports HF_Sanitizers HF_Fuzz
begin

text \<open>
  Crashes: \<open>honggfuzz/report.c\<close> and, from \<open>honggfuzz/linux/trace.c\<close>, the table of signals and what
  happens when the target stops with one of them: the call stack is hashed, known crashes are
  dropped, and the input is saved under a name made of the signal and the hash.

  What the stopped process holds (registers, signal information, disassembly, the frames of
  libunwind, the names of libbfd) is a parameter of type \<open>crash_ev\<close>.
\<close>

section \<open>State\<close>

record crash_cfg =
  cr_san :: san_cfg
  cr_saveUnique :: bool
  cr_saveSmaller :: bool
  cr_crashDir :: path
  cr_fileExtn :: "byte list"
  cr_ignoreAddr :: u64
  cr_disableRandomization :: bool
  cr_symsWl :: "byte list list option"
  cr_symsBl :: "byte list list"
  cr_useVerifier :: bool
  cr_tmoutVTALRM :: bool

record crash_ev =
  e_pid :: int
  e_signo :: int
  e_code :: int
  e_addr :: u64
  e_pc :: "u64 option"
  e_status :: "byte list option"
  e_maps :: "procMap_t list"
  e_steps :: "(u64 option \<times> u64) list"
  e_resolve :: "nat \<Rightarrow> funcs_t list \<Rightarrow> funcs_t list"
  e_demangle :: "nat \<Rightarrow> funcs_t list \<Rightarrow> funcs_t list"
  e_instr :: "byte list"
  e_localtm :: "byte list"
  e_io :: "nat \<Rightarrow> io_ev"
  e_rename :: bool
  e_eventmsg :: bool

text \<open>A thread with the counters of the process that only crashes change.\<close>

record crash_t =
  cr_fz :: fuzz_t
  blCrashesCnt :: nat
  dynFileIterExpire :: u64

definition cr_fs :: "crash_t \<Rightarrow> fs_t" where
  "cr_fs s = io_fs (fz_hf (cr_fz s))"

definition set_fs :: "fs_t \<Rightarrow> fuzz_t \<Rightarrow> fuzz_t" where
  "set_fs fs s = put_run ((fz_run s)\<lparr>global := (fz_hf s)\<lparr>io_fs := fs\<rparr>\<rparr>) s"

definition fzC :: "(fuzz_t \<Rightarrow> fuzz_t) \<Rightarrow> crash_t \<Rightarrow> crash_t" where
  "fzC f s = s\<lparr>cr_fz := f (cr_fz s)\<rparr>"

section \<open>Signals\<close>

text \<open>The macros of \<open>sys/wait.h\<close> on a status, and the event of a ptrace stop.\<close>

definition WTERMSIG :: "u32 \<Rightarrow> nat" where "WTERMSIG st = unat (st AND 0x7F)"
definition WEXITSTATUS :: "u32 \<Rightarrow> nat" where "WEXITSTATUS st = unat (drop_bit 8 st AND 0xFF)"
definition WSTOPSIG :: "u32 \<Rightarrow> nat" where "WSTOPSIG st = WEXITSTATUS st"
definition WIFEXITED :: "u32 \<Rightarrow> bool" where "WIFEXITED st \<longleftrightarrow> WTERMSIG st = 0"
definition WIFSTOPPED :: "u32 \<Rightarrow> bool" where "WIFSTOPPED st \<longleftrightarrow> st AND 0xFF = 0x7F"
definition WIFCONTINUED :: "u32 \<Rightarrow> bool" where "WIFCONTINUED st \<longleftrightarrow> st = 0xFFFF"
definition WIFSIGNALED :: "u32 \<Rightarrow> bool" where "WIFSIGNALED st \<longleftrightarrow> WTERMSIG st \<noteq> 0 \<and> WTERMSIG st \<noteq> 0x7F"
definition WPTRACEEVENT :: "u32 \<Rightarrow> nat" where "WPTRACEEVENT st = unat (drop_bit 16 (st AND 0xFF0000))"

definition SIGILL :: int where "SIGILL = 4"
definition SIGABRT :: int where "SIGABRT = 6"
definition SIGBUS :: int where "SIGBUS = 7"
definition SIGFPE :: int where "SIGFPE = 8"
definition SIGSEGV :: int where "SIGSEGV = 11"
definition SIGSTOP :: int where "SIGSTOP = 19"
definition SIGVTALRM :: int where "SIGVTALRM = 26"
definition SIGSYS :: int where "SIGSYS = 31"

text \<open>The column \<open>important\<close> of \<open>arch_sigs\<close>, before and after \<open>arch_traceSignalsInit\<close>.\<close>

definition arch_sigs :: "int \<Rightarrow> bool" where
  "arch_sigs sig \<longleftrightarrow> sig \<in> {SIGILL, SIGFPE, SIGSEGV, SIGBUS, SIGABRT, SIGSYS}"

definition arch_traceSignalsInit :: "crash_cfg \<Rightarrow> (int \<Rightarrow> bool) \<Rightarrow> int \<Rightarrow> bool" where
  "arch_traceSignalsInit c sigs =
     (let sigs = sigs(SIGVTALRM := cr_tmoutVTALRM c)
      in if san_enable (cr_san c)
         then sigs(SIGSEGV := False, SIGBUS := False, SIGILL := False, SIGFPE := False) else sigs)"

section \<open>The report\<close>

definition HF_REPORT_SIZE :: nat where "HF_REPORT_SIZE = 32768"

definition rep :: "byte list \<Rightarrow> byte list \<Rightarrow> byte list" where
  "rep txt r = snd (util_ssnprintf r HF_REPORT_SIZE txt)"

definition rep_frame :: "byte list \<Rightarrow> funcs_t \<Rightarrow> byte list" where
  "rep_frame r f =
     rep (str ''[func:'' @ f_func f @ str '' file:'' @ f_file f @ str '' line:'' @ dec_nat (unat (f_line f)) @
          str '' module:'' @ f_module f @ str '']'' @ [10])
       (rep (str '' <0x'' @ hex_fixed 16 (unat (f_pc f)) @ str ''> '') r)"

definition report_appendReport ::
  "int \<Rightarrow> byte list \<Rightarrow> path \<Rightarrow> u64 \<Rightarrow> funcs_t list \<Rightarrow> u64 \<Rightarrow> u64 \<Rightarrow> int \<Rightarrow> byte list \<Rightarrow> byte list \<Rightarrow> byte list \<Rightarrow> byte list" where
  "report_appendReport pid origName crashName bt funcs pc crashAddr signo instr descr r =
     foldl rep_frame
       (rep (str ''STACK:'' @ [10])
       (rep (str ''STACK HASH: '' @ hex_fixed 16 (unat bt) @ [10])
       (rep (str ''INSTRUCTION: '' @ instr @ [10])
       (rep (str ''FAULT ADDRESS: 0x'' @ hex_nat (unat crashAddr) @ [10])
       (rep (str ''PC: 0x'' @ hex_nat (unat pc) @ [10])
       (rep (str ''SIGNAL: '' @ util_sigName signo @ str '' ('' @ dec_int signo @ str '')'' @ [10])
       (rep (str ''PID: '' @ dec_int pid @ [10])
       (rep (str ''FUZZ_FNAME: '' @ crashName @ [10])
       (rep (str ''ORIG_FNAME: '' @ origName @ [10])
       (rep (str ''DESCRIPTION: '' @ descr @ [10])
       (rep (str ''CRASH:'' @ [10]) r))))))))))) funcs"

text \<open>
  \<open>report_saveReport\<close>: the report is appended to a file that is opened once; \<open>reportFD\<close> is its path
  while it is open. \<open>%p\<close> prints a null pointer as \<open>(nil)\<close>.
\<close>

record report_cfg =
  rc_reportFile :: "path option"
  rc_workDir :: path
  rc_localtm :: "byte list"
  rc_mutationsPerRun :: nat
  rc_externalCommand :: "byte list option"
  rc_fuzzStdin :: bool
  rc_tmOut :: int
  rc_ignoreAddr :: u64
  rc_asLimit :: u64
  rc_rssLimit :: u64
  rc_dataLimit :: u64
  rc_dictionaryFile :: "byte list option"
  rc_dynFileMethod :: u32
  rc_cmdline :: "byte list list"

definition report_printdynFileMethod :: "report_cfg \<Rightarrow> byte list" where
  "report_printdynFileMethod c =
     str '' dynFileMethod   : '' @
     (if rc_dynFileMethod c = 0 then str ''NONE'' @ [10]
      else (if rc_dynFileMethod c AND 1 \<noteq> 0 then str ''INSTR_COUNT '' else []) @
           (if rc_dynFileMethod c AND 2 \<noteq> 0 then str ''BRANCH_COUNT '' else []) @
           (if rc_dynFileMethod c AND 0x10 \<noteq> 0 then str ''BTS_EDGE_COUNT '' else []) @
           (if rc_dynFileMethod c AND 0x20 \<noteq> 0 then str ''IPT_BLOCK_COUNT '' else []) @ [10])"

definition report_printTargetCmd :: "report_cfg \<Rightarrow> byte list" where
  "report_printTargetCmd c = str '' fuzzTarget      : '' @ concat (map (\<lambda>a. a @ str '' '') (rc_cmdline c)) @ [10]"

definition report_rule :: "byte list" where
  "report_rule = replicate 69 61 @ [10]"

definition report_text :: "report_cfg \<Rightarrow> byte list \<Rightarrow> byte list" where
  "report_text c report =
     report_rule @ str ''TIME: '' @ rc_localtm c @ [10] @ report_rule @ str ''FUZZER ARGS:'' @ [10] @
     str '' mutationsPerRun : '' @ dec_nat (rc_mutationsPerRun c) @ [10] @
     str '' externalCmd     : '' @ (case rc_externalCommand c of None \<Rightarrow> str ''NULL'' | Some x \<Rightarrow> x) @ [10] @
     str '' fuzzStdin       : '' @ (if rc_fuzzStdin c then str ''TRUE'' else str ''FALSE'') @ [10] @
     str '' timeout         : '' @ dec_int (rc_tmOut c) @ str '' (sec)'' @ [10] @
     str '' ignoreAddr      : '' @ (if rc_ignoreAddr c = 0 then str ''(nil)'' else str ''0x'' @ hex_nat (unat (rc_ignoreAddr c))) @ [10] @
     str '' ASLimit         : '' @ dec_nat (unat (rc_asLimit c)) @ str '' (MiB)'' @ [10] @
     str '' RSSLimit        : '' @ dec_nat (unat (rc_rssLimit c)) @ str '' (MiB)'' @ [10] @
     str '' DATALimit       : '' @ dec_nat (unat (rc_dataLimit c)) @ str '' (MiB)'' @ [10] @
     str '' wordlistFile    : '' @ (case rc_dictionaryFile c of None \<Rightarrow> str ''NULL'' | Some x \<Rightarrow> x) @ [10] @
     report_printdynFileMethod c @ report_printTargetCmd c @ report @ report_rule"

definition report_saveReport :: "report_cfg \<Rightarrow> byte list \<Rightarrow> path option \<times> fs_t \<Rightarrow> fault + (path option \<times> fs_t)" where
  "report_saveReport c report = (\<lambda>(reportFD, fs).
     if report = [] then Inr (reportFD, fs)
     else
       let reportFName = (case rc_reportFile c of
             None \<Rightarrow> snprintf_cut PATH_MAX (rc_workDir c @ [47] @ str ''HONGGFUZZ.REPORT.TXT'')
           | Some f \<Rightarrow> snprintf_cut PATH_MAX f)
       in if reportFD = None \<and> fs_denied fs reportFName then Inl LogFatal
          else let p = (case reportFD of None \<Rightarrow> reportFName | Some p \<Rightarrow> p);
                   old = (case fs_files fs p of None \<Rightarrow> [] | Some t \<Rightarrow> t)
               in Inr (Some p, setFile p (Some (old @ report_text c report)) fs))"

section \<open>The call stack\<close>

record stack_t =
  s_cnt :: nat
  s_funcs :: "funcs_t list"
  s_pc :: u64
  s_addr :: u64
  s_descr :: "byte list"

definition crash_stack :: "crash_cfg \<Rightarrow> crash_ev \<Rightarrow> u64 \<Rightarrow> u64 \<Rightarrow> fs_t \<Rightarrow> fault + (stack_t \<times> fs_t)" where
  "crash_stack c e pc crashAddr fs =
     (case sanitizers_parseReport (cr_san c) (e_status e) (e_pid e) (replicate HF_MAX_FUNCS zero_func) pc crashAddr fs of
        Inl err \<Rightarrow> Inl err
      | Inr (n, s, fs) \<Rightarrow>
          let (n, funcs) = (if n = 0
                then (let (n, funcs) = arch_unwindStack (e_maps e) (e_steps e) (san_funcs s) in (n, e_resolve e n funcs))
                else (n, san_funcs s))
          in Inr (\<lparr>s_cnt = n, s_funcs = e_demangle e n funcs, s_pc = san_pc s, s_addr = san_crashAddr s,
                   s_descr = san_description s\<rparr>, fs))"

section \<open>A crash of the verifier\<close>

definition arch_traceAnalyzeData :: "crash_cfg \<Rightarrow> crash_ev \<Rightarrow> (crash_t, unit) hm" where
  "arch_traceAnalyzeData c e =
     (case e_pc e of
        None \<Rightarrow> ret ()
      | Some pc \<Rightarrow>
          bnd (gets (\<lambda>s. crash_stack c e pc 0 (cr_fs s))) (\<lambda>res.
          case res of
            Inl err \<Rightarrow> raise err
          | Inr (st, fs) \<Rightarrow>
              modify (fzC (\<lambda>s. (set_fs fs s)\<lparr>backtrace :=
                sanitizers_hashCallstack (san_enable (cr_san c)) (s_funcs st) (s_cnt st) False\<rparr>))))"

section \<open>A crash\<close>

definition SI_FROMUSER :: "crash_ev \<Rightarrow> bool" where
  "SI_FROMUSER e \<longleftrightarrow> e_code e \<le> 0"

definition HF_DYNFILE_SUB_MASK :: u64 where "HF_DYNFILE_SUB_MASK = 0xFFF"

text \<open>The crash is known or unwanted (\<open>None\<close>), or is saved, uniquely or not.\<close>

definition triage :: "crash_cfg \<Rightarrow> stack_t \<Rightarrow> (crash_t, bool option) pm" where
  "triage c st =
     pbnd (plift (gets (\<lambda>s. (crashFileName (cr_fz s), backtrace (cr_fz s))))) (\<lambda>(prev, oldBacktrace).
     let bt = sanitizers_hashCallstack (san_enable (cr_san c)) (s_funcs st) (s_cnt st) (cr_saveUnique c);
         saveUnique = (cr_saveUnique c \<and> s_cnt st \<noteq> 0)
     in pbnd (plift (modify (fzC (\<lambda>s. s\<lparr>backtrace := bt\<rparr>)))) (\<lambda>_.
        if prev \<noteq> [] \<and> oldBacktrace = bt then plift (ret None)
        else
          pbnd (plift (modify (fzC (\<lambda>s. s\<lparr>crashesCnt := sz_add (crashesCnt s) 1\<rparr>)))) (\<lambda>_.
          case cr_symsWl c of
            Some wl \<Rightarrow> plift (ret (Some (saveUnique \<and> arch_btContainsSymbol wl (take (s_cnt st) (s_funcs st)) = None)))
          | None \<Rightarrow>
              pbnd (plift (gets (\<lambda>s. feedback_blocklist (fz_hf (cr_fz s))))) (\<lambda>bl.
              pbnd (if bl = [] then plift (ret (- 1))
                    else (\<lambda>s. case fastArray64Search bl (length bl) bt of
                            None \<Rightarrow> None | Some (Inl err) \<Rightarrow> Some (Inl err) | Some (Inr i) \<Rightarrow> Some (Inr (i, s)))) (\<lambda>i.
              if i \<noteq> - 1 \<or> arch_btContainsSymbol (cr_symsBl c) (take (s_cnt st) (s_funcs st)) \<noteq> None
              then pbnd (plift (modify (\<lambda>s. s\<lparr>blCrashesCnt := sz_add (blCrashesCnt s) 1\<rparr>))) (\<lambda>_. plift (ret None))
              else plift (ret (Some saveUnique)))))))"

definition crash_name :: "crash_cfg \<Rightarrow> crash_ev \<Rightarrow> bool \<Rightarrow> u64 \<Rightarrow> u64 \<Rightarrow> fuzz_t \<Rightarrow> path" where
  "crash_name c e saveUnique pc crashAddr s =
     snprintf_cut PATH_MAX
       (if mutate_mutationsPerRun (fz_hf s) = 0 \<and> cr_useVerifier c
        then cr_crashDir c @ [47] @ d_path (dynfile (fz_run s))
        else cr_crashDir c @ [47] @ util_sigName (e_signo e) @ str ''.PC.'' @ hex_nat (unat pc) @ str ''.STACK.'' @
          hex_nat (unat (backtrace s)) @ str ''.CODE.'' @ dec_int (e_code e) @ str ''.ADDR.'' @ hex_nat (unat crashAddr) @
          str ''.INSTR.'' @ e_instr e @ [46] @
          (if saveUnique then [] else e_localtm e @ [46] @ dec_int (e_pid e) @ [46]) @ cr_fileExtn c)"

text \<open>
  What to do with a file that already has the name: nothing (\<open>None\<close>), or write with these flags
  (creating only, or over what is there), with the old file moved away first or not.
\<close>

definition new_only :: open_flags where
  "new_only = \<lparr>o_creat = True, o_excl = True, o_trunc = False\<rparr>"

definition over_old :: open_flags where
  "over_old = \<lparr>o_creat = True, o_excl = False, o_trunc = False\<rparr>"

definition move_away :: "path \<Rightarrow> path \<Rightarrow> bool \<Rightarrow> fs_t \<Rightarrow> fs_t" where
  "move_away p q ok fs = (if ok then setFile p None (setFile q (fs_files fs p) fs) else fs)"

definition make_room :: "crash_cfg \<Rightarrow> crash_ev \<Rightarrow> path \<Rightarrow> nat \<Rightarrow> fs_t \<Rightarrow> (open_flags \<times> fs_t) option" where
  "make_room c e name sz fs =
     (if \<not> files_exists fs name then Some (new_only, fs)
      else if \<not> cr_saveSmaller c then None
      else if (case fs_stat fs name of None \<Rightarrow> False | Some (_, len) \<Rightarrow> len \<le> sz) then None
      else let origFile = snprintf_cut PATH_MAX (name @ str ''.orig'')
           in if \<not> files_exists fs origFile then Some (new_only, move_away name origFile (e_rename e) fs)
              else Some (over_old, fs))"

definition save_crash :: "crash_cfg \<Rightarrow> crash_ev \<Rightarrow> stack_t \<Rightarrow> bool \<Rightarrow> (crash_t, unit) pm" where
  "save_crash c e st saveUnique =
     pbnd (plift (modify (\<lambda>s. s\<lparr>dynFileIterExpire := dynFileIterExpire s + HF_DYNFILE_SUB_MASK\<rparr>))) (\<lambda>_.
     let pc = (if cr_disableRandomization c then s_pc st else 0);
         crashAddr = (if cr_disableRandomization c then s_addr st else 0);
         crashAddr = (if e_signo e = SIGABRT then 0 else crashAddr)
     in pbnd (plift (gets (\<lambda>s. crash_name c e saveUnique pc crashAddr (cr_fz s)))) (\<lambda>name.
        pbnd (plift (modify (fzC (\<lambda>s. s\<lparr>crashFileName := name\<rparr>)))) (\<lambda>_.
        pbnd (plift (gets (\<lambda>s. (cr_fs s, dynfile (fz_run (cr_fz s)))))) (\<lambda>(fs, df).
        case make_room c e name (d_size df) fs of
          None \<Rightarrow> plift (modify (fzC (\<lambda>s. s\<lparr>crashFileName := []\<rparr>)))
        | Some (fl, fs) \<Rightarrow>
            (\<lambda>s. case files_writeBufToFile (e_io e) name (take (d_size df) (d_data df)) fl fs of
               None \<Rightarrow> None
             | Some (ok, fs) \<Rightarrow>
                 let s = fzC (set_fs fs) s
                 in if \<not> ok then Some (Inr ((), s))
                    else Some (Inr ((), fzC (\<lambda>f. f\<lparr>fz_ses := (fz_ses f)\<lparr>uniqueCrashesCnt := uniqueCrashesCnt (fz_ses f) + 1\<rparr>,
                      run_report := report_appendReport (e_pid e) (d_path df) name (backtrace f) (take (s_cnt st) (s_funcs st))
                        pc crashAddr (e_signo e) (e_instr e) (s_descr st) (run_report f)\<rparr>) (s\<lparr>dynFileIterExpire := 0\<rparr>))))))))"

definition arch_traceSaveData :: "crash_cfg \<Rightarrow> crash_ev \<Rightarrow> (crash_t, unit) pm" where
  "arch_traceSaveData c e =
     (case e_pc e of
        None \<Rightarrow> plift (ret ())
      | Some pc \<Rightarrow>
          let crashAddr = (if SI_FROMUSER e then 0 else e_addr e)
          in pbnd (plift (gets (\<lambda>s. crash_stack c e pc crashAddr (cr_fs s)))) (\<lambda>res.
             case res of
               Inl err \<Rightarrow> plift (raise err)
             | Inr (st, fs) \<Rightarrow>
                 pbnd (plift (modify (fzC (set_fs fs)))) (\<lambda>_.
                 if \<not> SI_FROMUSER e \<and> s_pc st \<noteq> 0 \<and> s_addr st < cr_ignoreAddr c then plift (ret ())
                 else pbnd (triage c st) (\<lambda>keep.
                   case keep of None \<Rightarrow> plift (ret ()) | Some uniq \<Rightarrow> save_crash c e st uniq))))"

text \<open>
  \<open>arch_traceAnalyze\<close> for a process that changed its status (\<open>sigs\<close>: the important signals, \<open>e\<close>: what
  a stopped process holds). The result is the signal with which it goes on, if it was stopped.
  \<open>arch_traceEvent\<close> writes messages and lets the process go on, unless it cannot read the message
  of an exit (event 6). \<open>abort\<close> ends the process like a fatal error.
\<close>

definition arch_traceEvent :: "u32 \<Rightarrow> crash_ev \<Rightarrow> (crash_t, int option) pm" where
  "arch_traceEvent st e = plift (ret (if WPTRACEEVENT st = 6 \<and> \<not> e_eventmsg e then None else Some 0))"

definition arch_traceAnalyze :: "crash_cfg \<Rightarrow> (int \<Rightarrow> bool) \<Rightarrow> u32 \<Rightarrow> crash_ev \<Rightarrow> (crash_t, int option) pm" where
  "arch_traceAnalyze c sigs st e =
     (if WIFSTOPPED st \<and> WPTRACEEVENT st \<noteq> 0 then arch_traceEvent st e
      else if WIFSTOPPED st then
        pbnd (plift (gets (\<lambda>s. mainWorker (cr_fz s)))) (\<lambda>main.
        pbnd (if \<not> sigs (int (WSTOPSIG st)) then plift (ret ())
              else if main then arch_traceSaveData c e else plift (arch_traceAnalyzeData c e)) (\<lambda>_.
        plift (ret (Some (if int (WSTOPSIG st) \<noteq> SIGSTOP then int (WSTOPSIG st) else 0)))))
      else if WIFCONTINUED st \<or> WIFEXITED st \<or> WIFSIGNALED st then plift (ret None)
      else plift (raise LogFatal))"

end
