(* ===== verification/HF_Crash_Props.thy ===== *)
theory HF_Crash_Props
  imports HF_Crash HF_Sanitizers_Props HF_Fuzz_Props
begin

text \<open>
  What happens to the files and the counters when the target crashes, and what the verifier makes of
  a crash with a single frame.
\<close>

section \<open>Steps\<close>

lemma pbnd_gets: "pbnd (plift (gets f)) g s = g (f s) s"
  by (simp add: pbnd_def plift_def gets_def)

lemma pbnd_modify: "pbnd (plift (modify f)) g s = g () (f s)"
  by (simp add: pbnd_def plift_def modify_def)

lemma plift_modify: "plift (modify f) s = Some (Inr ((), f s))"
  by (simp add: plift_def modify_def)

lemma plift_ret: "plift (ret x) s = Some (Inr (x, s))"
  by (simp add: plift_def ret_def)

lemma plift_raise: "plift (raise err) s = Some (Inl err)"
  by (simp add: plift_def raise_def)

lemma pbnd_ret: "pbnd (plift (ret x)) g s = g x s"
  by (simp add: pbnd_def plift_def ret_def)

lemmas pm_steps = pbnd_ret pbnd_gets pbnd_modify plift_modify plift_ret plift_raise

lemma fs_set_fs [simp]: "io_fs (fz_hf (set_fs fs s)) = fs" "dynfile (fz_run (set_fs fs s)) = dynfile (fz_run s)"
  "crashFileName (set_fs fs s) = crashFileName s" "uniqueCrashesCnt (fz_ses (set_fs fs s)) = uniqueCrashesCnt (fz_ses s)"
  "backtrace (set_fs fs s) = backtrace s"
  by (simp_all add: set_fs_def put_run_def fz_run_def fz_hf_def)

lemma fz_updates [simp]:
  "fz_hf (s\<lparr>crashFileName := n\<rparr>) = fz_hf s" "fz_run (s\<lparr>crashFileName := n\<rparr>) = fz_run s"
  "fz_hf (s\<lparr>backtrace := b\<rparr>) = fz_hf s" "fz_run (s\<lparr>backtrace := b\<rparr>) = fz_run s"
  "fz_hf (s\<lparr>crashesCnt := k\<rparr>) = fz_hf s" "fz_run (s\<lparr>crashesCnt := k\<rparr>) = fz_run s"
  by (simp_all add: fz_hf_def fz_run_def)

lemma fz_ses_update [simp]:
  "fz_hf (s\<lparr>fz_ses := (fz_ses s)\<lparr>uniqueCrashesCnt := k\<rparr>, run_report := r\<rparr>) = fz_hf s"
  by (simp add: fz_hf_def fz_run_def)

section \<open>Files\<close>

definition cr_files :: "crash_t \<Rightarrow> path \<Rightarrow> byte list option" where
  "cr_files s = fs_files (cr_fs s)"

definition cr_unique :: "crash_t \<Rightarrow> u64" where
  "cr_unique s = uniqueCrashesCnt (fz_ses (cr_fz s))"

definition cr_input :: "crash_t \<Rightarrow> byte list" where
  "cr_input s = (let df = dynfile (fz_run (cr_fz s)) in take (d_size df) (d_data df))"

text \<open>The name under which \<open>save_crash\<close> saves.\<close>

definition saved_name :: "crash_cfg \<Rightarrow> crash_ev \<Rightarrow> stack_t \<Rightarrow> bool \<Rightarrow> crash_t \<Rightarrow> path" where
  "saved_name c e st uniq s =
     crash_name c e uniq (if cr_disableRandomization c then s_pc st else 0)
       (if e_signo e = SIGABRT then 0 else if cr_disableRandomization c then s_addr st else 0) (cr_fz s)"

definition kept :: "crash_t \<Rightarrow> crash_t \<Rightarrow> bool" where
  "kept s s' \<longleftrightarrow> cr_files s' = cr_files s \<and> cr_unique s' = cr_unique s"

definition saved_new :: "path \<Rightarrow> crash_t \<Rightarrow> crash_t \<Rightarrow> bool" where
  "saved_new name s s' \<longleftrightarrow> cr_files s name = None \<and> cr_files s' = (cr_files s)(name \<mapsto> cr_input s) \<and> cr_unique s' = cr_unique s + 1"

text \<open>What writing does to the files.\<close>

lemma write_loop_written:
  assumes "write_loop ev i w buf = Some r"
  shows "fst r \<longrightarrow> snd r = w @ buf"
proof (induction ev i w buf r rule: write_loop.raw_induct [case_names step run])
  case run
  show ?case by (rule assms)
next
  case (step wl ev i w buf r)
  show ?case
  proof (cases "ev i")
    case (IoPart k)
    then show ?thesis using step.hyps step.IH [of ev "i + 1" "w @ take k buf" "drop k buf" r] by (auto split: if_splits)
  qed (use step.hyps in \<open>auto split: if_splits\<close>)
qed

lemma writeBuf_new:
  assumes "files_writeBufToFile ev name buf new_only fs = Some (ok, fs')" and "fs_files fs name = None"
  shows "fs_files fs' = (if ok then (fs_files fs)(name \<mapsto> buf) else fs_files fs)"
  using assms write_loop_written [of ev 0 "[]" buf]
  by (fastforce simp: files_writeBufToFile_def open_write_def new_only_def files_writeToFd_def overlay_def setFile_def
      split: if_splits option.splits)

lemma make_room_kept:
  "\<not> cr_saveSmaller c \<Longrightarrow> make_room c e name sz fs = Some (fl, fs') \<Longrightarrow> fl = new_only \<and> fs' = fs \<and> fs_files fs name = None"
  by (auto simp: make_room_def files_exists_def fs_stat_def split: if_splits option.splits)

text \<open>\<open>save_crash\<close> in one equation, over the state with the name set.\<close>

definition named :: "path \<Rightarrow> crash_t \<Rightarrow> crash_t" where
  "named name s = fzC (\<lambda>f. f\<lparr>crashFileName := name\<rparr>) (s\<lparr>dynFileIterExpire := dynFileIterExpire s + HF_DYNFILE_SUB_MASK\<rparr>)"

lemma named_simps [simp]:
  "cr_fs (named n s) = cr_fs s" "cr_files (named n s) = cr_files s" "cr_unique (named n s) = cr_unique s" "cr_input (named n s) = cr_input s"
  "dynfile (fz_run (cr_fz (named n s))) = dynfile (fz_run (cr_fz s))"
  by (simp_all add: named_def fzC_def cr_fs_def cr_files_def cr_unique_def cr_input_def)

definition written :: "crash_cfg \<Rightarrow> crash_ev \<Rightarrow> stack_t \<Rightarrow> path \<Rightarrow> fs_t \<Rightarrow> crash_t \<Rightarrow> crash_t" where
  "written c e st name fs s =
     fzC (\<lambda>f. f\<lparr>fz_ses := (fz_ses f)\<lparr>uniqueCrashesCnt := uniqueCrashesCnt (fz_ses f) + 1\<rparr>,
       run_report := report_appendReport (e_pid e) (d_path (dynfile (fz_run (cr_fz s)))) name (backtrace f) (take (s_cnt st) (s_funcs st))
         (if cr_disableRandomization c then s_pc st else 0)
         (if e_signo e = SIGABRT then 0 else if cr_disableRandomization c then s_addr st else 0)
         (e_signo e) (e_instr e) (s_descr st) (run_report f)\<rparr>) ((fzC (set_fs fs) s)\<lparr>dynFileIterExpire := 0\<rparr>)"

lemma written_simps [simp]:
  "cr_fs (written c e st name fs s) = fs" "cr_unique (written c e st name fs s) = cr_unique s + 1"
  "crashFileName (cr_fz (written c e st name fs s)) = crashFileName (cr_fz s)" "dynFileIterExpire (written c e st name fs s) = 0"
  by (simp_all add: written_def fzC_def cr_fs_def cr_unique_def)

lemma save_crash_eq:
  "save_crash c e st uniq s =
     (let name = saved_name c e st uniq s; s1 = named name s; df = dynfile (fz_run (cr_fz s))
      in case make_room c e name (d_size df) (cr_fs s) of
           None \<Rightarrow> Some (Inr ((), named [] s))
         | Some (fl, fs) \<Rightarrow>
             (case files_writeBufToFile (e_io e) name (cr_input s) fl fs of
                None \<Rightarrow> None
              | Some (ok, fs) \<Rightarrow> Some (Inr ((), if ok then written c e st name fs s1 else fzC (set_fs fs) s1))))"
  by (simp add: save_crash_def pm_steps Let_def saved_name_def named_def written_def fzC_def cr_input_def cr_fs_def
      split: option.split)

lemma set_fs_simps [simp]:
  "cr_fs (fzC (set_fs fs) s) = fs" "cr_unique (fzC (set_fs fs) s) = cr_unique s" "cr_input (fzC (set_fs fs) s) = cr_input s"
  "crashFileName (cr_fz (fzC (set_fs fs) s)) = crashFileName (cr_fz s)"
  by (simp_all add: fzC_def cr_fs_def cr_unique_def cr_input_def)

lemma save_crash_cases:
  assumes run: "save_crash c e st uniq s = Some r" and sm: "\<not> cr_saveSmaller c"
  shows "\<exists>s'. r = Inr ((), s') \<and> (kept s s' \<or> saved_new (saved_name c e st uniq s) s s')"
proof -
  define name where "name = saved_name c e st uniq s"
  consider (known) "r = Inr ((), named [] s)"
    | (new) ok fs where "files_writeBufToFile (e_io e) name (cr_input s) new_only (cr_fs s) = Some (ok, fs)"
        and "fs_files (cr_fs s) name = None"
        and "r = Inr ((), if ok then written c e st name fs (named name s) else fzC (set_fs fs) (named name s))"
    using run unfolding save_crash_eq Let_def name_def [symmetric]
    by (auto dest!: make_room_kept [OF sm] split: option.splits)
  then show ?thesis
  proof cases
    case known
    then show ?thesis by (simp add: kept_def)
  next
    case new
    then show ?thesis using writeBuf_new [OF new(1,2)] by (auto simp: kept_def saved_new_def cr_files_def name_def [symmetric])
  qed
qed

section \<open>The whole handler\<close>

text \<open>\<open>triage\<close> leaves the files and the count of saved crashes alone, whatever it decides.\<close>

lemma triage_kept:
  assumes "triage c st s = Some (Inr (keep, s'))"
  shows "kept s s' \<and> cr_input s' = cr_input s"
  using assms
  by (auto simp: triage_def Let_def pbnd_def plift_def gets_def modify_def ret_def kept_def fzC_def cr_files_def cr_fs_def cr_unique_def
      cr_input_def split: prod.splits if_splits option.splits sum.splits)

lemma crash_stack_files:
  assumes "crash_stack c e pc a fs = Inr (st, fs')"
  shows "fs_files fs' \<in> {fs_files fs, (fs_files fs)(report_path (cr_san c) (sanitizers_PidForTid (e_pid e) (e_status e)) := None)}"
  using assms
  by (auto simp: crash_stack_def sanitizers_parseReport_def Let_def setFile_def
      split: sum.splits option.splits if_splits prod.splits)

lemma kept_trans: "kept s t \<Longrightarrow> kept t u \<Longrightarrow> kept s u"
  by (simp add: kept_def)

lemma saved_new_after: "kept s t \<Longrightarrow> cr_input t = cr_input s \<Longrightarrow> saved_new n t u \<Longrightarrow> saved_new n s u"
  by (simp add: kept_def saved_new_def)

lemma decided_cases:
  assumes "pbnd (triage c st) (\<lambda>keep. case keep of None \<Rightarrow> plift (ret ()) | Some uniq \<Rightarrow> save_crash c e st uniq) s = Some (Inr (u, s'))"
    and "\<not> cr_saveSmaller c"
  shows "kept s s' \<or> (\<exists>n. saved_new n s s')"
proof -
  obtain keep t where t: "triage c st s = Some (Inr (keep, t))"
    and go_on: "(case keep of None \<Rightarrow> plift (ret ()) | Some uniq \<Rightarrow> save_crash c e st uniq) t = Some (Inr (u, s'))"
    using assms(1) by (auto simp: pbnd_def split: option.splits sum.splits)
  note k = triage_kept [OF t]
  show ?thesis
  proof (cases keep)
    case None
    then show ?thesis using k go_on by (simp add: pm_steps)
  next
    case (Some uniq)
    then have "kept t s' \<or> saved_new (saved_name c e st uniq t) t s'" using save_crash_cases [OF _ assms(2)] go_on by fastforce
    then show ?thesis using k kept_trans saved_new_after by blast
  qed
qed

lemma make_room_smaller:
  assumes "cr_saveSmaller c" and "cr_files s name = Some old" and "sz < length old"
  shows "make_room c e name sz (cr_fs s) =
    (let orig = snprintf_cut PATH_MAX (name @ str ''.orig'')
     in if files_exists (cr_fs s) orig then Some (over_old, cr_fs s) else Some (new_only, move_away name orig (e_rename e) (cr_fs s)))"
proof -
  have "fs_stat (cr_fs s) name = Some (True, length old)" using assms(2) by (simp add: fs_stat_def cr_files_def)
  then show ?thesis using assms by (simp add: make_room_def files_exists_def Let_def)
qed

lemma writes_all:
  assumes "\<forall>j. \<exists>k. ev j = IoPart (Suc k)" and "open_write fs p fl = Some old"
  shows "files_writeBufToFile ev p buf fl fs = Some (True, setFile p (Some (overlay buf old)) fs)"
  using write_loop_all [OF assms(1), of 0 "[]" buf] assms(2) by (simp add: files_writeBufToFile_def files_writeToFd_def)

section \<open>A concrete crash\<close>

definition demo_crash_cfg :: "bool \<Rightarrow> crash_cfg" where
  "demo_crash_cfg smaller = \<lparr>cr_san = demo_san, cr_saveUnique = True, cr_saveSmaller = smaller, cr_crashDir = str ''/c'', cr_fileExtn = str ''fuzz'',
     cr_ignoreAddr = 0, cr_disableRandomization = True, cr_symsWl = None, cr_symsBl = [], cr_useVerifier = True, cr_tmoutVTALRM = False\<rparr>"

definition demo_event :: crash_ev where
  "demo_event = \<lparr>e_pid = 7, e_signo = SIGSEGV, e_code = 1, e_addr = 16, e_pc = Some 0x1123, e_status = None, e_maps = [],
     e_steps = [(Some 0x1123, 0)], e_resolve = (\<lambda>_ fs. fs), e_demangle = (\<lambda>_ fs. fs), e_instr = str ''nop'', e_localtm = [],
     e_io = (\<lambda>_. IoPart 1), e_rename = True, e_eventmsg = True\<rparr>"

definition demo_stack :: stack_t where
  "demo_stack = \<lparr>s_cnt = 1, s_funcs = snd (arch_unwindStack [] [(Some 0x1123, 0)] (replicate HF_MAX_FUNCS zero_func)), s_pc = 0x1123,
     s_addr = 0, s_descr = []\<rparr>"

text \<open>A dry run of an input with the name \<open>in\<close> and the bytes 1 and 2, over these files.\<close>

definition demo_crash :: "(path \<rightharpoonup> byte list) \<Rightarrow> crash_t" where
  "demo_crash F = \<lparr>cr_fz = demo_thread ((demo_run [1, 2])\<lparr>global := demo_global\<lparr>mutate_mutationsPerRun := 0, io_fs := demo_fs\<lparr>fs_files := F\<rparr>\<rparr>,
     dynfile := (demo_file [1, 2])\<lparr>d_path := str ''in''\<rparr>\<rparr>), blCrashesCnt = 0, dynFileIterExpire = 0\<rparr>"

lemma demo_crash_simps [simp]:
  "cr_fs (demo_crash F) = demo_fs\<lparr>fs_files := F\<rparr>" "cr_files (demo_crash F) = F" "cr_input (demo_crash F) = [1, 2]"
  "d_size (dynfile (fz_run (cr_fz (demo_crash F)))) = 2" "cr_unique (demo_crash F) = 0"
  by (simp_all add: demo_crash_def demo_thread_def cr_fs_def cr_files_def cr_input_def cr_unique_def fz_hf_def fz_run_def demo_run_def
      demo_file_def demo_session_def)

lemma demo_name [simp]: "saved_name (demo_crash_cfg b) demo_event st uniq (demo_crash F) = str ''/c/in''"
  by (simp add: saved_name_def crash_name_def demo_crash_cfg_def demo_crash_def demo_thread_def fz_hf_def fz_run_def demo_run_def
      demo_file_def demo_session_def demo_global_def snprintf_cut_def PATH_MAX_def str_def)

lemma demo_io: "\<forall>j. \<exists>k. e_io demo_event j = IoPart (Suc k)"
  by (simp add: demo_event_def)

lemma demo_stack_at: "crash_stack (demo_crash_cfg b) demo_event 0x1123 a (cr_fs (demo_crash Map.empty)) =
    Inr (demo_stack\<lparr>s_addr := a\<rparr>, cr_fs (demo_crash Map.empty))"
  by (simp add: crash_stack_def sanitizers_parseReport_def fs_open_def demo_fs_def demo_event_def demo_stack_def arch_unwindStack_def
      HF_MAX_FUNCS_def del: replicate.simps)

lemma demo_stack_ok: "crash_stack (demo_crash_cfg b) demo_event 0x1123 0 (cr_fs (demo_crash Map.empty)) = Inr (demo_stack, cr_fs (demo_crash Map.empty))"
  using demo_stack_at [of b 0] by (simp add: demo_stack_def)

lemma no_symbols: "arch_btContainsSymbol [] fs = None"
  by (induction fs) auto

definition demo_crashed :: crash_t where
  "demo_crashed = fzC (\<lambda>f. f\<lparr>backtrace := sanitizers_hashCallstack True (s_funcs demo_stack) 1 True, crashesCnt := 1\<rparr>) (demo_crash Map.empty)"

lemma demo_triage: "triage (demo_crash_cfg b) (demo_stack\<lparr>s_addr := a\<rparr>) (demo_crash Map.empty) = Some (Inr (Some True, demo_crashed))"
  by (simp add: triage_def pm_steps Let_def demo_crashed_def demo_crash_cfg_def demo_san_def demo_stack_def fzC_def no_symbols
      demo_crash_def demo_thread_def fz_hf_def fz_run_def demo_run_def demo_global_def demo_session_def sz_add_def)

lemma demo_handler:
  "arch_traceSaveData (demo_crash_cfg b) demo_event (demo_crash Map.empty) = save_crash (demo_crash_cfg b) demo_event (demo_stack\<lparr>s_addr := 16\<rparr>) True demo_crashed"
proof -
  have ev: "e_pc demo_event = Some 0x1123" "\<not> SI_FROMUSER demo_event" "e_addr demo_event = 16" "cr_ignoreAddr (demo_crash_cfg b) = 0"
    by (simp_all add: demo_event_def SI_FROMUSER_def demo_crash_cfg_def)
  have same: "fzC (set_fs (cr_fs (demo_crash F))) (demo_crash F) = demo_crash F" for F
    by (simp add: fzC_def set_fs_def put_run_def fz_run_def fz_hf_def cr_fs_def demo_crash_def demo_thread_def demo_run_def demo_session_def)
  show ?thesis
    unfolding arch_traceSaveData_def ev option.case Let_def if_not_P [OF ev(2)] pbnd_gets demo_stack_at sum.case prod.case pbnd_modify same
    by (simp add: ev pbnd_def demo_triage del: demo_crash_simps)
qed

lemma demo_saved: "\<exists>s'. save_crash (demo_crash_cfg b) demo_event st u demo_crashed = Some (Inr ((), s')) \<and>
    cr_files s' = [str ''/c/in'' \<mapsto> [1, 2]]"
proof -
  have nm: "saved_name (demo_crash_cfg b) demo_event st u demo_crashed = str ''/c/in''" "cr_fs demo_crashed = cr_fs (demo_crash Map.empty)"
    using demo_name [of b st u Map.empty]
    by (simp_all add: demo_crashed_def saved_name_def crash_name_def fzC_def demo_crash_def fz_hf_def fz_run_def demo_crash_cfg_def cr_fs_def
        demo_thread_def demo_run_def demo_global_def demo_session_def)
  have inp: "cr_input demo_crashed = [1, 2]"
    using demo_crash_simps(3) [of Map.empty] by (simp add: demo_crashed_def cr_input_def fzC_def fz_run_def del: demo_crash_simps)
  have "open_write (cr_fs demo_crashed) (str ''/c/in'') new_only = Some []" by (simp add: nm open_write_def new_only_def demo_fs_def)
  from writes_all [OF demo_io this] show ?thesis
    by (simp add: save_crash_eq nm make_room_def files_exists_def fs_stat_def demo_fs_def Let_def cr_files_def [of demo_crashed])
      (simp add: cr_files_def overlay_def setFile_def inp)
qed

section \<open>Properties\<close>






text \<open>When smaller inputs replace larger ones, the first input that was saved is never lost: the
  first smaller crash moves it to the name with \<open>.orig\<close> and takes its place.\<close>

theorem save_crash_smaller:
  assumes name: "name = saved_name c e st uniq s" and on: "orig = snprintf_cut PATH_MAX (saved_name c e st uniq s @ str ''.orig'')"
    and io: "\<forall>j. \<exists>k. e_io e j = IoPart (Suc k)" and "cr_saveSmaller c" and "\<not> fs_denied (cr_fs s) name" and "e_rename e"
    and old: "cr_files s name = Some old" "d_size (dynfile (fz_run (cr_fz s))) < length old"
    and orig: "\<not> files_exists (cr_fs s) orig" "orig \<noteq> name"
  shows "\<exists>s'. save_crash c e st uniq s = Some (Inr ((), s')) \<and> cr_files s' = (cr_files s)(orig \<mapsto> old, name \<mapsto> cr_input s) \<and>
    cr_unique s' = cr_unique s + 1"
proof -
  define fs where "fs = move_away name orig True (cr_fs s)"
  have room: "make_room c e name (d_size (dynfile (fz_run (cr_fz s)))) (cr_fs s) = Some (new_only, fs)"
    using make_room_smaller [OF assms(4) old] orig(1) assms(6) by (simp add: fs_def on name Let_def)
  have "fs_files fs = (cr_files s)(orig \<mapsto> old, name := None)" "fs_denied fs = fs_denied (cr_fs s)"
    using old(1) by (simp_all add: fs_def move_away_def setFile_def cr_files_def)
  moreover from this have "open_write fs name new_only = Some []" using assms(5) by (simp add: open_write_def new_only_def)
  ultimately show ?thesis
    using writes_all [OF io, of fs name new_only "[]"] room
    by (simp add: save_crash_eq name [symmetric] Let_def cr_files_def overlay_def setFile_def)
qed

theorem save_crash_smaller_witness:
  "\<exists>s'. save_crash (demo_crash_cfg True) demo_event demo_stack True (demo_crash [str ''/c/in'' \<mapsto> [5, 6, 7]]) = Some (Inr ((), s')) \<and>
    cr_files s' = [str ''/c/in'' \<mapsto> [1, 2], str ''/c/in.orig'' \<mapsto> [5, 6, 7]]"
proof -
  have orig: "str ''/c/in.orig'' = snprintf_cut PATH_MAX (str ''/c/in'' @ str ''.orig'')" "str ''/c/in.orig'' \<noteq> str ''/c/in''"
    by (simp_all add: snprintf_cut_def PATH_MAX_def str_def)
  have "cr_saveSmaller (demo_crash_cfg True)" "e_rename demo_event" by (simp_all add: demo_crash_cfg_def demo_event_def)
  then show ?thesis
    using save_crash_smaller [of "str ''/c/in''" "demo_crash_cfg True" demo_event demo_stack True "demo_crash [str ''/c/in'' \<mapsto> [5, 6, 7]]"
      "str ''/c/in.orig''" "[5, 6, 7]", OF _ _ demo_io] orig
    by (auto simp: demo_fs_def files_exists_def fs_stat_def fun_upd_twist)
qed

text \<open>C40: a later smaller crash does not replace the file: it is opened without truncation, so that the
  new input is followed by the end of the old one, and the saved file is not the input that
  crashed.\<close>

theorem save_crash_smaller_keeps_tail:
  assumes name: "name = saved_name c e st uniq s" and on: "orig = snprintf_cut PATH_MAX (saved_name c e st uniq s @ str ''.orig'')"
    and io: "\<forall>j. \<exists>k. e_io e j = IoPart (Suc k)" and "cr_saveSmaller c" and "\<not> fs_denied (cr_fs s) name"
    and old: "cr_files s name = Some old" "d_size (dynfile (fz_run (cr_fz s))) < length old" and "files_exists (cr_fs s) orig"
  shows "\<exists>s'. save_crash c e st uniq s = Some (Inr ((), s')) \<and>
    cr_files s' name = Some (cr_input s @ drop (length (cr_input s)) old) \<and> cr_files s' name \<noteq> Some (cr_input s)"
proof -
  have room: "make_room c e name (d_size (dynfile (fz_run (cr_fz s)))) (cr_fs s) = Some (over_old, cr_fs s)"
    using make_room_smaller [OF assms(4) old] assms(8) by (simp add: on name Let_def)
  have "length (cr_input s) < length old" using old(2) by (simp add: cr_input_def Let_def min_def)
  moreover have "open_write (cr_fs s) name over_old = Some old"
    using assms(5) old(1) by (simp add: open_write_def over_old_def cr_files_def)
  ultimately show ?thesis
    using writes_all [OF io, of "cr_fs s" name over_old old] room
    by (simp add: save_crash_eq name [symmetric] Let_def cr_files_def overlay_def setFile_def)
qed


theorem save_crash_smaller_keeps_tail_witness:
  "\<exists>s'. save_crash (demo_crash_cfg True) demo_event demo_stack True
      (demo_crash [str ''/c/in'' \<mapsto> [5, 6, 7], str ''/c/in.orig'' \<mapsto> []]) = Some (Inr ((), s')) \<and>
    cr_files s' (str ''/c/in'') = Some [1, 2, 7]"
proof -
  have orig: "str ''/c/in.orig'' = snprintf_cut PATH_MAX (str ''/c/in'' @ str ''.orig'')" "str ''/c/in.orig'' \<noteq> str ''/c/in''"
    by (simp_all add: snprintf_cut_def PATH_MAX_def str_def)
  have "cr_saveSmaller (demo_crash_cfg True)" by (simp add: demo_crash_cfg_def)
  then show ?thesis
    using save_crash_smaller_keeps_tail [of "str ''/c/in''" "demo_crash_cfg True" demo_event demo_stack True
      "demo_crash [str ''/c/in'' \<mapsto> [5, 6, 7], str ''/c/in.orig'' \<mapsto> []]" "str ''/c/in.orig''" "[5, 6, 7]", OF _ _ demo_io] orig
    by (auto simp: demo_fs_def files_exists_def fs_stat_def)
qed

section \<open>Single frames\<close>

lemma hm_steps:
  "bnd (modify f) g s = g () (f s)" "bnd (gets h) k s = k (h s) s" "bnd (modR r) m t = m () (put_run (r (fz_run t)) t)"
  "bnd (check err ok) g s = (if ok then g () s else Inl err)" "ret x s = Inr (x, s)"
  by (simp_all add: bnd_def modify_def gets_def modR_def runM_def zoom_def check_def ret_def raise_def)

lemma bnd_stop: "m s = Inl err \<Longrightarrow> bnd m k s = Inl err"
  by (simp add: bnd_def)

lemma bnd_next: "m s = Inr (x, t) \<Longrightarrow> bnd m k s = k x t"
  by (simp add: bnd_def)

lemma verify_loop_differs:
  assumes again: "\<forall>t ok t'. c_subproc_Run c t = Inr (ok, t') \<longrightarrow> backtrace t' \<noteq> bt \<and> verifiedCrashesCnt t' = verifiedCrashesCnt t"
    and run: "verify_loop c bt (Suc n) s = Inr (same, s')"
  shows "\<not> same \<and> verifiedCrashesCnt s' = verifiedCrashesCnt s"
proof -
  define t where "t = (put_run ((fz_run s)\<lparr>timeStartedUSecs := nowUSecs (fz_run s)\<rparr>) s)
    \<lparr>backtrace := 0, run_access := 0, run_exception := 0, mainWorker := False\<rparr>"
  obtain ok t' where t': "c_subproc_Run c t = Inr (ok, t')"
    and rest: "bnd (check LogFatal ok) (\<lambda>_. bnd (gets backtrace) (\<lambda>b. if b \<noteq> bt
        then bnd (modify (\<lambda>s. s\<lparr>backtrace := bt\<rparr>)) (\<lambda>_. ret False) else verify_loop c bt n)) t' = Inr (same, s')"
    using run by (cases "c_subproc_Run c t") (auto simp: hm_steps t_def [symmetric] bnd_def [of "c_subproc_Run c"])
  have "verifiedCrashesCnt t = verifiedCrashesCnt s" by (simp add: t_def put_run_def)
  then show ?thesis using again t' rest
    by (cases ok) (auto simp: hm_steps)
qed

text \<open>The hash stored for a crash, and for its repetition by the verifier.\<close>

lemma triage_backtrace:
  assumes "triage c st s = Some (Inr (keep, s'))"
  shows "backtrace (cr_fz s') = sanitizers_hashCallstack (san_enable (cr_san c)) (s_funcs st) (s_cnt st) (cr_saveUnique c)"
  using assms
  by (auto simp: triage_def Let_def pbnd_def plift_def gets_def modify_def ret_def fzC_def split: prod.splits if_splits option.splits sum.splits)

lemma analyze_backtrace:
  assumes "arch_traceAnalyzeData c e s = Inr ((), s')" and "e_pc e = Some pc" and "crash_stack c e pc 0 (cr_fs s) = Inr (st, fs)"
  shows "backtrace (cr_fz s') = sanitizers_hashCallstack (san_enable (cr_san c)) (s_funcs st) (s_cnt st) False"
  using assms by (auto simp: arch_traceAnalyzeData_def bnd_def gets_def modify_def fzC_def)

text \<open>C39: a crash with a single frame is never verified when crashes are to be unique. The handler of a
  crash marks the hash of such a stack and the handler of the verifier does not, so that the
  hashes differ even when every repetition crashes with the same stack: the count of verified
  crashes stays as it is.\<close>

theorem single_frame_never_verified:
  assumes "triage cc st s0 = Some (Inr (keep, s1))" and "cr_saveUnique cc" and "s_cnt st = 1"
    and "backtrace f = backtrace (cr_fz s1)"
    and again: "\<forall>t ok t'. c_subproc_Run c t = Inr (ok, t') \<longrightarrow> verifiedCrashesCnt t' = verifiedCrashesCnt t \<and>
      (\<exists>e pc t1 t2 fs. e_pc e = Some pc \<and> crash_stack cc e pc 0 (cr_fs t1) = Inr (st, fs) \<and>
        arch_traceAnalyzeData cc e t1 = Inr ((), t2) \<and> backtrace t' = backtrace (cr_fz t2))"
    and run: "fuzz_runVerifier c f = Inr (b, f')"
  shows "verifiedCrashesCnt f' = verifiedCrashesCnt f"
proof -
  have bt: "backtrace f = sanitizers_hashCallstack (san_enable (cr_san cc)) (s_funcs st) 1 True"
    using triage_backtrace [OF assms(1)] assms(2-4) by simp
  have "backtrace t' \<noteq> backtrace f \<and> verifiedCrashesCnt t' = verifiedCrashesCnt t" if ran: "c_subproc_Run c t = Inr (ok, t')" for t ok t'
  proof -
    obtain e pc t1 t2 fs where "e_pc e = Some pc" "crash_stack cc e pc 0 (cr_fs t1) = Inr (st, fs)"
      "arch_traceAnalyzeData cc e t1 = Inr ((), t2)" "backtrace t' = backtrace (cr_fz t2)" and v: "verifiedCrashesCnt t' = verifiedCrashesCnt t"
      using again ran by blast
    then have "backtrace t' = sanitizers_hashCallstack (san_enable (cr_san cc)) (s_funcs st) 1 False"
      using analyze_backtrace assms(3) by metis
    with v show ?thesis using bt single_frame_hash by metis
  qed
  then have "\<forall>t ok t'. c_subproc_Run c t = Inr (ok, t') \<longrightarrow> backtrace t' \<noteq> backtrace f \<and> verifiedCrashesCnt t' = verifiedCrashesCnt t"
    by blast
  note differs = verify_loop_differs [OF this]
  obtain n where n: "HF_VERIFIER_ITER = Suc n" by (simp add: HF_VERIFIER_ITER_def)
  show ?thesis
  proof (cases "verify_loop c (backtrace f) (Suc n) f")
    case (Inl err)
    then show ?thesis using run unfolding fuzz_runVerifier_def hm_steps n Let_def split_beta
      by (simp add: hm_steps bnd_stop del: verify_loop.simps split: if_splits)
  next
    case (Inr p)
    then have "p = (False, snd p)" and cnt: "verifiedCrashesCnt (snd p) = verifiedCrashesCnt f"
      using differs [of n f "fst p" "snd p"] by (simp_all add: prod_eq_iff)
    then have stop: "bnd (verify_loop c (backtrace f) (Suc n)) k f = k False (snd p)" for k :: "bool \<Rightarrow> (fuzz_t, bool) hm"
      using Inr bnd_next by metis
    show ?thesis using run cnt unfolding fuzz_runVerifier_def hm_steps n Let_def split_beta
      by (simp add: hm_steps stop del: verify_loop.simps split: if_splits)
  qed
qed


definition demo_verify_cfg :: fuzz_cfg where
  "demo_verify_cfg = demo_cfg\<lparr>c_subproc_Run := (\<lambda>t. Inr (True, t\<lparr>backtrace := sanitizers_hashCallstack True (s_funcs demo_stack) 1 False\<rparr>))\<rparr>"

theorem single_frame_never_verified_witness:
  "\<not> (\<exists>b f'. fuzz_runVerifier demo_verify_cfg ((cr_fz demo_crashed)\<lparr>crashFileName := [97]\<rparr>) = Inr (b, f') \<and> verifiedCrashesCnt f' \<noteq> 0)"
proof -
  have tri: "triage (demo_crash_cfg True) demo_stack (demo_crash Map.empty) = Some (Inr (Some True, demo_crashed))"
    using demo_triage [of True 0] by (simp add: demo_stack_def)
  have pc: "e_pc demo_event = Some 0x1123" by (simp add: demo_event_def)
  have cfg: "san_enable (cr_san (demo_crash_cfg True))" "s_cnt demo_stack = 1" "cr_saveUnique (demo_crash_cfg True)"
    by (simp_all add: demo_crash_cfg_def demo_san_def demo_stack_def)
  obtain t2 where t2: "arch_traceAnalyzeData (demo_crash_cfg True) demo_event (demo_crash Map.empty) = Inr ((), t2)"
      "backtrace (cr_fz t2) = sanitizers_hashCallstack True (s_funcs demo_stack) 1 False"
    unfolding arch_traceAnalyzeData_def pc option.case hm_steps demo_stack_ok by (simp add: modify_def fzC_def cfg)
  have sub: "c_subproc_Run demo_verify_cfg = (\<lambda>t. Inr (True, t\<lparr>backtrace := backtrace (cr_fz t2)\<rparr>))"
    by (simp add: demo_verify_cfg_def t2(2))
  have again: "\<forall>t ok t'. c_subproc_Run demo_verify_cfg t = Inr (ok, t') \<longrightarrow> verifiedCrashesCnt t' = verifiedCrashesCnt t \<and>
      (\<exists>e pc t1 t2 fs. e_pc e = Some pc \<and> crash_stack (demo_crash_cfg True) e pc 0 (cr_fs t1) = Inr (demo_stack, fs) \<and>
        arch_traceAnalyzeData (demo_crash_cfg True) e t1 = Inr ((), t2) \<and> backtrace t' = backtrace (cr_fz t2))"
    unfolding sub using pc demo_stack_ok [of True] t2(1) by fastforce
  have cnt: "verifiedCrashesCnt (cr_fz demo_crashed) = 0" by (simp add: demo_crashed_def fzC_def demo_crash_def demo_thread_def)
  show ?thesis
    using single_frame_never_verified [OF tri cfg(3,2) _ again, of "(cr_fz demo_crashed)\<lparr>crashFileName := [97]\<rparr>"] cnt by fastforce
qed

end
