(* ===== verification/HF_Subproc.thy ===== *)
theory HF_Subproc
  imports HF_Crash "HOL-Library.Monad_Syntax"
begin

text \<open>
  \<open>honggfuzz/subproc.c\<close>: the description of a status, the dialogue with a persistent process, what
  the child does before it executes the target (limits, environment, descriptors, arguments), the
  start of a process, its time limit; and from \<open>honggfuzz/linux/arch.c\<close> the loop that waits for it.

  Names of signals, what the system calls return, and what becomes of the target are parameters.
\<close>

section \<open>Status\<close>

definition SIGTRAP :: nat where "SIGTRAP = 5"
definition SIGKILL :: int where "SIGKILL = 9"

definition sig_text :: "(nat \<Rightarrow> byte list) \<Rightarrow> nat \<Rightarrow> byte list" where
  "sig_text strsignal sig = dec_nat sig @ str '' ('' @ strsignal sig @ str '')''"

text \<open>The numbers of the events are those of \<open>sys/ptrace.h\<close>.\<close>

definition event_text :: "nat \<Rightarrow> byte list" where
  "event_text ev =
     (if ev = 1 then str ''EVENT (Linux) - fork - with signal: ''
      else if ev = 2 then str ''EVENT (Linux) - vfork - with signal: ''
      else if ev = 3 then str ''EVENT (Linux) - clone - with signal: ''
      else if ev = 4 then str ''EVENT (Linux) - exec - with signal: ''
      else if ev = 5 then str ''EVENT (Linux) - vfork_done - with signal: ''
      else if ev = 6 then str ''EVENT (Linux) - exit - with signal: ''
      else if ev = 7 then str ''EVENT (Linux) - seccomp - with signal: ''
      else if ev = 128 then str ''EVENT (Linux) - stop - with signal: ''
      else str ''EVENT (Linux) UNKNOWN ('' @ dec_nat ev @ str ''): with signal: '')"

definition subproc_StatusToStr :: "(nat \<Rightarrow> byte list) \<Rightarrow> u32 \<Rightarrow> byte list" where
  "subproc_StatusToStr strsignal st =
     snprintf_cut 256
       (if WIFEXITED st then str ''EXITED, exit code: '' @ dec_nat (WEXITSTATUS st)
        else if WIFSIGNALED st then str ''SIGNALED, signal: '' @ sig_text strsignal (WTERMSIG st)
        else if WIFCONTINUED st then str ''CONTINUED''
        else if \<not> WIFSTOPPED st then str ''UNKNOWN STATUS: '' @ dec_int (sint st)
        else if WSTOPSIG st = SIGTRAP + 0x80 then str ''STOPPED (linux syscall): '' @ sig_text strsignal (WSTOPSIG st)
        else if WSTOPSIG st = SIGTRAP \<and> WPTRACEEVENT st \<noteq> 0 then event_text (WPTRACEEVENT st) @ sig_text strsignal (WSTOPSIG st)
        else str ''STOPPED with signal: '' @ sig_text strsignal (WSTOPSIG st))"

section \<open>State\<close>

datatype runState_t = RS_UNKNOWN | RS_WAITING_FOR_INITIAL_READY | RS_WAITING_FOR_READY | RS_SEND_DATA

text \<open>
  A thread with its process: the socket to a persistent process (\<open>sock_in\<close>: the bytes that wait to
  be received, \<open>sock_out\<close>: those that were sent), the signals sent (process and number), the
  descriptors that are open.
\<close>

record proc_t =
  pr_cr :: crash_t
  persistentSock :: int
  runState :: runState_t
  sock_in :: "byte list"
  sock_out :: "byte list"
  pr_kills :: "(int \<times> int) list"
  pr_fds :: "int set"
  timeOfLongestUnitUSecs :: int

definition pr_fz :: "proc_t \<Rightarrow> fuzz_t" where "pr_fz s = cr_fz (pr_cr s)"

definition crP :: "(crash_t \<Rightarrow> crash_t) \<Rightarrow> proc_t \<Rightarrow> proc_t" where
  "crP f s = s\<lparr>pr_cr := f (pr_cr s)\<rparr>"

definition send_kill :: "int \<Rightarrow> proc_t \<Rightarrow> proc_t" where
  "send_kill sig s = s\<lparr>pr_kills := pr_kills s @ [(run_pid (pr_fz s), sig)]\<rparr>"

section \<open>The dialogue with a persistent process\<close>

definition HFReadyTag :: byte where "HFReadyTag = 82"

text \<open>The size of the input as eight bytes, the least significant first.\<close>

definition size_bytes :: "u64 \<Rightarrow> byte list" where
  "size_bytes w = map (\<lambda>i. ucast (drop_bit (8 * i) w)) [0..<8]"

text \<open>\<open>ev\<close>: what the calls of \<open>send\<close> do.\<close>

definition subproc_persistentSendFileIndicator :: "(nat \<Rightarrow> io_ev) \<Rightarrow> proc_t \<Rightarrow> (bool \<times> proc_t) option" where
  "subproc_persistentSendFileIndicator ev s =
     (case files_sendToSocketNB ev (size_bytes (of_nat (d_size (dynfile (fz_run (pr_fz s)))))) of
        None \<Rightarrow> None
      | Some (ok, w) \<Rightarrow> Some (ok, s\<lparr>sock_out := sock_out s @ w\<rparr>))"

definition subproc_persistentGetReady :: "proc_t \<Rightarrow> bool \<times> proc_t" where
  "subproc_persistentGetReady s =
     (case sock_in s of
        [] \<Rightarrow> (False, s)
      | rcv # r \<Rightarrow> (rcv = HFReadyTag, s\<lparr>sock_in := r\<rparr>))"

text \<open>One iteration of the state machine: it goes on, or it returns.\<close>

datatype sm_next = SmGoOn | SmReturn bool

definition sm_iter :: "(nat \<Rightarrow> io_ev) \<Rightarrow> proc_t \<Rightarrow> (fault + (sm_next \<times> proc_t)) option" where
  "sm_iter ev s =
     (case runState s of
        RS_WAITING_FOR_INITIAL_READY \<Rightarrow>
          let (ok, s) = subproc_persistentGetReady s
          in Some (Inr (if \<not> ok then (SmReturn False, s) else (SmGoOn, s\<lparr>runState := RS_SEND_DATA\<rparr>)))
      | RS_SEND_DATA \<Rightarrow>
          (case subproc_persistentSendFileIndicator ev s of
             None \<Rightarrow> None
           | Some (ok, s) \<Rightarrow> Some (Inr (if \<not> ok then (SmReturn False, send_kill SIGKILL s)
                                      else (SmGoOn, s\<lparr>runState := RS_WAITING_FOR_READY\<rparr>))))
      | RS_WAITING_FOR_READY \<Rightarrow>
          let (ok, s) = subproc_persistentGetReady s
          in Some (Inr (if \<not> ok then (SmReturn False, s) else (SmReturn True, s\<lparr>runState := RS_SEND_DATA\<rparr>)))
      | RS_UNKNOWN \<Rightarrow> Some (Inl LogFatal))"

partial_function (option) sm_loop :: "(nat \<Rightarrow> io_ev) \<Rightarrow> proc_t \<Rightarrow> (fault + (bool \<times> proc_t)) option" where
  "sm_loop ev s =
     (case sm_iter ev s of
        None \<Rightarrow> None
      | Some (Inl e) \<Rightarrow> Some (Inl e)
      | Some (Inr (SmReturn b, s)) \<Rightarrow> Some (Inr (b, s))
      | Some (Inr (SmGoOn, s)) \<Rightarrow> sm_loop ev s)"

definition subproc_persistentModeStateMachine :: "bool \<Rightarrow> (nat \<Rightarrow> io_ev) \<Rightarrow> proc_t \<Rightarrow> (fault + (bool \<times> proc_t)) option" where
  "subproc_persistentModeStateMachine persistent ev s =
     (if \<not> persistent then Some (Inr (False, s)) else sm_loop ev s)"

section \<open>The arguments\<close>

definition HF_ARGV_MAX :: nat where "HF_ARGV_MAX = 2048"
definition HF_FILE_PLACEHOLDER :: "byte list" where "HF_FILE_PLACEHOLDER = str ''___FILE___''"
definition HF_INPUT_FILE_PATH :: "byte list" where "HF_INPUT_FILE_PATH = str ''/dev/fd/1021''"

text \<open>\<open>strstr\<close> as an index.\<close>

fun strstr_at :: "byte list \<Rightarrow> byte list \<Rightarrow> nat option" where
  "strstr_at needle s =
     (if take (length needle) s = needle then Some 0
      else case s of [] \<Rightarrow> None | c # r \<Rightarrow> map_option Suc (strstr_at needle r))"

declare strstr_at.simps [simp del]

text \<open>
  An argument is a string of its own, or a pointer to \<open>argData\<close>, the buffer that all arguments with
  an embedded placeholder share.
\<close>

datatype arg_t = ArgStr "byte list" | ArgData

fun prepare_args :: "byte list list \<Rightarrow> byte list \<Rightarrow> arg_t list \<times> byte list" where
  "prepare_args [] argData = ([], argData)"
| "prepare_args (a # as) argData =
     (case strstr_at HF_FILE_PLACEHOLDER a of
        None \<Rightarrow> (case prepare_args as argData of (args, d) \<Rightarrow> (ArgStr a # args, d))
      | Some i \<Rightarrow>
          if a = HF_FILE_PLACEHOLDER
          then (case prepare_args as argData of (args, d) \<Rightarrow> (ArgStr HF_INPUT_FILE_PATH # args, d))
          else (case prepare_args as (snprintf_cut PATH_MAX (take i a @ HF_INPUT_FILE_PATH)) of (args, d) \<Rightarrow> (ArgData # args, d)))"

text \<open>\<open>subproc_prepareExecvArgs\<close>; reading past the end of the command line is a fault.\<close>

definition subproc_prepareExecvArgs :: "byte list list \<Rightarrow> nat \<Rightarrow> byte list \<Rightarrow> fault + (arg_t list \<times> byte list)" where
  "subproc_prepareExecvArgs cmdline argc argData =
     (let n = min HF_ARGV_MAX argc
      in if n \<le> length cmdline then Inr (prepare_args (take n cmdline) argData) else Inl OutOfBounds)"

text \<open>What \<open>execve\<close> sees.\<close>

definition args_seen :: "arg_t list \<times> byte list \<Rightarrow> byte list list" where
  "args_seen = (\<lambda>(args, d). map (\<lambda>a. case a of ArgStr t \<Rightarrow> t | ArgData \<Rightarrow> d) args)"

section \<open>Before the target is executed\<close>

definition HF_PERTHREAD_BITMAP_FD :: int where "HF_PERTHREAD_BITMAP_FD = 1018"
definition HF_CMP_BITMAP_FD :: int where "HF_CMP_BITMAP_FD = 1019"
definition HF_LOG_FD :: int where "HF_LOG_FD = 1020"
definition HF_INPUT_FD :: int where "HF_INPUT_FD = 1021"
definition HF_COV_BITMAP_FD :: int where "HF_COV_BITMAP_FD = 1022"
definition HF_PERSISTENT_FD :: int where "HF_PERSISTENT_FD = 1023"

datatype rlim = RLIMIT_AS | RLIMIT_RSS | RLIMIT_DATA | RLIMIT_CORE | RLIMIT_STACK

record exec_cfg =
  x_persistent :: bool
  x_netDriver :: bool
  x_argc :: nat
  x_cmdline :: "byte list list"
  x_asLimit :: u64
  x_rssLimit :: u64
  x_dataLimit :: u64
  x_coreLimit :: u64
  x_stackLimit :: u64
  x_clearEnv :: bool
  x_env_ptrs :: "byte list list"
  x_fuzzNo :: int
  x_nullifyStdio :: bool
  x_fuzzStdin :: bool
  x_cmpFeedback :: bool
  x_socketFuzzer :: bool
  x_covFeedbackFd :: int
  x_cmpFeedbackFd :: int
  x_perThreadFd :: int
  x_inputFd :: int
  x_logFd :: int
  x_logLevel :: int

text \<open>What the system does: limits that can be set, the descriptor of \<open>/dev/null\<close>, descriptors below
  the limit, files that can be rewound.\<close>

record exec_sys =
  y_setrlimit :: "rlim \<Rightarrow> bool"
  y_devnull :: "int option"
  y_nofile :: int
  y_lseek :: bool

text \<open>
  A child: its descriptors as a map to open files (a number; 0 is \<open>/dev/null\<close>), its environment,
  limits, the files at their beginning, and its arguments.
\<close>

record child_t =
  ch_fds :: "int \<rightharpoonup> nat"
  ch_env :: "byte list \<rightharpoonup> byte list"
  ch_limits :: "rlim \<rightharpoonup> u64"
  ch_rewound :: "nat set"
  ch_args :: "arg_t list"
  ch_argData :: "byte list"

definition dup2 :: "exec_sys \<Rightarrow> int \<Rightarrow> int \<Rightarrow> child_t \<Rightarrow> child_t option" where
  "dup2 y a b s = (case ch_fds s a of
     None \<Rightarrow> None
   | Some f \<Rightarrow> if b < y_nofile y then Some (s\<lparr>ch_fds := (ch_fds s)(b \<mapsto> f)\<rparr>) else None)"

text \<open>A \<open>dup2\<close> whose result is not looked at.\<close>

definition dup2_any :: "exec_sys \<Rightarrow> int \<Rightarrow> int \<Rightarrow> child_t \<Rightarrow> child_t" where
  "dup2_any y a b s = (case dup2 y a b s of None \<Rightarrow> s | Some s \<Rightarrow> s)"

definition util_closeStdio :: "exec_sys \<Rightarrow> bool \<Rightarrow> bool \<Rightarrow> bool \<Rightarrow> child_t \<Rightarrow> child_t" where
  "util_closeStdio y close_stdin close_stdout close_stderr s =
     (case y_devnull y of
        None \<Rightarrow> s
      | Some fd \<Rightarrow>
          let s = s\<lparr>ch_fds := (ch_fds s)(fd \<mapsto> 0)\<rparr>;
              s = (if close_stdin then dup2_any y fd 0 s else s);
              s = (if close_stdout then dup2_any y fd 1 s else s);
              s = (if close_stderr then dup2_any y fd 2 s else s)
          in if fd > 2 then s\<lparr>ch_fds := (ch_fds s)(fd := None)\<rparr> else s)"

definition set_limit :: "exec_sys \<Rightarrow> rlim \<Rightarrow> u64 \<Rightarrow> child_t \<Rightarrow> child_t" where
  "set_limit y res v s = (if y_setrlimit y res then s\<lparr>ch_limits := (ch_limits s)(res \<mapsto> v * 1024 * 1024)\<rparr> else s)"

definition set_limits :: "exec_cfg \<Rightarrow> exec_sys \<Rightarrow> child_t \<Rightarrow> child_t" where
  "set_limits c y s =
     (let s = (if x_asLimit c \<noteq> 0 then set_limit y RLIMIT_AS (x_asLimit c) s else s);
          s = (if x_rssLimit c \<noteq> 0 then set_limit y RLIMIT_RSS (x_rssLimit c) s else s);
          s = (if x_dataLimit c \<noteq> 0 then set_limit y RLIMIT_DATA (x_dataLimit c) s else s);
          s = set_limit y RLIMIT_CORE (x_coreLimit c) s
      in if x_stackLimit c \<noteq> 0 then set_limit y RLIMIT_STACK (x_stackLimit c) s else s)"

text \<open>\<open>putenv\<close>: without an equals sign the variable is removed.\<close>

definition put_env :: "byte list \<Rightarrow> (byte list \<rightharpoonup> byte list) \<Rightarrow> byte list \<rightharpoonup> byte list" where
  "put_env e env = (case strchr e 61 of None \<Rightarrow> env(e := None) | Some i \<Rightarrow> env(take i e \<mapsto> drop (i + 1) e))"

definition set_env :: "exec_cfg \<Rightarrow> child_t \<Rightarrow> child_t" where
  "set_env c s =
     (let env = (if x_clearEnv c then Map.empty else ch_env s);
          env = foldl (\<lambda>env e. put_env e env) env (x_env_ptrs c);
          env = env(str ''HFUZZ_THREAD_NO'' \<mapsto> dec_int (x_fuzzNo c));
          env = (if x_netDriver c then env(str ''HFUZZ_USE_NETDRIVER'' \<mapsto> str ''1'') else env)
      in s\<lparr>ch_env := env\<rparr>)"

definition rewind_fd :: "exec_sys \<Rightarrow> int \<Rightarrow> child_t \<Rightarrow> child_t option" where
  "rewind_fd y fd s = (case ch_fds s fd of
     None \<Rightarrow> None
   | Some f \<Rightarrow> if y_lseek y then Some (s\<lparr>ch_rewound := insert f (ch_rewound s)\<rparr>) else None)"

definition pass_input :: "exec_cfg \<Rightarrow> exec_sys \<Rightarrow> child_t \<Rightarrow> child_t option" where
  "pass_input c y s =
     (if x_socketFuzzer c then Some s
      else do {
        s \<leftarrow> dup2 y (x_inputFd c) HF_INPUT_FD s;
        s \<leftarrow> rewind_fd y HF_INPUT_FD s;
        if x_fuzzStdin c then dup2 y (x_inputFd c) 0 s else Some s
      })"

definition pass_log :: "exec_cfg \<Rightarrow> exec_sys \<Rightarrow> child_t \<Rightarrow> child_t option" where
  "pass_log c y s =
     (if x_netDriver c \<or> x_persistent c
      then do {
        s \<leftarrow> dup2 y (x_logFd c) HF_LOG_FD s;
        Some (s\<lparr>ch_env := (ch_env s)(str ''HFUZZ_LOG_LEVEL'' \<mapsto> dec_int (x_logLevel c))\<rparr>)
      }
      else Some s)"

text \<open>\<open>subproc_PrepareExecv\<close>: the child, or nothing when it returns false.\<close>

definition subproc_PrepareExecv :: "exec_cfg \<Rightarrow> exec_sys \<Rightarrow> child_t \<Rightarrow> fault + child_t option" where
  "subproc_PrepareExecv c y s =
     (let s = set_env c (set_limits c y s);
          s = util_closeStdio y (x_nullifyStdio c) (x_nullifyStdio c) (x_nullifyStdio c) s
      in case do {
           s \<leftarrow> dup2 y (x_covFeedbackFd c) HF_COV_BITMAP_FD s;
           s \<leftarrow> (if x_cmpFeedback c then dup2 y (x_cmpFeedbackFd c) HF_CMP_BITMAP_FD s else Some s);
           s \<leftarrow> dup2 y (x_perThreadFd c) HF_PERTHREAD_BITMAP_FD s;
           s \<leftarrow> pass_input c y s;
           pass_log c y s
         } of
           None \<Rightarrow> Inr None
         | Some s \<Rightarrow>
             (case subproc_prepareExecvArgs (x_cmdline c) (x_argc c) (ch_argData s) of
                Inl e \<Rightarrow> Inl e
              | Inr (args, d) \<Rightarrow> Inr (Some (s\<lparr>ch_args := args, ch_argData := d\<rparr>))))"

section \<open>Starting a process\<close>

text \<open>What the system does: the new sockets, the number that \<open>fork\<close> returns, and whether the parent
  can trace the child.\<close>

record new_sys =
  n_socketpair :: "(int \<times> int) option"
  n_fork :: int
  n_traced :: bool

definition set_pid :: "int \<Rightarrow> proc_t \<Rightarrow> proc_t" where
  "set_pid p s = crP (fzC (\<lambda>f. f\<lparr>run_pid := p\<rparr>)) s"

definition new_sockets :: "bool \<Rightarrow> new_sys \<Rightarrow> proc_t \<Rightarrow> bool \<times> proc_t" where
  "new_sockets persistent n s =
     (if \<not> persistent then (True, s)
      else
        let s = (if persistentSock s \<noteq> - 1 then s\<lparr>pr_fds := pr_fds s - {persistentSock s}\<rparr> else s)
        in case n_socketpair n of
             None \<Rightarrow> (False, s)
           | Some (a, b) \<Rightarrow> (True, s\<lparr>persistentSock := a, pr_fds := insert a (insert b (pr_fds s)), sock_in := [], sock_out := []\<rparr>))"

definition subproc_New :: "bool \<Rightarrow> new_sys \<Rightarrow> (proc_t, bool) hm" where
  "subproc_New persistent n = (\<lambda>s.
     if run_pid (pr_fz s) \<noteq> 0 then Inr (True, s)
     else
       let (ok, s) = new_sockets persistent n s
       in if \<not> ok then Inr (False, s)
          else if n_fork n = - 1 then Inr (False, set_pid 0 s)
          else if \<not> n_traced n then Inl LogFatal
          else
            let s = set_pid (n_fork n) s
            in Inr (True, if persistent then s\<lparr>pr_fds := pr_fds s - {snd (the (n_socketpair n))}, runState := RS_WAITING_FOR_INITIAL_READY\<rparr> else s))"

text \<open>
  The branch of the child, up to the execution of the target (\<open>arch_launchChild\<close>): a persistent process gets
  its end of the sockets (\<open>sv\<close>) as \<open>HF_PERSISTENT_FD\<close>.
\<close>

definition new_child :: "exec_cfg \<Rightarrow> exec_sys \<Rightarrow> int \<times> int \<Rightarrow> child_t \<Rightarrow> fault + child_t option" where
  "new_child c y sv s =
     (if \<not> x_persistent c then subproc_PrepareExecv c y s
      else case dup2 y (snd sv) HF_PERSISTENT_FD s of
        None \<Rightarrow> Inl LogFatal
      | Some s \<Rightarrow> subproc_PrepareExecv c y (s\<lparr>ch_fds := (ch_fds s)(fst sv := None, snd sv := None)\<rparr>))"

section \<open>Limits\<close>

record wait_cfg =
  v_persistent :: bool
  v_tmOut :: int
  v_tmoutVTALRM :: bool
  v_socketFuzzer :: bool
  v_crash :: crash_cfg
  v_sigs :: "int \<Rightarrow> bool"

definition runtime :: "proc_t \<Rightarrow> int" where
  "runtime s = nowUSecs (fz_run (pr_fz s)) - timeStartedUSecs (fz_run (pr_fz s))"

definition subproc_checkTimeLimit :: "wait_cfg \<Rightarrow> proc_t \<Rightarrow> proc_t" where
  "subproc_checkTimeLimit c s =
     (if v_tmOut c = 0 then s
      else if tmOutSignaled (fz_run (pr_fz s)) \<and> runtime s > (v_tmOut c + 1) * 1000000 then send_kill SIGKILL s
      else if runtime s > v_tmOut c * 1000000 \<and> \<not> tmOutSignaled (fz_run (pr_fz s)) then
        crP (fzC (\<lambda>f. f\<lparr>timeoutedCnt := sz_add (timeoutedCnt f) 1\<rparr>))
          (send_kill (if v_tmoutVTALRM c then SIGVTALRM else SIGKILL)
            (crP (fzC (\<lambda>f. put_run ((fz_run f)\<lparr>tmOutSignaled := True\<rparr>) f)) s))
      else s)"

definition subproc_checkTermination :: "proc_t \<Rightarrow> proc_t" where
  "subproc_checkTermination s = (if fuzz_isTerminating (pr_fz s) then send_kill SIGKILL s else s)"

section \<open>Waiting\<close>

text \<open>What a call of \<open>waitpid\<close> returns: no news, no process left, a failure, or a status.\<close>

datatype wait_ev = WaitNone | WaitNoChild | WaitErr | WaitStatus int u32 crash_ev

text \<open>\<open>arch_checkWait\<close>: the events that are queued, in their order; the list ends with \<open>WaitNone\<close>.\<close>

fun arch_checkWait :: "wait_cfg \<Rightarrow> wait_ev list \<Rightarrow> (proc_t, bool) pm" where
  "arch_checkWait c [] = plift (ret False)"
| "arch_checkWait c (WaitNone # es) = plift (ret False)"
| "arch_checkWait c (WaitNoChild # es) = plift (ret True)"
| "arch_checkWait c (WaitErr # es) = plift (raise LogFatal)"
| "arch_checkWait c (WaitStatus pid st e # es) =
     pbnd (pzoom pr_cr (\<lambda>t s. s\<lparr>pr_cr := t\<rparr>) (arch_traceAnalyze (v_crash c) (v_sigs c) st e)) (\<lambda>_.
     pbnd (plift (gets (\<lambda>s. run_pid (pr_fz s)))) (\<lambda>p.
     if pid = p \<and> (WIFEXITED st \<or> WIFSIGNALED st) then plift (ret True) else arch_checkWait c es))"

text \<open>
  What happens in an iteration of the loop: how the sends of the state machine end, the bytes that
  arrive from the process before it, the time, the signal that ends the wait (\<open>None\<close>: a failure
  other than a timeout; 29 is \<open>SIGIO\<close>), and the queued events.
\<close>

record reap_ev =
  r_sends :: "nat \<Rightarrow> io_ev"
  r_arrive :: "byte list"
  r_now :: int
  r_sig :: "int option"
  r_waits :: "wait_ev list"

definition SIGIO :: int where "SIGIO = 29"

definition arrive :: "reap_ev \<Rightarrow> proc_t \<Rightarrow> proc_t" where
  "arrive r s = crP (fzC (\<lambda>f. put_run ((fz_run f)\<lparr>nowUSecs := r_now r\<rparr>) f)) (s\<lparr>sock_in := sock_in s @ r_arrive r\<rparr>)"

text \<open>One iteration; \<open>True\<close> ends the loop.\<close>

definition reap_step :: "wait_cfg \<Rightarrow> reap_ev \<Rightarrow> (proc_t, bool) pm" where
  "reap_step c r =
     pbnd (plift (modify (arrive r))) (\<lambda>_.
     pbnd (subproc_persistentModeStateMachine (v_persistent c) (r_sends r)) (\<lambda>done.
     if done then plift (ret True)
     else
       pbnd (plift (modify (subproc_checkTimeLimit c))) (\<lambda>_.
       pbnd (plift (modify subproc_checkTermination)) (\<lambda>_.
       pbnd (plift (check LogFatal (r_sig r \<noteq> None))) (\<lambda>_.
       pbnd (if r_sig r \<noteq> Some SIGIO then arch_checkWait c (r_waits r) else plift (ret False)) (\<lambda>ended.
       if ended then pbnd (plift (modify (set_pid 0))) (\<lambda>_. plift (ret True))
       else plift (ret (v_socketFuzzer c))))))))"

partial_function (option) arch_reapChild :: "wait_cfg \<Rightarrow> (nat \<Rightarrow> reap_ev) \<Rightarrow> nat \<Rightarrow> (proc_t, unit) pm" where
  "arch_reapChild c ev i s =
     (case reap_step c (ev i) s of
        None \<Rightarrow> None
      | Some (Inl e) \<Rightarrow> Some (Inl e)
      | Some (Inr (stop, s)) \<Rightarrow> if stop then Some (Inr ((), s)) else arch_reapChild c ev (i + 1) s)"

text \<open>
  \<open>subproc_Run\<close>: the counters of the hardware (\<open>arch_prepareParent\<close>, \<open>arch_perfAnalyze\<close>) are a
  parameter; \<open>perf\<close> says whether they can be enabled and what they hold.
\<close>

definition subproc_Run :: "wait_cfg \<Rightarrow> new_sys \<Rightarrow> (nat \<Rightarrow> reap_ev) \<Rightarrow> hwcnt_t option \<Rightarrow> (proc_t, bool) pm" where
  "subproc_Run c n ev perf =
     pbnd (plift (subproc_New (v_persistent c) n)) (\<lambda>ok.
     if \<not> ok then plift (ret False)
     else
       pbnd (plift (check LogFatal (perf \<noteq> None))) (\<lambda>_.
       pbnd (arch_reapChild c ev 0) (\<lambda>_.
       pbnd (plift (modify (crP (fzC (\<lambda>f. f\<lparr>fz_rhw := the perf\<rparr>))))) (\<lambda>_.
       pbnd (plift (modify (\<lambda>s. if runtime s \<ge> timeOfLongestUnitUSecs s then s\<lparr>timeOfLongestUnitUSecs := runtime s\<rparr> else s))) (\<lambda>_.
       plift (ret True))))))"

text \<open>\<open>subproc_System\<close>, in the parent: \<open>pid\<close> is what \<open>fork\<close> returns, \<open>waits\<close> what \<open>wait4\<close> returns.\<close>

partial_function (option) system_wait :: "int \<Rightarrow> (nat \<Rightarrow> (int \<times> u32) option) \<Rightarrow> nat \<Rightarrow> byte option" where
  "system_wait pid waits i =
     (case waits i of
        None \<Rightarrow> Some 255
      | Some (r, st) \<Rightarrow>
          if r \<noteq> pid then Some 255
          else if WIFSIGNALED st then Some (of_nat (100 + WTERMSIG st))
          else if WIFEXITED st then Some (if WEXITSTATUS st = 0 then 0 else 1)
          else system_wait pid waits (i + 1))"

definition subproc_System :: "int \<Rightarrow> (nat \<Rightarrow> (int \<times> u32) option) \<Rightarrow> byte option" where
  "subproc_System pid waits = (if pid = - 1 then Some 255 else system_wait pid waits 0)"

end
