(* ===== verification/HF_Subproc_Props.thy ===== *)
theory HF_Subproc_Props
  imports HF_Subproc HF_Crash_Props
begin

text \<open>
  What running the target leaves alone, the descriptors and arguments a target finds, and how often
  a run is counted as timed out.
\<close>

section \<open>Frame of a run\<close>

text \<open>\<open>keeps g m\<close>: whenever \<open>m\<close> returns, the thread that \<open>g\<close> selects is kept in the sense of \<open>run_keeps\<close>.\<close>

definition keeps :: "('s \<Rightarrow> fuzz_t) \<Rightarrow> ('s, 'a) pm \<Rightarrow> bool" where
  "keeps g m \<longleftrightarrow> (\<forall>s x t. m s = Some (Inr (x, t)) \<longrightarrow> run_keeps (g s) (g t))"

lemma run_keeps_trans:
  assumes "run_keeps s t" and "run_keeps t u"
  shows "run_keeps s u"
proof -
  obtain m fs b v w where t: "fz_run t = (fz_run s)\<lparr>global := (fz_hf s)\<lparr>feedback_cmpFeedbackMap := m, io_fs := fs\<rparr>,
      tmOutSignaled := b, now := v, nowUSecs := w\<rparr>" "cmpf_ok (feedback_cmpFeedbackMap (fz_hf s)) \<longrightarrow> cmpf_ok m"
    using assms(1) unfolding run_keeps_def by blast
  obtain m' fs' b' v' w' where u: "fz_run u = (fz_run t)\<lparr>global := (fz_hf t)\<lparr>feedback_cmpFeedbackMap := m', io_fs := fs'\<rparr>,
      tmOutSignaled := b', now := v', nowUSecs := w'\<rparr>" "cmpf_ok (feedback_cmpFeedbackMap (fz_hf t)) \<longrightarrow> cmpf_ok m'"
    using assms(2) unfolding run_keeps_def by blast
  have "fz_run u = (fz_run s)\<lparr>global := (fz_hf s)\<lparr>feedback_cmpFeedbackMap := m', io_fs := fs'\<rparr>,
      tmOutSignaled := b', now := v', nowUSecs := w'\<rparr>" using t(1) u(1) by (simp add: fz_hf_def)
  moreover have "cmpf_ok (feedback_cmpFeedbackMap (fz_hf s)) \<longrightarrow> cmpf_ok m'" using t u(2) by (simp add: fz_hf_def)
  moreover have "fuzzNo u = fuzzNo s" using assms by (simp add: run_keeps_def)
  ultimately show ?thesis unfolding run_keeps_def by blast
qed

lemma run_keeps_same: "fuzzNo t = fuzzNo s \<Longrightarrow> fz_run t = fz_run s \<Longrightarrow> run_keeps s t"
  using run_keeps_refl [of s] by (simp add: run_keeps_def)

lemma keeps_pbnd: "keeps g m \<Longrightarrow> (\<And>x. keeps g (f x)) \<Longrightarrow> keeps g (pbnd m f)"
  unfolding keeps_def pbnd_def by (auto split: option.splits sum.splits) (blast intro: run_keeps_trans)

lemma keeps_ret [simp]: "keeps g (plift (ret x))"
  by (simp add: keeps_def plift_def ret_def run_keeps_refl)

lemma keeps_raise [simp]: "keeps g (plift (raise e))"
  by (simp add: keeps_def plift_def raise_def)

lemma keeps_gets [simp]: "keeps g (plift (gets f))"
  by (simp add: keeps_def plift_def gets_def run_keeps_refl)

lemma keeps_check [simp]: "keeps g (plift (check e b))"
  by (simp add: check_def)

lemma keeps_modify: "(\<And>s. run_keeps (g s) (g (f s))) \<Longrightarrow> keeps g (plift (modify f))"
  by (simp add: keeps_def plift_def modify_def)

lemma keeps_if: "(b \<Longrightarrow> keeps g m) \<Longrightarrow> (\<not> b \<Longrightarrow> keeps g n) \<Longrightarrow> keeps g (if b then m else n)"
  by simp

lemma keeps_pzoom: "keeps g m \<Longrightarrow> (\<And>t s. h (put t s) = g t) \<Longrightarrow> (\<And>s. h s = g (get s)) \<Longrightarrow> keeps h (pzoom get put m)"
  unfolding keeps_def pzoom_def by (auto split: option.splits sum.splits)

lemma run_keeps_fs: "run_keeps s (set_fs fs s)"
  unfolding run_keeps_def
  by (intro conjI exI [of _ "feedback_cmpFeedbackMap (fz_hf s)"] exI [of _ fs] exI [of _ "tmOutSignaled (fz_run s)"]
      exI [of _ "now (fz_run s)"] exI [of _ "nowUSecs (fz_run s)"])
     (simp_all add: set_fs_def put_run_def fz_hf_def fz_run_def)


lemmas keeps_rules = keeps_pbnd keeps_if keeps_ret keeps_raise keeps_gets keeps_check

lemma keeps_fzC:
  assumes "\<And>f. run_keeps f (h f)"
  shows "keeps cr_fz (plift (modify (fzC h)))"
  by (rule keeps_modify) (simp add: fzC_def assms)

lemma triage_keeps: "keeps cr_fz (triage c st)"
  unfolding keeps_def
proof (intro allI impI)
  fix s x t
  assume "triage c st s = Some (Inr (x, t))"
  then have "fuzzNo (cr_fz t) = fuzzNo (cr_fz s) \<and> fz_run (cr_fz t) = fz_run (cr_fz s)"
    by (auto simp: triage_def Let_def pbnd_def plift_def gets_def modify_def ret_def fzC_def
        split: prod.splits if_splits option.splits sum.splits)
  then show "run_keeps (cr_fz s) (cr_fz t)" by (intro run_keeps_same) simp_all
qed

lemma named_written_keeps:
  "run_keeps (cr_fz s) (cr_fz (named n s))" "run_keeps (cr_fz s) (cr_fz (fzC (set_fs fs) s))" "run_keeps (cr_fz s) (cr_fz (written c e st n fs s))"
proof -
  show n: "run_keeps (cr_fz s) (cr_fz (named n s))" by (rule run_keeps_same) (simp_all add: named_def fzC_def fz_run_def)
  show f: "run_keeps (cr_fz s) (cr_fz (fzC (set_fs fs) s))" by (simp add: fzC_def run_keeps_fs)
  have "run_keeps (cr_fz (fzC (set_fs fs) s)) (cr_fz (written c e st n fs s))"
    by (rule run_keeps_same) (simp_all add: written_def fzC_def fz_run_def)
  with f show "run_keeps (cr_fz s) (cr_fz (written c e st n fs s))" by (rule run_keeps_trans)
qed

lemma save_crash_keeps: "keeps cr_fz (save_crash c e st uniq)"
  unfolding keeps_def save_crash_eq Let_def
  by (auto split: option.splits if_splits intro: named_written_keeps run_keeps_trans [OF named_written_keeps(1)])

lemma saveData_keeps: "keeps cr_fz (arch_traceSaveData c e)"
  unfolding arch_traceSaveData_def Let_def
  by (auto split: option.split sum.split intro!: keeps_rules keeps_fzC run_keeps_fs triage_keeps save_crash_keeps)

lemma analyzeData_keeps: "keeps cr_fz (plift (arch_traceAnalyzeData c e))"
proof -
  have "run_keeps f ((set_fs fs f)\<lparr>backtrace := b\<rparr>)" for f fs b
    by (rule run_keeps_trans [OF run_keeps_fs run_keeps_same]) (simp_all add: fz_run_def)
  then show ?thesis
    by (auto simp: keeps_def plift_def arch_traceAnalyzeData_def bnd_def gets_def modify_def ret_def raise_def fzC_def run_keeps_refl
        split: option.splits sum.splits)
qed

lemma traceAnalyze_keeps: "keeps cr_fz (arch_traceAnalyze c sigs st e)"
  unfolding arch_traceAnalyze_def arch_traceEvent_def by (intro keeps_rules saveData_keeps analyzeData_keeps)


lemma pr_fz_updates [simp]:
  "pr_fz (s\<lparr>persistentSock := a\<rparr>) = pr_fz s" "pr_fz (s\<lparr>runState := r\<rparr>) = pr_fz s" "pr_fz (s\<lparr>sock_in := i\<rparr>) = pr_fz s"
  "pr_fz (s\<lparr>sock_out := i\<rparr>) = pr_fz s" "pr_fz (s\<lparr>pr_kills := k\<rparr>) = pr_fz s" "pr_fz (s\<lparr>pr_fds := f\<rparr>) = pr_fz s"
  "pr_fz (s\<lparr>timeOfLongestUnitUSecs := l\<rparr>) = pr_fz s" "pr_fz (send_kill sig s) = pr_fz s" "pr_fz (crP (fzC h) s) = h (pr_fz s)"
  by (simp_all add: pr_fz_def send_kill_def crP_def fzC_def)

lemma sm_iter_keeps: "sm_iter ev s = Some (Inr (x, t)) \<Longrightarrow> pr_fz t = pr_fz s"
  by (auto simp: sm_iter_def subproc_persistentGetReady_def subproc_persistentSendFileIndicator_def
      split: runState_t.splits list.splits option.splits if_splits)

lemma sm_loop_keeps:
  assumes "sm_loop ev s = Some r"
  shows "r = Inr (b, t) \<longrightarrow> pr_fz t = pr_fz s"
proof (induction ev s r rule: sm_loop.raw_induct [case_names step run])
  case run
  show ?case by (rule assms)
next
  case (step f ev s r)
  show ?case
  proof (cases "sm_iter ev s")
    case (Some q)
    with step sm_iter_keeps [of ev s] show ?thesis by (cases q) (auto split: sm_next.splits)
  qed (use step.hyps in auto)
qed

lemma machine_keeps: "keeps pr_fz (subproc_persistentModeStateMachine p ev)"
  unfolding keeps_def subproc_persistentModeStateMachine_def
  using sm_loop_keeps by (auto simp: run_keeps_refl intro!: run_keeps_same split: if_splits)

lemma run_keeps_clock: "run_keeps f (put_run ((fz_run f)\<lparr>nowUSecs := v\<rparr>) f)" "run_keeps f (put_run ((fz_run f)\<lparr>tmOutSignaled := b\<rparr>) f)"
proof -
  have fz: "fz_run (put_run r f) = r" "fuzzNo (put_run r f) = fuzzNo f" for r by (simp_all add: put_run_def fz_run_def)
  show "run_keeps f (put_run ((fz_run f)\<lparr>nowUSecs := v\<rparr>) f)" "run_keeps f (put_run ((fz_run f)\<lparr>tmOutSignaled := b\<rparr>) f)"
    unfolding run_keeps_def fz
    by (rule conjI, rule refl, rule exI [of _ "feedback_cmpFeedbackMap (fz_hf f)"], rule exI [of _ "io_fs (fz_hf f)"],
        rule exI [of _ "tmOutSignaled (fz_run f)"], rule exI [of _ "now (fz_run f)"], rule exI [of _ v], simp add: fz_hf_def)
       (rule conjI, rule refl, rule exI [of _ "feedback_cmpFeedbackMap (fz_hf f)"], rule exI [of _ "io_fs (fz_hf f)"],
        rule exI [of _ b], rule exI [of _ "now (fz_run f)"], rule exI [of _ "nowUSecs (fz_run f)"], simp add: fz_hf_def)
qed

lemma checks_keep: "run_keeps (pr_fz s) (pr_fz (subproc_checkTimeLimit c s))" "run_keeps (pr_fz s) (pr_fz (subproc_checkTermination s))"
  "run_keeps (pr_fz s) (pr_fz (arrive r s))" "run_keeps (pr_fz s) (pr_fz (set_pid p s))"
proof -
  have cnt: "run_keeps f (f\<lparr>timeoutedCnt := k\<rparr>)" for f k by (rule run_keeps_same) (simp_all add: fz_run_def)
  show "run_keeps (pr_fz s) (pr_fz (subproc_checkTimeLimit c s))"
    by (auto simp: subproc_checkTimeLimit_def run_keeps_refl intro: run_keeps_trans [OF run_keeps_clock(2) cnt])
  show "run_keeps (pr_fz s) (pr_fz (subproc_checkTermination s))" by (simp add: subproc_checkTermination_def run_keeps_refl)
  show "run_keeps (pr_fz s) (pr_fz (arrive r s))" by (simp add: arrive_def run_keeps_clock)
  show "run_keeps (pr_fz s) (pr_fz (set_pid p s))" by (simp add: set_pid_def run_keeps_same fz_run_def)
qed

lemma checkWait_keeps: "keeps pr_fz (arch_checkWait c es)"
proof (induction c es rule: arch_checkWait.induct)
  case (5 c pid st e es)
  have "keeps pr_fz (pzoom pr_cr (\<lambda>t s. s\<lparr>pr_cr := t\<rparr>) (arch_traceAnalyze (v_crash c) (v_sigs c) st e))"
    by (rule keeps_pzoom [OF traceAnalyze_keeps]) (simp_all add: pr_fz_def)
  with 5 show ?case by (auto intro!: keeps_rules)
qed auto

lemma reap_step_keeps: "keeps pr_fz (reap_step c r)"
  unfolding reap_step_def by (intro keeps_rules keeps_modify checks_keep machine_keeps checkWait_keeps)

lemma reapChild_keeps:
  assumes "arch_reapChild c ev i s = Some r"
  shows "r = Inr (u, t) \<longrightarrow> run_keeps (pr_fz s) (pr_fz t)"
proof (induction c ev i s r rule: arch_reapChild.raw_induct [case_names step run])
  case run
  show ?case by (rule assms)
next
  case (step f c ev i s r)
  show ?case
  proof (cases "reap_step c (ev i) s")
    case (Some q)
    show ?thesis
    proof (cases q)
      case (Inr p)
      then have "run_keeps (pr_fz s) (pr_fz (snd p))" using Some reap_step_keeps unfolding keeps_def by (metis prod.collapse)
      moreover have "run_keeps (pr_fz (snd p)) (pr_fz t)" if "r = Inr (u, t)"
        using step.hyps step.IH [of c ev "i + 1" "snd p" r] Some Inr that by (cases p) (auto simp: run_keeps_refl split: if_splits)
      ultimately show ?thesis using run_keeps_trans by blast
    qed (use step.hyps Some in auto)
  qed (use step.hyps in auto)
qed

lemma new_keeps: "subproc_New p n s = Inr (ok, t) \<Longrightarrow> run_keeps (pr_fz s) (pr_fz t)"
proof -
  have "run_keeps f (f\<lparr>run_pid := q\<rparr>)" for f q by (rule run_keeps_same) (simp_all add: fz_run_def)
  then show "subproc_New p n s = Inr (ok, t) \<Longrightarrow> run_keeps (pr_fz s) (pr_fz t)"
    by (auto simp: subproc_New_def new_sockets_def Let_def run_keeps_refl set_pid_def split: if_splits option.splits)
qed

lemma subproc_Run_keeps: "keeps pr_fz (subproc_Run c n ev perf)"
proof -
  have "keeps pr_fz (plift (subproc_New (v_persistent c) n))" using new_keeps by (simp add: keeps_def plift_def)
  moreover have "keeps pr_fz (arch_reapChild c ev 0)" using reapChild_keeps unfolding keeps_def by blast
  moreover have "run_keeps f (f\<lparr>fz_rhw := h\<rparr>)" for f h by (rule run_keeps_same) (simp_all add: fz_run_def)
  ultimately show ?thesis
    unfolding subproc_Run_def by (intro keeps_rules keeps_modify) (simp_all add: run_keeps_refl)
qed

section \<open>Properties\<close>

text \<open>Running the target keeps the corpus. Whatever the target does, however it is waited for and
  whichever crashes are saved on the way, when a run returns the thread still has the invariant
  of the main phase: the queue, the input and the limits are what they were.\<close>

theorem subproc_Run_keeps_invariant:
  assumes "subproc_Run c n ev perf s = Some (Inr (ok, s'))" and "thr_inv Q k (pr_fz s)"
  shows "thr_inv Q k (pr_fz s')"
  using assms subproc_Run_keeps thr_keeps unfolding keeps_def by blast

section \<open>Descriptors\<close>

text \<open>The numbers under which the target expects its objects.\<close>

definition reserved :: "int set" where
  "reserved = {HF_PERTHREAD_BITMAP_FD, HF_CMP_BITMAP_FD, HF_LOG_FD, HF_INPUT_FD, HF_COV_BITMAP_FD, HF_PERSISTENT_FD}"

lemmas fd_defs = HF_PERTHREAD_BITMAP_FD_def HF_CMP_BITMAP_FD_def HF_LOG_FD_def HF_INPUT_FD_def HF_COV_BITMAP_FD_def HF_PERSISTENT_FD_def

lemma dup2_some: "dup2 y a b s = Some t \<Longrightarrow> ch_fds s a \<noteq> None \<and> t = s\<lparr>ch_fds := (ch_fds s)(b := ch_fds s a)\<rparr>"
  by (auto simp: dup2_def split: option.splits if_splits)

lemma closeStdio_fds:
  assumes "\<forall>n. y_devnull y = Some n \<longrightarrow> ch_fds s n = None" and "fd > 2"
  shows "ch_fds (util_closeStdio y a b c s) fd = ch_fds s fd"
proof -
  have "ch_fds (dup2_any y m k t) fd = ch_fds t fd" if "k \<le> 2" for m k t
    using that assms(2) by (auto simp: dup2_any_def dest: dup2_some split: option.split)
  then show ?thesis using assms by (cases "y_devnull y") (auto simp: util_closeStdio_def Let_def)
qed

lemma prepare_start_fds: "ch_fds (set_env c (set_limits c y s)) = ch_fds s"
  by (simp add: set_env_def set_limits_def set_limit_def Let_def)

lemma prepare_chain:
  assumes "subproc_PrepareExecv c y s = Inr (Some t)"
  shows "\<exists>s0 s1 s2 s3 s4 s5. s0 = util_closeStdio y (x_nullifyStdio c) (x_nullifyStdio c) (x_nullifyStdio c) (set_env c (set_limits c y s)) \<and>
    dup2 y (x_covFeedbackFd c) HF_COV_BITMAP_FD s0 = Some s1 \<and>
    (if x_cmpFeedback c then dup2 y (x_cmpFeedbackFd c) HF_CMP_BITMAP_FD s1 else Some s1) = Some s2 \<and>
    dup2 y (x_perThreadFd c) HF_PERTHREAD_BITMAP_FD s2 = Some s3 \<and> pass_input c y s3 = Some s4 \<and> pass_log c y s4 = Some s5 \<and>
    ch_fds t = ch_fds s5 \<and> ch_rewound t = ch_rewound s5"
  using assms unfolding subproc_PrepareExecv_def Let_def
  by (fastforce split: option.splits sum.splits simp: Option.bind_eq_Some_conv)

lemma pass_input_fds:
  assumes "pass_input c y s = Some t" and "\<not> x_socketFuzzer c"
  shows "ch_fds t = (let f = (ch_fds s)(HF_INPUT_FD := ch_fds s (x_inputFd c)) in if x_fuzzStdin c then f(0 := f (x_inputFd c)) else f)"
    and "\<exists>f. ch_fds t HF_INPUT_FD = Some f \<and> f \<in> ch_rewound t"
  using assms
  by (cases "x_fuzzStdin c"; auto simp: pass_input_def rewind_fd_def Option.bind_eq_Some_conv HF_INPUT_FD_def Let_def dest!: dup2_some
      split: if_splits option.splits)+

lemma pass_log_fds:
  "pass_log c y s = Some t \<Longrightarrow> ch_fds t = (if x_netDriver c \<or> x_persistent c then (ch_fds s)(HF_LOG_FD := ch_fds s (x_logFd c)) else ch_fds s) \<and>
     ch_rewound t = ch_rewound s"
  by (auto simp: pass_log_def Option.bind_eq_Some_conv dest!: dup2_some split: if_splits)

lemma prepare_fds:
  assumes run: "subproc_PrepareExecv c y s = Inr (Some t)"
    and nul: "\<forall>n. y_devnull y = Some n \<longrightarrow> ch_fds s n = None"
    and src: "\<forall>fd \<in> {x_covFeedbackFd c, x_cmpFeedbackFd c, x_perThreadFd c, x_inputFd c, x_logFd c}. fd > 2 \<and> fd \<notin> reserved"
    and inp: "\<not> x_socketFuzzer c"
  shows "ch_fds t HF_COV_BITMAP_FD = ch_fds s (x_covFeedbackFd c) \<and> ch_fds t HF_PERTHREAD_BITMAP_FD = ch_fds s (x_perThreadFd c) \<and>
    (x_cmpFeedback c \<longrightarrow> ch_fds t HF_CMP_BITMAP_FD = ch_fds s (x_cmpFeedbackFd c)) \<and>
    ch_fds t HF_INPUT_FD = ch_fds s (x_inputFd c) \<and> (x_fuzzStdin c \<longrightarrow> ch_fds t 0 = ch_fds s (x_inputFd c)) \<and>
    (\<exists>f. ch_fds t HF_INPUT_FD = Some f \<and> f \<in> ch_rewound t) \<and>
    (x_netDriver c \<or> x_persistent c \<longrightarrow> ch_fds t HF_LOG_FD = ch_fds s (x_logFd c)) \<and>
    ch_fds t HF_PERSISTENT_FD = ch_fds s HF_PERSISTENT_FD"
proof -
  obtain s0 s1 s2 s3 s4 s5 where s0: "s0 = util_closeStdio y (x_nullifyStdio c) (x_nullifyStdio c) (x_nullifyStdio c) (set_env c (set_limits c y s))"
    and d: "dup2 y (x_covFeedbackFd c) HF_COV_BITMAP_FD s0 = Some s1"
      "(if x_cmpFeedback c then dup2 y (x_cmpFeedbackFd c) HF_CMP_BITMAP_FD s1 else Some s1) = Some s2"
      "dup2 y (x_perThreadFd c) HF_PERTHREAD_BITMAP_FD s2 = Some s3" "pass_input c y s3 = Some s4" "pass_log c y s4 = Some s5"
    and t: "ch_fds t = ch_fds s5" "ch_rewound t = ch_rewound s5" using prepare_chain [OF run] by blast
  have f0: "ch_fds s0 fd = ch_fds s fd" if "fd > 2" for fd
    unfolding s0 using closeStdio_fds [of y "set_env c (set_limits c y s)" fd] nul that by (simp add: prepare_start_fds)
  have f1: "ch_fds s1 = (ch_fds s0)(HF_COV_BITMAP_FD := ch_fds s0 (x_covFeedbackFd c))" using dup2_some [OF d(1)] by simp
  have f2: "ch_fds s2 = (if x_cmpFeedback c then (ch_fds s1)(HF_CMP_BITMAP_FD := ch_fds s1 (x_cmpFeedbackFd c)) else ch_fds s1)"
    using d(2) by (auto dest: dup2_some split: if_splits)
  have f3: "ch_fds s3 = (ch_fds s2)(HF_PERTHREAD_BITMAP_FD := ch_fds s2 (x_perThreadFd c))" using dup2_some [OF d(3)] by simp
  note f4 = pass_input_fds [OF d(4) inp] and f5 = pass_log_fds [OF d(5)]
  have num: "HF_PERSISTENT_FD > 2" by (simp add: fd_defs)
  show ?thesis using f0 [OF num] src f0 f4(2) f5 unfolding t
    by (auto simp: f4(1) f3 f2 f1 Let_def reserved_def fd_defs)
qed

text \<open>C30: when the child is ready to execute a persistent target, every object is under the number at which
  the run time of the target looks for it: the coverage map, the map of the thread, the map of
  comparisons, the input (rewound, and also as standard input when asked for), the log and the
  socket. The descriptors of the fuzzer itself must not be among those numbers.\<close>

theorem new_child_fds:
  assumes run: "new_child c y sv s = Inr (Some t)" and pers: "x_persistent c"
    and nul: "\<forall>n. y_devnull y = Some n \<longrightarrow> n \<noteq> HF_PERSISTENT_FD \<and> (n = fst sv \<or> n = snd sv \<or> ch_fds s n = None)"
    and src: "\<forall>fd \<in> {x_covFeedbackFd c, x_cmpFeedbackFd c, x_perThreadFd c, x_inputFd c, x_logFd c}. fd > 2 \<and> fd \<notin> reserved \<and> fd \<noteq> fst sv \<and> fd \<noteq> snd sv"
    and sv: "fst sv \<noteq> HF_PERSISTENT_FD" "snd sv \<noteq> HF_PERSISTENT_FD"
    and inp: "\<not> x_socketFuzzer c"
  shows "ch_fds t HF_COV_BITMAP_FD = ch_fds s (x_covFeedbackFd c) \<and> ch_fds t HF_PERTHREAD_BITMAP_FD = ch_fds s (x_perThreadFd c) \<and>
    (x_cmpFeedback c \<longrightarrow> ch_fds t HF_CMP_BITMAP_FD = ch_fds s (x_cmpFeedbackFd c)) \<and>
    ch_fds t HF_INPUT_FD = ch_fds s (x_inputFd c) \<and> (x_fuzzStdin c \<longrightarrow> ch_fds t 0 = ch_fds s (x_inputFd c)) \<and>
    (\<exists>f. ch_fds t HF_INPUT_FD = Some f \<and> f \<in> ch_rewound t) \<and> ch_fds t HF_LOG_FD = ch_fds s (x_logFd c) \<and>
    ch_fds t HF_PERSISTENT_FD = ch_fds s (snd sv) \<and> ch_fds s (snd sv) \<noteq> None"
proof -
  obtain s1 where d: "dup2 y (snd sv) HF_PERSISTENT_FD s = Some s1"
    and p: "subproc_PrepareExecv c y (s1\<lparr>ch_fds := (ch_fds s1)(fst sv := None, snd sv := None)\<rparr>) = Inr (Some t)"
    using run pers by (auto simp: new_child_def split: option.splits)
  let ?u = "s1\<lparr>ch_fds := (ch_fds s1)(fst sv := None, snd sv := None)\<rparr>"
  have s1: "ch_fds s1 = (ch_fds s)(HF_PERSISTENT_FD := ch_fds s (snd sv))" "ch_fds s (snd sv) \<noteq> None"
    using d by (auto simp: dup2_def split: option.splits if_splits)
  have u: "ch_fds ?u fd = ch_fds s fd" if "fd \<noteq> fst sv" "fd \<noteq> snd sv" "fd \<notin> reserved" for fd
    using that s1 by (auto simp: reserved_def)
  have up: "ch_fds ?u HF_PERSISTENT_FD = ch_fds s (snd sv)" using sv s1 by simp
  have nul': "\<forall>n. y_devnull y = Some n \<longrightarrow> ch_fds ?u n = None" using nul s1 by auto
  have src': "\<forall>fd \<in> {x_covFeedbackFd c, x_cmpFeedbackFd c, x_perThreadFd c, x_inputFd c, x_logFd c}. fd > 2 \<and> fd \<notin> reserved" using src by blast
  have eq: "\<forall>fd \<in> {x_covFeedbackFd c, x_cmpFeedbackFd c, x_perThreadFd c, x_inputFd c, x_logFd c}. ch_fds ?u fd = ch_fds s fd" using src u by blast
  note r = prepare_fds [OF p nul' src' inp, unfolded up]
  have rewound: "\<exists>f. ch_fds t HF_INPUT_FD = Some f \<and> f \<in> ch_rewound t" using r by blast
  have "ch_fds t HF_COV_BITMAP_FD = ch_fds s (x_covFeedbackFd c) \<and> ch_fds t HF_PERTHREAD_BITMAP_FD = ch_fds s (x_perThreadFd c) \<and>
    (x_cmpFeedback c \<longrightarrow> ch_fds t HF_CMP_BITMAP_FD = ch_fds s (x_cmpFeedbackFd c)) \<and>
    ch_fds t HF_INPUT_FD = ch_fds s (x_inputFd c) \<and> (x_fuzzStdin c \<longrightarrow> ch_fds t 0 = ch_fds s (x_inputFd c)) \<and>
    ch_fds t HF_LOG_FD = ch_fds s (x_logFd c) \<and> ch_fds t HF_PERSISTENT_FD = ch_fds s (snd sv)"
    using r eq pers by (simp del: fun_upd_apply)
  then show ?thesis using rewound s1(2) by blast
qed

section \<open>Arguments\<close>

definition embedded :: "byte list \<Rightarrow> bool" where
  "embedded a \<longleftrightarrow> strstr_at HF_FILE_PLACEHOLDER a \<noteq> None \<and> a \<noteq> HF_FILE_PLACEHOLDER"

text \<open>What an argument becomes on its own: the text before the placeholder and the path of the input;
  text after the placeholder is lost.\<close>

definition arg_subst :: "byte list \<Rightarrow> byte list" where
  "arg_subst a =
     (case strstr_at HF_FILE_PLACEHOLDER a of
        None \<Rightarrow> a
      | Some i \<Rightarrow> if a = HF_FILE_PLACEHOLDER then HF_INPUT_FILE_PATH else snprintf_cut PATH_MAX (take i a @ HF_INPUT_FILE_PATH))"

lemma strstr_self: "strstr_at s s = Some 0"
  by (subst strstr_at.simps) simp

lemma prepare_args_eq:
  "prepare_args as d = (map (\<lambda>a. if embedded a then ArgData else ArgStr (arg_subst a)) as,
     if filter embedded as = [] then d else arg_subst (last (filter embedded as)))"
proof (induction as arbitrary: d)
  case (Cons a as)
  show ?case
  proof (cases "embedded a")
    case True
    then obtain i where i: "strstr_at HF_FILE_PLACEHOLDER a = Some i" "a \<noteq> HF_FILE_PLACEHOLDER" by (auto simp: embedded_def)
    then have "arg_subst a = snprintf_cut PATH_MAX (take i a @ HF_INPUT_FILE_PATH)" by (simp add: arg_subst_def)
    then show ?thesis using Cons True i by simp
  next
    case False
    then show ?thesis using Cons by (cases "a = HF_FILE_PLACEHOLDER")
      (auto simp: embedded_def arg_subst_def strstr_self split: option.split)
  qed
qed simp

text \<open>C31: the arguments the target is started with. An argument without the placeholder is passed on, one
  that is the placeholder becomes the path of the input, and every argument in which the
  placeholder is embedded becomes the substitution of the last such argument, because they all
  point to one buffer. With at most one such argument every argument is substituted on its own.\<close>

theorem subproc_prepareExecvArgs_seen:
  assumes "argc \<le> HF_ARGV_MAX" and "length cmdline = argc"
  shows "\<exists>r. subproc_prepareExecvArgs cmdline argc d = Inr r \<and>
    args_seen r = map (\<lambda>a. if embedded a then arg_subst (last (filter embedded cmdline)) else arg_subst a) cmdline \<and>
    (length (filter embedded cmdline) \<le> 1 \<longrightarrow> args_seen r = map arg_subst cmdline)"
proof -
  let ?r = "prepare_args cmdline d"
  have seen: "args_seen ?r = map (\<lambda>a. if embedded a then arg_subst (last (filter embedded cmdline)) else arg_subst a) cmdline"
    by (auto simp: prepare_args_eq args_seen_def filter_empty_conv)
  moreover have "last (filter embedded cmdline) = a" if "length (filter embedded cmdline) \<le> 1" "a \<in> set cmdline" "embedded a" for a
  proof -
    have "a \<in> set (filter embedded cmdline)" using that by simp
    then show ?thesis using that(1) by (cases "filter embedded cmdline") auto
  qed
  then have "args_seen ?r = map arg_subst cmdline" if "length (filter embedded cmdline) \<le> 1"
    using that by (simp add: seen)
  ultimately show ?thesis using assms by (auto simp: subproc_prepareExecvArgs_def)
qed

theorem subproc_prepareExecvArgs_seen_witness:
  "\<exists>r. subproc_prepareExecvArgs [str ''/bin/t'', str ''-a=___FILE___'', str ''-b=___FILE___''] 3 [] = Inr r \<and>
    args_seen r = [str ''/bin/t'', str ''-b=/dev/fd/1021'', str ''-b=/dev/fd/1021'']"
proof -
  have "embedded (str ''-a=___FILE___'')" "embedded (str ''-b=___FILE___'')" "\<not> embedded (str ''/bin/t'')"
    "arg_subst (str ''-b=___FILE___'') = str ''-b=/dev/fd/1021''" "arg_subst (str ''/bin/t'') = str ''/bin/t''"
    by (simp_all add: embedded_def arg_subst_def HF_FILE_PLACEHOLDER_def HF_INPUT_FILE_PATH_def str_def strstr_at.simps snprintf_cut_def PATH_MAX_def)
  then show ?thesis
    using subproc_prepareExecvArgs_seen [of 3 "[str ''/bin/t'', str ''-a=___FILE___'', str ''-b=___FILE___'']" "[]"]
    by (simp add: HF_ARGV_MAX_def)
qed

section \<open>Time limit\<close>

text \<open>The check at a time, as in an iteration of the loop.\<close>

definition check_at :: "wait_cfg \<Rightarrow> proc_t \<Rightarrow> int \<Rightarrow> proc_t" where
  "check_at c s t = subproc_checkTimeLimit c (crP (fzC (\<lambda>f. put_run ((fz_run f)\<lparr>nowUSecs := t\<rparr>) f)) s)"

definition overdue :: "wait_cfg \<Rightarrow> proc_t \<Rightarrow> int \<Rightarrow> bool" where
  "overdue c s t \<longleftrightarrow> v_tmOut c \<noteq> 0 \<and> t - timeStartedUSecs (fz_run (pr_fz s)) > v_tmOut c * 1000000"

lemma put_run_simps [simp]: "fz_run (put_run r f) = r" "timeoutedCnt (put_run r f) = timeoutedCnt f"
  by (simp_all add: put_run_def fz_run_def)

lemma check_at_step:
  "timeStartedUSecs (fz_run (pr_fz (check_at c s t))) = timeStartedUSecs (fz_run (pr_fz s)) \<and>
   tmOutSignaled (fz_run (pr_fz (check_at c s t))) = (tmOutSignaled (fz_run (pr_fz s)) \<or> overdue c s t) \<and>
   timeoutedCnt (pr_fz (check_at c s t)) =
     (if overdue c s t \<and> \<not> tmOutSignaled (fz_run (pr_fz s)) then sz_add (timeoutedCnt (pr_fz s)) 1 else timeoutedCnt (pr_fz s))"
  by (auto simp: check_at_def subproc_checkTimeLimit_def overdue_def runtime_def fz_run_def)

text \<open>C32: a run is counted as timed out exactly once. However often and at whichever times the limit is
  checked, the counter of timeouts grows by one when one of the times is over the limit and the
  run was not signalled before, and not at all otherwise.\<close>

theorem subproc_checkTimeLimit_once:
  assumes "timeoutedCnt (pr_fz s) < 2 ^ 64 - 1"
  shows "timeoutedCnt (pr_fz (foldl (check_at c) s ts)) =
    timeoutedCnt (pr_fz s) + (if \<not> tmOutSignaled (fz_run (pr_fz s)) \<and> (\<exists>t \<in> set ts. overdue c s t) then 1 else 0)"
proof -
  have "timeoutedCnt (pr_fz (foldl (check_at c) s ts)) =
      (if \<not> tmOutSignaled (fz_run (pr_fz s)) \<and> (\<exists>t \<in> set ts. overdue c s t) then sz_add (timeoutedCnt (pr_fz s)) 1 else timeoutedCnt (pr_fz s))"
  proof (induction ts arbitrary: s)
    case (Cons t ts)
    have "overdue c (check_at c s t) u = overdue c s u" for u using check_at_step [of c s t] by (simp add: overdue_def)
    then show ?case using Cons [of "check_at c s t"] check_at_step [of c s t] by auto
  qed simp
  then show ?thesis using assms by (simp add: sz_add_def)
qed

section \<open>Concrete runs\<close>

definition demo_proc :: "fuzz_t \<Rightarrow> proc_t" where
  "demo_proc f = \<lparr>pr_cr = \<lparr>cr_fz = f, blCrashesCnt = 0, dynFileIterExpire = 0\<rparr>, persistentSock = - 1, runState = RS_UNKNOWN, sock_in = [],
     sock_out = [], pr_kills = [], pr_fds = {}, timeOfLongestUnitUSecs = 0\<rparr>"

definition demo_wait :: wait_cfg where
  "demo_wait = \<lparr>v_persistent = False, v_tmOut = 1, v_tmoutVTALRM = False, v_socketFuzzer = False, v_crash = demo_crash_cfg False,
     v_sigs = arch_sigs\<rparr>"

definition demo_reap :: reap_ev where
  "demo_reap = \<lparr>r_sends = (\<lambda>_. IoPart 1), r_arrive = [], r_now = 5, r_sig = Some 17, r_waits = [WaitStatus 44 0 demo_event]\<rparr>"

lemma demo_proc_fz [simp]: "pr_fz (demo_proc f) = f"
  by (simp add: demo_proc_def pr_fz_def)

theorem subproc_checkTimeLimit_once_witness:
  "timeoutedCnt (pr_fz (foldl (check_at demo_wait) (demo_proc (demo_thread (demo_run [1]))) [5, 2000000, 9000000])) = 1"
proof -
  let ?s = "demo_proc (demo_thread (demo_run [1]))"
  have "timeoutedCnt (pr_fz ?s) = 0" "\<not> tmOutSignaled (fz_run (pr_fz ?s))" "overdue demo_wait ?s 2000000"
    by (simp_all add: demo_thread_def fz_run_def demo_session_def demo_run_def overdue_def demo_wait_def)
  then show ?thesis using subproc_checkTimeLimit_once [of ?s demo_wait "[5, 2000000, 9000000]"] by auto
qed

theorem subproc_Run_keeps_invariant_witness:
  "\<exists>s'. subproc_Run (demo_wait\<lparr>v_tmOut := 0\<rparr>) \<lparr>n_socketpair = None, n_fork = 44, n_traced = True\<rparr> (\<lambda>_. demo_reap) (Some zero_hw)
      (demo_proc (demo_thread demo_queue)) = Some (Inr (True, s')) \<and> thr_inv {1} 1 (pr_fz s')"
proof -
  let ?c = "demo_wait\<lparr>v_tmOut := 0\<rparr>" and ?n = "\<lparr>n_socketpair = None, n_fork = 44, n_traced = True\<rparr>" and ?s = "demo_proc (demo_thread demo_queue)"
  have st: "WIFEXITED 0" "\<not> WIFSTOPPED 0" by (simp_all add: WIFEXITED_def WTERMSIG_def WIFSTOPPED_def)
  have f: "run_pid (demo_thread r) = 0" "termTimeStamp (demo_thread r) = 0" for r by (simp_all add: demo_thread_def)
  have "\<exists>t. arch_reapChild ?c (\<lambda>_. demo_reap) 0 (set_pid 44 ?s) = Some (Inr ((), t))"
    by (subst arch_reapChild.simps)
       (simp add: reap_step_def pm_steps demo_wait_def demo_reap_def subproc_persistentModeStateMachine_def check_def SIGIO_def st f
        arch_traceAnalyze_def pzoom_def pbnd_def plift_def modify_def gets_def ret_def arrive_def subproc_checkTermination_def
        subproc_checkTimeLimit_def set_pid_def fuzz_isTerminating_def put_run_def)
  then have "\<exists>s'. subproc_Run ?c ?n (\<lambda>_. demo_reap) (Some zero_hw) ?s = Some (Inr (True, s'))"
    by (auto simp: subproc_Run_def pbnd_def plift_def subproc_New_def new_sockets_def f demo_wait_def check_def modify_def ret_def)
  then show ?thesis using subproc_Run_keeps_invariant demo_thr_inv by fastforce
qed

definition demo_exec :: exec_cfg where
  "demo_exec = \<lparr>x_persistent = True, x_netDriver = False, x_argc = 1, x_cmdline = [str ''/bin/t''], x_asLimit = 0, x_rssLimit = 0,
     x_dataLimit = 0, x_coreLimit = 0, x_stackLimit = 0, x_clearEnv = False, x_env_ptrs = [], x_fuzzNo = 0, x_nullifyStdio = True,
     x_fuzzStdin = True, x_cmpFeedback = True, x_socketFuzzer = False, x_covFeedbackFd = 4, x_cmpFeedbackFd = 5, x_perThreadFd = 6,
     x_inputFd = 7, x_logFd = 8, x_logLevel = 3\<rparr>"

definition demo_sys :: exec_sys where
  "demo_sys = \<lparr>y_setrlimit = (\<lambda>_. True), y_devnull = Some 9, y_nofile = 1024, y_lseek = True\<rparr>"

definition demo_child :: child_t where
  "demo_child = \<lparr>ch_fds = [4 \<mapsto> 40, 5 \<mapsto> 50, 6 \<mapsto> 60, 7 \<mapsto> 70, 8 \<mapsto> 80, 10 \<mapsto> 100, 11 \<mapsto> 90], ch_env = Map.empty, ch_limits = Map.empty,
     ch_rewound = {}, ch_args = [], ch_argData = []\<rparr>"

theorem new_child_fds_witness:
  "\<exists>t. new_child demo_exec demo_sys (10, 11) demo_child = Inr (Some t) \<and> ch_fds t HF_COV_BITMAP_FD = Some 40 \<and> ch_fds t HF_INPUT_FD = Some 70 \<and>
    ch_fds t 0 = Some 70 \<and> ch_fds t HF_PERSISTENT_FD = Some 90"
proof -
  obtain t where t: "new_child demo_exec demo_sys (10, 11) demo_child = Inr (Some t)"
    by (simp add: new_child_def subproc_PrepareExecv_def Let_def demo_exec_def demo_sys_def demo_child_def set_env_def set_limits_def set_limit_def
        util_closeStdio_def dup2_any_def dup2_def pass_input_def pass_log_def rewind_fd_def fd_defs subproc_prepareExecvArgs_def HF_ARGV_MAX_def
        prepare_args_eq del: prepare_args.simps)
  then show ?thesis using new_child_fds [OF t] by (simp add: demo_exec_def demo_sys_def demo_child_def reserved_def fd_defs)
qed

end
