(* ===== verification/HF_Compose.thy ===== *)
theory HF_Compose
  imports HF_Subproc_Props
begin

text \<open>
  The fuzzing loop with the process that runs the target. \<open>HF_Fuzz\<close> has the run of the target and the
  saving of a report as parameters; here they are \<open>subproc_Run\<close> of \<open>HF_Subproc\<close> and
  \<open>report_saveReport\<close> of \<open>HF_Crash\<close>. What is left is the target itself: what it writes into the
  shared maps, which it has mapped as raw memory.
\<close>

section \<open>The interface\<close>

text \<open>
  What the fuzzing loop relies on. The dictionary of constants is memory of the target as well, so a run keeps the
  invariant only if the target keeps the dictionary well formed; that is not promised by the provider but asked of the target.
\<close>

definition dict_kept :: "fuzz_t \<Rightarrow> fuzz_t \<Rightarrow> bool" where
  "dict_kept s t \<longleftrightarrow> (cmpf_ok (feedback_cmpFeedbackMap (fz_hf s)) \<longrightarrow> cmpf_ok (feedback_cmpFeedbackMap (fz_hf t)))"

locale target_frame =
  fixes run_target :: "(fuzz_t, bool) hm" and save_report :: "(fuzz_t, unit) hm"
  assumes run_frame: "run_target s = Inr (ok, t) \<Longrightarrow> dict_kept s t \<Longrightarrow> run_keeps s t"
    and save_frame: "save_report s = Inr (u, t) \<Longrightarrow> run_keeps s t"
    and save_fatal: "save_report s = Inl e \<Longrightarrow> e = LogFatal"
begin

lemma contract:
  assumes "c_subproc_Run c = run_target" and "c_saveReport c = save_report" and "\<And>s e. run_target s = Inl e \<Longrightarrow> e = LogFatal"
    and "\<And>s ok t. run_target s = Inr (ok, t) \<Longrightarrow> dict_kept s t"
  shows "target_ok c"
  using assms run_frame save_frame save_fatal
  by (auto simp: target_ok_def wlp_def split: sum.split)

lemma iteration:
  assumes "c_subproc_Run c = run_target" and "c_saveReport c = save_report" and "\<And>s e. run_target s = Inl e \<Longrightarrow> e = LogFatal"
    and "\<And>s ok t. run_target s = Inr (ok, t) \<Longrightarrow> dict_kept s t"
    and "c_session_path c = None" and "thr_inv Q k s" and "k < 2 ^ 64 - 1"
  shows "case fuzz_fuzzLoop c s of
      None \<Rightarrow> c_externalCommand c = None \<and> pick_loop 0 (started (fz_run s)) = None
    | Some (Inl e) \<Rightarrow> e = LogFatal
    | Some (Inr (_, t)) \<Rightarrow> thr_inv Q (k + 1) t"
proof -
  have "target_ok c" by (rule contract [OF assms(1-4)])
  from thr_fuzzLoop [OF this assms(5-7)] show ?thesis
    using thr_fuzzLoop_None [OF assms(5,6)] by (auto simp: pwlp_def split: option.split sum.split)
qed

end

section \<open>The process\<close>

text \<open>
  What the target writes into the shared maps is a parameter: any contents of the coverage map and of the dictionary of constants.
\<close>

type_synonym target_fx = "fuzz_t \<Rightarrow> feedback_t \<times> cmpfeedback_t"

definition target_writes :: "target_fx \<Rightarrow> fuzz_t \<Rightarrow> fuzz_t" where
  "target_writes fx f = (case fx f of (cov, dict) \<Rightarrow>
     (put_run ((fz_run f)\<lparr>global := (fz_hf f)\<lparr>feedback_cmpFeedbackMap := dict\<rparr>\<rparr>) f)\<lparr>fz_cov := cov\<rparr>)"

lemma target_writes_keeps:
  assumes "dict_kept f (target_writes fx f)"
  shows "run_keeps f (target_writes fx f)"
proof -
  obtain cov m where fx: "fx f = (cov, m)" by (cases "fx f")
  have eq: "fz_run (target_writes fx f) = (fz_run f)\<lparr>global := (fz_hf f)\<lparr>feedback_cmpFeedbackMap := m, io_fs := io_fs (fz_hf f)\<rparr>,
      tmOutSignaled := tmOutSignaled (fz_run f), now := now (fz_run f), nowUSecs := nowUSecs (fz_run f)\<rparr>"
    and "fuzzNo (target_writes fx f) = fuzzNo f"
    by (simp_all add: target_writes_def fx put_run_def fz_run_def fz_hf_def)
  moreover have "cmpf_ok (feedback_cmpFeedbackMap (fz_hf f)) \<longrightarrow> cmpf_ok m"
    using assms unfolding dict_kept_def fz_hf_def [of "target_writes fx f"] eq by simp
  ultimately show ?thesis unfolding run_keeps_def by blast
qed

text \<open>The contract of the target: a well-formed dictionary (a table whose entries are not longer than their array) stays well formed.\<close>

definition keeps_dict :: "target_fx \<Rightarrow> bool" where
  "keeps_dict fx \<longleftrightarrow> (\<forall>f. cmpf_ok (feedback_cmpFeedbackMap (fz_hf f)) \<longrightarrow> cmpf_ok (snd (fx f)))"

lemma keeps_dict_writes:
  assumes "keeps_dict fx"
  shows "dict_kept f (target_writes fx f)"
proof -
  note assms
  moreover have "feedback_cmpFeedbackMap (fz_hf (target_writes fx f)) = snd (fx f)"
    by (simp add: target_writes_def fz_hf_def fz_run_def put_run_def split: prod.split)
  ultimately show ?thesis by (simp add: keeps_dict_def dict_kept_def)
qed

text \<open>Running the target on a thread; the rest of the state of the process is that of \<open>s0\<close>.\<close>

definition process_run ::
  "target_fx \<Rightarrow> wait_cfg \<Rightarrow> new_sys \<Rightarrow> (nat \<Rightarrow> reap_ev) \<Rightarrow> hwcnt_t option \<Rightarrow> proc_t \<Rightarrow> (fuzz_t, bool) pm" where
  "process_run fx w n ev perf s0 f =
     (case subproc_Run w n ev perf (crP (fzC (\<lambda>_. f)) s0) of
        None \<Rightarrow> None
      | Some (Inl e) \<Rightarrow> Some (Inl e)
      | Some (Inr (ok, s)) \<Rightarrow> Some (Inr (ok, if ok then target_writes fx (pr_fz s) else pr_fz s)))"

text \<open>As a function that returns; it is used where \<open>process_run\<close> does.\<close>

definition process_result ::
  "target_fx \<Rightarrow> wait_cfg \<Rightarrow> new_sys \<Rightarrow> (nat \<Rightarrow> reap_ev) \<Rightarrow> hwcnt_t option \<Rightarrow> proc_t \<Rightarrow> (fuzz_t, bool) hm" where
  "process_result fx w n ev perf s0 f = (case process_run fx w n ev perf s0 f of None \<Rightarrow> Inl LogFatal | Some r \<Rightarrow> r)"

definition save_run :: "report_cfg \<Rightarrow> path option \<Rightarrow> (fuzz_t, unit) hm" where
  "save_run rc reportFD f =
     (case report_saveReport rc (run_report f) (reportFD, io_fs (fz_hf f)) of
        Inl e \<Rightarrow> Inl e
      | Inr (_, fs) \<Rightarrow> Inr ((), set_fs fs f))"

lemma process_run_split:
  assumes "process_run fx w n ev perf s0 f = Some (Inr (ok, g))"
  shows "\<exists>h. run_keeps f h \<and> g = (if ok then target_writes fx h else h)"
proof -
  from assms obtain s where s: "subproc_Run w n ev perf (crP (fzC (\<lambda>_. f)) s0) = Some (Inr (ok, s))"
    and g: "g = (if ok then target_writes fx (pr_fz s) else pr_fz s)"
    by (auto simp: process_run_def split: option.splits sum.splits)
  have "run_keeps (pr_fz (crP (fzC (\<lambda>_. f)) s0)) (pr_fz s)" using subproc_Run_keeps s unfolding keeps_def by blast
  then have "run_keeps f (pr_fz s)" by (simp add: crP_def fzC_def pr_fz_def)
  with g show ?thesis by blast
qed

lemma process_run_dict:
  assumes "keeps_dict fx" and "process_run fx w n ev perf s0 f = Some (Inr (ok, g))"
  shows "run_keeps f g \<and> dict_kept f g"
proof -
  from process_run_split [OF assms(2)] obtain h where h: "run_keeps f h" "g = (if ok then target_writes fx h else h)" by blast
  have "run_keeps h g" using h(2) target_writes_keeps [OF keeps_dict_writes [OF assms(1)]] run_keeps_refl by simp
  then have k: "run_keeps f g" by (rule run_keeps_trans [OF h(1)])
  moreover have "dict_kept f g" using k by (auto simp: run_keeps_def dict_kept_def fz_hf_def)
  ultimately show ?thesis by blast
qed

lemma process_run_keeps:
  assumes "process_run fx w n ev perf s0 f = Some (Inr (ok, g))" and "dict_kept f g"
  shows "run_keeps f g"
proof -
  from process_run_split [OF assms(1)] obtain h where h: "run_keeps f h" "g = (if ok then target_writes fx h else h)" by blast
  show ?thesis
  proof (cases ok)
    case True
    have eq: "fz_run g = (fz_run h)\<lparr>global := (fz_hf h)\<lparr>feedback_cmpFeedbackMap := snd (fx h)\<rparr>\<rparr>" "fuzzNo g = fuzzNo h"
      using h(2) True by (simp_all add: target_writes_def fz_run_def put_run_def split: prod.split)
    then have ok': "cmpf_ok (feedback_cmpFeedbackMap (fz_hf f)) \<longrightarrow> cmpf_ok (snd (fx h))"
      using assms(2) by (simp add: dict_kept_def fz_hf_def)
    obtain m fs b u v where "fz_run h = (fz_run f)\<lparr>global := (fz_hf f)\<lparr>feedback_cmpFeedbackMap := m, io_fs := fs\<rparr>,
        tmOutSignaled := b, now := u, nowUSecs := v\<rparr>" using h(1) unfolding run_keeps_def by blast
    then have "fz_run g = (fz_run f)\<lparr>global := (fz_hf f)\<lparr>feedback_cmpFeedbackMap := snd (fx h), io_fs := fs\<rparr>,
        tmOutSignaled := b, now := u, nowUSecs := v\<rparr>" unfolding eq by (simp add: fz_hf_def)
    moreover have "fuzzNo g = fuzzNo f" using h(1) eq(2) by (simp add: run_keeps_def)
    ultimately show ?thesis unfolding run_keeps_def using ok' by blast
  qed (use h in simp)
qed

interpretation process: target_frame "process_result fx w n ev perf s0" "save_run rc reportFD"
  for fx w n ev perf s0 rc reportFD
proof
  show "run_keeps s t" if "process_result fx w n ev perf s0 s = Inr (ok, t)" "dict_kept s t" for s ok t
    using that process_run_keeps by (auto simp: process_result_def split: option.splits)
  show "run_keeps s t" if "save_run rc reportFD s = Inr (u, t)" for s u t
    using that run_keeps_fs by (auto simp: save_run_def split: sum.splits)
  show "e = LogFatal" if "save_run rc reportFD s = Inl e" for s e
    using that by (auto simp: save_run_def report_saveReport_def Let_def split: sum.splits if_splits)
qed

section \<open>Properties\<close>


section \<open>Witness\<close>

text \<open>A process that is gone at the first look.\<close>

definition demo_gone :: reap_ev where
  "demo_gone = \<lparr>r_sends = (\<lambda>_. IoPart 1), r_arrive = [], r_now = 5, r_sig = Some 17, r_waits = [WaitNoChild]\<rparr>"

text \<open>The target marks an edge and leaves a dictionary with one constant.\<close>

definition demo_fx :: target_fx where
  "demo_fx = (\<lambda>f. ((fz_cov f)\<lparr>pidNewEdge := (\<lambda>_. 3)\<rparr>,
     \<lparr>cmpf_cnt = 1, cmpf_valArr = [\<lparr>cv_val = [7, 7] @ replicate 30 0, cv_len = 2\<rparr>]\<rparr>))"

lemma demo_keeps_dict: "keeps_dict demo_fx"
  by (simp add: keeps_dict_def demo_fx_def cmpf_ok_def)

definition demo_report :: report_cfg where
  "demo_report = \<lparr>rc_reportFile = None, rc_workDir = str ''/w'', rc_localtm = [], rc_mutationsPerRun = 6, rc_externalCommand = None,
     rc_fuzzStdin = False, rc_tmOut = 1, rc_ignoreAddr = 0, rc_asLimit = 0, rc_rssLimit = 0, rc_dataLimit = 0, rc_dictionaryFile = None,
     rc_dynFileMethod = 0, rc_cmdline = [str ''/bin/t'']\<rparr>"

definition demo_process :: "fuzz_t \<Rightarrow> (fault + bool \<times> fuzz_t) option" where
  "demo_process = process_run demo_fx (demo_wait\<lparr>v_tmOut := 0\<rparr>) \<lparr>n_socketpair = None, n_fork = 44, n_traced = True\<rparr> (\<lambda>_. demo_gone) (Some zero_hw)
     (demo_proc (demo_thread demo_queue))"

lemma demo_process_returns: "\<exists>g. demo_process f = Some (Inr (True, g))"
proof -
  let ?c = "demo_wait\<lparr>v_tmOut := 0\<rparr>" and ?n = "\<lparr>n_socketpair = None, n_fork = 44, n_traced = True\<rparr>"
  have reap: "\<exists>t. arch_reapChild ?c (\<lambda>_. demo_gone) 0 s = Some (Inr ((), t))" for s
    by (subst arch_reapChild.simps)
       (simp add: reap_step_def pm_steps demo_wait_def demo_gone_def subproc_persistentModeStateMachine_def check_def SIGIO_def
        pbnd_def plift_def modify_def ret_def)
  have new: "\<exists>t. subproc_New (v_persistent ?c) ?n s = Inr (True, t)" for s
    by (auto simp: subproc_New_def new_sockets_def demo_wait_def Let_def)
  have "\<exists>t. subproc_Run ?c ?n (\<lambda>_. demo_gone) (Some zero_hw) s = Some (Inr (True, t))" for s
  proof -
    obtain t where t: "subproc_New (v_persistent ?c) ?n s = Inr (True, t)" using new by blast
    moreover obtain u where "arch_reapChild ?c (\<lambda>_. demo_gone) 0 t = Some (Inr ((), u))" using reap by blast
    ultimately show ?thesis by (simp add: subproc_Run_def pbnd_def plift_def check_def modify_def ret_def)
  qed
  from this [of "crP (fzC (\<lambda>_. f)) (demo_proc (demo_thread demo_queue))"] show ?thesis
    by (auto simp: demo_process_def process_run_def)
qed

definition demo_process_cfg :: fuzz_cfg where
  "demo_process_cfg = demo_cfg\<lparr>c_subproc_Run := (\<lambda>f. the (demo_process f)), c_saveReport := save_run demo_report (Some (str ''/r''))\<rparr>"

lemma demo_process_iteration: "\<exists>t. fuzz_fuzzLoop demo_process_cfg (demo_thread demo_queue) = Some (Inr ((), t))"
proof (rule external_iteration [OF demo_thr_inv])
  show "t_inPlaceEdit (ses_tab (fz_ses (demo_thread demo_queue))) = 0"
    by (simp add: demo_thread_def demo_session_def demo_table_def)
  show "\<exists>g. c_subproc_Run demo_process_cfg f = Inr (True, g) \<and> run_keeps f g" for f
    using demo_process_returns [of f] process_run_dict [OF demo_keeps_dict]
    by (fastforce simp: demo_process_cfg_def demo_process_def)
  show "\<exists>g. c_saveReport demo_process_cfg f = Inr ((), g)" for f
    by (simp add: demo_process_cfg_def save_run_def report_saveReport_def Let_def)
qed (simp_all add: demo_process_cfg_def demo_cfg_def)


end
