(* ===== verification/HF_Persist.thy ===== *)
theory HF_Persist
  imports HF_Subproc HF_Instrument
begin

text \<open>
  The side of a persistent process: \<open>honggfuzz/libhfuzz/fetch.c\<close>, \<open>persistent.c\<close> and \<open>performance.c\<close>.
  The second part puts both sides of the dialogue together: a step relation whose steps are the
  system calls of the fuzzer (\<open>sm_iter\<close> of \<open>HF_Subproc\<close>) and of the process, in any order.
\<close>

section \<open>Fetching an input\<close>

definition size_of_bytes :: "byte list \<Rightarrow> u64" where
  "size_of_bytes bs = horner_sum ucast 256 bs"

text \<open>
  What a sanitizer lets the target read of the mapped input: the first \<open>len\<close> bytes; the size of the
  rest is computed without a check.
\<close>

definition fetchSanPoison :: "nat \<Rightarrow> nat \<times> nat" where
  "fetchSanPoison len = (len, sz_sub HF_INPUT_MAX_SIZE len)"

text \<open>
  \<open>HonggfuzzFetchData\<close>: \<open>left\<close> is what arrives on the socket; the result is what was written to it,
  the length of the input and the poisoned range.
\<close>

definition HonggfuzzFetchData ::
  "(nat \<Rightarrow> io_ev) \<Rightarrow> (nat \<Rightarrow> io_ev) \<Rightarrow> byte list \<Rightarrow> (fault + (byte list \<times> u64 \<times> nat \<times> nat)) option" where
  "HonggfuzzFetchData wev revt left =
     (case files_writeToFd wev [HFReadyTag] of
        None \<Rightarrow> None
      | Some (ok, w) \<Rightarrow>
          if \<not> ok then Some (Inl LogFatal)
          else case files_readFromFd revt left 8 of
            None \<Rightarrow> Some (Inl LogFatal)
          | Some bs \<Rightarrow>
              if length bs \<noteq> 8 then Some (Inl LogFatal)
              else Some (Inr (w, size_of_bytes bs, fetchSanPoison (unat (size_of_bytes bs)))))"

text \<open>\<open>init\<close>: the input is mapped when its descriptor is open (\<open>mapped\<close>: the mapping succeeds).\<close>

definition fetch_init :: "bool \<Rightarrow> bool \<Rightarrow> fault + bool" where
  "fetch_init fd_open mapped = (if \<not> fd_open then Inr False else if mapped then Inr True else Inl LogFatal)"

definition fetchIsInputAvailable :: "bool \<Rightarrow> bool" where
  "fetchIsInputAvailable inputFile = inputFile"

section \<open>Performance\<close>

definition HF_CHECK_INTERVAL_USECS :: u64 where "HF_CHECK_INTERVAL_USECS = 20000000"
definition HF_RESET_RATIO :: u64 where "HF_RESET_RATIO = 5"

record perf_t =
  iterCnt :: u64
  firstInputUSecs :: u64
  initialUSecsPerExec :: u64
  lastCheckUSecs :: u64
  lastCheckIters :: u64
  perf_initialized :: bool

definition perf0 :: perf_t where
  "perf0 = \<lparr>iterCnt = 0, firstInputUSecs = 0, initialUSecsPerExec = 0, lastCheckUSecs = 0, lastCheckIters = 0, perf_initialized = False\<rparr>"

text \<open>The clock is read up to three times.\<close>

definition performanceInit :: "u64 \<times> u64 \<times> u64 \<Rightarrow> (perf_t, bool) hm" where
  "performanceInit = (\<lambda>(t1, t2, t3) p.
     let p = (if iterCnt p = 1 then p\<lparr>firstInputUSecs := t1\<rparr> else p);
         timeDiffUSecs = t2 - firstInputUSecs p
     in if iterCnt p = 5000 \<or> timeDiffUSecs > HF_CHECK_INTERVAL_USECS
        then if iterCnt p = 0 then Inl DivByZero
             else Inr (True, p\<lparr>initialUSecsPerExec := timeDiffUSecs div iterCnt p, lastCheckUSecs := t3, lastCheckIters := iterCnt p\<rparr>)
        else Inr (False, p))"

definition performanceTooSlow :: "u64 \<times> u64 \<times> u64 \<Rightarrow> (perf_t, bool) hm" where
  "performanceTooSlow = (\<lambda>(t1, t2, t3) p.
     let timeDiffUSecs = t1 - lastCheckUSecs p
     in if timeDiffUSecs > HF_CHECK_INTERVAL_USECS
        then if iterCnt p - lastCheckIters p = 0 then Inl DivByZero
             else if timeDiffUSecs div (iterCnt p - lastCheckIters p) > initialUSecsPerExec p * HF_RESET_RATIO then Inr (True, p)
             else Inr (False, p\<lparr>lastCheckIters := iterCnt p, lastCheckUSecs := t2\<rparr>)
        else Inr (False, p))"

text \<open>The result is whether the process exits.\<close>

definition performanceCheck :: "u64 \<times> u64 \<times> u64 \<Rightarrow> (perf_t, bool) hm" where
  "performanceCheck ts =
     bnd (modify (\<lambda>p. p\<lparr>iterCnt := iterCnt p + 1\<rparr>)) (\<lambda>_.
     bnd (gets perf_initialized) (\<lambda>ini.
     if \<not> ini then
       bnd (performanceInit ts) (\<lambda>b. bnd (modify (\<lambda>p. p\<lparr>perf_initialized := b\<rparr>)) (\<lambda>_. ret False))
     else performanceTooSlow ts))"

section \<open>Running inputs\<close>

text \<open>
  A process: its instrumentation, its speed, and what it wrote to the socket. The target (\<open>tgt\<close>:
  \<open>LLVMFuzzerTestOneInput\<close> on the bytes of an input) is a parameter.
\<close>

record persist_t =
  ps_ins :: instr_t
  ps_perf :: perf_t
  ps_sent :: "byte list"

definition insP :: "(instr_t, 'a) hm \<Rightarrow> (persist_t, 'a) pm" where
  "insP m = plift (zoom ps_ins (\<lambda>i s. s\<lparr>ps_ins := i\<rparr>) m)"

definition HonggfuzzRunOneInput :: "(byte list \<Rightarrow> (instr_t, int) hm) \<Rightarrow> byte list \<Rightarrow> (persist_t, unit) pm" where
  "HonggfuzzRunOneInput tgt buf =
     pbnd (insP instrumentResetLocalCovFeedback) (\<lambda>_.
     pbnd (insP (tgt buf)) (\<lambda>r.
     pbnd (plift (check LogFatal (r = 0))) (\<lambda>_.
     insP instrument8BitCountersCount)))"

text \<open>What an iteration meets: the clock, the transfers on the socket, the bytes that arrive on it and
  the content of the mapped input.\<close>

record iter_ev =
  it_clock :: "u64 \<times> u64 \<times> u64"
  it_writes :: "nat \<Rightarrow> io_ev"
  it_reads :: "nat \<Rightarrow> io_ev"
  it_left :: "byte list"
  it_mapped :: "byte list"

definition fetchP :: "iter_ev \<Rightarrow> (persist_t, u64) pm" where
  "fetchP e = (\<lambda>s. case HonggfuzzFetchData (it_writes e) (it_reads e) (it_left e) of
     None \<Rightarrow> None
   | Some (Inl err) \<Rightarrow> Some (Inl err)
   | Some (Inr (w, len, _)) \<Rightarrow> Some (Inr (len, s\<lparr>ps_sent := ps_sent s @ w\<rparr>)))"

text \<open>One iteration; \<open>True\<close> when the process exits. A target that gets a length beyond the mapping
  reads outside of it.\<close>

definition persistent_iter :: "(byte list \<Rightarrow> (instr_t, int) hm) \<Rightarrow> iter_ev \<Rightarrow> (persist_t, bool) pm" where
  "persistent_iter tgt e =
     pbnd (plift (zoom ps_perf (\<lambda>p s. s\<lparr>ps_perf := p\<rparr>) (performanceCheck (it_clock e)))) (\<lambda>slow.
     if slow then plift (ret True)
     else
       pbnd (fetchP e) (\<lambda>len.
       pbnd (plift (check OutOfBounds (unat len \<le> length (it_mapped e)))) (\<lambda>_.
       pbnd (HonggfuzzRunOneInput tgt (take (unat len) (it_mapped e))) (\<lambda>_.
       plift (ret False)))))"

partial_function (option) HonggfuzzPersistentLoop ::
  "(byte list \<Rightarrow> (instr_t, int) hm) \<Rightarrow> (nat \<Rightarrow> iter_ev) \<Rightarrow> nat \<Rightarrow> (persist_t, unit) pm" where
  "HonggfuzzPersistentLoop tgt ev i s =
     (case persistent_iter tgt (ev i) s of
        None \<Rightarrow> None
      | Some (Inl e) \<Rightarrow> Some (Inl e)
      | Some (Inr (exits, s)) \<Rightarrow> if exits then Some (Inr ((), s)) else HonggfuzzPersistentLoop tgt ev (i + 1) s)"

text \<open>\<open>HonggfuzzRunFromFile\<close>: \<open>opened\<close> is the content of the file named by the last argument, when there is
  one that can be opened.\<close>

definition HonggfuzzRunFromFile :: "(byte list \<Rightarrow> (instr_t, int) hm) \<Rightarrow> (nat \<Rightarrow> io_ev) \<Rightarrow> byte list option \<Rightarrow> byte list \<Rightarrow> (persist_t, int) pm" where
  "HonggfuzzRunFromFile tgt revt opened stdin =
     (case files_readFromFd revt (case opened of None \<Rightarrow> stdin | Some c \<Rightarrow> c) HF_INPUT_MAX_SIZE of
        None \<Rightarrow> plift (ret (- 1))
      | Some buf \<Rightarrow> pbnd (HonggfuzzRunOneInput tgt buf) (\<lambda>_. plift (ret 0)))"

definition HonggfuzzMain ::
  "(byte list \<Rightarrow> (instr_t, int) hm) \<Rightarrow> bool \<Rightarrow> (nat \<Rightarrow> iter_ev) \<Rightarrow> (nat \<Rightarrow> io_ev) \<Rightarrow> byte list option \<Rightarrow> byte list \<Rightarrow> (persist_t, int) pm" where
  "HonggfuzzMain tgt inputFile ev revt opened stdin =
     pbnd (insP instrumentClearNewCov) (\<lambda>_.
     if \<not> fetchIsInputAvailable inputFile then HonggfuzzRunFromFile tgt revt opened stdin
     else pbnd (HonggfuzzPersistentLoop tgt ev 0) (\<lambda>_. plift (ret 0)))"

section \<open>Both sides\<close>

text \<open>
  The process writes the tag, reads the size (some of its bytes have arrived), runs the target on
  an input of a size, or is dead. The fuzzer is between two runs or waits for the end of one.
\<close>

datatype child_pc = CReady | CFetch "byte list" | CRun u64 | CDead

datatype parent_pc = ParIdle | ParReap

record dialogue_t =
  dl_proc :: proc_t
  dl_par :: parent_pc
  dl_child :: child_pc
  dl_ran :: "u64 list"

definition cur_size :: "proc_t \<Rightarrow> u64" where
  "cur_size s = of_nat (d_size (dynfile (fz_run (pr_fz s))))"

definition set_input :: "dynfile_t \<Rightarrow> proc_t \<Rightarrow> proc_t" where
  "set_input df s = crP (fzC (\<lambda>f. put_run ((fz_run f)\<lparr>dynfile := df\<rparr>) f)) s"

text \<open>
  Between two runs the fuzzer may change the input. A process that was sent \<open>SIGKILL\<close> because the
  size could not be sent returns from no further system call, so it takes no step of the dialogue any more and counts as
  dead here from the signal on. For the fuzzer it is still there: until it is reaped (\<open>p_reaped\<close>), the fuzzer may go on with \<open>p_iter\<close>,
  and so send or signal again. A process may also die at any other time.
\<close>

inductive dialogue_step :: "dialogue_t \<Rightarrow> dialogue_t \<Rightarrow> bool" where
  p_input: "dl_par d = ParIdle \<Longrightarrow> dialogue_step d (d\<lparr>dl_proc := set_input df (dl_proc d)\<rparr>)"
| p_fork: "dl_par d = ParIdle \<Longrightarrow> run_pid (pr_fz (dl_proc d)) = 0 \<Longrightarrow> n_fork n > 0 \<Longrightarrow> n_socketpair n \<noteq> None \<Longrightarrow>
    subproc_New True n (dl_proc d) = Inr (True, s) \<Longrightarrow>
    dialogue_step d (d\<lparr>dl_proc := s, dl_par := ParReap, dl_child := CReady, dl_ran := []\<rparr>)"
| p_again: "dl_par d = ParIdle \<Longrightarrow> run_pid (pr_fz (dl_proc d)) \<noteq> 0 \<Longrightarrow>
    subproc_New True n (dl_proc d) = Inr (True, s) \<Longrightarrow> dialogue_step d (d\<lparr>dl_proc := s, dl_par := ParReap\<rparr>)"
| p_iter: "dl_par d = ParReap \<Longrightarrow> sm_iter ev (dl_proc d) = Some (Inr (nx, s)) \<Longrightarrow>
    dialogue_step d (d\<lparr>dl_proc := s, dl_par := (if nx = SmReturn True then ParIdle else ParReap),
      dl_child := (if pr_kills s \<noteq> pr_kills (dl_proc d) then CDead else dl_child d)\<rparr>)"
| p_reaped: "dl_par d = ParReap \<Longrightarrow> dl_child d = CDead \<Longrightarrow>
    dialogue_step d (d\<lparr>dl_proc := set_pid 0 (dl_proc d), dl_par := ParIdle\<rparr>)"
| c_ready: "dl_child d = CReady \<Longrightarrow>
    dialogue_step d (d\<lparr>dl_proc := (dl_proc d)\<lparr>sock_in := sock_in (dl_proc d) @ [HFReadyTag]\<rparr>, dl_child := CFetch []\<rparr>)"
| c_read: "dl_child d = CFetch got \<Longrightarrow> sock_out (dl_proc d) = bs @ r \<Longrightarrow> bs \<noteq> [] \<Longrightarrow> length (got @ bs) \<le> 8 \<Longrightarrow>
    dialogue_step d (d\<lparr>dl_proc := (dl_proc d)\<lparr>sock_out := r\<rparr>, dl_child := CFetch (got @ bs)\<rparr>)"
| c_call: "dl_child d = CFetch got \<Longrightarrow> length got = 8 \<Longrightarrow> dialogue_step d (d\<lparr>dl_child := CRun (size_of_bytes got)\<rparr>)"
| c_return: "dl_child d = CRun n \<Longrightarrow> dialogue_step d (d\<lparr>dl_child := CReady, dl_ran := dl_ran d @ [n]\<rparr>)"
| c_die: "dialogue_step d (d\<lparr>dl_child := CDead\<rparr>)"

inductive_cases dialogue_stepE: "dialogue_step d d'"

text \<open>A fuzzer that has not started a process.\<close>

definition dialogue0 :: "dialogue_t \<Rightarrow> bool" where
  "dialogue0 d \<longleftrightarrow> dl_par d = ParIdle \<and> dl_child d = CDead \<and> run_pid (pr_fz (dl_proc d)) = 0"

inductive dialogue_reach :: "dialogue_t \<Rightarrow> bool" where
  start: "dialogue0 d \<Longrightarrow> dialogue_reach d"
| step: "dialogue_reach d \<Longrightarrow> dialogue_step d d' \<Longrightarrow> dialogue_reach d'"

end
