(* ===== verification/HF_Persist_Props.thy ===== *)
theory HF_Persist_Props
  imports HF_Persist HF_Subproc_Props
begin

text \<open>
  The dialogue of the fuzzer with a persistent process: sizes arrive as they were sent, the process
  only runs while the fuzzer waits, and neither side waits for ever for the other. The check of
  the speed of a process.
\<close>

section \<open>Sizes\<close>

lemma low_byte: "ucast (ucast w :: byte) = take_bit 8 (w :: u64)"
  by (rule bit_eqI) (auto simp: bit_simps)

lemma bytes_of_word:
  "horner_sum ucast 256 (map (\<lambda>i. ucast (drop_bit (8 * i) w) :: byte) [0..<n]) = take_bit (8 * n) (w :: u64)"
proof (induction n arbitrary: w)
  case (Suc n)
  have up: "[0..<Suc n] = 0 # map Suc [0..<n]" by (simp add: map_Suc_upt upt_conv_Cons)
  have "map (\<lambda>i. ucast (drop_bit (8 * i) w) :: byte) [0..<Suc n] = ucast w # map (\<lambda>i. ucast (drop_bit (8 * i) (drop_bit 8 w))) [0..<n]"
    unfolding up by (simp add: comp_def add.commute)
  then have "horner_sum ucast 256 (map (\<lambda>i. ucast (drop_bit (8 * i) w) :: byte) [0..<Suc n]) =
      ucast (ucast w :: byte) + 256 * take_bit (8 * n) (drop_bit 8 w)"
    using Suc [of "drop_bit 8 w"] by (simp only: horner_sum_simps)
  also have "\<dots> = take_bit 8 w + push_bit 8 (take_bit (8 * n) (drop_bit 8 w))"
    by (simp add: push_bit_eq_mult mult.commute low_byte)
  also have "\<dots> = take_bit 8 w OR push_bit 8 (take_bit (8 * n) (drop_bit 8 w))"
    by (rule disjunctive_add) (auto simp: bit_simps)
  also have "\<dots> = take_bit (8 * Suc n) w"
    by (rule bit_eqI) (auto simp: bit_simps)
  finally show ?case .
qed simp

lemma size_roundtrip: "size_of_bytes (size_bytes w) = w" "length (size_bytes w) = 8"
  using bytes_of_word [of w 8] by (simp_all add: size_bytes_def size_of_bytes_def take_bit_word_eq_self)

section \<open>The invariant\<close>

definition ran_last :: "dialogue_t \<Rightarrow> bool" where
  "ran_last d \<longleftrightarrow> dl_ran d \<noteq> [] \<and> last (dl_ran d) = cur_size (dl_proc d)"

text \<open>Before the first size was sent, when the next size can be sent, and after it was sent.\<close>

definition inv_initial :: "dialogue_t \<Rightarrow> bool" where
  "inv_initial d \<longleftrightarrow> runState (dl_proc d) = RS_WAITING_FOR_INITIAL_READY \<and> dl_par d = ParReap \<and> sock_out (dl_proc d) = [] \<and>
     (dl_child d = CReady \<and> sock_in (dl_proc d) = [] \<or> dl_child d = CFetch [] \<and> sock_in (dl_proc d) = [HFReadyTag] \<or>
      dl_child d = CDead \<and> sock_in (dl_proc d) \<in> {[], [HFReadyTag]})"

definition inv_send :: "dialogue_t \<Rightarrow> bool" where
  "inv_send d \<longleftrightarrow> runState (dl_proc d) = RS_SEND_DATA \<and> sock_in (dl_proc d) = [] \<and>
     (dl_child d = CFetch [] \<and> sock_out (dl_proc d) = [] \<or> dl_child d = CDead)"

definition inv_sent :: "dialogue_t \<Rightarrow> bool" where
  "inv_sent d \<longleftrightarrow> runState (dl_proc d) = RS_WAITING_FOR_READY \<and> dl_par d = ParReap \<and>
     ((\<exists>got. dl_child d = CFetch got \<and> sock_in (dl_proc d) = [] \<and> got @ sock_out (dl_proc d) = size_bytes (cur_size (dl_proc d))) \<or>
      dl_child d = CRun (cur_size (dl_proc d)) \<and> sock_in (dl_proc d) = [] \<and> sock_out (dl_proc d) = [] \<or>
      dl_child d = CReady \<and> sock_in (dl_proc d) = [] \<and> sock_out (dl_proc d) = [] \<and> ran_last d \<or>
      dl_child d = CFetch [] \<and> sock_in (dl_proc d) = [HFReadyTag] \<and> sock_out (dl_proc d) = [] \<and> ran_last d \<or>
      dl_child d = CDead \<and> (sock_in (dl_proc d) = [] \<or> sock_in (dl_proc d) = [HFReadyTag] \<and> ran_last d))"

definition dialogue_inv :: "dialogue_t \<Rightarrow> bool" where
  "dialogue_inv d \<longleftrightarrow>
     dl_par d = ParIdle \<and> run_pid (pr_fz (dl_proc d)) = 0 \<and> dl_child d = CDead \<or>
     run_pid (pr_fz (dl_proc d)) \<noteq> 0 \<and> (inv_initial d \<or> inv_send d \<or> inv_sent d)"

lemmas inv_defs = dialogue_inv_def inv_initial_def inv_send_def inv_sent_def ran_last_def

lemma sm_iter_size: "sm_iter ev s = Some (Inr (x, t)) \<Longrightarrow> cur_size t = cur_size s \<and> run_pid (pr_fz t) = run_pid (pr_fz s)"
  using sm_iter_keeps by (simp add: cur_size_def)

lemma cur_size_updates [simp]:
  "cur_size (s\<lparr>runState := r\<rparr>) = cur_size s" "cur_size (s\<lparr>sock_in := i\<rparr>) = cur_size s" "cur_size (s\<lparr>sock_out := i\<rparr>) = cur_size s"
  "cur_size (send_kill sig s) = cur_size s"
  by (simp_all add: cur_size_def)

lemma send_result:
  assumes "subproc_persistentSendFileIndicator ev s = Some (ok, t)"
  shows "\<exists>w. t = s\<lparr>sock_out := sock_out s @ w\<rparr> \<and> (ok \<longrightarrow> w = size_bytes (cur_size s))"
proof -
  obtain w where w: "write_loop ev 0 [] (size_bytes (cur_size s)) = Some (ok, w)" "t = s\<lparr>sock_out := sock_out s @ w\<rparr>"
    using assms by (auto simp: subproc_persistentSendFileIndicator_def files_sendToSocketNB_def cur_size_def split: option.splits)
  then show ?thesis using write_loop_written [OF w(1)] by auto
qed

text \<open>One iteration of the state machine while it waits for the tag.\<close>

lemma sm_wait_empty:
  "runState s \<in> {RS_WAITING_FOR_INITIAL_READY, RS_WAITING_FOR_READY} \<Longrightarrow> sock_in s = [] \<Longrightarrow> sm_iter ev s = Some (Inr (SmReturn False, s))"
  by (auto simp: sm_iter_def subproc_persistentGetReady_def)

lemma sm_wait_tag:
  "runState s = RS_WAITING_FOR_INITIAL_READY \<Longrightarrow> sock_in s = [HFReadyTag] \<Longrightarrow>
    sm_iter ev s = Some (Inr (SmGoOn, s\<lparr>sock_in := [], runState := RS_SEND_DATA\<rparr>))"
  "runState s = RS_WAITING_FOR_READY \<Longrightarrow> sock_in s = [HFReadyTag] \<Longrightarrow>
    sm_iter ev s = Some (Inr (SmReturn True, s\<lparr>sock_in := [], runState := RS_SEND_DATA\<rparr>))"
  by (simp_all add: sm_iter_def subproc_persistentGetReady_def)

lemma sm_send:
  assumes "runState s = RS_SEND_DATA" and "sm_iter ev s = Some (Inr (nx, t))"
  shows "(\<exists>w. nx = SmReturn False \<and> t = send_kill SIGKILL (s\<lparr>sock_out := sock_out s @ w\<rparr>)) \<or>
    nx = SmGoOn \<and> t = s\<lparr>sock_out := sock_out s @ size_bytes (cur_size s), runState := RS_WAITING_FOR_READY\<rparr>"
proof -
  obtain ok u where u: "subproc_persistentSendFileIndicator ev s = Some (ok, u)"
    and nx: "nx = (if \<not> ok then SmReturn False else SmGoOn)" "t = (if \<not> ok then send_kill SIGKILL u else u\<lparr>runState := RS_WAITING_FOR_READY\<rparr>)"
    using assms by (auto simp: sm_iter_def split: option.splits if_splits)
  obtain w where "u = s\<lparr>sock_out := sock_out s @ w\<rparr>" "ok \<longrightarrow> w = size_bytes (cur_size s)" using send_result [OF u] by blast
  with nx show ?thesis by (cases ok) auto
qed

lemma kills_kill: "pr_kills (send_kill sig s) \<noteq> pr_kills s"
  by (simp add: send_kill_def)

text \<open>Every iteration either finds no tag and changes nothing, or takes the tag, or sends.\<close>

lemma p_iter_inv:
  assumes inv: "dialogue_inv d" and par: "dl_par d = ParReap" and it: "sm_iter ev (dl_proc d) = Some (Inr (nx, s))"
  shows "dialogue_inv (d\<lparr>dl_proc := s, dl_par := (if nx = SmReturn True then ParIdle else ParReap),
      dl_child := (if pr_kills s \<noteq> pr_kills (dl_proc d) then CDead else dl_child d)\<rparr>)" (is "dialogue_inv ?e")
proof -
  have pid: "run_pid (pr_fz (dl_proc d)) \<noteq> 0" and cases: "inv_initial d \<or> inv_send d \<or> inv_sent d"
    using inv par by (auto simp: dialogue_inv_def)
  consider (wait) "runState (dl_proc d) \<in> {RS_WAITING_FOR_INITIAL_READY, RS_WAITING_FOR_READY}" "sock_in (dl_proc d) = []"
    | (init) "inv_initial d" "sock_in (dl_proc d) = [HFReadyTag]" | (sent) "inv_sent d" "sock_in (dl_proc d) = [HFReadyTag]" | (send) "inv_send d"
    using cases by (auto simp: inv_initial_def inv_sent_def)
  then show ?thesis
  proof cases
    case wait
    then have "nx = SmReturn False" "s = dl_proc d" using it sm_wait_empty [of "dl_proc d" ev] by simp_all
    then have "?e = d" using par by simp
    then show ?thesis using inv by simp
  next
    case init
    then have "inv_send ?e" using it sm_wait_tag(1) [of "dl_proc d" ev] by (auto simp: inv_initial_def inv_send_def)
    then show ?thesis using pid sm_iter_size [OF it] by (simp add: dialogue_inv_def)
  next
    case sent
    then have "inv_send ?e" using it sm_wait_tag(2) [of "dl_proc d" ev] by (auto simp: inv_sent_def inv_send_def)
    then show ?thesis using pid sm_iter_size [OF it] by (simp add: dialogue_inv_def)
  next
    case send
    then have rs: "runState (dl_proc d) = RS_SEND_DATA" by (simp add: inv_send_def)
    from sm_send [OF rs it] have "inv_send ?e \<or> inv_sent ?e"
    proof (elim disjE exE conjE)
      fix w assume "nx = SmReturn False" "s = send_kill SIGKILL ((dl_proc d)\<lparr>sock_out := sock_out (dl_proc d) @ w\<rparr>)"
      then have "inv_send ?e" using send by (simp add: inv_send_def send_kill_def)
      then show ?thesis ..
    next
      assume "nx = SmGoOn" "s = (dl_proc d)\<lparr>sock_out := sock_out (dl_proc d) @ size_bytes (cur_size (dl_proc d)), runState := RS_WAITING_FOR_READY\<rparr>"
      then have "inv_sent ?e" using send by (auto simp: inv_send_def inv_sent_def)
      then show ?thesis ..
    qed
    then show ?thesis using pid sm_iter_size [OF it] by (auto simp: dialogue_inv_def)
  qed
qed

lemma set_input_simps [simp]:
  "runState (set_input df s) = runState s" "sock_in (set_input df s) = sock_in s" "sock_out (set_input df s) = sock_out s"
  "run_pid (pr_fz (set_input df s)) = run_pid (pr_fz s)"
  by (simp_all add: set_input_def crP_def fzC_def pr_fz_def put_run_def)

lemma new_process:
  assumes "subproc_New True n s = Inr (True, t)" and "run_pid (pr_fz s) = 0" and "n_socketpair n \<noteq> None"
  shows "run_pid (pr_fz t) = n_fork n \<and> runState t = RS_WAITING_FOR_INITIAL_READY \<and> sock_in t = [] \<and> sock_out t = []"
  using assms
  by (auto simp: subproc_New_def new_sockets_def Let_def set_pid_def crP_def fzC_def pr_fz_def split: if_splits option.splits)

lemma old_process: "subproc_New True n s = Inr (ok, t) \<Longrightarrow> run_pid (pr_fz s) \<noteq> 0 \<Longrightarrow> t = s"
  by (simp add: subproc_New_def)

lemma idle_cases: "dialogue_inv d \<Longrightarrow> dl_par d = ParIdle \<Longrightarrow> run_pid (pr_fz (dl_proc d)) = 0 \<and> dl_child d = CDead \<or>
    run_pid (pr_fz (dl_proc d)) \<noteq> 0 \<and> inv_send d"
  by (auto simp: dialogue_inv_def inv_initial_def inv_sent_def)

text \<open>The steps of the process, on each part of the invariant.\<close>

lemma child_ready_inv:
  assumes "dialogue_inv d" and "dl_child d = CReady"
  shows "dialogue_inv (d\<lparr>dl_proc := (dl_proc d)\<lparr>sock_in := sock_in (dl_proc d) @ [HFReadyTag]\<rparr>, dl_child := CFetch []\<rparr>)"
  using assms by (auto simp: inv_defs)

lemma child_read_inv:
  assumes "dialogue_inv d" and "dl_child d = CFetch got" and "sock_out (dl_proc d) = bs @ r" and "bs \<noteq> []"
  shows "dialogue_inv (d\<lparr>dl_proc := (dl_proc d)\<lparr>sock_out := r\<rparr>, dl_child := CFetch (got @ bs)\<rparr>)"
  using assms by (auto simp: inv_defs)

lemma child_call_inv:
  assumes "dialogue_inv d" and got: "dl_child d = CFetch got" "length got = 8"
  shows "dialogue_inv (d\<lparr>dl_child := CRun (size_of_bytes got)\<rparr>)"
proof -
  have "got \<noteq> []" using got by auto
  then have sent: "run_pid (pr_fz (dl_proc d)) \<noteq> 0" "inv_sent d" and all: "got @ sock_out (dl_proc d) = size_bytes (cur_size (dl_proc d))"
    using assms(1) got(1) by (auto simp: inv_defs)
  have "length (size_bytes (cur_size (dl_proc d))) = 8" by (rule size_roundtrip)
  then have "sock_out (dl_proc d) = []" using got(2) unfolding all [symmetric] by simp
  then have "size_of_bytes got = cur_size (dl_proc d)" using all size_roundtrip(1) by simp
  with sent \<open>sock_out (dl_proc d) = []\<close> got \<open>got \<noteq> []\<close> show ?thesis by (auto simp: inv_defs)
qed

lemma child_return_inv:
  assumes "dialogue_inv d" and "dl_child d = CRun n"
  shows "dialogue_inv (d\<lparr>dl_child := CReady, dl_ran := dl_ran d @ [n]\<rparr>)"
  using assms by (auto simp: inv_defs)

lemma child_die_inv: "dialogue_inv d \<Longrightarrow> dialogue_inv (d\<lparr>dl_child := CDead\<rparr>)"
  by (auto simp: inv_defs)

lemma dialogue_step_inv: "dialogue_inv d \<Longrightarrow> dialogue_step d d' \<Longrightarrow> dialogue_inv d'"
proof (erule dialogue_stepE, goal_cases)
  case (1 df)
  then show ?case using idle_cases [of d] by (auto simp: dialogue_inv_def inv_send_def)
next
  case (2 n s)
  then show ?case using new_process [of n "dl_proc d" s] by (simp add: dialogue_inv_def inv_initial_def)
next
  case (3 n s)
  then have "s = dl_proc d" "inv_send d" using old_process idle_cases by blast+
  with 3 show ?case by (simp add: dialogue_inv_def inv_send_def)
next
  case 5
  then show ?case by (simp add: dialogue_inv_def set_pid_def)
qed (simp_all add: p_iter_inv child_ready_inv child_read_inv child_call_inv child_return_inv child_die_inv)

lemma dialogue_reach_inv: "dialogue_reach d \<Longrightarrow> dialogue_inv d"
proof (induction rule: dialogue_reach.induct)
  case (start d)
  then show ?case by (simp add: dialogue0_def dialogue_inv_def)
qed (rule dialogue_step_inv)

lemma return_true:
  assumes inv: "dialogue_inv d" and par: "dl_par d = ParReap" and it: "sm_iter ev (dl_proc d) = Some (Inr (SmReturn True, s))"
  shows "ran_last d \<and> (dl_child d = CFetch [] \<or> dl_child d = CDead)"
proof -
  consider "inv_initial d" | "inv_send d" | "inv_sent d" using inv par by (auto simp: dialogue_inv_def)
  then show ?thesis
  proof cases
    case 1
    then show ?thesis using it by (auto simp: inv_initial_def sm_iter_def Let_def split: if_splits prod.splits)
  next
    case 2
    then have "runState (dl_proc d) = RS_SEND_DATA" by (simp add: inv_send_def)
    then show ?thesis using sm_send [OF _ it] by simp
  next
    case 3
    then have "sock_in (dl_proc d) \<noteq> []" using it sm_wait_empty [of "dl_proc d" ev] by (auto simp: inv_sent_def)
    then show ?thesis using 3 by (auto simp: inv_sent_def)
  qed
qed

section \<open>A run ends\<close>

text \<open>From every part of the invariant, the steps that finish the run; nothing dies in them.\<close>

definition run_done :: "dialogue_t \<Rightarrow> dialogue_t \<Rightarrow> bool" where
  "run_done d d' \<longleftrightarrow> dialogue_step\<^sup>*\<^sup>* d d' \<and> dl_par d' = ParIdle \<and> dl_child d' = CFetch [] \<and> ran_last d' \<and>
     cur_size (dl_proc d') = cur_size (dl_proc d)"

lemma run_done_step: "dialogue_step d e \<Longrightarrow> cur_size (dl_proc e) = cur_size (dl_proc d) \<Longrightarrow> \<exists>d'. run_done e d' \<Longrightarrow> \<exists>d'. run_done d d'"
  unfolding run_done_def by (metis converse_rtranclp_into_rtranclp)

lemma done_tag:
  assumes "runState (dl_proc d) = RS_WAITING_FOR_READY" "dl_par d = ParReap" "dl_child d = CFetch []" "sock_in (dl_proc d) = [HFReadyTag]" "ran_last d"
  shows "\<exists>d'. run_done d d'"
proof -
  let ?s = "(dl_proc d)\<lparr>sock_in := [], runState := RS_SEND_DATA\<rparr>"
  have it: "sm_iter (\<lambda>_. IoErr) (dl_proc d) = Some (Inr (SmReturn True, ?s))" by (rule sm_wait_tag) (use assms in simp_all)
  have "run_done d (d\<lparr>dl_proc := ?s, dl_par := ParIdle, dl_child := CFetch []\<rparr>)"
    unfolding run_done_def using dialogue_step.p_iter [OF assms(2) it] assms by (auto simp: ran_last_def)
  then show ?thesis ..
qed

lemma done_ready:
  assumes "runState (dl_proc d) = RS_WAITING_FOR_READY" "dl_par d = ParReap" "dl_child d = CReady" "sock_in (dl_proc d) = []" "ran_last d"
  shows "\<exists>d'. run_done d d'"
  by (rule run_done_step [OF dialogue_step.c_ready [OF assms(3)]], simp, rule done_tag) (use assms in \<open>simp_all add: ran_last_def\<close>)

lemma done_run:
  assumes "runState (dl_proc d) = RS_WAITING_FOR_READY" "dl_par d = ParReap" "dl_child d = CRun (cur_size (dl_proc d))" "sock_in (dl_proc d) = []"
  shows "\<exists>d'. run_done d d'"
  by (rule run_done_step [OF dialogue_step.c_return [OF assms(3)]], simp, rule done_ready) (use assms in \<open>simp_all add: ran_last_def\<close>)

lemma done_got:
  assumes "runState (dl_proc d) = RS_WAITING_FOR_READY" "dl_par d = ParReap" "dl_child d = CFetch (size_bytes (cur_size (dl_proc d)))" "sock_in (dl_proc d) = []"
  shows "\<exists>d'. run_done d d'"
  by (rule run_done_step [OF dialogue_step.c_call [OF assms(3) size_roundtrip(2)]], simp, rule done_run) (use assms in \<open>simp_all add: size_roundtrip(1)\<close>)

lemma done_sent:
  assumes "runState (dl_proc d) = RS_WAITING_FOR_READY" "dl_par d = ParReap" "dl_child d = CFetch got" "sock_in (dl_proc d) = []"
    and all: "got @ sock_out (dl_proc d) = size_bytes (cur_size (dl_proc d))"
  shows "\<exists>d'. run_done d d'"
proof (cases "sock_out (dl_proc d) = []")
  case True
  with all have "got = size_bytes (cur_size (dl_proc d))" by simp
  then show ?thesis using done_got assms by simp
next
  case False
  have "length (got @ sock_out (dl_proc d)) \<le> 8" using all size_roundtrip(2) by simp
  then have "dialogue_step d (d\<lparr>dl_proc := (dl_proc d)\<lparr>sock_out := []\<rparr>, dl_child := CFetch (got @ sock_out (dl_proc d))\<rparr>)"
    by (intro dialogue_step.c_read [OF assms(3) _ False]) simp_all
  then show ?thesis by (rule run_done_step, simp) (rule done_got, use assms all in simp_all)
qed

lemma done_send:
  assumes "runState (dl_proc d) = RS_SEND_DATA" "dl_par d = ParReap" "dl_child d = CFetch []" "sock_in (dl_proc d) = []" "sock_out (dl_proc d) = []"
  shows "\<exists>d'. run_done d d'"
proof -
  let ?s = "(dl_proc d)\<lparr>sock_out := size_bytes (cur_size (dl_proc d)), runState := RS_WAITING_FOR_READY\<rparr>"
  have "subproc_persistentSendFileIndicator (\<lambda>_. IoPart 8) (dl_proc d) = Some (True, (dl_proc d)\<lparr>sock_out := size_bytes (cur_size (dl_proc d))\<rparr>)"
    using write_loop_all [of "\<lambda>_. IoPart 8" 0 "[]" "size_bytes (cur_size (dl_proc d))"] assms(5)
    by (simp add: subproc_persistentSendFileIndicator_def files_sendToSocketNB_def cur_size_def numeral_eq_Suc)
  then have it: "sm_iter (\<lambda>_. IoPart 8) (dl_proc d) = Some (Inr (SmGoOn, ?s))" using assms(1) by (simp add: sm_iter_def)
  show ?thesis
    by (rule run_done_step [OF dialogue_step.p_iter [OF assms(2) it]], simp, rule done_sent [where got = "[]"]) (use assms in simp_all)
qed

lemma done_initial:
  assumes "inv_initial d" and "dl_child d \<noteq> CDead"
  shows "\<exists>d'. run_done d d'"
proof -
  have tag: "\<exists>e'. run_done e e'" if e: "inv_initial e" "dl_child e = CFetch []" for e
  proof -
    have it: "sm_iter (\<lambda>_. IoErr) (dl_proc e) = Some (Inr (SmGoOn, (dl_proc e)\<lparr>sock_in := [], runState := RS_SEND_DATA\<rparr>))"
      by (rule sm_wait_tag) (use e in \<open>auto simp: inv_initial_def\<close>)
    have "dl_par e = ParReap" using e by (simp add: inv_initial_def)
    from dialogue_step.p_iter [OF this it] show ?thesis
      by (rule run_done_step, simp) (rule done_send, use e in \<open>simp_all add: inv_initial_def\<close>)
  qed
  show ?thesis
  proof (cases "dl_child d = CReady")
    case True
    from dialogue_step.c_ready [OF this] show ?thesis
      by (rule run_done_step, simp) (rule tag, use assms True in \<open>auto simp: inv_initial_def\<close>)
  next
    case False
    then show ?thesis using tag assms by (auto simp: inv_initial_def)
  qed
qed

lemma done_all:
  assumes "dialogue_inv d" "dl_par d = ParReap" "dl_child d \<noteq> CDead"
  shows "\<exists>d'. run_done d d'"
proof -
  consider "inv_initial d" | "inv_send d" | "inv_sent d" using assms by (auto simp: dialogue_inv_def)
  then show ?thesis
  proof cases
    case 1
    then show ?thesis using done_initial assms by blast
  next
    case 2
    then show ?thesis using done_send assms by (auto simp: inv_send_def)
  next
    case 3
    then consider "\<exists>got. dl_child d = CFetch got \<and> sock_in (dl_proc d) = [] \<and> got @ sock_out (dl_proc d) = size_bytes (cur_size (dl_proc d))"
      | "dl_child d = CRun (cur_size (dl_proc d)) \<and> sock_in (dl_proc d) = []" | "dl_child d = CReady \<and> sock_in (dl_proc d) = [] \<and> ran_last d"
      | "dl_child d = CFetch [] \<and> sock_in (dl_proc d) = [HFReadyTag] \<and> ran_last d"
      using assms(3) by (auto simp: inv_sent_def)
    moreover have "runState (dl_proc d) = RS_WAITING_FOR_READY" using 3 by (simp add: inv_sent_def)
    ultimately show ?thesis using assms(2) done_sent done_run done_ready done_tag by cases blast+
  qed
qed

section \<open>Speed\<close>

text \<open>The checks of a process, until one of them makes it exit.\<close>

fun performance_run :: "(u64 \<times> u64 \<times> u64) list \<Rightarrow> (perf_t, bool) hm" where
  "performance_run [] = ret False"
| "performance_run (ts # r) = bnd (performanceCheck ts) (\<lambda>slow. if slow then ret True else performance_run r)"

definition perf_inv :: "nat \<Rightarrow> perf_t \<Rightarrow> bool" where
  "perf_inv k p \<longleftrightarrow> unat (iterCnt p) = k \<and> (perf_initialized p \<longrightarrow> lastCheckIters p \<le> iterCnt p)"

lemma iter_count_up:
  fixes p :: perf_t
  assumes "unat (iterCnt p) = k" and "k < 2 ^ 64 - 1"
  shows "unat (iterCnt p + 1) = k + 1" "iterCnt p + 1 \<noteq> 0" "lastCheckIters p \<le> iterCnt p \<Longrightarrow> iterCnt p + 1 - lastCheckIters p \<noteq> 0"
    "lastCheckIters p \<le> iterCnt p \<Longrightarrow> lastCheckIters p \<le> iterCnt p + 1"
proof -
  have le: "unat (iterCnt p) + 1 < 2 ^ LENGTH(64)" using assms by simp
  then show u: "unat (iterCnt p + 1) = k + 1" using assms(1) by (simp add: unat_word_ariths)
  then show "iterCnt p + 1 \<noteq> 0" by (metis add_is_0 one_neq_zero unat_0)
  show "lastCheckIters p \<le> iterCnt p + 1" if "lastCheckIters p \<le> iterCnt p"
    using that u assms(1) by (simp add: word_le_nat_alt)
  show "iterCnt p + 1 - lastCheckIters p \<noteq> 0" if "lastCheckIters p \<le> iterCnt p"
    using that u assms(1) by (auto simp: word_le_nat_alt)
qed

lemma performanceCheck_inv:
  assumes "perf_inv k p" and "k < 2 ^ 64 - 1"
  shows "\<exists>b q. performanceCheck ts p = Inr (b, q) \<and> perf_inv (k + 1) q"
proof -
  obtain t1 t2 t3 where ts: "ts = (t1, t2, t3)" by (cases ts)
  have u: "unat (iterCnt p) = k" using assms by (simp add: perf_inv_def)
  note c = iter_count_up [OF u assms(2)]
  show ?thesis
  proof (cases "perf_initialized p")
    case True
    then have le: "lastCheckIters p \<le> iterCnt p" using assms by (simp add: perf_inv_def)
    show ?thesis using True c(1) c(3) [OF le] c(4) [OF le]
      by (auto simp: ts performanceCheck_def performanceTooSlow_def hm_steps Let_def perf_inv_def)
  next
    case False
    then show ?thesis using c(1,2) by (auto simp: ts performanceCheck_def performanceInit_def Let_def perf_inv_def bnd_def modify_def gets_def ret_def)
  qed
qed

lemma performance_run_inv:
  assumes "perf_inv k p" and "k + length tss < 2 ^ 64"
  shows "\<exists>b q. performance_run tss p = Inr (b, q)"
  using assms
proof (induction tss arbitrary: k p)
  case (Cons ts tss)
  then obtain b q where bq: "performanceCheck ts p = Inr (b, q)" "perf_inv (k + 1) q" using performanceCheck_inv [of k p ts] by auto
  then show ?case using Cons.IH [of "k + 1" q] Cons.prems by (cases b) (auto simp: bnd_def ret_def)
qed (auto simp: ret_def)

section \<open>Properties\<close>

text \<open>C27: in every reachable state of the dialogue, a persistent process only runs an input while the
  fuzzer waits for it, on the size the fuzzer announced for the present input; between two runs, when
  the fuzzer changes the input, the process waits for the next size or is dead. The state
  machine never reaches its fatal branch, and it reports the end of a run only after the process
  finished the present input.\<close>

theorem persist_protocol_safe:
  assumes "dialogue_reach d"
  shows "(dl_child d = CRun n \<longrightarrow> dl_par d = ParReap \<and> n = cur_size (dl_proc d)) \<and>
    (dl_par d = ParIdle \<longrightarrow> dl_child d = CFetch [] \<and> sock_out (dl_proc d) = [] \<or> dl_child d = CDead) \<and>
    (dl_par d = ParReap \<longrightarrow> sm_iter ev (dl_proc d) \<noteq> Some (Inl e)) \<and>
    (dl_par d = ParReap \<and> sm_iter ev (dl_proc d) = Some (Inr (SmReturn True, s)) \<longrightarrow>
      dl_ran d \<noteq> [] \<and> last (dl_ran d) = cur_size (dl_proc d) \<and> (dl_child d = CFetch [] \<or> dl_child d = CDead))"
proof (intro conjI impI)
  have inv: "dialogue_inv d" using assms by (rule dialogue_reach_inv)
  show "dl_par d = ParReap" "n = cur_size (dl_proc d)" if "dl_child d = CRun n" using inv that by (auto simp: inv_defs)
  show "dl_child d = CFetch [] \<and> sock_out (dl_proc d) = [] \<or> dl_child d = CDead" if "dl_par d = ParIdle" using inv that by (auto simp: inv_defs)
  show "sm_iter ev (dl_proc d) \<noteq> Some (Inl e)" if "dl_par d = ParReap"
    using inv that by (auto simp: inv_defs sm_iter_def Let_def split: option.splits prod.splits)
  assume "dl_par d = ParReap \<and> sm_iter ev (dl_proc d) = Some (Inr (SmReturn True, s))"
  then have "ran_last d \<and> (dl_child d = CFetch [] \<or> dl_child d = CDead)" using return_true [OF inv] by blast
  then show "dl_ran d \<noteq> []" "last (dl_ran d) = cur_size (dl_proc d)" "dl_child d = CFetch [] \<or> dl_child d = CDead"
    by (simp_all add: ran_last_def)
qed

text \<open>C28: neither side of the dialogue waits for ever for the other: from every reachable state in which
  the fuzzer waits and the process is alive, steps lead to the end of a run of the present input, with
  the process ready for the next one.\<close>

theorem persist_run_completes:
  assumes "dialogue_reach d" and "dl_par d = ParReap" and "dl_child d \<noteq> CDead"
  shows "\<exists>d'. dialogue_step\<^sup>*\<^sup>* d d' \<and> dl_par d' = ParIdle \<and> dl_child d' = CFetch [] \<and> dl_ran d' \<noteq> [] \<and>
    last (dl_ran d') = cur_size (dl_proc d) \<and> cur_size (dl_proc d') = cur_size (dl_proc d)"
  using done_all [OF dialogue_reach_inv [OF assms(1)] assms(2,3)] by (auto simp: run_done_def ran_last_def)

text \<open>C33: the check of the speed of a process never divides by zero: no sequence of fewer than
  \<open>2\<^sup>6\<^sup>4\<close> checks from the initial state of the process faults, whatever the clock shows.\<close>

theorem performanceCheck_safe:
  assumes "length tss < 2 ^ 64"
  shows "\<exists>slow p. performance_run tss perf0 = Inr (slow, p)"
  by (rule performance_run_inv [of 0]) (use assms in \<open>simp_all add: perf_inv_def perf0_def\<close>)

section \<open>Witnesses\<close>

definition demo_dialogue :: dialogue_t where
  "demo_dialogue = \<lparr>dl_proc = demo_proc (demo_thread (demo_run [1])), dl_par = ParIdle, dl_child = CDead, dl_ran = []\<rparr>"

definition demo_forked :: dialogue_t where
  "demo_forked = demo_dialogue\<lparr>dl_proc := snd (projr (subproc_New True \<lparr>n_socketpair = Some (8, 9), n_fork = 44, n_traced = True\<rparr> (dl_proc demo_dialogue))),
     dl_par := ParReap, dl_child := CReady, dl_ran := []\<rparr>"

lemma demo_forked_reach: "dialogue_reach demo_forked"
proof -
  have pid: "run_pid (pr_fz (dl_proc demo_dialogue)) = 0" by (simp add: demo_dialogue_def demo_thread_def)
  then have "dialogue_reach demo_dialogue" by (intro dialogue_reach.start) (simp add: dialogue0_def demo_dialogue_def)
  moreover have "dialogue_step demo_dialogue demo_forked"
    unfolding demo_forked_def
    by (rule dialogue_step.p_fork [where n = "\<lparr>n_socketpair = Some (8, 9), n_fork = 44, n_traced = True\<rparr>"])
       (use pid in \<open>simp_all add: subproc_New_def new_sockets_def Let_def\<close>, simp add: demo_dialogue_def)
  ultimately show ?thesis by (rule dialogue_reach.step)
qed

theorem persist_run_completes_witness:
  "\<exists>d'. dialogue_step\<^sup>*\<^sup>* demo_forked d' \<and> dl_par d' = ParIdle \<and> dl_child d' = CFetch [] \<and> last (dl_ran d') = cur_size (dl_proc demo_forked)"
proof -
  have "dl_par demo_forked = ParReap" "dl_child demo_forked \<noteq> CDead" by (simp_all add: demo_forked_def)
  then show ?thesis using persist_run_completes [OF demo_forked_reach] by blast
qed

theorem performanceCheck_safe_witness: "\<exists>slow p. performance_run [(5, 5, 5), (30000000, 30000000, 30000000), (9, 9, 9)] perf0 = Inr (slow, p)"
  by (rule performanceCheck_safe) simp

theorem persist_protocol_safe_witness:
  "\<exists>d. dialogue_reach d \<and> dl_par d = ParIdle \<and> (dl_child d = CFetch [] \<and> sock_out (dl_proc d) = [] \<or> dl_child d = CDead) \<and> dl_ran d \<noteq> []"
proof -
  obtain d where d: "run_done demo_forked d"
    using done_all [OF dialogue_reach_inv [OF demo_forked_reach]] by (auto simp: demo_forked_def)
  then have "dialogue_step\<^sup>*\<^sup>* demo_forked d" by (simp add: run_done_def)
  then have "dialogue_reach d" using demo_forked_reach by induction (auto intro: dialogue_reach.step)
  then show ?thesis using persist_protocol_safe [of d] d by (auto simp: run_done_def ran_last_def)
qed

end
