(* ===== verification/HF_Dict.thy ===== *)
theory HF_Dict
  imports HF_Instrument_Props
begin

text \<open>
  The dictionary of constants is shared by all processes of the target without a lock
  (\<open>instrumentAddConstMemInternal\<close> of \<open>honggfuzz/libhfuzz/instrument.c\<close>). \<open>HF_Instrument\<close> models an adder that
  runs alone; here the atomic steps of any number of adders interleave: the number of entries is
  read, the entries are compared one by one, a slot is reserved by an atomic increment, the bytes
  are copied, and the length is set last.
\<close>

section \<open>Steps\<close>

text \<open>
  Where an adder stands: idle; before the comparison with entry \<open>i\<close> of the \<open>cur\<close> entries it saw; before the
  increment; before it resets a number that went beyond the array; before the copy to a slot;
  before the length of the slot is set.
\<close>

datatype add_pc = AIdle | AScan "byte list" nat nat | AInc "byte list" | AReset | ACopy "byte list" nat | ALen "byte list" nat

text \<open>
  Two histories: \<open>h_vals\<close> is the value for which a slot was reserved, \<open>h_asked\<close> the values (cut to 32 bytes)
  with which the function was called.
\<close>

record dict_conf =
  dc_map :: cmpfeedback_t
  dc_thr :: "add_pc list"
  h_vals :: "nat \<rightharpoonup> byte list"
  h_asked :: "byte list set"

definition add_at :: "dict_conf \<Rightarrow> nat \<Rightarrow> add_pc \<Rightarrow> bool" where
  "add_at c t l \<longleftrightarrow> t < length (dc_thr c) \<and> dc_thr c ! t = l"

definition add_goto :: "nat \<Rightarrow> add_pc \<Rightarrow> dict_conf \<Rightarrow> dict_conf" where
  "add_goto t l c = c\<lparr>dc_thr := (dc_thr c)[t := l]\<rparr>"

definition dict_cnt :: "dict_conf \<Rightarrow> nat" where
  "dict_cnt c = unat (cmpf_cnt (dc_map c))"

definition dict_ent :: "dict_conf \<Rightarrow> nat \<Rightarrow> cmpval_t" where
  "dict_ent c i = cmpf_valArr (dc_map c) ! i"

definition set_cnt :: "u32 \<Rightarrow> dict_conf \<Rightarrow> dict_conf" where
  "set_cnt n c = c\<lparr>dc_map := (dc_map c)\<lparr>cmpf_cnt := n\<rparr>\<rparr>"

definition set_ent :: "nat \<Rightarrow> cmpval_t \<Rightarrow> dict_conf \<Rightarrow> dict_conf" where
  "set_ent i e c = c\<lparr>dc_map := (dc_map c)\<lparr>cmpf_valArr := (cmpf_valArr (dc_map c))[i := e]\<rparr>\<rparr>"

definition ask :: "byte list \<Rightarrow> dict_conf \<Rightarrow> dict_conf" where
  "ask v c = c\<lparr>h_asked := insert v (h_asked c)\<rparr>"

definition ent_is :: "cmpval_t \<Rightarrow> byte list \<Rightarrow> bool" where
  "ent_is e v \<longleftrightarrow> length v = unat (cv_len e) \<and> take (length v) (cv_val e) = v"

inductive dict_step :: "dict_conf \<Rightarrow> dict_conf \<Rightarrow> bool" where
  short: "add_at c t AIdle \<Longrightarrow> length (mem :: byte list) \<le> 1 \<Longrightarrow> dict_step c c"
| full: "add_at c t AIdle \<Longrightarrow> 1 < length mem \<Longrightarrow> CMP_VALS_MAX \<le> dict_cnt c \<Longrightarrow> dict_step c (ask (take 32 mem) c)"
| enter: "add_at c t AIdle \<Longrightarrow> 1 < length mem \<Longrightarrow> dict_cnt c < CMP_VALS_MAX \<Longrightarrow>
    dict_step c (add_goto t (AScan (take 32 mem) (dict_cnt c) 0) (ask (take 32 mem) c))"
| found: "add_at c t (AScan v cur i) \<Longrightarrow> i < cur \<Longrightarrow> ent_is (dict_ent c i) v \<Longrightarrow> dict_step c (add_goto t AIdle c)"
| differs: "add_at c t (AScan v cur i) \<Longrightarrow> i < cur \<Longrightarrow> \<not> ent_is (dict_ent c i) v \<Longrightarrow> dict_step c (add_goto t (AScan v cur (i + 1)) c)"
| scanned: "add_at c t (AScan v cur i) \<Longrightarrow> \<not> i < cur \<Longrightarrow> dict_step c (add_goto t (AInc v) c)"
| reserve: "add_at c t (AInc v) \<Longrightarrow> dict_cnt c < CMP_VALS_MAX \<Longrightarrow>
    dict_step c (add_goto t (ACopy v (dict_cnt c)) (set_cnt (cmpf_cnt (dc_map c) + 1) (c\<lparr>h_vals := (h_vals c)(dict_cnt c \<mapsto> v)\<rparr>)))"
| beyond: "add_at c t (AInc v) \<Longrightarrow> \<not> dict_cnt c < CMP_VALS_MAX \<Longrightarrow>
    dict_step c (add_goto t AReset (set_cnt (cmpf_cnt (dc_map c) + 1) c))"
| reset: "add_at c t AReset \<Longrightarrow> dict_step c (add_goto t AIdle (set_cnt (of_nat CMP_VALS_MAX) c))"
| copy: "add_at c t (ACopy v i) \<Longrightarrow>
    dict_step c (add_goto t (ALen v i) (set_ent i ((dict_ent c i)\<lparr>cv_val := v @ drop (length v) (cv_val (dict_ent c i))\<rparr>) c))"
| set_len: "add_at c t (ALen v i) \<Longrightarrow>
    dict_step c (add_goto t AIdle (set_ent i ((dict_ent c i)\<lparr>cv_len := of_nat (length v)\<rparr>) c))"

inductive_cases dict_stepE: "dict_step c d"

text \<open>The states from an empty dictionary and \<open>n\<close> idle adders on.\<close>

definition dict_conf0 :: "nat \<Rightarrow> dict_conf" where
  "dict_conf0 n = \<lparr>dc_map = \<lparr>cmpf_cnt = 0, cmpf_valArr = replicate CMP_VALS_MAX \<lparr>cv_val = replicate 32 0, cv_len = 0\<rparr>\<rparr>,
     dc_thr = replicate n AIdle, h_vals = Map.empty, h_asked = {}\<rparr>"

inductive dict_reach :: "nat \<Rightarrow> dict_conf \<Rightarrow> bool" for n :: nat where
  init: "dict_reach n (dict_conf0 n)"
| step: "dict_reach n c \<Longrightarrow> dict_step c d \<Longrightarrow> dict_reach n d"

section \<open>The invariant\<close>

lemma conf_simps [simp]:
  "dc_map (add_goto t l c) = dc_map c" "h_vals (add_goto t l c) = h_vals c" "dict_cnt (add_goto t l c) = dict_cnt c"
  "dict_ent (add_goto t l c) = dict_ent c" "dc_thr (set_cnt n c) = dc_thr c" "dc_thr (set_ent i e c) = dc_thr c"
  "h_vals (set_cnt n c) = h_vals c" "h_vals (set_ent i e c) = h_vals c" "dict_cnt (set_cnt n c) = unat n"
  "dict_cnt (set_ent i e c) = dict_cnt c" "dict_ent (set_cnt n c) = dict_ent c"
  "dict_cnt (c\<lparr>h_vals := h\<rparr>) = dict_cnt c" "dict_ent (c\<lparr>h_vals := h\<rparr>) = dict_ent c"
  "cmpf_valArr (dc_map (set_cnt n c)) = cmpf_valArr (dc_map c)"
  "cmpf_valArr (dc_map (set_ent i e c)) = (cmpf_valArr (dc_map c))[i := e]"
  "dc_map (ask v c) = dc_map c" "dc_thr (ask v c) = dc_thr c" "h_vals (ask v c) = h_vals c" "dict_cnt (ask v c) = dict_cnt c"
  "dict_ent (ask v c) = dict_ent c" "h_asked (ask v c) = insert v (h_asked c)" "h_asked (add_goto t l c) = h_asked c"
  "h_asked (set_cnt n c) = h_asked c" "h_asked (set_ent i e c) = h_asked c"
  by (simp_all add: add_goto_def set_cnt_def set_ent_def ask_def dict_cnt_def dict_ent_def fun_eq_iff)

lemma length_add_goto [simp]: "length (dc_thr (add_goto t l c)) = length (dc_thr c)"
  by (simp add: add_goto_def)

lemma add_at_goto: "t < length (dc_thr c) \<Longrightarrow> add_at (add_goto t l c) t' l' \<longleftrightarrow> (if t' = t then l' = l else add_at c t' l')"
  by (auto simp: add_at_def add_goto_def)

lemma add_at_thr: "dc_thr c = dc_thr d \<Longrightarrow> add_at c = add_at d"
  by (simp add: add_at_def fun_eq_iff)

lemma add_at_same [simp]: "add_at (set_cnt n c) = add_at c" "add_at (set_ent i e c) = add_at c" "add_at (c\<lparr>h_vals := h\<rparr>) = add_at c"
  "add_at (ask v c) = add_at c"
  by (rule add_at_thr, simp)+

definition owns :: "add_pc \<Rightarrow> nat \<Rightarrow> bool" where
  "owns l i \<longleftrightarrow> (\<exists>v. l = ACopy v i \<or> l = ALen v i)"

definition val_ok :: "byte list \<Rightarrow> bool" where
  "val_ok v \<longleftrightarrow> 2 \<le> length v \<and> length v \<le> 32"

text \<open>What an adder knows.\<close>

fun adder_ok :: "dict_conf \<Rightarrow> add_pc \<Rightarrow> bool" where
  "adder_ok c (AScan v cur i) \<longleftrightarrow> val_ok v \<and> cur < CMP_VALS_MAX"
| "adder_ok c (AInc v) \<longleftrightarrow> val_ok v"
| "adder_ok c (ACopy v i) \<longleftrightarrow> h_vals c i = Some v \<and> cv_len (dict_ent c i) = 0"
| "adder_ok c (ALen v i) \<longleftrightarrow> h_vals c i = Some v \<and> cv_len (dict_ent c i) = 0 \<and> take (length v) (cv_val (dict_ent c i)) = v"
| "adder_ok c l \<longleftrightarrow> True"

definition resetting :: "dict_conf \<Rightarrow> nat set" where
  "resetting c = {t. add_at c t AReset}"

definition slots_ok :: "dict_conf \<Rightarrow> bool" where
  "slots_ok c \<longleftrightarrow> length (cmpf_valArr (dc_map c)) = CMP_VALS_MAX \<and>
     (\<forall>i<CMP_VALS_MAX. length (cv_val (dict_ent c i)) = 32 \<and> unat (cv_len (dict_ent c i)) \<le> 32) \<and>
     (\<forall>i. h_vals c i \<noteq> None \<longleftrightarrow> i < min (dict_cnt c) CMP_VALS_MAX) \<and>
     (\<forall>i v. h_vals c i = Some v \<longrightarrow> val_ok v) \<and>
     (\<forall>i<CMP_VALS_MAX. h_vals c i = None \<longrightarrow> cv_len (dict_ent c i) = 0)"

definition owners_ok :: "dict_conf \<Rightarrow> bool" where
  "owners_ok c \<longleftrightarrow> (\<forall>t l. add_at c t l \<longrightarrow> adder_ok c l) \<and>
     (\<forall>t u l m i. add_at c t l \<and> add_at c u m \<and> owns l i \<and> owns m i \<longrightarrow> t = u) \<and>
     (\<forall>i v. h_vals c i = Some v \<and> \<not> (\<exists>t l. add_at c t l \<and> owns l i) \<longrightarrow> ent_is (dict_ent c i) v)"

definition dict_inv :: "nat \<Rightarrow> dict_conf \<Rightarrow> bool" where
  "dict_inv n c \<longleftrightarrow> length (dc_thr c) = n \<and> dict_cnt c \<le> CMP_VALS_MAX + card (resetting c) \<and>
     (resetting c \<noteq> {} \<longrightarrow> CMP_VALS_MAX \<le> dict_cnt c) \<and> slots_ok c \<and> owners_ok c"

lemma card_resetting: "card (resetting c) \<le> length (dc_thr c)"
proof -
  have "resetting c \<subseteq> {..<length (dc_thr c)}" by (auto simp: resetting_def add_at_def)
  from card_mono [OF _ this] show ?thesis by simp
qed

lemma finite_resetting [simp]: "finite (resetting c)"
  by (rule finite_subset [of _ "{..<length (dc_thr c)}"]) (auto simp: resetting_def add_at_def)

lemma resetting_goto: "t < length (dc_thr c) \<Longrightarrow>
    resetting (add_goto t l c) = (if l = AReset then insert t (resetting c) else resetting c - {t})"
  by (auto simp: resetting_def add_at_goto split: if_splits)

lemma resetting_same [simp]: "resetting (set_cnt n c) = resetting c" "resetting (set_ent i e c) = resetting c"
  "resetting (c\<lparr>h_vals := h\<rparr>) = resetting c" "resetting (ask v c) = resetting c"
  by (simp_all add: resetting_def)

text \<open>Moving an adder that neither owns a slot before nor after.\<close>

lemma adder_ok_cong: "h_vals d = h_vals c \<Longrightarrow> dict_ent d = dict_ent c \<Longrightarrow> adder_ok d l = adder_ok c l"
  by (cases l) simp_all

lemma owners_move:
  assumes own: "owners_ok c" and t: "add_at c t l0" "\<And>i. \<not> owns l0 i" and l: "\<And>i. \<not> owns l i" "adder_ok c l"
    and same: "h_vals d = h_vals c" "dict_ent d = dict_ent c" "dc_thr d = dc_thr c"
  shows "owners_ok (add_goto t l d)"
proof -
  have len: "t < length (dc_thr d)" using t(1) same(3) by (simp add: add_at_def)
  have at: "add_at (add_goto t l d) u m \<longleftrightarrow> (if u = t then m = l else add_at c u m)" for u m
    using add_at_goto [OF len] add_at_thr [OF same(3)] by simp
  have ok: "adder_ok (add_goto t l d) m = adder_ok c m" for m by (rule adder_ok_cong) (simp_all add: same)
  have free: "(\<exists>u m. add_at (add_goto t l d) u m \<and> owns m i) \<longleftrightarrow> (\<exists>u m. add_at c u m \<and> owns m i)" for i
    unfolding at using l(1) t by (metis add_at_def)
  have keep: "add_at c u m" if "add_at (add_goto t l d) u m" "owns m i" for u m i
    using that l(1) unfolding at by (auto split: if_splits)
  have "ent_is (dict_ent (add_goto t l d) i) v" if "h_vals (add_goto t l d) i = Some v" "\<not> (\<exists>u m. add_at (add_goto t l d) u m \<and> owns m i)" for i v
    using own that same unfolding owners_ok_def free by simp
  moreover have "adder_ok (add_goto t l d) m" if "add_at (add_goto t l d) u m" for u m
    using own that l(2) unfolding owners_ok_def ok at by (auto split: if_splits)
  moreover have "u = w" if "add_at (add_goto t l d) u m" "add_at (add_goto t l d) w k" "owns m i" "owns k i" for u w m k i
    using own keep [OF that(1,3)] keep [OF that(2,4)] that(3,4) unfolding owners_ok_def by blast
  ultimately show ?thesis unfolding owners_ok_def by blast
qed

text \<open>Moving an adder that owns slot \<open>i\<close> before or after, while only that slot changes.\<close>

lemma owners_update:
  assumes own: "owners_ok c" and t: "add_at c t l0" and thr: "dc_thr d = dc_thr c"
    and others: "\<And>u m. u \<noteq> t \<Longrightarrow> add_at c u m \<Longrightarrow> \<not> owns m i"
    and mine: "\<And>j. owns l0 j \<Longrightarrow> j = i" "\<And>j. owns l j \<Longrightarrow> j = i" and ok: "adder_ok d l"
    and same: "\<And>j. j \<noteq> i \<Longrightarrow> h_vals d j = h_vals c j \<and> dict_ent d j = dict_ent c j"
    and ready: "\<And>v. \<not> owns l i \<Longrightarrow> h_vals d i = Some v \<Longrightarrow> ent_is (dict_ent d i) v"
  shows "owners_ok (add_goto t l d)"
proof -
  have len: "t < length (dc_thr d)" using t thr by (simp add: add_at_def)
  have at: "add_at (add_goto t l d) u m \<longleftrightarrow> (if u = t then m = l else add_at c u m)" for u m
    using add_at_goto [OF len] add_at_thr [OF thr] by simp
  have okc: "adder_ok (add_goto t l d) m = adder_ok d m" for m by (rule adder_ok_cong) simp_all
  have "adder_ok d m" if "u \<noteq> t" "add_at c u m" for u m
  proof -
    have "adder_ok c m" using own that(2) by (auto simp: owners_ok_def)
    then show ?thesis using others [OF that] same by (cases m) (auto simp: owns_def)
  qed
  then have a: "adder_ok (add_goto t l d) m" if "add_at (add_goto t l d) u m" for u m
    using that ok unfolding okc at by (auto split: if_splits)
  have b: "u = w" if "add_at (add_goto t l d) u m" "add_at (add_goto t l d) w k" "owns m j" "owns k j" for u w m k j
    using that own others mine(2) unfolding at owners_ok_def by (metis (full_types))
  have c: "ent_is (dict_ent (add_goto t l d) j) v" if h: "h_vals (add_goto t l d) j = Some v" and free: "\<not> (\<exists>u m. add_at (add_goto t l d) u m \<and> owns m j)" for j v
  proof (cases "j = i")
    case True
    then have "\<not> owns l i" using free unfolding at by metis
    then show ?thesis using ready h True by simp
  next
    case False
    have "\<not> owns m j" if "add_at c u m" for u m
    proof (cases "u = t")
      case True
      then show ?thesis using that t mine(1) False by (auto simp: add_at_def)
    next
      case False
      then show ?thesis using that free unfolding at by metis
    qed
    then show ?thesis using own h same [OF False] by (auto simp: owners_ok_def)
  qed
  show ?thesis unfolding owners_ok_def using a b c by blast
qed

lemma other_owner: "owners_ok c \<Longrightarrow> add_at c t l \<Longrightarrow> owns l i \<Longrightarrow> u \<noteq> t \<Longrightarrow> add_at c u m \<Longrightarrow> \<not> owns m i"
  unfolding owners_ok_def by blast

lemma owner_val: "owners_ok c \<Longrightarrow> add_at c t l \<Longrightarrow> owns l i \<Longrightarrow> h_vals c i \<noteq> None"
proof -
  assume a: "owners_ok c" "add_at c t l" "owns l i"
  then have "adder_ok c l" by (auto simp: owners_ok_def)
  then show ?thesis using a(3) by (auto simp: owns_def)
qed

lemma owners_ask: "owners_ok c \<Longrightarrow> owners_ok (ask v c)"
proof -
  have "adder_ok (ask v c) l = adder_ok c l" for l by (rule adder_ok_cong) simp_all
  then show "owners_ok c \<Longrightarrow> owners_ok (ask v c)" by (simp add: owners_ok_def)
qed

lemma adder_okD: "owners_ok c \<Longrightarrow> add_at c t l \<Longrightarrow> adder_ok c l"
  by (auto simp: owners_ok_def)

lemma dict_ent_set: "slots_ok c \<Longrightarrow> i < CMP_VALS_MAX \<Longrightarrow> dict_ent (set_ent i e c) j = (if j = i then e else dict_ent c j)"
  by (simp add: slots_ok_def dict_ent_def)

lemma slots_okD:
  assumes "slots_ok c"
  shows "h_vals c i \<noteq> None \<longleftrightarrow> i < min (dict_cnt c) CMP_VALS_MAX" "h_vals c i = Some v \<Longrightarrow> val_ok v"
    "i < CMP_VALS_MAX \<Longrightarrow> length (cv_val (dict_ent c i)) = 32 \<and> unat (cv_len (dict_ent c i)) \<le> 32"
    "i < CMP_VALS_MAX \<Longrightarrow> h_vals c i = None \<Longrightarrow> cv_len (dict_ent c i) = 0"
  using assms by (auto simp: slots_ok_def)

lemma slots_ent:
  assumes "slots_ok c" and "h_vals c i \<noteq> None" and "length (cv_val e) = 32" "unat (cv_len e) \<le> 32"
  shows "slots_ok (set_ent i e c)"
proof -
  have i: "i < CMP_VALS_MAX" using slots_okD(1) [OF assms(1)] assms(2) by simp
  have ent: "dict_ent (set_ent i e c) j = (if j = i then e else dict_ent c j)" for j by (rule dict_ent_set [OF assms(1) i])
  have "h_vals c j = None \<Longrightarrow> j \<noteq> i" for j using assms(2) by auto
  then show ?thesis using assms unfolding slots_ok_def ent by auto
qed

lemma slots_goto [simp]: "slots_ok (add_goto t l c) = slots_ok c" "slots_ok (ask v c) = slots_ok c"
  by (simp_all add: slots_ok_def)

section \<open>The steps keep it\<close>

lemma step_reserve:
  assumes own: "owners_ok c" and sl: "slots_ok c" and t: "add_at c t (AInc v)" and room: "dict_cnt c < CMP_VALS_MAX"
    and d: "d = set_cnt (cmpf_cnt (dc_map c) + 1) (c\<lparr>h_vals := (h_vals c)(dict_cnt c \<mapsto> v)\<rparr>)"
  shows "owners_ok (add_goto t (ACopy v (dict_cnt c)) d) \<and> slots_ok d \<and> dict_cnt d = dict_cnt c + 1"
proof (intro conjI)
  have none: "h_vals c (dict_cnt c) = None" using slots_okD(1) [OF sl, of "dict_cnt c"] by auto
  have v: "val_ok v" using adder_okD [OF own t] by simp
  show cnt: "dict_cnt d = dict_cnt c + 1"
    using room unfolding d by (simp add: unat_word_ariths CMP_VALS_MAX_def flip: dict_cnt_def)
  show "owners_ok (add_goto t (ACopy v (dict_cnt c)) d)"
  proof (rule owners_update [OF own t])
    show "\<not> owns m (dict_cnt c)" if "u \<noteq> t" "add_at c u m" for u m using owner_val [OF own that(2)] none by blast
    show "adder_ok d (ACopy v (dict_cnt c))" using slots_okD(4) [OF sl room none] by (simp add: d)
  qed (auto simp: d owns_def)
  show "slots_ok d" using sl v cnt room unfolding slots_ok_def by (auto simp: d)
qed

lemma step_copy:
  assumes own: "owners_ok c" and sl: "slots_ok c" and t: "add_at c t (ACopy v i)"
    and d: "d = set_ent i ((dict_ent c i)\<lparr>cv_val := v @ drop (length v) (cv_val (dict_ent c i))\<rparr>) c"
  shows "owners_ok (add_goto t (ALen v i) d) \<and> slots_ok d"
proof (intro conjI)
  have ok: "h_vals c i = Some v" "cv_len (dict_ent c i) = 0" using adder_okD [OF own t] by simp_all
  then have i: "i < CMP_VALS_MAX" using slots_okD(1) [OF sl, of i] by simp
  have v: "length v \<le> 32" using slots_okD(2) [OF sl ok(1)] by (simp add: val_ok_def)
  note ent = dict_ent_set [OF sl i]
  show "owners_ok (add_goto t (ALen v i) d)"
  proof (rule owners_update [OF own t])
    show "\<not> owns m i" if "u \<noteq> t" "add_at c u m" for u m
      by (rule other_owner [OF own t _ that]) (simp add: owns_def)
  qed (use ok in \<open>auto simp: d ent owns_def\<close>)
  show "slots_ok d" unfolding d by (rule slots_ent [OF sl]) (use ok v slots_okD(3) [OF sl i] in auto)
qed

lemma step_len:
  assumes own: "owners_ok c" and sl: "slots_ok c" and t: "add_at c t (ALen v i)"
    and d: "d = set_ent i ((dict_ent c i)\<lparr>cv_len := of_nat (length v)\<rparr>) c"
  shows "owners_ok (add_goto t AIdle d) \<and> slots_ok d"
proof (intro conjI)
  have ok: "h_vals c i = Some v" "take (length v) (cv_val (dict_ent c i)) = v" using adder_okD [OF own t] by simp_all
  then have i: "i < CMP_VALS_MAX" using slots_okD(1) [OF sl, of i] by simp
  have v: "length v \<le> 32" using slots_okD(2) [OF sl ok(1)] by (simp add: val_ok_def)
  then have n: "unat (of_nat (length v) :: u32) = length v" by (simp add: unat_of_nat)
  note ent = dict_ent_set [OF sl i]
  show "owners_ok (add_goto t AIdle d)"
  proof (rule owners_update [OF own t])
    show "\<not> owns m i" if "u \<noteq> t" "add_at c u m" for u m
      by (rule other_owner [OF own t _ that]) (simp add: owns_def)
  qed (use ok n in \<open>auto simp: d ent owns_def ent_is_def\<close>)
  show "slots_ok d" unfolding d by (rule slots_ent [OF sl]) (use ok v n slots_okD(3) [OF sl i] in auto)
qed

lemma dict_inv_move:
  assumes inv: "dict_inv n c" and t: "add_at c t l0" "l0 \<noteq> AReset" "l \<noteq> AReset" "\<And>i. \<not> owns l0 i" "\<And>i. \<not> owns l i" "adder_ok c l"
  shows "dict_inv n (add_goto t l c)"
proof -
  have len: "t < length (dc_thr c)" using t(1) by (simp add: add_at_def)
  have "t \<notin> resetting c" using t(1,2) by (auto simp: resetting_def add_at_def)
  then have "resetting (add_goto t l c) = resetting c" using resetting_goto [OF len, of l] t(3) by simp
  then show ?thesis using inv owners_move [OF _ t(1,4,5,6)] by (simp add: dict_inv_def)
qed

lemma dict_inv_ask: "dict_inv n c \<Longrightarrow> dict_inv n (ask v c)"
  by (simp add: dict_inv_def owners_ask)

lemma dict_inv_step:
  assumes "dict_step c d" and inv: "dict_inv n c" and n: "n < 2 ^ 31"
  shows "dict_inv n d"
  using assms(1,2)
proof (induction rule: dict_step.induct)
  case (full c t mem)
  then show ?case by (simp add: dict_inv_ask)
next
  case (enter c t mem)
  have "add_at (ask (take 32 mem) c) t AIdle" using enter(1) by simp
  then show ?case using enter by (intro dict_inv_move [OF dict_inv_ask]) (auto simp: owns_def val_ok_def)
next
  case (found c t v cur i)
  then show ?case by (intro dict_inv_move [OF found(4,1)]) (auto simp: owns_def)
next
  case (differs c t v cur i)
  have "adder_ok c (AScan v cur i)" using differs by (intro adder_okD [of c t]) (auto simp: dict_inv_def)
  then show ?case by (intro dict_inv_move [OF differs(4,1)]) (auto simp: owns_def)
next
  case (scanned c t v cur i)
  have "adder_ok c (AScan v cur i)" using scanned by (intro adder_okD [of c t]) (auto simp: dict_inv_def)
  then show ?case by (intro dict_inv_move [OF scanned(3,1)]) (auto simp: owns_def)
next
  case (reserve c t v)
  let ?d = "set_cnt (cmpf_cnt (dc_map c) + 1) (c\<lparr>h_vals := (h_vals c)(dict_cnt c \<mapsto> v)\<rparr>)"
  have "owners_ok (add_goto t (ACopy v (dict_cnt c)) ?d) \<and> slots_ok ?d \<and> dict_cnt ?d = dict_cnt c + 1"
    using reserve by (intro step_reserve) (auto simp: dict_inv_def)
  moreover have "t < length (dc_thr c)" "resetting c = {}" using reserve by (auto simp: dict_inv_def add_at_def)
  ultimately show ?case using reserve by (auto simp: dict_inv_def resetting_goto)
next
  case (beyond c t v)
  have len: "t < length (dc_thr c)" "t \<notin> resetting c" using beyond(1) by (auto simp: add_at_def resetting_def)
  then have card: "card (resetting (add_goto t AReset (set_cnt k c))) = Suc (card (resetting c))" for k
    by (subst resetting_goto) simp_all
  have small: "dict_cnt c + 1 < 2 ^ 32"
    using beyond(3) card_resetting [of c] n by (simp add: dict_inv_def CMP_VALS_MAX_def)
  then have cnt: "unat (cmpf_cnt (dc_map c) + 1) = dict_cnt c + 1" by (simp add: dict_cnt_def unat_word_ariths)
  have "slots_ok (set_cnt (cmpf_cnt (dc_map c) + 1) c)"
    using beyond(2,3) cnt unfolding dict_inv_def slots_ok_def by auto
  moreover have "owners_ok (add_goto t AReset (set_cnt (cmpf_cnt (dc_map c) + 1) c))"
    using beyond by (intro owners_move [of c t "AInc v"]) (auto simp: dict_inv_def owns_def)
  ultimately show ?case using beyond(2,3) cnt card by (simp add: dict_inv_def)
next
  case (reset c t)
  have big: "CMP_VALS_MAX \<le> dict_cnt c" using reset by (auto simp: dict_inv_def resetting_def)
  have "slots_ok (set_cnt (of_nat CMP_VALS_MAX) c)"
    using reset(2) big unfolding dict_inv_def slots_ok_def by (auto simp: unat_of_nat CMP_VALS_MAX_def)
  moreover have "owners_ok (add_goto t AIdle (set_cnt (of_nat CMP_VALS_MAX) c))"
    using reset by (intro owners_move [of c t AReset]) (auto simp: dict_inv_def owns_def)
  ultimately show ?case using reset(2) by (simp add: dict_inv_def) (simp add: unat_of_nat CMP_VALS_MAX_def)
next
  case (copy c t v i)
  have "owners_ok (add_goto t (ALen v i) (set_ent i ((dict_ent c i)\<lparr>cv_val := v @ drop (length v) (cv_val (dict_ent c i))\<rparr>) c)) \<and>
      slots_ok (set_ent i ((dict_ent c i)\<lparr>cv_val := v @ drop (length v) (cv_val (dict_ent c i))\<rparr>) c)"
    using copy by (intro step_copy) (auto simp: dict_inv_def)
  moreover have "t < length (dc_thr c)" "t \<notin> resetting c" using copy(1) by (auto simp: add_at_def resetting_def)
  ultimately show ?case using copy(2) by (simp add: dict_inv_def resetting_goto)
next
  case (set_len c t v i)
  have "owners_ok (add_goto t AIdle (set_ent i ((dict_ent c i)\<lparr>cv_len := of_nat (length v)\<rparr>) c)) \<and>
      slots_ok (set_ent i ((dict_ent c i)\<lparr>cv_len := of_nat (length v)\<rparr>) c)"
    using set_len by (intro step_len) (auto simp: dict_inv_def)
  moreover have "t < length (dc_thr c)" "t \<notin> resetting c" using set_len(1) by (auto simp: add_at_def resetting_def)
  ultimately show ?case using set_len(2) by (simp add: dict_inv_def resetting_goto)
qed

lemma dict_inv_init: "dict_inv n (dict_conf0 n)"
proof -
  have "add_at (dict_conf0 n) t l \<Longrightarrow> l = AIdle" for t l by (auto simp: add_at_def dict_conf0_def)
  moreover have "h_vals (dict_conf0 n) = Map.empty" by (simp add: dict_conf0_def)
  ultimately have "owners_ok (dict_conf0 n)" "resetting (dict_conf0 n) = {}"
    unfolding owners_ok_def resetting_def owns_def by (fastforce+)
  moreover have "slots_ok (dict_conf0 n)" by (auto simp: slots_ok_def dict_conf0_def dict_cnt_def dict_ent_def)
  ultimately show ?thesis by (simp add: dict_inv_def) (simp add: dict_conf0_def dict_cnt_def)
qed

lemma dict_reach_inv: "dict_reach n c \<Longrightarrow> n < 2 ^ 31 \<Longrightarrow> dict_inv n c"
  by (induction rule: dict_reach.induct) (auto intro: dict_inv_init dict_inv_step)

section \<open>No value is lost\<close>

text \<open>An adder that has not yet found its value and has no slot yet.\<close>

definition looks :: "byte list \<Rightarrow> add_pc \<Rightarrow> bool" where
  "looks v l \<longleftrightarrow> (\<exists>cur i. l = AScan v cur i) \<or> l = AInc v"

definition kept :: "byte list \<Rightarrow> dict_conf \<Rightarrow> bool" where
  "kept v c \<longleftrightarrow> (\<exists>i. h_vals c i = Some v) \<or> (\<exists>t l. add_at c t l \<and> looks v l) \<or> CMP_VALS_MAX \<le> dict_cnt c"

text \<open>An entry with a length is complete: it holds the value its slot was reserved for.\<close>

lemma entry_complete:
  assumes inv: "dict_inv n c" and i: "i < CMP_VALS_MAX" and len: "cv_len (dict_ent c i) \<noteq> 0"
  obtains v where "h_vals c i = Some v" "ent_is (dict_ent c i) v"
proof -
  have sl: "slots_ok c" and own: "owners_ok c" using inv by (auto simp: dict_inv_def)
  obtain v where v: "h_vals c i = Some v" using slots_okD(4) [OF sl i] len by (cases "h_vals c i") auto
  have "\<not> owns l i" if "add_at c t l" for t l
    using adder_okD [OF own that] len by (auto simp: owns_def)
  then have "ent_is (dict_ent c i) v" using own v by (auto simp: owners_ok_def)
  then show ?thesis using that v by blast
qed

lemma ent_is_same: "ent_is e v \<Longrightarrow> ent_is e w \<Longrightarrow> v = w"
  unfolding ent_is_def by metis

lemma kept_move:
  assumes "kept v c" and "add_at c t l0" and "dc_thr d = dc_thr c" "dict_cnt c \<ge> CMP_VALS_MAX \<Longrightarrow> dict_cnt d \<ge> CMP_VALS_MAX"
    and h: "\<And>i. h_vals c i = Some v \<Longrightarrow> h_vals d i = Some v" and look: "looks v l0 \<Longrightarrow> kept v (add_goto t l d)"
  shows "kept v (add_goto t l d)"
proof -
  have len: "t < length (dc_thr d)" using assms(2,3) by (simp add: add_at_def)
  have at: "add_at (add_goto t l d) u m \<longleftrightarrow> (if u = t then m = l else add_at c u m)" for u m
    using add_at_goto [OF len] add_at_thr [OF assms(3)] by simp
  consider i where "h_vals c i = Some v" | u m where "add_at c u m" "looks v m" | "CMP_VALS_MAX \<le> dict_cnt c"
    using assms(1) unfolding kept_def by blast
  then show ?thesis
  proof cases
    case 1
    then show ?thesis using h unfolding kept_def by auto
  next
    case 2
    then show ?thesis
    proof (cases "u = t")
      case True
      then have "m = l0" using 2(1) assms(2) by (simp add: add_at_def)
      then show ?thesis using look 2(2) by simp
    next
      case False
      then show ?thesis using 2 at unfolding kept_def by auto
    qed
  next
    case 3
    then show ?thesis using assms(4) unfolding kept_def by simp
  qed
qed

lemma kept_look: "add_at c t l0 \<Longrightarrow> dc_thr d = dc_thr c \<Longrightarrow> looks v l \<Longrightarrow> kept v (add_goto t l d)"
  unfolding kept_def by (metis add_at_def add_at_goto)

lemma kept_step:
  assumes "dict_step c d" and "dict_inv n c" and n: "n < 2 ^ 31" and "v \<in> h_asked d" and "v \<in> h_asked c \<Longrightarrow> kept v c"
  shows "kept v d"
  using assms(1,2,4,5)
proof (induction rule: dict_step.induct)
  case (full c t mem)
  then show ?case by (simp add: kept_def)
next
  case (enter c t mem)
  show ?case
  proof (cases "v = take 32 mem")
    case True
    then show ?thesis by (intro kept_look [OF enter(1)]) (auto simp: looks_def)
  next
    case False
    then show ?thesis using enter by - (rule kept_move [OF _ enter(1)], auto simp: looks_def)
  qed
next
  case (found c t w cur i)
  have ok: "adder_ok c (AScan w cur i)" using found by (intro adder_okD [of c t]) (auto simp: dict_inv_def)
  then have "cv_len (dict_ent c i) \<noteq> 0" "i < CMP_VALS_MAX" using found(2,3) by (auto simp: ent_is_def val_ok_def)
  then have "h_vals c i = Some w" using entry_complete [OF found(4)] ent_is_same found(3) by metis
  then have "kept w (add_goto t AIdle c)" by (auto simp: kept_def)
  then show ?case using found by - (rule kept_move [OF _ found(1)], auto simp: looks_def)
next
  case (differs c t w cur i)
  have "looks v (AScan w cur i) \<Longrightarrow> kept v (add_goto t (AScan w cur (i + 1)) c)"
    by (rule kept_look [OF differs(1)]) (auto simp: looks_def)
  then show ?case using differs by - (rule kept_move [OF _ differs(1)], auto)
next
  case (scanned c t w cur i)
  have "looks v (AScan w cur i) \<Longrightarrow> kept v (add_goto t (AInc w) c)"
    by (rule kept_look [OF scanned(1)]) (auto simp: looks_def)
  then show ?case using scanned by - (rule kept_move [OF _ scanned(1)], auto)
next
  case (reserve c t w)
  let ?d = "set_cnt (cmpf_cnt (dc_map c) + 1) (c\<lparr>h_vals := (h_vals c)(dict_cnt c \<mapsto> w)\<rparr>)"
  have "h_vals c (dict_cnt c) = None"
    using reserve(3) slots_okD(1) [of c "dict_cnt c"] by (auto simp: dict_inv_def)
  moreover have "looks v (AInc w) \<Longrightarrow> kept v (add_goto t (ACopy w (dict_cnt c)) ?d)" by (auto simp: kept_def looks_def)
  ultimately show ?case using reserve by - (rule kept_move [OF _ reserve(1)], auto simp: add_goto_def set_cnt_def)
next
  case (beyond c t w)
  have "dict_cnt c + 1 < 2 ^ 32"
    using beyond(3) card_resetting [of c] n by (simp add: dict_inv_def CMP_VALS_MAX_def)
  then have "unat (cmpf_cnt (dc_map c) + 1) = dict_cnt c + 1" by (simp add: dict_cnt_def unat_word_ariths)
  then show ?case using beyond(2) by (simp add: kept_def)
next
  case (reset c t)
  show ?case by (simp add: kept_def) (simp add: unat_of_nat CMP_VALS_MAX_def)
next
  case (copy c t w i)
  then show ?case by - (rule kept_move [OF _ copy(1)], auto simp: looks_def)
next
  case (set_len c t w i)
  then show ?case by - (rule kept_move [OF _ set_len(1)], auto simp: looks_def)
qed simp

lemma asked_kept: "dict_reach n c \<Longrightarrow> n < 2 ^ 31 \<Longrightarrow> v \<in> h_asked c \<Longrightarrow> kept v c"
proof (induction rule: dict_reach.induct)
  case init
  then show ?case by (simp add: dict_conf0_def)
next
  case (step c d)
  then show ?case using kept_step [OF step(2) dict_reach_inv [OF step(1)]] by blast
qed

text \<open>C0: the dictionary of constants under concurrency. Any number of processes below \<open>2 ^ 31\<close> may add constants
  at the same time, in any interleaving of their atomic steps, from an empty dictionary on. In every state so
  reached: a slot an adder is about to write is inside the array and belongs to no other adder; the slots
  handed out are exactly those below the number of entries (cut at the size of the array); an entry with a length is complete, it holds
  the value of 2 to 32 bytes its slot was reserved for; an entry whose slot was handed out and that no adder is
  still writing is complete; and no constant is lost: a constant the function was called with has a slot, or a call for it
  still runs, or the dictionary is full.\<close>

theorem const_dict_concurrent:
  assumes "dict_reach n c" and "n < 2 ^ 31"
  shows "(\<forall>t l i. add_at c t l \<and> owns l i \<longrightarrow> i < CMP_VALS_MAX \<and> (\<forall>u m. add_at c u m \<and> owns m i \<longrightarrow> u = t)) \<and>
    dom (h_vals c) = {i. i < dict_cnt c \<and> i < CMP_VALS_MAX} \<and>
    (\<forall>i<CMP_VALS_MAX. cv_len (dict_ent c i) \<noteq> 0 \<longrightarrow>
       (\<exists>v. h_vals c i = Some v \<and> 2 \<le> length v \<and> length v \<le> 32 \<and> ent_is (dict_ent c i) v)) \<and>
    (\<forall>i v. h_vals c i = Some v \<and> (\<forall>t l. add_at c t l \<longrightarrow> \<not> owns l i) \<longrightarrow> ent_is (dict_ent c i) v) \<and>
    (\<forall>v\<in>h_asked c. (\<exists>i. h_vals c i = Some v) \<or> (\<exists>t l. add_at c t l \<and> looks v l) \<or> CMP_VALS_MAX \<le> dict_cnt c)"
proof (intro conjI)
  have inv: "dict_inv n c" by (rule dict_reach_inv [OF assms])
  then have sl: "slots_ok c" and own: "owners_ok c" by (auto simp: dict_inv_def)
  show "\<forall>t l i. add_at c t l \<and> owns l i \<longrightarrow> i < CMP_VALS_MAX \<and> (\<forall>u m. add_at c u m \<and> owns m i \<longrightarrow> u = t)"
    using owner_val [OF own] other_owner [OF own] slots_okD(1) [OF sl] by (metis min_less_iff_conj)
  show "dom (h_vals c) = {i. i < dict_cnt c \<and> i < CMP_VALS_MAX}" using slots_okD(1) [OF sl] by (auto simp: dom_def)
  show "\<forall>i<CMP_VALS_MAX. cv_len (dict_ent c i) \<noteq> 0 \<longrightarrow>
       (\<exists>v. h_vals c i = Some v \<and> 2 \<le> length v \<and> length v \<le> 32 \<and> ent_is (dict_ent c i) v)"
    using entry_complete [OF inv] slots_okD(2) [OF sl] unfolding val_ok_def by metis
  show "\<forall>i v. h_vals c i = Some v \<and> (\<forall>t l. add_at c t l \<longrightarrow> \<not> owns l i) \<longrightarrow> ent_is (dict_ent c i) v"
    using own unfolding owners_ok_def by blast
  show "\<forall>v\<in>h_asked c. (\<exists>i. h_vals c i = Some v) \<or> (\<exists>t l. add_at c t l \<and> looks v l) \<or> CMP_VALS_MAX \<le> dict_cnt c"
    using asked_kept [OF assms] unfolding kept_def by blast
qed

text \<open>
  Two adders of the same value: both read the number of entries before either has a slot. The first one has
  stored the value, the second one has a slot of its own for the same value.
\<close>

definition twice_conf :: dict_conf where
  "twice_conf = \<lparr>dc_map = \<lparr>cmpf_cnt = 2, cmpf_valArr = (replicate CMP_VALS_MAX \<lparr>cv_val = replicate 32 0, cv_len = 0\<rparr>)
       [0 := \<lparr>cv_val = [1, 2] @ replicate 30 0, cv_len = 2\<rparr>]\<rparr>,
     dc_thr = [AIdle, ACopy [1, 2] 1], h_vals = [0 \<mapsto> [1, 2], 1 \<mapsto> [1, 2]], h_asked = {[1, 2]}\<rparr>"

lemmas conf_defs = add_at_def add_goto_def set_cnt_def set_ent_def ask_def dict_cnt_def dict_ent_def

lemma twice_conf_reach: "dict_reach 2 twice_conf"
proof -
  define A where "A = replicate CMP_VALS_MAX \<lparr>cv_val = replicate 32 (0 :: byte), cv_len = 0\<rparr>"
  define C where "C n a l h q = \<lparr>dc_map = \<lparr>cmpf_cnt = n, cmpf_valArr = a\<rparr>, dc_thr = l, h_vals = h, h_asked = q\<rparr>" for n a l h q
  have pos: "0 < CMP_VALS_MAX" "1 < CMP_VALS_MAX" by (simp_all add: CMP_VALS_MAX_def)
  have [simp]: "A ! 0 = \<lparr>cv_val = replicate 32 0, cv_len = 0\<rparr>" "A[0 := e] ! 0 = e" for e using pos by (simp_all add: A_def)
  have 0: "dict_reach 2 (C 0 A [AIdle, AIdle] Map.empty {})"
    using dict_reach.init [of 2] by (simp add: dict_conf0_def C_def A_def numeral_2_eq_2)
  have 1: "dict_reach 2 (C 0 A [AScan [1, 2] 0 0, AIdle] Map.empty {[1, 2]})"
    using dict_reach.step [OF 0 dict_step.enter [of _ 0 "[1, 2]"]] pos by (simp add: conf_defs C_def)
  have 2: "dict_reach 2 (C 0 A [AScan [1, 2] 0 0, AScan [1, 2] 0 0] Map.empty {[1, 2]})"
    using dict_reach.step [OF 1 dict_step.enter [of _ 1 "[1, 2]"]] pos by (simp add: conf_defs C_def)
  have 3: "dict_reach 2 (C 0 A [AInc [1, 2], AScan [1, 2] 0 0] Map.empty {[1, 2]})"
    using dict_reach.step [OF 2 dict_step.scanned [of _ 0 "[1, 2]" 0 0]] by (simp add: conf_defs C_def)
  have 4: "dict_reach 2 (C 1 A [ACopy [1, 2] 0, AScan [1, 2] 0 0] [0 \<mapsto> [1, 2]] {[1, 2]})"
    using dict_reach.step [OF 3 dict_step.reserve [of _ 0 "[1, 2]"]] pos by (simp add: conf_defs C_def)
  have 5: "dict_reach 2 (C 1 (A[0 := \<lparr>cv_val = [1, 2] @ replicate 30 0, cv_len = 0\<rparr>]) [ALen [1, 2] 0, AScan [1, 2] 0 0] [0 \<mapsto> [1, 2]] {[1, 2]})"
    using dict_reach.step [OF 4 dict_step.copy [of _ 0 "[1, 2]" 0]] by (simp add: conf_defs C_def)
  have 6: "dict_reach 2 (C 1 (A[0 := \<lparr>cv_val = [1, 2] @ replicate 30 0, cv_len = 2\<rparr>]) [AIdle, AScan [1, 2] 0 0] [0 \<mapsto> [1, 2]] {[1, 2]})"
    using dict_reach.step [OF 5 dict_step.set_len [of _ 0 "[1, 2]" 0]] by (simp add: conf_defs C_def)
  have 7: "dict_reach 2 (C 1 (A[0 := \<lparr>cv_val = [1, 2] @ replicate 30 0, cv_len = 2\<rparr>]) [AIdle, AInc [1, 2]] [0 \<mapsto> [1, 2]] {[1, 2]})"
    using dict_reach.step [OF 6 dict_step.scanned [of _ 1 "[1, 2]" 0 0]] by (simp add: conf_defs C_def)
  have "dict_reach 2 (C 2 (A[0 := \<lparr>cv_val = [1, 2] @ replicate 30 0, cv_len = 2\<rparr>]) [AIdle, ACopy [1, 2] 1] [0 \<mapsto> [1, 2], 1 \<mapsto> [1, 2]] {[1, 2]})"
    using dict_reach.step [OF 7 dict_step.reserve [of _ 1 "[1, 2]"]] pos by (simp add: conf_defs C_def)
  then show ?thesis by (simp add: twice_conf_def C_def A_def)
qed

theorem const_dict_concurrent_witness:
  "dict_reach 2 twice_conf \<and> h_vals twice_conf 0 = h_vals twice_conf 1 \<and> ent_is (dict_ent twice_conf 0) [1, 2] \<and>
   dom (h_vals twice_conf) = {i. i < dict_cnt twice_conf \<and> i < CMP_VALS_MAX}"
proof -
  have n: "(2 :: nat) < 2 ^ 31" by simp
  have zero: "h_vals twice_conf 0 = Some [1, 2]" "h_vals twice_conf 1 = Some [1, 2]" by (simp_all add: twice_conf_def)
  have "0 < CMP_VALS_MAX" "cv_len (dict_ent twice_conf 0) \<noteq> 0" by (simp_all add: twice_conf_def dict_ent_def CMP_VALS_MAX_def)
  then show ?thesis using const_dict_concurrent [OF twice_conf_reach n] zero twice_conf_reach by auto
qed

end
