(* ===== verification/HF_CC.thy ===== *)
theory HF_CC
  imports HF_Subproc
begin

text \<open>
  \<open>honggfuzz/hfuzz_cc/hfuzz-cc.c\<close>: the wrapper around the compiler. It builds an argument vector and
  executes a compiler with it. Pointers of the vectors are strings, or \<open>None\<close> for \<open>NULL\<close>.

  The kernel puts the arguments, a \<open>NULL\<close>, the environment and a \<open>NULL\<close> one after the other; the
  environment is read from there. Which programs can be executed, the directory with the headers,
  the embedded libraries and what the system calls do are parameters.
\<close>

section \<open>State\<close>

definition ARGS_MAX :: nat where "ARGS_MAX = 4096"

text \<open>The initial stack with the number of arguments, the array \<open>args\<close> of \<open>ccMode\<close> and \<open>ldMode\<close>, and the
  files with their owners.\<close>

record cc_t =
  cc_stack :: "byte list option list"
  cc_argc :: nat
  cc_args :: "byte list option list"
  cc_files :: "path \<rightharpoonup> nat \<times> byte list"

text \<open>The static variables that \<open>main\<close> sets.\<close>

record cc_flags =
  isCXX :: bool
  isGCC :: bool
  usePCGuard :: bool
  hasCmdLineFSanitizeFuzzer :: bool

record cc_sys =
  cs_exec :: "byte list option \<Rightarrow> path \<Rightarrow> bool"   \<comment> \<open>\<open>execvp\<close> finds a program, given \<open>PATH\<close>\<close>
  cs_inc :: "byte list"
  cs_euid :: nat
  cs_mkostemp :: "byte list \<Rightarrow> path option"          \<comment> \<open>for each library\<close>
  cs_write :: "byte list \<Rightarrow> nat \<Rightarrow> io_ev"
  cs_rename :: "byte list \<Rightarrow> bool"
  cs_blob :: "byte list \<Rightarrow> byte list"

section \<open>Environment\<close>

definition environ :: "cc_t \<Rightarrow> byte list option list" where
  "environ s = takeWhile (\<lambda>e. e \<noteq> None) (drop (cc_argc s + 1) (cc_stack s))"

fun env_find :: "byte list \<Rightarrow> byte list option list \<Rightarrow> byte list option" where
  "env_find name [] = None"
| "env_find name (None # r) = None"
| "env_find name (Some e # r) =
     (if take (length name + 1) e = name @ [61] then Some (drop (length name + 1) e) else env_find name r)"

definition getenv :: "byte list \<Rightarrow> cc_t \<Rightarrow> byte list option" where
  "getenv name s = env_find name (environ s)"

definition useASAN :: "cc_t \<Rightarrow> bool" where "useASAN s = (getenv (str ''HFUZZ_CC_ASAN'') s \<noteq> None)"
definition useMSAN :: "cc_t \<Rightarrow> bool" where "useMSAN s = (getenv (str ''HFUZZ_CC_MSAN'') s \<noteq> None)"
definition useUBSAN :: "cc_t \<Rightarrow> bool" where "useUBSAN s = (getenv (str ''HFUZZ_CC_UBSAN'') s \<noteq> None)"
definition useM32 :: "cc_t \<Rightarrow> bool" where "useM32 s = (getenv (str ''HFUZZ_FORCE_M32'') s \<noteq> None)"
definition useBelowGCC8 :: "cc_t \<Rightarrow> bool" where "useBelowGCC8 s = (getenv (str ''HFUZZ_CC_USE_GCC_BELOW_8'') s \<noteq> None)"

section \<open>Modes\<close>

text \<open>\<open>argv\<close> with its strings; the first is the name of the wrapper.\<close>

definition isVersionMode :: "byte list list \<Rightarrow> bool" where
  "isVersionMode argv = (\<exists>a \<in> set (tl argv). a \<in> {str ''--version'', str ''--target-help'', str ''--help''})"

definition isLDMode :: "byte list list \<Rightarrow> bool" where
  "isLDMode argv = (\<not> (\<exists>a \<in> set (tl argv). a \<in> {str ''--version'', str ''--target-help'', str ''-c'', str ''-E'', str ''-S''}))"

fun exec_build_scan :: "byte list list \<Rightarrow> bool \<times> byte list option \<Rightarrow> bool \<times> byte list option" where
  "exec_build_scan [] p = p"
| "exec_build_scan (a # r) (shared_flag, output_filename) =
     exec_build_scan r
       (if a \<in> {str ''-shared'', str ''--shared'', str ''-dynamiclib''} then (True, output_filename)
        else if a = str ''-o'' \<and> r \<noteq> [] then (shared_flag, Some (hd r))
        else (shared_flag, output_filename))"

definition isExecutableBuild :: "byte list list \<Rightarrow> bool" where
  "isExecutableBuild argv =
     (case exec_build_scan argv (False, None) of (shared_flag, output_filename) \<Rightarrow>
        if shared_flag then False
        else case output_filename of
          None \<Rightarrow> True
        | Some f \<Rightarrow>
            (case strrchr f 46 of
               None \<Rightarrow> True
             | Some i \<Rightarrow> drop i f \<notin> {str ''.so'', str ''.dylib''}))"

definition hasFSanitizeFuzzer :: "byte list list \<Rightarrow> bool" where
  "hasFSanitizeFuzzer argv =
     (\<exists>a \<in> set (tl argv). util_strStartsWith a (str ''-fsanitize='') \<and> strstr_at (str ''fuzzer'') a \<noteq> None)"

section \<open>Vectors\<close>

text \<open>The vector a function works on: the arguments of the process, or the array of the caller.\<close>

datatype argv_ref = OnStack | Local

definition arg_put :: "argv_ref \<Rightarrow> nat \<Rightarrow> byte list option \<Rightarrow> (cc_t, unit) hm" where
  "arg_put v j x = (case v of
     OnStack \<Rightarrow> bnd (gets cc_stack) (\<lambda>a. bnd (check OutOfBounds (j < length a)) (\<lambda>_. modify (\<lambda>s. s\<lparr>cc_stack := (cc_stack s)[j := x]\<rparr>)))
   | Local \<Rightarrow> bnd (gets cc_args) (\<lambda>a. bnd (check OutOfBounds (j < length a)) (\<lambda>_. modify (\<lambda>s. s\<lparr>cc_args := (cc_args s)[j := x]\<rparr>))))"

primrec push_all :: "argv_ref \<Rightarrow> byte list list \<Rightarrow> nat \<Rightarrow> (cc_t, nat) hm" where
  "push_all v [] j = ret j"
| "push_all v (x # xs) j = bnd (arg_put v j (Some x)) (\<lambda>_. push_all v xs (j + 1))"

definition push_if :: "(cc_t \<Rightarrow> bool) \<Rightarrow> argv_ref \<Rightarrow> byte list list \<Rightarrow> nat \<Rightarrow> (cc_t, nat) hm" where
  "push_if b v xs j = bnd (gets b) (\<lambda>b. if b then push_all v xs j else ret j)"

definition vec :: "argv_ref \<Rightarrow> cc_t \<Rightarrow> byte list list" where
  "vec v s = map the (takeWhile (\<lambda>a. a \<noteq> None) (case v of OnStack \<Rightarrow> cc_stack s | Local \<Rightarrow> cc_args s))"

section \<open>Executing a compiler\<close>

text \<open>The program that is executed with its arguments and environment, or an exit with failure.\<close>

datatype cc_exit = Execd path "byte list list" "byte list option list" | ExitFailure

definition hf_execvp :: "cc_sys \<Rightarrow> path \<Rightarrow> argv_ref \<Rightarrow> (cc_t, cc_exit option) hm" where
  "hf_execvp y file v =
     bnd (arg_put v 0 (Some file)) (\<lambda>_.
     gets (\<lambda>s. if cs_exec y (getenv (str ''PATH'') s) file then Some (Execd file (vec v s) (environ s)) else None))"

fun try_exec :: "cc_sys \<Rightarrow> path list \<Rightarrow> argv_ref \<Rightarrow> (cc_t, cc_exit option) hm" where
  "try_exec y [] v = ret None"
| "try_exec y (f # fs) v = bnd (hf_execvp y f v) (\<lambda>r. case r of None \<Rightarrow> try_exec y fs v | Some e \<Rightarrow> ret (Some e))"

definition clangxx_names :: "path list" where
  "clangxx_names =
    [str ''clang++'', str ''clang++-20.0'', str ''clang++-20'', str ''clang++-19.0'',
     str ''clang++-19'', str ''clang++-18.0'', str ''clang++-18'', str ''clang++-17.0'',
     str ''clang++-17'', str ''clang++-16.0'', str ''clang++-16'', str ''clang++-15.0'',
     str ''clang++-15'', str ''clang++-14.0'', str ''clang++-14'', str ''clang++-13.0'',
     str ''clang++-13'', str ''clang++-12.0'', str ''clang++-12'', str ''clang++12'',
     str ''clang++-11.0'', str ''clang++-11'', str ''clang++11'', str ''clang++-10.0'',
     str ''clang++-10'', str ''clang++10'', str ''clang++-9.0'', str ''clang++-9'',
     str ''clang++9'', str ''clang++-8.0'', str ''clang++-8'', str ''clang++8'',
     str ''clang++-7.0'', str ''clang++-7'', str ''clang++7'', str ''clang'',
     str ''clang++'']"

definition clang_names :: "path list" where
  "clang_names =
    [str ''clang'', str ''clang-20.0'', str ''clang-20'', str ''clang-19.0'',
     str ''clang-19'', str ''clang-18.0'', str ''clang-18'', str ''clang-17.0'',
     str ''clang-17'', str ''clang-16.0'', str ''clang-16'', str ''clang-15.0'',
     str ''clang-15'', str ''clang-14.0'', str ''clang-14'', str ''clang-13.0'',
     str ''clang-13'', str ''clang-12.0'', str ''clang-12'', str ''clang12'',
     str ''clang-11.0'', str ''clang-11'', str ''clang11'', str ''clang-10.0'',
     str ''clang-10'', str ''clang10'', str ''clang-9.0'', str ''clang-9'',
     str ''clang9'', str ''clang-8.0'', str ''clang-8'', str ''clang8'',
     str ''clang-7.0'', str ''clang-7'', str ''clang7'', str ''clang'']"

definition compiler_names :: "cc_flags \<Rightarrow> path list" where
  "compiler_names f =
     (if isGCC f then (if isCXX f then [str ''g++'', str ''gcc''] else [str ''gcc''])
      else if isCXX f then clangxx_names else clang_names)"

definition execCC :: "cc_flags \<Rightarrow> cc_sys \<Rightarrow> nat \<Rightarrow> argv_ref \<Rightarrow> (cc_t, cc_exit) hm" where
  "execCC f y argc v =
     bnd (push_if useASAN v [str ''-fsanitize=address''] argc) (\<lambda>argc.
     bnd (push_if useMSAN v [str ''-fsanitize=memory''] argc) (\<lambda>argc.
     bnd (push_if useUBSAN v [str ''-fsanitize=undefined'', str ''-fno-sanitize-recover=undefined''] argc) (\<lambda>argc.
     bnd (arg_put v argc None) (\<lambda>_.
     bnd (gets (getenv (if isCXX f then str ''HFUZZ_CXX_PATH'' else str ''HFUZZ_CC_PATH''))) (\<lambda>cc_path. case cc_path of
       Some p \<Rightarrow> bnd (hf_execvp y p v) (\<lambda>r. case r of None \<Rightarrow> ret ExitFailure | Some e \<Rightarrow> ret e)
     | None \<Rightarrow> bnd (try_exec y (compiler_names f) v) (\<lambda>r. case r of None \<Rightarrow> raise LogFatal | Some e \<Rightarrow> ret e))))))"

section \<open>Libraries\<close>

definition getIncPaths :: "cc_sys \<Rightarrow> byte list" where
  "getIncPaths y = snprintf_cut PATH_MAX (str ''-I'' @ cs_inc y @ str ''/includes/'')"

definition lib_path :: "cc_sys \<Rightarrow> byte list \<Rightarrow> path" where
  "lib_path y name = snprintf_cut PATH_MAX (str ''/tmp/'' @ name @ [46] @ dec_nat (cs_euid y) @ [46] @
     hex_nat (unat (util_CRC64 (cs_blob y name))) @ str ''.a'')"

text \<open>The library is written to a new file, which \<open>rename\<close> puts in its place.\<close>

definition install_lib :: "cc_sys \<Rightarrow> byte list \<Rightarrow> path \<Rightarrow> (cc_t, path option) pm" where
  "install_lib y name tmp s =
     (case files_writeToFd (cs_write y name) (cs_blob y name) of
        None \<Rightarrow> None
      | Some (ok, w) \<Rightarrow>
          if \<not> ok \<or> \<not> cs_rename y name then Some (Inr (None, s\<lparr>cc_files := (cc_files s)(tmp := None)\<rparr>))
          else Some (Inr (Some (lib_path y name), s\<lparr>cc_files := (cc_files s)(tmp := None, lib_path y name \<mapsto> (cs_euid y, w))\<rparr>)))"

text \<open>\<open>getLibPath\<close>: the path, or nothing when it returns false.\<close>

definition lib_there :: "cc_sys \<Rightarrow> byte list \<Rightarrow> cc_t \<Rightarrow> bool" where
  "lib_there y name s = (case cc_files s (lib_path y name) of
     None \<Rightarrow> False
   | Some (owner, c) \<Rightarrow> length c = length (cs_blob y name) \<and> owner = cs_euid y)"

definition getLibPath :: "cc_sys \<Rightarrow> byte list \<Rightarrow> byte list \<Rightarrow> (cc_t, path option) pm" where
  "getLibPath y name env =
     pbnd (plift (gets (getenv env))) (\<lambda>libEnvLoc. case libEnvLoc of
       Some p \<Rightarrow> plift (ret (Some (snprintf_cut PATH_MAX p)))
     | None \<Rightarrow>
         pbnd (plift (gets (lib_there y name))) (\<lambda>there.
         if there then plift (ret (Some (lib_path y name)))
         else case cs_mkostemp y name of
           None \<Rightarrow> plift (ret None)
         | Some tmp \<Rightarrow> install_lib y name tmp))"

text \<open>The three functions that keep the path of a library are each called once.\<close>

definition need_lib :: "cc_sys \<Rightarrow> byte list \<Rightarrow> byte list \<Rightarrow> (cc_t, path) pm" where
  "need_lib y name env = pbnd (getLibPath y name env) (\<lambda>p. case p of None \<Rightarrow> plift (raise LogFatal) | Some p \<Rightarrow> plift (ret p))"

definition getLibHFuzzPath :: "cc_sys \<Rightarrow> (cc_t, path) pm" where
  "getLibHFuzzPath y = need_lib y (str ''libhfuzz'') (str ''HFUZZ_LHFUZZ_PATH'')"

definition getLibHFNetDriverPath :: "cc_sys \<Rightarrow> (cc_t, path) pm" where
  "getLibHFNetDriverPath y = need_lib y (str ''libhfnetdriver'') (str ''HFUZZ_LHFNETDRIVER_PATH'')"

definition getLibHFCommonPath :: "cc_sys \<Rightarrow> (cc_t, path) pm" where
  "getLibHFCommonPath y = need_lib y (str ''libhfcommon'') (str ''HFUZZ_LHFCOMMON_PATH'')"

section \<open>Options\<close>

definition netdriver_opts :: "byte list list" where
  "netdriver_opts =
    [str (''-DHFND_FUZZING_ENTRY_FUNCTION_CXX(x,y)='' @ ''extern const char* LIBHFNETDRIVER_module_netdriver;'' @
       ''const char** LIBHFNETDRIVER_tmp1 = &LIBHFNETDRIVER_module_netdriver;'' @
       ''extern \"C\" int HonggfuzzNetDriver_main(x,y);'' @ ''int HonggfuzzNetDriver_main(x,y)''),
     str (''-DHFND_FUZZING_ENTRY_FUNCTION(x,y)='' @ ''extern const char* LIBHFNETDRIVER_module_netdriver;'' @
       ''const char** LIBHFNETDRIVER_tmp1 = &LIBHFNETDRIVER_module_netdriver;'' @
       ''int HonggfuzzNetDriver_main(x,y);'' @ ''int HonggfuzzNetDriver_main(x,y)'')]"

definition pre_opts :: "cc_flags \<Rightarrow> cc_sys \<Rightarrow> byte list list" where
  "pre_opts f y =
     [getIncPaths y] @
     (if \<not> isGCC f then [str ''-Wno-unused-command-line-argument''] else []) @
     (if isGCC f then [str ''-finline-limit=1000''] else [str ''-mllvm'', str ''-inline-threshold=1000'']) @
     [str ''-fno-builtin'', str ''-fno-omit-frame-pointer'', str ''-D__NO_STRING_INLINES''] @
     netdriver_opts"

definition commonPreOpts :: "cc_flags \<Rightarrow> cc_sys \<Rightarrow> nat \<Rightarrow> (cc_t, nat) hm" where
  "commonPreOpts f y j = bnd (push_all Local (pre_opts f y) j) (\<lambda>j. push_if useM32 Local [str ''-m32''] j)"

definition commonPostOpts :: "cc_flags \<Rightarrow> nat \<Rightarrow> (cc_t, nat) hm" where
  "commonPostOpts f j =
     (if isGCC f then
        bnd (gets useBelowGCC8) (\<lambda>b.
        if b then push_all Local [str ''-fsanitize-coverage=trace-pc''] j
        else push_all Local [str ''-fsanitize-coverage=trace-pc,trace-cmp''] j)
      else if usePCGuard f then
        push_all Local
          ((if hasCmdLineFSanitizeFuzzer f then [str ''-fno-sanitize=fuzzer'', str ''-fno-sanitize=fuzzer-no-link''] else []) @
           [str ''-fsanitize-coverage=trace-pc-guard,trace-cmp,trace-div,indirect-calls'']) j
      else
        push_all Local
          [str ''-fno-sanitize-coverage=trace-pc-guard'', str ''-fno-sanitize=fuzzer'', str ''-fsanitize=fuzzer-no-link'',
           str ''-fsanitize-coverage=trace-cmp,trace-div,indirect-calls''] j)"

definition cc_name :: "cc_flags \<Rightarrow> byte list" where
  "cc_name f = (if isCXX f then str ''c++'' else str ''cc'')"

definition ccMode :: "cc_flags \<Rightarrow> cc_sys \<Rightarrow> byte list list \<Rightarrow> (cc_t, cc_exit) hm" where
  "ccMode f y argv =
     bnd (push_all Local [cc_name f] 0) (\<lambda>j.
     bnd (commonPreOpts f y j) (\<lambda>j.
     bnd (push_all Local (tl argv) j) (\<lambda>j.
     bnd (commonPostOpts f j) (\<lambda>j.
     execCC f y j Local))))"

text \<open>The functions that are replaced by those of \<open>libhfuzz/memorycmp.c\<close>.\<close>

definition wrapped :: "byte list list" where
  "wrapped =
    [str ''strcmp'', str ''strcasecmp'', str ''stricmp'', str ''strncmp'',
     str ''strncasecmp'', str ''strnicmp'', str ''strstr'', str ''strcasestr'',
     str ''memcmp'', str ''bcmp'', str ''memmem'', str ''strcpy'',
     str ''strlcpy'', str ''ap_cstr_casecmp'', str ''ap_cstr_casecmpn'', str ''ap_strcasestr'',
     str ''apr_cstr_casecmp'', str ''apr_cstr_casecmpn'', str ''CRYPTO_memcmp'', str ''OPENSSL_memcmp'',
     str ''OPENSSL_strcasecmp'', str ''OPENSSL_strncasecmp'', str ''memcmpct'', str ''xmlStrncmp'',
     str ''xmlStrcmp'', str ''xmlStrEqual'', str ''xmlStrcasecmp'', str ''xmlStrncasecmp'',
     str ''xmlStrstr'', str ''xmlStrcasestr'', str ''memcmp_const_time'', str ''strcsequal'',
     str ''cmsstrcasecmp'', str ''g_strcmp0'', str ''g_strcasecmp'', str ''g_strncasecmp'',
     str ''g_strstr_len'', str ''g_ascii_strcasecmp'', str ''g_ascii_strncasecmp'', str ''g_str_has_prefix'',
     str ''g_str_has_suffix'', str ''Curl_strcasecompare'', str ''curl_strequal'', str ''Curl_safe_strcasecompare'',
     str ''Curl_strncasecompare'', str ''curl_strnequal'', str ''sqlite3_stricmp'', str ''sqlite3_strnicmp'',
     str ''sqlite3StrICmp'']"

definition wrap_opts :: "byte list list" where
  "wrap_opts = map (\<lambda>f. str ''-Wl,--wrap='' @ f) wrapped"

definition undefined_opts :: "byte list list" where
  "undefined_opts = [str ''-Wl,-u,HonggfuzzNetDriver_main'', str ''-Wl,-u,LIBHFUZZ_module_instrument'', str ''-Wl,-u,LIBHFUZZ_module_memorycmp'']"

definition ldMode :: "cc_flags \<Rightarrow> cc_sys \<Rightarrow> byte list list \<Rightarrow> (cc_t, cc_exit) pm" where
  "ldMode f y argv =
     pbnd (plift (push_all Local [cc_name f] 0)) (\<lambda>j.
     pbnd (plift (commonPreOpts f y j)) (\<lambda>j.
     pbnd (plift (push_all Local (wrap_opts @ undefined_opts) j)) (\<lambda>j.
     pbnd (plift (push_all Local (tl argv) j)) (\<lambda>j.
     pbnd (plift (push_all Local [str ''-xnone''] j)) (\<lambda>j.
     pbnd (getLibHFNetDriverPath y) (\<lambda>p.
     pbnd (plift (push_all Local ([p] @ (if isExecutableBuild argv then [str ''-Wl,--whole-archive''] else [])) j)) (\<lambda>j.
     pbnd (getLibHFuzzPath y) (\<lambda>p.
     pbnd (plift (push_all Local ([p] @ (if isExecutableBuild argv then [str ''-Wl,--no-whole-archive''] else [])) j)) (\<lambda>j.
     pbnd (getLibHFCommonPath y) (\<lambda>p.
     pbnd (plift (push_all Local [p, str ''-pthread'', str ''-ldl'', str ''-lrt''] j)) (\<lambda>j.
     pbnd (plift (commonPostOpts f j)) (\<lambda>j.
     plift (execCC f y j Local)))))))))))))"

section \<open>The program\<close>

text \<open>\<open>basename\<close> of POSIX.\<close>

definition posix_basename :: "path \<Rightarrow> path" where
  "posix_basename p =
     (if p = [] then [46]
      else let q = rev (dropWhile (\<lambda>c. c = 47) (rev p))
           in if q = [] then [47] else rev (takeWhile (\<lambda>c. c \<noteq> 47) (rev q)))"

definition baseNameContains :: "path \<Rightarrow> byte list \<Rightarrow> bool" where
  "baseNameContains p s = (strstr_at s (posix_basename (snprintf_cut PATH_MAX p)) \<noteq> None)"

definition main_flags :: "byte list list \<Rightarrow> cc_flags" where
  "main_flags argv =
     \<lparr>isCXX = baseNameContains (hd argv) (str ''++''),
      isGCC = (baseNameContains (hd argv) (str ''-gcc'') \<or> baseNameContains (hd argv) (str ''-g++'')),
      usePCGuard = (\<not> baseNameContains (hd argv) (str ''-8bitcnt-'')),
      hasCmdLineFSanitizeFuzzer = hasFSanitizeFuzzer argv\<rparr>"

definition cc_main :: "cc_sys \<Rightarrow> (cc_t, cc_exit) pm" where
  "cc_main y =
     pbnd (plift (gets (\<lambda>s. map the (take (cc_argc s) (cc_stack s))))) (\<lambda>argv.
     pbnd (plift (check NullDeref (argv \<noteq> []))) (\<lambda>_.
     let f = main_flags argv
     in if length argv \<le> 1 \<or> isVersionMode argv then plift (execCC f y (length argv) OnStack)
        else if length argv > ARGS_MAX - 128 then plift (raise LogFatal)
        else if isLDMode argv then ldMode f y argv
        else plift (ccMode f y argv)))"

end
