(* ===== verification/HF_CC_Props.thy ===== *)
theory HF_CC_Props
  imports HF_CC HF_Crash_Props
begin

text \<open>
  The argument vector of the compiler wrapper: it never overflows, the arguments of the user arrive
  in their order between those of the wrapper, and the environment is kept; except when the
  vector is that of the process itself.
\<close>

section \<open>The array\<close>

lemma wlp_next: "wlp m R s \<Longrightarrow> (\<And>x t. R x t \<Longrightarrow> wlp (f x) Q t) \<Longrightarrow> wlp (bnd m f) Q s"
  by (auto simp: wlp_bnd elim: wlp_mono)

declare push_all.simps [simp del]

text \<open>The array holds \<open>ys\<close>, and the stack is that of \<open>s0\<close>.\<close>

definition argv_is :: "cc_t \<Rightarrow> byte list list \<Rightarrow> nat \<Rightarrow> cc_t \<Rightarrow> bool" where
  "argv_is s0 ys j s \<longleftrightarrow> cc_stack s = cc_stack s0 \<and> cc_argc s = cc_argc s0 \<and> length (cc_args s) = ARGS_MAX \<and>
     j = length ys \<and> take j (cc_args s) = map Some ys"

text \<open>It holds at most \<open>b\<close> more.\<close>

definition stage :: "cc_t \<Rightarrow> byte list list \<Rightarrow> nat \<Rightarrow> nat \<Rightarrow> cc_t \<Rightarrow> bool" where
  "stage s0 ys b j s \<longleftrightarrow> (\<exists>zs. length zs \<le> b \<and> argv_is s0 (ys @ zs) j s)"

lemma stage_0: "argv_is s0 ys j s \<Longrightarrow> stage s0 ys 0 j s"
  unfolding stage_def by (intro exI [of _ "[]"]) simp

lemma stage_mono: "stage s0 ys b j s \<Longrightarrow> b \<le> c \<Longrightarrow> stage s0 ys c j s"
  unfolding stage_def using le_trans by blast

lemma push_is:
  assumes "argv_is s0 ys j s" and "length ys + length xs \<le> ARGS_MAX"
  shows "wlp (push_all Local xs j) (argv_is s0 (ys @ xs)) s"
  using assms
proof (induction xs arbitrary: ys j s)
  case (Cons x xs)
  let ?t = "s\<lparr>cc_args := (cc_args s)[j := Some x]\<rparr>"
  have j: "j < length (cc_args s)" using Cons.prems by (simp add: argv_is_def)
  then have "argv_is s0 (ys @ [x]) (j + 1) ?t" using Cons.prems(1) by (auto simp: argv_is_def take_Suc_conv_app_nth)
  then have "wlp (push_all Local xs (j + 1)) (argv_is s0 ((ys @ [x]) @ xs)) ?t" by (rule Cons.IH) (use Cons.prems(2) in simp)
  then show ?case using j by (simp add: push_all.simps hf_wlp arg_put_def)
qed (simp add: push_all.simps hf_wlp)

lemma stage_push:
  assumes "stage s0 ys b j s" and "length ys + b + length xs \<le> ARGS_MAX"
  shows "wlp (push_all Local xs j) (stage s0 ys (b + length xs)) s"
proof -
  obtain zs where zs: "length zs \<le> b" "argv_is s0 (ys @ zs) j s" using assms(1) by (auto simp: stage_def)
  then have "wlp (push_all Local xs j) (argv_is s0 ((ys @ zs) @ xs)) s" using assms(2) by (intro push_is) simp_all
  then show ?thesis
    by (rule wlp_mono) (use zs in \<open>auto simp: stage_def intro!: exI [of _ "zs @ xs"]\<close>)
qed

lemma stage_push_if:
  assumes "stage s0 ys b j s" and "length ys + b + length xs \<le> ARGS_MAX"
  shows "wlp (push_if c Local xs j) (stage s0 ys (b + length xs)) s"
  using stage_push [OF assms] stage_mono [OF assms(1), of "b + length xs"] by (simp add: push_if_def hf_wlp)

lemma stage_pre:
  assumes "stage s0 ys b j s" and "length ys + b + 10 \<le> ARGS_MAX"
  shows "wlp (commonPreOpts f y j) (stage s0 ys (b + 10)) s"
proof -
  have len: "length (pre_opts f y) \<le> 9" by (simp add: pre_opts_def netdriver_opts_def)
  have "wlp (push_all Local (pre_opts f y) j) (stage s0 ys (b + 9)) s"
    using stage_push [OF assms(1), of "pre_opts f y"] len assms(2) by (auto elim!: wlp_mono intro: stage_mono)
  then show ?thesis
    unfolding commonPreOpts_def wlp_bnd
    by (rule wlp_mono) (use stage_push_if [of s0 ys "b + 9" _ _ "[str ''-m32'']"] assms(2) in \<open>simp add: add.commute [of 10]\<close>)
qed

lemma stage_post:
  assumes "stage s0 ys b j s" and "length ys + b + 4 \<le> ARGS_MAX"
  shows "wlp (commonPostOpts f j) (stage s0 ys (b + 4)) s"
proof -
  have push: "wlp (push_all Local xs j) (stage s0 ys (b + 4)) s" if "length xs \<le> 4" for xs
    using stage_push [OF assms(1), of xs] that assms(2) by (auto elim!: wlp_mono intro: stage_mono)
  show ?thesis unfolding commonPostOpts_def by (simp add: hf_wlp push)
qed

text \<open>The arguments of the user.\<close>

lemma stage_user:
  assumes "stage s0 ys b j s" and "length ys + b + length us \<le> ARGS_MAX"
  shows "wlp (push_all Local us j) (\<lambda>j s. \<exists>pre. length pre \<le> b \<and> stage s0 (ys @ pre @ us) 0 j s) s"
proof -
  obtain zs where zs: "length zs \<le> b" "argv_is s0 (ys @ zs) j s" using assms(1) by (auto simp: stage_def)
  then have "wlp (push_all Local us j) (argv_is s0 ((ys @ zs) @ us)) s" using assms(2) by (intro push_is) simp_all
  then show ?thesis by (rule wlp_mono) (use zs stage_0 in auto)
qed

section \<open>Execution\<close>

text \<open>The environment and the stack are kept, and the vector of a program that is executed is closed.\<close>

definition exec_ok :: "cc_t \<Rightarrow> byte list list \<Rightarrow> cc_exit \<Rightarrow> cc_t \<Rightarrow> bool" where
  "exec_ok s0 ys r t \<longleftrightarrow> cc_stack t = cc_stack s0 \<and>
     (\<forall>file args env. r = Execd file args env \<longrightarrow> env = environ s0 \<and> (\<exists>zs. args = file # tl ys @ zs))"

text \<open>After the closing \<open>NULL\<close>.\<close>

definition closed :: "cc_t \<Rightarrow> byte list list \<Rightarrow> cc_t \<Rightarrow> bool" where
  "closed s0 ys s \<longleftrightarrow> cc_stack s = cc_stack s0 \<and> cc_argc s = cc_argc s0 \<and> ys \<noteq> [] \<and> (\<exists>r. cc_args s = map Some ys @ None # r)"

lemma closed_vec: "closed s0 ys s \<Longrightarrow> vec Local s = ys"
  by (auto simp: closed_def vec_def takeWhile_append comp_def)

lemma closed_first: "closed s0 ys s \<Longrightarrow> closed s0 (f # tl ys) (s\<lparr>cc_args := (cc_args s)[0 := Some f]\<rparr>)"
  by (cases ys) (auto simp: closed_def)

lemma closed_environ: "closed s0 ys s \<Longrightarrow> environ s = environ s0"
  by (simp add: closed_def environ_def)

lemma execvp_closed:
  assumes "closed s0 ys s"
  shows "wlp (hf_execvp y f Local) (\<lambda>r t. closed s0 (f # tl ys) t \<and> (\<forall>e. r = Some e \<longrightarrow> e = Execd f (f # tl ys) (environ s0))) s"
proof -
  let ?t = "s\<lparr>cc_args := (cc_args s)[0 := Some f]\<rparr>"
  have t: "closed s0 (f # tl ys) ?t" by (rule closed_first [OF assms])
  have "0 < length (cc_args s)" using assms by (auto simp: closed_def)
  then show ?thesis using t closed_vec [OF t] closed_environ [OF t]
    by (simp add: hf_execvp_def arg_put_def hf_wlp)
qed

lemma try_exec_closed:
  assumes "closed s0 ys s"
  shows "wlp (try_exec y fs Local) (\<lambda>r t. cc_stack t = cc_stack s0 \<and> (\<forall>e. r = Some e \<longrightarrow> (\<exists>f. e = Execd f (f # tl ys) (environ s0)))) s"
  using assms
proof (induction fs arbitrary: ys s)
  case (Cons f fs)
  show ?case
    unfolding try_exec.simps wlp_bnd
  proof (rule wlp_mono [OF execvp_closed [OF Cons.prems]], goal_cases)
    case (1 r t)
    then show ?case using Cons.IH [of "f # tl ys" t] by (cases r) (auto simp: hf_wlp closed_def)
  qed
qed (simp add: hf_wlp closed_def)

lemma execCC_ok:
  assumes "stage s0 ys b j s" and "ys \<noteq> []" and "length ys + b + 5 \<le> ARGS_MAX"
  shows "wlp (execCC f y j Local) (exec_ok s0 ys) s"
proof -
  have null: "wlp (arg_put Local j None) (\<lambda>_ t. \<exists>zs. closed s0 (ys @ zs) t) s" if st: "stage s0 ys (b + 4) j s" for j s
  proof -
    obtain zs where zs: "length zs \<le> b + 4" "argv_is s0 (ys @ zs) j s" using st unfolding stage_def by blast
    then have "j < length (cc_args s)" using assms(3) by (simp add: argv_is_def)
    then have "(cc_args s)[j := None] = map Some (ys @ zs) @ None # drop (Suc j) (cc_args s)"
      using zs(2) by (auto simp: argv_is_def upd_conv_take_nth_drop)
    then have "closed s0 (ys @ zs) (s\<lparr>cc_args := (cc_args s)[j := None]\<rparr>)" using zs(2) assms(2) by (simp add: closed_def argv_is_def)
    then show ?thesis using \<open>j < length (cc_args s)\<close> by (auto simp: arg_put_def hf_wlp)
  qed
  have run: "wlp (bnd (gets (getenv nm)) (\<lambda>p. case p of
       Some p \<Rightarrow> bnd (hf_execvp y p Local) (\<lambda>r. case r of None \<Rightarrow> ret ExitFailure | Some e \<Rightarrow> ret e)
     | None \<Rightarrow> bnd (try_exec y cs Local) (\<lambda>r. case r of None \<Rightarrow> raise LogFatal | Some e \<Rightarrow> ret e))) (exec_ok s0 ys) s"
    if cl: "\<exists>zs. closed s0 (ys @ zs) s" for nm cs s
  proof -
    obtain zs where c: "closed s0 (ys @ zs) s" using cl by blast
    have tl: "tl (ys @ zs) = tl ys @ zs" using assms(2) by (cases ys) simp_all
    show ?thesis
    proof (cases "getenv nm s")
      case None
      show ?thesis unfolding wlp_bnd wlp_gets None option.case
        by (rule wlp_mono [OF try_exec_closed [OF c]]) (auto simp: hf_wlp exec_ok_def tl split: option.split)
    next
      case (Some p)
      show ?thesis unfolding wlp_bnd wlp_gets Some option.case
        by (rule wlp_mono [OF execvp_closed [OF c]]) (auto simp: hf_wlp exec_ok_def tl closed_def split: option.split)
    qed
  qed
  have b1: "wlp (push_if useASAN Local [str ''-fsanitize=address''] j) (stage s0 ys (b + 1)) s"
    using stage_push_if [OF assms(1), of "[str ''-fsanitize=address'']" useASAN] assms(3) by simp
  have b2: "wlp (push_if useMSAN Local [str ''-fsanitize=memory''] j) (stage s0 ys (b + 2)) s" if "stage s0 ys (b + 1) j s" for j s
    using stage_push_if [OF that, of "[str ''-fsanitize=memory'']" useMSAN] assms(3) by simp
  have b3: "wlp (push_if useUBSAN Local [str ''-fsanitize=undefined'', str ''-fno-sanitize-recover=undefined''] j) (stage s0 ys (b + 4)) s"
    if "stage s0 ys (b + 2) j s" for j s
    using stage_push_if [OF that, of "[str ''-fsanitize=undefined'', str ''-fno-sanitize-recover=undefined'']" useUBSAN] assms(3) by (simp add: numeral_eq_Suc)
  show ?thesis
    unfolding execCC_def
    by (rule wlp_next [OF b1], rule wlp_next [OF b2], assumption, rule wlp_next [OF b3], assumption, rule wlp_next [OF null], assumption, rule run)
qed

section \<open>Modes\<close>

lemma ccMode_ok:
  assumes len: "length (cc_args s) = ARGS_MAX" and argc: "0 < length argv" "length argv \<le> ARGS_MAX - 128"
  shows "wlp (ccMode f y argv) (\<lambda>r t. \<exists>pre. exec_ok s ([cc_name f] @ pre @ tl argv) r t) s"
proof -
  have big: "length argv + 128 \<le> ARGS_MAX" using argc by (simp add: ARGS_MAX_def)
  have s0: "stage s [] 0 0 s" using len by (intro stage_0) (simp add: argv_is_def)
  have a: "wlp (push_all Local [cc_name f] 0) (stage s [cc_name f] 0) s"
    using push_is [of s "[]" 0 s "[cc_name f]"] len big by (auto elim!: wlp_mono intro: stage_0 simp: argv_is_def)
  have b: "wlp (commonPreOpts f y j) (stage s [cc_name f] 10) t" if "stage s [cc_name f] 0 j t" for j t
    using stage_pre [OF that] big by simp
  have c: "wlp (push_all Local (tl argv) j) (\<lambda>j t. \<exists>pre. length pre \<le> 10 \<and> stage s ([cc_name f] @ pre @ tl argv) 0 j t) t"
    if "stage s [cc_name f] 10 j t" for j t
    using stage_user [OF that, of "tl argv"] big by simp
  show ?thesis
    unfolding ccMode_def
  proof (rule wlp_next [OF a], rule wlp_next [OF b], assumption, rule wlp_next [OF c], assumption, elim exE conjE, goal_cases)
    case (1 _ _ _ _ j t pre)
    have "wlp (commonPostOpts f j) (stage s ([cc_name f] @ pre @ tl argv) 4) t" using stage_post [OF 1(4)] 1(3) big by simp
    moreover have "wlp (execCC f y k Local) (exec_ok s ([cc_name f] @ pre @ tl argv)) u" if "stage s ([cc_name f] @ pre @ tl argv) 4 k u" for k u
      by (rule execCC_ok [OF that]) (use 1(3) big in simp_all)
    ultimately have "wlp (bnd (commonPostOpts f j) (\<lambda>j. execCC f y j Local)) (exec_ok s ([cc_name f] @ pre @ tl argv)) t" by (rule wlp_next)
    then show ?case by (rule wlp_mono) blast
  qed
qed

lemma install_stage: "stage s0 ys b j s \<Longrightarrow> pwlp (install_lib y name tmp) (\<lambda>_. stage s0 ys b j) s"
  by (auto simp: install_lib_def pwlp_def stage_def argv_is_def split: option.split)

lemma getLib_stage: "stage s0 ys b j s \<Longrightarrow> pwlp (getLibPath y name env) (\<lambda>_. stage s0 ys b j) s"
  by (auto simp: getLibPath_def hf_pwlp hf_wlp install_stage split: option.split)

lemma need_lib_stage: "stage s0 ys b j s \<Longrightarrow> pwlp (need_lib y name env) (\<lambda>_. stage s0 ys b j) s"
  unfolding need_lib_def pwlp_pbnd by (rule pwlp_mono [OF getLib_stage]) (auto simp: hf_pwlp hf_wlp split: option.split)

lemmas lib_stage = need_lib_stage [of _ _ _ _ _ _ "str ''libhfuzz''" "str ''HFUZZ_LHFUZZ_PATH''", folded getLibHFuzzPath_def]
  need_lib_stage [of _ _ _ _ _ _ "str ''libhfnetdriver''" "str ''HFUZZ_LHFNETDRIVER_PATH''", folded getLibHFNetDriverPath_def]
  need_lib_stage [of _ _ _ _ _ _ "str ''libhfcommon''" "str ''HFUZZ_LHFCOMMON_PATH''", folded getLibHFCommonPath_def]

lemma length_wrap: "length (wrap_opts @ undefined_opts) = 52"
  by (simp add: wrap_opts_def undefined_opts_def wrapped_def)

text \<open>A step of \<open>ldMode\<close> that adds at most \<open>k\<close> arguments after those of the user.\<close>

lemma stage_push_le:
  assumes "stage s0 ys b j s" and "length xs \<le> k" and "length ys + b + k \<le> ARGS_MAX"
  shows "pwlp (plift (push_all Local xs j)) (stage s0 ys (b + k)) s"
  using stage_push [OF assms(1), of xs] assms(2,3) by (auto simp: hf_pwlp elim!: wlp_mono intro: stage_mono)

lemma ld_tail:
  assumes st: "stage s0 ys 0 j s" and ys: "ys \<noteq> []" "length ys + 40 \<le> ARGS_MAX"
  shows "pwlp (pbnd (plift (push_all Local [str ''-xnone''] j)) (\<lambda>j.
     pbnd (getLibHFNetDriverPath y) (\<lambda>p.
     pbnd (plift (push_all Local ([p] @ (if isExecutableBuild argv then [str ''-Wl,--whole-archive''] else [])) j)) (\<lambda>j.
     pbnd (getLibHFuzzPath y) (\<lambda>p.
     pbnd (plift (push_all Local ([p] @ (if isExecutableBuild argv then [str ''-Wl,--no-whole-archive''] else [])) j)) (\<lambda>j.
     pbnd (getLibHFCommonPath y) (\<lambda>p.
     pbnd (plift (push_all Local [p, str ''-pthread'', str ''-ldl'', str ''-lrt''] j)) (\<lambda>j.
     pbnd (plift (commonPostOpts f j)) (\<lambda>j.
     plift (execCC f y j Local))))))))))  (exec_ok s0 ys) s"
proof -
  have post: "pwlp (plift (commonPostOpts f j)) (stage s0 ys 13) t" if "stage s0 ys 9 j t" for j t
    using stage_post [OF that] ys(2) by (simp add: hf_pwlp)
  have fin: "pwlp (plift (execCC f y j Local)) (exec_ok s0 ys) t" if "stage s0 ys 13 j t" for j t
    using execCC_ok [OF that ys(1)] ys(2) by (simp add: hf_pwlp)
  note push = stage_push_le [of s0 ys]
  show ?thesis
    apply (rule pwlp_seq [OF push [OF st, where k = 1]], simp, use ys(2) in simp)
    apply (rule pwlp_seq [OF lib_stage(2)], assumption)
    apply (rule pwlp_seq [OF push [where k = 2]], assumption, simp, use ys(2) in simp)
    apply (rule pwlp_seq [OF lib_stage(1)], assumption)
    apply (rule pwlp_seq [OF push [where k = 2]], assumption, simp, use ys(2) in simp)
    apply (rule pwlp_seq [OF lib_stage(3)], assumption)
    apply (rule pwlp_seq [OF push [where k = 4]], assumption, simp, use ys(2) in simp)
    apply (rule pwlp_seq [OF post], simp)
    apply (rule fin, assumption)
    done
qed

lemma ldMode_ok:
  assumes len: "length (cc_args s) = ARGS_MAX" and argc: "0 < length argv" "length argv \<le> ARGS_MAX - 128"
  shows "pwlp (ldMode f y argv) (\<lambda>r t. \<exists>pre. exec_ok s ([cc_name f] @ pre @ tl argv) r t) s"
proof -
  have big: "length argv + 128 \<le> ARGS_MAX" using argc by (simp add: ARGS_MAX_def)
  have a: "pwlp (plift (push_all Local [cc_name f] 0)) (stage s [cc_name f] 0) s"
    using push_is [of s "[]" 0 s "[cc_name f]"] len big by (auto elim!: wlp_mono intro: stage_0 simp: argv_is_def hf_pwlp)
  have b: "pwlp (plift (commonPreOpts f y j)) (stage s [cc_name f] 10) t" if "stage s [cc_name f] 0 j t" for j t
    using stage_pre [OF that] big by (simp add: hf_pwlp)
  have w: "pwlp (plift (push_all Local (wrap_opts @ undefined_opts) j)) (stage s [cc_name f] 62) t" if "stage s [cc_name f] 10 j t" for j t
    using stage_push_le [OF that, of "wrap_opts @ undefined_opts" 52] big length_wrap by simp
  have c: "pwlp (plift (push_all Local (tl argv) j)) (\<lambda>j t. \<exists>pre. length pre \<le> 62 \<and> stage s ([cc_name f] @ pre @ tl argv) 0 j t) t"
    if "stage s [cc_name f] 62 j t" for j t
    using stage_user [OF that, of "tl argv"] big by (simp add: hf_pwlp)
  show ?thesis
    unfolding ldMode_def
  proof (rule pwlp_seq [OF a], rule pwlp_seq [OF b], assumption, rule pwlp_seq [OF w], assumption, rule pwlp_seq [OF c], assumption, elim exE conjE, goal_cases)
    case (1 _ _ _ _ _ _ j t pre)
    have "length ([cc_name f] @ pre @ tl argv) + 40 \<le> ARGS_MAX" using 1(4) big by simp
    from ld_tail [OF 1(5) _ this] show ?case by (rule pwlp_mono) (simp, blast)
  qed
qed

section \<open>Termination\<close>

definition ends :: "('s, 'a) pm \<Rightarrow> bool" where
  "ends m \<longleftrightarrow> (\<forall>s. m s \<noteq> None)"

lemma ends_pbnd: "ends m \<Longrightarrow> (\<And>x. ends (f x)) \<Longrightarrow> ends (pbnd m f)"
  unfolding ends_def pbnd_def by (auto split: option.split sum.split)

lemma ends_plift: "ends (plift m)"
  by (simp add: ends_def plift_def)

lemma ends_if: "ends m \<Longrightarrow> ends n \<Longrightarrow> ends (if b then m else n)"
  by simp

lemma ends_option: "ends m \<Longrightarrow> (\<And>x. ends (f x)) \<Longrightarrow> ends (case p of None \<Rightarrow> m | Some x \<Rightarrow> f x)"
  by (simp split: option.split)

lemmas ends_rules = ends_pbnd ends_plift ends_if ends_option

lemma install_ends: "files_writeToFd (cs_write y name) (cs_blob y name) \<noteq> None \<Longrightarrow> ends (install_lib y name tmp)"
  by (auto simp: ends_def install_lib_def split: option.split)

lemma ldMode_ends:
  assumes "\<forall>name. files_writeToFd (cs_write y name) (cs_blob y name) \<noteq> None"
  shows "ends (ldMode f y argv)"
proof -
  have lib: "ends (need_lib y name env)" for name env
    unfolding need_lib_def getLibPath_def by (intro ends_rules install_ends assms [THEN spec])
  show ?thesis
    unfolding ldMode_def getLibHFNetDriverPath_def getLibHFuzzPath_def getLibHFCommonPath_def by (intro ends_rules lib)
qed

section \<open>The arguments of the process\<close>

text \<open>The stack when the closing \<open>NULL\<close> is where the environment began.\<close>

definition env_gone :: "byte list list \<Rightarrow> cc_t \<Rightarrow> bool" where
  "env_gone ys s \<longleftrightarrow> ys \<noteq> [] \<and> length ys = cc_argc s + 1 \<and> (\<exists>r. cc_stack s = map Some ys @ None # r)"

lemma env_gone_environ: "env_gone ys s \<Longrightarrow> environ s = [] \<and> vec OnStack s = ys"
  by (auto simp: env_gone_def environ_def vec_def takeWhile_append comp_def)

lemma env_gone_first: "env_gone ys s \<Longrightarrow> env_gone (f # tl ys) (s\<lparr>cc_stack := (cc_stack s)[0 := Some f]\<rparr>)"
  by (cases ys) (auto simp: env_gone_def)

lemma try_exec_gone:
  assumes "env_gone ys s"
  shows "wlp (try_exec y fs OnStack) (\<lambda>r t. \<forall>e. r = Some e \<longrightarrow> (\<exists>f\<in>set fs. e = Execd f (f # tl ys) [] \<and> cs_exec y None f)) s"
  using assms
proof (induction fs arbitrary: ys s)
  case (Cons f fs)
  let ?t = "s\<lparr>cc_stack := (cc_stack s)[0 := Some f]\<rparr>"
  have g: "env_gone (f # tl ys) ?t" by (rule env_gone_first [OF Cons.prems])
  have "0 < length (cc_stack s)" using Cons.prems by (auto simp: env_gone_def)
  moreover have "wlp (try_exec y fs OnStack) (\<lambda>r t. \<forall>e. r = Some e \<longrightarrow> (\<exists>g\<in>set (f # fs). e = Execd g (g # tl ys) [] \<and> cs_exec y None g)) ?t"
    using Cons.IH [OF g] by (rule wlp_mono) auto
  ultimately show ?case using env_gone_environ [OF g]
    by (auto simp: hf_execvp_def arg_put_def hf_wlp getenv_def)
qed (simp add: hf_wlp)

lemma execCC_gone:
  assumes st: "cc_stack s = map Some argv @ None # map Some env @ [None]" "cc_argc s = length argv" "argv \<noteq> []" "env \<noteq> []"
    and san: "useASAN s" "\<not> useMSAN s" "\<not> useUBSAN s"
  shows "wlp (execCC f y (length argv) OnStack)
    (\<lambda>r t. \<exists>g\<in>set (compiler_names f). r = Execd g (g # tl argv @ [str ''-fsanitize=address'']) [] \<and> cs_exec y None g) s"
proof -
  let ?a = "str ''-fsanitize=address''"
  let ?t = "s\<lparr>cc_stack := map Some (argv @ [?a]) @ map Some env @ [None]\<rparr>"
  let ?u = "s\<lparr>cc_stack := map Some (argv @ [?a]) @ None # map Some (tl env) @ [None]\<rparr>"
  have same: "environ ?t = environ s" using st by (simp add: environ_def)
  have upd1: "(cc_stack s)[length argv := Some ?a] = map Some (argv @ [?a]) @ map Some env @ [None]" using st(1) by (simp add: list_update_append)
  have upd2: "(map Some (argv @ [?a]) @ map Some env @ [None])[Suc (length argv) := None] = map Some (argv @ [?a]) @ None # map Some (tl env) @ [None]"
    using st(4) by (cases env) (simp_all add: list_update_append)
  have none: "\<not> useMSAN ?t" "\<not> useUBSAN ?t" using san same by (simp_all add: useMSAN_def useUBSAN_def getenv_def)
  have g: "env_gone (argv @ [?a]) ?u" using st by (simp add: env_gone_def)
  have tl: "tl (argv @ [?a]) = tl argv @ [?a]" using st(3) by (cases argv) simp_all
  have run: "wlp (bnd (try_exec y (compiler_names f) OnStack) (\<lambda>r. case r of None \<Rightarrow> raise LogFatal | Some e \<Rightarrow> ret e))
    (\<lambda>r t. \<exists>g\<in>set (compiler_names f). r = Execd g (g # tl argv @ [?a]) [] \<and> cs_exec y None g) ?u"
    unfolding wlp_bnd
    by (rule wlp_mono [OF try_exec_gone [OF g]]) (auto simp: hf_wlp tl split: option.split)
  have no: "getenv nm ?u = None" for nm using env_gone_environ [OF g] by (simp add: getenv_def)
  have len: "length argv < length (cc_stack s)" using st(1) by simp
  have put1: "wlp (push_if useASAN OnStack [?a] (length argv)) (\<lambda>j t. j = Suc (length argv) \<and> t = ?t) s"
    using san(1) len upd1 by (simp add: push_if_def push_all.simps arg_put_def hf_wlp)
  have put2: "wlp (arg_put OnStack (Suc (length argv)) None) (\<lambda>_ t. t = ?u) ?t"
    using upd2 by (simp add: arg_put_def hf_wlp)
  have skip: "wlp (push_if b OnStack xs j) (\<lambda>k t. k = j \<and> t = ?t) ?t" if "\<not> b ?t" for b xs j
    using that by (simp add: push_if_def hf_wlp)
  show ?thesis unfolding execCC_def
    apply (rule wlp_next [OF put1], elim conjE, hypsubst)
    apply (rule wlp_next [OF skip [of useMSAN, OF none(1)]], elim conjE, hypsubst)
    apply (rule wlp_next [OF skip [of useUBSAN, OF none(2)]], elim conjE, hypsubst)
    apply (rule wlp_next [OF put2], hypsubst)
    unfolding wlp_bnd wlp_gets no option.case
    using run unfolding wlp_bnd .
qed

lemma main_argv:
  "cc_stack s = map Some argv @ r \<Longrightarrow> cc_argc s = length argv \<Longrightarrow> map the (take (cc_argc s) (cc_stack s)) = argv"
  by (simp add: comp_def)

section \<open>Properties\<close>

text \<open>C0: compiling and linking with the wrapper, for every number of arguments. Writing the vector stays inside
  its 4096 entries; the compiler is executed with the environment of the wrapper and with all
  arguments of the user in their order, between those of the wrapper. The wrapper only
  fails to return when the writing of an embedded library never makes progress.\<close>

theorem cc_main_passes_arguments:
  assumes st: "cc_stack s = map Some argv @ None # rest" "cc_argc s = length argv" and len: "length (cc_args s) = ARGS_MAX"
    and argc: "1 < length argv" "\<not> isVersionMode argv"
  shows "case cc_main y s of
      None \<Rightarrow> isLDMode argv \<and> (\<exists>name. files_writeToFd (cs_write y name) (cs_blob y name) = None)
    | Some (Inl e) \<Rightarrow> e = LogFatal
    | Some (Inr (r, t)) \<Rightarrow> cc_stack t = cc_stack s \<and>
        (\<forall>file args env. r = Execd file args env \<longrightarrow> env = environ s \<and> (\<exists>pre post. args = file # pre @ tl argv @ post))"
proof -
  let ?f = "main_flags argv"
  have run: "cc_main y s = (if length argv > ARGS_MAX - 128 then Some (Inl LogFatal)
      else if isLDMode argv then ldMode ?f y argv s else plift (ccMode ?f y argv) s)"
    using main_argv [OF st] argc by (auto simp: cc_main_def pm_steps Let_def pbnd_def plift_def gets_def check_def ret_def raise_def)
  have ok: "pwlp (if isLDMode argv then ldMode ?f y argv else plift (ccMode ?f y argv))
      (\<lambda>r t. \<exists>pre. exec_ok s ([cc_name ?f] @ pre @ tl argv) r t) s" if "length argv \<le> ARGS_MAX - 128"
  proof -
    have "0 < length argv" using argc(1) by linarith
    then show ?thesis using ldMode_ok [OF len _ that] ccMode_ok [OF len _ that] by (simp add: pwlp_plift)
  qed
  have none: "\<exists>name. files_writeToFd (cs_write y name) (cs_blob y name) = None" if "ldMode ?f y argv s = None"
    using ldMode_ends [of y ?f argv] that unfolding ends_def by metis
  show ?thesis
  proof (cases "length argv > ARGS_MAX - 128")
    case False
    then show ?thesis using ok none unfolding run
      by (auto simp: pwlp_def exec_ok_def plift_def split: option.splits sum.splits if_splits)
  qed (simp add: run)
qed

text \<open>C0: asked for its version (or without arguments) the wrapper passes on the vector of the process itself
  and writes behind its end. With \<open>HFUZZ_CC_ASAN\<close> alone the closing \<open>NULL\<close> lands on the first entry
  of the environment: the compiler is started with an empty environment, and neither \<open>PATH\<close> nor the
  compiler chosen by \<open>HFUZZ_CC_PATH\<close> is seen any more.\<close>

theorem version_mode_loses_environment:
  assumes st: "cc_stack s = map Some argv @ None # map Some env @ [None]" "cc_argc s = length argv" "argv \<noteq> []" "env \<noteq> []"
    and mode: "isVersionMode argv \<or> length argv = 1" and san: "useASAN s" "\<not> useMSAN s" "\<not> useUBSAN s"
  shows "cc_main y s = Some (Inl LogFatal) \<or>
    (\<exists>g t. g \<in> set (compiler_names (main_flags argv)) \<and> cs_exec y None g \<and>
      cc_main y s = Some (Inr (Execd g (g # tl argv @ [str ''-fsanitize=address'']) [], t)))"
proof -
  have run: "cc_main y s = Some (execCC (main_flags argv) y (length argv) OnStack s)"
    using main_argv [OF st(1,2)] st(3) mode by (auto simp: cc_main_def Let_def pbnd_def plift_def gets_def check_def ret_def)
  show ?thesis using execCC_gone [OF st san, of "main_flags argv" y] unfolding run wlp_def by (auto split: sum.splits)
qed

text \<open>C0: the path of an embedded library that is not given by the environment names a file of the user with
  the size of the library; it holds the library, or it was there before.\<close>

theorem getLibPath_installed:
  assumes "getLibPath y name env s = Some (Inr (Some p, t))" and "getenv env s = None"
  shows "p = lib_path y name \<and> (\<exists>c. cc_files t p = Some (cs_euid y, c) \<and> length c = length (cs_blob y name) \<and>
    (c = cs_blob y name \<or> cc_files s p = Some (cs_euid y, c)))"
proof (cases "lib_there y name s")
  case True
  then show ?thesis using assms by (auto simp: getLibPath_def pbnd_def plift_def gets_def ret_def lib_there_def split: option.splits)
next
  case False
  then obtain tmp where "install_lib y name tmp s = Some (Inr (Some p, t))"
    using assms by (auto simp: getLibPath_def pbnd_def plift_def gets_def ret_def split: option.splits)
  then show ?thesis using write_loop_written [of "cs_write y name" 0 "[]" "cs_blob y name"]
    by (fastforce simp: install_lib_def files_writeToFd_def split: option.splits if_splits)
qed

section \<open>Witnesses\<close>

definition demo_cc_sys :: cc_sys where
  "demo_cc_sys = \<lparr>cs_exec = (\<lambda>_ f. f = str ''clang''), cs_inc = str ''/src'', cs_euid = 7, cs_mkostemp = (\<lambda>_. Some (str ''/tmp/x'')),
     cs_write = (\<lambda>_ _. IoPart 5), cs_rename = (\<lambda>_. True), cs_blob = (\<lambda>_. [1, 2, 3])\<rparr>"

definition demo_cc :: "byte list list \<Rightarrow> byte list list \<Rightarrow> cc_t" where
  "demo_cc argv env = \<lparr>cc_stack = map Some argv @ None # map Some env @ [None], cc_argc = length argv,
     cc_args = replicate ARGS_MAX None, cc_files = Map.empty\<rparr>"

theorem cc_main_passes_arguments_witness:
  "case cc_main demo_cc_sys (demo_cc [str ''hfuzz-clang'', str ''-c'', str ''a.c''] []) of
      None \<Rightarrow> False
    | Some (Inl e) \<Rightarrow> e = LogFatal
    | Some (Inr (r, t)) \<Rightarrow> cc_stack t = cc_stack (demo_cc [str ''hfuzz-clang'', str ''-c'', str ''a.c''] [])"
proof -
  let ?argv = "[str ''hfuzz-clang'', str ''-c'', str ''a.c'']"
  have "\<not> isVersionMode ?argv" "\<not> isLDMode ?argv" by (simp_all add: isVersionMode_def isLDMode_def str_def)
  then show ?thesis
    using cc_main_passes_arguments [of "demo_cc ?argv []" ?argv "[None]" demo_cc_sys]
    by (auto simp: demo_cc_def split: option.splits sum.splits)
qed

theorem version_mode_loses_environment_witness:
  "cc_main demo_cc_sys (demo_cc [str ''hfuzz-clang''] [str ''PATH=/bin'', str ''HFUZZ_CC_ASAN=1'']) = Some (Inl LogFatal) \<or>
    (\<exists>g t. cc_main demo_cc_sys (demo_cc [str ''hfuzz-clang''] [str ''PATH=/bin'', str ''HFUZZ_CC_ASAN=1'']) =
      Some (Inr (Execd g [g, str ''-fsanitize=address''] [], t)))"
proof -
  let ?env = "[str ''PATH=/bin'', str ''HFUZZ_CC_ASAN=1'']"
  let ?s = "demo_cc [str ''hfuzz-clang''] ?env"
  have "environ ?s = map Some ?env" by (simp add: environ_def demo_cc_def)
  then have "useASAN ?s" "\<not> useMSAN ?s" "\<not> useUBSAN ?s" by (simp_all add: useASAN_def useMSAN_def useUBSAN_def getenv_def str_def)
  then show ?thesis using version_mode_loses_environment [of ?s "[str ''hfuzz-clang'']" ?env demo_cc_sys]
    by (auto simp: demo_cc_def)
qed

theorem getLibPath_installed_witness:
  "\<exists>t. getLibPath demo_cc_sys (str ''libhfuzz'') (str ''HFUZZ_LHFUZZ_PATH'') (demo_cc [str ''cc''] []) =
      Some (Inr (Some (lib_path demo_cc_sys (str ''libhfuzz'')), t)) \<and>
    cc_files t (lib_path demo_cc_sys (str ''libhfuzz'')) = Some (7, [1, 2, 3])"
proof -
  have env: "getenv (str ''HFUZZ_LHFUZZ_PATH'') (demo_cc [str ''cc''] []) = None" by (simp add: getenv_def environ_def demo_cc_def)
  have "files_writeToFd (\<lambda>_. IoPart 5) [1, 2, 3] = Some (True, [1, 2, 3])"
    using write_loop_all [of "\<lambda>_. IoPart 5" 0 "[]" "[1, 2, 3]"] by (simp add: files_writeToFd_def numeral_eq_Suc)
  then have "\<exists>t. install_lib demo_cc_sys (str ''libhfuzz'') (str ''/tmp/x'') s = Some (Inr (Some (lib_path demo_cc_sys (str ''libhfuzz'')), t))" for s
    unfolding install_lib_def by (simp add: demo_cc_sys_def)
  moreover have "\<not> lib_there demo_cc_sys (str ''libhfuzz'') (demo_cc [str ''cc''] [])" by (simp add: lib_there_def demo_cc_def)
  moreover have "cs_mkostemp demo_cc_sys (str ''libhfuzz'') = Some (str ''/tmp/x'')" by (simp add: demo_cc_sys_def)
  ultimately obtain t where t: "getLibPath demo_cc_sys (str ''libhfuzz'') (str ''HFUZZ_LHFUZZ_PATH'') (demo_cc [str ''cc''] []) =
      Some (Inr (Some (lib_path demo_cc_sys (str ''libhfuzz'')), t))"
    using env by (fastforce simp: getLibPath_def pbnd_def plift_def gets_def)
  from getLibPath_installed [OF t env] show ?thesis using t by (auto simp: demo_cc_def) (simp_all add: demo_cc_sys_def)
qed

end
