(* ===== verification/Spec2Isabelle.thy ===== *)
theory Spec2Isabelle
  imports HF_CRC_Props HF_Corpus HF_Queue HF_Select HF_ValSearch HF_Instrument_Props HF_Driver_Props HF_MemCmp_Props
    HF_Fuzz_Props HF_Switch HF_Phase HF_Files HF_Sanitizers_Props HF_Crash_Props HF_Compose HF_Persist_Props
    HF_Dict HF_CC_Props
begin

text \<open>
  A verification library for the fuzzer of GraphDissect: honggfuzz (\<open>src/honggfuzz\<close>), extended by
  drivers that a scheduler switches at run time and by tables of function coverage.

  \<^bold>\<open>The program.\<close> The fuzzer keeps a corpus directory, a dictionary and a queue of inputs ordered
  by coverage (\<open>input.c\<close>). In each iteration a thread picks an input from the queue, mutates it
  (\<open>mangle.c\<close>) and runs the target with it. The target is linked with the instrumentation run
  time (\<open>libhfuzz/instrument.c\<close>), whose hooks write coverage, comparison progress and constants
  into maps shared with the fuzzer; inputs with new coverage go back into the queue and the
  constants feed the mutations. Which program is the target is decided by the driver loader
  (\<open>driver_loader.c\<close>), which also moves the inputs of the chosen driver to the front of the queue.
  The process of the target is started, fed and watched by \<open>subproc.c\<close> and \<open>linux/arch.c\<close>; its
  crashes are analysed in \<open>linux/trace.c\<close> with the reports of sanitizers (\<open>sanitizers.c\<close>). A persistent
  target runs many inputs in one process (\<open>libhfuzz/persistent.c\<close>, \<open>fetch.c\<close>).
  Random numbers, checksums, searches and string helpers come from \<open>libhfcommon/util.c\<close>.

  \<^bold>\<open>How code is modelled.\<close> A C function is a function of type \<open>('s, 'a) hm\<close> (theory
  \<open>HF_Prelude\<close>): from the state to a fault or a result and the new state. A fault is an access
  outside an array, a null pointer, a division by zero, a failed assertion, a \<open>free\<close> of memory that
  is not from the heap, or a fatal log message (\<open>LOG_F\<close>, which ends the process). Accesses whose
  index or pointer is computed are checked in the model, so ``no fault'' means that they are safe; what
  the bound of a loop alone keeps inside an array is structural recursion. Structs are records, fields keep their names behind a prefix,
  machine integers are words or natural numbers with the wrap-around of \<open>size_t\<close> written out
  (\<open>sz_add\<close>, \<open>sz_sub\<close>, \<open>sz_mul\<close>), linked lists with several owners are stores from addresses to
  records. Loops are structural recursion, recursion with a measure, or \<open>partial_function (option)\<close> where
  they may run for ever (the choice of the next input, waiting for a process, transfers);
  that they return is then a theorem with its condition.

  \<^bold>\<open>The theories.\<close>
  \<^item> \<open>HF_Prelude\<close>: faults, the state monad, weakest preconditions (\<open>wp\<close> for total correctness,
    \<open>wlp\<close> where a fatal exit is allowed), rules for loops, arithmetic of \<open>size_t\<close>.
  \<^item> \<open>HF_Libc\<close>: what the code uses of the C library on strings and numbers.
  \<^item> \<open>HF_Util\<close>: \<open>util.c\<close>: the xoshiro generator and ranges, string helpers, the interpolation
    search \<open>fastArray64Search\<close> (exact on sorted arrays, with its termination), decoding of C
    escapes in place (equal to decoding into a fresh string).
  \<^item> \<open>HF_CRC\<close>, \<open>HF_CRC_Props\<close>: the table-driven CRC-64; it equals the bit-serial division and
    tells apart buffers that differ in one byte.
  \<^item> \<open>HF_ValSearch\<close>: the constants of the program image: collecting, sorting, removing repetitions
    and bisecting the values of the read-only segments answers like the scan of the segments.
  \<^item> \<open>HF_Run\<close>: the records \<open>honggfuzz_t\<close>, \<open>run_t\<close>, \<open>dynfile_t\<close>, \<open>cmpfeedback_t\<close>, the file
    system as far as it is used, and the invariants of a run (\<open>wf_run\<close>, \<open>env_ok\<close>).
  \<^item> \<open>HF_Mangle\<close>, \<open>HF_Mangle_Safe\<close>: all mutations of \<open>mangle.c\<close>: safety of the whole step,
    the effect of insertions and swaps, and printability.
  \<^item> \<open>HF_Input\<close>: all of \<open>input.c\<close>. \<open>HF_Corpus\<close>: directory, dictionary, blocklist and file names.
    \<open>HF_Queue\<close>: the queue as an ordered list (locale \<open>item_order\<close>, interpreted on coverage).
    \<open>HF_Select\<close>: skip factors and the choice of the next input.
  \<^item> \<open>HF_FCov\<close>: the tables of function coverage in \<open>libhfuzz/instrument.c\<close> and \<open>func_coverage.c\<close>:
    an open-addressing table filled by concurrent recorders, as a step relation on the atomic
    operations (locale \<open>probe_positions\<close>, interpreted on edges and functions).
  \<^item> \<open>HF_Instrument\<close>, \<open>HF_Instrument_Props\<close>: start-up and every hook of
    \<open>libhfuzz/instrument.c\<close> as events: safety of all sequences of calls, coverage is never lost, the
    constant dictionary and the comparison map.
  \<^item> \<open>HF_Dict\<close>: the constant dictionary with any number of processes that add to it, as a step
    relation on the atomic operations: indices stay in bounds and entries are never lost, but a value
    may be stored twice.
  \<^item> \<open>HF_Driver\<close>, \<open>HF_Driver_Props\<close>: \<open>driver_loader.c\<close>: the doubly linked list of drivers with its
    table refines a list in which a loaded driver moves to the front; switching keeps table and
    queue well formed.

  \<^item> \<open>HF_MemCmp\<close>, \<open>HF_MemCmp_Props\<close>: the replacements of the comparison, search and copy functions in
    \<open>libhfuzz/memorycmp.c\<close> against the functions of C they replace; the functions that ignore case
    share one proof (locale \<open>char_conv\<close>, interpreted on every conversion of the file).
  \<^item> \<open>HF_Partial\<close>: computations that may not end. \<open>HF_Fuzz\<close>: \<open>fuzz.c\<close> and \<open>fuzz_profiling.c\<close>.
    \<open>HF_Fuzz_Inv\<close>, \<open>HF_Fuzz_Props\<close>: the invariant of a thread in the main phase, kept by an
    iteration; the effect of the feedback; editing in place. \<open>HF_Switch\<close>: leaving the dry run
    establishes the invariant. \<open>HF_Phase\<close>: the threads that leave the dry run together, as a
    step relation.
  \<^item> \<open>HF_Files\<close>: \<open>libhfcommon/files.c\<close>: transfers in pieces, files, symbol lists, shared memory.
  \<^item> \<open>HF_Sanitizers\<close>, \<open>HF_Sanitizers_Props\<close>: \<open>sanitizers.c\<close>, from \<open>linux/unwind.c\<close> the search in
    maps and symbol lists: bounds of the parser of reports, frames read back, the hash of a stack.
  \<^item> \<open>HF_Crash\<close>, \<open>HF_Crash_Props\<close>: \<open>report.c\<close> and the analysis of a signal in \<open>linux/trace.c\<close>: which
    crashes are saved under which name, and that no saved crash is lost.
  \<^item> \<open>HF_Subproc\<close>, \<open>HF_Subproc_Props\<close>: \<open>subproc.c\<close> and the waiting loop of \<open>linux/arch.c\<close>: the frame
    of a run, descriptors and arguments of the target, time limits.
  \<^item> \<open>HF_Compose\<close>: the fuzzing loop with the process of \<open>HF_Subproc\<close> and the reports of \<open>HF_Crash\<close> in the
    place of its parameters (locale \<open>target_frame\<close>, interpreted on them).
  \<^item> \<open>HF_Persist\<close>, \<open>HF_Persist_Props\<close>: the side of a persistent process (\<open>libhfuzz/fetch.c\<close>,
    \<open>persistent.c\<close>, \<open>performance.c\<close>), and both sides of the dialogue as a step relation: safety, no
    deadlock; the check of the speed.
  \<^item> \<open>HF_CC\<close>, \<open>HF_CC_Props\<close>: the compiler wrapper \<open>hfuzz_cc/hfuzz-cc.c\<close>: which compiler is run with
    which arguments, the bounds of the argument vectors, the paths of the libraries.

  \<^bold>\<open>Bounds and parameters.\<close> Sizes and table lengths are those of the headers. Theorems assume
  a counter below \<open>2 ^ 64 - 1\<close> where the code increments one. The choice of the next input
  returns when tries are left or the next input is imported or has a small skip factor; the
  general loop depends on random numbers. No fuel is used: a loop that may run for ever is a
  \<open>partial_function\<close>, whose value is \<open>None\<close> when it does. The JSON library is a parameter that
  returns the fields of a text, libunwind one that returns frames. Clocks, directory listings and
  file contents are part of the state; what the other system calls return (transfers, \<open>fork\<close>,
  \<open>waitpid\<close>, signals, limits) and what the target does are parameters.

  \<^bold>\<open>Not modelled.\<close> Locks (the code takes them around the modelled operations; the lock-free
  tables and dictionary, the change of the phase and the dialogue are modelled with their interleavings),
  logging and the display; name spaces, perf events, libbfd and the layers of other systems,
  which are sequences of system calls; the network driver and the socket fuzzer; the options of
  \<open>cmdline.c\<close> over \<open>getopt_long\<close> and the start-up in \<open>honggfuzz.c\<close>; the hash table of \<open>libhfcommon/hash.c\<close>, which nothing calls; and the Python
  and C++ tools and vendored libraries beside the fuzzer, above all the static analyser SVF,
  which is a project of its own.
\<close>

end
